(* ===== verification/Prelude.thy ===== *)
theory Prelude
  imports Main "HOL-Library.Sublist" "HOL-Library.AList"
begin

text \<open>
  Shared vocabulary of the development: the Go string functions the sources use (a Go
  \<open>string\<close> is its list of bytes, the type \<open>string\<close> here), the result type of fallible
  operations, instants, and the generic lemmas on lists and finite maps that the
  component theories hand to the simplifier.
\<close>

section \<open>Results, instants, collections\<close>

text \<open>
  A Go function that returns \<open>(T, error)\<close> is a function into \<open>'e + 'a\<close>: \<open>Inl\<close> carries the
  error, \<open>Inr\<close> the value. A \<open>time.Time\<close> is its number of nanoseconds, with \<open>0\<close> for the zero
  time (\<open>IsZero\<close>), which lies before every other instant in Go's order as well; a
  \<open>time.Duration\<close> is an integer number of nanoseconds.
\<close>

type_synonym instant = nat
type_synonym duration = int

abbreviation second :: nat where "second \<equiv> 1000000000"

named_theorems go_defs \<open>definitions of the Go library functions\<close>

section \<open>Characters\<close>

definition is_digit :: "char \<Rightarrow> bool" where
  "is_digit c \<longleftrightarrow> c \<in> set ''0123456789''"

definition is_lower :: "char \<Rightarrow> bool" where
  "is_lower c \<longleftrightarrow> c \<in> set ''abcdefghijklmnopqrstuvwxyz''"

definition is_upper :: "char \<Rightarrow> bool" where
  "is_upper c \<longleftrightarrow> c \<in> set ''ABCDEFGHIJKLMNOPQRSTUVWXYZ''"

definition is_alpha :: "char \<Rightarrow> bool" where
  "is_alpha c \<longleftrightarrow> is_lower c \<or> is_upper c"

definition is_ascii :: "char \<Rightarrow> bool" where
  "is_ascii c \<longleftrightarrow> (of_char c :: nat) < 128"

text \<open>ASCII case mapping of one byte, by position in the alphabet.\<close>

definition ascii_lower :: "char \<Rightarrow> char" where
  "ascii_lower c = (if is_upper c then char_of ((of_char c :: nat) + 32) else c)"

definition ascii_upper :: "char \<Rightarrow> char" where
  "ascii_upper c = (if is_lower c then char_of ((of_char c :: nat) - 32) else c)"

text \<open>The class \<open>\s\<close> of Go's regular expressions, which leaves out the vertical tab.\<close>

definition re_space :: "char \<Rightarrow> bool" where
  "re_space c \<longleftrightarrow> c \<in> {CHR '' '', CHR 0x09, CHR 0x0A, CHR 0x0C, CHR 0x0D}"

section \<open>Functions of package strings\<close>

text \<open>
  \<open>strings.TrimSpace\<close> removes Unicode white space at both ends. The byte sequences below are
  the UTF-8 encodings of the code points of \<open>unicode.IsSpace\<close>; no other byte sequence
  decodes to one of them, so trimming runes is trimming these sequences.
\<close>

definition space_seqs :: "string list" where
  "space_seqs =
     [[CHR 0x09], [CHR 0x0A], [CHR 0x0B], [CHR 0x0C], [CHR 0x0D], [CHR '' ''],
      [CHR 0xC2, CHR 0x85], [CHR 0xC2, CHR 0xA0], [CHR 0xE1, CHR 0x9A, CHR 0x80],
      [CHR 0xE2, CHR 0x80, CHR 0x80], [CHR 0xE2, CHR 0x80, CHR 0x81],
      [CHR 0xE2, CHR 0x80, CHR 0x82], [CHR 0xE2, CHR 0x80, CHR 0x83],
      [CHR 0xE2, CHR 0x80, CHR 0x84], [CHR 0xE2, CHR 0x80, CHR 0x85],
      [CHR 0xE2, CHR 0x80, CHR 0x86], [CHR 0xE2, CHR 0x80, CHR 0x87],
      [CHR 0xE2, CHR 0x80, CHR 0x88], [CHR 0xE2, CHR 0x80, CHR 0x89],
      [CHR 0xE2, CHR 0x80, CHR 0x8A], [CHR 0xE2, CHR 0x80, CHR 0xA8],
      [CHR 0xE2, CHR 0x80, CHR 0xA9], [CHR 0xE2, CHR 0x80, CHR 0xAF],
      [CHR 0xE2, CHR 0x81, CHR 0x9F], [CHR 0xE3, CHR 0x80, CHR 0x80]]"

function drop_seqs :: "string list \<Rightarrow> string \<Rightarrow> string" where
  "drop_seqs qs s =
     (case find (\<lambda>q. q \<noteq> [] \<and> prefix q s) qs of
        None \<Rightarrow> s
      | Some q \<Rightarrow> drop_seqs qs (drop (length q) s))"
  by pat_completeness auto
termination
  by (relation "measure (\<lambda>(qs, s). length s)")
     (auto simp: find_Some_iff prefix_def dest!: nth_mem)

declare drop_seqs.simps [simp del]

definition trim_space :: "string \<Rightarrow> string" where
  "trim_space s = rev (drop_seqs (map rev space_seqs) (rev (drop_seqs space_seqs s)))"

text \<open>
  \<open>strings.ToLower\<close>: byte by byte on ASCII input. Outside ASCII it consults Go's generated
  Unicode tables; that part is the parameter \<open>ul\<close>, and the theorems hold whatever it is.
\<close>

definition to_lower :: "(string \<Rightarrow> string) \<Rightarrow> string \<Rightarrow> string" where
  "to_lower ul s = (if list_all is_ascii s then map ascii_lower s else ul s)"

definition trim_prefix :: "string \<Rightarrow> string \<Rightarrow> string" where
  "trim_prefix p s = (if prefix p s then drop (length p) s else s)"

fun index_byte :: "char \<Rightarrow> string \<Rightarrow> nat option" where
  "index_byte c [] = None"
| "index_byte c (x # xs) = (if x = c then Some 0 else map_option Suc (index_byte c xs))"

text \<open>
  \<open>strings.ReplaceAll\<close> for a non-empty pattern: replaces the occurrences from left to right,
  without overlaps.
\<close>

function replace_all :: "string \<Rightarrow> string \<Rightarrow> string \<Rightarrow> string" where
  "replace_all old new [] = []"
| "replace_all old new (c # s) =
     (if old \<noteq> [] \<and> prefix old (c # s) then new @ replace_all old new (drop (length old - 1) s)
      else c # replace_all old new s)"
  by pat_completeness auto
termination by (relation "measure (\<lambda>(old, new, s). length s)") auto

text \<open>\<open>strings.Contains\<close>, the text of a byte list, \<open>strconv.Atoi\<close> and the verb \<open>%d\<close>.\<close>

fun contains :: "string \<Rightarrow> string \<Rightarrow> bool" where
  "contains [] sub = (sub = [])"
| "contains (c # s) sub = (prefix sub (c # s) \<or> contains s sub)"

definition bytes :: "nat list \<Rightarrow> string" where
  "bytes ns = map char_of ns"

definition digits_value :: "string \<Rightarrow> nat" where
  "digits_value ds = foldl (\<lambda>v ch. 10 * v + (of_char ch - 48)) 0 ds"

definition atoi :: "string \<Rightarrow> int option" where
  "atoi s =
     (let neg = prefix ''-'' s;
          ds = (if neg \<or> prefix ''+'' s then drop 1 s else s);
          v = (if neg then - int (digits_value ds) else int (digits_value ds))
      in if ds = [] \<or> \<not> list_all is_digit ds then None
         else if v < - (2 ^ 63) \<or> 2 ^ 63 \<le> v then None else Some v)"

fun nat_digits :: "nat \<Rightarrow> string" where
  "nat_digits n = (if n < 10 then [char_of (48 + n)] else nat_digits (n div 10) @ [char_of (48 + n mod 10)])"

declare nat_digits.simps [simp del]

definition format_d :: "int \<Rightarrow> string" where
  "format_d n = (if n < 0 then CHR ''-'' # nat_digits (nat (- n)) else nat_digits (nat n))"

section \<open>Lemmas on strings\<close>

lemma contains_iff: "contains s sub \<longleftrightarrow> (\<exists>p q. s = p @ sub @ q)"
proof (induction s)
  case (Cons c s)
  have "(\<exists>p q. c # s = p @ sub @ q) \<longleftrightarrow> prefix sub (c # s) \<or> (\<exists>p q. s = p @ sub @ q)"
  proof
    assume "\<exists>p q. c # s = p @ sub @ q"
    then obtain p q where "c # s = p @ sub @ q" by blast
    then show "prefix sub (c # s) \<or> (\<exists>p q. s = p @ sub @ q)" by (cases p) (auto simp: prefix_def)
  next
    assume "prefix sub (c # s) \<or> (\<exists>p q. s = p @ sub @ q)"
    then show "\<exists>p q. c # s = p @ sub @ q"
      by (metis Cons_eq_appendI append_Nil prefix_def)
  qed
  with Cons show ?case by simp
qed simp


lemma index_byte_None [simp]: "index_byte c s = None \<longleftrightarrow> c \<notin> set s"
  by (induction s) auto

lemma index_byte_append:
  "c \<notin> set xs \<Longrightarrow> index_byte c (xs @ c # ys) = Some (length xs)"
  by (induction xs) auto

lemma index_byte_SomeD:
  "index_byte c s = Some i \<Longrightarrow> i < length s \<and> s ! i = c \<and> c \<notin> set (take i s)"
  by (induction s arbitrary: i) (auto split: if_splits)

lemma index_byte_split:
  assumes "index_byte c s = Some i"
  shows "s = take i s @ c # drop (Suc i) s"
  using index_byte_SomeD [OF assms] id_take_nth_drop [of i s] by simp

lemma trim_prefix_append [simp]: "trim_prefix p (p @ s) = s"
  by (simp add: trim_prefix_def)

lemma drop_seqs_Nil [simp]: "drop_seqs qs [] = []"
  by (subst drop_seqs.simps) (auto split: option.splits simp: find_Some_iff dest!: nth_mem)

lemma drop_seqs_id: "(\<And>q. q \<in> set qs \<Longrightarrow> q \<noteq> [] \<Longrightarrow> \<not> prefix q s) \<Longrightarrow> drop_seqs qs s = s"
  by (subst drop_seqs.simps) (auto split: option.splits simp: find_Some_iff dest!: nth_mem)

lemma drop_seqs_fixed: "q \<in> set qs \<Longrightarrow> q \<noteq> [] \<Longrightarrow> \<not> prefix q (drop_seqs qs s)"
proof (induction qs s rule: drop_seqs.induct)
  case (1 qs s)
  show ?case
  proof (cases "find (\<lambda>q. q \<noteq> [] \<and> prefix q s) qs")
    case None
    then have "drop_seqs qs s = s" by (subst drop_seqs.simps) simp
    with None 1 show ?thesis by (auto simp: find_None_iff)
  next
    case (Some p)
    with 1 show ?thesis by (simp add: drop_seqs.simps [of qs s])
  qed
qed

lemma drop_seqs_suffix: "suffix (drop_seqs qs s) s"
proof (induction qs s rule: drop_seqs.induct)
  case (1 qs s)
  show ?case
  proof (cases "find (\<lambda>q. q \<noteq> [] \<and> prefix q s) qs")
    case None
    then show ?thesis by (simp add: drop_seqs.simps [of qs s])
  next
    case (Some p)
    then have "suffix (drop_seqs qs s) (drop (length p) s)"
      using 1 by (simp add: drop_seqs.simps [of qs s])
    then show ?thesis using suffix_drop suffix_order.trans by blast
  qed
qed

lemma drop_seqs_idem [simp]: "drop_seqs qs (drop_seqs qs s) = drop_seqs qs s"
  by (rule drop_seqs_id) (rule drop_seqs_fixed)

lemma trim_space_idem [simp]: "trim_space (trim_space s) = trim_space s"
proof -
  let ?f = "drop_seqs space_seqs"
  let ?b = "\<lambda>x. rev (drop_seqs (map rev space_seqs) (rev x))"
  have pre: "prefix (?b x) x" for x
    using drop_seqs_suffix [of "map rev space_seqs" "rev x"] by (simp add: suffix_to_prefix)
  have "\<not> prefix q (?b (?f s))" if "q \<in> set space_seqs" "q \<noteq> []" for q
    using that drop_seqs_fixed [of q space_seqs s] pre prefix_order.trans by blast
  then have "?f (?b (?f s)) = ?b (?f s)" by (intro drop_seqs_id) auto
  then show ?thesis by (simp add: trim_space_def)
qed

section \<open>Go maps\<close>

text \<open>
  A Go map whose entries the code ranges over is an association list without repeated keys:
  \<open>map_of m k\<close> is \<open>m[k]\<close>, \<open>AList.update\<close> the assignment, \<open>AList.delete\<close> the built-in
  \<open>delete\<close>. The order of the list stands for the unspecified iteration order, so what is
  proved holds for each order. \<open>asum\<close> is the sum a \<open>range\<close> loop accumulates.
\<close>

type_synonym ('k, 'v) gomap = "('k \<times> 'v) list"

definition gomap_ok :: "('k, 'v) gomap \<Rightarrow> bool" where
  "gomap_ok m \<longleftrightarrow> distinct (map fst m)"

definition asum :: "('v \<Rightarrow> int) \<Rightarrow> ('k, 'v) gomap \<Rightarrow> int" where
  "asum f m = sum_list (map (\<lambda>kv. f (snd kv)) m)"

named_theorems gomap_simps \<open>lookup, update and deletion of Go maps\<close>

declare update_conv' [gomap_simps] delete_conv' [gomap_simps]

lemma gomap_ok_Nil [simp]: "gomap_ok []"
  by (simp add: gomap_ok_def)

lemma gomap_ok_update [simp]: "gomap_ok m \<Longrightarrow> gomap_ok (AList.update k v m)"
  by (simp add: gomap_ok_def distinct_update)

lemma gomap_ok_delete [simp]: "gomap_ok m \<Longrightarrow> gomap_ok (AList.delete k m)"
  by (simp add: gomap_ok_def distinct_delete)

lemma gomap_ok_map [simp]: "gomap_ok (map (\<lambda>(k, v). (k, f k v)) m) = gomap_ok m"
  by (simp add: gomap_ok_def comp_def case_prod_beta)

lemma map_of_map_val: "map_of (map (\<lambda>(k, v). (k, f k v)) m) k = map_option (f k) (map_of m k)"
  by (induction m) auto

lemma gomap_set_iff: "gomap_ok m \<Longrightarrow> (k, v) \<in> set m \<longleftrightarrow> map_of m k = Some v"
  by (simp add: gomap_ok_def)

lemma asum_Nil [simp]: "asum f [] = 0"
  by (simp add: asum_def)

lemma asum_Cons [simp]: "asum f ((k, v) # m) = f v + asum f m"
  by (simp add: asum_def)

lemma asum_nonneg: "(\<And>k v. (k, v) \<in> set m \<Longrightarrow> 0 \<le> f v) \<Longrightarrow> 0 \<le> asum f m"
  unfolding asum_def by (rule sum_list_nonneg) auto

lemma asum_zero: "(\<And>k v. (k, v) \<in> set m \<Longrightarrow> f v = 0) \<Longrightarrow> asum f m = 0"
  by (induction m) force+

lemma asum_delete:
  "gomap_ok m \<Longrightarrow>
   asum f (AList.delete k m) = asum f m - (case map_of m k of None \<Rightarrow> 0 | Some v \<Rightarrow> f v)"
proof (induction m)
  case (Cons kv m)
  obtain k' v' where kv: "kv = (k', v')" by (cases kv)
  with Cons.prems have "k' \<notin> fst ` set m" "gomap_ok m" by (simp_all add: gomap_ok_def)
  with Cons.IH kv show ?case by (cases "k' = k") (auto simp: map_of_eq_None_iff [symmetric])
qed (simp add: gomap_ok_def)

lemma asum_update:
  "gomap_ok m \<Longrightarrow>
   asum f (AList.update k v m)
     = asum f m - (case map_of m k of None \<Rightarrow> 0 | Some w \<Rightarrow> f w) + f v"
proof (induction m)
  case (Cons kv m)
  obtain k' v' where kv: "kv = (k', v')" by (cases kv)
  with Cons.prems have "k' \<notin> fst ` set m" "gomap_ok m" by (simp_all add: gomap_ok_def)
  with Cons.IH kv show ?case by (cases "k' = k") (auto simp: map_of_eq_None_iff [symmetric])
qed (simp add: gomap_ok_def)

lemma asum_cong_map_of:
  assumes "gomap_ok m" and "gomap_ok m'" and "map_of m = map_of m'"
  shows "asum f m = asum f m'"
proof -
  have "set m = set m'"
    using assms by (metis gomap_ok_def map_of_inject_set)
  moreover have "distinct m" "distinct m'"
    using assms by (auto simp: gomap_ok_def distinct_map)
  ultimately show ?thesis by (simp add: asum_def sum_list_distinct_conv_sum_set)
qed

lemma asum_change:
  assumes "gomap_ok m" and "gomap_ok m'" and "map_of m' = (map_of m)(k := vo)"
  shows "asum f m' = asum f m - (case map_of m k of None \<Rightarrow> 0 | Some w \<Rightarrow> f w)
                       + (case vo of None \<Rightarrow> 0 | Some v \<Rightarrow> f v)"
proof (cases vo)
  case None
  then have "asum f m' = asum f (AList.delete k m)"
    using assms by (intro asum_cong_map_of) (simp_all add: gomap_simps)
  with None assms(1) show ?thesis by (simp add: asum_delete)
next
  case (Some v)
  then have "asum f m' = asum f (AList.update k v m)"
    using assms by (intro asum_cong_map_of) (simp_all add: gomap_simps)
  with Some assms(1) show ?thesis by (simp add: asum_update)
qed

section \<open>Transactions\<close>

text \<open>What becomes of the commit of a database transaction. One whose acknowledgement is lost has taken effect,
  but its caller gets an error.\<close>

datatype commit_outcome = Committed | Not_Committed | Ack_Lost

section \<open>Integer division\<close>

text \<open>Go's \<open>/\<close> on integers truncates towards zero.\<close>

definition go_div :: "int \<Rightarrow> int \<Rightarrow> int" where
  "go_div a b = sgn a * sgn b * (\<bar>a\<bar> div \<bar>b\<bar>)"

lemma go_div_pos [simp]: "0 \<le> a \<Longrightarrow> 0 < b \<Longrightarrow> go_div a b = a div b"
  by (auto simp: go_div_def sgn_if)

lemma go_div_neg: "a < 0 \<Longrightarrow> 0 < b \<Longrightarrow> go_div a b \<le> 0"
  by (auto simp: go_div_def sgn_if pos_imp_zdiv_nonneg_iff)

lemma go_div_mult_le:
  assumes "0 < b" and "0 < go_div a b"
  shows "go_div a b * b \<le> a"
proof -
  have "0 \<le> a" using assms go_div_neg [of a b] by force
  moreover have "a div b * b + a mod b = a" by (rule div_mult_mod_eq)
  moreover have "0 \<le> a mod b" using assms(1) by simp
  ultimately show ?thesis using assms(1) by (simp only: go_div_pos)
qed

lemma le_go_div_iff:
  assumes "1 \<le> n" and "0 < b"
  shows "n \<le> go_div a b \<longleftrightarrow> n * b \<le> a"
proof
  assume n: "n \<le> go_div a b"
  then have "n * b \<le> go_div a b * b" using assms by (simp add: mult_right_mono)
  also have "\<dots> \<le> a" using assms n by (intro go_div_mult_le) simp_all
  finally show "n * b \<le> a" .
next
  assume nb: "n * b \<le> a"
  with assms have "0 \<le> a" using mult_pos_pos [of n b] by linarith
  have "n = n * b div b" using assms by simp
  also have "\<dots> \<le> a div b" using nb assms(2) by (rule zdiv_mono1)
  finally show "n \<le> go_div a b" using \<open>0 \<le> a\<close> assms(2) by simp
qed

end
