(* ===== verification/Spool.thy ===== *)
theory Spool
  imports Prelude
begin

text \<open>
  The result spool of a download worker (\<open>internal/downloadworker/spool.go\<close>): a durable
  catalogue of download attempts and the PDF bodies of the finished ones, held until the
  master archives them. State strings and error returns are the source's. The file system
  enters as the result of each durable write (\<open>io_res\<close>) and the free space reported by
  \<open>statfs\<close>; SHA-256 is the parameter \<open>sha\<close>.
\<close>

section \<open>Data\<close>

record paper_ref =
  pr_arxiv :: string
  pr_doi :: string
  pr_openalex :: string
  pr_title :: string
  pr_authors :: "string list"
  pr_year :: int

record assignment =
  as_task :: string
  as_attempt :: string
  as_ref :: paper_ref
  as_lease_expires :: instant
  as_deadline :: instant
  as_max_pdf :: int

record trace =
  tr_strategy :: string
  tr_url :: string
  tr_error :: string
  tr_millis :: int

record result_metadata =
  rm_doi :: string
  rm_arxiv :: string
  rm_version :: int
  rm_source_url :: string
  rm_strategy :: string
  rm_trace :: "trace list"

record receipt =
  rc_task :: string
  rc_attempt :: string
  rc_state :: string
  rc_sha :: string
  rc_size :: int
  rc_error :: string

definition no_metadata :: result_metadata where
  "no_metadata = \<lparr>rm_doi = [], rm_arxiv = [], rm_version = 0, rm_source_url = [],
     rm_strategy = [], rm_trace = []\<rparr>"

record spool_record =
  sr_assignment :: assignment
  sr_state :: string
  sr_created :: instant
  sr_ready_at :: instant
  sr_size :: int
  sr_sha :: string
  sr_strategy :: string
  sr_metadata :: result_metadata
  sr_failure :: string
  sr_error :: string

text \<open>
  The in-memory spool together with the part of its directory the operations write:
  \<open>sp_disk\<close> is the content of \<open>records.json\<close>, \<open>sp_pdfs\<close> maps an attempt id to the body of
  \<open><id>.pdf\<close>.
\<close>

record spool =
  sp_max :: int
  sp_ttl :: nat
  sp_records :: "(string, spool_record) gomap"
  sp_busy :: "string set"
  sp_disk :: "(string, spool_record) gomap"
  sp_pdfs :: "string \<rightharpoonup> string"

datatype spool_error =
    InvalidLimits | CatalogInvalid | BadAttemptIdentity | ReadyPdfMissing | ReadyPdfCorrupt
  | UnknownState | InvalidAssignment | AlreadyRecorded | CapacityExhausted | NotRunning
  | ExceedsTaskLimit | UnknownAttempt | ReadyImmutable | ResultUnavailable
  | StillRetained | NotAcknowledged | IoError

text \<open>
  The outcome of one atomic file replacement (\<open>atomicFile\<close>): written; failed before the
  rename, so that nothing changed; or failed in the directory sync after the rename, so that
  the file did change although the call reports an error.
\<close>

datatype io_res = IoOk | IoFail | IoFailLate

definition max_pdf_bytes :: int where
  "max_pdf_bytes = 100 * 2 ^ 20"

definition safe_id :: "string \<Rightarrow> bool" where
  "safe_id s \<longleftrightarrow> 1 \<le> length s \<and> length s \<le> 128 \<and>
     list_all (\<lambda>c. is_lower c \<or> is_upper c \<or> is_digit c \<or> c = CHR ''_'' \<or> c = CHR ''-'') s"

section \<open>Operations\<close>

definition save_locked :: "io_res \<Rightarrow> spool \<Rightarrow> bool \<times> spool" where
  "save_locked io s =
     (case io of
        IoOk \<Rightarrow> (True, s\<lparr>sp_disk := sp_records s\<rparr>)
      | IoFail \<Rightarrow> (False, s)
      | IoFailLate \<Rightarrow> (False, s\<lparr>sp_disk := sp_records s\<rparr>))"

definition usage_locked :: "spool \<Rightarrow> int" where
  "usage_locked s = asum (\<lambda>r. if sr_state r = ''ready'' then sr_size r else 0) (sp_records s)"

definition running_count :: "spool \<Rightarrow> int" where
  "running_count s = asum (\<lambda>r. if sr_state r = ''running'' then 1 else 0) (sp_records s)"

text \<open>\<open>slotsLocked\<close>; \<open>free\<close> is what \<open>statfs\<close> reports (0 when it fails).\<close>

definition slots_locked :: "int \<Rightarrow> int \<Rightarrow> spool \<Rightarrow> int" where
  "slots_locked free limit s =
     (let used = usage_locked s;
          running = running_count s;
          remaining = sp_max s - used - running * max_pdf_bytes;
          f = free - running * max_pdf_bytes - 2 ^ 20;
          remaining = (if f < remaining then f else remaining);
          slots = go_div remaining max_pdf_bytes;
          slots = (if slots < 0 then 0 else slots);
          available = limit - running;
          slots = (if slots > available then available else slots)
      in if slots < 0 then 0 else slots)"

definition new_record :: "assignment \<Rightarrow> instant \<Rightarrow> spool_record" where
  "new_record a now =
     \<lparr>sr_assignment = a, sr_state = ''running'', sr_created = now, sr_ready_at = 0, sr_size = 0,
      sr_sha = [], sr_strategy = [], sr_metadata = no_metadata, sr_failure = [], sr_error = []\<rparr>"

definition start :: "assignment \<Rightarrow> int \<Rightarrow> instant \<Rightarrow> int \<Rightarrow> io_res \<Rightarrow> spool
    \<Rightarrow> spool_error option \<times> spool" where
  "start a concurrency now free io s =
     (if \<not> safe_id (as_attempt a) \<or> \<not> safe_id (as_task a) then (Some InvalidAssignment, s)
      else if map_of (sp_records s) (as_attempt a) \<noteq> None then (Some AlreadyRecorded, s)
      else if slots_locked free concurrency s < 1 then (Some CapacityExhausted, s)
      else
        let s' = s\<lparr>sp_records := AList.update (as_attempt a) (new_record a now) (sp_records s)\<rparr>
        in case save_locked io s' of
             (True, t) \<Rightarrow> (None, t)
           | (False, t) \<Rightarrow>
               (Some IoError, t\<lparr>sp_records := AList.delete (as_attempt a) (sp_records t)\<rparr>))"

text \<open>The effect of \<open>atomicFile\<close> on the body of an attempt.\<close>

definition write_pdf :: "io_res \<Rightarrow> string \<Rightarrow> string \<Rightarrow> spool \<Rightarrow> bool \<times> spool" where
  "write_pdf io aid body s =
     (case io of
        IoOk \<Rightarrow> (True, s\<lparr>sp_pdfs := (sp_pdfs s)(aid \<mapsto> body)\<rparr>)
      | IoFail \<Rightarrow> (False, s)
      | IoFailLate \<Rightarrow> (False, s\<lparr>sp_pdfs := (sp_pdfs s)(aid \<mapsto> body)\<rparr>))"

definition task_limit :: "spool_record \<Rightarrow> int" where
  "task_limit r =
     (if 0 < as_max_pdf (sr_assignment r) \<and> as_max_pdf (sr_assignment r) < max_pdf_bytes
      then as_max_pdf (sr_assignment r) else max_pdf_bytes)"

text \<open>
  \<open>Ready\<close>: \<open>wio\<close> is the outcome of writing the body, \<open>stat_ok\<close> whether \<open>os.Stat\<close> succeeds,
  \<open>io\<close> the outcome of saving the catalogue. The reader is cut after \<open>max + 1\<close> bytes.
\<close>

definition ready :: "(string \<Rightarrow> string) \<Rightarrow> string \<Rightarrow> string \<Rightarrow> result_metadata \<Rightarrow> instant
    \<Rightarrow> io_res \<Rightarrow> bool \<Rightarrow> io_res \<Rightarrow> spool \<Rightarrow> spool_error option \<times> spool" where
  "ready sha aid body meta now wio stat_ok io s =
     (case map_of (sp_records s) aid of
        None \<Rightarrow> (Some NotRunning, s)
      | Some r \<Rightarrow>
          if sr_state r \<noteq> ''running'' then (Some NotRunning, s)
          else
            let mx = task_limit r; content = take (nat (mx + 1)) body in
            case write_pdf wio aid content s of
              (False, t) \<Rightarrow> (Some IoError, t)
            | (True, t) \<Rightarrow>
                if \<not> stat_ok then (Some IoError, t)
                else if int (length content) > mx
                then (Some ExceedsTaskLimit, t\<lparr>sp_pdfs := (sp_pdfs t)(aid := None)\<rparr>)
                else
                  let r' = r\<lparr>sr_state := ''ready'', sr_ready_at := now,
                             sr_size := int (length content), sr_sha := sha content,
                             sr_strategy := rm_strategy meta, sr_metadata := meta\<rparr>;
                      t' = t\<lparr>sp_records := AList.update aid r' (sp_records t)\<rparr>
                  in case save_locked io t' of
                       (True, u) \<Rightarrow> (None, u)
                     | (False, u) \<Rightarrow>
                         (Some IoError, u\<lparr>sp_records := AList.update aid r (sp_records u)\<rparr>))"

definition fail_with_trace :: "string \<Rightarrow> string \<Rightarrow> string \<Rightarrow> trace list \<Rightarrow> io_res \<Rightarrow> spool
    \<Rightarrow> spool_error option \<times> spool" where
  "fail_with_trace aid code msg tr io s =
     (case map_of (sp_records s) aid of
        None \<Rightarrow> (Some UnknownAttempt, s)
      | Some r \<Rightarrow>
          if sr_state r = ''ready'' then (Some ReadyImmutable, s)
          else
            let r' = r\<lparr>sr_state := ''failed'', sr_failure := code, sr_error := msg,
                       sr_metadata := (sr_metadata r)\<lparr>rm_trace := tr\<rparr>\<rparr>;
                s' = s\<lparr>sp_records := AList.update aid r' (sp_records s)\<rparr>
            in case save_locked io s' of
                 (True, t) \<Rightarrow> (None, t)
               | (False, t) \<Rightarrow>
                   (Some IoError, t\<lparr>sp_records := AList.update aid r (sp_records t)\<rparr>))"

definition fail :: "string \<Rightarrow> string \<Rightarrow> string \<Rightarrow> io_res \<Rightarrow> spool \<Rightarrow> spool_error option \<times> spool" where
  "fail aid code msg io s = fail_with_trace aid code msg [] io s"

text \<open>
  One iteration of the loop of \<open>Expire\<close>; \<open>io\<close> and \<open>rm\<close> give, per attempt, the outcome of
  saving the catalogue and whether removing the body succeeds.
\<close>

definition expire_one :: "instant \<Rightarrow> (string \<Rightarrow> io_res) \<Rightarrow> (string \<Rightarrow> bool) \<Rightarrow> string \<Rightarrow> spool
    \<Rightarrow> spool_error option \<times> spool" where
  "expire_one now io rm aid s =
     (case map_of (sp_records s) aid of
        None \<Rightarrow> (None, s)
      | Some r \<Rightarrow>
          if sr_state r \<noteq> ''ready'' \<or> aid \<in> sp_busy s \<or> now < sr_ready_at r + sp_ttl s
          then (None, s)
          else
            let r' = r\<lparr>sr_state := ''expired'', sr_failure := ''timeout'',
                       sr_error := ''local result retention expired''\<rparr>;
                s' = s\<lparr>sp_records := AList.update aid r' (sp_records s)\<rparr>
            in case save_locked (io aid) s' of
                 (False, t) \<Rightarrow>
                   (Some IoError, t\<lparr>sp_records := AList.update aid r (sp_records t)\<rparr>)
               | (True, t) \<Rightarrow>
                   if rm aid then (None, t\<lparr>sp_pdfs := (sp_pdfs t)(aid := None)\<rparr>)
                   else (Some IoError, t))"

fun expire_loop :: "instant \<Rightarrow> (string \<Rightarrow> io_res) \<Rightarrow> (string \<Rightarrow> bool) \<Rightarrow> string list \<Rightarrow> spool
    \<Rightarrow> spool_error option \<times> spool" where
  "expire_loop now io rm [] s = (None, s)"
| "expire_loop now io rm (aid # ids) s =
     (case expire_one now io rm aid s of
        (Some e, t) \<Rightarrow> (Some e, t)
      | (None, t) \<Rightarrow> expire_loop now io rm ids t)"

definition expire :: "instant \<Rightarrow> (string \<Rightarrow> io_res) \<Rightarrow> (string \<Rightarrow> bool) \<Rightarrow> bool \<Rightarrow> spool
    \<Rightarrow> spool_error option \<times> spool" where
  "expire now io rm sync s =
     (case expire_loop now io rm (map fst (sp_records s)) s of
        (Some e, t) \<Rightarrow> (Some e, t)
      | (None, t) \<Rightarrow> (if sync then None else Some IoError, t))"

text \<open>\<open>BeginUpload\<close> returns the record and the opened body; \<open>open_ok\<close> is the result of opening it.\<close>

definition begin_upload :: "string \<Rightarrow> bool \<Rightarrow> spool
    \<Rightarrow> (spool_error + spool_record \<times> string) \<times> spool" where
  "begin_upload aid open_ok s =
     (case map_of (sp_records s) aid of
        None \<Rightarrow> (Inl ResultUnavailable, s)
      | Some r \<Rightarrow>
          if sr_state r \<noteq> ''ready'' \<or> aid \<in> sp_busy s then (Inl ResultUnavailable, s)
          else case sp_pdfs s aid of
            None \<Rightarrow> (Inl IoError, s)
          | Some body \<Rightarrow>
              if open_ok then (Inr (r, body), s\<lparr>sp_busy := insert aid (sp_busy s)\<rparr>)
              else (Inl IoError, s))"

definition end_upload :: "string \<Rightarrow> spool \<Rightarrow> spool" where
  "end_upload aid s = s\<lparr>sp_busy := sp_busy s - {aid}\<rparr>"

definition receipt_matches :: "string \<Rightarrow> receipt \<Rightarrow> spool_record \<Rightarrow> bool" where
  "receipt_matches aid rc r \<longleftrightarrow>
     \<not> (sr_state r \<noteq> ''ready'' \<or> rc_state rc \<noteq> ''done'' \<or> rc_attempt rc \<noteq> aid \<or>
        rc_task rc \<noteq> as_task (sr_assignment r) \<or> rc_sha rc \<noteq> sr_sha r \<or> rc_size rc \<noteq> sr_size r)"

text \<open>\<open>Archived\<close> returns whether the receipt released the result, with an optional error.\<close>

definition archived :: "string \<Rightarrow> receipt \<Rightarrow> io_res \<Rightarrow> bool \<Rightarrow> bool \<Rightarrow> spool
    \<Rightarrow> bool \<times> spool_error option \<times> spool" where
  "archived aid rc io rm sync s =
     (case map_of (sp_records s) aid of
        None \<Rightarrow> (False, None, s)
      | Some r \<Rightarrow>
          if \<not> receipt_matches aid rc r then (False, None, s)
          else
            let s' = s\<lparr>sp_records := AList.delete aid (sp_records s)\<rparr>
            in case save_locked io s' of
                 (False, t) \<Rightarrow>
                   (False, Some IoError, t\<lparr>sp_records := AList.update aid r (sp_records t)\<rparr>)
               | (True, t) \<Rightarrow>
                   if rm then (True, if sync then None else Some IoError,
                               t\<lparr>sp_pdfs := (sp_pdfs t)(aid := None)\<rparr>)
                   else (True, Some IoError, t))"

definition reported :: "string \<Rightarrow> receipt \<Rightarrow> io_res \<Rightarrow> spool \<Rightarrow> spool_error option \<times> spool" where
  "reported aid rc io s =
     (case map_of (sp_records s) aid of
        None \<Rightarrow> (None, s)
      | Some r \<Rightarrow>
          if sr_state r \<noteq> ''failed'' \<and> sr_state r \<noteq> ''expired'' then (Some StillRetained, s)
          else if rc_attempt rc \<noteq> aid \<or> rc_task rc \<noteq> as_task (sr_assignment r) \<or>
                  (rc_state rc \<noteq> ''failed'' \<and> rc_state rc \<noteq> ''expired'' \<and> rc_state rc \<noteq> ''done'')
          then (Some NotAcknowledged, s)
          else
            let s' = s\<lparr>sp_records := AList.delete aid (sp_records s)\<rparr>
            in case save_locked io s' of
                 (True, t) \<Rightarrow> (None, t)
               | (False, t) \<Rightarrow>
                   (Some IoError, t\<lparr>sp_records := AList.update aid r (sp_records t)\<rparr>))"

section \<open>Opening the spool\<close>

text \<open>What reading and decoding \<open>records.json\<close> yields.\<close>

datatype catalog_file =
    CatMissing | CatUnreadable | CatCorrupt | CatNull | CatRecords "(string, spool_record) gomap"

text \<open>The per-record check of \<open>OpenSpool\<close>: an interrupted download becomes a failure, a ready
  result must still have the body it was recorded with.\<close>

definition recover_record :: "(string \<Rightarrow> string) \<Rightarrow> (string \<rightharpoonup> string) \<Rightarrow> string \<Rightarrow> spool_record
    \<Rightarrow> spool_error + spool_record" where
  "recover_record sha pdfs aid r =
     (if aid \<noteq> as_attempt (sr_assignment r) \<or> \<not> safe_id aid then Inl BadAttemptIdentity
      else if sr_state r = ''running''
      then Inr (r\<lparr>sr_state := ''failed'', sr_failure := ''internal'',
                  sr_error := ''worker restarted during download''\<rparr>)
      else if sr_state r = ''ready''
      then (case pdfs aid of
              None \<Rightarrow> Inl ReadyPdfMissing
            | Some body \<Rightarrow>
                if int (length body) \<noteq> sr_size r \<or> sha body \<noteq> sr_sha r then Inl ReadyPdfCorrupt
                else Inr r)
      else if sr_state r = ''failed'' \<or> sr_state r = ''expired'' then Inr r
      else Inl UnknownState)"

fun recover_all :: "(string \<Rightarrow> string) \<Rightarrow> (string \<rightharpoonup> string) \<Rightarrow> (string, spool_record) gomap
    \<Rightarrow> spool_error + (string, spool_record) gomap" where
  "recover_all sha pdfs [] = Inr []"
| "recover_all sha pdfs ((aid, r) # m) =
     (case recover_record sha pdfs aid r of
        Inl e \<Rightarrow> Inl e
      | Inr r' \<Rightarrow> (case recover_all sha pdfs m of Inl e \<Rightarrow> Inl e | Inr m' \<Rightarrow> Inr ((aid, r') # m')))"

text \<open>
  \<open>OpenSpool\<close> after it holds the directory lock. \<open>io\<close> is the outcome of saving the recovered
  catalogue, \<open>fs_ok\<close> whether listing the directory, removing the stale files and syncing
  succeed. Bodies without a ready record are removed.
\<close>

definition open_spool :: "(string \<Rightarrow> string) \<Rightarrow> int \<Rightarrow> nat \<Rightarrow> catalog_file \<Rightarrow> (string \<rightharpoonup> string)
    \<Rightarrow> io_res \<Rightarrow> bool \<Rightarrow> spool_error + spool" where
  "open_spool sha mx ttl cat pdfs io fs_ok =
     (if mx \<le> 0 \<or> ttl = 0 then Inl InvalidLimits
      else case cat of
        CatUnreadable \<Rightarrow> Inl IoError
      | CatCorrupt \<Rightarrow> Inl CatalogInvalid
      | CatNull \<Rightarrow> Inl CatalogInvalid
      | _ \<Rightarrow>
          (case recover_all sha pdfs (case cat of CatRecords m \<Rightarrow> m | _ \<Rightarrow> []) of
             Inl e \<Rightarrow> Inl e
           | Inr m \<Rightarrow>
               if io \<noteq> IoOk \<or> \<not> fs_ok then Inl IoError
               else Inr \<lparr>sp_max = mx, sp_ttl = ttl, sp_records = m, sp_busy = {}, sp_disk = m,
                         sp_pdfs = (\<lambda>aid. case map_of m aid of
                                     Some r \<Rightarrow> if sr_state r = ''ready'' then pdfs aid else None
                                   | None \<Rightarrow> None)\<rparr>))"

section \<open>The life of one attempt\<close>

text \<open>
  Every operation, whatever its input/output outcomes, moves at most one attempt along an
  edge of the following machine (\<open>ro\<close> and \<open>po\<close> are the record and the body afterwards).
  The capacity guard, the content digest, the retention deadline and the receipt check are
  premises of the edges, so the invariants below are proved once, over the edges.
\<close>

datatype cause =
    Because_Start | Because_Ready | Because_Fail | Because_Expire instant
  | Because_Archived receipt | Because_Reported | Because_Nothing

inductive spool_edge :: "(string \<Rightarrow> string) \<Rightarrow> spool \<Rightarrow> string \<Rightarrow> cause
    \<Rightarrow> spool_record option \<Rightarrow> string option \<Rightarrow> bool" for sha s aid where
  edge_same: "spool_edge sha s aid c (map_of (sp_records s) aid) (sp_pdfs s aid)"
| edge_scratch: "map_of (sp_records s) aid = Some r \<Longrightarrow> sr_state r = ''running'' \<Longrightarrow>
     spool_edge sha s aid Because_Ready (Some r) po"
| edge_start: "map_of (sp_records s) aid = None \<Longrightarrow> safe_id aid \<Longrightarrow> as_attempt a = aid \<Longrightarrow>
     1 \<le> slots_locked free limit s \<Longrightarrow>
     spool_edge sha s aid Because_Start (Some (new_record a now)) (sp_pdfs s aid)"
| edge_ready: "map_of (sp_records s) aid = Some r \<Longrightarrow> sr_state r = ''running'' \<Longrightarrow>
     int (length content) \<le> task_limit r \<Longrightarrow>
     spool_edge sha s aid Because_Ready
       (Some (r\<lparr>sr_state := ''ready'', sr_ready_at := now, sr_size := int (length content),
                sr_sha := sha content, sr_strategy := st, sr_metadata := meta\<rparr>)) (Some content)"
| edge_fail: "map_of (sp_records s) aid = Some r \<Longrightarrow> sr_state r \<noteq> ''ready'' \<Longrightarrow>
     spool_edge sha s aid Because_Fail
       (Some (r\<lparr>sr_state := ''failed'', sr_failure := f, sr_error := m, sr_metadata := meta\<rparr>))
       (sp_pdfs s aid)"
| edge_expire: "map_of (sp_records s) aid = Some r \<Longrightarrow> sr_state r = ''ready'' \<Longrightarrow>
     aid \<notin> sp_busy s \<Longrightarrow> sr_ready_at r + sp_ttl s \<le> now \<Longrightarrow>
     spool_edge sha s aid (Because_Expire now)
       (Some (r\<lparr>sr_state := ''expired'', sr_failure := f, sr_error := m\<rparr>)) po"
| edge_archived: "map_of (sp_records s) aid = Some r \<Longrightarrow> receipt_matches aid rc r \<Longrightarrow>
     spool_edge sha s aid (Because_Archived rc) None po"
| edge_reported: "map_of (sp_records s) aid = Some r \<Longrightarrow> sr_state r \<in> {''failed'', ''expired''} \<Longrightarrow>
     spool_edge sha s aid Because_Reported None (sp_pdfs s aid)"

definition moves :: "string \<Rightarrow> spool_record option \<Rightarrow> string option \<Rightarrow> spool \<Rightarrow> spool \<Rightarrow> bool" where
  "moves aid ro po s t \<longleftrightarrow>
     gomap_ok (sp_records t) \<and> sp_max t = sp_max s \<and> sp_ttl t = sp_ttl s \<and>
     map_of (sp_records t) = (map_of (sp_records s))(aid := ro) \<and>
     sp_pdfs t = (sp_pdfs s)(aid := po)"

definition takes_edge :: "(string \<Rightarrow> string) \<Rightarrow> string \<Rightarrow> cause \<Rightarrow> spool \<Rightarrow> spool \<Rightarrow> bool" where
  "takes_edge sha aid c s t \<longleftrightarrow> (\<exists>ro po. moves aid ro po s t \<and> spool_edge sha s aid c ro po)"

lemma takes_edgeI: "moves aid ro po s t \<Longrightarrow> spool_edge sha s aid c ro po \<Longrightarrow> takes_edge sha aid c s t"
  by (auto simp: takes_edge_def)

lemma takes_edge_same:
  "gomap_ok (sp_records t) \<Longrightarrow> sp_max t = sp_max s \<Longrightarrow> sp_ttl t = sp_ttl s \<Longrightarrow>
   map_of (sp_records t) = map_of (sp_records s) \<Longrightarrow> sp_pdfs t = sp_pdfs s \<Longrightarrow> takes_edge sha aid c s t"
  by (rule takes_edgeI [OF _ edge_same]) (simp add: moves_def)

lemma save_locked_case:
  "(case save_locked io s of (True, t) \<Rightarrow> f t | (False, t) \<Rightarrow> g t) =
   (if io = IoOk then f (s\<lparr>sp_disk := sp_records s\<rparr>)
    else if io = IoFail then g s else g (s\<lparr>sp_disk := sp_records s\<rparr>))"
  "(case save_locked io s of (False, t) \<Rightarrow> g t | (True, t) \<Rightarrow> f t) =
   (if io = IoOk then f (s\<lparr>sp_disk := sp_records s\<rparr>)
    else if io = IoFail then g s else g (s\<lparr>sp_disk := sp_records s\<rparr>))"
  by (cases io; simp add: save_locked_def)+

lemma write_pdf_case:
  "(case write_pdf io aid body s of (False, t) \<Rightarrow> g t | (True, t) \<Rightarrow> f t) =
   (if io = IoOk then f (s\<lparr>sp_pdfs := (sp_pdfs s)(aid \<mapsto> body)\<rparr>)
    else if io = IoFail then g s else g (s\<lparr>sp_pdfs := (sp_pdfs s)(aid \<mapsto> body)\<rparr>))"
  by (cases io) (simp_all add: write_pdf_def)

lemmas spool_io = save_locked_case write_pdf_case Let_def

lemma start_edge:
  assumes "gomap_ok (sp_records s)"
  shows "takes_edge sha (as_attempt a) Because_Start s (snd (start a c now free io s))"
proof (cases "io = IoOk \<and> safe_id (as_attempt a) \<and> safe_id (as_task a) \<and>
    map_of (sp_records s) (as_attempt a) = None \<and> 1 \<le> slots_locked free c s")
  case True
  then show ?thesis using assms
    by (intro takes_edgeI [OF _ edge_start]) (auto simp: start_def spool_io moves_def gomap_simps)
next
  case False
  then show ?thesis using assms
    by (intro takes_edge_same)
       (auto simp: start_def spool_io gomap_simps fun_eq_iff)
qed

lemma ready_edge:
  assumes "gomap_ok (sp_records s)"
  shows "takes_edge sha aid Because_Ready s (snd (ready sha aid body meta now wio st io s))"
proof (cases "\<exists>r. map_of (sp_records s) aid = Some r \<and> sr_state r = ''running''")
  case False
  then have "ready sha aid body meta now wio st io s = (Some NotRunning, s)"
    by (auto simp: ready_def split: option.splits)
  with assms show ?thesis by (simp add: takes_edge_same)
next
  case True
  then obtain r where r: "map_of (sp_records s) aid = Some r" "sr_state r = ''running''" by auto
  define content where "content = take (nat (task_limit r + 1)) body"
  show ?thesis
  proof (cases "wio = IoOk \<and> st \<and> int (length content) \<le> task_limit r \<and> io = IoOk")
    case True
    with r assms show ?thesis
      by (intro takes_edgeI [OF _ edge_ready [of s aid r content]])
         (auto simp: ready_def spool_io content_def [symmetric] moves_def gomap_simps simp del: length_take)
  next
    case False
    with r assms show ?thesis
      by (intro takes_edgeI [OF _ edge_scratch [of s aid r _
           "sp_pdfs (snd (ready sha aid body meta now wio st io s)) aid"]])
         (auto simp: ready_def spool_io content_def [symmetric] moves_def gomap_simps fun_eq_iff
               simp del: length_take)
  qed
qed

lemma fail_edge:
  assumes "gomap_ok (sp_records s)"
  shows "takes_edge sha aid Because_Fail s (snd (fail_with_trace aid code msg tr io s))"
proof (cases "map_of (sp_records s) aid")
  case (Some r)
  show ?thesis
  proof (cases "io = IoOk \<and> sr_state r \<noteq> ''ready''")
    case True
    with Some assms show ?thesis
      by (intro takes_edgeI [OF _ edge_fail [where r = r and f = code and m = msg and
            meta = "(sr_metadata r)\<lparr>rm_trace := tr\<rparr>"]])
         (simp_all add: fail_with_trace_def spool_io moves_def gomap_simps)
  next
    case False
    with Some assms show ?thesis
      by (intro takes_edge_same)
         (simp_all add: fail_with_trace_def spool_io gomap_simps fun_upd_idem)
  qed
qed (use assms in \<open>simp add: fail_with_trace_def takes_edge_same\<close>)

lemma expire_one_edge:
  assumes "gomap_ok (sp_records s)"
  shows "takes_edge sha aid (Because_Expire now) s (snd (expire_one now io rm aid s))"
proof (cases "io aid = IoOk \<and> (\<exists>r. map_of (sp_records s) aid = Some r \<and> sr_state r = ''ready'' \<and>
    aid \<notin> sp_busy s \<and> sr_ready_at r + sp_ttl s \<le> now)")
  case True
  then obtain r where "map_of (sp_records s) aid = Some r" "sr_state r = ''ready''"
    "aid \<notin> sp_busy s" "sr_ready_at r + sp_ttl s \<le> now" by auto
  with True assms show ?thesis
    by (intro takes_edgeI [OF _ edge_expire [of s aid r _ _ _ _ "if rm aid then None else sp_pdfs s aid"]])
       (auto simp: expire_one_def spool_io moves_def gomap_simps)
next
  case False
  with assms show ?thesis
    by (intro takes_edge_same)
       (auto simp: expire_one_def spool_io gomap_simps fun_eq_iff split: option.splits)
qed

lemma archived_edge:
  assumes "gomap_ok (sp_records s)"
  shows "takes_edge sha aid (Because_Archived rc) s (snd (snd (archived aid rc io rm sync s)))"
proof (cases "io = IoOk \<and> (\<exists>r. map_of (sp_records s) aid = Some r \<and> receipt_matches aid rc r)")
  case True
  then obtain r where "map_of (sp_records s) aid = Some r" "receipt_matches aid rc r" by auto
  with True assms show ?thesis
    by (intro takes_edgeI [OF _ edge_archived [of s aid r _ _ "if rm then None else sp_pdfs s aid"]])
       (auto simp: archived_def spool_io moves_def gomap_simps)
next
  case False
  with assms show ?thesis
    by (intro takes_edge_same)
       (auto simp: archived_def spool_io gomap_simps fun_eq_iff split: option.splits)
qed

lemma reported_edge:
  assumes "gomap_ok (sp_records s)"
  shows "takes_edge sha aid Because_Reported s (snd (reported aid rc io s))"
proof (cases "map_of (sp_records s) aid")
  case (Some r)
  show ?thesis
  proof (cases "io = IoOk \<and> sr_state r \<in> {''failed'', ''expired''} \<and>
      fst (reported aid rc io s) = None")
    case True
    with Some assms show ?thesis
      by (intro takes_edgeI [OF _ edge_reported [of s aid r]])
         (auto simp: reported_def spool_io moves_def gomap_simps split: if_splits)
  next
    case False
    with Some assms show ?thesis
      by (intro takes_edge_same)
         (auto simp: reported_def spool_io gomap_simps fun_eq_iff split: if_splits)
  qed
qed (use assms in \<open>simp add: reported_def takes_edge_same\<close>)

section \<open>Invariants\<close>

definition intact :: "(string \<Rightarrow> string) \<Rightarrow> (string \<rightharpoonup> string) \<Rightarrow> string \<Rightarrow> spool_record \<Rightarrow> bool" where
  "intact sha pdfs aid r \<longleftrightarrow>
     (\<exists>body. pdfs aid = Some body \<and> sr_size r = int (length body) \<and> sr_sha r = sha body)"

definition record_ok :: "(string \<Rightarrow> string) \<Rightarrow> (string \<rightharpoonup> string) \<Rightarrow> string \<Rightarrow> spool_record \<Rightarrow> bool" where
  "record_ok sha pdfs aid r \<longleftrightarrow>
     as_attempt (sr_assignment r) = aid \<and> safe_id aid \<and>
     sr_state r \<in> {''running'', ''ready'', ''failed'', ''expired''} \<and>
     (sr_state r = ''ready'' \<longrightarrow> intact sha pdfs aid r)"

definition spool_inv :: "(string \<Rightarrow> string) \<Rightarrow> spool \<Rightarrow> bool" where
  "spool_inv sha s \<longleftrightarrow>
     gomap_ok (sp_records s) \<and>
     (\<forall>aid r. map_of (sp_records s) aid = Some r \<longrightarrow> record_ok sha (sp_pdfs s) aid r)"

text \<open>Bytes held plus the full-size reservation of every running download.\<close>

definition reserved :: "spool \<Rightarrow> int" where
  "reserved s = usage_locked s + running_count s * max_pdf_bytes"

lemma max_pdf_bytes_pos [simp]: "0 < max_pdf_bytes" "0 \<le> max_pdf_bytes"
  by (simp_all add: max_pdf_bytes_def)

lemma task_limit_le: "task_limit r \<le> max_pdf_bytes"
  by (simp add: task_limit_def)

lemma spool_invD:
  "spool_inv sha s \<Longrightarrow> gomap_ok (sp_records s)"
  "spool_inv sha s \<Longrightarrow> map_of (sp_records s) aid = Some r \<Longrightarrow> record_ok sha (sp_pdfs s) aid r"
  by (auto simp: spool_inv_def)

lemma edge_record_ok:
  "spool_edge sha s aid c ro po \<Longrightarrow> spool_inv sha s \<Longrightarrow> ro = Some r \<Longrightarrow>
   record_ok sha ((sp_pdfs s)(aid := po)) aid r"
  by (induction rule: spool_edge.induct)
     (auto simp: record_ok_def intact_def new_record_def dest: spool_invD(2))

lemma takes_edge_inv:
  assumes "takes_edge sha aid c s t" and inv: "spool_inv sha s"
  shows "spool_inv sha t"
proof -
  obtain ro po where m: "moves aid ro po s t" and e: "spool_edge sha s aid c ro po"
    using assms by (auto simp: takes_edge_def)
  show ?thesis
    unfolding spool_inv_def
  proof (intro conjI allI impI)
    fix a r assume "map_of (sp_records t) a = Some r"
    then show "record_ok sha (sp_pdfs t) a r"
      using m edge_record_ok [OF e inv] spool_invD(2) [OF inv, of a r]
      by (cases "a = aid") (auto simp: moves_def record_ok_def intact_def)
  qed (use m in \<open>simp add: moves_def\<close>)
qed

lemma slots_clip:
  fixes x :: int
  shows "(let n = (if x < 0 then 0 else x); n = (if n > av then av else n) in if n < 0 then 0 else n)
           = max 0 (min av (max 0 x))"
  by (simp add: Let_def min_def max_def)

text \<open>The room \<open>slotsLocked\<close> divides: the spool's limit or the disk's, whichever is less.\<close>

definition spool_room :: "int \<Rightarrow> spool \<Rightarrow> int" where
  "spool_room free s =
     min (free - running_count s * max_pdf_bytes - 2 ^ 20) (sp_max s - reserved s)"

lemma slots_locked_eq:
  "slots_locked free limit s
     = max 0 (min (limit - running_count s) (max 0 (go_div (spool_room free s) max_pdf_bytes)))"
proof -
  have m: "(if f < g then f else g) = min f g" for f g :: int by simp
  show ?thesis
    unfolding slots_locked_def spool_room_def reserved_def
    by (simp only: slots_clip [symmetric] m Let_def diff_diff_eq)
qed

lemma slots_room:
  assumes "1 \<le> slots_locked free limit s"
  shows "reserved s + max_pdf_bytes \<le> sp_max s"
proof -
  have d: "1 \<le> go_div (spool_room free s) max_pdf_bytes"
    using assms by (simp add: slots_locked_eq)
  then have "max_pdf_bytes \<le> go_div (spool_room free s) max_pdf_bytes * max_pdf_bytes"
    using mult_right_mono [OF d, of max_pdf_bytes] by simp
  also have "\<dots> \<le> spool_room free s"
    using d by (intro go_div_mult_le) simp_all
  finally show ?thesis by (simp add: spool_room_def)
qed

lemma takes_edge_reserved:
  assumes "takes_edge sha aid c s t" and inv: "spool_inv sha s" and cap: "reserved s \<le> sp_max s"
  shows "reserved t \<le> sp_max t"
proof -
  obtain ro po where m: "moves aid ro po s t" and e: "spool_edge sha s aid c ro po"
    using assms by (auto simp: takes_edge_def)
  let ?w = "\<lambda>r. (if sr_state r = ''ready'' then sr_size r else 0) +
                (if sr_state r = ''running'' then max_pdf_bytes else 0)"
  let ?opt = "\<lambda>v. case v of None \<Rightarrow> 0 | Some r \<Rightarrow> ?w r"
  have res: "reserved t = reserved s - ?opt (map_of (sp_records s) aid) + ?opt ro"
    using m spool_invD(1) [OF inv]
    by (simp add: reserved_def usage_locked_def running_count_def moves_def
          asum_change [of "sp_records s" "sp_records t" aid ro] algebra_simps split: option.splits)
  have nn: "0 \<le> ?opt (map_of (sp_records s) aid)"
    using spool_invD(2) [OF inv, of aid]
    by (auto simp: record_ok_def intact_def split: option.splits)
  from e have "?opt ro \<le> ?opt (map_of (sp_records s) aid) \<or>
      reserved s + ?opt ro - ?opt (map_of (sp_records s) aid) \<le> sp_max s"
  proof cases
    case (edge_start a free limit now)
    then show ?thesis using slots_room [of free limit s] by (simp add: new_record_def)
  next
    case (edge_ready r content now st meta)
    then show ?thesis using task_limit_le [of r] by simp
  qed (use nn in auto)
  with res cap m show ?thesis by (auto simp: moves_def)
qed

lemma takes_edge_retains:
  assumes "takes_edge sha a c s t" and "map_of (sp_records s) aid = Some r" "sr_state r = ''ready''"
  shows "map_of (sp_records t) aid = Some r \<and> sp_pdfs t aid = sp_pdfs s aid \<or>
     (\<exists>rc. c = Because_Archived rc \<and> a = aid \<and> receipt_matches aid rc r) \<or>
     (\<exists>now. c = Because_Expire now \<and> a = aid \<and> aid \<notin> sp_busy s \<and> sr_ready_at r + sp_ttl s \<le> now)"
proof -
  obtain ro po where m: "moves a ro po s t" and e: "spool_edge sha s a c ro po"
    using assms by (auto simp: takes_edge_def)
  show ?thesis
  proof (cases "a = aid")
    case False
    with m assms show ?thesis by (simp add: moves_def)
  next
    case True
    from e show ?thesis by cases (use m assms True in \<open>auto simp: moves_def\<close>)
  qed
qed

section \<open>Runs\<close>

text \<open>An operation with its arguments and the outcomes of its input and output.\<close>

datatype spool_op =
    Op_Start assignment int instant int io_res
  | Op_Ready string string result_metadata instant io_res bool io_res
  | Op_Fail string string string "trace list" io_res
  | Op_Expire instant "string \<Rightarrow> io_res" "string \<Rightarrow> bool" bool
  | Op_Begin string bool
  | Op_End string
  | Op_Archived string receipt io_res bool bool
  | Op_Reported string receipt io_res

fun run_op :: "(string \<Rightarrow> string) \<Rightarrow> spool_op \<Rightarrow> spool \<Rightarrow> spool" where
  "run_op sha (Op_Start a c now free io) s = snd (start a c now free io s)"
| "run_op sha (Op_Ready aid body meta now wio st io) s = snd (ready sha aid body meta now wio st io s)"
| "run_op sha (Op_Fail aid code msg tr io) s = snd (fail_with_trace aid code msg tr io s)"
| "run_op sha (Op_Expire now io rm sync) s = snd (expire now io rm sync s)"
| "run_op sha (Op_Begin aid op_ok) s = snd (begin_upload aid op_ok s)"
| "run_op sha (Op_End aid) s = end_upload aid s"
| "run_op sha (Op_Archived aid rc io rm sync) s = snd (snd (archived aid rc io rm sync s))"
| "run_op sha (Op_Reported aid rc io) s = snd (reported aid rc io s)"

lemma expire_loop_induct:
  assumes "P s" and "\<And>aid t. P t \<Longrightarrow> P (snd (expire_one now io rm aid t))"
  shows "P (snd (expire_loop now io rm aids s))"
  using assms(1)
proof (induction aids arbitrary: s)
  case (Cons a aids)
  then show ?case using assms(2) [of s a]
    by (auto split: prod.splits option.splits)
qed simp

lemma snd_expire: "snd (expire now io rm sync s) = snd (expire_loop now io rm (map fst (sp_records s)) s)"
  by (auto simp: expire_def split: prod.splits option.splits)

lemma begin_upload_state:
  "\<exists>b. snd (begin_upload aid op_ok s) = s\<lparr>sp_busy := b\<rparr>"
  by (auto simp: begin_upload_def split: option.splits intro: exI [of _ "sp_busy s"])

lemma run_op_invariant:
  assumes "P s" and "\<And>u. P u \<Longrightarrow> gomap_ok (sp_records u)"
    and "\<And>aid c u t. P u \<Longrightarrow> takes_edge sha aid c u t \<Longrightarrow> P t"
    and "\<And>u b. P u \<Longrightarrow> P (u\<lparr>sp_busy := b\<rparr>)"
  shows "P (run_op sha op s)"
proof -
  note edge = assms(3) [OF assms(1)]
  note ok = assms(2) [OF assms(1)]
  show ?thesis
  proof (cases op)
    case (Op_Expire now io rm sync)
    have "P (snd (expire_one now io rm a u))" if "P u" for a u
      using that by (rule assms(3) [OF _ expire_one_edge [OF assms(2)]]) (rule that)
    with Op_Expire assms(1) show ?thesis by (simp add: snd_expire expire_loop_induct)
  next
    case (Op_Begin aid ok')
    then show ?thesis using assms(4) [OF assms(1)] begin_upload_state [of aid ok' s] by auto
  qed (simp_all add: end_upload_def assms(4) [OF assms(1)] edge [OF start_edge [OF ok]]
         edge [OF ready_edge [OF ok]] edge [OF fail_edge [OF ok]] edge [OF archived_edge [OF ok]]
         edge [OF reported_edge [OF ok]])
qed

lemma runs_invariant:
  assumes "P s" and "\<And>u op. P u \<Longrightarrow> P (run_op sha op u)"
  shows "P (fold (run_op sha) ops s)"
  using assms(1) by (induction ops arbitrary: s) (auto intro: assms(2))

lemma busy_frame [simp]:
  "spool_inv sha (s\<lparr>sp_busy := b\<rparr>) = spool_inv sha s"
  "reserved (s\<lparr>sp_busy := b\<rparr>) = reserved s"
  by (simp_all add: spool_inv_def reserved_def usage_locked_def running_count_def)

lemma run_op_inv: "spool_inv sha s \<Longrightarrow> spool_inv sha (run_op sha op s)"
  by (rule run_op_invariant [of "spool_inv sha"]) (auto dest: spool_invD(1) intro: takes_edge_inv)

lemma run_op_reserved:
  assumes "spool_inv sha s" and "reserved s \<le> sp_max s"
  shows "reserved (run_op sha op s) \<le> sp_max (run_op sha op s)"
proof -
  let ?P = "\<lambda>u. spool_inv sha u \<and> reserved u \<le> sp_max u"
  have "?P (run_op sha op s)"
    by (rule run_op_invariant [of ?P])
       (use assms in \<open>auto dest: spool_invD(1) intro: takes_edge_inv takes_edge_reserved\<close>)
  then show ?thesis ..
qed

lemma run_op_frame: "gomap_ok (sp_records s) \<Longrightarrow>
  gomap_ok (sp_records (run_op sha op s)) \<and> sp_max (run_op sha op s) = sp_max s"
  by (rule run_op_invariant [of "\<lambda>u. gomap_ok (sp_records u) \<and> sp_max u = sp_max s"])
     (auto simp: takes_edge_def moves_def)

lemma expire_one_busy: "sp_busy (snd (expire_one now io rm a s)) = sp_busy s"
  and expire_one_ttl: "sp_ttl (snd (expire_one now io rm a s)) = sp_ttl s"
  by (auto simp: expire_one_def spool_io split: option.splits)

lemma expire_retains:
  assumes "gomap_ok (sp_records s)" and "map_of (sp_records s) aid = Some r" "sr_state r = ''ready''"
  shows "map_of (sp_records (snd (expire now io rm sync s))) aid = Some r \<and>
      sp_pdfs (snd (expire now io rm sync s)) aid = sp_pdfs s aid \<or>
    aid \<notin> sp_busy s \<and> sr_ready_at r + sp_ttl s \<le> now"
proof -
  let ?P = "\<lambda>t. gomap_ok (sp_records t) \<and> sp_busy t = sp_busy s \<and> sp_ttl t = sp_ttl s \<and>
    (map_of (sp_records t) aid = Some r \<and> sp_pdfs t aid = sp_pdfs s aid \<or>
     aid \<notin> sp_busy s \<and> sr_ready_at r + sp_ttl s \<le> now)"
  have "?P (snd (expire_one now io rm a u))" if P: "?P u" for a u
  proof -
    have edge: "takes_edge sha a (Because_Expire now) u (snd (expire_one now io rm a u))"
      using P by (blast intro: expire_one_edge)
    then have ok: "gomap_ok (sp_records (snd (expire_one now io rm a u)))"
      by (auto simp: takes_edge_def moves_def)
    show ?thesis
    proof (cases "aid \<notin> sp_busy s \<and> sr_ready_at r + sp_ttl s \<le> now")
      case True
      with P ok show ?thesis by (simp add: expire_one_busy expire_one_ttl)
    next
      case False
      with P have u: "map_of (sp_records u) aid = Some r" by blast
      let ?t = "snd (expire_one now io rm a u)"
      from takes_edge_retains [OF edge u assms(3)] False P
      have "map_of (sp_records ?t) aid = Some r \<and> sp_pdfs ?t aid = sp_pdfs u aid" by auto
      moreover have "sp_pdfs u aid = sp_pdfs s aid" using False P by blast
      ultimately show ?thesis using P ok by (simp add: expire_one_busy expire_one_ttl)
    qed
  qed
  then have "?P (snd (expire_loop now io rm (map fst (sp_records s)) s))"
    using assms by (intro expire_loop_induct [of ?P]) blast+
  then show ?thesis by (simp add: snd_expire)
qed

section \<open>Properties\<close>

text \<open>C33: A result that reached the ready state is never lost early. Whatever operation runs next
  and however its input and output fail, the record and the PDF body stay as they are, unless
  the operation is the archival of this attempt with a \<open>done\<close> receipt that names its task and
  matches its digest and size, or an expiry sweep that runs when the retention time of the
  result has passed and no upload of it is in progress.\<close>

theorem spool_result_retained:
  assumes "gomap_ok (sp_records s)"
    and "map_of (sp_records s) aid = Some r" and "sr_state r = ''ready''"
  shows "map_of (sp_records (run_op sha op s)) aid = Some r \<and>
           sp_pdfs (run_op sha op s) aid = sp_pdfs s aid \<or>
         (\<exists>rc io rm sync. op = Op_Archived aid rc io rm sync \<and> rc_state rc = ''done'' \<and>
            rc_attempt rc = aid \<and> rc_task rc = as_task (sr_assignment r) \<and>
            rc_sha rc = sr_sha r \<and> rc_size rc = sr_size r) \<or>
         (\<exists>now io rm sync. op = Op_Expire now io rm sync \<and> aid \<notin> sp_busy s \<and>
            sr_ready_at r + sp_ttl s \<le> now)"
proof (cases op)
  case (Op_Expire now io rm sync)
  then show ?thesis using expire_retains [OF assms, of now io rm sync] by auto
next
  case (Op_Begin b ok)
  then show ?thesis using assms begin_upload_state [of b ok s] by auto
next
  case (Op_Archived a rc io rm sync)
  then show ?thesis
    using takes_edge_retains [OF archived_edge [OF assms(1)] assms(2,3), of a]
    by (auto simp: receipt_matches_def)
next
  case (Op_Start a c now free io)
  then show ?thesis
    using takes_edge_retains [OF start_edge [OF assms(1)] assms(2,3)] by simp
next
  case (Op_Ready a body meta now wio st io)
  then show ?thesis
    using takes_edge_retains [OF ready_edge [OF assms(1)] assms(2,3)]
    by simp
next
  case (Op_Fail a code msg tr io)
  then show ?thesis
    using takes_edge_retains [OF fail_edge [OF assms(1)] assms(2,3)] by simp
next
  case (Op_Reported a rc io)
  then show ?thesis
    using takes_edge_retains [OF reported_edge [OF assms(1)] assms(2,3)] by simp
qed (use assms in \<open>simp add: end_upload_def\<close>)

text \<open>A spool with one ready result, for the witnesses.\<close>

definition sample_assignment :: assignment where
  "sample_assignment = \<lparr>as_task = ''t'', as_attempt = ''a'', as_ref = \<lparr>pr_arxiv = [], pr_doi = [],
     pr_openalex = [], pr_title = [], pr_authors = [], pr_year = 0\<rparr>, as_lease_expires = 0,
     as_deadline = 0, as_max_pdf = 0\<rparr>"

definition sample_ready :: spool_record where
  "sample_ready = (new_record sample_assignment 1)\<lparr>sr_state := ''ready'', sr_ready_at := 5,
     sr_size := 3, sr_sha := ''pdf''\<rparr>"

definition sample_spool :: spool where
  "sample_spool = \<lparr>sp_max = 3 * 100 * 2 ^ 20, sp_ttl = 10, sp_records = [(''a'', sample_ready)],
     sp_busy = {}, sp_disk = [(''a'', sample_ready)], sp_pdfs = [''a'' \<mapsto> ''pdf'']\<rparr>"

theorem spool_result_retained_witness:
  "map_of (sp_records (run_op (\<lambda>b. b) (Op_Fail ''a'' ''disk'' [] [] IoOk) sample_spool)) ''a''
     = Some sample_ready"
  using spool_result_retained [of sample_spool "''a''" sample_ready "\<lambda>b. b"
      "Op_Fail ''a'' ''disk'' [] [] IoOk"]
  by (simp add: sample_spool_def sample_ready_def gomap_ok_def)

lemma recover_all_keys: "recover_all sha pdfs m = Inr m' \<Longrightarrow> map fst m' = map fst m"
  by (induction sha pdfs m arbitrary: m' rule: recover_all.induct) (auto split: sum.splits)

lemma recover_all_Some:
  "recover_all sha pdfs m = Inr m' \<Longrightarrow> map_of m aid = Some r \<Longrightarrow>
   \<exists>r'. recover_record sha pdfs aid r = Inr r' \<and> map_of m' aid = Some r'"
  by (induction sha pdfs m arbitrary: m' rule: recover_all.induct)
     (auto split: sum.splits if_splits)

lemma recover_all_SomeD:
  assumes "recover_all sha pdfs m = Inr m'" and "map_of m' aid = Some r'"
  shows "\<exists>r. map_of m aid = Some r \<and> recover_record sha pdfs aid r = Inr r'"
proof -
  have "aid \<in> fst ` set m"
    using assms recover_all_keys [OF assms(1)] by (metis list.set_map map_of_eq_None_iff option.discI)
  then obtain r where "map_of m aid = Some r" by (metis map_of_eq_None_iff not_None_eq)
  with recover_all_Some [OF assms(1) this] assms(2) show ?thesis by auto
qed

lemma recover_record_ok:
  "recover_record sha pdfs aid r = Inr r' \<Longrightarrow> record_ok sha pdfs aid r' \<and> sr_state r' \<noteq> ''running''"
  by (auto simp: recover_record_def record_ok_def intact_def split: if_splits option.splits)

lemma open_spool_cases:
  assumes "open_spool sha mx ttl cat pdfs io fs_ok = Inr s"
  obtains m where "recover_all sha pdfs (case cat of CatRecords m \<Rightarrow> m | _ \<Rightarrow> []) = Inr m"
    and "sp_records s = m" "sp_max s = mx" "sp_ttl s = ttl" "sp_busy s = {}" "sp_disk s = m"
    and "\<And>aid r. map_of m aid = Some r \<Longrightarrow> sr_state r = ''ready'' \<Longrightarrow> sp_pdfs s aid = pdfs aid"
  using assms by (auto simp: open_spool_def split: if_splits catalog_file.splits sum.splits)

lemma open_spool_inv:
  assumes "open_spool sha mx ttl cat pdfs io fs_ok = Inr s"
    and keys: "gomap_ok (case cat of CatRecords m \<Rightarrow> m | _ \<Rightarrow> [])"
  shows "spool_inv sha s \<and> running_count s = 0"
  using assms(1)
proof (rule open_spool_cases)
  fix m
  assume rec: "recover_all sha pdfs (case cat of CatRecords m \<Rightarrow> m | _ \<Rightarrow> []) = Inr m"
    and s: "sp_records s = m"
    and body: "\<And>aid r. map_of m aid = Some r \<Longrightarrow> sr_state r = ''ready'' \<Longrightarrow> sp_pdfs s aid = pdfs aid"
  have ok: "gomap_ok m" using recover_all_keys [OF rec] keys by (simp add: gomap_ok_def)
  have r_ok: "record_ok sha pdfs aid r \<and> sr_state r \<noteq> ''running''" if "map_of m aid = Some r" for aid r
    using recover_all_SomeD [OF rec that] recover_record_ok by blast
  have "spool_inv sha s"
    using ok r_ok body unfolding spool_inv_def s by (auto simp: record_ok_def intact_def)
  moreover have "asum (\<lambda>r. if sr_state r = ''running'' then 1 else 0) m = 0"
    using r_ok ok by (intro asum_zero) (auto simp: gomap_set_iff)
  ultimately show ?thesis by (simp add: running_count_def s)
qed

text \<open>C39: The spool never promises more space than it has. In every run that starts from a freshly
  opened spool whose recovered results fit its limit, whatever the operations and their input
  and output failures, the bytes of the ready results plus a full-size reservation for every
  running download stay within the configured maximum, and every catalogued ready result has
  the body it was recorded with.\<close>

theorem spool_capacity:
  assumes "open_spool sha mx ttl (CatRecords m) pdfs io fs_ok = Inr s0"
    and "gomap_ok m" and "usage_locked s0 \<le> mx"
  shows "reserved (fold (run_op sha) ops s0) \<le> mx \<and> spool_inv sha (fold (run_op sha) ops s0)"
proof -
  let ?P = "\<lambda>u. spool_inv sha u \<and> reserved u \<le> sp_max u \<and> sp_max u = mx"
  have "sp_max s0 = mx" using assms(1) by (rule open_spool_cases)
  with open_spool_inv [OF assms(1)] assms(2,3) have "?P s0" by (simp add: reserved_def)
  then have "?P (fold (run_op sha) ops s0)"
    by (rule runs_invariant)
       (use run_op_inv run_op_reserved run_op_frame spool_invD(1) in \<open>metis (no_types, lifting)\<close>)
  then show ?thesis by auto
qed

theorem spool_capacity_witness:
  "\<exists>s0. open_spool (\<lambda>b. b) (3 * 100 * 2 ^ 20) 10 (CatRecords [(''a'', sample_ready)]) [''a'' \<mapsto> ''pdf'']
          IoOk True = Inr s0 \<and>
        reserved (fold (run_op (\<lambda>b. b)) [Op_Begin ''a'' True, Op_End ''a''] s0) \<le> 3 * 100 * 2 ^ 20"
proof -
  let ?o = "open_spool (\<lambda>b. b) (3 * 100 * 2 ^ 20) 10 (CatRecords [(''a'', sample_ready)])
    [''a'' \<mapsto> ''pdf''] IoOk True"
  obtain s0 where s0: "?o = Inr s0" and "sp_records s0 = [(''a'', sample_ready)]"
    by (auto simp: open_spool_def recover_record_def sample_ready_def new_record_def
          sample_assignment_def safe_id_def is_lower_def)
  then have u: "usage_locked s0 \<le> 3 * 100 * 2 ^ 20"
    by (simp add: usage_locked_def sample_ready_def)
  have "gomap_ok [(''a'', sample_ready)]" by (simp add: gomap_ok_def)
  from spool_capacity [OF s0 this u, of "[Op_Begin ''a'' True, Op_End ''a'']"] s0
  show ?thesis by (intro exI [of _ s0] conjI) blast+
qed

text \<open>The number of free slots is exact: for a positive \<open>n\<close>, the spool reports at least \<open>n\<close>
  slots precisely when \<open>n\<close> more downloads fit the concurrency limit, \<open>n\<close> more full-size bodies
  fit the spool's limit beside what it holds and has reserved, and the disk has room for the
  reserved and the new bodies and a margin of one mebibyte.\<close>

theorem slots_locked_exact:
  assumes "1 \<le> n"
  shows "n \<le> slots_locked free limit s \<longleftrightarrow>
     running_count s + n \<le> limit \<and>
     usage_locked s + (running_count s + n) * max_pdf_bytes \<le> sp_max s \<and>
     (running_count s + n) * max_pdf_bytes + 2 ^ 20 \<le> free"
proof -
  have "n \<le> slots_locked free limit s \<longleftrightarrow>
      running_count s + n \<le> limit \<and> n \<le> go_div (spool_room free s) max_pdf_bytes"
    using assms by (auto simp: slots_locked_eq)
  also have "n \<le> go_div (spool_room free s) max_pdf_bytes \<longleftrightarrow> n * max_pdf_bytes \<le> spool_room free s"
    using assms by (rule le_go_div_iff) simp
  finally show ?thesis by (auto simp: spool_room_def reserved_def algebra_simps)
qed

theorem slots_locked_exact_witness:
  "(2::int) \<le> slots_locked (2 ^ 40) 4 sample_spool"
  using slots_locked_exact [of 2 "2 ^ 40" 4 sample_spool]
  by (simp add: sample_spool_def sample_ready_def usage_locked_def running_count_def max_pdf_bytes_def)

section \<open>Restarts\<close>

text \<open>
  The catalogue on disk agrees with the one in memory after every operation whose catalogue
  writes do not fail between the rename and the directory sync. A crash in the middle of an
  operation leaves the files as the same operation with a failing write leaves them, so the
  states between operations are the states a restart can find.
\<close>

definition in_sync :: "spool \<Rightarrow> bool" where
  "in_sync s \<longleftrightarrow> gomap_ok (sp_records s) \<and> gomap_ok (sp_disk s) \<and>
     map_of (sp_disk s) = map_of (sp_records s)"

fun no_late :: "spool_op \<Rightarrow> bool" where
  "no_late (Op_Start a c now free io) = (io \<noteq> IoFailLate)"
| "no_late (Op_Ready aid body meta now wio st io) = (io \<noteq> IoFailLate)"
| "no_late (Op_Fail aid code msg tr io) = (io \<noteq> IoFailLate)"
| "no_late (Op_Expire now io rm sync) = (\<forall>aid. io aid \<noteq> IoFailLate)"
| "no_late (Op_Begin aid op_ok) = True"
| "no_late (Op_End aid) = True"
| "no_late (Op_Archived aid rc io rm sync) = (io \<noteq> IoFailLate)"
| "no_late (Op_Reported aid rc io) = (io \<noteq> IoFailLate)"

lemma in_sync_same: "in_sync s \<Longrightarrow> in_sync (s\<lparr>sp_pdfs := p\<rparr>)"
  by (simp add: in_sync_def)

lemma expire_one_sync:
  "in_sync s \<Longrightarrow> io aid \<noteq> IoFailLate \<Longrightarrow> in_sync (snd (expire_one now io rm aid s))"
  by (cases "io aid") (auto simp: expire_one_def spool_io in_sync_def gomap_simps fun_upd_idem split: option.splits)

lemma start_sync:
  "in_sync s \<Longrightarrow> io \<noteq> IoFailLate \<Longrightarrow> in_sync (snd (start a c now free io s))"
  by (cases io) (auto simp: start_def spool_io in_sync_def gomap_simps fun_upd_idem)

lemma ready_sync:
  "in_sync s \<Longrightarrow> io \<noteq> IoFailLate \<Longrightarrow> in_sync (snd (ready sha aid body meta now wio st io s))"
  by (cases io) (auto simp: ready_def spool_io in_sync_def gomap_simps fun_upd_idem split: option.splits)

lemma fail_sync:
  "in_sync s \<Longrightarrow> io \<noteq> IoFailLate \<Longrightarrow> in_sync (snd (fail_with_trace aid code msg tr io s))"
  by (cases io) (auto simp: fail_with_trace_def spool_io in_sync_def gomap_simps fun_upd_idem split: option.splits)

lemma archived_sync:
  "in_sync s \<Longrightarrow> io \<noteq> IoFailLate \<Longrightarrow> in_sync (snd (snd (archived aid rc io rm sync s)))"
  by (cases io) (auto simp: archived_def spool_io in_sync_def gomap_simps fun_upd_idem split: option.splits)

lemma reported_sync:
  "in_sync s \<Longrightarrow> io \<noteq> IoFailLate \<Longrightarrow> in_sync (snd (reported aid rc io s))"
  by (cases io) (auto simp: reported_def spool_io in_sync_def gomap_simps fun_upd_idem split: option.splits)

lemma run_op_sync:
  assumes "in_sync s" and "no_late op"
  shows "in_sync (run_op sha op s)"
proof (cases op)
  case (Op_Expire now io rm sync)
  then show ?thesis using assms
    by (simp add: snd_expire) (rule expire_loop_induct [of in_sync], auto intro: expire_one_sync)
next
  case (Op_Begin aid ok)
  then show ?thesis using assms begin_upload_state [of aid ok s] by (auto simp: in_sync_def)
next
  case (Op_End aid)
  then show ?thesis using assms by (simp add: end_upload_def in_sync_def)
qed (use assms in \<open>auto intro: start_sync ready_sync fail_sync archived_sync reported_sync\<close>)

lemma recover_record_succeeds:
  "record_ok sha pdfs aid r \<Longrightarrow>
   recover_record sha pdfs aid r =
     Inr (if sr_state r = ''running''
          then r\<lparr>sr_state := ''failed'', sr_failure := ''internal'',
                 sr_error := ''worker restarted during download''\<rparr> else r)"
  by (auto simp: record_ok_def intact_def recover_record_def)

lemma recover_all_succeeds:
  assumes "gomap_ok m" and "\<And>aid r. map_of m aid = Some r \<Longrightarrow> record_ok sha pdfs aid r"
  shows "\<exists>m'. recover_all sha pdfs m = Inr m'"
proof -
  have "\<forall>(aid, r) \<in> set m. record_ok sha pdfs aid r"
    using assms by (auto simp: gomap_set_iff)
  then show ?thesis
    by (induction sha pdfs m rule: recover_all.induct)
       (auto simp: recover_record_succeeds)
qed

text \<open>A restart loses nothing. After any run from a freshly opened spool in which no catalogue
  write failed after its rename, the files left behind open again: the new spool has every
  record of the old one, each ready result unchanged and with the same body, and each download
  that was running turned into a failed one.\<close>

theorem spool_restart:
  assumes "open_spool sha mx ttl (CatRecords m) pdfs io fs_ok = Inr s0" and "gomap_ok m"
    and "list_all no_late ops" and "s = fold (run_op sha) ops s0"
  shows "\<exists>t. open_spool sha mx ttl (CatRecords (sp_disk s)) (sp_pdfs s) IoOk True = Inr t \<and>
    (\<forall>aid. map_of (sp_records t) aid =
       map_option (\<lambda>r. if sr_state r = ''running''
          then r\<lparr>sr_state := ''failed'', sr_failure := ''internal'',
                 sr_error := ''worker restarted during download''\<rparr> else r)
         (map_of (sp_records s) aid)) \<and>
    (\<forall>aid r. map_of (sp_records s) aid = Some r \<and> sr_state r = ''ready'' \<longrightarrow>
       sp_pdfs t aid = sp_pdfs s aid \<and> sp_pdfs t aid \<noteq> None)"
proof -
  have lim: "0 < mx" "0 < ttl" and s0: "in_sync s0"
    using assms(1,2) recover_all_keys
    by (auto simp: open_spool_def in_sync_def gomap_ok_def split: if_splits sum.splits)
  have "list_all no_late ops \<Longrightarrow> in_sync u \<Longrightarrow> in_sync (fold (run_op sha) ops u)" for u ops
    by (induction ops arbitrary: u) (auto intro: run_op_sync)
  then have sync: "in_sync s" using s0 assms(3,4) by blast
  have inv: "spool_inv sha s"
    unfolding assms(4) using open_spool_inv [OF assms(1)] assms(2) run_op_inv
    by (intro runs_invariant [of "spool_inv sha"]) auto
  have disk: "record_ok sha (sp_pdfs s) aid r" if "map_of (sp_disk s) aid = Some r" for aid r
    using that sync inv by (simp add: in_sync_def spool_invD(2))
  then obtain m' where m': "recover_all sha (sp_pdfs s) (sp_disk s) = Inr m'"
    using recover_all_succeeds sync unfolding in_sync_def by blast
  have look: "map_of m' aid = map_option (\<lambda>r. if sr_state r = ''running''
          then r\<lparr>sr_state := ''failed'', sr_failure := ''internal'',
                 sr_error := ''worker restarted during download''\<rparr> else r)
         (map_of (sp_records s) aid)" for aid
  proof (cases "map_of (sp_records s) aid")
    case None
    then have "map_of (sp_disk s) aid = None" using sync by (simp add: in_sync_def)
    with None recover_all_SomeD [OF m', of aid] show ?thesis by (cases "map_of m' aid") auto
  next
    case (Some r)
    then have d: "map_of (sp_disk s) aid = Some r" using sync by (simp add: in_sync_def)
    with Some recover_all_Some [OF m' d] recover_record_succeeds [OF disk [OF d]]
    show ?thesis by auto
  qed
  let ?t = "\<lparr>sp_max = mx, sp_ttl = ttl, sp_records = m', sp_busy = {}, sp_disk = m',
      sp_pdfs = (\<lambda>aid. case map_of m' aid of
         Some r \<Rightarrow> if sr_state r = ''ready'' then sp_pdfs s aid else None | None \<Rightarrow> None)\<rparr>"
  have "open_spool sha mx ttl (CatRecords (sp_disk s)) (sp_pdfs s) IoOk True = Inr ?t"
    using lim m' by (simp add: open_spool_def)
  moreover have "sp_pdfs s aid \<noteq> None"
    if "map_of (sp_records s) aid = Some r" "sr_state r = ''ready''" for aid r
    using spool_invD(2) [OF inv that(1)] that(2) by (auto simp: record_ok_def intact_def)
  ultimately show ?thesis using look by (intro exI [of _ ?t]) auto
qed

theorem spool_restart_witness:
  "\<exists>s0 t. open_spool (\<lambda>b. b) (3 * 100 * 2 ^ 20) 10 (CatRecords [(''a'', sample_ready)])
       [''a'' \<mapsto> ''pdf''] IoOk True = Inr s0 \<and>
     open_spool (\<lambda>b. b) (3 * 100 * 2 ^ 20) 10 (CatRecords (sp_disk (end_upload ''a'' s0)))
       (sp_pdfs (end_upload ''a'' s0)) IoOk True = Inr t"
proof -
  have "\<exists>s0. open_spool (\<lambda>b. b) (3 * 100 * 2 ^ 20) 10 (CatRecords [(''a'', sample_ready)])
      [''a'' \<mapsto> ''pdf''] IoOk True = Inr s0"
    by (auto simp: open_spool_def recover_record_def sample_ready_def new_record_def
          sample_assignment_def safe_id_def is_lower_def)
  then obtain s0 where s0: "open_spool (\<lambda>b. b) (3 * 100 * 2 ^ 20) 10
      (CatRecords [(''a'', sample_ready)]) [''a'' \<mapsto> ''pdf''] IoOk True = Inr s0" ..
  have "gomap_ok [(''a'', sample_ready)]" by (simp add: gomap_ok_def)
  with spool_restart [OF s0 this, of "[Op_End ''a'']" "end_upload ''a'' s0"] s0
  show ?thesis by auto
qed

end
