(* ===== verification/Pat_Scopes.thy ===== *)
theory Pat_Scopes
  imports Prelude
begin

text \<open>
  The scope vocabulary of personal access tokens and its policy table
  (\<open>internal/pat/scopes.go\<close>), the system token loaded from the configuration
  (\<open>internal/pat/system_pat.go\<close>) and the default rate-limit rules
  (\<open>internal/pat/ratelimits.go\<close>). The casbin enforcer is a third-party component: it is the
  parameter \<open>enforce\<close> of \<open>allows\<close>, and the locale \<open>scope_enforcer\<close> states what the code relies
  on, the matcher and the effect that the source hands to casbin.
\<close>

section \<open>Scopes and policies\<close>

definition papers_read :: string where "papers_read = ''papers:read''"
definition papers_write :: string where "papers_write = ''papers:write''"
definition plugins_read :: string where "plugins_read = ''plugins:read''"
definition plugins_write :: string where "plugins_write = ''plugins:write''"
definition comments_read :: string where "comments_read = ''comments:read''"
definition comments_write :: string where "comments_write = ''comments:write''"
definition scope_master :: string where "scope_master = ''*''"

lemmas scope_names = papers_read_def papers_write_def plugins_read_def plugins_write_def
  comments_read_def comments_write_def scope_master_def

definition all_scopes :: "string list" where
  "all_scopes = [papers_read, papers_write, comments_read, comments_write, plugins_read, plugins_write]"

definition scope_policies :: "(string \<times> string \<times> string) list" where
  "scope_policies =
     [(papers_read, ''papers'', ''read''),
      (papers_write, ''papers'', ''read''),
      (papers_write, ''papers'', ''write''),
      (plugins_read, ''plugins'', ''read''),
      (plugins_write, ''plugins'', ''read''),
      (plugins_write, ''plugins'', ''write''),
      (comments_read, ''comments'', ''read''),
      (comments_write, ''comments'', ''read''),
      (comments_write, ''comments'', ''write'')]"

text \<open>
  What casbin computes for the model text of the source: the matcher compares the three
  fields with one policy row, and the effect allows when some row matches.
\<close>

definition row_matches :: "string \<Rightarrow> string \<Rightarrow> string \<Rightarrow> string \<times> string \<times> string \<Rightarrow> bool" where
  "row_matches s obj act row \<longleftrightarrow>
     s = fst row \<and> obj = fst (snd row) \<and> act = snd (snd row)"

definition table_enforce :: "(string \<times> string \<times> string) list
    \<Rightarrow> string \<Rightarrow> string \<Rightarrow> string \<Rightarrow> string + bool" where
  "table_enforce rows s obj act = Inr (\<exists>row \<in> set rows. row_matches s obj act row)"

datatype scope_error = NilEnforcer | EnforceFailed string string | WildcardScope | UnknownScope string

fun ask_each :: "(string \<Rightarrow> string \<Rightarrow> string \<Rightarrow> string + bool) \<Rightarrow> string list \<Rightarrow> string \<Rightarrow> string
    \<Rightarrow> scope_error + bool" where
  "ask_each enforce [] obj act = Inr False"
| "ask_each enforce (s # held) obj act =
     (case enforce s obj act of
        Inl e \<Rightarrow> Inl (EnforceFailed s e)
      | Inr True \<Rightarrow> Inr True
      | Inr False \<Rightarrow> ask_each enforce held obj act)"

definition allows :: "(string \<Rightarrow> string \<Rightarrow> string \<Rightarrow> string + bool) option \<Rightarrow> string list \<Rightarrow> string \<Rightarrow> string
    \<Rightarrow> scope_error + bool" where
  "allows enforcer held obj act =
     (case enforcer of
        None \<Rightarrow> Inl NilEnforcer
      | Some enforce \<Rightarrow>
          if list_ex (\<lambda>s. s = scope_master) held then Inr True
          else ask_each enforce held obj act)"

fun check_scopes :: "string list \<Rightarrow> bool \<Rightarrow> string list \<Rightarrow> scope_error option" where
  "check_scopes known allow_master [] = None"
| "check_scopes known allow_master (s # ss) =
     (if s = scope_master
      then if allow_master then check_scopes known allow_master ss else Some WildcardScope
      else if s \<notin> set known then Some (UnknownScope s)
      else check_scopes known allow_master ss)"

definition validate_scopes :: "string list \<Rightarrow> scope_error option" where
  "validate_scopes ss = check_scopes all_scopes False ss"

definition validate_scopes_including_master :: "string list \<Rightarrow> scope_error option" where
  "validate_scopes_including_master ss = check_scopes all_scopes True ss"

section \<open>The system token\<close>

definition min_system_pat_length :: nat where "min_system_pat_length = 16"

record system_pat =
  sys_secret :: string
  sys_scopes :: "string list"
  sys_length :: nat

datatype system_pat_error = TokenTooShort nat | ZeroScopes | SystemScopes scope_error

definition parse_system_pat_scopes :: "string list \<Rightarrow> system_pat_error + string list" where
  "parse_system_pat_scopes scopes =
     (let out = filter (\<lambda>t. t \<noteq> []) (map trim_space scopes) in
      if out = []
      then if scopes = [] then Inr [scope_master] else Inl ZeroScopes
      else case validate_scopes_including_master out of
             Some e \<Rightarrow> Inl (SystemScopes e)
           | None \<Rightarrow> Inr out)"

definition load_system_pat :: "string \<Rightarrow> string list \<Rightarrow> system_pat_error + system_pat option" where
  "load_system_pat token scopes =
     (let secret = trim_space token in
      if secret = [] then Inr None
      else if length secret < min_system_pat_length then Inl (TokenTooShort (length secret))
      else case parse_system_pat_scopes scopes of
             Inl e \<Rightarrow> Inl e
           | Inr parsed \<Rightarrow>
               Inr (Some \<lparr>sys_secret = secret, sys_scopes = parsed, sys_length = length secret\<rparr>))"

definition system_match :: "system_pat option \<Rightarrow> string \<Rightarrow> string list option" where
  "system_match s bearer =
     (case s of
        None \<Rightarrow> None
      | Some sp \<Rightarrow>
          if length bearer = 0 then None
          else if length bearer \<noteq> length (sys_secret sp) then None
          else if bearer \<noteq> sys_secret sp then None
          else Some (sys_scopes sp))"

section \<open>Rate-limit rules\<close>

record rate_rule =
  rl_label :: string
  rl_audience :: string
  rl_duration :: int
  rl_max :: int

record rate_settings =
  rs_enabled :: bool
  rs_rules :: "rate_rule list"

text \<open>The audience constants are PocketBase's, so they are parameters.\<close>

definition default_rate_rules :: "string \<Rightarrow> string \<Rightarrow> rate_rule list" where
  "default_rate_rules auth guest =
     [\<lparr>rl_label = ''POST /api/pat'', rl_audience = auth, rl_duration = 60, rl_max = 10\<rparr>,
      \<lparr>rl_label = ''POST /api/pat'', rl_audience = guest, rl_duration = 60, rl_max = 30\<rparr>]"

definition has_matching_rule :: "rate_rule list \<Rightarrow> rate_rule \<Rightarrow> bool" where
  "has_matching_rule existing want \<longleftrightarrow>
     list_ex (\<lambda>r. rl_label r = rl_label want \<and> rl_audience r = rl_audience want) existing"

fun add_missing :: "rate_rule list \<Rightarrow> rate_rule list \<Rightarrow> rate_rule list \<times> bool" where
  "add_missing [] rules = (rules, False)"
| "add_missing (want # wants) rules =
     (if has_matching_rule rules want then add_missing wants rules
      else (fst (add_missing wants (rules @ [want])), True))"

text \<open>\<open>EnsureDefaults\<close>; \<open>save_ok\<close> is the outcome of \<open>app.Save\<close>. The settings are changed in memory
  before they are saved, also when saving fails.\<close>

definition ensure_defaults :: "string \<Rightarrow> string \<Rightarrow> bool \<Rightarrow> rate_settings
    \<Rightarrow> (bool \<times> bool) \<times> rate_settings" where
  "ensure_defaults auth guest save_ok st =
     (let (rules, added) = add_missing (default_rate_rules auth guest) (rs_rules st);
          flip = added \<and> \<not> rs_enabled st;
          st' = \<lparr>rs_enabled = (if flip then True else rs_enabled st), rs_rules = rules\<rparr>
      in if \<not> added \<and> \<not> flip then ((False, True), st')
         else if save_ok then ((True, True), st') else ((False, False), st'))"

section \<open>What enforcement means\<close>

text \<open>
  The contract of an enforcer that is seeded with the policy table: it never fails and allows
  exactly the rows of the table.
\<close>

locale scope_enforcer =
  fixes enforce :: "string \<Rightarrow> string \<Rightarrow> string \<Rightarrow> string + bool"
  assumes enforce_table: "enforce s obj act = Inr ((s, obj, act) \<in> set scope_policies)"
begin

lemma ask_each_iff:
  "ask_each enforce held obj act = Inr (\<exists>s \<in> set held. (s, obj, act) \<in> set scope_policies)"
  by (induction held) (auto simp: enforce_table split: bool.splits)

lemma allows_iff:
  "allows (Some enforce) held obj act
     = Inr (scope_master \<in> set held \<or> (\<exists>s \<in> set held. (s, obj, act) \<in> set scope_policies))"
  by (auto simp: allows_def ask_each_iff list_ex_iff)

lemma allows_deny:
  "allows (Some enforce) held obj act \<noteq> Inr True \<Longrightarrow> allows (Some enforce) held obj act = Inr False"
  by (simp add: allows_iff)

lemma allows_mono:
  "set held \<subseteq> set held' \<Longrightarrow> allows (Some enforce) held obj act = Inr True \<Longrightarrow>
   allows (Some enforce) held' obj act = Inr True"
  by (auto simp: allows_iff)

end

lemma table_enforce_policies:
  "table_enforce scope_policies s obj act = Inr ((s, obj, act) \<in> set scope_policies)"
  by (force simp: table_enforce_def row_matches_def)

interpretation casbin: scope_enforcer "table_enforce scope_policies"
  by unfold_locales (rule table_enforce_policies)

lemma check_scopes_None:
  "check_scopes known am ss = None \<longleftrightarrow> (\<forall>s \<in> set ss. s = scope_master \<and> am \<or> s \<noteq> scope_master \<and> s \<in> set known)"
  by (induction ss) auto

lemma master_not_known [simp]: "scope_master \<notin> set all_scopes"
  by (simp add: all_scopes_def scope_names)

lemma validate_scopes_None: "validate_scopes ss = None \<longleftrightarrow> set ss \<subseteq> set all_scopes"
  using master_not_known by (fastforce simp: validate_scopes_def check_scopes_None)

lemma policy_scopes_known: "(s, obj, act) \<in> set scope_policies \<Longrightarrow> s \<in> set all_scopes"
  by (auto simp: scope_policies_def all_scopes_def)

lemma policies_write_read:
  "(s, obj, ''write'') \<in> set scope_policies \<Longrightarrow> (s, obj, ''read'') \<in> set scope_policies"
  by (auto simp: scope_policies_def)

text \<open>A token whose scopes passed the validation of user input holds no hidden power. It is
  granted an action exactly when one of its scopes has that row in the policy table, every
  holder of a resource's write permission can also read the resource, and no such token is ever
  allowed an action that the table does not list.\<close>

theorem validated_scopes_power:
  assumes "validate_scopes held = None"
  shows "(allows (Some (table_enforce scope_policies)) held obj act = Inr True \<longleftrightarrow>
            (\<exists>s \<in> set held. (s, obj, act) \<in> set scope_policies)) \<and>
         (allows (Some (table_enforce scope_policies)) held obj ''write'' = Inr True \<longrightarrow>
            allows (Some (table_enforce scope_policies)) held obj ''read'' = Inr True) \<and>
         ((\<forall>s. (s, obj, act) \<notin> set scope_policies) \<longrightarrow>
            allows (Some (table_enforce scope_policies)) held obj act = Inr False)"
proof -
  have "scope_master \<notin> set held" using assms master_not_known by (auto simp: validate_scopes_None)
  then show ?thesis using policies_write_read by (auto simp: casbin.allows_iff)
qed

theorem validated_scopes_power_witness:
  "allows (Some (table_enforce scope_policies)) [papers_write] ''papers'' ''read'' = Inr True \<and>
   allows (Some (table_enforce scope_policies)) [papers_write] ''plugins'' ''write'' = Inr False"
proof -
  have v: "validate_scopes [papers_write] = None"
    by (simp add: validate_scopes_None all_scopes_def)
  have "\<not> allows (Some (table_enforce scope_policies)) [papers_write] ''plugins'' ''write'' = Inr True"
    using validated_scopes_power [OF v, of "''plugins''" "''write''"]
    by (simp add: scope_policies_def scope_names)
  moreover have "allows (Some (table_enforce scope_policies)) [papers_write] ''papers'' ''read'' = Inr True"
    using validated_scopes_power [OF v, of "''papers''" "''read''"]
    by (simp add: scope_policies_def scope_names)
  ultimately show ?thesis using casbin.allows_deny by blast
qed

text \<open>The loaded system token is the one the operator configured, up to surrounding white space,
  and it matches itself and nothing else.\<close>

lemma load_system_pat_match:
  assumes "load_system_pat token scopes = Inr (Some sp)"
  shows "system_match (Some sp) b = (if b = trim_space token then Some (sys_scopes sp) else None)"
    and "16 \<le> length (sys_secret sp)"
    and "trim_space (sys_secret sp) = sys_secret sp"
    and "set (sys_scopes sp) \<subseteq> insert scope_master (set all_scopes)" and "sys_scopes sp \<noteq> []"
proof -
  have known: "validate_scopes_including_master out = None \<Longrightarrow>
      set out \<subseteq> insert scope_master (set all_scopes)" for out
    by (auto simp: validate_scopes_including_master_def check_scopes_None)
  have load: "sys_secret sp = trim_space token" "16 \<le> length (trim_space token)"
      "parse_system_pat_scopes scopes = Inr (sys_scopes sp)"
    using assms
    by (auto simp: load_system_pat_def Let_def min_system_pat_length_def split: if_splits sum.splits)
  show "system_match (Some sp) b = (if b = trim_space token then Some (sys_scopes sp) else None)"
    using load by (auto simp: system_match_def)
  show "16 \<le> length (sys_secret sp)" "trim_space (sys_secret sp) = sys_secret sp"
    using load by simp_all
  show "set (sys_scopes sp) \<subseteq> insert scope_master (set all_scopes)"
    using load(3) known
    by (auto simp: parse_system_pat_scopes_def Let_def dest!: sym [of "[scope_master]"]
             split: if_splits option.splits)
  show "sys_scopes sp \<noteq> []"
    using load(3)
    by (auto simp: parse_system_pat_scopes_def Let_def split: if_splits option.splits)
qed

lemma has_matching_append [simp]:
  "has_matching_rule (xs @ ys) w \<longleftrightarrow> has_matching_rule xs w \<or> has_matching_rule ys w"
  by (simp add: has_matching_rule_def)

lemma has_matching_Cons [simp]: "has_matching_rule (w # ws) w"
  by (simp add: has_matching_rule_def)

lemma add_missing_prefix: "\<exists>extra. fst (add_missing wants rules) = rules @ extra \<and> set extra \<subseteq> set wants"
  by (induction wants rules rule: add_missing.induct) force+

lemma add_missing_covers:
  "w \<in> set wants \<Longrightarrow> has_matching_rule (fst (add_missing wants rules)) w"
proof (induction wants rules rule: add_missing.induct)
  case (2 want wants rules)
  show ?case
  proof (cases "w = want")
    case False
    with 2 show ?thesis by auto
  next
    case True
    obtain e1 where "fst (add_missing wants rules) = rules @ e1"
      using add_missing_prefix by blast
    moreover obtain e2 where "fst (add_missing wants (rules @ [want])) = (rules @ [want]) @ e2"
      using add_missing_prefix by blast
    ultimately show ?thesis using True by auto
  qed
qed simp

lemma add_missing_id:
  "\<forall>w \<in> set wants. has_matching_rule rules w \<Longrightarrow> add_missing wants rules = (rules, False)"
  by (induction wants) auto

text \<open>Installing the default rate limits respects the operator and settles at once. The rules
  already configured stay, in order and unchanged, at the front of the list; each default label
  and audience is covered afterwards; a limiter that was enabled stays enabled; and a second run
  changes nothing and reports so.\<close>

theorem rate_defaults_idempotent:
  fixes auth guest ok st
  defines "st' \<equiv> snd (ensure_defaults auth guest ok st)"
  shows "(\<exists>extra. rs_rules st' = rs_rules st @ extra \<and> set extra \<subseteq> set (default_rate_rules auth guest)) \<and>
    (\<forall>w \<in> set (default_rate_rules auth guest). has_matching_rule (rs_rules st') w) \<and>
    (rs_enabled st \<longrightarrow> rs_enabled st') \<and>
    ensure_defaults auth guest ok' st' = ((False, True), st')"
proof -
  have rules: "rs_rules st' = fst (add_missing (default_rate_rules auth guest) (rs_rules st))"
    and en: "rs_enabled st \<longrightarrow> rs_enabled st'"
    by (simp_all add: st'_def ensure_defaults_def Let_def split: prod.splits)
  then have cover: "\<forall>w \<in> set (default_rate_rules auth guest). has_matching_rule (rs_rules st') w"
    using add_missing_covers by simp
  then have "ensure_defaults auth guest ok' st' = ((False, True), st')"
    by (simp add: ensure_defaults_def add_missing_id)
  with rules en cover add_missing_prefix [of "default_rate_rules auth guest" "rs_rules st"]
  show ?thesis by simp
qed

theorem rate_defaults_idempotent_witness:
  "has_matching_rule (rs_rules (snd (ensure_defaults ''@auth'' ''@guest'' True \<lparr>rs_enabled = False, rs_rules = []\<rparr>)))
     \<lparr>rl_label = ''POST /api/pat'', rl_audience = ''@guest'', rl_duration = 5, rl_max = 5\<rparr>"
proof -
  have "\<forall>w \<in> set (default_rate_rules ''@auth'' ''@guest'').
      has_matching_rule (rs_rules (snd (ensure_defaults ''@auth'' ''@guest'' True \<lparr>rs_enabled = False, rs_rules = []\<rparr>))) w"
    using rate_defaults_idempotent [of "''@auth''" "''@guest''" True "\<lparr>rs_enabled = False, rs_rules = []\<rparr>"]
    by blast
  then show ?thesis by (simp add: default_rate_rules_def has_matching_rule_def)
qed

end
