(* ===== verification/Pat_Tokens.thy ===== *)
theory Pat_Tokens
  imports Prelude "HOL-Library.Word"
begin

text \<open>
  Personal access tokens (\<open>internal/pat/pat.go\<close>) and the cache of verified tokens
  (\<open>internal/pat/cache.go\<close>): generation, look-up by prefix and bcrypt comparison, expiry, the
  cached fast path. bcrypt and SHA-256 are the parameters \<open>bc\<close> and \<open>sha\<close>; the bytes of
  \<open>crypto/rand\<close> are an argument. The LRU container is a third-party package: its content is a
  map, and the parameter \<open>keep\<close> says which keys survive when \<open>Add\<close> evicts.
\<close>

section \<open>Generation\<close>

definition token_prefix :: string where "token_prefix = ''qat_''"
definition prefix_display_len :: nat where "prefix_display_len = 12"
definition secret_body_len :: nat where "secret_body_len = 24"

definition base62_alphabet :: string where
  "base62_alphabet = ''0123456789ABCDEFGHIJKLMNOPQRSTUVWXYZabcdefghijklmnopqrstuvwxyz''"

datatype rand_error = BadLength | RandFailed

text \<open>
  The loop of \<open>randomBase62\<close>: \<open>n\<close> characters are missing, \<open>buf\<close> is the unread rest of the
  buffer, \<open>reads\<close> the results of the coming calls of \<open>rand.Read\<close>. The value \<open>None\<close> says that the
  loop still runs when these reads are used up.
\<close>

fun base62_loop :: "nat \<Rightarrow> string \<Rightarrow> 8 word list \<Rightarrow> 8 word list option list
    \<Rightarrow> (rand_error + string) option" where
  "base62_loop 0 out buf reads = Some (Inr out)"
| "base62_loop (Suc n) out [] [] = None"
| "base62_loop (Suc n) out [] (None # reads) = Some (Inl RandFailed)"
| "base62_loop (Suc n) out [] (Some chunk # reads) = base62_loop (Suc n) out chunk reads"
| "base62_loop (Suc n) out (b # buf) reads =
     (if 248 \<le> b then base62_loop (Suc n) out buf reads
      else base62_loop n (out @ [base62_alphabet ! (unat b mod 62)]) buf reads)"

definition random_base62 :: "int \<Rightarrow> 8 word list option list \<Rightarrow> (rand_error + string) option" where
  "random_base62 n reads =
     (if n \<le> 0 then Some (Inl BadLength) else base62_loop (nat n) [] [] reads)"

definition looks :: "string \<Rightarrow> bool" where
  "looks token =
     (if length token < prefix_display_len then False
      else if \<not> prefix token_prefix token then False else True)"

definition prefix_of :: "string \<Rightarrow> string" where
  "prefix_of p = (if length p < prefix_display_len then [] else take prefix_display_len p)"

datatype generate_error = RandomErr rand_error | BcryptErr

text \<open>\<open>Generate\<close>; \<open>bcrypt\<close> is the salted hash this call computes, \<open>None\<close> when it fails.\<close>

definition generate :: "8 word list option list \<Rightarrow> (string \<Rightarrow> string option)
    \<Rightarrow> (generate_error + string \<times> string \<times> string) option" where
  "generate reads bcrypt =
     (case random_base62 (int secret_body_len) reads of
        None \<Rightarrow> None
      | Some (Inl e) \<Rightarrow> Some (Inl (RandomErr e))
      | Some (Inr body) \<Rightarrow>
          let plaintext = token_prefix @ body in
          case bcrypt plaintext of
            None \<Rightarrow> Some (Inl BcryptErr)
          | Some hash \<Rightarrow> Some (Inr (plaintext, prefix_of plaintext, hash)))"

section \<open>The tables\<close>

text \<open>The JSON in the scopes column, by what decoding makes of it: \<open>""\<close> or \<open>"null"\<close>, a list of
  strings, or text that does not decode.\<close>

datatype scopes_col = Scopes_Blank | Scopes_List "string list" | Scopes_Corrupt

fun decode_scopes :: "scopes_col \<Rightarrow> string list" where
  "decode_scopes (Scopes_List ss) = ss"
| "decode_scopes Scopes_Blank = []"
| "decode_scopes Scopes_Corrupt = []"

record pat_row =
  pt_user :: string
  pt_name :: string
  pt_prefix :: string
  pt_hash :: string
  pt_description :: string
  pt_scopes :: scopes_col
  pt_expires :: instant
  pt_created :: instant
  pt_last_used :: instant

record user_row =
  us_disabled :: bool
  us_admin :: bool
  us_superadmin :: bool

record pbdb =
  db_pats :: "(string, pat_row) gomap"
  db_users :: "string \<rightharpoonup> user_row"

section \<open>The verify cache\<close>

record verify_cfg =
  cf_max_entries :: int
  cf_ttl :: duration

definition default_verify_cfg :: verify_cfg where
  "default_verify_cfg = \<lparr>cf_max_entries = 4096, cf_ttl = 60 * int second\<rparr>"

record cache_entry =
  ce_pat :: string
  ce_user :: string
  ce_scopes :: scopes_col
  ce_expires :: instant
  ce_cached :: instant

text \<open>\<open>vc_lru = None\<close> is the disabled cache (a nil \<open>lru\<close>).\<close>

record verify_cache =
  vc_lru :: "(string \<rightharpoonup> cache_entry) option"
  vc_cap :: int
  vc_ttl :: duration

definition new_verify_cache :: "verify_cfg \<Rightarrow> verify_cache" where
  "new_verify_cache cfg =
     (let n = (if cf_max_entries cfg \<le> 0 then cf_max_entries default_verify_cfg else cf_max_entries cfg);
          ttl = (if cf_ttl cfg = 0 then cf_ttl default_verify_cfg else cf_ttl cfg)
      in if ttl < 0 then \<lparr>vc_lru = None, vc_cap = n, vc_ttl = 0\<rparr>
         else \<lparr>vc_lru = Some Map.empty, vc_cap = n, vc_ttl = ttl\<rparr>)"

definition cache_remove :: "string \<Rightarrow> verify_cache \<Rightarrow> verify_cache" where
  "cache_remove k c = c\<lparr>vc_lru := map_option (\<lambda>m. m(k := None)) (vc_lru c)\<rparr>"

definition cache_get :: "(string \<Rightarrow> string) \<Rightarrow> instant \<Rightarrow> string \<Rightarrow> verify_cache
    \<Rightarrow> cache_entry option \<times> verify_cache" where
  "cache_get sha now p c =
     (case vc_lru c of
        None \<Rightarrow> (None, c)
      | Some m \<Rightarrow>
          case m (sha p) of
            None \<Rightarrow> (None, c)
          | Some e \<Rightarrow>
              if int now - int (ce_cached e) \<ge> vc_ttl c then (None, cache_remove (sha p) c)
              else if ce_expires e = 0 \<or> ce_expires e < now then (None, cache_remove (sha p) c)
              else (Some e, c))"

definition cache_put :: "(string \<Rightarrow> string) \<Rightarrow> ((string \<rightharpoonup> cache_entry) \<Rightarrow> string set) \<Rightarrow> instant
    \<Rightarrow> string \<Rightarrow> cache_entry \<Rightarrow> verify_cache \<Rightarrow> verify_cache" where
  "cache_put sha keep now p e c =
     (case vc_lru c of
        None \<Rightarrow> c
      | Some m \<Rightarrow>
          let m' = m(sha p \<mapsto> e\<lparr>ce_cached := now\<rparr>) in c\<lparr>vc_lru := Some (m' |` keep m')\<rparr>)"

definition invalidate_by_pat_id :: "string \<Rightarrow> verify_cache \<Rightarrow> verify_cache" where
  "invalidate_by_pat_id pid c =
     (if pid = [] then c
      else c\<lparr>vc_lru := map_option
        (\<lambda>m k. case m k of None \<Rightarrow> None | Some e \<Rightarrow> if ce_pat e = pid then None else Some e) (vc_lru c)\<rparr>)"

definition cache_purge :: "verify_cache \<Rightarrow> verify_cache" where
  "cache_purge c = c\<lparr>vc_lru := map_option (\<lambda>m. Map.empty) (vc_lru c)\<rparr>"

section \<open>Look-up\<close>

datatype lookup_error = ErrNotFound | ErrExpired | LoadFailed | EmptyUserLink string | UserLoadFailed string

text \<open>Which of the queries of one look-up reach the database.\<close>

record lookup_io =
  io_fast_pat :: bool
  io_fast_user :: bool
  io_scan :: bool
  io_user :: bool

text \<open>The loop over the rows with the token's prefix.\<close>

fun scan_rows :: "(string \<Rightarrow> string \<Rightarrow> bool) \<Rightarrow> bool \<Rightarrow> instant \<Rightarrow> string \<Rightarrow> (string \<rightharpoonup> user_row)
    \<Rightarrow> (string \<times> pat_row) list
    \<Rightarrow> lookup_error + (string \<times> pat_row) \<times> (string \<times> user_row)" where
  "scan_rows bc user_ok now p users [] = Inl ErrNotFound"
| "scan_rows bc user_ok now p users ((pid, r) # rows) =
     (if pt_hash r = [] then scan_rows bc user_ok now p users rows
      else if \<not> bc (pt_hash r) p then scan_rows bc user_ok now p users rows
      else if pt_expires r = 0 \<or> pt_expires r < now then Inl ErrExpired
      else if pt_user r = [] then Inl (EmptyUserLink pid)
      else case (if user_ok then users (pt_user r) else None) of
             None \<Rightarrow> Inl (UserLoadFailed (pt_user r))
           | Some u \<Rightarrow> Inr ((pid, r), (pt_user r, u)))"

text \<open>The authoritative path: prefix scan, bcrypt, expiry, user, and the entry for the cache.\<close>

definition slow_lookup :: "(string \<Rightarrow> string) \<Rightarrow> (string \<Rightarrow> string \<Rightarrow> bool)
    \<Rightarrow> ((string \<rightharpoonup> cache_entry) \<Rightarrow> string set) \<Rightarrow> lookup_io \<Rightarrow> instant \<Rightarrow> instant \<Rightarrow> string
    \<Rightarrow> 'a pbdb_scheme \<Rightarrow> verify_cache
    \<Rightarrow> (lookup_error + (string \<times> pat_row) \<times> (string \<times> user_row)) \<times> verify_cache" where
  "slow_lookup sha bc keep io n2 n3 p db c =
     (if \<not> io_scan io then (Inl LoadFailed, c)
      else case scan_rows bc (io_user io) n2 p (db_users db)
                  (filter (\<lambda>(pid, r). pt_prefix r = prefix_of p) (db_pats db)) of
             Inl e \<Rightarrow> (Inl e, c)
           | Inr ((pid, r), (uid, u)) \<Rightarrow>
               (Inr ((pid, r), (uid, u)),
                cache_put sha keep n3 p
                  \<lparr>ce_pat = pid, ce_user = uid, ce_scopes = pt_scopes r, ce_expires = pt_expires r,
                   ce_cached = 0\<rparr> c))"

text \<open>
  \<open>Lookup\<close>; \<open>n1\<close>, \<open>n2\<close> and \<open>n3\<close> are the readings of the clock in \<open>Get\<close>, at the expiry check
  and in \<open>Put\<close>.
\<close>

definition lookup :: "(string \<Rightarrow> string) \<Rightarrow> (string \<Rightarrow> string \<Rightarrow> bool)
    \<Rightarrow> ((string \<rightharpoonup> cache_entry) \<Rightarrow> string set) \<Rightarrow> lookup_io \<Rightarrow> instant \<Rightarrow> instant \<Rightarrow> instant \<Rightarrow> string
    \<Rightarrow> 'a pbdb_scheme \<Rightarrow> verify_cache
    \<Rightarrow> (lookup_error + (string \<times> pat_row) \<times> (string \<times> user_row)) \<times> verify_cache" where
  "lookup sha bc keep io n1 n2 n3 p db c =
     (if \<not> looks p then (Inl ErrNotFound, c)
      else case cache_get sha n1 p c of
        (None, c') \<Rightarrow> slow_lookup sha bc keep io n2 n3 p db c'
      | (Some e, c') \<Rightarrow>
          (case (if io_fast_pat io then map_of (db_pats db) (ce_pat e) else None,
                 if io_fast_user io then db_users db (ce_user e) else None) of
             (Some r, Some u) \<Rightarrow> (Inr ((ce_pat e, r), (ce_user e, u)), c')
           | _ \<Rightarrow> slow_lookup sha bc keep io n2 n3 p db (cache_remove (sha p) c')))"

definition mark_used :: "instant \<Rightarrow> string \<Rightarrow> 'a pbdb_scheme \<Rightarrow> 'a pbdb_scheme" where
  "mark_used now pid db =
     (case map_of (db_pats db) pid of
        None \<Rightarrow> db
      | Some r \<Rightarrow> db\<lparr>db_pats := AList.update pid (r\<lparr>pt_last_used := now\<rparr>) (db_pats db)\<rparr>)"

section \<open>Lemmas on generation\<close>

lemma base62_length [simp]: "length base62_alphabet = 62"
  by (simp add: base62_alphabet_def)

lemma base62_loop_Inr:
  "base62_loop n out buf reads = Some (Inr s) \<Longrightarrow>
   \<exists>t. s = out @ t \<and> length t = n \<and> set t \<subseteq> set base62_alphabet"
proof (induction n out buf reads rule: base62_loop.induct)
  case (5 n out b buf reads)
  then show ?case by (cases "248 \<le> b") (auto simp: Suc_length_conv)
qed auto

lemma base62_loop_returns:
  "n \<le> length (filter (\<lambda>b. b < 248) (buf @ concat (map the (filter (\<lambda>r. r \<noteq> None) reads)))) \<Longrightarrow>
   base62_loop n out buf reads \<noteq> None"
proof (induction n out buf reads rule: base62_loop.induct)
  case (5 n out b buf reads)
  then show ?case by (cases "b < 248") (simp_all add: not_le not_less)
qed auto

text \<open>The choice is unbiased: each residue is hit by the same number of accepted bytes.\<close>

lemma base62_unbiased:
  assumes "i < 62"
  shows "card {b::nat. b < 248 \<and> b mod 62 = i} = 4"
proof -
  have "{b::nat. b < 248 \<and> b mod 62 = i} = {i, i + 62, i + 124, i + 186}" (is "?A = ?B")
  proof
    show "?A \<subseteq> ?B"
    proof
      fix b assume b: "b \<in> ?A"
      then have eq: "b = 62 * (b div 62) + i" using mult_div_mod_eq [of 62 b] by simp
      from b have "b div 62 < 4" by (simp add: less_mult_imp_div_less)
      then have "b div 62 \<in> {0, 1, 2, 3}" by auto
      with eq show "b \<in> ?B" by auto
    qed
  qed (use assms mod_mult_self1 [of i 2 62] mod_mult_self1 [of i 3 62] in auto)
  then show ?thesis using assms by simp
qed

text \<open>A generated token has the promised shape, and generation ends as soon as the random
  source delivers enough usable bytes. The plaintext is the token prefix and 24 characters of the
  base-62 alphabet, it passes the shape check of the guard, and the stored prefix is its first
  12 characters; 24 bytes below 248 in the coming reads are enough for the call to return.\<close>

theorem generate_shape:
  "(\<forall>p pre h. generate reads bcrypt = Some (Inr (p, pre, h)) \<longrightarrow>
      (\<exists>body. p = token_prefix @ body \<and> length body = 24 \<and> set body \<subseteq> set base62_alphabet) \<and>
      looks p \<and> pre = take 12 p \<and> prefix_of p = pre \<and> bcrypt p = Some h) \<and>
   (24 \<le> length (filter (\<lambda>b. b < 248) (concat (map the (filter (\<lambda>r. r \<noteq> None) reads)))) \<longrightarrow>
      generate reads bcrypt \<noteq> None)"
proof -
  have "(\<exists>body. p = token_prefix @ body \<and> length body = 24 \<and> set body \<subseteq> set base62_alphabet) \<and>
      looks p \<and> pre = take 12 p \<and> prefix_of p = pre \<and> bcrypt p = Some h"
    if g: "generate reads bcrypt = Some (Inr (p, pre, h))" for p pre h
  proof -
    from g obtain body where "base62_loop 24 [] [] reads = Some (Inr body)"
      and p: "p = token_prefix @ body" "pre = prefix_of p" "bcrypt p = Some h"
      by (auto simp: generate_def random_base62_def secret_body_len_def Let_def
            split: option.splits sum.splits)
    with base62_loop_Inr [of 24 "[]" "[]" reads body]
    have "length body = 24" "set body \<subseteq> set base62_alphabet" by auto
    with p show ?thesis
      by (auto simp: looks_def prefix_of_def prefix_display_len_def token_prefix_def)
  qed
  moreover have "generate reads bcrypt \<noteq> None"
    if "24 \<le> length (filter (\<lambda>b. b < 248) (concat (map the (filter (\<lambda>r. r \<noteq> None) reads))))"
  proof -
    have "base62_loop 24 [] [] reads \<noteq> None"
      using that base62_loop_returns [of 24 "[]" reads "[]"] by simp
    then show ?thesis
      by (auto simp: generate_def random_base62_def secret_body_len_def Let_def
            split: option.splits sum.splits)
  qed
  ultimately show ?thesis by blast
qed

theorem generate_shape_witness:
  "\<exists>p h. generate [Some (replicate 64 (61 :: 8 word))] (\<lambda>p. Some p) = Some (Inr (p, take 12 p, h)) \<and> looks p"
proof -
  have "generate [Some (replicate 64 (61 :: 8 word))] (\<lambda>p. Some p)
      = Some (Inr (token_prefix @ replicate 24 (CHR ''z''), ''qat_zzzzzzzz'', token_prefix @ replicate 24 (CHR ''z'')))"
    by code_simp
  then have g: "generate [Some (replicate 64 (61 :: 8 word))] (\<lambda>p. Some p)
      = Some (Inr (token_prefix @ replicate 24 (CHR ''z''), ''qat_zzzzzzzz'', token_prefix @ replicate 24 (CHR ''z'')))" .
  have "looks (token_prefix @ replicate 24 (CHR ''z'')) \<and>
      ''qat_zzzzzzzz'' = take 12 (token_prefix @ replicate 24 (CHR ''z''))"
    using generate_shape [of "[Some (replicate 64 (61 :: 8 word))]" "\<lambda>p. Some p"] g by blast
  with g show ?thesis by (intro exI conjI) auto
qed

section \<open>Look-up and the cache\<close>

lemma cache_get_hit:
  "cache_get sha now p c = (Some e, c') \<Longrightarrow>
   c' = c \<and> (\<exists>m. vc_lru c = Some m \<and> m (sha p) = Some e) \<and>
   int now - int (ce_cached e) < vc_ttl c \<and> ce_expires e \<noteq> 0 \<and> now \<le> ce_expires e"
  by (auto simp: cache_get_def split: option.splits if_splits)

text \<open>The entries of a cache, with the empty map for the disabled cache.\<close>

definition entries :: "verify_cache \<Rightarrow> string \<Rightarrow> cache_entry option" where
  "entries c = (case vc_lru c of None \<Rightarrow> Map.empty | Some m \<Rightarrow> m)"

lemma entries_remove: "entries (cache_remove k c) k' = Some e \<Longrightarrow> entries c k' = Some e"
  by (auto simp: entries_def cache_remove_def split: option.splits if_splits)

lemma cache_get_state: "snd (cache_get sha now p c) = c \<or> snd (cache_get sha now p c) = cache_remove (sha p) c"
  by (simp add: cache_get_def split: option.splits)

lemma entries_get: "entries (snd (cache_get sha now p c)) k = Some e \<Longrightarrow> entries c k = Some e"
  using cache_get_state [of sha now p c] entries_remove [of "sha p" c k e] by metis

lemma restrict_SomeD: "(m |` A) k = Some v \<Longrightarrow> m k = Some v"
  by (simp add: restrict_map_def split: if_splits)

lemma entries_put:
  assumes "entries (cache_put sha keep now p e0 c) k = Some e"
  shows "entries c k = Some e \<or> k = sha p \<and> e = e0\<lparr>ce_cached := now\<rparr>"
proof (cases "vc_lru c")
  case None
  with assms show ?thesis by (simp add: cache_put_def)
next
  case (Some m)
  define m' where "m' = m(sha p \<mapsto> e0\<lparr>ce_cached := now\<rparr>)"
  have "(m' |` keep m') k = Some e"
    using assms Some by (simp add: cache_put_def entries_def Let_def m'_def)
  then have "m' k = Some e" by (rule restrict_SomeD)
  then show ?thesis
    unfolding m'_def by (cases "k = sha p") (simp_all add: entries_def Some)
qed

lemma entries_invalidate: "entries (invalidate_by_pat_id pid c) k = Some e \<Longrightarrow>
   entries c k = Some e \<and> (pid \<noteq> [] \<longrightarrow> ce_pat e \<noteq> pid)"
  by (auto simp: invalidate_by_pat_id_def entries_def split: option.splits if_splits)

lemma ttl_frame [simp]:
  "vc_ttl (cache_remove k c) = vc_ttl c"
  "vc_ttl (snd (cache_get sha now p c)) = vc_ttl c"
  "vc_ttl (cache_put sha keep now p e c) = vc_ttl c"
  "vc_ttl (invalidate_by_pat_id pid c) = vc_ttl c"
  by (auto simp: cache_remove_def cache_get_def cache_put_def invalidate_by_pat_id_def Let_def
        split: option.splits)

text \<open>A row that verifies the plaintext at an instant.\<close>

definition verifies :: "(string \<Rightarrow> string \<Rightarrow> bool) \<Rightarrow> instant \<Rightarrow> string \<Rightarrow> pat_row \<Rightarrow> bool" where
  "verifies bc now p r \<longleftrightarrow>
     pt_hash r \<noteq> [] \<and> bc (pt_hash r) p \<and> pt_expires r \<noteq> 0 \<and> now \<le> pt_expires r \<and> pt_user r \<noteq> []"

lemma scan_rows_Inr:
  "scan_rows bc user_ok now p users rows = Inr ((pid, r), (uid, u)) \<Longrightarrow>
   (pid, r) \<in> set rows \<and> verifies bc now p r \<and> pt_user r = uid \<and> users uid = Some u"
  by (induction bc user_ok now p users rows rule: scan_rows.induct)
     (auto simp: verifies_def split: if_splits option.splits)

lemma slow_lookup_Inr:
  assumes "slow_lookup sha bc keep io n2 n3 p db c = (Inr ((pid, r), (uid, u)), c')"
    and "gomap_ok (db_pats db)"
  shows "map_of (db_pats db) pid = Some r \<and> verifies bc n2 p r \<and> pt_user r = uid \<and>
     db_users db uid = Some u \<and> pt_prefix r = prefix_of p \<and>
     c' = cache_put sha keep n3 p \<lparr>ce_pat = pid, ce_user = uid, ce_scopes = pt_scopes r,
            ce_expires = pt_expires r, ce_cached = 0\<rparr> c"
  using assms
  by (auto simp: slow_lookup_def gomap_set_iff split: if_splits sum.splits dest!: scan_rows_Inr)

lemma slow_lookup_Inl: "slow_lookup sha bc keep io n2 n3 p db c = (Inl e, c') \<Longrightarrow> c' = c"
  by (auto simp: slow_lookup_def split: if_splits sum.splits)

text \<open>Every successful look-up is a cache hit on live rows, or a verification now.\<close>

lemma lookup_cases:
  assumes "lookup sha bc keep io n1 n2 n3 p db c = (Inr ((pid, r), (uid, u)), c')"
  obtains (hit) e where "cache_get sha n1 p c = (Some e, c)" "ce_pat e = pid" "ce_user e = uid"
      "map_of (db_pats db) pid = Some r" "db_users db uid = Some u" "c' = c"
  | (slow) c0 where "slow_lookup sha bc keep io n2 n3 p db c0 = (Inr ((pid, r), (uid, u)), c')"
      "\<And>k e. entries c0 k = Some e \<Longrightarrow> entries c k = Some e"
proof -
  obtain eo c1 where g: "cache_get sha n1 p c = (eo, c1)" by force
  have c1: "entries c1 k = Some e \<Longrightarrow> entries c k = Some e" for k e
    using entries_get [of sha n1 p c k e] g by simp
  show thesis
  proof (cases eo)
    case None
    with assms g have "slow_lookup sha bc keep io n2 n3 p db c1 = (Inr ((pid, r), (uid, u)), c')"
      by (simp add: lookup_def split: if_splits)
    then show ?thesis using c1 by (rule slow)
  next
    case (Some e)
    with g have "c1 = c" using cache_get_hit by auto
    let ?r = "if io_fast_pat io then map_of (db_pats db) (ce_pat e) else None"
    let ?u = "if io_fast_user io then db_users db (ce_user e) else None"
    show ?thesis
    proof (cases "?r = None \<or> ?u = None")
      case True
      then have "slow_lookup sha bc keep io n2 n3 p db (cache_remove (sha p) c)
          = (Inr ((pid, r), (uid, u)), c')"
        using assms g Some \<open>c1 = c\<close> by (auto simp: lookup_def split: if_splits option.splits)
      then show ?thesis using entries_remove by (rule slow)
    next
      case False
      with assms g Some \<open>c1 = c\<close> show ?thesis
        by (intro hit [of e]) (auto simp: lookup_def split: if_splits option.splits)
    qed
  qed
qed

lemma entries_slow:
  assumes "gomap_ok (db_pats db)"
    and "entries (snd (slow_lookup sha bc keep io n2 n3 p db c)) k = Some e"
  shows "entries c k = Some e \<or> k = sha p \<and> ce_cached e = n3 \<and>
     (\<exists>r. map_of (db_pats db) (ce_pat e) = Some r \<and> verifies bc n2 p r \<and>
          pt_user r = ce_user e \<and> pt_expires r = ce_expires e)"
proof -
  obtain res c' where s: "slow_lookup sha bc keep io n2 n3 p db c = (res, c')" by force
  show ?thesis
  proof (cases res)
    case (Inl err)
    with s assms show ?thesis by (auto dest: slow_lookup_Inl)
  next
    case (Inr ok)
    obtain pid r uid u where ok: "ok = ((pid, r), (uid, u))" by (metis prod.exhaust)
    from slow_lookup_Inr [OF _ assms(1)] s Inr ok
    have row: "map_of (db_pats db) pid = Some r" "verifies bc n2 p r" "pt_user r = uid"
      and c': "c' = cache_put sha keep n3 p \<lparr>ce_pat = pid, ce_user = uid, ce_scopes = pt_scopes r,
            ce_expires = pt_expires r, ce_cached = 0\<rparr> c" by blast+
    from assms(2) s have "entries c' k = Some e" by simp
    then show ?thesis unfolding c' by (rule entries_put [THEN disjE]) (use row in auto)
  qed
qed

lemma entries_lookup:
  assumes "gomap_ok (db_pats db)"
    and "entries (snd (lookup sha bc keep io n1 n2 n3 p db c)) k = Some e"
  shows "entries c k = Some e \<or> k = sha p \<and> ce_cached e = n3 \<and>
     (\<exists>r. map_of (db_pats db) (ce_pat e) = Some r \<and> verifies bc n2 p r \<and>
          pt_user r = ce_user e \<and> pt_expires r = ce_expires e)"
proof -
  obtain eo c1 where g: "cache_get sha n1 p c = (eo, c1)" by force
  have c1: "entries c1 k = Some e \<Longrightarrow> entries c k = Some e"
    using entries_get [of sha n1 p c k e] g by simp
  have "snd (lookup sha bc keep io n1 n2 n3 p db c) \<in>
      {c, c1, snd (slow_lookup sha bc keep io n2 n3 p db c1),
       snd (slow_lookup sha bc keep io n2 n3 p db (cache_remove (sha p) c1))}"
    by (simp add: lookup_def g split: option.splits)
  then show ?thesis
    using assms(2) c1 entries_slow [OF assms(1)] entries_remove [of "sha p" c1 k e]
    by (auto simp del: split_paired_Ex) blast+
qed

lemma ttl_lookup [simp]: "vc_ttl (snd (lookup sha bc keep io n1 n2 n3 p db c)) = vc_ttl c"
proof -
  have slow: "vc_ttl (snd (slow_lookup sha bc keep io n2 n3 p db d)) = vc_ttl d" for d
    by (simp add: slow_lookup_def split: sum.splits prod.splits)
  obtain eo c1 where g: "cache_get sha n1 p c = (eo, c1)" by force
  have "vc_ttl c1 = vc_ttl c" using g ttl_frame(2) [of sha n1 p c] by simp
  then show ?thesis by (simp add: lookup_def g slow split: option.splits)
qed

section \<open>Histories\<close>

text \<open>
  A history of the server, latest state first: look-ups, invalidations, and arbitrary changes of
  the database by other handlers or by the administrator, at non-decreasing times. It begins with
  an empty cache.
\<close>

inductive auth_run :: "(string \<Rightarrow> string) \<Rightarrow> (string \<Rightarrow> string \<Rightarrow> bool) \<Rightarrow> duration
    \<Rightarrow> (instant \<times> pbdb \<times> verify_cache) list \<Rightarrow> bool" for sha bc ttl where
  run_start: "gomap_ok (db_pats db) \<Longrightarrow> entries c = Map.empty \<Longrightarrow> vc_ttl c = ttl \<Longrightarrow>
     auth_run sha bc ttl [(t, db, c)]"
| run_lookup: "auth_run sha bc ttl ((t, db, c) # h) \<Longrightarrow> t \<le> n1 \<Longrightarrow> n1 \<le> n2 \<Longrightarrow> n2 \<le> n3 \<Longrightarrow>
     auth_run sha bc ttl ((n3, db, snd (lookup sha bc keep io n1 n2 n3 p db c)) # (t, db, c) # h)"
| run_invalidate: "auth_run sha bc ttl ((t, db, c) # h) \<Longrightarrow> t \<le> t' \<Longrightarrow>
     auth_run sha bc ttl ((t', db, invalidate_by_pat_id pid c) # (t, db, c) # h)"
| run_db: "auth_run sha bc ttl ((t, db, c) # h) \<Longrightarrow> t \<le> t' \<Longrightarrow> gomap_ok (db_pats db') \<Longrightarrow>
     auth_run sha bc ttl ((t', db', c) # (t, db, c) # h)"

inductive_cases auth_run_emptyE: "auth_run sha bc ttl []"

text \<open>An entry is justified by a state of the history in which its row verified a plaintext with
  its key, at the time it was cached.\<close>

definition justified :: "(string \<Rightarrow> string) \<Rightarrow> (string \<Rightarrow> string \<Rightarrow> bool)
    \<Rightarrow> (instant \<times> pbdb \<times> verify_cache) list \<Rightarrow> string \<Rightarrow> cache_entry \<Rightarrow> bool" where
  "justified sha bc h k e \<longleftrightarrow>
     (\<exists>t db c q r n. (t, db, c) \<in> set h \<and> t = ce_cached e \<and> sha q = k \<and> n \<le> t \<and>
        map_of (db_pats db) (ce_pat e) = Some r \<and> verifies bc n q r \<and>
        pt_user r = ce_user e \<and> pt_expires r = ce_expires e)"

lemma justified_mono: "justified sha bc h k e \<Longrightarrow> set h \<subseteq> set h' \<Longrightarrow> justified sha bc h' k e"
  unfolding justified_def by blast

lemma auth_run_inv:
  "auth_run sha bc ttl h \<Longrightarrow> h \<noteq> [] \<and>
   (\<forall>t db c h'. h = (t, db, c) # h' \<longrightarrow> gomap_ok (db_pats db) \<and> vc_ttl c = ttl \<and>
      (\<forall>k e. entries c k = Some e \<longrightarrow> justified sha bc h k e))"
proof (induction rule: auth_run.induct)
  case (run_lookup t db c h n1 n2 n3 keep io p)
  let ?c' = "snd (lookup sha bc keep io n1 n2 n3 p db c)"
  from run_lookup.IH have ok: "gomap_ok (db_pats db)" "vc_ttl c = ttl"
    and old: "\<And>k e. entries c k = Some e \<Longrightarrow> justified sha bc ((t, db, c) # h) k e" by blast+
  have "justified sha bc ((n3, db, ?c') # (t, db, c) # h) k e" if "entries ?c' k = Some e" for k e
    using entries_lookup [OF ok(1) that]
  proof
    assume "entries c k = Some e"
    then show ?thesis by (rule justified_mono [OF old]) auto
  next
    assume "k = sha p \<and> ce_cached e = n3 \<and> (\<exists>r. map_of (db_pats db) (ce_pat e) = Some r \<and>
      verifies bc n2 p r \<and> pt_user r = ce_user e \<and> pt_expires r = ce_expires e)"
    then obtain r where "k = sha p" "ce_cached e = n3" "map_of (db_pats db) (ce_pat e) = Some r"
      "verifies bc n2 p r" "pt_user r = ce_user e" "pt_expires r = ce_expires e" by blast
    with run_lookup.hyps show ?thesis
      unfolding justified_def
      by (intro exI [of _ n3] exI [of _ db] exI [of _ ?c'] exI [of _ p] exI [of _ r] exI [of _ n2]) simp
  qed
  with ok show ?case by simp
next
  case (run_invalidate t db c h t' pid)
  then have old: "\<And>k e. entries c k = Some e \<Longrightarrow> justified sha bc ((t, db, c) # h) k e" by blast
  have "justified sha bc ((t', db, invalidate_by_pat_id pid c) # (t, db, c) # h) k e"
    if "entries (invalidate_by_pat_id pid c) k = Some e" for k e
    using entries_invalidate [OF that] by (intro justified_mono [OF old]) auto
  with run_invalidate.IH show ?case by simp
next
  case (run_db t db c h t' db')
  then have old: "\<And>k e. entries c k = Some e \<Longrightarrow> justified sha bc ((t, db, c) # h) k e" by blast
  have "justified sha bc ((t', db', c) # (t, db, c) # h) k e" if "entries c k = Some e" for k e
    using that by (rule justified_mono [OF old]) auto
  with run_db.IH run_db.hyps show ?case by simp
qed simp

text \<open>A token authenticates only on live rows and on a recent, genuine verification. In every
  history of look-ups, invalidations and arbitrary database changes, a look-up that succeeds
  returns a token row and a user that are in the database at that moment, so a deleted token
  never passes; and either the row verifies the presented plaintext now, or at some earlier
  moment of the history, less than the cache's retention time ago, the row of that id verified a
  plaintext with the same SHA-256, and the expiry it had then has not passed yet.\<close>

theorem lookup_bounded_staleness:
  assumes "auth_run sha bc ttl ((t, db, c) # h)"
    and "fst (lookup sha bc keep io n1 n2 n3 p db c) = Inr ((pid, r), (uid, u))"
  shows "map_of (db_pats db) pid = Some r \<and> db_users db uid = Some u \<and>
    (verifies bc n2 p r \<and> pt_user r = uid \<and> pt_prefix r = prefix_of p \<or>
     (\<exists>t0 db0 c0 r0 q n0. (t0, db0, c0) \<in> set ((t, db, c) # h) \<and> int n1 < int t0 + ttl \<and> sha q = sha p \<and>
        map_of (db_pats db0) pid = Some r0 \<and> n0 \<le> t0 \<and> verifies bc n0 q r0 \<and> pt_user r0 = uid \<and>
        n1 \<le> pt_expires r0))"
proof -
  obtain c' where l: "lookup sha bc keep io n1 n2 n3 p db c = (Inr ((pid, r), (uid, u)), c')"
    using assms(2) by (metis prod.collapse)
  note inv = auth_run_inv [OF assms(1)]
  then have ok: "gomap_ok (db_pats db)" and ttl: "vc_ttl c = ttl" by auto
  from l show ?thesis
  proof (cases rule: lookup_cases)
    case (slow c0)
    with slow_lookup_Inr [OF slow(1) ok] show ?thesis by simp
  next
    case (hit e)
    from cache_get_hit [OF hit(1)] have e: "entries c (sha p) = Some e" "int n1 < int (ce_cached e) + ttl"
      "n1 \<le> ce_expires e"
      using ttl by (auto simp: entries_def)
    then have "justified sha bc ((t, db, c) # h) (sha p) e" using inv by blast
    with e hit show ?thesis unfolding justified_def by (metis (no_types, lifting))
  qed
qed

definition sample_row :: pat_row where
  "sample_row = \<lparr>pt_user = ''u'', pt_name = ''ci'', pt_prefix = ''qat_zzzzzzzz'', pt_hash = ''h'',
     pt_description = [], pt_scopes = Scopes_List [''papers:read''], pt_expires = 100,
     pt_created = 1, pt_last_used = 0\<rparr>"

definition sample_db :: pbdb where
  "sample_db = \<lparr>db_pats = [(''id'', sample_row)],
     db_users = [''u'' \<mapsto> \<lparr>us_disabled = False, us_admin = False, us_superadmin = False\<rparr>]\<rparr>"

definition all_io :: lookup_io where
  "all_io = \<lparr>io_fast_pat = True, io_fast_user = True, io_scan = True, io_user = True\<rparr>"

theorem lookup_bounded_staleness_witness:
  "map_of (db_pats sample_db) ''id'' = Some sample_row \<and>
   verifies (\<lambda>h p. p = ''qat_zzzzzzzzz'') 6 ''qat_zzzzzzzzz'' sample_row"
proof -
  let ?bc = "\<lambda>h p. p = ''qat_zzzzzzzzz''"
  let ?c = "new_verify_cache default_verify_cfg"
  have run: "auth_run (\<lambda>s. s) ?bc (60 * int second) [(5, sample_db, ?c)]"
    by (rule run_start)
       (auto simp: sample_db_def gomap_ok_def new_verify_cache_def default_verify_cfg_def entries_def)
  have hit: "fst (lookup (\<lambda>s. s) ?bc dom all_io 6 6 6 ''qat_zzzzzzzzz'' sample_db ?c)
      = Inr ((''id'', sample_row), (''u'', \<lparr>us_disabled = False, us_admin = False, us_superadmin = False\<rparr>))"
    by (simp add: lookup_def looks_def prefix_display_len_def token_prefix_def cache_get_def
          new_verify_cache_def default_verify_cfg_def slow_lookup_def all_io_def sample_db_def
          sample_row_def prefix_of_def)
  show ?thesis
    using lookup_bounded_staleness [OF run hit]
    by (auto simp: new_verify_cache_def default_verify_cfg_def sample_db_def sample_row_def verifies_def)
qed

end
