(* ===== verification/Auth_Guard.thy ===== *)
theory Auth_Guard
  imports Pat_Scopes Pat_Tokens
begin

text \<open>
  The request guards (\<open>internal/routes/auth.go\<close>, \<open>scope_guard.go\<close>, the admin guard of
  \<open>admin.go\<close>) and the token management handlers behind them (\<open>internal/routes/pat.go\<close>). A guard
  is a function from handlers to handlers, as in the source; a handler maps a request and the
  server state to a reply and the new state. Time formatting, the HTTP plumbing and the JSON
  decoder of the standard library stay outside: a request body is what decoding it yields.
\<close>

section \<open>Requests and replies\<close>

datatype detail =
    Text string | ReadBody string | ParseBody string | BadScopes scope_error | ScopeCheckFailed scope_error

datatype 'a reply = Detail nat detail | Reply 'a

text \<open>The record PocketBase mounts on \<open>re.Auth\<close>: its collection, when it has one, and the flags.\<close>

record auth_rec =
  au_collection :: "string option"
  au_id :: string
  au_user :: user_row

record request =
  rq_header :: string
  rq_auth :: "auth_rec option"
  rq_source :: "string option"
  rq_held :: "string list option"

text \<open>What \<open>isAuthorized\<close> consults beside the request: the system token, the cryptographic
  functions, the clock readings and the database outcomes of the look-up.\<close>

record auth_env =
  ae_system :: "system_pat option"
  ae_sha :: "string \<Rightarrow> string"
  ae_bc :: "string \<Rightarrow> string \<Rightarrow> bool"
  ae_keep :: "(string \<rightharpoonup> cache_entry) \<Rightarrow> string set"
  ae_io :: lookup_io
  ae_n1 :: instant
  ae_n2 :: instant
  ae_n3 :: instant

type_synonym ('a, 'r) handler =
  "request \<Rightarrow> 'a pbdb_scheme \<times> verify_cache \<Rightarrow> 'r reply \<times> 'a pbdb_scheme \<times> verify_cache"

definition source_session :: string where "source_session = ''session''"
definition source_pat :: string where "source_pat = ''pat''"
definition source_system :: string where "source_system = ''system-pat''"

definition bearer_token :: "request \<Rightarrow> string" where
  "bearer_token re =
     (let raw = rq_header re; pre = ''bearer '' in
      if raw = [] then []
      else if length raw \<le> length pre \<or> map ascii_lower (take (length pre) raw) \<noteq> pre then []
      else trim_space (drop (length pre) raw))"

section \<open>Guards\<close>

text \<open>
  \<open>isAuthorized\<close>: the verdict, the annotated request and the new cache. The deferred
  \<open>last_used_at\<close> update of an accepted token is returned as the id to mark.
\<close>

definition is_authorized :: "auth_env \<Rightarrow> request \<Rightarrow> 'a pbdb_scheme \<Rightarrow> verify_cache
    \<Rightarrow> (bool \<times> string option) \<times> request \<times> verify_cache" where
  "is_authorized env re db c =
     (let token = bearer_token re in
      case system_match (ae_system env) token of
        Some scopes \<Rightarrow>
          ((True, None), re\<lparr>rq_auth := None, rq_source := Some source_system, rq_held := Some scopes\<rparr>, c)
      | None \<Rightarrow>
          if looks token then
            (case lookup (ae_sha env) (ae_bc env) (ae_keep env) (ae_io env)
                    (ae_n1 env) (ae_n2 env) (ae_n3 env) token db c of
               (Inl e, c') \<Rightarrow> ((False, None), re, c')
             | (Inr ((pid, r), (uid, u)), c') \<Rightarrow>
                 if us_disabled u then ((False, None), re, c')
                 else ((True, Some pid),
                       re\<lparr>rq_auth := Some \<lparr>au_collection = Some ''users'', au_id = uid, au_user = u\<rparr>,
                          rq_source := Some source_pat, rq_held := Some (decode_scopes (pt_scopes r))\<rparr>, c'))
          else
            case rq_auth re of
              None \<Rightarrow> ((False, None), re, c)
            | Some a \<Rightarrow>
                if au_collection a = None then ((False, None), re, c)
                else if au_collection a \<noteq> Some ''users'' then ((False, None), re, c)
                else if us_disabled (au_user a) then ((False, None), re, c)
                else ((True, None),
                      re\<lparr>rq_source := Some source_session, rq_held := Some [scope_master]\<rparr>, c))"

definition login_hint :: string where
  "login_hint = ''authentication required (sign in at /login then mint a PAT at /pat, '' @
     ''or set QATLAS_SYSTEM_PAT on the server for ops scripts)''"

text \<open>\<open>authGuard\<close>; the deferred update is carried out before the handler runs.\<close>

definition auth_guard :: "auth_env \<Rightarrow> ('a, 'r) handler \<Rightarrow> ('a, 'r) handler" where
  "auth_guard env h re st =
     (case is_authorized env re (fst st) (snd st) of
        ((authorized, mark), re', c') \<Rightarrow>
          if \<not> authorized then (Detail 401 (Text login_hint), (fst st, c'))
          else h re' ((case mark of None \<Rightarrow> fst st | Some pid \<Rightarrow> mark_used (ae_n3 env) pid (fst st)), c'))"

definition session_guard :: "auth_env \<Rightarrow> ('a, 'r) handler \<Rightarrow> ('a, 'r) handler" where
  "session_guard env h =
     auth_guard env (\<lambda>re st.
       if (case rq_source re of None \<Rightarrow> [] | Some s \<Rightarrow> s) \<noteq> source_session
       then (Detail 403 (Text (''this endpoint requires a browser session token (PAT auth is not '' @
               ''accepted for PAT management '' @ [CHR 0xE2, CHR 0x80, CHR 0x94] @
               '' open the SPA and sign in at /login)'')), st)
       else h re st)"

definition scope_guard :: "(string \<Rightarrow> string \<Rightarrow> string \<Rightarrow> string + bool) option \<Rightarrow> auth_env
    \<Rightarrow> string \<Rightarrow> string \<Rightarrow> ('a, 'r) handler \<Rightarrow> ('a, 'r) handler" where
  "scope_guard enforcer env obj act h =
     (case enforcer of
        None \<Rightarrow> (\<lambda>re st.
          (Detail 500 (Text ''scopeGuard: enforcer not configured (server wiring bug)''), st))
      | Some enforce \<Rightarrow>
          auth_guard env (\<lambda>re st.
            case allows (Some enforce) (case rq_held re of None \<Rightarrow> [] | Some held \<Rightarrow> held) obj act of
              Inl e \<Rightarrow> (Detail 500 (ScopeCheckFailed e), st)
            | Inr False \<Rightarrow>
                (Detail 403 (Text (''insufficient scope: this token lacks '' @ obj @ '':'' @ act @
                   '' (mint a new PAT at /pat with the required scope)'')), st)
            | Inr True \<Rightarrow> h re st))"

definition is_admin_caller :: "request \<Rightarrow> bool" where
  "is_admin_caller re =
     (case rq_auth re of
        None \<Rightarrow> False
      | Some a \<Rightarrow> us_admin (au_user a) \<or> us_superadmin (au_user a))"

definition admin_guard :: "auth_env \<Rightarrow> ('a, 'r) handler \<Rightarrow> ('a, 'r) handler" where
  "admin_guard env h =
     session_guard env (\<lambda>re st.
       if \<not> is_admin_caller re then (Detail 403 (Text ''admin only''), st) else h re st)"

definition is_caller_authenticated :: "system_pat option \<Rightarrow> request option \<Rightarrow> bool" where
  "is_caller_authenticated sys rq =
     (case rq of
        None \<Rightarrow> False
      | Some re \<Rightarrow>
          if bearer_token re \<noteq> [] \<and> system_match sys (bearer_token re) \<noteq> None then True
          else case rq_auth re of
                 None \<Rightarrow> False
               | Some a \<Rightarrow>
                   if au_collection a = None then False
                   else au_collection a = Some ''users'' \<and> \<not> us_disabled (au_user a))"

section \<open>Token management\<close>

definition max_pat_expiry_days :: int where "max_pat_expiry_days = 365"

record pat_create_request =
  pc_name :: string
  pc_description :: string
  pc_days :: int
  pc_scopes :: "string list"

record pat_create_response =
  pr_id :: string
  pr_name :: string
  pr_prefix :: string
  pr_plaintext :: string
  pr_description :: string
  pr_scopes :: "string list"
  pr_expires :: instant

text \<open>
  The outcomes the create handler depends on: the generated token, the collection look-up, the
  clock, the fresh record id and whether saving succeeds. \<open>add_days\<close> is the calendar addition of
  the standard library.
\<close>

record mint_env =
  mi_generated :: "generate_error + string \<times> string \<times> string"
  mi_collection_ok :: bool
  mi_now :: instant
  mi_id :: string
  mi_save_ok :: bool

definition server_error :: "'r reply" where
  "server_error = Detail 500 (Text ''internal server error'')"

definition check_create :: "pat_create_request \<Rightarrow> (nat \<times> detail) option" where
  "check_create b =
     (if pc_name b = [] then Some (400, Text ''name required'')
      else if length (pc_name b) > 80 then Some (400, Text ''name max length is 80'')
      else if length (pc_description b) > 200 then Some (400, Text ''description max length is 200'')
      else if pc_days b \<le> 0
      then Some (400, Text ''expires_in_days is required and must be > 0 (fine-grained PATs cannot be perpetual)'')
      else if pc_days b > max_pat_expiry_days
      then Some (400, Text ''expires_in_days exceeds maximum of 365 (one year)'')
      else case validate_scopes (pc_scopes b) of
             Some e \<Rightarrow> Some (400, BadScopes e)
           | None \<Rightarrow> None)"

definition pat_create :: "(instant \<Rightarrow> int \<Rightarrow> instant) \<Rightarrow> mint_env \<Rightarrow> detail + pat_create_request
    \<Rightarrow> ('a, pat_create_response) handler" where
  "pat_create add_days mi req re st =
     (case rq_auth re of
        None \<Rightarrow> (Detail 401 (Text ''missing auth''), st)
      | Some user \<Rightarrow>
          case req of
            Inl d \<Rightarrow> (Detail 400 d, st)
          | Inr b0 \<Rightarrow>
              let b = b0\<lparr>pc_name := trim_space (pc_name b0)\<rparr> in
              case check_create b of
                Some (code, d) \<Rightarrow> (Detail code d, st)
              | None \<Rightarrow>
                  (case mi_generated mi of
                     Inl e \<Rightarrow> (server_error, st)
                   | Inr (plaintext, pre, hash) \<Rightarrow>
                       if \<not> mi_collection_ok mi then (server_error, st)
                       else
                         let expires = add_days (mi_now mi) (pc_days b);
                             row = \<lparr>pt_user = au_id user, pt_name = pc_name b, pt_prefix = pre,
                                    pt_hash = hash, pt_description = pc_description b,
                                    pt_scopes = Scopes_List (pc_scopes b), pt_expires = expires,
                                    pt_created = mi_now mi, pt_last_used = 0\<rparr>
                         in if \<not> mi_save_ok mi then (server_error, st)
                            else (Reply \<lparr>pr_id = mi_id mi, pr_name = pc_name b, pr_prefix = pre,
                                         pr_plaintext = plaintext, pr_description = pc_description b,
                                         pr_scopes = pc_scopes b, pr_expires = expires\<rparr>,
                                  ((fst st)\<lparr>db_pats := AList.update (mi_id mi) row (db_pats (fst st))\<rparr>,
                                   snd st))))"

record pat_summary =
  ps_id :: string
  ps_name :: string
  ps_prefix :: string
  ps_description :: string
  ps_scopes :: "string list"
  ps_expires :: "instant option"
  ps_last_used :: "instant option"
  ps_created :: instant

definition non_zero_date :: "instant \<Rightarrow> instant option" where
  "non_zero_date t = (if t = 0 then None else Some t)"

definition summarise :: "string \<times> pat_row \<Rightarrow> pat_summary" where
  "summarise kr =
     \<lparr>ps_id = fst kr, ps_name = pt_name (snd kr), ps_prefix = pt_prefix (snd kr),
      ps_description = pt_description (snd kr), ps_scopes = decode_scopes (pt_scopes (snd kr)),
      ps_expires = non_zero_date (pt_expires (snd kr)),
      ps_last_used = non_zero_date (pt_last_used (snd kr)), ps_created = pt_created (snd kr)\<rparr>"

definition pat_list :: "bool \<Rightarrow> ('a, pat_summary list) handler" where
  "pat_list query_ok re st =
     (case rq_auth re of
        None \<Rightarrow> (Detail 401 (Text ''missing auth''), st)
      | Some user \<Rightarrow>
          if \<not> query_ok then (server_error, st)
          else (Reply (map summarise
                  (sort_key (\<lambda>kr. - int (pt_created (snd kr)))
                     (filter (\<lambda>kr. pt_user (snd kr) = au_id user) (db_pats (fst st))))), st))"

definition pat_delete :: "bool \<Rightarrow> bool \<Rightarrow> string \<Rightarrow> ('a, bool) handler" where
  "pat_delete find_ok delete_ok path_id re st =
     (case rq_auth re of
        None \<Rightarrow> (Detail 401 (Text ''missing auth''), st)
      | Some user \<Rightarrow>
          let pid = trim_space path_id in
          if pid = [] then (Detail 400 (Text ''missing id''), st)
          else case (if find_ok then map_of (db_pats (fst st)) pid else None) of
                 None \<Rightarrow> (Detail 404 (Text ''token not found''), st)
               | Some r \<Rightarrow>
                   if pt_user r \<noteq> au_id user then (Detail 404 (Text ''token not found''), st)
                   else if \<not> delete_ok then (server_error, st)
                   else (Reply True,
                         ((fst st)\<lparr>db_pats := AList.delete pid (db_pats (fst st))\<rparr>,
                          invalidate_by_pat_id pid (snd st))))"

text \<open>\<open>itoa\<close>, with the digits written from the right into the buffer.\<close>

fun itoa_digits :: "nat \<Rightarrow> string \<Rightarrow> string" where
  "itoa_digits n buf =
     (if n = 0 then buf else itoa_digits (n div 10) (char_of (48 + n mod 10) # buf))"

declare itoa_digits.simps [simp del]

text \<open>Negation of a Go \<open>int\<close> on a 64-bit platform, and \<open>itoa\<close> on such integers.\<close>

definition neg64 :: "int \<Rightarrow> int" where
  "neg64 n = (if n = - (2 ^ 63) then n else - n)"

definition itoa :: "int \<Rightarrow> string" where
  "itoa n =
     (if n = 0 then ''0''
      else
        let neg = n < 0;
            m = (if neg then neg64 n else n);
            buf = (if 0 < m then itoa_digits (nat m) [] else [])
        in if neg then CHR ''-'' # buf else buf)"

section \<open>What the guards let through\<close>

text \<open>The three credentials, by what they prove about the caller.\<close>

definition system_credential :: "auth_env \<Rightarrow> request \<Rightarrow> string list \<Rightarrow> bool" where
  "system_credential env re held \<longleftrightarrow>
     (\<exists>sp. ae_system env = Some sp \<and> bearer_token re = sys_secret sp \<and> held = sys_scopes sp)"

definition pat_credential :: "auth_env \<Rightarrow> request \<Rightarrow> 'a pbdb_scheme \<Rightarrow> verify_cache
    \<Rightarrow> string \<Rightarrow> pat_row \<Rightarrow> string \<Rightarrow> bool" where
  "pat_credential env re db c pid r uid \<longleftrightarrow>
     looks (bearer_token re) \<and>
     (\<exists>u. fst (lookup (ae_sha env) (ae_bc env) (ae_keep env) (ae_io env) (ae_n1 env) (ae_n2 env)
                 (ae_n3 env) (bearer_token re) db c) = Inr ((pid, r), (uid, u)) \<and> \<not> us_disabled u)"

definition session_credential :: "request \<Rightarrow> bool" where
  "session_credential re \<longleftrightarrow>
     (\<exists>a. rq_auth re = Some a \<and> au_collection a = Some ''users'' \<and> \<not> us_disabled (au_user a))"

lemma system_match_Some:
  "system_match s b = Some held \<longleftrightarrow>
   (\<exists>sp. s = Some sp \<and> b = sys_secret sp \<and> b \<noteq> [] \<and> held = sys_scopes sp)"
  by (auto simp: system_match_def split: option.splits if_splits)

lemma is_authorized_cases:
  assumes "is_authorized env re db c = ((True, mark), re', c')"
  obtains (sys) held where "system_credential env re held" "mark = None" "rq_auth re' = None"
      "rq_source re' = Some source_system" "rq_held re' = Some held" "c' = c"
  | (pat) pid r uid where "pat_credential env re db c pid r uid" "mark = Some pid"
      "rq_source re' = Some source_pat" "rq_held re' = Some (decode_scopes (pt_scopes r))"
      "map_option au_id (rq_auth re') = Some uid"
  | (session) "session_credential re" "\<not> looks (bearer_token re)"
      "system_match (ae_system env) (bearer_token re) = None" "mark = None" "c' = c"
      "re' = re\<lparr>rq_source := Some source_session, rq_held := Some [scope_master]\<rparr>"
proof (cases "system_match (ae_system env) (bearer_token re)")
  case (Some held)
  then have "system_credential env re held" by (auto simp: system_credential_def system_match_Some)
  then show thesis using assms Some by (intro sys [of held]) (auto simp: is_authorized_def)
next
  case None
  show thesis
  proof (cases "looks (bearer_token re)")
    case True
    obtain res c1 where l: "lookup (ae_sha env) (ae_bc env) (ae_keep env) (ae_io env) (ae_n1 env)
        (ae_n2 env) (ae_n3 env) (bearer_token re) db c = (res, c1)" by force
    with assms None True obtain pid r uid u where "res = Inr ((pid, r), (uid, u))" "\<not> us_disabled u"
      by (auto simp: is_authorized_def Let_def split: sum.splits if_splits)
    with assms None True l show thesis
      by (intro pat [of pid r uid]) (auto simp: is_authorized_def pat_credential_def Let_def)
  next
    case False
    with None assms show thesis
      by (intro session)
         (auto simp: is_authorized_def session_credential_def Let_def split: option.splits if_splits)
  qed
qed

lemma auth_guard_cases:
  obtains (denied) c' where "auth_guard env h re (db, c) = (Detail 401 (Text login_hint), (db, c'))"
  | (passed) mark re' c' where "is_authorized env re db c = ((True, mark), re', c')"
      "auth_guard env h re (db, c)
         = h re' (case mark of None \<Rightarrow> db | Some pid \<Rightarrow> mark_used (ae_n3 env) pid db, c')"
proof -
  obtain b mark re' c' where i: "is_authorized env re db c = ((b, mark), re', c')"
    by (metis prod.exhaust)
  show thesis
  proof (cases b)
    case True
    with i show ?thesis by (intro passed [of mark re' c']) (simp_all add: auth_guard_def cong: option.case_cong)
  next
    case False
    with i show ?thesis by (intro denied [of c']) (simp add: auth_guard_def)
  qed
qed

lemma sources_distinct [simp]:
  "source_session \<noteq> source_pat" "source_session \<noteq> source_system" "source_pat \<noteq> source_system"
  by (simp_all add: source_session_def source_pat_def source_system_def)

text \<open>C38: No bearer token manages tokens. Behind the session guard a handler runs only for a request
  that carries a live browser session of a user who is not disabled, whose bearer is neither
  the system token nor of the shape of a personal access token; it then sees the database and the
  cache as they were. Every other request is answered with 401 or 403, with the token table
  changed in no row but for a time of last use.\<close>

theorem session_guard_sound:
  "(session_credential re \<and> \<not> looks (bearer_token re) \<and>
      system_match (ae_system env) (bearer_token re) = None \<and>
      session_guard env h re (db, c)
        = h (re\<lparr>rq_source := Some source_session, rq_held := Some [scope_master]\<rparr>) (db, c)) \<or>
   ((\<exists>code d db' c'. session_guard env h re (db, c) = (Detail code d, (db', c')) \<and> code \<in> {401, 403} \<and>
       (db' = db \<or> (\<exists>pid. db' = mark_used (ae_n3 env) pid db))))"
proof -
  let ?g = "\<lambda>re st. if (case rq_source re of None \<Rightarrow> [] | Some s \<Rightarrow> s) \<noteq> source_session
       then (Detail 403 (Text (''this endpoint requires a browser session token (PAT auth is not '' @
               ''accepted for PAT management '' @ [CHR 0xE2, CHR 0x80, CHR 0x94] @
               '' open the SPA and sign in at /login)'')), st)
       else h re st"
  have sg: "session_guard env h re (db, c) = auth_guard env ?g re (db, c)"
    by (simp only: session_guard_def)
  show ?thesis
  proof (cases rule: auth_guard_cases [of env ?g re db c])
    case (denied c')
    with sg show ?thesis by auto
  next
    case (passed mark re' c')
    from passed(1) show ?thesis
    proof (cases rule: is_authorized_cases)
      case (sys held)
      with passed(2) sg have "session_guard env h re (db, c) = ?g re' (db, c)" by simp
      with sys show ?thesis by (auto simp: source_session_def source_system_def)
    next
      case (pat pid r uid)
      with passed(2) sg have "session_guard env h re (db, c) = ?g re' (mark_used (ae_n3 env) pid db, c')"
        by simp
      with pat show ?thesis by (auto simp: source_session_def source_pat_def)
    next
      case session
      with passed(2) sg show ?thesis by simp
    qed
  qed
qed

text \<open>What the policy table grants to a list of scopes.\<close>

definition grants :: "string \<Rightarrow> string \<Rightarrow> string list \<Rightarrow> bool" where
  "grants obj act held \<longleftrightarrow>
     scope_master \<in> set held \<or> (\<exists>s \<in> set held. (s, obj, act) \<in> set scope_policies)"

text \<open>C37: The scope guard is sound. Behind it a handler for \<open>(obj, act)\<close> runs only for the holder of
  the configured system token whose scopes cover it, for a live browser session, or for a
  personal access token that resolves to a row and an enabled user and whose recorded scopes have
  a row of the policy table for \<open>(obj, act)\<close> or hold the master scope. In all other cases the
  reply is 401 or 403 and the handler does not run.\<close>

theorem scope_guard_sound:
  assumes "scope_enforcer enforce"
  shows "(\<exists>re' st'. scope_guard (Some enforce) env obj act h re (db, c) = h re' st' \<and>
            (session_credential re \<or>
             (\<exists>held. system_credential env re held \<and> grants obj act held) \<or>
             (\<exists>pid r uid. pat_credential env re db c pid r uid \<and> grants obj act (decode_scopes (pt_scopes r))))) \<or>
         (\<exists>code d st'. scope_guard (Some enforce) env obj act h re (db, c) = (Detail code d, st') \<and>
            code \<in> {401, 403})"
proof -
  let ?g = "\<lambda>re st. case allows (Some enforce) (case rq_held re of None \<Rightarrow> [] | Some held \<Rightarrow> held) obj act of
              Inl e \<Rightarrow> (Detail 500 (ScopeCheckFailed e), st)
            | Inr False \<Rightarrow>
                (Detail 403 (Text (''insufficient scope: this token lacks '' @ obj @ '':'' @ act @
                   '' (mint a new PAT at /pat with the required scope)'')), st)
            | Inr True \<Rightarrow> h re st"
  have sg: "scope_guard (Some enforce) env obj act h re (db, c) = auth_guard env ?g re (db, c)"
    by (simp add: scope_guard_def)
  have g: "?g re' st' = h re' st' \<and> grants obj act held \<or> (\<exists>d. ?g re' st' = (Detail 403 d, st'))"
    if "rq_held re' = Some held" for re' st' held
    using that scope_enforcer.allows_iff [OF assms(1), of held obj act]
    by (cases "grants obj act held") (auto simp: grants_def)
  show ?thesis
  proof (cases rule: auth_guard_cases [of env ?g re db c])
    case (denied c')
    with sg show ?thesis by auto
  next
    case (passed mark re' c')
    let ?st = "(case mark of None \<Rightarrow> db | Some pid \<Rightarrow> mark_used (ae_n3 env) pid db, c')"
    have eq: "scope_guard (Some enforce) env obj act h re (db, c) = ?g re' ?st" using passed(2) sg by simp
    from passed(1) show ?thesis
    proof (cases rule: is_authorized_cases)
      case (sys held)
      from g [OF sys(5), of ?st] eq sys(1) show ?thesis by (elim disjE; force)
    next
      case (pat pid r uid)
      have cr: "\<exists>pid r uid. pat_credential env re db c pid r uid \<and> grants obj act (decode_scopes (pt_scopes r))"
        if "grants obj act (decode_scopes (pt_scopes r))" using pat(1) that by blast
      from g [OF pat(4), of ?st] eq cr show ?thesis by (elim disjE; force)
    next
      case session
      have "rq_held re' = Some [scope_master]" using session by simp
      from g [OF this, of ?st] eq session(1) show ?thesis by (elim disjE; force)
    qed
  qed
qed

theorem scope_guard_sound_witness:
  "\<exists>code d st'. scope_guard (Some (table_enforce scope_policies))
      \<lparr>ae_system = None, ae_sha = (\<lambda>s. s), ae_bc = (\<lambda>h p. False), ae_keep = dom, ae_io = all_io,
       ae_n1 = 6, ae_n2 = 6, ae_n3 = 6\<rparr> ''papers'' ''read'' (\<lambda>re st. (Reply True, st))
      \<lparr>rq_header = ''Bearer qat_zzzzzzzzz'', rq_auth = None, rq_source = None, rq_held = None\<rparr>
      (sample_db, new_verify_cache default_verify_cfg) = (Detail code d, st') \<and> code \<in> {401, 403}"
proof -
  let ?env = "\<lparr>ae_system = None, ae_sha = (\<lambda>s. s), ae_bc = (\<lambda>h p. False), ae_keep = dom, ae_io = all_io,
       ae_n1 = 6, ae_n2 = 6, ae_n3 = 6\<rparr>"
  let ?re = "\<lparr>rq_header = ''Bearer qat_zzzzzzzzz'', rq_auth = None, rq_source = None, rq_held = None\<rparr>"
  let ?c = "new_verify_cache default_verify_cfg"
  have "bearer_token ?re = ''qat_zzzzzzzzz''" by code_simp
  then have "\<not> pat_credential ?env ?re sample_db ?c pid r uid" for pid r uid
    by (simp add: pat_credential_def lookup_def looks_def prefix_display_len_def token_prefix_def
          cache_get_def new_verify_cache_def default_verify_cfg_def slow_lookup_def all_io_def
          sample_db_def sample_row_def prefix_of_def)
  moreover have "\<not> session_credential ?re" "\<not> system_credential ?env ?re held" for held
    by (simp_all add: session_credential_def system_credential_def)
  moreover have "scope_enforcer (table_enforce scope_policies)"
    by (rule casbin.scope_enforcer_axioms)
  ultimately show ?thesis
    using scope_guard_sound [of "table_enforce scope_policies" ?env "''papers''" "''read''"
        "\<lambda>re st. (Reply True, st)" ?re sample_db ?c] by blast
qed

section \<open>Token management\<close>

text \<open>Creating a token records exactly what was asked for, within the limits. Every refusal
  leaves the state as it was; a reply with the new plaintext means that one row was written, for
  the calling user, with the generated prefix and hash, a trimmed name of 1 to 80 bytes, a
  lifetime of 1 to 365 days and scopes of the public vocabulary, so never the master scope.\<close>

theorem pat_create_records:
  "(\<forall>code d st'. pat_create add_days mi req re (db, c) = (Detail code d, st') \<longrightarrow> st' = (db, c)) \<and>
   (\<forall>resp db' c'. pat_create add_days mi req re (db, c) = (Reply resp, (db', c')) \<longrightarrow>
      (\<exists>a b h row. rq_auth re = Some a \<and> req = Inr b \<and>
         mi_generated mi = Inr (pr_plaintext resp, pr_prefix resp, h) \<and>
         db' = db\<lparr>db_pats := AList.update (pr_id resp) row (db_pats db)\<rparr> \<and> c' = c \<and>
         pt_user row = au_id a \<and> pt_hash row = h \<and> pt_prefix row = pr_prefix resp \<and>
         pt_name row = trim_space (pc_name b) \<and> 1 \<le> length (pt_name row) \<and> length (pt_name row) \<le> 80 \<and>
         1 \<le> pc_days b \<and> pc_days b \<le> 365 \<and> pt_expires row = add_days (mi_now mi) (pc_days b) \<and>
         decode_scopes (pt_scopes row) = pc_scopes b \<and> set (pc_scopes b) \<subseteq> set all_scopes))"
proof (cases "rq_auth re")
  case None
  then show ?thesis by (simp add: pat_create_def)
next
  case (Some a)
  show ?thesis
  proof (cases req)
    case (Inl d)
    with Some show ?thesis by (simp add: pat_create_def)
  next
    case (Inr b0)
    define b where "b = b0\<lparr>pc_name := trim_space (pc_name b0)\<rparr>"
    have b_eq: "pc_name b = trim_space (pc_name b0)" "pc_days b = pc_days b0" "pc_scopes b = pc_scopes b0"
      by (simp_all add: b_def)
    show ?thesis
    proof (cases "check_create b")
      case (Some cd)
      with \<open>rq_auth re = Some a\<close> Inr show ?thesis
        by (simp add: pat_create_def b_def [symmetric] split: prod.splits)
    next
      case None
      then have valid: "pc_name b \<noteq> []" "length (pc_name b) \<le> 80" "1 \<le> pc_days b" "pc_days b \<le> 365"
          "set (pc_scopes b) \<subseteq> set all_scopes"
        by (auto simp: check_create_def max_pat_expiry_days_def validate_scopes_None
              split: if_splits option.splits)
      let ?pc = "pat_create add_days mi req re (db, c)"
      show ?thesis
      proof (cases "(\<exists>g. mi_generated mi = Inr g) \<and> mi_collection_ok mi \<and> mi_save_ok mi")
        case False
        then have "?pc = (server_error, (db, c))"
          using \<open>rq_auth re = Some a\<close> Inr None
          by (auto simp: pat_create_def b_def [symmetric] Let_def split: sum.splits)
        then show ?thesis by (simp add: server_error_def)
      next
        case True
        then obtain pl pre h where g: "mi_generated mi = Inr (pl, pre, h)" by auto
        define row where "row = \<lparr>pt_user = au_id a, pt_name = pc_name b, pt_prefix = pre, pt_hash = h,
            pt_description = pc_description b, pt_scopes = Scopes_List (pc_scopes b),
            pt_expires = add_days (mi_now mi) (pc_days b), pt_created = mi_now mi, pt_last_used = 0\<rparr>"
        have pc: "?pc = (Reply \<lparr>pr_id = mi_id mi, pr_name = pc_name b, pr_prefix = pre,
              pr_plaintext = pl, pr_description = pc_description b, pr_scopes = pc_scopes b,
              pr_expires = add_days (mi_now mi) (pc_days b)\<rparr>,
            (db\<lparr>db_pats := AList.update (mi_id mi) row (db_pats db)\<rparr>, c))"
          using \<open>rq_auth re = Some a\<close> Inr None True g
          by (simp add: pat_create_def b_def [symmetric] row_def Let_def)
        show ?thesis
          unfolding pc using \<open>rq_auth re = Some a\<close> Inr valid g
          by (auto simp: row_def b_eq Suc_le_eq intro!: exI [of _ row])
      qed
    qed
  qed
qed

definition sample_caller :: request where
  "sample_caller = \<lparr>rq_header = [], rq_auth = Some \<lparr>au_collection = Some ''users'', au_id = ''u'',
     au_user = \<lparr>us_disabled = False, us_admin = False, us_superadmin = False\<rparr>\<rparr>,
     rq_source = None, rq_held = None\<rparr>"

theorem pat_create_records_witness:
  "\<exists>resp db'. pat_create (\<lambda>t d. t + nat d) \<lparr>mi_generated = Inr (''qat_x'', ''qat_x'', ''h''),
       mi_collection_ok = True, mi_now = 7, mi_id = ''new'', mi_save_ok = True\<rparr>
     (Inr \<lparr>pc_name = ''ci'', pc_description = [], pc_days = 30, pc_scopes = [papers_read]\<rparr>) sample_caller
     (sample_db, new_verify_cache default_verify_cfg) = (Reply resp, (db', new_verify_cache default_verify_cfg)) \<and>
   pr_plaintext resp = ''qat_x'' \<and> (\<exists>row. db' = sample_db\<lparr>db_pats := AList.update (pr_id resp) row (db_pats sample_db)\<rparr>)"
proof -
  let ?mi = "\<lparr>mi_generated = Inr (''qat_x'', ''qat_x'', ''h''),
       mi_collection_ok = True, mi_now = 7, mi_id = ''new'', mi_save_ok = True\<rparr>"
  let ?req = "Inr \<lparr>pc_name = ''ci'', pc_description = [], pc_days = 30, pc_scopes = [papers_read]\<rparr>"
  let ?st = "(sample_db, new_verify_cache default_verify_cfg)"
  have "trim_space ''ci'' = ''ci''" "validate_scopes [papers_read] = None"
    by code_simp (simp add: validate_scopes_None all_scopes_def)
  then obtain resp db' c' where
    r: "pat_create (\<lambda>t d. t + nat d) ?mi ?req sample_caller ?st = (Reply resp, (db', c'))"
      "pr_plaintext resp = ''qat_x''"
    by (simp add: pat_create_def sample_caller_def check_create_def max_pat_expiry_days_def)
  with pat_create_records [of "\<lambda>t d. t + nat d" ?mi ?req sample_caller sample_db "new_verify_cache default_verify_cfg"]
  have "c' = new_verify_cache default_verify_cfg"
    "\<exists>row. db' = sample_db\<lparr>db_pats := AList.update (pr_id resp) row (db_pats sample_db)\<rparr>" by blast+
  with r show ?thesis by blast
qed

text \<open>Only its owner revokes a token, and revocation is final. A successful delete was asked
  for by the user the row belongs to, removes that row and no other, and whatever the cache holds
  and whenever it runs, no later look-up on this database resolves to the deleted id. Any other
  reply leaves the state as it was.\<close>

theorem pat_delete_revokes:
  assumes "gomap_ok (db_pats db)"
  shows "(\<forall>code d st'. pat_delete find_ok delete_ok path re (db, c) = (Detail code d, st') \<longrightarrow> st' = (db, c)) \<and>
   (\<forall>ok db' c'. pat_delete find_ok delete_ok path re (db, c) = (Reply ok, (db', c')) \<longrightarrow>
      (\<exists>a r. rq_auth re = Some a \<and> map_of (db_pats db) (trim_space path) = Some r \<and> pt_user r = au_id a) \<and>
      map_of (db_pats db') = (map_of (db_pats db))(trim_space path := None) \<and>
      (\<forall>sha bc keep io n1 n2 n3 p c2 r uid u.
         fst (lookup sha bc keep io n1 n2 n3 p db' c2) \<noteq> Inr ((trim_space path, r), (uid, u))))"
proof -
  have live: "map_of (db_pats db') pid = Some r"
    if ok: "gomap_ok (db_pats db')"
      and hit: "fst (lookup sha bc keep io n1 n2 n3 p db' c2) = Inr ((pid, r), (uid, u))"
    for db' :: "'a pbdb_scheme" and sha bc keep io n1 n2 n3 p c2 pid r uid u
  proof -
    obtain c' where "lookup sha bc keep io n1 n2 n3 p db' c2 = (Inr ((pid, r), (uid, u)), c')"
      using hit by (metis prod.collapse)
    then show ?thesis by (cases rule: lookup_cases) (auto dest: slow_lookup_Inr [OF _ ok])
  qed
  let ?pid = "trim_space path"
  let ?db = "db\<lparr>db_pats := AList.delete ?pid (db_pats db)\<rparr>"
  have gone: "map_of (db_pats ?db) ?pid = None" "gomap_ok (db_pats ?db)"
    using assms by (simp_all add: gomap_simps)
  have "fst (lookup sha bc keep io n1 n2 n3 p ?db c2) \<noteq> Inr ((?pid, r), (uid, u))"
    for sha bc keep io n1 n2 n3 p c2 r uid u
    using live [of ?db sha bc keep io n1 n2 n3 p c2 ?pid r uid u] gone by auto
  then show ?thesis
    by (auto simp: pat_delete_def server_error_def Let_def gomap_simps split: option.splits if_splits)
qed

theorem pat_delete_revokes_witness:
  "\<forall>r uid u. fst (lookup (\<lambda>s. s) (\<lambda>h p. True) dom all_io 6 6 6 ''qat_zzzzzzzzz''
      (fst (snd (pat_delete True True ''id''
         \<lparr>rq_header = [], rq_auth = Some \<lparr>au_collection = Some ''users'', au_id = ''u'',
            au_user = \<lparr>us_disabled = False, us_admin = False, us_superadmin = False\<rparr>\<rparr>,
            rq_source = None, rq_held = None\<rparr> (sample_db, new_verify_cache default_verify_cfg))))
      (new_verify_cache default_verify_cfg)) \<noteq> Inr ((''id'', r), (uid, u))"
proof -
  have t: "trim_space ''id'' = ''id''" by code_simp
  let ?re = "\<lparr>rq_header = [], rq_auth = Some \<lparr>au_collection = Some ''users'', au_id = ''u'',
            au_user = \<lparr>us_disabled = False, us_admin = False, us_superadmin = False\<rparr>\<rparr>,
            rq_source = None, rq_held = None\<rparr>"
  have ok: "gomap_ok (db_pats sample_db)" by (simp add: sample_db_def gomap_ok_def)
  have "fst (pat_delete True True ''id'' ?re (sample_db, new_verify_cache default_verify_cfg)) = Reply True"
    by (simp add: pat_delete_def t sample_db_def sample_row_def)
  then show ?thesis
    using pat_delete_revokes [OF ok, of True True "''id''" ?re "new_verify_cache default_verify_cfg"]
    by (metis (no_types, lifting) prod.collapse t)
qed

text \<open>The configured system token is accepted in a header, with any casing of the scheme.\<close>

lemma system_token_accepted:
  assumes "load_system_pat token scopes = Inr (Some sp)" and "ae_system env = Some sp"
    and "map ascii_lower scheme = ''bearer ''" and "rq_header re = scheme @ token"
  shows "is_authorized env re db c = ((True, None),
           re\<lparr>rq_auth := None, rq_source := Some source_system, rq_held := Some (sys_scopes sp)\<rparr>, c)"
proof -
  have sp: "sys_secret sp = trim_space token" "16 \<le> length (sys_secret sp)"
    using assms(1) load_system_pat_match(2) [OF assms(1)]
    by (auto simp: load_system_pat_def Let_def split: if_splits sum.splits)
  have len: "length scheme = 7" using arg_cong [OF assms(3), of length] by simp
  have "token \<noteq> []" using sp by (auto simp: trim_space_def)
  then have "bearer_token re = trim_space token"
    using assms(3,4) len by (auto simp: bearer_token_def Let_def)
  then show ?thesis
    using sp load_system_pat_match(1) [OF assms(1)] assms(2) by (simp add: is_authorized_def)
qed

section \<open>Decimal numerals\<close>

definition decimal_value :: "string \<Rightarrow> nat" where
  "decimal_value s = foldl (\<lambda>v ch. 10 * v + (of_char ch - 48)) 0 s"

lemma itoa_digits_value:
  "foldl (\<lambda>v ch. 10 * v + (of_char ch - 48)) 0 (itoa_digits n buf)
     = foldl (\<lambda>v ch. 10 * v + (of_char ch - 48)) n buf"
proof (induction n buf rule: itoa_digits.induct)
  case (1 n buf)
  have "of_char (char_of (48 + n mod 10)) - 48 = n mod 10"
    by (simp add: take_bit_eq_mod)
  with 1 show ?case by (subst itoa_digits.simps) auto
qed

lemma itoa_correct:
  "0 < n \<Longrightarrow> decimal_value (itoa n) = nat n"
  "- (2 ^ 63) < n \<Longrightarrow> n < 0 \<Longrightarrow> \<exists>s. itoa n = CHR ''-'' # s \<and> decimal_value s = nat (- n)"
  "itoa (- (2 ^ 63)) = ''-''"
  by (simp_all add: itoa_def neg64_def decimal_value_def itoa_digits_value)

end
