(* ===== verification/Oauth_Device.thy ===== *)
theory Oauth_Device
  imports Auth_Guard
begin

text \<open>
  The OAuth device flow: the codes (\<open>internal/oauthdevice/oauthdevice.go\<close>) and the five
  endpoints (\<open>internal/routes/oauthdevice.go\<close>). A handler is composed of single database
  statements, modelled one by one; the second half of the theory lets the statements of
  concurrent requests interleave. Each statement of a request acts on the row the request read
  before, which may be stale. SHA-256 and base-64 are parameters; the calendar addition and the
  outcome of each statement are arguments.
\<close>

section \<open>Codes\<close>

definition poll_interval_seconds :: nat where "poll_interval_seconds = 5"
definition expires_in_seconds :: nat where "expires_in_seconds = 600"
definition max_poll_count :: int where "max_poll_count = 150"
definition user_code_groups :: nat where "user_code_groups = 2"
definition user_code_group_len :: nat where "user_code_group_len = 4"

definition user_code_alphabet :: string where
  "user_code_alphabet = ''ABCDEFGHJKLMNPQRSTUVWXYZ23456789''"

definition st_pending :: string where "st_pending = ''pending''"
definition st_approved :: string where "st_approved = ''approved''"
definition st_consumed :: string where "st_consumed = ''consumed''"
definition st_denied :: string where "st_denied = ''denied''"
definition st_expired :: string where "st_expired = ''expired''"

lemmas status_names = st_pending_def st_approved_def st_consumed_def st_denied_def st_expired_def

text \<open>The loop of \<open>randomUserCode\<close> over the random bytes, at index \<open>i\<close>.\<close>

fun user_code_loop :: "nat \<Rightarrow> 8 word list \<Rightarrow> string" where
  "user_code_loop i [] = []"
| "user_code_loop i (b # bs) =
     (if 0 < i \<and> i mod user_code_group_len = 0 then ''-'' else []) @
     (user_code_alphabet ! (unat b mod length user_code_alphabet)) # user_code_loop (Suc i) bs"

definition random_user_code :: "8 word list option \<Rightarrow> string option" where
  "random_user_code buf = map_option (user_code_loop 0) buf"

text \<open>\<open>GenerateCodes\<close>; \<open>b64\<close> is the URL-safe base-64 encoding.\<close>

definition generate_codes :: "(8 word list \<Rightarrow> string) \<Rightarrow> 8 word list option \<Rightarrow> 8 word list option
    \<Rightarrow> (string \<times> string) option" where
  "generate_codes b64 dev usr =
     (case dev of
        None \<Rightarrow> None
      | Some d \<Rightarrow> (case random_user_code usr of None \<Rightarrow> None | Some u \<Rightarrow> Some (b64 d, u)))"

datatype code_error = CodeEmpty | CodeShape

text \<open>One step of the cleaning loop. The source ranges over runes; a rune outside ASCII, and the
  bytes that encode it, fall through every case.\<close>

definition clean_char :: "char \<Rightarrow> string" where
  "clean_char c =
     (if is_lower c then [ascii_upper c] else if is_upper c \<or> is_digit c then [c] else [])"

fun join_groups :: "nat \<Rightarrow> string \<Rightarrow> string" where
  "join_groups 0 raw = []"
| "join_groups (Suc g) raw =
     (if g > 0 then join_groups g raw @ ''-'' else []) @
     take user_code_group_len (drop (g * user_code_group_len) raw)"

definition normalize_user_code :: "string \<Rightarrow> code_error + string" where
  "normalize_user_code s =
     (let raw = concat (map clean_char s) in
      if raw = [] then Inl CodeEmpty
      else if length raw \<noteq> user_code_groups * user_code_group_len then Inl CodeShape
      else Inr (join_groups user_code_groups raw))"

section \<open>The table\<close>

record device_row =
  dr_hash :: string
  dr_user_code :: string
  dr_name :: string
  dr_description :: string
  dr_scopes :: scopes_col
  dr_days :: int
  dr_status :: string
  dr_approved_user :: string
  dr_approved_at :: instant
  dr_poll_count :: int
  dr_last_polled :: instant
  dr_expires :: instant
  dr_pat :: string

record device_db = pbdb +
  db_devices :: "(string, device_row) gomap"

text \<open>A conditional update of one row; the result is the number of rows affected.\<close>

definition update_row :: "string \<Rightarrow> string list option \<Rightarrow> (device_row \<Rightarrow> device_row) \<Rightarrow> device_db
    \<Rightarrow> nat \<times> device_db" where
  "update_row did froms f db =
     (case map_of (db_devices db) did of
        None \<Rightarrow> (0, db)
      | Some r \<Rightarrow>
          if (case froms of None \<Rightarrow> True | Some ss \<Rightarrow> dr_status r \<in> set ss)
          then (1, db\<lparr>db_devices := AList.update did (f r) (db_devices db)\<rparr>)
          else (0, db))"

definition mark_expired :: "bool \<Rightarrow> string \<Rightarrow> device_db \<Rightarrow> device_db" where
  "mark_expired ok did db =
     (if ok then snd (update_row did (Some [st_pending, st_approved]) (\<lambda>r. r\<lparr>dr_status := st_expired\<rparr>) db)
      else db)"

definition bump_poll :: "bool \<Rightarrow> string \<Rightarrow> instant \<Rightarrow> device_db \<Rightarrow> device_db" where
  "bump_poll ok did now db =
     (if ok then snd (update_row did None
        (\<lambda>r. r\<lparr>dr_poll_count := dr_poll_count r + 1, dr_last_polled := now\<rparr>) db)
      else db)"

section \<open>POST /api/oauth/device/code\<close>

datatype 'a device_reply = Plain nat detail | OauthError string | Success 'a

record code_response =
  cr_device_code :: string
  cr_user_code :: string
  cr_verification_uri :: string
  cr_verification_complete :: string
  cr_expires_in :: nat
  cr_interval :: nat

definition check_code_request :: "pat_create_request \<Rightarrow> detail option" where
  "check_code_request b =
     (if pc_name b = [] then Some (Text ''name required'')
      else if length (pc_name b) > 80 then Some (Text ''name max length is 80'')
      else if length (pc_description b) > 200 then Some (Text ''description max length is 200'')
      else if pc_days b \<le> 0 then Some (Text ''expires_in_days is required and must be > 0'')
      else if pc_days b > max_pat_expiry_days
      then Some (Text (''expires_in_days exceeds maximum of '' @ itoa max_pat_expiry_days))
      else case validate_scopes (pc_scopes b) of Some e \<Rightarrow> Some (BadScopes e) | None \<Rightarrow> None)"

definition new_device_row :: "string \<Rightarrow> string \<Rightarrow> pat_create_request \<Rightarrow> instant \<Rightarrow> device_row" where
  "new_device_row h uc b now =
     \<lparr>dr_hash = h, dr_user_code = uc, dr_name = pc_name b, dr_description = pc_description b,
      dr_scopes = Scopes_List (pc_scopes b), dr_days = pc_days b, dr_status = st_pending,
      dr_approved_user = [], dr_approved_at = 0, dr_poll_count = 0, dr_last_polled = 0,
      dr_expires = now + expires_in_seconds * second, dr_pat = []\<rparr>"

datatype save_result = Saved device_db | UniqueViolation | SaveError

text \<open>\<open>app.Save\<close> under the two unique indexes of the table; \<open>did\<close> is the fresh record id.\<close>

definition save_device :: "bool \<Rightarrow> string \<Rightarrow> device_row \<Rightarrow> device_db \<Rightarrow> save_result" where
  "save_device ok did row db =
     (if \<not> ok then SaveError
      else if list_ex (\<lambda>kr. dr_hash (snd kr) = dr_hash row \<or> dr_user_code (snd kr) = dr_user_code row)
                (db_devices db)
      then UniqueViolation
      else Saved (db\<lparr>db_devices := AList.update did row (db_devices db)\<rparr>))"

text \<open>The attempts of the retry loop: the generated codes, the fresh id, the clock and whether the
  database accepts the insert.\<close>

type_synonym attempt = "(string \<times> string) option \<times> string \<times> instant \<times> bool"

datatype insert_result = Inserted string string | InsertFailed

fun insert_loop :: "(string \<Rightarrow> string) \<Rightarrow> pat_create_request \<Rightarrow> nat \<Rightarrow> attempt list \<Rightarrow> device_db
    \<Rightarrow> insert_result \<times> device_db" where
  "insert_loop sha b 0 as db = (InsertFailed, db)"
| "insert_loop sha b (Suc n) [] db = (InsertFailed, db)"
| "insert_loop sha b (Suc n) ((None, did, now, ok) # as) db = (InsertFailed, db)"
| "insert_loop sha b (Suc n) ((Some (dc, uc), did, now, ok) # as) db =
     (case save_device ok did (new_device_row (sha dc) uc b now) db of
        Saved db' \<Rightarrow> (Inserted dc uc, db')
      | UniqueViolation \<Rightarrow> insert_loop sha b n as db
      | SaveError \<Rightarrow> (InsertFailed, db))"

record origin_headers =
  oh_forwarded_origin :: string
  oh_forwarded_proto :: string
  oh_forwarded_host :: string
  oh_host :: string
  oh_tls :: bool

definition canonical_origin :: "origin_headers \<Rightarrow> string" where
  "canonical_origin h =
     (let proto = (if oh_forwarded_proto h = [] then if oh_tls h then ''https'' else ''http''
                   else oh_forwarded_proto h);
          host = (if oh_forwarded_host h = [] then oh_host h else oh_forwarded_host h)
      in proto @ ''://'' @ host)"

definition trim_right_slash :: "string \<Rightarrow> string" where
  "trim_right_slash s = rev (dropWhile (\<lambda>ch. ch = CHR ''/'') (rev s))"

definition code_handler :: "(string \<Rightarrow> string) \<Rightarrow> detail + pat_create_request \<Rightarrow> bool \<Rightarrow> attempt list
    \<Rightarrow> origin_headers \<Rightarrow> device_db \<Rightarrow> code_response device_reply \<times> device_db" where
  "code_handler sha req collection_ok as hdr db =
     (case req of
        Inl d \<Rightarrow> (Plain 400 d, db)
      | Inr b0 \<Rightarrow>
          let b = b0\<lparr>pc_name := trim_space (pc_name b0)\<rparr> in
          case check_code_request b of
            Some d \<Rightarrow> (Plain 400 d, db)
          | None \<Rightarrow>
              if \<not> collection_ok then (Plain 500 (Text ''internal server error''), db)
              else case insert_loop sha b 3 as db of
                (InsertFailed, db') \<Rightarrow> (Plain 500 (Text ''internal server error''), db')
              | (Inserted dc uc, db') \<Rightarrow>
                  let base = (if oh_forwarded_origin hdr = [] then canonical_origin hdr
                              else oh_forwarded_origin hdr);
                      uri = trim_right_slash base @ ''/device''
                  in (Success \<lparr>cr_device_code = dc, cr_user_code = uc, cr_verification_uri = uri,
                        cr_verification_complete = uri @ ''?user_code='' @ uc,
                        cr_expires_in = expires_in_seconds, cr_interval = poll_interval_seconds\<rparr>, db'))"

section \<open>POST /api/oauth/device/token\<close>

datatype poll_write = Write_Expired | Write_Bump

text \<open>The decision a poll takes on the row it read: the write it issues, and either the reply
  or the user for whom it goes on to mint.\<close>

definition token_decide :: "instant \<Rightarrow> device_row
    \<Rightarrow> poll_write \<times> ('r device_reply + string)" where
  "token_decide now rec =
     (if dr_poll_count rec \<ge> max_poll_count then (Write_Expired, Inl (OauthError ''expired_token''))
      else if dr_expires rec \<noteq> 0 \<and> dr_expires rec < now
      then (Write_Expired, Inl (OauthError ''expired_token''))
      else if dr_last_polled rec \<noteq> 0 \<and>
              int now - int (dr_last_polled rec)
                < int (poll_interval_seconds * second) - 500 * 1000000
      then (Write_Bump, Inl (OauthError ''slow_down''))
      else (Write_Bump,
        if dr_status rec = st_pending then Inl (OauthError ''authorization_pending'')
        else if dr_status rec = st_denied then Inl (OauthError ''access_denied'')
        else if dr_status rec = st_expired then Inl (OauthError ''expired_token'')
        else if dr_status rec = st_consumed then Inl (OauthError ''invalid_grant'')
        else if dr_status rec = st_approved
        then if dr_approved_user rec = [] then Inl (Plain 500 (Text ''internal server error''))
             else Inr (dr_approved_user rec)
        else Inl (Plain 500 (Text ''internal server error''))))"

definition poll_write :: "poll_write \<Rightarrow> bool \<Rightarrow> string \<Rightarrow> instant \<Rightarrow> device_db \<Rightarrow> device_db" where
  "poll_write w ok did now db =
     (case w of Write_Expired \<Rightarrow> mark_expired ok did db | Write_Bump \<Rightarrow> bump_poll ok did now db)"

record token_response =
  tr_pat_id :: string
  tr_name :: string
  tr_prefix :: string
  tr_plaintext :: string
  tr_scopes :: "string list"
  tr_expires :: instant

fun encode_scopes :: "scopes_col \<Rightarrow> scopes_col" where
  "encode_scopes (Scopes_List ss) = Scopes_List ss"
| "encode_scopes Scopes_Blank = Scopes_Blank"
| "encode_scopes Scopes_Corrupt = Scopes_Blank"

record mint_tx_env =
  mt_update_ok :: bool
  mt_mint :: mint_env
  mt_link_ok :: bool
  mt_commit_ok :: bool

definition minted_row :: "(instant \<Rightarrow> int \<Rightarrow> instant) \<Rightarrow> mint_env \<Rightarrow> device_row \<Rightarrow> string \<Rightarrow> string
    \<Rightarrow> string \<Rightarrow> pat_row" where
  "minted_row add_days mi rec user pre h =
     \<lparr>pt_user = user, pt_name = dr_name rec, pt_prefix = pre, pt_hash = h,
      pt_description = dr_description rec, pt_scopes = encode_scopes (dr_scopes rec),
      pt_expires = add_days (mi_now mi) (dr_days rec), pt_created = mi_now mi, pt_last_used = 0\<rparr>"

text \<open>
  The mint transaction on the row \<open>rec\<close> read before: consume the device code if it is still
  approved, insert the token, link it. Any failure rolls the whole transaction back.
\<close>

definition mint_tx :: "(instant \<Rightarrow> int \<Rightarrow> instant) \<Rightarrow> mint_tx_env \<Rightarrow> string \<Rightarrow> device_row \<Rightarrow> string
    \<Rightarrow> device_db \<Rightarrow> token_response device_reply \<times> device_db" where
  "mint_tx add_days mt did rec user db =
     (if \<not> mt_update_ok mt then (Plain 500 (Text ''internal server error''), db)
      else case update_row did (Some [st_approved]) (\<lambda>r. r\<lparr>dr_status := st_consumed\<rparr>) db of
        (affected, db1) \<Rightarrow>
          if affected = 0 then (OauthError ''invalid_grant'', db)
          else case mi_generated (mt_mint mt) of
            Inl e \<Rightarrow> (Plain 500 (Text ''internal server error''), db)
          | Inr (plaintext, pre, h) \<Rightarrow>
              if \<not> mi_collection_ok (mt_mint mt) \<or> \<not> mi_save_ok (mt_mint mt)
              then (Plain 500 (Text ''internal server error''), db)
              else
                let row = minted_row add_days (mt_mint mt) rec user pre h;
                    pid = mi_id (mt_mint mt);
                    db2 = db1\<lparr>db_pats := AList.update pid row (db_pats db1)\<rparr>;
                    db3 = snd (update_row did None (\<lambda>r. r\<lparr>dr_pat := pid\<rparr>) db2)
                in if \<not> mt_link_ok mt \<or> \<not> mt_commit_ok mt
                   then (Plain 500 (Text ''internal server error''), db)
                   else (Success \<lparr>tr_pat_id = pid, tr_name = dr_name rec, tr_prefix = pre,
                           tr_plaintext = plaintext, tr_scopes = decode_scopes (dr_scopes rec),
                           tr_expires = pt_expires row\<rparr>, db3))"

definition find_device :: "(device_row \<Rightarrow> bool) \<Rightarrow> bool \<Rightarrow> device_db \<Rightarrow> (string \<times> device_row) option" where
  "find_device P ok db = (if ok then find (\<lambda>kr. P (snd kr)) (db_devices db) else None)"

definition token_handler :: "(string \<Rightarrow> string) \<Rightarrow> (instant \<Rightarrow> int \<Rightarrow> instant) \<Rightarrow> detail + string \<Rightarrow> bool
    \<Rightarrow> instant \<Rightarrow> bool \<Rightarrow> mint_tx_env \<Rightarrow> device_db \<Rightarrow> token_response device_reply \<times> device_db" where
  "token_handler sha add_days req find_ok now write_ok mt db =
     (case req of
        Inl d \<Rightarrow> (Plain 400 d, db)
      | Inr dc \<Rightarrow>
          if dc = [] then (OauthError ''invalid_grant'', db)
          else case find_device (\<lambda>r. dr_hash r = sha dc) find_ok db of
            None \<Rightarrow> (OauthError ''invalid_grant'', db)
          | Some (did, rec) \<Rightarrow>
              (case token_decide now rec of
                 (w, Inl rep) \<Rightarrow> (rep, poll_write w write_ok did now db)
               | (w, Inr user) \<Rightarrow>
                   mint_tx add_days mt did rec user (poll_write w write_ok did now db)))"

section \<open>Look-up, approval and denial\<close>

record lookup_response =
  lr_user_code :: string
  lr_name :: string
  lr_description :: string
  lr_scopes :: "string list"
  lr_days :: int
  lr_status :: string
  lr_available :: "string list"
  lr_max_days :: int

definition lookup_handler :: "string \<Rightarrow> bool \<Rightarrow> instant \<Rightarrow> bool \<Rightarrow> device_db
    \<Rightarrow> lookup_response device_reply \<times> device_db" where
  "lookup_handler raw find_ok now write_ok db =
     (case normalize_user_code raw of
        Inl e \<Rightarrow> (Plain 400 (Text ''invalid user_code''), db)
      | Inr canonical \<Rightarrow>
          (case find_device (\<lambda>r. dr_user_code r = canonical) find_ok db of
             None \<Rightarrow> (Plain 404 (Text ''not found''), db)
           | Some (did, rec) \<Rightarrow>
               let dead = dr_status rec = st_pending \<and> dr_expires rec \<noteq> 0 \<and> dr_expires rec < now;
                   status = (if dead then st_expired else dr_status rec);
                   db' = (if dead then mark_expired write_ok did db else db)
               in (Success \<lparr>lr_user_code = canonical, lr_name = dr_name rec,
                     lr_description = dr_description rec, lr_scopes = decode_scopes (dr_scopes rec),
                     lr_days = dr_days rec, lr_status = status, lr_available = all_scopes,
                     lr_max_days = max_pat_expiry_days\<rparr>, db')))"

record approve_request =
  ap_user_code :: string
  ap_name :: "string option"
  ap_scopes :: "string list option"
  ap_days :: "int option"

text \<open>The vetted overrides: \<open>newName\<close>, \<open>newScopesStr\<close>, \<open>newDays\<close>.\<close>

record overrides =
  ov_name :: "string option"
  ov_scopes :: "string list option"
  ov_days :: "int option"

definition check_overrides :: "approve_request \<Rightarrow> detail + overrides" where
  "check_overrides b =
     (let name = map_option trim_space (ap_name b) in
      if name = Some [] then Inl (Text ''name cannot be empty'')
      else if (case name of None \<Rightarrow> False | Some n \<Rightarrow> length n > 80)
      then Inl (Text ''name max length is 80'')
      else case (case ap_scopes b of None \<Rightarrow> None | Some ss \<Rightarrow> validate_scopes ss) of
        Some e \<Rightarrow> Inl (BadScopes e)
      | None \<Rightarrow>
          if (case ap_days b of None \<Rightarrow> False | Some d \<Rightarrow> d \<le> 0)
          then Inl (Text ''expires_in_days must be > 0'')
          else if (case ap_days b of None \<Rightarrow> False | Some d \<Rightarrow> d > max_pat_expiry_days)
          then Inl (Text (''expires_in_days exceeds maximum of '' @ itoa max_pat_expiry_days))
          else Inr \<lparr>ov_name = name, ov_scopes = ap_scopes b, ov_days = ap_days b\<rparr>)"

definition apply_overrides :: "overrides \<Rightarrow> device_row \<Rightarrow> device_row" where
  "apply_overrides ov r =
     r\<lparr>dr_name := (case ov_name ov of None \<Rightarrow> dr_name r | Some n \<Rightarrow> n),
       dr_scopes := (case ov_scopes ov of None \<Rightarrow> dr_scopes r | Some ss \<Rightarrow> Scopes_List ss),
       dr_days := (case ov_days ov of None \<Rightarrow> dr_days r | Some d \<Rightarrow> d)\<rparr>"

text \<open>The single conditional update of an approval.\<close>

definition approve_update :: "string \<Rightarrow> string \<Rightarrow> instant \<Rightarrow> overrides \<Rightarrow> device_db \<Rightarrow> nat \<times> device_db" where
  "approve_update did user now ov db =
     update_row did (Some [st_pending])
       (\<lambda>r. apply_overrides ov
          (r\<lparr>dr_status := st_approved, dr_approved_user := user, dr_approved_at := now\<rparr>)) db"

record approve_response =
  ar_user_code :: string
  ar_name :: string
  ar_scopes :: "string list"
  ar_days :: int

definition approve_handler :: "string option \<Rightarrow> detail + approve_request \<Rightarrow> bool \<Rightarrow> instant \<Rightarrow> bool \<Rightarrow> bool
    \<Rightarrow> device_db \<Rightarrow> approve_response device_reply \<times> device_db" where
  "approve_handler user req find_ok now write_ok update_ok db =
     (case user of
        None \<Rightarrow> (Plain 401 (Text ''missing auth''), db)
      | Some uid \<Rightarrow>
      (case req of
        Inl d \<Rightarrow> (Plain 400 d, db)
      | Inr b \<Rightarrow>
      (case normalize_user_code (ap_user_code b) of
        Inl e \<Rightarrow> (Plain 400 (Text ''invalid user_code''), db)
      | Inr canonical \<Rightarrow>
      (case check_overrides b of
        Inl d \<Rightarrow> (Plain 400 d, db)
      | Inr ov \<Rightarrow>
      (case find_device (\<lambda>r. dr_user_code r = canonical) find_ok db of
        None \<Rightarrow> (Plain 404 (Text ''not found''), db)
      | Some (did, rec) \<Rightarrow>
          if dr_expires rec \<noteq> 0 \<and> dr_expires rec < now
          then (Plain 410 (Text ''device code expired''), mark_expired write_ok did db)
          else if \<not> update_ok then (Plain 500 (Text ''internal server error''), db)
          else case approve_update did uid now ov db of
            (affected, db') \<Rightarrow>
              if affected = 0 then (Plain 409 (Text ''device code is not pending''), db')
              else (Success \<lparr>ar_user_code = canonical,
                      ar_name = (case ov_name ov of None \<Rightarrow> dr_name rec | Some n \<Rightarrow> n),
                      ar_scopes = (case ov_scopes ov of None \<Rightarrow> decode_scopes (dr_scopes rec) | Some ss \<Rightarrow> ss),
                      ar_days = (case ov_days ov of None \<Rightarrow> dr_days rec | Some d \<Rightarrow> d)\<rparr>, db'))))))"

definition deny_update :: "string \<Rightarrow> device_db \<Rightarrow> nat \<times> device_db" where
  "deny_update did db = update_row did (Some [st_pending]) (\<lambda>r. r\<lparr>dr_status := st_denied\<rparr>) db"

definition read_user_code_body :: "detail + string \<Rightarrow> detail + string" where
  "read_user_code_body req =
     (case req of
        Inl d \<Rightarrow> Inl d
      | Inr uc \<Rightarrow>
          (case normalize_user_code uc of Inl e \<Rightarrow> Inl (Text ''invalid user_code'') | Inr c \<Rightarrow> Inr c))"

definition deny_handler :: "detail + string \<Rightarrow> bool \<Rightarrow> bool \<Rightarrow> device_db \<Rightarrow> string device_reply \<times> device_db" where
  "deny_handler req find_ok update_ok db =
     (case read_user_code_body req of
        Inl d \<Rightarrow> (Plain 400 d, db)
      | Inr canonical \<Rightarrow>
          (case find_device (\<lambda>r. dr_user_code r = canonical) find_ok db of
             None \<Rightarrow> (Plain 404 (Text ''not found''), db)
           | Some (did, rec) \<Rightarrow>
               if \<not> update_ok then (Plain 500 (Text ''internal server error''), db)
               else case deny_update did db of
                 (affected, db') \<Rightarrow>
                   if affected = 0 then (Plain 409 (Text ''device code is not pending''), db')
                   else (Success canonical, db')))"

section \<open>User codes\<close>

lemma alphabet_chars: "list_all (\<lambda>ch. is_upper ch \<or> is_digit ch) user_code_alphabet"
  by code_simp

lemma alphabet_length [simp]: "length user_code_alphabet = 32"
  by (simp add: user_code_alphabet_def)

lemma upper_not_lower: "is_upper ch \<Longrightarrow> \<not> is_lower ch" "is_digit ch \<Longrightarrow> \<not> is_lower ch"
  by (auto simp: is_upper_def is_lower_def is_digit_def)

lemma clean_upper [simp]: "is_upper ch \<or> is_digit ch \<Longrightarrow> clean_char ch = [ch]"
  using upper_not_lower [of ch] by (auto simp: clean_char_def)

lemma clean_image: "x \<in> set (clean_char ch) \<Longrightarrow> is_upper x \<or> is_digit x"
proof -
  have "list_all (\<lambda>ch. is_upper (ascii_upper ch)) ''abcdefghijklmnopqrstuvwxyz''" by code_simp
  then have "is_lower ch \<Longrightarrow> is_upper (ascii_upper ch)" unfolding is_lower_def list_all_iff by blast
  then show "x \<in> set (clean_char ch) \<Longrightarrow> is_upper x \<or> is_digit x"
    by (auto simp: clean_char_def split: if_splits)
qed

lemma clean_dash [simp]: "clean_char (CHR ''-'') = []"
  by (simp add: clean_char_def is_lower_def is_upper_def is_digit_def)

definition code_raw :: "string \<Rightarrow> string" where
  "code_raw s = concat (map clean_char s)"

lemma code_raw_fixed: "list_all (\<lambda>ch. is_upper ch \<or> is_digit ch) s \<Longrightarrow> code_raw s = s"
  by (induction s) (auto simp: code_raw_def)

lemma code_raw_chars: "list_all (\<lambda>ch. is_upper ch \<or> is_digit ch) (code_raw s)"
  by (auto simp: code_raw_def list_all_iff dest: clean_image)

lemma normalize_iff:
  "normalize_user_code s =
     (if code_raw s = [] then Inl CodeEmpty
      else if length (code_raw s) \<noteq> 8 then Inl CodeShape
      else Inr (take 4 (code_raw s) @ ''-'' @ drop 4 (code_raw s)))"
  by (simp add: normalize_user_code_def code_raw_def [symmetric] Let_def user_code_groups_def
        user_code_group_len_def numeral_2_eq_2 take_drop)

lemma raw_of_canonical:
  assumes "list_all (\<lambda>ch. is_upper ch \<or> is_digit ch) r"
  shows "code_raw (take 4 r @ CHR ''-'' # drop 4 r) = r"
proof -
  let ?P = "\<lambda>ch. is_upper ch \<or> is_digit ch"
  have "list_all ?P (take 4 r @ drop 4 r)" using assms by simp
  then have "list_all ?P (take 4 r)" "list_all ?P (drop 4 r)" by (simp_all only: list_all_append)
  then have "code_raw (take 4 r) = take 4 r" "code_raw (drop 4 r) = drop 4 r"
    by (simp_all add: code_raw_fixed)
  then show ?thesis by (simp add: code_raw_def)
qed

lemma random_user_code_shape:
  assumes "length buf = 8"
  shows "\<exists>r. user_code_loop 0 buf = take 4 r @ ''-'' @ drop 4 r \<and> length r = 8 \<and>
    list_all (\<lambda>ch. is_upper ch \<or> is_digit ch) r"
proof -
  let ?r = "map (\<lambda>b. user_code_alphabet ! (unat b mod 32)) buf"
  obtain b0 b1 b2 b3 b4 b5 b6 b7 where buf: "buf = [b0, b1, b2, b3, b4, b5, b6, b7]"
    using assms by (auto simp: numeral_eq_Suc length_Suc_conv)
  have "user_code_loop 0 buf = take 4 ?r @ ''-'' @ drop 4 ?r"
    by (simp add: buf user_code_group_len_def)
  moreover have "list_all (\<lambda>ch. is_upper ch \<or> is_digit ch) ?r"
    using alphabet_chars by (simp add: list_all_length)
  ultimately show ?thesis using assms by (intro exI [of _ ?r]) simp
qed

text \<open>A person can type the code in any form. Whatever the letter case, the spaces and the
  dashes, a text with the letters and digits of a generated code normalises to exactly that code;
  a code that was normalised once is a fixed point; and a text is rejected precisely when it does
  not have eight letters and digits.\<close>

theorem user_code_roundtrip:
  "(\<forall>buf s. length buf = 8 \<and> code_raw s = code_raw (user_code_loop 0 buf) \<longrightarrow>
      normalize_user_code s = Inr (user_code_loop 0 buf)) \<and>
   (\<forall>s u. normalize_user_code s = Inr u \<longrightarrow> normalize_user_code u = Inr u) \<and>
   (\<forall>s. (\<exists>u. normalize_user_code s = Inr u) \<longleftrightarrow> length (code_raw s) = 8)"
proof (intro conjI allI impI)
  fix buf s assume "length buf = 8 \<and> code_raw s = code_raw (user_code_loop 0 buf)"
  moreover from this obtain r where "user_code_loop 0 buf = take 4 r @ ''-'' @ drop 4 r"
    "length r = 8" "list_all (\<lambda>ch. is_upper ch \<or> is_digit ch) r"
    using random_user_code_shape [of buf] by blast
  ultimately show "normalize_user_code s = Inr (user_code_loop 0 buf)"
    by (auto simp: normalize_iff raw_of_canonical)
next
  fix s u assume "normalize_user_code s = Inr u"
  then have u: "u = take 4 (code_raw s) @ ''-'' @ drop 4 (code_raw s)" "length (code_raw s) = 8"
    by (auto simp: normalize_iff split: if_splits)
  then have "code_raw u = code_raw s" using raw_of_canonical [OF code_raw_chars] by simp
  with u show "normalize_user_code u = Inr u" by (auto simp: normalize_iff)
qed (auto simp: normalize_iff)

theorem user_code_roundtrip_witness:
  "normalize_user_code ''wdjb mjht'' = Inr ''WDJB-MJHT'' \<and> normalize_user_code ''WDJB-MJHT'' = Inr ''WDJB-MJHT''"
proof -
  have n: "normalize_user_code ''wdjb mjht'' = Inr ''WDJB-MJHT''" by code_simp
  with user_code_roundtrip show ?thesis by blast
qed

section \<open>Interleavings\<close>

text \<open>
  The state of the server with its concurrent requests: the database, every row any request has
  read (the request may act on it at any later time), the ids used so far, and two records of
  what happened: the approvals and the mints.
\<close>

type_synonym grant = "string \<times> string \<times> string \<times> scopes_col \<times> int"

definition grant_of :: "device_row \<Rightarrow> grant" where
  "grant_of r = (dr_approved_user r, dr_name r, dr_description r, dr_scopes r, dr_days r)"

record world =
  w_db :: device_db
  w_read :: "(string \<times> device_row) set"
  w_used :: "string set"
  w_approved :: "string \<rightharpoonup> grant"
  w_minted :: "(string \<times> string \<times> pat_row) list"

inductive wstep :: "(instant \<Rightarrow> int \<Rightarrow> instant) \<Rightarrow> world \<Rightarrow> world \<Rightarrow> bool" for add_days where
  step_read: "(did, r) \<in> set (db_devices (w_db w)) \<Longrightarrow>
     wstep add_days w (w\<lparr>w_read := insert (did, r) (w_read w)\<rparr>)"
| step_insert: "did \<notin> w_used w \<Longrightarrow> check_code_request b = None \<Longrightarrow>
     save_device ok did (new_device_row h uc b now) (w_db w) = Saved db' \<Longrightarrow>
     wstep add_days w (w\<lparr>w_db := db', w_used := insert did (w_used w)\<rparr>)"
| step_poll: "(did, r) \<in> w_read w \<Longrightarrow>
     (token_decide now r :: poll_write \<times> (token_response device_reply + string)) = (pw, v) \<Longrightarrow>
     wstep add_days w (w\<lparr>w_db := poll_write pw ok did now (w_db w)\<rparr>)"
| step_mint: "(did, r) \<in> w_read w \<Longrightarrow>
     (token_decide now r :: poll_write \<times> (token_response device_reply + string)) = (pw, Inr user) \<Longrightarrow>
     mint_tx add_days mt did r user (w_db w) = (Success resp, db') \<Longrightarrow>
     map_of (db_pats db') (tr_pat_id resp) = Some row \<Longrightarrow>
     wstep add_days w (w\<lparr>w_db := db', w_minted := (did, tr_pat_id resp, row) # w_minted w\<rparr>)"
| step_approve: "(did, r) \<in> w_read w \<Longrightarrow> check_overrides b = Inr ov \<Longrightarrow> user \<noteq> [] \<Longrightarrow>
     approve_update did user now ov (w_db w) = (Suc n, db') \<Longrightarrow>
     map_of (db_devices db') did = Some r' \<Longrightarrow>
     wstep add_days w (w\<lparr>w_db := db', w_approved := (w_approved w)(did \<mapsto> grant_of r')\<rparr>)"
| step_expire: "(did, r) \<in> w_read w \<Longrightarrow>
     wstep add_days w (w\<lparr>w_db := mark_expired ok did (w_db w)\<rparr>)"
| step_deny: "(did, r) \<in> w_read w \<Longrightarrow>
     wstep add_days w (w\<lparr>w_db := snd (deny_update did (w_db w))\<rparr>)"
| step_remove:
     "wstep add_days w (w\<lparr>w_db := (w_db w)\<lparr>db_devices := AList.delete did (db_devices (w_db w))\<rparr>\<rparr>)"
| step_other: "wstep add_days w (w\<lparr>w_db := (w_db w)\<lparr>db_pats := pats, db_users := users\<rparr>\<rparr>)"

text \<open>What one step can do to one row.\<close>

inductive quiet_edge :: "device_row \<Rightarrow> device_row \<Rightarrow> bool" where
  re_same: "quiet_edge r r"
| re_bump: "quiet_edge r (r\<lparr>dr_poll_count := n, dr_last_polled := t\<rparr>)"
| re_expire: "dr_status r \<in> {st_pending, st_approved} \<Longrightarrow> quiet_edge r (r\<lparr>dr_status := st_expired\<rparr>)"
| re_deny: "dr_status r = st_pending \<Longrightarrow> quiet_edge r (r\<lparr>dr_status := st_denied\<rparr>)"

inductive row_edge :: "device_row \<Rightarrow> device_row \<Rightarrow> bool" where
  re_quiet: "quiet_edge r r' \<Longrightarrow> row_edge r r'"
| re_approve: "dr_status r = st_pending \<Longrightarrow> check_overrides b = Inr ov \<Longrightarrow>
     row_edge r (apply_overrides ov
       (r\<lparr>dr_status := st_approved, dr_approved_user := user, dr_approved_at := now\<rparr>))"
| re_consume: "dr_status r = st_approved \<Longrightarrow>
     row_edge r (r\<lparr>dr_status := st_consumed, dr_pat := pid\<rparr>)"

lemma update_row_None: "map_of (db_devices db) did = None \<Longrightarrow> update_row did froms f db = (0, db)"
  by (simp add: update_row_def)

lemma update_row_Some:
  "map_of (db_devices db) did = Some r \<Longrightarrow>
   update_row did froms f db =
     (if (case froms of None \<Rightarrow> True | Some ss \<Rightarrow> dr_status r \<in> set ss)
      then (1, db\<lparr>db_devices := AList.update did (f r) (db_devices db)\<rparr>) else (0, db))"
  by (simp add: update_row_def)

lemmas update_row_simps = update_row_None update_row_Some gomap_simps

lemma mint_tx_Success:
  assumes "mint_tx add_days mt did rec user db = (Success resp, db')"
  obtains r pl pre h where "map_of (db_devices db) did = Some r" "dr_status r = st_approved"
    "mi_generated (mt_mint mt) = Inr (pl, pre, h)"
    "map_of (db_devices db') = (map_of (db_devices db))(did \<mapsto>
       r\<lparr>dr_status := st_consumed, dr_pat := tr_pat_id resp\<rparr>)"
    "gomap_ok (db_devices db) \<Longrightarrow> gomap_ok (db_devices db')"
    "db_pats db' = AList.update (tr_pat_id resp) (minted_row add_days (mt_mint mt) rec user pre h) (db_pats db)"
    "tr_pat_id resp = mi_id (mt_mint mt)" "tr_plaintext resp = pl" "tr_scopes resp = decode_scopes (dr_scopes rec)"
proof (cases "map_of (db_devices db) did")
  case None
  with assms show ?thesis by (auto simp: mint_tx_def update_row_simps split: if_splits)
next
  case (Some r)
  with assms obtain pl pre h where g: "mi_generated (mt_mint mt) = Inr (pl, pre, h)"
    by (cases "mi_generated (mt_mint mt)")
       (auto simp: mint_tx_def update_row_simps split: if_splits)
  with Some assms show ?thesis
    by (intro that [of r pl pre h])
       (auto simp: mint_tx_def update_row_simps Let_def split: if_splits)
qed

lemma mint_tx_other:
  "mint_tx add_days mt did rec user db = (rep, db') \<Longrightarrow> (\<And>resp. rep \<noteq> Success resp) \<Longrightarrow> db' = db"
  by (auto simp: mint_tx_def Let_def split: if_splits sum.splits prod.splits)

lemma decide_Inr:
  "(token_decide now r :: poll_write \<times> ('r device_reply + string)) = (pw, Inr user) \<Longrightarrow>
   dr_status r = st_approved \<and> user = dr_approved_user r \<and> user \<noteq> [] \<and> dr_poll_count r < 150 \<and>
   (dr_expires r \<noteq> 0 \<longrightarrow> now \<le> dr_expires r)"
  by (auto simp: token_decide_def max_poll_count_def status_names split: if_splits)

text \<open>What holds of every row, in the table or read from it.\<close>

definition row_ok :: "device_row \<Rightarrow> bool" where
  "row_ok r \<longleftrightarrow> set (decode_scopes (dr_scopes r)) \<subseteq> set all_scopes \<and> 1 \<le> dr_days r \<and> dr_days r \<le> 365 \<and>
     dr_name r \<noteq> [] \<and> length (dr_name r) \<le> 80"

definition terminal :: "device_row \<Rightarrow> bool" where
  "terminal r \<longleftrightarrow> dr_status r \<in> {st_consumed, st_denied, st_expired}"

lemma statuses_distinct [simp]:
  "st_pending \<noteq> st_approved" "st_pending \<noteq> st_consumed" "st_pending \<noteq> st_denied" "st_pending \<noteq> st_expired"
  "st_approved \<noteq> st_pending" "st_approved \<noteq> st_consumed" "st_approved \<noteq> st_denied" "st_approved \<noteq> st_expired"
  "st_consumed \<noteq> st_pending" "st_consumed \<noteq> st_approved" "st_consumed \<noteq> st_denied" "st_consumed \<noteq> st_expired"
  "st_denied \<noteq> st_pending" "st_denied \<noteq> st_approved" "st_denied \<noteq> st_consumed" "st_denied \<noteq> st_expired"
  "st_expired \<noteq> st_pending" "st_expired \<noteq> st_approved" "st_expired \<noteq> st_consumed" "st_expired \<noteq> st_denied"
  by (simp_all add: status_names)

lemma check_overrides_Inr:
  assumes "check_overrides b = Inr ov"
  shows "(\<forall>n. ov_name ov = Some n \<longrightarrow> n \<noteq> [] \<and> length n \<le> 80) \<and>
    (\<forall>ss. ov_scopes ov = Some ss \<longrightarrow> set ss \<subseteq> set all_scopes) \<and>
    (\<forall>d. ov_days ov = Some d \<longrightarrow> 1 \<le> d \<and> d \<le> 365)"
  using assms
  by (auto simp: check_overrides_def Let_def max_pat_expiry_days_def validate_scopes_None
        split: if_splits option.splits)

lemma apply_overrides_ok:
  "check_overrides b = Inr ov \<Longrightarrow> row_ok r \<Longrightarrow> row_ok (apply_overrides ov r)"
  by (drule check_overrides_Inr) (auto simp: row_ok_def apply_overrides_def split: option.splits)

lemma apply_overrides_status [simp]: "dr_status (apply_overrides ov r) = dr_status r"
  by (simp add: apply_overrides_def)

lemma new_row_ok:
  "check_code_request b = None \<Longrightarrow> row_ok (new_device_row h uc b now)"
  by (auto simp: check_code_request_def new_device_row_def row_ok_def validate_scopes_None
        max_pat_expiry_days_def split: if_splits option.splits)

lemma quiet_edge_keeps:
  "quiet_edge r r' \<Longrightarrow> grant_of r' = grant_of r \<and> row_ok r' = row_ok r \<and>
   (dr_status r' = dr_status r \<or> dr_status r \<in> {st_pending, st_approved} \<and> dr_status r' = st_expired \<or>
    dr_status r = st_pending \<and> dr_status r' = st_denied)"
  by (induction rule: quiet_edge.induct) (auto simp: grant_of_def row_ok_def)

lemma row_edge_terminal: "row_edge r r' \<Longrightarrow> terminal r \<Longrightarrow> dr_status r' = dr_status r \<and> grant_of r' = grant_of r"
  by (induction rule: row_edge.induct) (auto simp: terminal_def dest: quiet_edge_keeps)

text \<open>The rows of a database along a relation: each row moves, no row is added or removed.\<close>

definition rows_move :: "(device_row \<Rightarrow> device_row \<Rightarrow> bool) \<Rightarrow> device_db \<Rightarrow> device_db \<Rightarrow> bool" where
  "rows_move R d d' \<longleftrightarrow> gomap_ok (db_devices d') \<and>
     (\<forall>k. case map_of (db_devices d) k of
        None \<Rightarrow> map_of (db_devices d') k = None
      | Some r \<Rightarrow> \<exists>r'. map_of (db_devices d') k = Some r' \<and> R r r')"

lemma rows_moveD:
  "rows_move R d d' \<Longrightarrow> map_of (db_devices d') k = Some r' \<Longrightarrow>
   \<exists>r. map_of (db_devices d) k = Some r \<and> R r r'"
  by (cases "map_of (db_devices d) k") (auto simp: rows_move_def dest: spec [of _ k])

lemma rows_move_update:
  assumes "gomap_ok (db_devices db)" and "\<And>r. R r r"
    and "\<And>r. map_of (db_devices db) did = Some r \<Longrightarrow>
      (case froms of None \<Rightarrow> True | Some ss \<Rightarrow> dr_status r \<in> set ss) \<Longrightarrow> R r (f r)"
  shows "rows_move R db (snd (update_row did froms f db))"
proof (cases "map_of (db_devices db) did")
  case None
  with assms(1,2) show ?thesis by (auto simp: update_row_simps rows_move_def split: option.splits)
next
  case (Some r)
  with assms show ?thesis by (auto simp: update_row_simps rows_move_def split: option.split)
qed

lemma rows_move_same: "gomap_ok (db_devices db) \<Longrightarrow> rows_move quiet_edge db db"
  by (auto simp: rows_move_def re_same split: option.splits)

lemma rows_move_writes:
  assumes "gomap_ok (db_devices db)"
  shows "rows_move quiet_edge db (poll_write pw ok did now db)"
    and "rows_move quiet_edge db (mark_expired ok did db)"
    and "rows_move quiet_edge db (snd (deny_update did db))"
proof -
  show m: "rows_move quiet_edge db (mark_expired ok did db)" for ok
    using assms
    by (auto simp: mark_expired_def rows_move_same intro!: rows_move_update re_expire re_same)
  show "rows_move quiet_edge db (poll_write pw ok did now db)"
    using assms m
    by (cases pw)
       (auto simp: poll_write_def bump_poll_def rows_move_same intro!: rows_move_update re_bump re_same)
  show "rows_move quiet_edge db (snd (deny_update did db))"
    unfolding deny_update_def using assms by (auto intro!: rows_move_update re_deny re_same)
qed

section \<open>The invariant\<close>

definition agrees :: "world \<Rightarrow> string \<Rightarrow> device_row \<Rightarrow> bool" where
  "agrees w did r \<longleftrightarrow> did \<in> w_used w \<and> row_ok r \<and>
     (dr_status r = st_approved \<longrightarrow> w_approved w did = Some (grant_of r))"

fun grant_ok :: "grant \<Rightarrow> bool" where
  "grant_ok (user, name, desc, sc, days) \<longleftrightarrow>
     user \<noteq> [] \<and> set (decode_scopes sc) \<subseteq> set all_scopes \<and> 1 \<le> days \<and> days \<le> 365"

text \<open>A token row that was minted from a grant.\<close>

fun minted_from :: "(instant \<Rightarrow> int \<Rightarrow> instant) \<Rightarrow> pat_row \<Rightarrow> grant \<Rightarrow> bool" where
  "minted_from add_days row (user, name, desc, sc, days) \<longleftrightarrow>
     pt_user row = user \<and> pt_name row = name \<and> pt_description row = desc \<and>
     decode_scopes (pt_scopes row) = decode_scopes sc \<and> pt_expires row = add_days (pt_created row) days"

definition winv :: "(instant \<Rightarrow> int \<Rightarrow> instant) \<Rightarrow> world \<Rightarrow> bool" where
  "winv add_days w \<longleftrightarrow>
     gomap_ok (db_devices (w_db w)) \<and>
     (\<forall>did r. map_of (db_devices (w_db w)) did = Some r \<longrightarrow> agrees w did r) \<and>
     (\<forall>did r. (did, r) \<in> w_read w \<longrightarrow> agrees w did r) \<and>
     (\<forall>did g. w_approved w did = Some g \<longrightarrow> did \<in> w_used w \<and> grant_ok g \<and>
        (\<forall>r. map_of (db_devices (w_db w)) did = Some r \<longrightarrow> dr_status r \<notin> {st_pending, st_denied})) \<and>
     (\<forall>did pid row. (did, pid, row) \<in> set (w_minted w) \<longrightarrow>
        (\<exists>g. w_approved w did = Some g \<and> minted_from add_days row g) \<and>
        (\<forall>r. map_of (db_devices (w_db w)) did = Some r \<longrightarrow> dr_status r = st_consumed)) \<and>
     distinct (map fst (w_minted w))"

lemma winvI:
  assumes "gomap_ok (db_devices (w_db w))"
    and "\<And>did r. map_of (db_devices (w_db w)) did = Some r \<Longrightarrow> agrees w did r"
    and "\<And>did r. (did, r) \<in> w_read w \<Longrightarrow> agrees w did r"
    and "\<And>did g. w_approved w did = Some g \<Longrightarrow> did \<in> w_used w \<and> grant_ok g"
    and "\<And>did g r. w_approved w did = Some g \<Longrightarrow> map_of (db_devices (w_db w)) did = Some r \<Longrightarrow>
      dr_status r \<notin> {st_pending, st_denied}"
    and "\<And>did pid row. (did, pid, row) \<in> set (w_minted w) \<Longrightarrow>
      \<exists>g. w_approved w did = Some g \<and> minted_from add_days row g"
    and "\<And>did pid row r. (did, pid, row) \<in> set (w_minted w) \<Longrightarrow>
      map_of (db_devices (w_db w)) did = Some r \<Longrightarrow> dr_status r = st_consumed"
    and "distinct (map fst (w_minted w))"
  shows "winv add_days w"
  unfolding winv_def using assms by blast

lemma winvD:
  assumes "winv add_days w"
  shows "gomap_ok (db_devices (w_db w))"
    and "map_of (db_devices (w_db w)) did = Some r \<Longrightarrow> agrees w did r"
    and "(did, r) \<in> w_read w \<Longrightarrow> agrees w did r"
    and "w_approved w did = Some g \<Longrightarrow> did \<in> w_used w \<and> grant_ok g"
    and "w_approved w did = Some g \<Longrightarrow> map_of (db_devices (w_db w)) did = Some r \<Longrightarrow>
      dr_status r \<notin> {st_pending, st_denied}"
    and "(did, pid, row) \<in> set (w_minted w) \<Longrightarrow>
      \<exists>g. w_approved w did = Some g \<and> minted_from add_days row g"
    and "(did, pid, row) \<in> set (w_minted w) \<Longrightarrow>
      map_of (db_devices (w_db w)) did = Some r \<Longrightarrow> dr_status r = st_consumed"
    and "distinct (map fst (w_minted w))"
  using assms unfolding winv_def by blast+

lemma agrees_frame [simp]:
  "agrees (w\<lparr>w_db := db\<rparr>) = agrees w" "agrees (w\<lparr>w_read := rs\<rparr>) = agrees w"
  "agrees (w\<lparr>w_minted := ms\<rparr>) = agrees w"
  by (simp_all add: agrees_def fun_eq_iff)

lemma winv_quiet:
  assumes inv: "winv add_days w" and m: "rows_move quiet_edge (w_db w) db'"
  shows "winv add_days (w\<lparr>w_db := db'\<rparr>)"
proof (rule winvI, simp_all)
  show "gomap_ok (db_devices db')" using m by (simp add: rows_move_def)
  show "agrees w did r'" if "map_of (db_devices db') did = Some r'" for did r'
  proof -
    obtain r where "map_of (db_devices (w_db w)) did = Some r" "quiet_edge r r'"
      using rows_moveD [OF m \<open>map_of (db_devices db') did = Some r'\<close>] by blast
    then show ?thesis using winvD(2) [OF inv, of did r] quiet_edge_keeps [of r r']
      by (auto simp: agrees_def)
  qed
  show "dr_status r' \<noteq> st_pending \<and> dr_status r' \<noteq> st_denied"
    if "w_approved w did = Some g" "map_of (db_devices db') did = Some r'" for did g r'
  proof -
    obtain r where "map_of (db_devices (w_db w)) did = Some r" "quiet_edge r r'"
      using rows_moveD [OF m \<open>map_of (db_devices db') did = Some r'\<close>] by blast
    then show ?thesis using winvD(5) [OF inv that(1), of r] quiet_edge_keeps [of r r'] by auto
  qed
  show "dr_status r' = st_consumed"
    if "(did, pid, row) \<in> set (w_minted w)" "map_of (db_devices db') did = Some r'" for did pid row r'
  proof -
    obtain r where "map_of (db_devices (w_db w)) did = Some r" "quiet_edge r r'"
      using rows_moveD [OF m \<open>map_of (db_devices db') did = Some r'\<close>] by blast
    then show ?thesis using winvD(7) [OF inv that(1), of r] quiet_edge_keeps [of r r'] by auto
  qed
qed (auto dest: winvD(3,4,6) [OF inv] intro: winvD(8) [OF inv])

lemma save_device_Saved:
  assumes "save_device ok did row db = Saved db'"
  shows "db_devices db' = AList.update did row (db_devices db)"
  using assms by (auto simp: save_device_def split: if_splits)

lemma approve_update_Suc:
  assumes "approve_update did user now ov db = (Suc n, db')"
  obtains r where "map_of (db_devices db) did = Some r" "dr_status r = st_pending"
    "db_devices db' = AList.update did (apply_overrides ov
       (r\<lparr>dr_status := st_approved, dr_approved_user := user, dr_approved_at := now\<rparr>)) (db_devices db)"
proof (cases "map_of (db_devices db) did")
  case None
  with assms show ?thesis by (simp add: approve_update_def update_row_simps)
next
  case (Some r)
  with assms show ?thesis
    by (intro that [of r]) (auto simp: approve_update_def update_row_simps split: if_splits)
qed

lemma winv_step: "wstep add_days w w' \<Longrightarrow> winv add_days w \<Longrightarrow> winv add_days w'"
proof (induction rule: wstep.induct)
  case (step_read did r w)
  then have "agrees w did r" using winvD(1,2) by (simp add: gomap_set_iff)
  with winvD [OF step_read.prems] show ?case by (intro winvI) auto
next
  case (step_insert did w b ok h uc now db')
  note inv = winvD [OF step_insert.prems]
  have dev: "db_devices db' = AList.update did (new_device_row h uc b now) (db_devices (w_db w))"
    using step_insert.hyps(3) by (rule save_device_Saved)
  have new: "agrees (w\<lparr>w_db := db', w_used := insert did (w_used w)\<rparr>) did (new_device_row h uc b now)"
    using new_row_ok [OF step_insert.hyps(2)] by (simp add: agrees_def new_device_row_def)
  have old: "agrees w k r \<Longrightarrow> agrees (w\<lparr>w_db := db', w_used := insert did (w_used w)\<rparr>) k r" for k r
    by (simp add: agrees_def)
  have fresh: "w_approved w did = None" using inv(4) [of did] step_insert.hyps(1) by (cases "w_approved w did") auto
  show ?case
  proof (rule winvI)
    show "dr_status r \<notin> {st_pending, st_denied}"
      if "w_approved (w\<lparr>w_db := db', w_used := insert did (w_used w)\<rparr>) k = Some g"
        "map_of (db_devices (w_db (w\<lparr>w_db := db', w_used := insert did (w_used w)\<rparr>))) k = Some r" for k g r
      using that fresh inv(5) [of k g r] by (auto simp: dev gomap_simps split: if_splits)
    show "dr_status r = st_consumed"
      if "(k, pid, row) \<in> set (w_minted (w\<lparr>w_db := db', w_used := insert did (w_used w)\<rparr>))"
        "map_of (db_devices (w_db (w\<lparr>w_db := db', w_used := insert did (w_used w)\<rparr>))) k = Some r" for k pid row r
      using that fresh inv(6) [of k pid row] inv(7) [of k pid row r]
      by (auto simp: dev gomap_simps split: if_splits)
  qed (use inv new old in \<open>auto simp: dev gomap_simps split: if_splits\<close>)
next
  case (step_poll did r w now pw v ok)
  then show ?case using rows_move_writes(1) winvD(1) by (blast intro: winv_quiet)
next
  case (step_expire did r w ok)
  then show ?case using rows_move_writes(2) winvD(1) by (blast intro: winv_quiet)
next
  case (step_deny did r w)
  then show ?case using rows_move_writes(3) winvD(1) by (blast intro: winv_quiet)
next
  case (step_remove w did)
  note inv = winvD [OF step_remove.prems]
  from inv show ?case by (intro winvI) (auto simp: gomap_simps split: if_splits)
next
  case (step_other w pats users)
  note inv = winvD [OF step_other.prems]
  from inv show ?case by (intro winvI) auto
next
  case (step_mint did r w now pw user mt resp db' row)
  note inv = winvD [OF step_mint.prems]
  note dec = decide_Inr [OF step_mint.hyps(2)]
  from inv(3) [OF step_mint.hyps(1)] dec
  have appr: "w_approved w did = Some (grant_of r)" by (simp add: agrees_def)
  from step_mint.hyps(3) show ?case
  proof (cases rule: mint_tx_Success)
    case (1 cur pl pre h)
    have notyet: "did \<notin> fst ` set (w_minted w)"
      using inv(7) [of did _ _ cur] 1 by fastforce
    have row: "row = minted_row add_days (mt_mint mt) r user pre h"
      using step_mint.hyps(4) 1 by (simp add: gomap_simps)
    have "decode_scopes (encode_scopes sc) = decode_scopes sc" for sc by (cases sc) auto
    then have from_grant: "minted_from add_days row (grant_of r)"
      using dec by (simp add: row minted_row_def grant_of_def)
    show ?thesis
    proof (rule winvI)
      fix k s assume "map_of (db_devices (w_db (w\<lparr>w_db := db', w_minted := (did, tr_pat_id resp, row) # w_minted w\<rparr>))) k = Some s"
      then have s: "map_of (db_devices db') k = Some s" by simp
      show "agrees (w\<lparr>w_db := db', w_minted := (did, tr_pat_id resp, row) # w_minted w\<rparr>) k s"
        using s 1 inv(2) [of k] by (auto simp: agrees_def row_ok_def split: if_splits)
    next
      fix k g s assume "w_approved (w\<lparr>w_db := db', w_minted := (did, tr_pat_id resp, row) # w_minted w\<rparr>) k = Some g"
        and "map_of (db_devices (w_db (w\<lparr>w_db := db', w_minted := (did, tr_pat_id resp, row) # w_minted w\<rparr>))) k = Some s"
      then show "dr_status s \<notin> {st_pending, st_denied}"
        using 1 inv(5) [of k g s] by (auto split: if_splits)
    next
      fix k pid prow s
      assume "(k, pid, prow) \<in> set (w_minted (w\<lparr>w_db := db', w_minted := (did, tr_pat_id resp, row) # w_minted w\<rparr>))"
        and "map_of (db_devices (w_db (w\<lparr>w_db := db', w_minted := (did, tr_pat_id resp, row) # w_minted w\<rparr>))) k = Some s"
      then show "dr_status s = st_consumed"
        using 1 inv(7) [of k pid prow s] by (auto split: if_splits)
    next
      fix k pid prow
      assume "(k, pid, prow) \<in> set (w_minted (w\<lparr>w_db := db', w_minted := (did, tr_pat_id resp, row) # w_minted w\<rparr>))"
      then have "(k, pid, prow) \<in> set (w_minted w) \<or> k = did \<and> prow = row" by auto
      then show "\<exists>g. w_approved (w\<lparr>w_db := db', w_minted := (did, tr_pat_id resp, row) # w_minted w\<rparr>) k = Some g \<and>
          minted_from add_days prow g"
        using inv(6) [of k pid prow] appr from_grant by (elim disjE) simp_all
    next
      show "gomap_ok (db_devices (w_db (w\<lparr>w_db := db', w_minted := (did, tr_pat_id resp, row) # w_minted w\<rparr>)))"
        using 1 inv(1) by simp
    next
      show "distinct (map fst (w_minted (w\<lparr>w_db := db', w_minted := (did, tr_pat_id resp, row) # w_minted w\<rparr>)))"
        using notyet inv(8) by simp
    qed (use inv(3,4) in simp_all)
  qed
next
  case (step_approve did r w b ov user now n db' r')
  note inv = winvD [OF step_approve.prems]
  from step_approve.hyps(4) show ?case
  proof (cases rule: approve_update_Suc)
    case (1 cur)
    let ?new = "apply_overrides ov
       (cur\<lparr>dr_status := st_approved, dr_approved_user := user, dr_approved_at := now\<rparr>)"
    let ?w = "w\<lparr>w_db := db', w_approved := (w_approved w)(did \<mapsto> grant_of r')\<rparr>"
    have r': "r' = ?new" using step_approve.hyps(5) 1 by (simp add: gomap_simps)
    have fresh: "w_approved w did = None"
      using inv(5) [of did _ cur] 1 by (cases "w_approved w did") auto
    have cur: "agrees w did cur" using inv(2) 1 by blast
    then have new: "row_ok ?new"
      by (intro apply_overrides_ok [OF step_approve.hyps(2)]) (simp add: agrees_def row_ok_def)
    have user: "dr_approved_user ?new = user" by (simp add: apply_overrides_def)
    have old: "agrees w k s \<Longrightarrow> agrees ?w k s" for k s
      using fresh by (auto simp: agrees_def)
    have dev: "map_of (db_devices db') = (map_of (db_devices (w_db w)))(did \<mapsto> ?new)"
      using 1 by (simp add: gomap_simps)
    show ?thesis
    proof (rule winvI)
      show "gomap_ok (db_devices (w_db ?w))" using 1 inv(1) by simp
      show "agrees ?w k s" if "map_of (db_devices (w_db ?w)) k = Some s" for k s
        using that old inv(2) [of k s] cur new r' by (auto simp: dev agrees_def split: if_splits)
      show "agrees ?w k s" if "(k, s) \<in> w_read ?w" for k s
        using that old inv(3) [of k s] by simp
      show "k \<in> w_used ?w \<and> grant_ok g" if "w_approved ?w k = Some g" for k g
        using that inv(4) [of k g] cur new user step_approve.hyps(3)
        by (auto simp: agrees_def grant_of_def row_ok_def r' split: if_splits)
      show "dr_status s \<notin> {st_pending, st_denied}"
        if "w_approved ?w k = Some g" "map_of (db_devices (w_db ?w)) k = Some s" for k g s
        using that inv(5) [of k g s] by (auto simp: dev split: if_splits)
      show "\<exists>g. w_approved ?w k = Some g \<and> minted_from add_days prow g"
        if "(k, pid, prow) \<in> set (w_minted ?w)" for k pid prow
        using that inv(6) [of k pid prow] fresh by auto
      show "dr_status s = st_consumed"
        if "(k, pid, prow) \<in> set (w_minted ?w)" "map_of (db_devices (w_db ?w)) k = Some s" for k pid prow s
        using that inv(6) [of k pid prow] inv(7) [of k pid prow s] fresh by (auto simp: dev split: if_splits)
      show "distinct (map fst (w_minted ?w))" using inv(8) by simp
    qed
  qed
qed

section \<open>The handlers take these steps\<close>

abbreviation wsteps :: "(instant \<Rightarrow> int \<Rightarrow> instant) \<Rightarrow> world \<Rightarrow> world \<Rightarrow> bool" where
  "wsteps add_days \<equiv> (wstep add_days)\<^sup>*\<^sup>*"

lemma winv_steps: "wsteps add_days w w' \<Longrightarrow> winv add_days w \<Longrightarrow> winv add_days w'"
  by (induction rule: rtranclp_induct) (auto intro: winv_step)

lemma find_device_Some:
  assumes "find_device P ok db = Some (did, r)"
  shows "(did, r) \<in> set (db_devices db) \<and> P r"
proof -
  have "find (\<lambda>kr. P (snd kr)) (db_devices db) = Some (did, r)"
    using assms by (simp add: find_device_def split: if_splits)
  then obtain i where "i < length (db_devices db)" "P (snd (db_devices db ! i))" "(did, r) = db_devices db ! i"
    unfolding find_Some_iff by blast
  then show ?thesis by (metis nth_mem snd_conv)
qed

text \<open>A request that reads a row may take any of its later steps from the widened state.\<close>

lemma read_then:
  fixes w :: world
  assumes "(did, r) \<in> set (db_devices (w_db w))"
    and "\<And>v. w_db v = w_db w \<Longrightarrow> (did, r) \<in> w_read v \<Longrightarrow> w_used v = w_used w \<Longrightarrow>
      \<exists>w'. wsteps add_days v w' \<and> w_db w' = db'"
  shows "\<exists>w'. wsteps add_days w w' \<and> w_db w' = db'"
proof -
  let ?v = "w\<lparr>w_read := insert (did, r) (w_read w)\<rparr>"
  have "wstep add_days w ?v" using assms(1) by (rule step_read)
  with assms(2) [of ?v] show ?thesis by (auto intro: converse_rtranclp_into_rtranclp)
qed

lemma one_step: "wstep add_days w w' \<Longrightarrow> w_db w' = db' \<Longrightarrow> \<exists>w'. wsteps add_days w w' \<and> w_db w' = db'"
  by blast

lemma mint_steps:
  fixes w :: world
  assumes "(did, r) \<in> w_read w"
    and "(token_decide now r :: poll_write \<times> (token_response device_reply + string)) = (pw, Inr user)"
  shows "\<exists>w'. wsteps add_days w w' \<and> w_db w' = snd (mint_tx add_days mt did r user (w_db w))"
proof (cases "mint_tx add_days mt did r user (w_db w)")
  case (Pair rep db')
  show ?thesis
  proof (cases "\<exists>resp. rep = Success resp")
    case True
    then obtain resp where m: "mint_tx add_days mt did r user (w_db w) = (Success resp, db')"
      using Pair by blast
    then obtain row where "map_of (db_pats db') (tr_pat_id resp) = Some row"
      by (rule mint_tx_Success) (simp add: gomap_simps)
    from one_step [OF step_mint [OF assms m this]] show ?thesis using m by simp
  next
    case False
    with mint_tx_other [OF Pair] Pair show ?thesis by auto
  qed
qed

lemma token_handler_steps:
  fixes w :: world
  shows "\<exists>w'. wsteps add_days w w' \<and>
     w_db w' = snd (token_handler sha add_days req find_ok now write_ok mt (w_db w))"
proof (cases "\<exists>dc did r. req = Inr dc \<and> dc \<noteq> [] \<and> find_device (\<lambda>r. dr_hash r = sha dc) find_ok (w_db w) = Some (did, r)")
  case False
  then have "snd (token_handler sha add_days req find_ok now write_ok mt (w_db w)) = w_db w"
    by (auto simp: token_handler_def split: sum.splits option.splits)
  then show ?thesis by auto
next
  case True
  then obtain dc did r where req: "req = Inr dc" "dc \<noteq> []"
    and found: "find_device (\<lambda>r. dr_hash r = sha dc) find_ok (w_db w) = Some (did, r)" by blast
  obtain pw v where dec: "(token_decide now r :: poll_write \<times> (token_response device_reply + string)) = (pw, v)"
    by force
  let ?db = "poll_write pw write_ok did now (w_db w)"
  show ?thesis
  proof (rule read_then [of did r])
    show "(did, r) \<in> set (db_devices (w_db w))" using find_device_Some [OF found] by simp
    fix u :: world assume u: "w_db u = w_db w" "(did, r) \<in> w_read u"
    then have poll: "wstep add_days u (u\<lparr>w_db := ?db\<rparr>)"
      using step_poll [OF u(2) dec, of add_days write_ok] by simp
    show "\<exists>w'. wsteps add_days u w' \<and>
        w_db w' = snd (token_handler sha add_days req find_ok now write_ok mt (w_db w))"
    proof (cases v)
      case (Inl rep)
      then show ?thesis using poll req found dec
        by (intro one_step [OF poll]) (simp add: token_handler_def)
    next
      case (Inr user)
      with dec have dec': "(token_decide now r :: poll_write \<times> (token_response device_reply + string)) = (pw, Inr user)"
        by simp
      obtain w' where "wsteps add_days (u\<lparr>w_db := ?db\<rparr>) w'"
        and "w_db w' = snd (mint_tx add_days mt did r user ?db)"
        using mint_steps [OF _ dec', of did "u\<lparr>w_db := ?db\<rparr>" add_days mt] u(2) by auto
      with poll req found dec' show ?thesis
        by (auto simp: token_handler_def intro: converse_rtranclp_into_rtranclp)
    qed
  qed
qed

lemma approve_handler_steps:
  fixes w :: world
  assumes "user \<noteq> Some []"
  shows "\<exists>w'. wsteps add_days w w' \<and>
     w_db w' = snd (approve_handler user req find_ok now write_ok update_ok (w_db w))"
proof (cases "\<exists>uid b canonical ov did r. user = Some uid \<and> req = Inr b \<and>
    normalize_user_code (ap_user_code b) = Inr canonical \<and> check_overrides b = Inr ov \<and>
    find_device (\<lambda>r. dr_user_code r = canonical) find_ok (w_db w) = Some (did, r)")
  case False
  then have "snd (approve_handler user req find_ok now write_ok update_ok (w_db w)) = w_db w"
    by (auto simp: approve_handler_def split: sum.splits option.splits)
  then show ?thesis by auto
next
  case True
  then obtain uid b canonical ov did r where req: "user = Some uid" "req = Inr b"
    "normalize_user_code (ap_user_code b) = Inr canonical" "check_overrides b = Inr ov"
    and found: "find_device (\<lambda>r. dr_user_code r = canonical) find_ok (w_db w) = Some (did, r)" by blast
  show ?thesis
  proof (rule read_then [of did r])
    show "(did, r) \<in> set (db_devices (w_db w))" using find_device_Some [OF found] by simp
    fix u :: world assume u: "w_db u = w_db w" "(did, r) \<in> w_read u"
    show "\<exists>w'. wsteps add_days u w' \<and>
        w_db w' = snd (approve_handler user req find_ok now write_ok update_ok (w_db w))"
    proof (cases "dr_expires r \<noteq> 0 \<and> dr_expires r < now")
      case True
      then show ?thesis
        using one_step [OF step_expire [OF u(2), of add_days write_ok]] u(1) req found
        by (simp add: approve_handler_def)
    next
      case alive: False
      obtain n db' where upd: "approve_update did uid now ov (w_db w) = (n, db')" by force
      show ?thesis
      proof (cases "update_ok \<and> n \<noteq> 0")
        case False
        have "n = 0 \<Longrightarrow> db' = w_db w"
          using upd by (auto simp: approve_update_def update_row_def split: option.splits if_splits)
        with False alive upd req found u(1) show ?thesis
          by (intro exI [of _ u]) (auto simp: approve_handler_def)
      next
        case True
        then obtain m where upd': "approve_update did uid now ov (w_db u) = (Suc m, db')"
          using upd u(1) by (metis not0_implies_Suc)
        moreover from this obtain r' where "map_of (db_devices db') did = Some r'"
          by (rule approve_update_Suc) (simp add: gomap_simps)
        ultimately show ?thesis
          using one_step [OF step_approve [OF u(2) req(4) _ upd', of r' add_days]] req found assms alive upd True
          by (auto simp: approve_handler_def)
      qed
    qed
  qed
qed

lemma deny_handler_steps:
  fixes w :: world
  shows "\<exists>w'. wsteps add_days w w' \<and> w_db w' = snd (deny_handler req find_ok update_ok (w_db w))"
proof (cases "\<exists>canonical did r. read_user_code_body req = Inr canonical \<and>
    find_device (\<lambda>r. dr_user_code r = canonical) find_ok (w_db w) = Some (did, r) \<and> update_ok")
  case False
  then have "snd (deny_handler req find_ok update_ok (w_db w)) = w_db w"
    by (auto simp: deny_handler_def split: sum.splits option.splits)
  then show ?thesis by auto
next
  case True
  then obtain canonical did r where req: "read_user_code_body req = Inr canonical" "update_ok"
    and found: "find_device (\<lambda>r. dr_user_code r = canonical) find_ok (w_db w) = Some (did, r)" by blast
  show ?thesis
  proof (rule read_then [of did r])
    show "(did, r) \<in> set (db_devices (w_db w))" using find_device_Some [OF found] by simp
    fix u :: world assume u: "w_db u = w_db w" "(did, r) \<in> w_read u"
    then show "\<exists>w'. wsteps add_days u w' \<and> w_db w' = snd (deny_handler req find_ok update_ok (w_db w))"
      using one_step [OF step_deny [OF u(2), of add_days]] req found
      by (auto simp: deny_handler_def split: prod.splits)
  qed
qed

lemma lookup_handler_steps:
  fixes w :: world
  shows "\<exists>w'. wsteps add_days w w' \<and> w_db w' = snd (lookup_handler raw find_ok now write_ok (w_db w))"
proof (cases "\<exists>canonical did r. normalize_user_code raw = Inr canonical \<and>
    find_device (\<lambda>r. dr_user_code r = canonical) find_ok (w_db w) = Some (did, r) \<and>
    dr_status r = st_pending \<and> dr_expires r \<noteq> 0 \<and> dr_expires r < now")
  case False
  then have "snd (lookup_handler raw find_ok now write_ok (w_db w)) = w_db w"
    by (auto simp: lookup_handler_def Let_def split: sum.splits option.splits)
  then show ?thesis by auto
next
  case True
  then obtain canonical did r where req: "normalize_user_code raw = Inr canonical"
    and dead: "dr_status r = st_pending" "dr_expires r \<noteq> 0" "dr_expires r < now"
    and found: "find_device (\<lambda>r. dr_user_code r = canonical) find_ok (w_db w) = Some (did, r)" by blast
  show ?thesis
  proof (rule read_then [of did r])
    show "(did, r) \<in> set (db_devices (w_db w))" using find_device_Some [OF found] by simp
    fix u :: world assume u: "w_db u = w_db w" "(did, r) \<in> w_read u"
    then show "\<exists>w'. wsteps add_days u w' \<and> w_db w' = snd (lookup_handler raw find_ok now write_ok (w_db w))"
      using one_step [OF step_expire [OF u(2), of add_days write_ok]] req dead found
      by (simp add: lookup_handler_def Let_def)
  qed
qed

lemma insert_loop_steps:
  fixes w :: world
  assumes "check_code_request b = None"
    and "list_all (\<lambda>(g, did, now, ok). did \<notin> w_used w) as"
  shows "\<exists>w'. wsteps add_days w w' \<and> w_db w' = snd (insert_loop sha b n as (w_db w))"
  using assms
proof (induction sha b n as "w_db w" rule: insert_loop.induct)
  case (4 sha b n dc uc did now ok as)
  then show ?case
  proof (cases "save_device ok did (new_device_row (sha dc) uc b now) (w_db w)")
    case (Saved db')
    show ?thesis
      using one_step [OF step_insert [OF _ _ Saved, of add_days]] Saved 4 by auto
  qed auto
qed auto

lemma code_handler_steps:
  fixes w :: world
  assumes "list_all (\<lambda>(g, did, now, ok). did \<notin> w_used w) as"
  shows "\<exists>w'. wsteps add_days w w' \<and> w_db w' = snd (code_handler sha req coll as hdr (w_db w))"
proof (cases req)
  case (Inl d)
  then show ?thesis by (auto simp: code_handler_def)
next
  case (Inr b0)
  define b where "b = b0\<lparr>pc_name := trim_space (pc_name b0)\<rparr>"
  show ?thesis
  proof (cases "check_code_request b = None \<and> coll")
    case False
    with Inr have "snd (code_handler sha req coll as hdr (w_db w)) = w_db w"
      by (auto simp: code_handler_def b_def [symmetric] split: option.splits)
    then show ?thesis by auto
  next
    case True
    with Inr have "snd (code_handler sha req coll as hdr (w_db w)) = snd (insert_loop sha b 3 as (w_db w))"
      by (auto simp: code_handler_def b_def [symmetric] Let_def split: prod.splits insert_result.splits)
    with insert_loop_steps [OF _ assms, of b add_days sha 3] True show ?thesis by simp
  qed
qed

section \<open>Properties\<close>

definition fresh_world :: "device_db \<Rightarrow> world" where
  "fresh_world db = \<lparr>w_db = db\<lparr>db_devices := []\<rparr>, w_read = {}, w_used = {}, w_approved = Map.empty, w_minted = []\<rparr>"

lemma winv_fresh: "winv add_days (fresh_world db)"
  by (simp add: winv_def fresh_world_def)

text \<open>C16: At most one token per device code, and only the one the user agreed to. However the
  statements of concurrent polls, approvals, denials and look-ups interleave, with every request
  acting on a row it may have read long before, each device code mints at most once, and each
  minted token is for a code that a signed-in user approved: it belongs to that user and has the
  name, description, scopes and lifetime that the approval recorded, with scopes of the public
  vocabulary and a lifetime of 1 to 365 days from its creation.\<close>

theorem device_mints_once:
  assumes "wsteps add_days (fresh_world db) w"
  shows "distinct (map fst (w_minted w)) \<and>
    (\<forall>did pid row. (did, pid, row) \<in> set (w_minted w) \<longrightarrow>
       (\<exists>user name desc sc days. w_approved w did = Some (user, name, desc, sc, days) \<and> user \<noteq> [] \<and>
          pt_user row = user \<and> pt_name row = name \<and> pt_description row = desc \<and>
          decode_scopes (pt_scopes row) = decode_scopes sc \<and> set (decode_scopes sc) \<subseteq> set all_scopes \<and>
          pt_expires row = add_days (pt_created row) days \<and> 1 \<le> days \<and> days \<le> 365))"
proof -
  have inv: "winv add_days w" using winv_steps [OF assms winv_fresh] .
  have "\<exists>user name desc sc days. w_approved w did = Some (user, name, desc, sc, days) \<and> user \<noteq> [] \<and>
          pt_user row = user \<and> pt_name row = name \<and> pt_description row = desc \<and>
          decode_scopes (pt_scopes row) = decode_scopes sc \<and> set (decode_scopes sc) \<subseteq> set all_scopes \<and>
          pt_expires row = add_days (pt_created row) days \<and> 1 \<le> days \<and> days \<le> 365"
    if m: "(did, pid, row) \<in> set (w_minted w)" for did pid row
  proof -
    obtain g where g: "w_approved w did = Some g" "minted_from add_days row g"
      using winvD(6) [OF inv m] by blast
    obtain user name desc sc days where "g = (user, name, desc, sc, days)" by (metis prod.exhaust)
    with g winvD(4) [OF inv g(1)] show ?thesis by auto
  qed
  with winvD(8) [OF inv] show ?thesis by blast
qed

lemma step_terminal:
  assumes "wstep add_days w w'" and "winv add_days w"
    and "map_of (db_devices (w_db w)) did = Some r" and "terminal r"
    and "map_of (db_devices (w_db w')) did = Some r'"
  shows "dr_status r' = dr_status r \<and> grant_of r' = grant_of r"
proof -
  have quiet: ?thesis if "rows_move quiet_edge (w_db w) (w_db w')"
    using rows_moveD [OF that assms(5)] assms(3,4) row_edge_terminal [OF re_quiet] by auto
  note inv = winvD [OF assms(2)]
  note writes = rows_move_writes [OF inv(1)]
  from assms(1) show ?thesis
  proof cases
    case (step_insert d b ok h uc now db')
    then have "d \<noteq> did" using inv(2) [OF assms(3)] by (auto simp: agrees_def)
    with step_insert save_device_Saved [OF step_insert(4)] assms(3,5) show ?thesis
      by (auto simp: gomap_simps)
  next
    case (step_mint d s now pw user mt resp db' row)
    from step_mint(4) show ?thesis
    proof (cases rule: mint_tx_Success)
      case (1 cur pl pre h)
      with step_mint assms(3,4,5) show ?thesis
        by (cases "d = did") (auto simp: terminal_def)
    qed
  next
    case (step_approve d s b ov user now n db' s')
    from step_approve(5) show ?thesis
    proof (cases rule: approve_update_Suc)
      case (1 cur)
      with step_approve assms(3,4,5) show ?thesis
        by (cases "d = did") (auto simp: terminal_def gomap_simps)
    qed
  next
    case (step_remove d)
    with assms(3,5) inv(1) show ?thesis by (cases "d = did") (auto simp: gomap_simps)
  next
    case (step_poll d s now pw v ok)
    then show ?thesis using writes(1) by (intro quiet) simp
  next
    case (step_expire d s ok)
    then show ?thesis using writes(2) by (intro quiet) simp
  next
    case (step_deny d s)
    then show ?thesis using writes(3) by (intro quiet) simp
  qed (use assms(3,5) in simp_all)
qed

lemma step_used: "wstep add_days w w' \<Longrightarrow> w_used w \<subseteq> w_used w'"
  by (induction rule: wstep.induct) auto

lemma step_gone:
  assumes "wstep add_days w w'" and "did \<in> w_used w" and "map_of (db_devices (w_db w)) did = None"
    and "gomap_ok (db_devices (w_db w))"
  shows "map_of (db_devices (w_db w')) did = None"
proof -
  have quiet: ?thesis if "rows_move quiet_edge (w_db w) (w_db w')"
    using that assms(3) by (auto simp: rows_move_def dest: spec [of _ did])
  note writes = rows_move_writes [OF assms(4)]
  from assms(1) show ?thesis
  proof cases
    case (step_insert d b ok h uc now db')
    with save_device_Saved [OF step_insert(4)] assms(2,3) show ?thesis by (auto simp: gomap_simps)
  next
    case (step_mint d s now pw user mt resp db' row)
    from step_mint(4) show ?thesis
      by (cases rule: mint_tx_Success) (use step_mint assms(3) in auto)
  next
    case (step_approve d s b ov user now n db' s')
    from step_approve(5) show ?thesis
      by (cases rule: approve_update_Suc) (use step_approve assms(3) in \<open>auto simp: gomap_simps\<close>)
  next
    case (step_poll d s now pw v ok)
    then show ?thesis using writes(1) by (intro quiet) simp
  next
    case (step_expire d s ok)
    then show ?thesis using writes(2) by (intro quiet) simp
  next
    case (step_deny d s)
    then show ?thesis using writes(3) by (intro quiet) simp
  next
    case (step_remove d)
    then show ?thesis using assms(3) by (simp add: gomap_simps)
  qed (use assms(3) in simp_all)
qed

text \<open>A decided request stays decided. Once a device code is consumed, denied or expired, no
  interleaving of later statements changes its status, its user or what it grants; at most the
  row disappears with its user.\<close>

theorem device_terminal_absorbing:
  assumes "wsteps add_days (fresh_world db) w" and "wsteps add_days w w'"
    and "map_of (db_devices (w_db w)) did = Some r" and "terminal r"
    and "map_of (db_devices (w_db w')) did = Some r'"
  shows "dr_status r' = dr_status r \<and> grant_of r' = grant_of r"
proof -
  have inv: "winv add_days w" using winv_steps [OF assms(1) winv_fresh] .
  then have used: "did \<in> w_used w" using winvD(2) [OF inv assms(3)] by (simp add: agrees_def)
  from assms(2) have "winv add_days w' \<and> did \<in> w_used w' \<and>
      (\<forall>r'. map_of (db_devices (w_db w')) did = Some r' \<longrightarrow>
         dr_status r' = dr_status r \<and> grant_of r' = grant_of r)"
  proof (induction rule: rtranclp_induct)
    case base
    then show ?case using inv used assms(3) by simp
  next
    case (step u v)
    then have u: "winv add_days u" "did \<in> w_used u" by blast+
    have "dr_status s' = dr_status r \<and> grant_of s' = grant_of r"
      if s': "map_of (db_devices (w_db v)) did = Some s'" for s'
    proof (cases "map_of (db_devices (w_db u)) did")
      case None
      then show ?thesis using step_gone [OF step.hyps(2) u(2) None winvD(1) [OF u(1)]] s' by simp
    next
      case (Some s)
      with step.IH have s: "dr_status s = dr_status r" "grant_of s = grant_of r" by blast+
      then have "terminal s" using assms(4) by (simp add: terminal_def)
      from step_terminal [OF step.hyps(2) u(1) Some this s'] s show ?thesis by simp
    qed
    then show ?case using winv_step [OF step.hyps(2) u(1)] step_used [OF step.hyps(2)] u(2) by blast
  qed
  with assms(5) show ?thesis by blast
qed

text \<open>A run of the flow, for the witnesses: a request, its approval, and the poll that mints.\<close>

definition sample_request :: pat_create_request where
  "sample_request = \<lparr>pc_name = ''cli'', pc_description = [], pc_days = 30, pc_scopes = [papers_read]\<rparr>"

definition sample_pending :: device_row where
  "sample_pending = new_device_row ''h'' ''AAAA-AAAA'' sample_request 1"

definition sample_approved :: device_row where
  "sample_approved = sample_pending\<lparr>dr_status := st_approved, dr_approved_user := ''u'', dr_approved_at := 2\<rparr>"

definition sample_mint :: mint_tx_env where
  "sample_mint = \<lparr>mt_update_ok = True, mt_mint = \<lparr>mi_generated = Inr (''qat_x'', ''qat_x'', ''hash''),
     mi_collection_ok = True, mi_now = 9, mi_id = ''p'', mi_save_ok = True\<rparr>, mt_link_ok = True, mt_commit_ok = True\<rparr>"

definition sample_empty :: device_db where
  "sample_empty = \<lparr>db_pats = [], db_users = Map.empty, db_devices = []\<rparr>"

lemmas sample_defs = sample_request_def sample_pending_def sample_approved_def sample_mint_def
  sample_empty_def new_device_row_def

lemma sample_run:
  "\<exists>w row. wsteps (\<lambda>t d. t + nat d) (fresh_world sample_empty) w \<and> w_minted w = [(''d'', ''p'', row)] \<and>
     (''d'', sample_approved) \<in> w_read w \<and>
     map_of (db_devices (w_db w)) ''d'' = Some (sample_approved\<lparr>dr_status := st_consumed, dr_pat := ''p''\<rparr>)"
proof -
  let ?s = "\<lambda>t d. t + nat d"
  let ?w0 = "fresh_world sample_empty"
  let ?w1 = "?w0\<lparr>w_db := (w_db ?w0)\<lparr>db_devices := [(''d'', sample_pending)]\<rparr>, w_used := insert ''d'' (w_used ?w0)\<rparr>"
  have v: "validate_scopes [papers_read] = None" by (simp add: validate_scopes_None all_scopes_def)
  have s1: "wstep ?s ?w0 ?w1"
    by (rule step_insert [where b = sample_request and ok = True and h = "''h''" and uc = "''AAAA-AAAA''" and now = 1])
       (simp_all add: fresh_world_def save_device_def check_code_request_def max_pat_expiry_days_def v sample_defs)
  let ?w2 = "?w1\<lparr>w_read := insert (''d'', sample_pending) (w_read ?w1)\<rparr>"
  have s2: "wstep ?s ?w1 ?w2" by (rule step_read) simp
  let ?w3 = "?w2\<lparr>w_db := (w_db ?w2)\<lparr>db_devices := [(''d'', sample_approved)]\<rparr>,
    w_approved := (w_approved ?w2)(''d'' \<mapsto> grant_of sample_approved)\<rparr>"
  have s3: "wstep ?s ?w2 ?w3"
    by (rule step_approve [where r = sample_pending and user = "''u''" and now = 2 and n = 0 and
          b = "\<lparr>ap_user_code = [], ap_name = None, ap_scopes = None, ap_days = None\<rparr>" and
          ov = "\<lparr>ov_name = None, ov_scopes = None, ov_days = None\<rparr>"])
       (simp_all add: check_overrides_def approve_update_def update_row_def apply_overrides_def sample_defs)
  let ?w4 = "?w3\<lparr>w_read := insert (''d'', sample_approved) (w_read ?w3)\<rparr>"
  have s4: "wstep ?s ?w3 ?w4" by (rule step_read) simp
  let ?row = "minted_row ?s (mt_mint sample_mint) sample_approved ''u'' ''qat_x'' ''hash''"
  let ?w5 = "?w4\<lparr>w_db := (w_db ?w4)\<lparr>db_pats := [(''p'', ?row)],
      db_devices := [(''d'', sample_approved\<lparr>dr_status := st_consumed, dr_pat := ''p''\<rparr>)]\<rparr>,
    w_minted := (''d'', ''p'', ?row) # w_minted ?w4\<rparr>"
  have s5: "wstep ?s ?w4 ?w5"
  proof -
    let ?resp = "\<lparr>tr_pat_id = ''p'', tr_name = ''cli'', tr_prefix = ''qat_x'', tr_plaintext = ''qat_x'',
        tr_scopes = [papers_read], tr_expires = 39\<rparr>"
    have "wstep ?s ?w4 (?w4\<lparr>w_db := w_db ?w5, w_minted := (''d'', tr_pat_id ?resp, ?row) # w_minted ?w4\<rparr>)"
      by (rule step_mint [where r = sample_approved and now = 9 and mt = sample_mint and user = "''u''" and pw = Write_Bump])
         (simp_all add: token_decide_def max_poll_count_def expires_in_seconds_def mint_tx_def update_row_def
            minted_row_def fresh_world_def sample_defs Let_def)
    then show ?thesis by simp
  qed
  have "wsteps ?s ?w0 ?w5"
    using s1 s2 s3 s4 s5 by (meson rtranclp.rtrancl_refl rtranclp.rtrancl_into_rtrancl)
  then show ?thesis by (intro exI [of _ ?w5] exI [of _ ?row]) (simp add: fresh_world_def)
qed

theorem device_mints_once_witness:
  "\<exists>(w :: world) row. w_minted w = [(''d'', ''p'', row)] \<and> distinct (map fst (w_minted w)) \<and> pt_user row \<noteq> []"
proof -
  obtain w row where w: "wsteps (\<lambda>t d. t + nat d) (fresh_world sample_empty) w" "w_minted w = [(''d'', ''p'', row)]"
    using sample_run by blast
  then have "(''d'', ''p'', row) \<in> set (w_minted w)" by simp
  then have "pt_user row \<noteq> []" "distinct (map fst (w_minted w))"
    using device_mints_once [OF w(1)] by blast+
  with w(2) show ?thesis by blast
qed

theorem device_terminal_absorbing_witness:
  "\<exists>(w :: world) r'. map_of (db_devices (mark_expired True ''d'' (w_db w))) ''d'' = Some r' \<and> dr_status r' = st_consumed"
proof -
  obtain w row where w: "wsteps (\<lambda>t d. t + nat d) (fresh_world sample_empty) w"
    "(''d'', sample_approved) \<in> w_read w"
    "map_of (db_devices (w_db w)) ''d'' = Some (sample_approved\<lparr>dr_status := st_consumed, dr_pat := ''p''\<rparr>)"
    using sample_run by blast
  let ?r = "sample_approved\<lparr>dr_status := st_consumed, dr_pat := ''p''\<rparr>"
  have t: "terminal ?r" by (simp add: terminal_def)
  have s: "wsteps (\<lambda>t d. t + nat d) w (w\<lparr>w_db := mark_expired True ''d'' (w_db w)\<rparr>)"
    using step_expire [OF w(2), of "\<lambda>t d. t + nat d" True] by blast
  obtain r' where r': "map_of (db_devices (mark_expired True ''d'' (w_db w))) ''d'' = Some r'"
    using w(3) by (auto simp: mark_expired_def update_row_simps)
  then have "dr_status r' = dr_status ?r"
    using device_terminal_absorbing [OF w(1) s w(3) t, of r'] by simp
  with r' show ?thesis by auto
qed

text \<open>C40: The handlers are runs of the interleaved machine. Each of the five endpoints, run without
  interruption, is a sequence of its steps, whatever the outcomes of its statements, so what holds
  of all interleavings holds of the handlers: the code handler when its attempts use fresh
  record ids, the approval of a signed-in user, and the other three always.\<close>

theorem device_handlers_refine:
  fixes w :: world
  assumes "list_all (\<lambda>(g, did, now, ok). did \<notin> w_used w) attempts" and "user \<noteq> Some []"
  shows "(\<exists>w'. wsteps add_days w w' \<and> w_db w' = snd (code_handler sha req coll attempts hdr (w_db w))) \<and>
    (\<exists>w'. wsteps add_days w w' \<and>
       w_db w' = snd (token_handler sha add_days treq find_ok now write_ok mt (w_db w))) \<and>
    (\<exists>w'. wsteps add_days w w' \<and> w_db w' = snd (lookup_handler raw find_ok now write_ok (w_db w))) \<and>
    (\<exists>w'. wsteps add_days w w' \<and>
       w_db w' = snd (approve_handler user areq find_ok now write_ok update_ok (w_db w))) \<and>
    (\<exists>w'. wsteps add_days w w' \<and> w_db w' = snd (deny_handler dreq find_ok update_ok (w_db w)))"
  using code_handler_steps [OF assms(1)] token_handler_steps lookup_handler_steps
    approve_handler_steps [OF assms(2)] deny_handler_steps
  by simp

theorem device_handlers_refine_witness:
  "\<exists>w'. wsteps (\<lambda>t d. t + nat d) (fresh_world sample_empty) w' \<and>
     w_db w' = snd (code_handler (\<lambda>s. s) (Inr sample_request) True [(Some (''dc'', ''AAAA-AAAA''), ''d'', 1, True)]
       \<lparr>oh_forwarded_origin = ''https://q'', oh_forwarded_proto = [], oh_forwarded_host = [],
        oh_host = [], oh_tls = True\<rparr> sample_empty)"
proof -
  have "list_all (\<lambda>(g, did, now, ok). did \<notin> w_used (fresh_world sample_empty))
      [(Some (''dc'', ''AAAA-AAAA''), ''d'', 1, True)]" "Some ''u'' \<noteq> Some []"
    by (simp_all add: fresh_world_def)
  note r = device_handlers_refine [OF this, of "\<lambda>t d. t + nat d" "\<lambda>s. s" "Inr sample_request" True]
  have "w_db (fresh_world sample_empty) = sample_empty" by (simp add: fresh_world_def sample_empty_def)
  with r show ?thesis by simp
qed

text \<open>An approved request does get its token. A poll with the right device code on an approved
  row that is neither past its lifetime nor past the poll cap, and that was not polled in the last
  4.5 seconds, answers with the freshly generated plaintext when the database accepts the
  transaction, and leaves a token row with the generated hash and a consumed device code.\<close>

theorem device_poll_delivers:
  assumes "dc \<noteq> []" and "find_device (\<lambda>r. dr_hash r = sha dc) True db = Some (did, r)"
    and "gomap_ok (db_devices db)"
    and "dr_status r = st_approved" and "dr_approved_user r \<noteq> []"
    and "dr_poll_count r < 150" and "now \<le> dr_expires r"
    and "dr_last_polled r \<noteq> 0 \<longrightarrow> int (dr_last_polled r) + 4500000000 \<le> int now"
    and "mt_update_ok mt" "mt_link_ok mt" "mt_commit_ok mt"
    and "mi_collection_ok (mt_mint mt)" "mi_save_ok (mt_mint mt)"
    and "mi_generated (mt_mint mt) = Inr (plaintext, pre, h)"
  shows "\<exists>resp db' row r'. token_handler sha add_days (Inr dc) True now write_ok mt db = (Success resp, db') \<and>
    tr_plaintext resp = plaintext \<and> tr_scopes resp = decode_scopes (dr_scopes r) \<and>
    map_of (db_pats db') (tr_pat_id resp) = Some row \<and> pt_hash row = h \<and> pt_user row = dr_approved_user r \<and>
    map_of (db_devices db') did = Some r' \<and> dr_status r' = st_consumed"
proof -
  have dec: "(token_decide now r :: poll_write \<times> (token_response device_reply + string))
      = (Write_Bump, Inr (dr_approved_user r))"
    using assms by (auto simp: token_decide_def max_poll_count_def poll_interval_seconds_def)
  have cur: "map_of (db_devices db) did = Some r"
    using find_device_Some [OF assms(2)] assms(3) by (simp add: gomap_set_iff)
  let ?db = "bump_poll write_ok did now db"
  obtain r1 where r1: "map_of (db_devices ?db) did = Some r1" "dr_status r1 = st_approved"
    using cur assms(4) by (cases write_ok) (auto simp: bump_poll_def update_row_simps)
  let ?row = "minted_row add_days (mt_mint mt) r (dr_approved_user r) pre h"
  have "token_handler sha add_days (Inr dc) True now write_ok mt db
      = mint_tx add_days mt did r (dr_approved_user r) ?db"
    using assms(1,2) dec by (simp add: token_handler_def poll_write_def)
  also have "\<dots> = (Success \<lparr>tr_pat_id = mi_id (mt_mint mt), tr_name = dr_name r, tr_prefix = pre,
        tr_plaintext = plaintext, tr_scopes = decode_scopes (dr_scopes r), tr_expires = pt_expires ?row\<rparr>,
      snd (mint_tx add_days mt did r (dr_approved_user r) ?db))"
    using assms r1 by (simp add: mint_tx_def update_row_simps Let_def)
  finally have h: "token_handler sha add_days (Inr dc) True now write_ok mt db
      = (Success \<lparr>tr_pat_id = mi_id (mt_mint mt), tr_name = dr_name r, tr_prefix = pre,
          tr_plaintext = plaintext, tr_scopes = decode_scopes (dr_scopes r), tr_expires = pt_expires ?row\<rparr>,
        snd (mint_tx add_days mt did r (dr_approved_user r) ?db))" .
  have "map_of (db_pats (snd (mint_tx add_days mt did r (dr_approved_user r) ?db))) (mi_id (mt_mint mt)) = Some ?row"
    "map_of (db_devices (snd (mint_tx add_days mt did r (dr_approved_user r) ?db))) did
       = Some (r1\<lparr>dr_status := st_consumed, dr_pat := mi_id (mt_mint mt)\<rparr>)"
    using assms r1 by (simp_all add: mint_tx_def update_row_simps Let_def)
  with h show ?thesis by (simp add: minted_row_def)
qed

theorem device_poll_delivers_witness:
  "\<exists>resp db'. token_handler (\<lambda>s. s) (\<lambda>t d. t + nat d) (Inr ''h'') True 9 True sample_mint
     (sample_empty\<lparr>db_devices := [(''d'', sample_approved)]\<rparr>) = (Success resp, db') \<and> tr_plaintext resp = ''qat_x''"
proof -
  let ?db = "sample_empty\<lparr>db_devices := [(''d'', sample_approved)]\<rparr>"
  have "find_device (\<lambda>r. dr_hash r = (\<lambda>s. s) ''h'') True ?db = Some (''d'', sample_approved)"
    by (simp add: find_device_def sample_defs)
  then show ?thesis
    using device_poll_delivers [of "''h''" "\<lambda>s. s" ?db "''d''" sample_approved 9 sample_mint "''qat_x''" "''qat_x''" "''hash''" "\<lambda>t d. t + nat d" True]
    by (auto simp: sample_defs gomap_ok_def expires_in_seconds_def)
qed

end
