(* ===== verification/Mineru_Errors.thy ===== *)
theory Mineru_Errors
  imports Prelude
begin

text \<open>
  The classification of MinerU failures (\<open>internal/mineru/errors.go\<close>) and its two consumers: the
  cooldown a failed conversion gets (\<open>classifyFailure\<close> in \<open>converter.go\<close>) and the test for
  deployment-wide token errors (\<open>isTokenError\<close> in \<open>scheduler.go\<close>). Text outside ASCII is written
  as its UTF-8 bytes; the lower-casing of such text is the parameter \<open>ul\<close>.
\<close>

section \<open>Errors\<close>

datatype err_kind = Retryable | Daily_Limit | Fatal

record mineru_error =
  er_msg :: string
  er_code :: string
  er_status :: int
  er_kind :: "err_kind option"

text \<open>
  The errors a conversion can end with, as chains: a sentinel, an API error, the missing DOI
  source, the error of a finished context, any other error, and a wrapped error.
\<close>

datatype go_error =
    Sentinel err_kind | Api mineru_error | No_DOI_Source | Ctx_Error | Other_Error string
  | Wrapped string go_error

fun is_kind :: "err_kind \<Rightarrow> go_error \<Rightarrow> bool" where
  "is_kind k (Sentinel k') = (k = k')"
| "is_kind k (Api e) = (er_kind e = Some k)"
| "is_kind k No_DOI_Source = False"
| "is_kind k Ctx_Error = False"
| "is_kind k (Other_Error s) = False"
| "is_kind k (Wrapped s e) = is_kind k e"

fun is_no_doi_source :: "go_error \<Rightarrow> bool" where
  "is_no_doi_source No_DOI_Source = True"
| "is_no_doi_source (Wrapped s e) = is_no_doi_source e"
| "is_no_doi_source _ = False"

fun as_api_error :: "go_error \<Rightarrow> mineru_error option" where
  "as_api_error (Api e) = Some e"
| "as_api_error (Wrapped s e) = as_api_error e"
| "as_api_error _ = None"

text \<open>\<open>Error.Error\<close>: the present parts, separated by blanks.\<close>

fun join_blank :: "string list \<Rightarrow> string" where
  "join_blank [] = []"
| "join_blank [p] = p"
| "join_blank (p # q # ps) = p @ '' '' @ join_blank (q # ps)"

definition error_text :: "mineru_error \<Rightarrow> string" where
  "error_text e =
     join_blank ([''mineru:''] @
       (if er_status e \<noteq> 0 then [''HTTP '' @ format_d (er_status e)] else []) @
       (if er_code e \<noteq> [] then [''code '' @ er_code e] else []) @
       (if er_msg e \<noteq> [] then [er_msg e] else []))"

section \<open>Tables\<close>

definition retryable_error_codes :: "int list" where
  "retryable_error_codes = [- 10001, - 60001, - 60007, - 60008, - 60009, - 60010, - 60020, - 60021, - 60022]"

definition daily_limit_error_codes :: "int list" where
  "daily_limit_error_codes = [- 60018, - 60019]"

definition fatal_error_codes :: "(string \<times> string) list" where
  "fatal_error_codes =
     [(''A0202'', ''Token '' @ bytes [233, 148, 153, 232, 175, 175, 239, 188, 140, 232, 175, 183, 230,
          163, 128, 230, 159, 165] @ '' Token '' @ bytes [230, 152, 175, 229, 144, 166, 230,
          173, 163, 231, 161, 174, 239, 188, 140, 230, 152, 175, 229, 144, 166, 232, 175, 175,
          229, 184, 166] @ '' Bearer '' @ bytes [229, 137, 141, 231, 188, 128, 239, 188, 140,
          230, 136, 150, 230, 155, 180, 230, 141, 162, 230, 150, 176] @ '' Token''),
      (''A0211'', ''Token '' @ bytes [232, 191, 135, 230, 156, 159, 239, 188, 140, 232, 175, 183, 230,
          155, 180, 230, 141, 162, 230, 150, 176] @ '' Token''),
      (''-500'', bytes [228, 188, 160, 229, 143, 130, 233, 148, 153, 232, 175, 175, 239, 188, 140, 232,
          175, 183, 230, 163, 128, 230, 159, 165, 229, 143, 130, 230, 149, 176, 231, 177, 187,
          229, 158, 139, 229, 146, 140] @ '' Content-Type''),
      (''-10002'', bytes [232, 175, 183, 230, 177, 130, 229, 143, 130, 230, 149, 176, 233, 148, 153, 232,
          175, 175, 239, 188, 140, 232, 175, 183, 230, 163, 128, 230, 159, 165, 232, 175, 183,
          230, 177, 130, 229, 143, 130, 230, 149, 176, 230, 160, 188, 229, 188, 143]),
      (''-60002'', bytes [230, 150, 135, 228, 187, 182, 230, 160, 188, 229, 188, 143, 232, 175, 134, 229,
          136, 171, 229, 164, 177, 232, 180, 165, 239, 188, 140, 232, 175, 183, 231, 161, 174,
          232, 174, 164, 230, 150, 135, 228, 187, 182, 229, 144, 141, 229, 146, 140, 233, 147,
          190, 230, 142, 165, 229, 144, 142, 231, 188, 128, 230, 173, 163, 231, 161, 174, 239,
          188, 140, 228, 184, 148, 231, 177, 187, 229, 158, 139, 229, 143, 151, 230, 148, 175,
          230, 140, 129]),
      (''-60003'', bytes [230, 150, 135, 228, 187, 182, 232, 175, 187, 229, 143, 150, 229, 164, 177, 232,
          180, 165, 239, 188, 140, 232, 175, 183, 230, 163, 128, 230, 159, 165, 230, 150, 135,
          228, 187, 182, 230, 152, 175, 229, 144, 166, 230, 141, 159, 229, 157, 143]),
      (''-60004'', bytes [230, 150, 135, 228, 187, 182, 228, 184, 186, 231, 169, 186, 239, 188, 140, 232,
          175, 183, 228, 184, 138, 228, 188, 160, 230, 156, 137, 230, 149, 136, 230, 150, 135,
          228, 187, 182]),
      (''-60005'', bytes [230, 150, 135, 228, 187, 182, 229, 164, 167, 229, 176, 143, 232, 182, 133, 229,
          135, 186, 233, 153, 144, 229, 136, 182, 239, 188, 140, 230, 156, 128, 229, 164, 167,
          230, 148, 175, 230, 140, 129] @ '' 200MB''),
      (''-60006'', bytes [230, 150, 135, 228, 187, 182, 233, 161, 181, 230, 149, 176, 232, 182, 133, 232,
          191, 135, 233, 153, 144, 229, 136, 182, 239, 188, 136, 230, 156, 128, 229, 164, 154]
          @ '' 200 '' @ bytes [233, 161, 181, 239, 188, 137, 239, 188, 140, 232, 175, 183, 230,
          139, 134, 229, 136, 134, 230, 150, 135, 228, 187, 182, 229, 144, 142, 233, 135, 141,
          232, 175, 149]),
      (''-60011'', bytes [232, 142, 183, 229, 143, 150, 230, 156, 137, 230, 149, 136, 230, 150, 135, 228,
          187, 182, 229, 164, 177, 232, 180, 165, 239, 188, 140, 232, 175, 183, 231, 161, 174,
          232, 174, 164, 230, 150, 135, 228, 187, 182, 229, 183, 178, 228, 184, 138, 228, 188,
          160]),
      (''-60012'', bytes [230, 137, 190, 228, 184, 141, 229, 136, 176, 228, 187, 187, 229, 138, 161, 239,
          188, 140, 232, 175, 183, 231, 161, 174, 232, 174, 164] @ '' batch_id/task_id '' @
          bytes [230, 156, 137, 230, 149, 136]),
      (''-60013'', bytes [230, 178, 161, 230, 156, 137, 230, 157, 131, 233, 153, 144, 232, 174, 191, 233,
          151, 174, 232, 175, 165, 228, 187, 187, 229, 138, 161, 239, 188, 140, 229, 143, 170,
          232, 131, 189, 232, 174, 191, 233, 151, 174, 232, 135, 170, 229, 183, 177, 230, 143,
          144, 228, 186, 164, 231, 154, 132, 228, 187, 187, 229, 138, 161]),
      (''-60014'', bytes [232, 191, 144, 232, 161, 140, 228, 184, 173, 231, 154, 132, 228, 187, 187, 229,
          138, 161, 230, 154, 130, 228, 184, 141, 230, 148, 175, 230, 140, 129, 229, 136, 160,
          233, 153, 164]),
      (''-60015'', bytes [230, 150, 135, 228, 187, 182, 232, 189, 172, 230, 141, 162, 229, 164, 177, 232,
          180, 165, 239, 188, 140, 229, 143, 175, 228, 187, 165, 229, 176, 157, 232, 175, 149,
          230, 137, 139, 229, 138, 168, 232, 189, 172, 228, 184, 186] @ '' PDF '' @ bytes [229,
          144, 142, 229, 134, 141, 228, 184, 138, 228, 188, 160]),
      (''-60016'', bytes [230, 150, 135, 228, 187, 182, 232, 189, 172, 230, 141, 162, 228, 184, 186, 230,
          140, 135, 229, 174, 154, 230, 160, 188, 229, 188, 143, 229, 164, 177, 232, 180, 165,
          239, 188, 140, 229, 143, 175, 228, 187, 165, 229, 176, 157, 232, 175, 149, 229, 133,
          182, 228, 187, 150, 230, 160, 188, 229, 188, 143, 229, 175, 188, 229, 135, 186, 230,
          136, 150, 233, 135, 141, 232, 175, 149]),
      (''-60017'', bytes [233, 135, 141, 232, 175, 149, 230, 172, 161, 230, 149, 176, 232, 190, 190, 229,
          136, 176, 228, 184, 138, 233, 153, 144, 239, 188, 140, 229, 189, 147, 229, 137, 141,
          228, 187, 187, 229, 138, 161, 228, 184, 141, 229, 134, 141, 231, 187, 167, 231, 187,
          173, 233, 135, 141, 232, 175, 149])]"

definition daily_limit_keywords :: "string list" where
  "daily_limit_keywords =
     [''quota'', ''5000'', ''restricted'', ''tomorrow'', ''next day'', ''daily'', ''today'',
        bytes [233, 162, 157, 229, 186, 166], bytes [228, 184, 138, 233, 153, 144], bytes [230,
        172, 161, 230, 151, 165], bytes [230, 152, 142, 230, 151, 165], bytes [230, 152, 142,
        229, 164, 169]]"

definition fatal_free_text_patterns :: "string list" where
  "fatal_free_text_patterns =
     [''number of pages exceeds'', ''exceeds limit (200 pages)'', ''exceeds the page limit'', ''exceeds page limit'', ''split the file'', bytes [233, 161, 181, 230, 149, 176, 232, 182, 133, 232, 191, 135], bytes [233, 161, 181, 230, 149, 176, 232, 182, 133, 229, 135, 186], bytes [233, 161, 181, 230, 149, 176, 229, 183, 178, 232, 182, 133], ''file size exceeds'', ''exceeds 200mb'',
        ''exceeds 200 mb'', bytes [230, 150, 135, 228, 187, 182, 229, 164, 167, 229, 176, 143, 232, 182, 133, 229, 135, 186], bytes [230, 150, 135, 228, 187, 182, 229, 164, 167, 229, 176, 143, 232, 182, 133, 232, 191, 135], bytes [230, 150, 135, 228, 187, 182, 232, 191, 135, 229, 164, 167]]"

section \<open>Classification\<close>

definition has_keyword :: "string list \<Rightarrow> string \<Rightarrow> bool" where
  "has_keyword kws low \<longleftrightarrow> list_ex (\<lambda>kw. contains low kw) kws"

definition has_daily_limit_keyword_lower :: "string \<Rightarrow> bool" where
  "has_daily_limit_keyword_lower low \<longleftrightarrow> has_keyword daily_limit_keywords low"

definition has_daily_limit_keyword :: "(string \<Rightarrow> string) \<Rightarrow> string \<Rightarrow> bool" where
  "has_daily_limit_keyword ul msg \<longleftrightarrow>
     (if msg = [] then False else has_daily_limit_keyword_lower (to_lower ul msg))"

definition has_fatal_free_text :: "string \<Rightarrow> bool" where
  "has_fatal_free_text low \<longleftrightarrow> has_keyword fatal_free_text_patterns low"

definition numeric_in :: "int list \<Rightarrow> string \<Rightarrow> bool" where
  "numeric_in table code \<longleftrightarrow> (case atoi code of None \<Rightarrow> False | Some n \<Rightarrow> n \<in> set table)"

definition classify_api_error :: "(string \<Rightarrow> string) \<Rightarrow> string \<Rightarrow> string \<Rightarrow> int \<Rightarrow> mineru_error" where
  "classify_api_error ul code msg status =
     (let e = \<lparr>er_msg = msg, er_code = code, er_status = status, er_kind = None\<rparr> in
      if status = 429
      then e\<lparr>er_kind := Some Daily_Limit,
             er_msg := (if msg = [] then ''HTTP 429: throttled'' else msg)\<rparr>
      else if code \<noteq> [] \<and> numeric_in daily_limit_error_codes code then e\<lparr>er_kind := Some Daily_Limit\<rparr>
      else if code \<noteq> [] \<and> numeric_in retryable_error_codes code then e\<lparr>er_kind := Some Retryable\<rparr>
      else case (if code \<noteq> [] then map_of fatal_error_codes code else None) of
        Some hint \<Rightarrow>
          e\<lparr>er_kind := Some Fatal,
            er_msg := (if msg = [] then hint else msg @ '' ('' @ hint @ '')'')\<rparr>
      | None \<Rightarrow>
          if status = 401 \<or> status = 403
          then e\<lparr>er_kind := Some Fatal,
                 er_msg := (if msg = [] then ''HTTP '' @ format_d status @ '': authentication failed'' else msg)\<rparr>
          else if msg \<noteq> [] \<and> has_fatal_free_text (to_lower ul msg) then e\<lparr>er_kind := Some Fatal\<rparr>
          else if msg \<noteq> [] \<and> has_daily_limit_keyword_lower (to_lower ul msg)
          then e\<lparr>er_kind := Some Daily_Limit\<rparr>
          else if 500 \<le> status \<or> status = 408
          then e\<lparr>er_kind := Some Retryable,
                 er_msg := (if msg = [] then ''HTTP '' @ format_d status @ '': transient transport error'' else msg)\<rparr>
          else e)"

definition is_token_error :: "go_error \<Rightarrow> bool" where
  "is_token_error err =
     (case as_api_error err of
        None \<Rightarrow> False
      | Some me \<Rightarrow>
          if er_status me = 401 \<or> er_status me = 403 then True
          else er_code me = ''A0202'' \<or> er_code me = ''A0211'')"

section \<open>Cooldowns\<close>

definition failure_cooldown :: nat where "failure_cooldown = 60 * second"

text \<open>
  \<open>nextLocalDailyReset\<close>: \<open>midnight now\<close> is the local midnight that starts the day of \<open>now\<close>
  (\<open>time.Date\<close> of its calendar day), the reset is one minute later, today or 24 hours on.
\<close>

definition next_local_daily_reset :: "(instant \<Rightarrow> instant) \<Rightarrow> instant \<Rightarrow> instant" where
  "next_local_daily_reset midnight now =
     (let reset = midnight now + 60 * second in
      if \<not> now < reset then reset + 24 * 3600 * second else reset)"

record failure_counters =
  fc_fatal :: nat
  fc_retryable :: nat
  fc_daily :: nat

definition classify_failure :: "(instant \<Rightarrow> instant) \<Rightarrow> instant \<Rightarrow> go_error \<Rightarrow> failure_counters
    \<Rightarrow> (err_kind \<times> instant) \<times> failure_counters" where
  "classify_failure reset_at now err fc =
     (if is_kind Daily_Limit err then ((Daily_Limit, reset_at now), fc\<lparr>fc_daily := fc_daily fc + 1\<rparr>)
      else if is_no_doi_source err
      then ((Fatal, now + failure_cooldown), fc\<lparr>fc_fatal := fc_fatal fc + 1\<rparr>)
      else if is_kind Fatal err then ((Fatal, now + failure_cooldown), fc\<lparr>fc_fatal := fc_fatal fc + 1\<rparr>)
      else if is_kind Retryable err
      then ((Retryable, now + failure_cooldown), fc\<lparr>fc_retryable := fc_retryable fc + 1\<rparr>)
      else ((Retryable, now + failure_cooldown), fc\<lparr>fc_retryable := fc_retryable fc + 1\<rparr>))"

definition kind_label :: "err_kind option \<Rightarrow> string" where
  "kind_label k =
     (case k of
        Some Fatal \<Rightarrow> ''fatal''
      | Some Retryable \<Rightarrow> ''retryable''
      | Some Daily_Limit \<Rightarrow> ''daily_limit''
      | None \<Rightarrow> ''unknown'')"

section \<open>Properties of the classification\<close>

text \<open>The three code tables are disjoint, so their order in the source does not matter.\<close>

lemma fatal_code_list:
  "map fst fatal_error_codes =
     [''A0202'', ''A0211'', ''-500'', ''-10002'', ''-60002'', ''-60003'', ''-60004'', ''-60005'', ''-60006'',
      ''-60011'', ''-60012'', ''-60013'', ''-60014'', ''-60015'', ''-60016'', ''-60017'']"
  by (simp add: fatal_error_codes_def)

lemma tables_disjoint:
  "list_all (\<lambda>c. \<not> numeric_in daily_limit_error_codes c \<and> \<not> numeric_in retryable_error_codes c)
     (map fst fatal_error_codes)"
  "list_all (\<lambda>n. n \<notin> set retryable_error_codes) daily_limit_error_codes"
  unfolding fatal_code_list
  by (simp_all add: numeric_in_def atoi_def is_digit_def digits_value_def Let_def
    retryable_error_codes_def daily_limit_error_codes_def)

text \<open>A code that one of the tables knows.\<close>

definition known_code :: "string \<Rightarrow> bool" where
  "known_code code \<longleftrightarrow> code \<noteq> [] \<and>
     (numeric_in daily_limit_error_codes code \<or> numeric_in retryable_error_codes code \<or>
      map_of fatal_error_codes code \<noteq> None)"

lemma daily_table_only:
  "numeric_in daily_limit_error_codes code \<Longrightarrow> \<not> numeric_in retryable_error_codes code"
  "numeric_in daily_limit_error_codes code \<Longrightarrow> map_of fatal_error_codes code = None"
  "numeric_in retryable_error_codes code \<Longrightarrow> map_of fatal_error_codes code = None"
proof -
  show "numeric_in daily_limit_error_codes code \<Longrightarrow> \<not> numeric_in retryable_error_codes code"
    using tables_disjoint(2) by (auto simp: numeric_in_def list_all_iff split: option.splits)
  have "map_of fatal_error_codes code = Some hint \<Longrightarrow>
      \<not> numeric_in daily_limit_error_codes code \<and> \<not> numeric_in retryable_error_codes code" for hint
    using tables_disjoint(1) map_of_SomeD [of fatal_error_codes code hint]
    by (fastforce simp: list_all_iff)
  then show "numeric_in daily_limit_error_codes code \<Longrightarrow> map_of fatal_error_codes code = None"
    "numeric_in retryable_error_codes code \<Longrightarrow> map_of fatal_error_codes code = None"
    by (cases "map_of fatal_error_codes code"; simp)+
qed

text \<open>A failure stops the pool until the next reset in exactly these cases: the server throttles
  with status 429, it sends a quota code, or it sends no code the tables know, the status is no
  authentication failure, and the message has a quota word and none of the phrases of an oversized
  document. So an oversized paper is never taken for an exhausted quota unless the server says 429
  or a quota code.\<close>

theorem classify_daily_iff:
  "er_kind (classify_api_error ul code msg status) = Some Daily_Limit \<longleftrightarrow>
     status = 429 \<or> (code \<noteq> [] \<and> numeric_in daily_limit_error_codes code) \<or>
     (\<not> known_code code \<and> status \<notin> {401, 403} \<and> msg \<noteq> [] \<and>
      \<not> has_fatal_free_text (to_lower ul msg) \<and> has_daily_limit_keyword_lower (to_lower ul msg))"
  using daily_table_only [of code]
  by (auto simp: classify_api_error_def known_code_def Let_def split: option.splits)

text \<open>Classification and its consumers agree. An API error that is a token error by status or code
  is fatal unless the server throttles; a document the message calls oversized is fatal when no
  known code says otherwise; and a classified failure cools down until the daily reset exactly for
  the quota kind and for one minute otherwise, always with one counter increased by one.\<close>

theorem classify_consumers:
  defines "e \<equiv> \<lambda>ul code msg status. classify_api_error ul code msg status"
  shows "(is_token_error (Api (e ul code msg status)) \<and> status \<noteq> 429 \<and> \<not> numeric_in daily_limit_error_codes code \<and>
            \<not> numeric_in retryable_error_codes code \<longrightarrow> er_kind (e ul code msg status) = Some Fatal) \<and>
    (\<not> known_code code \<and> status \<noteq> 429 \<and> msg \<noteq> [] \<and> has_fatal_free_text (to_lower ul msg) \<longrightarrow>
       er_kind (e ul code msg status) = Some Fatal) \<and>
    snd (fst (classify_failure reset_at now err fc)) =
      (if is_kind Daily_Limit err then reset_at now else now + 60 * second) \<and>
    (fst (fst (classify_failure reset_at now err fc)) = Daily_Limit \<longleftrightarrow> is_kind Daily_Limit err) \<and>
    fc_fatal (snd (classify_failure reset_at now err fc)) + fc_retryable (snd (classify_failure reset_at now err fc)) +
      fc_daily (snd (classify_failure reset_at now err fc)) = fc_fatal fc + fc_retryable fc + fc_daily fc + 1"
proof -
  have hints: "map_of fatal_error_codes ''A0202'' \<noteq> None" "map_of fatal_error_codes ''A0211'' \<noteq> None"
    by (simp_all add: fatal_error_codes_def)
  have code: "er_code (e ul code msg status) = code" "er_status (e ul code msg status) = status"
    by (simp_all add: e_def classify_api_error_def Let_def split: option.splits)
  have "er_kind (e ul code msg status) = Some Fatal"
    if "is_token_error (Api (e ul code msg status))" "status \<noteq> 429"
      "\<not> numeric_in daily_limit_error_codes code" "\<not> numeric_in retryable_error_codes code"
    using that hints code
    by (auto simp: is_token_error_def e_def classify_api_error_def Let_def split: if_splits option.splits)
  moreover have "er_kind (e ul code msg status) = Some Fatal"
    if "\<not> known_code code" "status \<noteq> 429" "msg \<noteq> []" "has_fatal_free_text (to_lower ul msg)"
    using that by (auto simp: e_def classify_api_error_def known_code_def Let_def split: option.splits)
  ultimately show ?thesis
    by (auto simp: classify_failure_def failure_cooldown_def)
qed

theorem classify_consumers_witness:
  "er_kind (classify_api_error (\<lambda>s. s) [] ''number of pages exceeds limit (200 pages), daily'' 0) = Some Fatal \<and>
   er_kind (classify_api_error (\<lambda>s. s) ''A0202'' [] 200) = Some Fatal"
proof -
  let ?msg = "''number of pages exceeds limit (200 pages), daily''"
  have "\<not> known_code []" by (simp add: known_code_def)
  moreover have "to_lower (\<lambda>s. s) ?msg = ?msg"
    by (simp add: to_lower_def is_ascii_def ascii_lower_def is_upper_def)
  moreover have "contains ?msg ''number of pages exceeds''" by simp
  then have "has_fatal_free_text ?msg"
    by (simp add: has_fatal_free_text_def has_keyword_def fatal_free_text_patterns_def)
  moreover have "\<not> numeric_in daily_limit_error_codes ''A0202'' \<and> \<not> numeric_in retryable_error_codes ''A0202''"
    by (simp add: numeric_in_def atoi_def is_digit_def digits_value_def Let_def
    retryable_error_codes_def daily_limit_error_codes_def)
  moreover have "er_code (classify_api_error (\<lambda>s. s) ''A0202'' [] 200) = ''A0202''"
    by (simp add: classify_api_error_def Let_def split: option.split)
  then have "is_token_error (Api (classify_api_error (\<lambda>s. s) ''A0202'' [] 200))"
    by (simp add: is_token_error_def)
  ultimately show ?thesis
    using classify_consumers [of "\<lambda>s. s" "[]" ?msg 0]
      classify_consumers [of "\<lambda>s. s" "''A0202''" "[]" 200] by simp
qed

text \<open>The daily reset lies in the future, at most a day and a minute ahead of the day's start.\<close>

lemma next_reset_future:
  assumes "midnight now \<le> now" and "now < midnight now + 24 * 3600 * second"
  shows "now < next_local_daily_reset midnight now \<and>
    next_local_daily_reset midnight now \<le> now + 24 * 3600 * second"
  using assms by (simp add: next_local_daily_reset_def Let_def)

end
