(* ===== verification/Key_Ring.thy ===== *)
theory Key_Ring
  imports Mineru_Errors
begin

text \<open>
  The pool of MinerU API tokens (\<open>internal/mineru/keyring.go\<close>): round-robin acquisition,
  per-key daily cooldowns, rotation of the pool at run time; and the loop of
  \<open>Converter.convertSource\<close> (\<open>source.go\<close>) that walks the pool until a key is left with quota.
  Every method runs under the ring's mutex, so each is one step here; \<open>now\<close> is the reading of
  the ring's clock. The methods answer a nil receiver with a zero result; the converter always
  holds a ring (\<open>NewConverter\<close>), so the receiver is a ring here.
\<close>

section \<open>The ring\<close>

record client =
  cl_token :: string
  cl_base :: string

definition trim_right :: "char \<Rightarrow> string \<Rightarrow> string" where
  "trim_right c s = rev (dropWhile (\<lambda>x. x = c) (rev s))"

definition new_client :: "string \<Rightarrow> string \<Rightarrow> client" where
  "new_client token base_url =
     \<lparr>cl_token = token,
      cl_base = trim_right CHR ''/'' (if base_url = [] then ''https://mineru.net'' else base_url)\<rparr>"

record ring_entry =
  re_token :: string
  re_rotated :: instant
  re_client :: client
  re_cooldown :: instant

record token_entry =
  te_token :: string
  te_rotated :: instant

record key_ring =
  kr_base :: string
  kr_entries :: "ring_entry list"
  kr_cursor :: nat

definition token_entries_from_strings :: "string list \<Rightarrow> token_entry list" where
  "token_entries_from_strings tokens =
     map (\<lambda>tok. \<lparr>te_token = tok, te_rotated = 0\<rparr>) (filter (\<lambda>tok. tok \<noteq> []) tokens)"

definition new_key_ring_from_entries :: "token_entry list \<Rightarrow> string \<Rightarrow> key_ring" where
  "new_key_ring_from_entries entries base_url =
     \<lparr>kr_base = base_url,
      kr_entries =
        map (\<lambda>e. \<lparr>re_token = te_token e, re_rotated = te_rotated e,
                  re_client = new_client (te_token e) base_url, re_cooldown = 0\<rparr>)
            (filter (\<lambda>e. te_token e \<noteq> []) entries),
      kr_cursor = 0\<rparr>"

definition new_key_ring :: "string list \<Rightarrow> string \<Rightarrow> key_ring" where
  "new_key_ring tokens base_url =
     new_key_ring_from_entries (map (\<lambda>tok. \<lparr>te_token = tok, te_rotated = 0\<rparr>) tokens) base_url"

definition ring_size :: "key_ring \<Rightarrow> nat" where
  "ring_size k = length (kr_entries k)"

text \<open>The test the methods share: the cooldown is zero, or not in the future.\<close>

definition entry_free :: "instant \<Rightarrow> ring_entry \<Rightarrow> bool" where
  "entry_free now e \<longleftrightarrow> re_cooldown e = 0 \<or> \<not> now < re_cooldown e"

fun scan_slots :: "instant \<Rightarrow> ring_entry list \<Rightarrow> nat \<Rightarrow> nat list \<Rightarrow> nat option" where
  "scan_slots now es cursor [] = None"
| "scan_slots now es cursor (i # is) =
     (let idx = (cursor + i) mod length es in
      if entry_free now (es ! idx) then Some idx else scan_slots now es cursor is)"

definition acquire :: "instant \<Rightarrow> key_ring \<Rightarrow> (client \<times> nat) option \<times> key_ring" where
  "acquire now k =
     (let n = length (kr_entries k) in
      if n = 0 then (None, k)
      else case scan_slots now (kr_entries k) (kr_cursor k) [0..<n] of
             None \<Rightarrow> (None, k)
           | Some idx \<Rightarrow>
               (Some (re_client (kr_entries k ! idx), idx), k\<lparr>kr_cursor := (idx + 1) mod n\<rparr>))"

definition mark_daily_limit :: "nat \<Rightarrow> instant \<Rightarrow> key_ring \<Rightarrow> key_ring" where
  "mark_daily_limit slot until k =
     (if length (kr_entries k) \<le> slot then k
      else let e = kr_entries k ! slot in
        if re_cooldown e < until
        then k\<lparr>kr_entries := (kr_entries k)[slot := e\<lparr>re_cooldown := until\<rparr>]\<rparr>
        else k)"

fun soonest_from :: "instant \<Rightarrow> instant \<Rightarrow> ring_entry list \<Rightarrow> instant" where
  "soonest_from now earliest [] = earliest"
| "soonest_from now earliest (e # es) =
     (if entry_free now e then 0
      else soonest_from now (if earliest = 0 \<or> re_cooldown e < earliest then re_cooldown e else earliest) es)"

definition soonest_recovery :: "instant \<Rightarrow> key_ring \<Rightarrow> instant" where
  "soonest_recovery now k = soonest_from now 0 (kr_entries k)"

definition available_slots :: "instant \<Rightarrow> key_ring \<Rightarrow> nat" where
  "available_slots now k = length (filter (entry_free now) (kr_entries k))"

fun refresh_entry :: "string \<Rightarrow> instant \<Rightarrow> ring_entry list \<Rightarrow> ring_entry list option" where
  "refresh_entry token rotated [] = None"
| "refresh_entry token rotated (e # es) =
     (if re_token e = token then Some (e\<lparr>re_rotated := rotated\<rparr> # es)
      else map_option ((#) e) (refresh_entry token rotated es))"

definition ring_add_token :: "string \<Rightarrow> instant \<Rightarrow> key_ring \<Rightarrow> bool \<times> key_ring" where
  "ring_add_token token rotated k =
     (if token = [] then (False, k)
      else case refresh_entry token rotated (kr_entries k) of
             Some es \<Rightarrow> (True, k\<lparr>kr_entries := es\<rparr>)
           | None \<Rightarrow>
               (False, k\<lparr>kr_entries := kr_entries k @
                  [\<lparr>re_token = token, re_rotated = rotated, re_client = new_client token (kr_base k),
                    re_cooldown = 0\<rparr>]\<rparr>))"

fun drop_entry :: "string \<Rightarrow> ring_entry list \<Rightarrow> ring_entry list option" where
  "drop_entry token [] = None"
| "drop_entry token (e # es) =
     (if re_token e \<noteq> token then map_option ((#) e) (drop_entry token es) else Some es)"

definition wrap_cursor :: "nat \<Rightarrow> nat \<Rightarrow> nat" where
  "wrap_cursor n c = (if n = 0 then 0 else if n \<le> c then c mod n else c)"

definition ring_remove_token :: "string \<Rightarrow> key_ring \<Rightarrow> bool \<times> key_ring" where
  "ring_remove_token token k =
     (case drop_entry token (kr_entries k) of
        None \<Rightarrow> (False, k)
      | Some es \<Rightarrow> (True, k\<lparr>kr_entries := es, kr_cursor := wrap_cursor (length es) (kr_cursor k)\<rparr>))"

record key_state =
  ks_token :: string
  ks_rotated :: instant
  ks_cooldown :: instant

definition ring_states :: "key_ring \<Rightarrow> key_state list" where
  "ring_states k =
     map (\<lambda>e. \<lparr>ks_token = re_token e, ks_rotated = re_rotated e, ks_cooldown = re_cooldown e\<rparr>) (kr_entries k)"

fun prev_cooldowns :: "ring_entry list \<Rightarrow> (string \<rightharpoonup> instant) \<Rightarrow> (string \<rightharpoonup> instant)" where
  "prev_cooldowns [] m = m"
| "prev_cooldowns (e # es) m = prev_cooldowns es (m(re_token e \<mapsto> re_cooldown e))"

definition set_entries :: "token_entry list \<Rightarrow> key_ring \<Rightarrow> key_ring" where
  "set_entries entries k =
     (let prev = prev_cooldowns (kr_entries k) Map.empty;
          ring = map (\<lambda>en. \<lparr>re_token = te_token en, re_rotated = te_rotated en,
                            re_client = new_client (te_token en) (kr_base k),
                            re_cooldown = (case prev (te_token en) of Some cd \<Rightarrow> cd | None \<Rightarrow> 0)\<rparr>)
                     (filter (\<lambda>en. te_token en \<noteq> []) entries)
      in k\<lparr>kr_entries := ring, kr_cursor := wrap_cursor (length ring) (kr_cursor k)\<rparr>)"

section \<open>Well-formed rings\<close>

text \<open>
  The invariant: no empty token, every client carries its entry's token, the cursor points into
  the ring. A pool fed from the database has no repeated token either; a configuration list may
  repeat one, so that is a separate predicate.
\<close>

definition entry_ok :: "string \<Rightarrow> ring_entry \<Rightarrow> bool" where
  "entry_ok base e \<longleftrightarrow> re_token e \<noteq> [] \<and> re_client e = new_client (re_token e) base"

definition ring_ok :: "key_ring \<Rightarrow> bool" where
  "ring_ok k \<longleftrightarrow> list_all (entry_ok (kr_base k)) (kr_entries k) \<and>
     (kr_entries k = [] \<longrightarrow> kr_cursor k = 0) \<and> (kr_entries k \<noteq> [] \<longrightarrow> kr_cursor k < length (kr_entries k))"

definition tokens_distinct :: "key_ring \<Rightarrow> bool" where
  "tokens_distinct k \<longleftrightarrow> distinct (map re_token (kr_entries k))"

named_theorems ring_defs \<open>the operations of the ring\<close>

declare acquire_def [ring_defs] mark_daily_limit_def [ring_defs] ring_add_token_def [ring_defs]
  ring_remove_token_def [ring_defs] set_entries_def [ring_defs]

lemma wrap_cursor_less: "0 < n \<Longrightarrow> wrap_cursor n c < n"
  by (auto simp: wrap_cursor_def)

lemma wrap_cursor_zero [simp]: "wrap_cursor 0 c = 0"
  by (simp add: wrap_cursor_def)

lemma scan_slots_None:
  "scan_slots now es c is = None \<longleftrightarrow> (\<forall>i\<in>set is. \<not> entry_free now (es ! ((c + i) mod length es)))"
  by (induction "is") (auto simp: Let_def)

lemma scan_slots_Some:
  "scan_slots now es c [m..<n] = Some idx \<Longrightarrow>
     \<exists>i. m \<le> i \<and> i < n \<and> idx = (c + i) mod length es \<and> entry_free now (es ! idx) \<and>
         (\<forall>j. m \<le> j \<and> j < i \<longrightarrow> \<not> entry_free now (es ! ((c + j) mod length es)))"
proof (induction "n - m" arbitrary: m)
  case (Suc d)
  then have split: "[m..<n] = m # [Suc m..<n]" by (simp add: upt_conv_Cons)
  show ?case
  proof (cases "entry_free now (es ! ((c + m) mod length es))")
    case True
    with Suc.prems Suc.hyps(2) split show ?thesis by (intro exI [of _ m]) (auto simp: Let_def)
  next
    case False
    with Suc.prems split have "scan_slots now es c [Suc m..<n] = Some idx" by (simp add: Let_def)
    moreover have "d = n - Suc m" using Suc.hyps(2) by simp
    ultimately obtain i where i: "Suc m \<le> i" "i < n" "idx = (c + i) mod length es" "entry_free now (es ! idx)"
      "\<forall>j. Suc m \<le> j \<and> j < i \<longrightarrow> \<not> entry_free now (es ! ((c + j) mod length es))"
      using Suc.hyps(1) [of "Suc m"] by blast
    moreover have "\<not> entry_free now (es ! ((c + j) mod length es))" if "m \<le> j" "j < i" for j
      using that i(5) False by (cases "j = m") auto
    ultimately show ?thesis by (intro exI [of _ i]) auto
  qed
qed simp

text \<open>The offsets \<open>0, \<dots>, n - 1\<close> from the cursor reach every slot.\<close>

lemma slot_offset:
  fixes c :: nat
  assumes "slot < n" and "c < n"
  obtains i where "i < n" and "(c + i) mod n = slot"
proof (cases "c \<le> slot")
  case True
  with assms that [of "slot - c"] show thesis by simp
next
  case False
  with assms have "(c + (slot + n - c)) mod n = slot" "slot + n - c < n" by auto
  with that show thesis by blast
qed

lemma acquire_None_iff:
  assumes "ring_ok k"
  shows "fst (acquire now k) = None \<longleftrightarrow> (\<forall>e\<in>set (kr_entries k). \<not> entry_free now e)"
proof (cases "kr_entries k = []")
  case False
  let ?n = "length (kr_entries k)"
  from False assms have c: "kr_cursor k < ?n" by (simp add: ring_ok_def)
  have "(\<forall>i\<in>set [0..<?n]. \<not> entry_free now (kr_entries k ! ((kr_cursor k + i) mod ?n))) \<longleftrightarrow>
        (\<forall>slot<?n. \<not> entry_free now (kr_entries k ! slot))"
    using slot_offset [OF _ c] False by (metis atLeastLessThan_iff length_greater_0_conv mod_less_divisor
        set_upt zero_le)
  moreover have "fst (acquire now k) = None \<longleftrightarrow> scan_slots now (kr_entries k) (kr_cursor k) [0..<?n] = None"
    using False by (simp add: acquire_def Let_def split: option.split)
  ultimately show ?thesis by (simp only: scan_slots_None all_set_conv_all_nth)
qed (simp add: acquire_def)

lemma acquire_entries [simp]: "kr_entries (snd (acquire now k)) = kr_entries k"
  "kr_base (snd (acquire now k)) = kr_base k"
  by (auto simp: acquire_def Let_def split: option.splits)

lemma mark_entries_length [simp]: "length (kr_entries (mark_daily_limit slot until k)) = length (kr_entries k)"
  "kr_cursor (mark_daily_limit slot until k) = kr_cursor k" "kr_base (mark_daily_limit slot until k) = kr_base k"
  by (auto simp: mark_daily_limit_def Let_def)

lemma mark_nth:
  "i < length (kr_entries k) \<Longrightarrow> kr_entries (mark_daily_limit slot until k) ! i =
     (if i = slot then (kr_entries k ! i)\<lparr>re_cooldown := max (re_cooldown (kr_entries k ! i)) until\<rparr>
      else kr_entries k ! i)"
  by (auto simp: mark_daily_limit_def Let_def nth_list_update max_def)

section \<open>Acquisition\<close>

lemma acquire_SomeD:
  assumes "ring_ok k" and acq: "acquire now k = (Some (c, slot), k')"
  shows "\<exists>i < length (kr_entries k). slot = (kr_cursor k + i) mod length (kr_entries k) \<and>
        slot < length (kr_entries k) \<and> entry_free now (kr_entries k ! slot) \<and>
        cl_token c = re_token (kr_entries k ! slot) \<and>
        (\<forall>j<i. \<not> entry_free now (kr_entries k ! ((kr_cursor k + j) mod length (kr_entries k)))) \<and>
        k' = k\<lparr>kr_cursor := (slot + 1) mod length (kr_entries k)\<rparr>"
proof -
  let ?n = "length (kr_entries k)"
  from acq have ne: "kr_entries k \<noteq> []" by (auto simp: acquire_def)
  with acq have scan: "scan_slots now (kr_entries k) (kr_cursor k) [0..<?n] = Some slot"
    and c: "c = re_client (kr_entries k ! slot)" and k': "k' = k\<lparr>kr_cursor := (slot + 1) mod ?n\<rparr>"
    by (auto simp: acquire_def Let_def split: option.splits)
  from scan_slots_Some [OF scan] obtain i where i: "i < ?n" "slot = (kr_cursor k + i) mod ?n"
    "entry_free now (kr_entries k ! slot)"
    "\<forall>j. 0 \<le> j \<and> j < i \<longrightarrow> \<not> entry_free now (kr_entries k ! ((kr_cursor k + j) mod ?n))"
    by blast
  have "slot < ?n" using i(2) ne by simp
  then have "entry_ok (kr_base k) (kr_entries k ! slot)"
    using assms by (simp add: ring_ok_def list_all_length)
  then have "cl_token c = re_token (kr_entries k ! slot)"
    using c by (simp add: entry_ok_def new_client_def)
  with i k' \<open>slot < ?n\<close> show ?thesis by (intro exI [of _ i]) simp
qed

text \<open>\<open>Acquire\<close> hands out a key exactly when one is not cooling down. The key it hands out is the
  first free one in ring order from the cursor, its client carries that entry's token, nothing but
  the cursor changes, and the cursor moves to the slot after it.\<close>

theorem acquire_first_free:
  assumes "ring_ok k"
  shows "(fst (acquire now k) = None \<longleftrightarrow> (\<forall>e\<in>set (kr_entries k). \<not> entry_free now e)) \<and>
    (\<forall>c slot k'. acquire now k = (Some (c, slot), k') \<longrightarrow>
      (\<exists>i < length (kr_entries k). slot = (kr_cursor k + i) mod length (kr_entries k) \<and>
        slot < length (kr_entries k) \<and> entry_free now (kr_entries k ! slot) \<and>
        cl_token c = re_token (kr_entries k ! slot) \<and>
        (\<forall>j<i. \<not> entry_free now (kr_entries k ! ((kr_cursor k + j) mod length (kr_entries k)))) \<and>
        k' = k\<lparr>kr_cursor := (slot + 1) mod length (kr_entries k)\<rparr>))"
  using acquire_None_iff [OF assms] acquire_SomeD [OF assms] by blast

theorem acquire_first_free_witness:
  "fst (acquire 5 (mark_daily_limit 0 9 (new_key_ring [''a'', ''b''] []))) \<noteq> None"
proof -
  let ?k = "mark_daily_limit 0 9 (new_key_ring [''a'', ''b''] [])"
  have "ring_ok ?k" "\<exists>e\<in>set (kr_entries ?k). entry_free 5 e"
    by (simp_all add: ring_ok_def mark_daily_limit_def new_key_ring_def new_key_ring_from_entries_def
        entry_ok_def entry_free_def)
  then show ?thesis using acquire_first_free [of ?k 5] by blast
qed

section \<open>Operation sequences\<close>

datatype ring_op =
    Op_Acquire instant | Op_Mark nat instant | Op_Add string instant | Op_Remove string
  | Op_Set "token_entry list"

fun ring_do :: "ring_op \<Rightarrow> key_ring \<Rightarrow> key_ring" where
  "ring_do (Op_Acquire now) k = snd (acquire now k)"
| "ring_do (Op_Mark slot until) k = mark_daily_limit slot until k"
| "ring_do (Op_Add token rotated) k = snd (ring_add_token token rotated k)"
| "ring_do (Op_Remove token) k = snd (ring_remove_token token k)"
| "ring_do (Op_Set entries) k = set_entries entries k"

lemma refresh_entry_Some:
  "refresh_entry token rotated es = Some es' \<Longrightarrow>
     token \<in> set (map re_token es) \<and> map re_token es' = map re_token es \<and>
     map re_client es' = map re_client es \<and> map re_cooldown es' = map re_cooldown es"
  by (induction es arbitrary: es') (auto split: if_splits)

lemma refresh_entry_None: "refresh_entry token rotated es = None \<longleftrightarrow> token \<notin> set (map re_token es)"
  by (induction es) auto

lemma drop_entry_None: "drop_entry token es = None \<longleftrightarrow> token \<notin> set (map re_token es)"
  by (induction es) auto

lemma drop_entry_Some:
  "drop_entry token es = Some es' \<Longrightarrow>
     \<exists>xs e ys. es = xs @ e # ys \<and> es' = xs @ ys \<and> re_token e = token \<and> token \<notin> set (map re_token xs)"
proof (induction es arbitrary: es')
  case (Cons e es)
  show ?case
  proof (cases "re_token e = token")
    case True
    with Cons.prems show ?thesis by (intro exI [of _ "[]"]) auto
  next
    case False
    with Cons.prems obtain es2 where es2: "drop_entry token es = Some es2" "es' = e # es2" by auto
    from Cons.IH [OF es2(1)] obtain xs f ys where "es = xs @ f # ys" "es2 = xs @ ys" "re_token f = token"
      "token \<notin> set (map re_token xs)" by blast
    with False es2 show ?thesis by (intro exI [of _ "e # xs"]) auto
  qed
qed simp

lemma entries_ok_map:
  assumes "map re_token es' = map re_token es" and "map re_client es' = map re_client es"
  shows "list_all (entry_ok base) es' = list_all (entry_ok base) es"
proof -
  have "list_all (entry_ok base) xs =
      list_all (\<lambda>(t, c). t \<noteq> [] \<and> c = new_client t base) (zip (map re_token xs) (map re_client xs))" for xs
    by (simp add: zip_map_map list_all_iff entry_ok_def zip_same_conv_map case_prod_beta)
  then show ?thesis by (simp only: assms)
qed

lemma ring_ok_new: "ring_ok (new_key_ring_from_entries entries base)"
  unfolding ring_ok_def new_key_ring_from_entries_def by (simp add: list_all_iff entry_ok_def)

lemma ring_ok_do:
  assumes "ring_ok k"
  shows "ring_ok (ring_do op k)"
proof (cases op)
  case (Op_Acquire now)
  with assms show ?thesis
    by (auto simp: ring_ok_def acquire_def Let_def split: option.splits)
next
  case (Op_Mark slot until)
  have "list_all (entry_ok (kr_base k)) (kr_entries (mark_daily_limit slot until k))"
    using assms by (auto simp: ring_ok_def list_all_length mark_nth entry_ok_def)
  moreover have "kr_entries (mark_daily_limit slot until k) = [] \<longleftrightarrow> kr_entries k = []"
    by (metis mark_entries_length(1) length_0_conv)
  ultimately show ?thesis using assms Op_Mark by (simp add: ring_ok_def)
next
  case (Op_Add token rotated)
  show ?thesis
  proof (cases "token = []")
    case False
    show ?thesis
    proof (cases "refresh_entry token rotated (kr_entries k)")
      case None
      with assms Op_Add False show ?thesis
        by (cases "kr_entries k = []") (auto simp: ring_ok_def ring_add_token_def entry_ok_def)
    next
      case (Some es)
      from refresh_entry_Some [OF Some] have "length es = length (kr_entries k)"
        by (metis length_map)
      with assms Op_Add False Some refresh_entry_Some [OF Some] show ?thesis
        by (auto simp: ring_ok_def ring_add_token_def entries_ok_map [of es "kr_entries k"])
    qed
  qed (use assms Op_Add in \<open>simp add: ring_add_token_def\<close>)
next
  case (Op_Remove token)
  show ?thesis
  proof (cases "drop_entry token (kr_entries k)")
    case (Some es)
    from drop_entry_Some [OF Some] have "list_all (entry_ok (kr_base k)) es"
      using assms by (auto simp: ring_ok_def)
    with Op_Remove Some show ?thesis
      by (auto simp: ring_ok_def ring_remove_token_def intro: wrap_cursor_less)
  qed (use assms Op_Remove in \<open>simp add: ring_remove_token_def\<close>)
next
  case (Op_Set entries)
  then show ?thesis
    by (auto simp: ring_ok_def set_entries_def Let_def list_all_iff entry_ok_def
        intro!: wrap_cursor_less simp flip: length_greater_0_conv split: option.splits)
qed

section \<open>Cooldowns survive every operation\<close>

text \<open>The cooldown of a token, when the pool holds it.\<close>

definition cooldown_of :: "key_ring \<Rightarrow> string \<Rightarrow> instant option" where
  "cooldown_of k = map_of (map (\<lambda>e. (re_token e, re_cooldown e)) (kr_entries k))"

definition op_distinct :: "ring_op \<Rightarrow> bool" where
  "op_distinct op = (case op of Op_Set entries \<Rightarrow> distinct (map te_token entries) | _ \<Rightarrow> True)"

lemma cooldown_of_Some:
  "tokens_distinct k \<Longrightarrow> cooldown_of k t = Some c \<longleftrightarrow>
     (\<exists>i < length (kr_entries k). re_token (kr_entries k ! i) = t \<and> re_cooldown (kr_entries k ! i) = c)"
  unfolding cooldown_of_def tokens_distinct_def
  by (subst map_of_eq_Some_iff) (auto simp: comp_def in_set_conv_nth image_iff, metis nth_mem)

lemma cooldown_of_same:
  assumes "map re_token (kr_entries k') = map re_token (kr_entries k)"
    and "map re_cooldown (kr_entries k') = map re_cooldown (kr_entries k)"
  shows "cooldown_of k' = cooldown_of k"
proof -
  have "map (\<lambda>e. (re_token e, re_cooldown e)) es = zip (map re_token es) (map re_cooldown es)" for es
    by (simp add: zip_map_map zip_same_conv_map)
  then show ?thesis unfolding cooldown_of_def by (metis assms)
qed

lemma mark_tokens: "map re_token (kr_entries (mark_daily_limit slot until k)) = map re_token (kr_entries k)"
  by (rule nth_equalityI) (auto simp: mark_nth)

lemma distinct_map_filter_token: "distinct (map te_token es) \<Longrightarrow> distinct (map te_token (filter P es))"
  by (simp add: distinct_map_filter)

lemma tokens_distinct_do:
  assumes "tokens_distinct k" and "op_distinct op"
  shows "tokens_distinct (ring_do op k)"
proof (cases op)
  case (Op_Add token rotated)
  show ?thesis
  proof (cases "token = [] \<or> refresh_entry token rotated (kr_entries k) \<noteq> None")
    case True
    with assms Op_Add show ?thesis
      by (cases "refresh_entry token rotated (kr_entries k)")
        (auto simp: ring_add_token_def tokens_distinct_def dest: refresh_entry_Some)
  next
    case False
    then have "token \<notin> set (map re_token (kr_entries k))" using refresh_entry_None by blast
    with False assms Op_Add show ?thesis by (auto simp: ring_add_token_def tokens_distinct_def)
  qed
next
  case (Op_Remove token)
  with assms show ?thesis
    by (auto simp: ring_remove_token_def tokens_distinct_def dest: drop_entry_Some split: option.splits)
next
  case (Op_Set entries)
  with assms have "distinct (map te_token (filter (\<lambda>en. te_token en \<noteq> []) entries))"
    by (simp add: op_distinct_def distinct_map_filter)
  with Op_Set show ?thesis by (simp add: tokens_distinct_def set_entries_def Let_def comp_def)
qed (use assms in \<open>auto simp: tokens_distinct_def mark_tokens\<close>)

lemma prev_cooldowns_eq:
  "distinct (map re_token es) \<Longrightarrow>
     prev_cooldowns es m = m ++ map_of (map (\<lambda>e. (re_token e, re_cooldown e)) es)"
proof (induction es arbitrary: m)
  case (Cons e es)
  then have "map_of (map (\<lambda>e. (re_token e, re_cooldown e)) es) (re_token e) = None"
    by (auto simp: map_of_eq_None_iff image_image)
  with Cons show ?case by (auto simp: fun_eq_iff map_add_def split: option.split)
qed simp

lemma cooldown_of_set:
  assumes "tokens_distinct k" and "cooldown_of (set_entries entries k) t = Some c"
  shows "c = (case cooldown_of k t of Some cd \<Rightarrow> cd | None \<Rightarrow> 0)"
proof -
  from assms(2) have "(t, c) \<in> set (map (\<lambda>e. (re_token e, re_cooldown e)) (kr_entries (set_entries entries k)))"
    unfolding cooldown_of_def by (rule map_of_SomeD)
  moreover have "prev_cooldowns (kr_entries k) Map.empty = cooldown_of k"
    using prev_cooldowns_eq [of "kr_entries k" Map.empty] assms(1)
    by (simp add: tokens_distinct_def cooldown_of_def)
  ultimately show ?thesis by (auto simp: set_entries_def Let_def)
qed

lemma cooldown_of_remove:
  assumes "tokens_distinct k" and "cooldown_of (snd (ring_remove_token token k)) t = Some c"
  shows "cooldown_of k t = Some c"
proof (cases "drop_entry token (kr_entries k)")
  case (Some es)
  from drop_entry_Some [OF Some] obtain xs e ys where
    split: "kr_entries k = xs @ e # ys" "es = xs @ ys" by blast
  have dist: "distinct (map fst (map (\<lambda>e. (re_token e, re_cooldown e)) (kr_entries k)))"
    using assms(1) by (simp add: tokens_distinct_def comp_def)
  from assms(2) Some have "(t, c) \<in> set (map (\<lambda>e. (re_token e, re_cooldown e)) es)"
    unfolding cooldown_of_def by (auto simp: ring_remove_token_def dest: map_of_SomeD)
  then have "(t, c) \<in> set (map (\<lambda>e. (re_token e, re_cooldown e)) (kr_entries k))"
    using split by auto
  then show ?thesis unfolding cooldown_of_def using dist by (simp only: map_of_eq_Some_iff)
qed (use assms in \<open>simp add: ring_remove_token_def\<close>)

lemma cooldown_of_add:
  assumes "cooldown_of k t = Some c"
  shows "cooldown_of (snd (ring_add_token token rotated k)) t = Some c"
proof (cases "refresh_entry token rotated (kr_entries k)")
  case (Some es)
  then have "cooldown_of (k\<lparr>kr_entries := es\<rparr>) = cooldown_of k"
    by (intro cooldown_of_same) (auto dest: refresh_entry_Some)
  with assms Some show ?thesis by (simp add: ring_add_token_def)
next
  case None
  with assms show ?thesis by (simp add: ring_add_token_def cooldown_of_def)
qed

text \<open>No operation shortens a cooldown. In a pool without repeated tokens, acquiring, adding a
  token again, removing another one and swapping in a new pool leave the cooldown of every token
  that stays as it was; only marking that token's slot changes it, and only to a later instant.\<close>

theorem cooldown_survives:
  assumes "tokens_distinct k" and "cooldown_of k t = Some c" and "cooldown_of (ring_do op k) t = Some c'"
  shows "c' = c \<or> (\<exists>slot. op = Op_Mark slot c' \<and> slot < length (kr_entries k) \<and>
                          re_token (kr_entries k ! slot) = t \<and> c < c')"
proof (cases op)
  case (Op_Acquire now)
  then show ?thesis using assms by (simp add: cooldown_of_def)
next
  case (Op_Mark slot until)
  have "tokens_distinct (mark_daily_limit slot until k)"
    using assms(1) by (simp add: tokens_distinct_def mark_tokens)
  with assms Op_Mark obtain i j where
    i: "i < length (kr_entries k)" "re_token (kr_entries k ! i) = t" "re_cooldown (kr_entries k ! i) = c" and
    j: "j < length (kr_entries k)" "re_token (kr_entries (mark_daily_limit slot until k) ! j) = t"
      "re_cooldown (kr_entries (mark_daily_limit slot until k) ! j) = c'"
    by (auto simp: cooldown_of_Some)
  from j have "re_token (kr_entries k ! j) = t" by (auto simp: mark_nth split: if_splits)
  then have "j = i"
    using i j assms(1) by (auto simp: tokens_distinct_def distinct_conv_nth)
  with i j Op_Mark show ?thesis by (auto simp: mark_nth max_def split: if_splits)
next
  case (Op_Add token rotated)
  then show ?thesis using assms cooldown_of_add [OF assms(2)] by simp
next
  case (Op_Remove token)
  then show ?thesis using assms cooldown_of_remove [OF assms(1)] by fastforce
next
  case (Op_Set entries)
  then show ?thesis using assms cooldown_of_set [OF assms(1)] by fastforce
qed

theorem cooldown_survives_witness:
  "cooldown_of (ring_do (Op_Set [\<lparr>te_token = ''b'', te_rotated = 0\<rparr>, \<lparr>te_token = ''a'', te_rotated = 7\<rparr>])
     (mark_daily_limit 0 900 (new_key_ring [''a''] ''''))) ''a'' = Some 900"
proof -
  let ?k = "mark_daily_limit 0 900 (new_key_ring [''a''] '''')"
  let ?op = "Op_Set [\<lparr>te_token = ''b'', te_rotated = 0\<rparr>, \<lparr>te_token = ''a'', te_rotated = 7\<rparr>]"
  have "tokens_distinct ?k" "cooldown_of ?k ''a'' = Some 900" "\<exists>c'. cooldown_of (ring_do ?op ?k) ''a'' = Some c'"
    by (simp_all add: tokens_distinct_def cooldown_of_def mark_daily_limit_def new_key_ring_def
        new_key_ring_from_entries_def set_entries_def)
  then show ?thesis using cooldown_survives [of ?k "''a''" 900 ?op] by auto
qed

section \<open>Recovery\<close>

lemma entry_free_mono: "entry_free t e \<Longrightarrow> t \<le> t' \<Longrightarrow> entry_free t' e"
  by (auto simp: entry_free_def)

lemma soonest_from_zero_iff:
  "soonest_from now m es = 0 \<longleftrightarrow> (\<exists>e\<in>set es. entry_free now e) \<or> (m = 0 \<and> es = [])"
  by (induction es arbitrary: m) (auto simp: entry_free_def)

lemma soonest_from_Min:
  "\<forall>e\<in>set es. \<not> entry_free now e \<Longrightarrow> 0 < m \<Longrightarrow>
     soonest_from now m es = Min (insert m (re_cooldown ` set es))"
proof (induction es arbitrary: m)
  case (Cons e es)
  let ?m = "if re_cooldown e < m then re_cooldown e else m"
  have "soonest_from now m (e # es) = soonest_from now ?m es" using Cons.prems by auto
  also have "\<dots> = Min (insert ?m (re_cooldown ` set es))"
    using Cons by (intro Cons.IH) (auto simp: entry_free_def)
  also have "\<dots> = Min (insert m (re_cooldown ` set (e # es)))"
    by (cases "set es = {}") (auto simp: Min_insert min_def)
  finally show ?case .
qed simp

lemma soonest_recovery_Min:
  assumes "kr_entries k \<noteq> []" and "\<forall>e\<in>set (kr_entries k). \<not> entry_free now e"
  shows "soonest_recovery now k = Min (re_cooldown ` set (kr_entries k))"
proof (cases "kr_entries k")
  case (Cons e es)
  with assms soonest_from_Min [of es now "re_cooldown e"] show ?thesis
    by (auto simp: soonest_recovery_def entry_free_def)
qed (use assms in simp)

text \<open>\<open>SoonestRecovery\<close> tells when \<open>Acquire\<close> succeeds again. On a non-empty ring it is zero
  exactly when a key can be acquired now; otherwise it is the least cooldown, it lies in the future,
  every acquisition before it fails and every one from then on succeeds. \<open>AvailableSlots\<close> is zero
  exactly when the answer is not.\<close>

theorem soonest_recovery_exact:
  assumes "ring_ok k" and "kr_entries k \<noteq> []"
  shows "(soonest_recovery now k = 0 \<longleftrightarrow> fst (acquire now k) \<noteq> None) \<and>
    (available_slots now k = 0 \<longleftrightarrow> soonest_recovery now k \<noteq> 0) \<and>
    (soonest_recovery now k \<noteq> 0 \<longrightarrow>
       now < soonest_recovery now k \<and>
       (\<forall>t. now \<le> t \<longrightarrow> (fst (acquire t k) \<noteq> None \<longleftrightarrow> soonest_recovery now k \<le> t)))"
proof -
  note iff = acquire_None_iff [OF assms(1)]
  have zero: "soonest_recovery now k = 0 \<longleftrightarrow> (\<exists>e\<in>set (kr_entries k). entry_free now e)"
    using assms(2) by (simp add: soonest_recovery_def soonest_from_zero_iff)
  have avail: "available_slots now k = 0 \<longleftrightarrow> \<not> (\<exists>e\<in>set (kr_entries k). entry_free now e)"
    by (auto simp: available_slots_def filter_empty_conv)
  have recov: "now < soonest_recovery now k \<and>
      (\<forall>t. now \<le> t \<longrightarrow> (fst (acquire t k) \<noteq> None \<longleftrightarrow> soonest_recovery now k \<le> t))"
    if nz: "soonest_recovery now k \<noteq> 0"
  proof -
    have cool: "\<forall>e\<in>set (kr_entries k). \<not> entry_free now e" using nz zero by simp
    note min = soonest_recovery_Min [OF assms(2) cool]
    have fin: "finite (re_cooldown ` set (kr_entries k))" "re_cooldown ` set (kr_entries k) \<noteq> {}"
      using assms(2) by auto
    have "now < soonest_recovery now k"
      using cool by (simp add: min Min_gr_iff [OF fin] entry_free_def)
    moreover have "fst (acquire t k) \<noteq> None \<longleftrightarrow> soonest_recovery now k \<le> t" if "now \<le> t" for t
      using cool unfolding iff min Min_le_iff [OF fin] by (auto simp: entry_free_def not_less)
    ultimately show ?thesis by blast
  qed
  have "soonest_recovery now k = 0 \<longleftrightarrow> fst (acquire now k) \<noteq> None"
    unfolding zero iff by blast
  moreover have "available_slots now k = 0 \<longleftrightarrow> soonest_recovery now k \<noteq> 0"
    unfolding zero avail by blast
  ultimately show ?thesis using impI [OF recov] by (elim conjI [OF _ conjI])
qed

theorem soonest_recovery_witness:
  "soonest_recovery 5 (mark_daily_limit 0 9 (new_key_ring [''a''] '''')) = 9 \<and>
   fst (acquire 9 (mark_daily_limit 0 9 (new_key_ring [''a''] ''''))) \<noteq> None"
proof -
  let ?k = "mark_daily_limit 0 9 (new_key_ring [''a''] '''')"
  have "ring_ok ?k"
    using ring_ok_do [of _ "Op_Mark 0 9"] ring_ok_new by (simp add: new_key_ring_def)
  moreover have "kr_entries ?k \<noteq> []" "soonest_recovery 5 ?k = 9"
    by (simp_all add: mark_daily_limit_def new_key_ring_def new_key_ring_from_entries_def
        soonest_recovery_def entry_free_def)
  ultimately show ?thesis using soonest_recovery_exact [of ?k 5] by auto
qed

section \<open>Fairness\<close>

text \<open>The slots a sequence of acquisitions and markings hands out.\<close>

fun handed_out :: "ring_op list \<Rightarrow> key_ring \<Rightarrow> nat list" where
  "handed_out [] k = []"
| "handed_out (op # ops) k =
     (case op of
        Op_Acquire now \<Rightarrow> (case fst (acquire now k) of Some (c, slot) \<Rightarrow> [slot] | None \<Rightarrow> [])
      | _ \<Rightarrow> []) @ handed_out ops (ring_do op k)"

definition pool_op :: "ring_op \<Rightarrow> bool" where
  "pool_op op = (case op of Op_Acquire _ \<Rightarrow> True | Op_Mark _ _ \<Rightarrow> True | _ \<Rightarrow> False)"

definition is_acquire :: "ring_op \<Rightarrow> bool" where
  "is_acquire op = (case op of Op_Acquire _ \<Rightarrow> True | _ \<Rightarrow> False)"

text \<open>One acquisition either hands out a free slot or moves the cursor closer to it.\<close>

lemma acquire_approaches:
  assumes ok: "ring_ok k" and d: "d < length (kr_entries k)"
    and slot: "slot = (kr_cursor k + d) mod length (kr_entries k)"
    and free: "entry_free now (kr_entries k ! slot)"
  obtains c where "fst (acquire now k) = Some (c, slot)"
  | d' where "d' < d" and "slot = (kr_cursor (snd (acquire now k)) + d') mod length (kr_entries k)"
proof -
  let ?n = "length (kr_entries k)"
  have "slot < ?n" using d slot by (metis mod_less_divisor less_nat_zero_code linorder_neqE_nat)
  then have "fst (acquire now k) \<noteq> None" using free acquire_None_iff [OF ok] nth_mem by blast
  then obtain c s k' where acq: "acquire now k = (Some (c, s), k')"
    by (cases "acquire now k") auto
  from acquire_SomeD [OF ok acq] obtain i where i: "i < ?n" "s = (kr_cursor k + i) mod ?n"
    "\<forall>j<i. \<not> entry_free now (kr_entries k ! ((kr_cursor k + j) mod ?n))" "k' = k\<lparr>kr_cursor := (s + 1) mod ?n\<rparr>"
    by blast
  have "i \<le> d" using i(3) free slot by (meson not_le)
  show thesis
  proof (cases "i = d")
    case True
    with acq i(2) slot that(1) show thesis by simp
  next
    case False
    with \<open>i \<le> d\<close> have "i < d" by simp
    have "(kr_cursor k' + (d - i - 1)) mod ?n = (kr_cursor k + i + 1 + (d - i - 1)) mod ?n"
      using i(2,4) by (simp add: mod_add_left_eq mod_Suc_eq flip: add_Suc)
    also have "kr_cursor k + i + 1 + (d - i - 1) = kr_cursor k + d" using \<open>i < d\<close> by simp
    finally have "slot = (kr_cursor (snd (acquire now k)) + (d - i - 1)) mod ?n" using acq slot by simp
    with that(2) [of "d - i - 1"] \<open>i < d\<close> show thesis by simp
  qed
qed

lemma handed_out_fair:
  assumes "ring_ok k" and "list_all pool_op ops"
    and "\<forall>t. Op_Acquire t \<in> set ops \<longrightarrow> entry_free t (kr_entries k ! slot)"
    and "\<forall>t. Op_Mark slot t \<notin> set ops"
    and "d < length (kr_entries k)" and "slot = (kr_cursor k + d) mod length (kr_entries k)"
    and "d < length (filter is_acquire ops)"
  shows "slot \<in> set (handed_out ops k)"
  using assms
proof (induction ops arbitrary: k d)
  case (Cons op ops)
  note ok' = ring_ok_do [OF Cons.prems(1), of op]
  show ?case
  proof (cases op)
    case (Op_Acquire now)
    with Cons.prems(3) have "entry_free now (kr_entries k ! slot)" by simp
    from acquire_approaches [OF Cons.prems(1,5,6) this]
    show ?thesis
    proof cases
      case (1 c)
      with Op_Acquire show ?thesis by simp
    next
      case (2 d')
      with Cons.prems Op_Acquire ok' have "slot \<in> set (handed_out ops (ring_do op k))"
        by (intro Cons.IH [of _ d']) (auto simp: is_acquire_def)
      then show ?thesis by simp
    qed
  next
    case (Op_Mark s until)
    with Cons.prems have "s \<noteq> slot" by auto
    have "slot < length (kr_entries k)"
      using Cons.prems(5,6) by (metis mod_less_divisor less_nat_zero_code linorder_neqE_nat)
    with Cons.prems Op_Mark ok' \<open>s \<noteq> slot\<close> have "slot \<in> set (handed_out ops (ring_do op k))"
      by (intro Cons.IH [of _ d]) (auto simp: mark_nth is_acquire_def)
    then show ?thesis by simp
  qed (use Cons.prems in \<open>simp_all add: pool_op_def\<close>)
qed simp

text \<open>C36: Round-robin is fair. While goroutines acquire and mark keys in any interleaving, a slot that
  stays free is handed out at the latest by the acquisition whose number is the size of the ring.\<close>

theorem ring_fair:
  assumes "ring_ok k" and "slot < length (kr_entries k)" and "list_all pool_op ops"
    and "\<forall>t. Op_Acquire t \<in> set ops \<longrightarrow> entry_free t (kr_entries k ! slot)"
    and "\<forall>t. Op_Mark slot t \<notin> set ops"
    and "length (kr_entries k) \<le> length (filter is_acquire ops)"
  shows "slot \<in> set (handed_out ops k)"
proof -
  from assms(1,2) have "kr_cursor k < length (kr_entries k)" by (auto simp: ring_ok_def)
  from slot_offset [OF assms(2) this] obtain d where
    d: "d < length (kr_entries k)" "(kr_cursor k + d) mod length (kr_entries k) = slot" .
  show ?thesis by (rule handed_out_fair [where d = d]) (use assms d in auto)
qed

theorem ring_fair_witness:
  "2 \<in> set (handed_out [Op_Acquire 1, Op_Mark 0 50, Op_Acquire 2, Op_Acquire 3]
              (new_key_ring [''a'', ''b'', ''c''] ''''))"
proof (rule ring_fair)
  show "ring_ok (new_key_ring [''a'', ''b'', ''c''] '''')"
    by (simp add: new_key_ring_def ring_ok_new)
qed (auto simp: new_key_ring_def new_key_ring_from_entries_def pool_op_def is_acquire_def entry_free_def)

section \<open>The pool as the conversion loop sees it\<close>

text \<open>
  The loop of \<open>convertSource\<close> only acquires and blocks keys. What it relies on: an acquisition
  answers with a free slot exactly when there is one and frees nothing; blocking a slot until
  an instant takes it out of the free slots before that instant and frees nothing.
\<close>

locale key_pool =
  fixes take_key :: "instant \<Rightarrow> 'p \<Rightarrow> ('c \<times> nat) option \<times> 'p"
    and block_key :: "nat \<Rightarrow> instant \<Rightarrow> 'p \<Rightarrow> 'p"
    and free_slots :: "instant \<Rightarrow> 'p \<Rightarrow> nat set"
    and inv :: "'p \<Rightarrow> bool"
  assumes inv_take: "inv p \<Longrightarrow> inv (snd (take_key t p))"
    and inv_block: "inv p \<Longrightarrow> inv (block_key s u p)"
    and fin_free: "finite (free_slots t p)"
    and free_mono: "t \<le> t' \<Longrightarrow> free_slots t p \<subseteq> free_slots t' p"
    and take_none: "inv p \<Longrightarrow> fst (take_key t p) = None \<longleftrightarrow> free_slots t p = {}"
    and take_some: "inv p \<Longrightarrow> fst (take_key t p) = Some (c, s) \<Longrightarrow> s \<in> free_slots t p"
    and free_take: "free_slots t' (snd (take_key t p)) = free_slots t' p"
    and free_block: "free_slots t (block_key s u p) = free_slots t p - (if t < u then {s} else {})"
begin

text \<open>The keys that can still serve before the reset \<open>R\<close>.\<close>

definition left :: "instant \<Rightarrow> 'p \<Rightarrow> nat" where
  "left R p = card (free_slots (R - 1) p)"

lemma left_block: "left R (block_key s u p) \<le> left R p"
  unfolding left_def by (intro card_mono fin_free) (simp add: free_block)

lemma left_take: "left R (snd (take_key t p)) = left R p"
  by (simp add: left_def free_take)

lemma rotate_decreases:
  assumes "inv p" and "fst (take_key t p) = Some (c, s)" and "t < R"
    and "free_slots (R - 1) q \<subseteq> free_slots (R - 1) p"
  shows "left R (block_key s R q) < left R p"
proof -
  have "s \<in> free_slots (R - 1) p"
  proof (rule subsetD)
    show "free_slots t p \<subseteq> free_slots (R - 1) p" using assms(3) by (intro free_mono) linarith
    show "s \<in> free_slots t p" by (rule take_some [OF assms(1,2)])
  qed
  moreover have "free_slots (R - 1) (block_key s R q) \<subseteq> free_slots (R - 1) p - {s}"
    using assms(3,4) by (auto simp: free_block)
  ultimately have "free_slots (R - 1) (block_key s R q) \<subset> free_slots (R - 1) p" by blast
  then show ?thesis unfolding left_def by (intro psubset_card_mono fin_free)
qed

lemma none_left: "inv p \<Longrightarrow> left R p = 0 \<Longrightarrow> t < R \<Longrightarrow> fst (take_key t p) = None"
proof -
  assume "inv p" "left R p = 0" "t < R"
  then have "free_slots (R - 1) p = {}" using fin_free [of "R - 1" p] by (simp add: left_def)
  moreover have "free_slots t p \<subseteq> free_slots (R - 1) p" using \<open>t < R\<close> by (intro free_mono) linarith
  ultimately show ?thesis using take_none [OF \<open>inv p\<close>, of t] by blast
qed

end

definition ring_free_slots :: "instant \<Rightarrow> key_ring \<Rightarrow> nat set" where
  "ring_free_slots t k = {slot. slot < length (kr_entries k) \<and> entry_free t (kr_entries k ! slot)}"

interpretation ring: key_pool acquire mark_daily_limit ring_free_slots ring_ok
proof
  show "ring_ok k \<Longrightarrow> ring_ok (snd (acquire t k))" for t k
    using ring_ok_do [of k "Op_Acquire t"] by simp
  show "ring_ok k \<Longrightarrow> ring_ok (mark_daily_limit s u k)" for s u k
    using ring_ok_do [of k "Op_Mark s u"] by simp
  show "finite (ring_free_slots t k)" for t k
    by (rule finite_subset [of _ "{..<length (kr_entries k)}"]) (auto simp: ring_free_slots_def)
  show "t \<le> t' \<Longrightarrow> ring_free_slots t k \<subseteq> ring_free_slots t' k" for t t' k
    by (auto simp: ring_free_slots_def entry_free_mono)
  show "ring_ok k \<Longrightarrow> fst (acquire t k) = None \<longleftrightarrow> ring_free_slots t k = {}" for t k
    unfolding ring_free_slots_def by (simp add: acquire_None_iff all_set_conv_all_nth)
  show "s \<in> ring_free_slots t k" if ok: "ring_ok k" and a: "fst (acquire t k) = Some (c, s)" for t k s c
  proof -
    from a have "acquire t k = (Some (c, s), snd (acquire t k))" by (metis prod.collapse)
    from acquire_SomeD [OF ok this] show ?thesis by (auto simp: ring_free_slots_def)
  qed
  show "ring_free_slots t' (snd (acquire t k)) = ring_free_slots t' k" for t t' k
    by (simp add: ring_free_slots_def)
  show "ring_free_slots t (mark_daily_limit s u k) = ring_free_slots t k - (if t < u then {s} else {})" for t s u k
    by (auto simp: ring_free_slots_def mark_nth entry_free_def max_def split: if_splits)
qed

section \<open>The rotation loop\<close>

text \<open>
  The environment of one run of the loop, by iteration: the clock at the acquisition, the outcome
  of the conversion with the acquired client (\<open>None\<close> for success), the clock when a daily limit is
  marked, and the ring operations of other goroutines before the acquisition and during the
  conversion. \<open>le_reset\<close> is the converter's \<open>dailyResetAt\<close>. The loop has no bound of its own; the
  fuel is the first argument, and running out of it is \<open>None\<close>.
\<close>

record loop_env =
  le_now :: "nat \<Rightarrow> instant"
  le_convert :: "nat \<Rightarrow> client \<Rightarrow> go_error option"
  le_mark :: "nat \<Rightarrow> instant"
  le_before :: "nat \<Rightarrow> ring_op list"
  le_during :: "nat \<Rightarrow> ring_op list"
  le_reset :: "instant \<Rightarrow> instant"

definition ring_dos :: "ring_op list \<Rightarrow> key_ring \<Rightarrow> key_ring" where
  "ring_dos ops k = foldl (\<lambda>k op. ring_do op k) k ops"

definition exhausted_error :: "nat \<Rightarrow> go_error" where
  "exhausted_error n =
     Api \<lparr>er_msg = ''all '' @ format_d (int n) @ '' MinerU API keys have exhausted today's daily quota'',
          er_code = [], er_status = 0, er_kind = Some Daily_Limit\<rparr>"

fun convert_source_loop :: "loop_env \<Rightarrow> nat \<Rightarrow> nat \<Rightarrow> key_ring \<Rightarrow> (go_error option \<times> key_ring) option" where
  "convert_source_loop env 0 i k = None"
| "convert_source_loop env (Suc f) i k =
     (case acquire (le_now env i) (ring_dos (le_before env i) k) of
        (None, k') \<Rightarrow> Some (Some (exhausted_error (ring_size k')), k')
      | (Some (client, slot), k') \<Rightarrow>
          (let k'' = ring_dos (le_during env i) k' in
           case le_convert env i client of
             None \<Rightarrow> Some (None, k'')
           | Some err \<Rightarrow>
               if is_kind Daily_Limit err
               then convert_source_loop env f (i + 1)
                      (mark_daily_limit slot (le_reset env (le_mark env i)) k'')
               else Some (Some err, k'')))"

text \<open>Other goroutines that only acquire and mark, on a day whose reset is \<open>R\<close>.\<close>

definition same_day :: "instant \<Rightarrow> loop_env \<Rightarrow> bool" where
  "same_day R env \<longleftrightarrow>
     (\<forall>i. le_now env i < R \<and> le_reset env (le_mark env i) = R \<and>
          list_all pool_op (le_before env i) \<and> list_all pool_op (le_during env i))"

lemma ring_dos_simps [simp]: "ring_dos [] k = k" "ring_dos (op # ops) k = ring_dos ops (ring_do op k)"
  by (simp_all add: ring_dos_def)

lemma ring_dos_pool:
  "list_all pool_op ops \<Longrightarrow> ring_ok k \<Longrightarrow>
     ring_ok (ring_dos ops k) \<and> ring_free_slots t (ring_dos ops k) \<subseteq> ring_free_slots t k \<and>
     map re_token (kr_entries (ring_dos ops k)) = map re_token (kr_entries k)"
proof (induction ops arbitrary: k)
  case (Cons op ops)
  then have "ring_free_slots t (ring_do op k) \<subseteq> ring_free_slots t k \<and>
      map re_token (kr_entries (ring_do op k)) = map re_token (kr_entries k)"
    by (cases op) (auto simp: pool_op_def ring.free_take ring.free_block mark_tokens)
  moreover from Cons have "ring_ok (ring_dos ops (ring_do op k)) \<and>
      ring_free_slots t (ring_dos ops (ring_do op k)) \<subseteq> ring_free_slots t (ring_do op k) \<and>
      map re_token (kr_entries (ring_dos ops (ring_do op k))) = map re_token (kr_entries (ring_do op k))"
    by (intro Cons.IH) (simp_all add: ring_ok_do)
  ultimately show ?case by auto
qed simp

lemma left_dos: "list_all pool_op ops \<Longrightarrow> ring_ok k \<Longrightarrow> ring.left R (ring_dos ops k) \<le> ring.left R k"
  unfolding ring.left_def using ring_dos_pool by (intro card_mono ring.fin_free) blast

text \<open>How a run ends: with the outcome of an attempt with a key of the ring, or with the pool exhausted.\<close>

definition attempt_ended :: "loop_env \<Rightarrow> string list \<Rightarrow> nat \<Rightarrow> go_error option \<Rightarrow> key_ring \<Rightarrow> bool" where
  "attempt_ended env tokens j res k' \<longleftrightarrow>
     res = Some (exhausted_error (length tokens)) \<and> ring_free_slots (le_now env j) k' = {} \<or>
     (\<exists>c. cl_token c \<in> set tokens \<and> res = le_convert env j c \<and>
          (\<forall>err. res = Some err \<longrightarrow> \<not> is_kind Daily_Limit err))"

definition loop_ended :: "loop_env \<Rightarrow> string list \<Rightarrow> nat \<Rightarrow> nat \<Rightarrow> go_error option \<Rightarrow> key_ring \<Rightarrow> bool" where
  "loop_ended env tokens m n res k' \<longleftrightarrow>
     (\<exists>j. m \<le> j \<and> j < n \<and> attempt_ended env tokens j res k')"

lemma loop_ended_mono: "loop_ended env tokens m n res k' \<Longrightarrow> m' \<le> m \<Longrightarrow> n \<le> n' \<Longrightarrow>
    loop_ended env tokens m' n' res k'"
  unfolding loop_ended_def by (meson le_trans less_le_trans)

lemma convert_loop_returns:
  assumes "same_day R env" and "ring_ok k" and "ring.left R k < f"
  shows "\<exists>res k'. convert_source_loop env f i k = Some (res, k') \<and>
      loop_ended env (map re_token (kr_entries k)) i (i + f) res k'"
  using assms(2,3)
proof (induction f arbitrary: i k)
  case (Suc f)
  let ?b = "ring_dos (le_before env i) k"
  let ?toks = "map re_token (kr_entries k)"
  have day: "le_now env i < R" "le_reset env (le_mark env i) = R" "list_all pool_op (le_before env i)"
    "list_all pool_op (le_during env i)"
    using assms(1) by (auto simp: same_day_def)
  have b: "ring_ok ?b" "ring.left R ?b \<le> ring.left R k" "map re_token (kr_entries ?b) = ?toks"
    using ring_dos_pool [OF day(3) Suc.prems(1)] left_dos [OF day(3) Suc.prems(1)] by auto
  obtain r k1 where acq: "acquire (le_now env i) ?b = (r, k1)" by (cases "acquire (le_now env i) ?b")
  then have k1: "snd (acquire (le_now env i) ?b) = k1" "fst (acquire (le_now env i) ?b) = r" by simp_all
  have ok1: "ring_ok k1" using ring.inv_take [OF b(1), of "le_now env i"] k1 by simp
  have toks1: "map re_token (kr_entries k1) = ?toks" using b(3) k1(1) acquire_entries(1) by metis
  then have len1: "length (kr_entries k1) = length ?toks" by (metis length_map)
  show ?case
  proof (cases r)
    case None
    have "ring_free_slots (le_now env i) k1 = {}"
      using ring.take_none [OF b(1)] ring.free_take [of _ "le_now env i" ?b] k1 None by metis
    then have "loop_ended env ?toks i (i + Suc f) (Some (exhausted_error (ring_size k1))) k1"
      unfolding loop_ended_def attempt_ended_def ring_size_def len1 by (intro exI [of _ i]) simp
    with acq None show ?thesis by simp
  next
    case (Some cs)
    then obtain c s where cs: "r = Some (c, s)" by (cases cs) auto
    from acquire_SomeD [OF b(1), of "le_now env i" c s k1] acq cs
    have "s < length (kr_entries ?b)" "cl_token c = re_token (kr_entries ?b ! s)" by auto
    then have tok: "cl_token c \<in> set ?toks" using b(3) by (metis length_map nth_map nth_mem)
    let ?d = "ring_dos (le_during env i) k1"
    have d: "ring_ok ?d" "map re_token (kr_entries ?d) = ?toks"
      using ring_dos_pool [OF day(4) ok1] toks1 by auto
    show ?thesis
    proof (cases "\<exists>err. le_convert env i c = Some err \<and> is_kind Daily_Limit err")
      case True
      then obtain err where err: "le_convert env i c = Some err" "is_kind Daily_Limit err" by blast
      let ?m = "mark_daily_limit s R ?d"
      have "ring_free_slots (R - 1) ?d \<subseteq> ring_free_slots (R - 1) ?b"
        using ring_dos_pool [OF day(4) ok1, of "R - 1"] ring.free_take [of "R - 1" "le_now env i" ?b] k1 by auto
      then have "ring.left R ?m < ring.left R ?b"
        using b(1) k1 cs day(1) by (intro ring.rotate_decreases) auto
      with b(2) Suc.prems have "ring.left R ?m < f" by simp
      from Suc.IH [OF ring.inv_block [OF d(1)] this, of "i + 1"] obtain res k' where
        "convert_source_loop env f (i + 1) ?m = Some (res, k')" "loop_ended env ?toks (i + 1) (i + 1 + f) res k'"
        using mark_tokens [of s R ?d] d(2) by auto
      then show ?thesis using acq cs err day(2) loop_ended_mono [of env ?toks "i + 1" "i + 1 + f" res k' i]
        by auto
    next
      case False
      then have "loop_ended env ?toks i (i + Suc f) (le_convert env i c) ?d"
        unfolding loop_ended_def attempt_ended_def using tok by (intro exI [of _ i]) auto
      with acq cs False show ?thesis by (cases "le_convert env i c") (auto simp: Let_def)
    qed
  qed
qed simp

text \<open>C35: The rotation ends. While other goroutines acquire and mark keys, a conversion on a day with
  reset \<open>R\<close> returns after at most one acquisition more than the ring has keys: with the outcome of an
  attempt with a key of the ring that was no daily limit, or, when every key is cooling down at its
  last acquisition, with the daily limit of the whole pool.\<close>

theorem convert_source_terminates:
  assumes "same_day R env" and "ring_ok k"
  shows "\<exists>res k'. convert_source_loop env (length (kr_entries k) + 1) 0 k = Some (res, k') \<and>
      loop_ended env (map re_token (kr_entries k)) 0 (length (kr_entries k) + 1) res k'"
proof -
  have "ring_free_slots (R - 1) k \<subseteq> {..<length (kr_entries k)}" by (auto simp: ring_free_slots_def)
  then have "ring.left R k \<le> length (kr_entries k)"
    unfolding ring.left_def using card_mono [of "{..<length (kr_entries k)}"] by fastforce
  then have "ring.left R k < length (kr_entries k) + 1" by simp
  from convert_loop_returns [OF assms this, of 0] show ?thesis by simp
qed

definition sample_loop_env :: loop_env where
  "sample_loop_env =
     \<lparr>le_now = \<lambda>i. 5, le_convert = \<lambda>i c. if cl_token c = ''a'' then Some (Sentinel Daily_Limit) else None,
      le_mark = \<lambda>i. 6, le_before = \<lambda>i. [], le_during = \<lambda>i. [Op_Acquire 5], le_reset = \<lambda>t. 100\<rparr>"

theorem convert_source_witness:
  "\<exists>res k'. convert_source_loop sample_loop_env 3 0 (new_key_ring [''a'', ''b''] '''') = Some (res, k') \<and>
     loop_ended sample_loop_env [''a'', ''b''] 0 3 res k'"
proof -
  let ?k = "new_key_ring [''a'', ''b''] ''''"
  have "same_day 100 sample_loop_env" by (simp add: same_day_def pool_op_def sample_loop_env_def)
  moreover have "ring_ok ?k" by (simp add: new_key_ring_def ring_ok_new)
  moreover have "length (kr_entries ?k) + 1 = 3" "map re_token (kr_entries ?k) = [''a'', ''b'']"
    by (simp_all add: new_key_ring_def new_key_ring_from_entries_def)
  ultimately show ?thesis using convert_source_terminates [of 100 sample_loop_env ?k] by auto
qed

text \<open>In that run the second key serves after the first one is marked.\<close>

lemma sample_loop_result:
  "map_option (\<lambda>(res, k'). (res, map re_cooldown (kr_entries k')))
     (convert_source_loop sample_loop_env 3 0 (new_key_ring [''a'', ''b''] '''')) = Some (None, [100, 0])"
  by code_simp

section \<open>Slots across a removal\<close>

text \<open>A slot number does not survive a removal. When a goroutine has acquired a key and an
  administrator removes that key before the goroutine marks its daily limit, the mark lands on the
  key that moved into the slot: that key stays unusable until the reset although it never reached
  its limit.\<close>

theorem mark_hits_other_key:
  "let k = new_key_ring [''a'', ''b''] '''';
       (got, k1) = acquire 5 k;
       (removed, k2) = ring_remove_token ''a'' k1;
       k3 = mark_daily_limit 0 100 k2
   in map_option (\<lambda>(c, slot). (cl_token c, slot)) got = Some (''a'', 0) \<and> removed \<and>
      cooldown_of k2 ''b'' = Some 0 \<and> cooldown_of k3 ''b'' = Some 100 \<and> fst (acquire 99 k3) = None"
  by (simp add: new_key_ring_def new_key_ring_from_entries_def acquire_def ring_remove_token_def
      mark_daily_limit_def cooldown_of_def entry_free_def new_client_def wrap_cursor_def Let_def)

end
