(* ===== verification/Token_Admin.thy ===== *)
theory Token_Admin
  imports Key_Ring "HOL-Library.Product_Lexorder"
begin

text \<open>
  Rotation of the MinerU token pool at run time: the table of tokens
  (\<open>internal/mineru/tokenstore.go\<close>), the token operations of the converter
  (\<open>internal/mineru/converter.go\<close>) and the admin handlers over them
  (\<open>internal/routes/admin_mineru.go\<close>). \<open>tid\<close> stands for \<open>TokenID\<close>, the hexadecimal prefix
  of a SHA-256 hash; whether a database statement succeeds is an argument of the operation.
\<close>

section \<open>The token table\<close>

datatype admin_error = Err_Empty_Token | Err_Last_Token | Err_Token_Not_Found | Err_Not_Configured | Err_Db

record token_cell =
  tc_rotated :: instant
  tc_created :: instant

text \<open>A store without a pool is \<open>None\<close>. The primary key makes the table a map.\<close>

type_synonym token_table = "(string, token_cell) gomap"

fun sync_from_config :: "(string \<Rightarrow> bool) \<Rightarrow> instant \<Rightarrow> string set \<Rightarrow> string list \<Rightarrow> token_table
    \<Rightarrow> admin_error option \<times> token_table" where
  "sync_from_config db_ok dbnow seen [] tbl = (None, tbl)"
| "sync_from_config db_ok dbnow seen (tok # toks) tbl =
     (if tok = [] \<or> tok \<in> seen then sync_from_config db_ok dbnow seen toks tbl
      else if \<not> db_ok tok then (Some Err_Db, tbl)
      else sync_from_config db_ok dbnow (insert tok seen) toks
             (if map_of tbl tok = None
              then AList.update tok \<lparr>tc_rotated = dbnow, tc_created = dbnow\<rparr> tbl else tbl))"

text \<open>The order \<open>rotated_at, token\<close>; \<open>coll\<close> is the position of a token in the database's collation.\<close>

definition store_list :: "(string \<Rightarrow> nat) \<Rightarrow> token_table \<Rightarrow> (string \<times> token_cell) list" where
  "store_list coll tbl = sort_key (\<lambda>(tok, cell). (tc_rotated cell, coll tok)) tbl"

definition store_upsert :: "bool \<Rightarrow> instant \<Rightarrow> string \<Rightarrow> instant \<Rightarrow> token_table \<Rightarrow> admin_error + token_table" where
  "store_upsert db_ok dbnow token rotated tbl =
     (if \<not> db_ok then Inl Err_Db
      else Inr (AList.update token
             (case map_of tbl token of
                None \<Rightarrow> \<lparr>tc_rotated = rotated, tc_created = dbnow\<rparr>
              | Some cell \<Rightarrow> cell\<lparr>tc_rotated := rotated\<rparr>) tbl))"

definition store_delete :: "bool \<Rightarrow> string \<Rightarrow> token_table \<Rightarrow> admin_error option \<times> token_table" where
  "store_delete db_ok token tbl =
     (if \<not> db_ok then (Some Err_Db, tbl)
      else if map_of tbl token = None then (Some Err_Token_Not_Found, tbl)
      else (None, AList.delete token tbl))"

definition store_boot_sync :: "(string \<Rightarrow> bool) \<Rightarrow> bool \<Rightarrow> (string \<Rightarrow> nat) \<Rightarrow> instant \<Rightarrow> string list \<Rightarrow> token_table
    \<Rightarrow> (admin_error + token_entry list) \<times> token_table" where
  "store_boot_sync db_ok list_ok coll dbnow cfg_tokens tbl =
     (case sync_from_config db_ok dbnow {} cfg_tokens tbl of
        (Some e, tbl') \<Rightarrow> (Inl e, tbl')
      | (None, tbl') \<Rightarrow>
          if \<not> list_ok then (Inl Err_Db, tbl')
          else (Inr (map (\<lambda>(tok, cell). \<lparr>te_token = tok, te_rotated = tc_rotated cell\<rparr>)
                         (store_list coll tbl')), tbl'))"

definition mask_token :: "string \<Rightarrow> string" where
  "mask_token token =
     (if length token \<le> 6 + 4 + 2
      then (if length token = 0 then [] else ''***('' @ format_d (int (length token)) @ '' chars)'')
      else take 6 token @ bytes [226, 128, 166] @ drop (length token - 4) token)"

section \<open>The token operations of the converter\<close>

record pool_world =
  pw_access :: bool
  pw_store :: "token_table option"
  pw_ring :: key_ring
  pw_enabled :: bool
  pw_disabled_msg :: string

definition recompute_enabled :: "pool_world \<Rightarrow> pool_world" where
  "recompute_enabled w =
     (if \<not> pw_access w
      then w\<lparr>pw_enabled := False,
             pw_disabled_msg := ''asset downloads disabled (QATLAS_PAPER_ACCESS_ENABLED=false)''\<rparr>
      else if ring_size (pw_ring w) = 0
      then w\<lparr>pw_enabled := False,
             pw_disabled_msg := ''MinerU not configured (MINERU_API_TOKENS unset); cache-only mode''\<rparr>
      else w\<lparr>pw_enabled := True, pw_disabled_msg := []\<rparr>)"

record token_snapshot =
  sn_id :: string
  sn_masked :: string
  sn_rotated :: instant
  sn_cooldown :: "instant option"
  sn_available :: bool

definition tokens_snapshot :: "(string \<Rightarrow> string) \<Rightarrow> instant \<Rightarrow> key_ring \<Rightarrow> token_snapshot list" where
  "tokens_snapshot tid now k =
     map (\<lambda>st. \<lparr>sn_id = tid (ks_token st), sn_masked = mask_token (ks_token st), sn_rotated = ks_rotated st,
               sn_cooldown = (if ks_cooldown st = 0 then None else Some (ks_cooldown st)),
               sn_available = (ks_cooldown st = 0 \<or> \<not> now < ks_cooldown st)\<rparr>)
         (ring_states k)"

definition add_token :: "(string \<Rightarrow> string) \<Rightarrow> bool \<Rightarrow> instant \<Rightarrow> instant \<Rightarrow> string \<Rightarrow> pool_world
    \<Rightarrow> (admin_error + token_snapshot) \<times> pool_world" where
  "add_token tid db_ok now dbnow raw w =
     (let token = trim_space raw in
      if token = [] then (Inl Err_Empty_Token, w)
      else case (case pw_store w of
                   None \<Rightarrow> Inr None
                 | Some tbl \<Rightarrow> map_sum id Some (store_upsert db_ok dbnow token now tbl)) of
             Inl e \<Rightarrow> (Inl e, w)
           | Inr store' \<Rightarrow>
               let w' = recompute_enabled
                          (w\<lparr>pw_store := store', pw_ring := snd (ring_add_token token now (pw_ring w))\<rparr>)
               in case find (\<lambda>sn. sn_id sn = tid token) (tokens_snapshot tid now (pw_ring w')) of
                    Some sn \<Rightarrow> (Inr sn, w')
                  | None \<Rightarrow> (Inl Err_Empty_Token, w'))"

text \<open>
  \<open>RemoveToken\<close> takes the ring's mutex several times, so it is a sequence of steps other
  goroutines may run between: find the token in a copy of the states, read the size, delete the
  row, remove the ring entry, recompute the switch.
\<close>

datatype remove_pc =
    R_Find string | R_Size string | R_Delete string | R_Ring string | R_Recompute
  | R_Done "admin_error option"

fun remove_step :: "(string \<Rightarrow> string) \<Rightarrow> bool \<Rightarrow> remove_pc \<Rightarrow> pool_world \<Rightarrow> remove_pc \<times> pool_world" where
  "remove_step tid db_ok (R_Find i) w =
     (case find (\<lambda>st. tid (ks_token st) = i) (ring_states (pw_ring w)) of
        None \<Rightarrow> (R_Done (Some Err_Token_Not_Found), w)
      | Some st \<Rightarrow> (R_Size (ks_token st), w))"
| "remove_step tid db_ok (R_Size tok) w =
     (if ring_size (pw_ring w) \<le> 1 then (R_Done (Some Err_Last_Token), w) else (R_Delete tok, w))"
| "remove_step tid db_ok (R_Delete tok) w =
     (case pw_store w of
        None \<Rightarrow> (R_Ring tok, w)
      | Some tbl \<Rightarrow>
          (case store_delete db_ok tok tbl of
             (None, tbl') \<Rightarrow> (R_Ring tok, w\<lparr>pw_store := Some tbl'\<rparr>)
           | (Some e, tbl') \<Rightarrow>
               if e = Err_Token_Not_Found then (R_Ring tok, w) else (R_Done (Some e), w)))"
| "remove_step tid db_ok (R_Ring tok) w =
     (R_Recompute, w\<lparr>pw_ring := snd (ring_remove_token tok (pw_ring w))\<rparr>)"
| "remove_step tid db_ok R_Recompute w = (R_Done None, recompute_enabled w)"
| "remove_step tid db_ok (R_Done r) w = (R_Done r, w)"

text \<open>Five steps finish an undisturbed removal.\<close>

definition remove_token :: "(string \<Rightarrow> string) \<Rightarrow> bool \<Rightarrow> string \<Rightarrow> pool_world \<Rightarrow> remove_pc \<times> pool_world" where
  "remove_token tid db_ok i w =
     ((\<lambda>(pc, w). remove_step tid db_ok pc w) ^^ 5) (R_Find i, w)"

definition boot_sync_tokens :: "(string \<Rightarrow> bool) \<Rightarrow> bool \<Rightarrow> (string \<Rightarrow> nat) \<Rightarrow> instant \<Rightarrow> string list \<Rightarrow> pool_world
    \<Rightarrow> admin_error option \<times> pool_world" where
  "boot_sync_tokens db_ok list_ok coll dbnow cfg_tokens w =
     (case pw_store w of
        None \<Rightarrow> (Some Err_Not_Configured, w)
      | Some tbl \<Rightarrow>
          (case store_boot_sync db_ok list_ok coll dbnow cfg_tokens tbl of
             (Inl e, tbl') \<Rightarrow> (Some e, w\<lparr>pw_store := Some tbl'\<rparr>)
           | (Inr entries, tbl') \<Rightarrow>
               (None, recompute_enabled
                        (w\<lparr>pw_store := Some tbl', pw_ring := set_entries entries (pw_ring w)\<rparr>))))"

section \<open>The admin handlers\<close>

text \<open>
  A response is its status and what the body carries. The converter is absent (\<open>None\<close>) when it is
  not wired; \<open>decoded\<close> is the outcome of reading and decoding the request body.
\<close>

datatype pool_response =
    Resp_Unavailable | Resp_List bool "token_snapshot list" | Resp_Bad_Request
  | Resp_Token_Required | Resp_Internal admin_error | Resp_Created token_snapshot
  | Resp_Not_Found | Resp_Conflict | Resp_Removed string

definition response_status :: "pool_response \<Rightarrow> nat" where
  "response_status r =
     (case r of Resp_Unavailable \<Rightarrow> 503 | Resp_List _ _ \<Rightarrow> 200 | Resp_Bad_Request \<Rightarrow> 400
      | Resp_Token_Required \<Rightarrow> 400 | Resp_Internal _ \<Rightarrow> 500 | Resp_Created _ \<Rightarrow> 201
      | Resp_Not_Found \<Rightarrow> 404 | Resp_Conflict \<Rightarrow> 409 | Resp_Removed _ \<Rightarrow> 200)"

definition tokens_list_handler :: "(string \<Rightarrow> string) \<Rightarrow> instant \<Rightarrow> pool_world option \<Rightarrow> pool_response" where
  "tokens_list_handler tid now conv =
     (case conv of
        None \<Rightarrow> Resp_Unavailable
      | Some w \<Rightarrow> Resp_List (pw_store w \<noteq> None) (tokens_snapshot tid now (pw_ring w)))"

definition token_add_handler :: "(string \<Rightarrow> string) \<Rightarrow> bool \<Rightarrow> instant \<Rightarrow> instant \<Rightarrow> string option \<Rightarrow> pool_world option
    \<Rightarrow> pool_response \<times> pool_world option" where
  "token_add_handler tid db_ok now dbnow decoded conv =
     (case conv of
        None \<Rightarrow> (Resp_Unavailable, None)
      | Some w \<Rightarrow>
          (case decoded of
             None \<Rightarrow> (Resp_Bad_Request, Some w)
           | Some token \<Rightarrow>
               (case add_token tid db_ok now dbnow token w of
                  (Inl e, w') \<Rightarrow>
                    (if e = Err_Empty_Token then Resp_Token_Required else Resp_Internal e, Some w')
                | (Inr sn, w') \<Rightarrow> (Resp_Created sn, Some w'))))"

definition token_delete_handler :: "(string \<Rightarrow> string) \<Rightarrow> bool \<Rightarrow> string \<Rightarrow> pool_world option
    \<Rightarrow> pool_response \<times> pool_world option" where
  "token_delete_handler tid db_ok i conv =
     (case conv of
        None \<Rightarrow> (Resp_Unavailable, None)
      | Some w \<Rightarrow>
          (case remove_token tid db_ok i w of
             (R_Done None, w') \<Rightarrow> (Resp_Removed i, Some w')
           | (R_Done (Some e), w') \<Rightarrow>
               (case e of Err_Token_Not_Found \<Rightarrow> Resp_Not_Found | Err_Last_Token \<Rightarrow> Resp_Conflict
                | _ \<Rightarrow> Resp_Internal e, Some w')
           | (_, w') \<Rightarrow> (Resp_Internal Err_Db, Some w')))"

section \<open>Adding a token\<close>

abbreviation ring_tokens :: "key_ring \<Rightarrow> string list" where
  "ring_tokens k \<equiv> map re_token (kr_entries k)"

lemma recompute_frame [simp]:
  "pw_store (recompute_enabled w) = pw_store w" "pw_ring (recompute_enabled w) = pw_ring w"
  "pw_access (recompute_enabled w) = pw_access w"
  by (simp_all add: recompute_enabled_def)

lemma recompute_enabled_iff [simp]:
  "pw_enabled (recompute_enabled w) \<longleftrightarrow> pw_access w \<and> kr_entries (pw_ring w) \<noteq> []"
  by (simp add: recompute_enabled_def ring_size_def)

lemma ring_add_tokens:
  "token \<noteq> [] \<Longrightarrow> ring_tokens (snd (ring_add_token token t k)) =
     (if token \<in> set (ring_tokens k) then ring_tokens k else ring_tokens k @ [token])"
  using refresh_entry_None [of token t "kr_entries k"]
  by (cases "refresh_entry token t (kr_entries k)") (auto simp: ring_add_token_def dest: refresh_entry_Some)

lemma ring_add_cooldown:
  assumes "token \<noteq> []"
  shows "cooldown_of (snd (ring_add_token token t k)) =
     (cooldown_of k)(token \<mapsto> (case cooldown_of k token of None \<Rightarrow> 0 | Some c \<Rightarrow> c))"
proof (cases "refresh_entry token t (kr_entries k)")
  case None
  then have "cooldown_of k token = None"
    by (auto simp: refresh_entry_None cooldown_of_def map_of_eq_None_iff image_image)
  with None assms show ?thesis
    by (auto simp: ring_add_token_def cooldown_of_def fun_eq_iff map_add_def split: option.split)
next
  case (Some es)
  then have "cooldown_of (k\<lparr>kr_entries := es\<rparr>) = cooldown_of k"
    by (intro cooldown_of_same) (auto dest: refresh_entry_Some)
  moreover have "cooldown_of k token \<noteq> None"
    using refresh_entry_Some [OF Some] by (auto simp: cooldown_of_def map_of_eq_None_iff image_image)
  ultimately show ?thesis using Some assms by (auto simp: ring_add_token_def)
qed

text \<open>The refreshed or appended entry is the first one with the token's id, if ids do not collide.\<close>

lemma find_refreshed:
  "refresh_entry token t es = Some es' \<Longrightarrow> inj_on tid (insert token (set (map re_token es))) \<Longrightarrow>
     \<exists>e. find (\<lambda>e. tid (re_token e) = tid token) es' = Some e \<and> re_token e = token \<and> re_rotated e = t"
proof (induction es arbitrary: es')
  case (Cons e es)
  show ?case
  proof (cases "re_token e = token")
    case False
    with Cons.prems obtain fs where fs: "refresh_entry token t es = Some fs" "es' = e # fs" by auto
    have "inj_on tid (insert token (set (map re_token es)))"
      using Cons.prems(2) by (rule inj_on_subset) auto
    with Cons.IH fs(1) obtain f where "find (\<lambda>e. tid (re_token e) = tid token) fs = Some f"
      "re_token f = token" "re_rotated f = t" by blast
    moreover have "tid (re_token e) \<noteq> tid token" using Cons.prems(2) False by (auto simp: inj_on_def)
    ultimately show ?thesis using fs(2) by simp
  qed (use Cons.prems in auto)
qed simp

lemma find_appended:
  "token \<notin> set (map re_token es) \<Longrightarrow> inj_on tid (insert token (set (map re_token es))) \<Longrightarrow> re_token e = token \<Longrightarrow>
     find (\<lambda>e. tid (re_token e) = tid token) (es @ [e]) = Some e"
proof (induction es)
  case (Cons f es)
  have "inj_on tid (insert token (set (map re_token es)))"
    using Cons.prems(2) by (rule inj_on_subset) auto
  with Cons show ?case by (auto simp: inj_on_def)
qed simp

lemma find_map: "find P (map f xs) = map_option f (find (\<lambda>x. P (f x)) xs)"
  by (induction xs) auto

lemma find_map_snapshot:
  "find (\<lambda>sn. sn_id sn = i) (tokens_snapshot tid now k) =
     map_option (\<lambda>e. \<lparr>sn_id = tid (re_token e), sn_masked = mask_token (re_token e), sn_rotated = re_rotated e,
               sn_cooldown = (if re_cooldown e = 0 then None else Some (re_cooldown e)),
               sn_available = entry_free now e\<rparr>) (find (\<lambda>e. tid (re_token e) = i) (kr_entries k))"
  unfolding tokens_snapshot_def ring_states_def find_map
  by (simp add: comp_def option.map_comp entry_free_def cong: if_cong)

lemma add_token_found:
  assumes "token \<noteq> []" and "inj_on tid (insert token (set (ring_tokens k)))"
  shows "\<exists>e. find (\<lambda>e. tid (re_token e) = tid token) (kr_entries (snd (ring_add_token token t k))) = Some e \<and>
            re_token e = token \<and> re_rotated e = t"
proof (cases "refresh_entry token t (kr_entries k)")
  case None
  then have "token \<notin> set (ring_tokens k)" using refresh_entry_None by blast
  from find_appended [OF this assms(2)] None assms(1) show ?thesis by (simp add: ring_add_token_def)
next
  case (Some es)
  from find_refreshed [OF this assms(2)] Some assms(1) show ?thesis by (simp add: ring_add_token_def)
qed

text \<open>\<open>AddToken\<close> rotates a token in without losing state. A blank token or a failed database write
  changes nothing. Otherwise the answer is the snapshot of that token with the new rotation time,
  the pool has the token exactly once more if it was unknown and unchanged otherwise, every
  cooldown is kept (a known token under a quota cooldown stays under it), the row is written, and
  conversion is enabled exactly when the paper-access switch is on.\<close>

theorem add_token_effect:
  assumes "inj_on tid (insert (trim_space raw) (set (ring_tokens (pw_ring w))))"
  shows "(trim_space raw = [] \<longrightarrow> add_token tid db_ok now dbnow raw w = (Inl Err_Empty_Token, w)) \<and>
    (trim_space raw \<noteq> [] \<and> pw_store w \<noteq> None \<and> \<not> db_ok \<longrightarrow>
       add_token tid db_ok now dbnow raw w = (Inl Err_Db, w)) \<and>
    (trim_space raw \<noteq> [] \<and> (pw_store w = None \<or> db_ok) \<longrightarrow>
       (\<exists>sn w'. add_token tid db_ok now dbnow raw w = (Inr sn, w') \<and>
          sn_id sn = tid (trim_space raw) \<and> sn_rotated sn = now \<and>
          ring_tokens (pw_ring w') = (if trim_space raw \<in> set (ring_tokens (pw_ring w))
             then ring_tokens (pw_ring w) else ring_tokens (pw_ring w) @ [trim_space raw]) \<and>
          cooldown_of (pw_ring w') = (cooldown_of (pw_ring w))(trim_space raw \<mapsto>
             (case cooldown_of (pw_ring w) (trim_space raw) of None \<Rightarrow> 0 | Some c \<Rightarrow> c)) \<and>
          (\<forall>tbl. pw_store w = Some tbl \<longrightarrow> (\<exists>tbl'. pw_store w' = Some tbl' \<and>
             map_of tbl' = (map_of tbl)(trim_space raw \<mapsto>
               \<lparr>tc_rotated = now, tc_created = (case map_of tbl (trim_space raw) of
                  None \<Rightarrow> dbnow | Some cell \<Rightarrow> tc_created cell)\<rparr>))) \<and>
          pw_enabled w' = pw_access w))"
proof -
  let ?t = "trim_space raw"
  let ?k = "snd (ring_add_token ?t now (pw_ring w))"
  have "\<exists>sn w'. add_token tid db_ok now dbnow raw w = (Inr sn, w') \<and>
          sn_id sn = tid ?t \<and> sn_rotated sn = now \<and> pw_ring w' = ?k \<and>
          (\<forall>tbl. pw_store w = Some tbl \<longrightarrow> (\<exists>tbl'. pw_store w' = Some tbl' \<and>
             map_of tbl' = (map_of tbl)(?t \<mapsto> \<lparr>tc_rotated = now, tc_created = (case map_of tbl ?t of
                  None \<Rightarrow> dbnow | Some cell \<Rightarrow> tc_created cell)\<rparr>))) \<and>
          pw_enabled w' = pw_access w"
    if ne: "?t \<noteq> []" and ok: "pw_store w = None \<or> db_ok"
  proof -
    from add_token_found [OF ne assms, of now] obtain e where
      e: "find (\<lambda>e. tid (re_token e) = tid ?t) (kr_entries ?k) = Some e" "re_token e = ?t" "re_rotated e = now"
      by blast
    have "ring_tokens ?k \<noteq> []" using ring_add_tokens [OF ne, of now "pw_ring w"] by auto
    then have "kr_entries ?k \<noteq> []" by auto
    with e ne ok show ?thesis
      by (cases "pw_store w")
        (auto simp: add_token_def Let_def find_map_snapshot store_upsert_def gomap_simps split: option.split)
  qed
  with ring_add_tokens [of ?t now "pw_ring w"] ring_add_cooldown [of ?t now "pw_ring w"]
  show ?thesis
    by (auto simp: add_token_def Let_def store_upsert_def)
qed
text \<open>A pool of two keys, with its table.\<close>

definition sample_pool :: pool_world where
  "sample_pool =
     recompute_enabled
       \<lparr>pw_access = True,
        pw_store = Some [(''a'', \<lparr>tc_rotated = 1, tc_created = 1\<rparr>), (''b'', \<lparr>tc_rotated = 2, tc_created = 2\<rparr>)],
        pw_ring = mark_daily_limit 0 100 (new_key_ring [''a'', ''b''] ''''),
        pw_enabled = False, pw_disabled_msg = []\<rparr>"

lemma sample_pool_ring [simp]:
  "pw_ring sample_pool = mark_daily_limit 0 100 (new_key_ring [''a'', ''b''] '''')"
  "ring_tokens (mark_daily_limit 0 100 (new_key_ring [''a'', ''b''] '''')) = [''a'', ''b'']"
  "pw_access sample_pool"
  "pw_store sample_pool =
     Some [(''a'', \<lparr>tc_rotated = 1, tc_created = 1\<rparr>), (''b'', \<lparr>tc_rotated = 2, tc_created = 2\<rparr>)]"
  by (simp_all add: sample_pool_def mark_daily_limit_def new_key_ring_def new_key_ring_from_entries_def)

theorem add_token_witness:
  "\<exists>sn w'. add_token (\<lambda>t. t) True 7 7 ''a'' sample_pool = (Inr sn, w') \<and>
     cooldown_of (pw_ring w') ''a'' = Some 100 \<and> pw_enabled w'"
proof -
  have trim: "trim_space ''a'' = ''a''" by code_simp
  have "cooldown_of (mark_daily_limit 0 100 (new_key_ring [''a'', ''b''] '''')) ''a'' = Some 100"
    by (simp add: cooldown_of_def mark_daily_limit_def new_key_ring_def new_key_ring_from_entries_def)
  with add_token_effect [of "\<lambda>t. t" "''a''" sample_pool True 7 7] show ?thesis
    unfolding trim by auto
qed

section \<open>Removing a token\<close>

lemma drop_entry_remove1:
  "drop_entry token es = Some es' \<Longrightarrow> map re_token es' = remove1 token (map re_token es)"
  by (induction es arbitrary: es') (auto split: if_splits)

lemma ring_remove_tokens:
  "ring_tokens (snd (ring_remove_token token k)) = remove1 token (ring_tokens k)"
proof (cases "drop_entry token (kr_entries k)")
  case None
  then have "token \<notin> set (ring_tokens k)" using drop_entry_None by blast
  with None show ?thesis by (simp add: ring_remove_token_def remove1_idem)
qed (simp add: ring_remove_token_def drop_entry_remove1)

lemma find_SomeD: "find P xs = Some x \<Longrightarrow> x \<in> set xs \<and> P x"
  by (auto simp: find_Some_iff)

lemma states_tokens: "ks_token ` set (ring_states k) = set (ring_tokens k)"
  by (simp add: ring_states_def image_image)

lemma find_state:
  "find (\<lambda>st. tid (ks_token st) = i) (ring_states k) = None \<longleftrightarrow> i \<notin> tid ` set (ring_tokens k)"
  "find (\<lambda>st. tid (ks_token st) = i) (ring_states k) = Some st \<Longrightarrow>
     ks_token st \<in> set (ring_tokens k) \<and> tid (ks_token st) = i"
  unfolding states_tokens [symmetric] by (auto simp: find_None_iff dest!: find_SomeD)

lemma delete_absent: "map_of m k = None \<Longrightarrow> AList.delete k m = m"
  by (induction m) (auto split: if_splits)

lemma remove_token_unfold:
  "remove_token tid db_ok i w =
     (let st = (\<lambda>(pc, w). remove_step tid db_ok pc w) in st (st (st (st (st (R_Find i, w))))))"
  by (simp add: remove_token_def numeral_eq_Suc Let_def)

lemma remove_token_cases:
  "remove_token tid db_ok i w =
     (case find (\<lambda>st. tid (ks_token st) = i) (ring_states (pw_ring w)) of
        None \<Rightarrow> (R_Done (Some Err_Token_Not_Found), w)
      | Some st \<Rightarrow>
          if ring_size (pw_ring w) \<le> 1 then (R_Done (Some Err_Last_Token), w)
          else if pw_store w \<noteq> None \<and> \<not> db_ok then (R_Done (Some Err_Db), w)
          else (R_Done None, recompute_enabled
                 (w\<lparr>pw_store := map_option (AList.delete (ks_token st)) (pw_store w),
                    pw_ring := snd (ring_remove_token (ks_token st) (pw_ring w))\<rparr>)))"
proof (cases "find (\<lambda>st. tid (ks_token st) = i) (ring_states (pw_ring w))")
  case (Some st)
  show ?thesis
  proof (cases "ring_size (pw_ring w) \<le> 1")
    case False
    have same: "w\<lparr>pw_store := st, pw_ring := k\<rparr> = w\<lparr>pw_ring := k\<rparr>" if "pw_store w = st" for st k
      using that by (cases w) simp
    from False Some show ?thesis
      by (cases "pw_store w")
        (auto simp: same remove_token_unfold Let_def store_delete_def delete_absent split: option.splits)
  qed (use Some in \<open>simp add: remove_token_unfold Let_def\<close>)
qed (simp add: remove_token_unfold Let_def)

text \<open>An undisturbed removal answers exactly: 404 and no change when no token has the id, 409 and no
  change for the last token, 500 and no change when the row cannot be deleted, and otherwise 200,
  with one entry of a token with that id gone from the ring, its row gone from the table, and
  conversion still enabled as the switch says, for the ring keeps at least one key.\<close>

theorem remove_handler_exact:
  assumes "token_delete_handler tid db_ok i (Some w) = (resp, Some w')"
  shows "(response_status resp = 404 \<longleftrightarrow> i \<notin> tid ` set (ring_tokens (pw_ring w))) \<and>
    (response_status resp = 409 \<longleftrightarrow> i \<in> tid ` set (ring_tokens (pw_ring w)) \<and> ring_size (pw_ring w) = 1) \<and>
    (response_status resp \<noteq> 200 \<longrightarrow> w' = w) \<and>
    (response_status resp = 200 \<longrightarrow>
       (\<exists>tok \<in> set (ring_tokens (pw_ring w)). tid tok = i \<and>
          ring_tokens (pw_ring w') = remove1 tok (ring_tokens (pw_ring w)) \<and>
          pw_store w' = map_option (AList.delete tok) (pw_store w) \<and>
          1 \<le> ring_size (pw_ring w') \<and> pw_enabled w' = pw_access w))"
proof (cases "find (\<lambda>st. tid (ks_token st) = i) (ring_states (pw_ring w))")
  case None
  with assms find_state(1) [of tid i "pw_ring w"] show ?thesis
    by (auto simp: token_delete_handler_def remove_token_cases response_status_def)
next
  case (Some st)
  let ?t = "ks_token st"
  from find_state(2) [OF Some] have t: "?t \<in> set (ring_tokens (pw_ring w))" "tid ?t = i" by auto
  then have i: "i \<in> tid ` set (ring_tokens (pw_ring w))" by blast
  have size: "ring_size (pw_ring w) = length (ring_tokens (pw_ring w))" by (simp add: ring_size_def)
  show ?thesis
  proof (cases "ring_size (pw_ring w) \<le> 1")
    case True
    with t(1) size have "ring_size (pw_ring w) = 1"
      by (cases "ring_tokens (pw_ring w)") auto
    with True Some assms i show ?thesis
      by (auto simp: token_delete_handler_def remove_token_cases response_status_def)
  next
    case False
    let ?k = "snd (ring_remove_token ?t (pw_ring w))"
    have "ring_size ?k = ring_size (pw_ring w) - 1"
      using t(1) ring_remove_tokens [of ?t "pw_ring w"] by (metis ring_size_def length_map length_remove1)
    with False have "1 \<le> ring_size ?k" "kr_entries ?k \<noteq> []" by (auto simp: ring_size_def)
    with False Some assms i t show ?thesis
      by (auto simp: token_delete_handler_def remove_token_cases response_status_def ring_remove_tokens
          split: if_splits intro!: bexI [of _ ?t])
  qed
qed

theorem remove_handler_witness:
  "\<exists>w'. token_delete_handler (\<lambda>t. t) True ''a'' (Some sample_pool) = (Resp_Removed ''a'', Some w') \<and>
     ring_tokens (pw_ring w') = [''b'']"
proof -
  obtain st where "find (\<lambda>st. ks_token st = ''a'') (ring_states (pw_ring sample_pool)) = Some st"
    using find_state(1) [of "\<lambda>t. t" "''a''" "pw_ring sample_pool"] by auto
  moreover have "ring_size (pw_ring sample_pool) = 2"
    by (simp add: ring_size_def mark_daily_limit_def new_key_ring_def new_key_ring_from_entries_def)
  ultimately obtain w' where h: "token_delete_handler (\<lambda>t. t) True ''a'' (Some sample_pool) = (Resp_Removed ''a'', Some w')"
    by (simp add: token_delete_handler_def remove_token_cases del: sample_pool_ring)
  have "response_status (Resp_Removed ''a'') = 200" by (simp add: response_status_def)
  from mp [OF conjunct2 [OF conjunct2 [OF conjunct2 [OF remove_handler_exact [OF h]]]] this]
  have "ring_tokens (pw_ring w') = remove1 ''a'' (ring_tokens (pw_ring sample_pool))" by blast
  then have "ring_tokens (pw_ring w') = [''b'']" unfolding sample_pool_ring(1,2) by simp
  with h show ?thesis by (intro exI [of _ w'] conjI)
qed

text \<open>Two removals at once: both pass the size test before either takes its key out, and the pool
  of two keys ends empty with conversion switched off, although each request was answered as if
  a key were left.
\<close>

fun run_removals :: "(string \<Rightarrow> string) \<Rightarrow> bool list \<Rightarrow> remove_pc \<times> remove_pc \<Rightarrow> pool_world
    \<Rightarrow> (remove_pc \<times> remove_pc) \<times> pool_world" where
  "run_removals tid [] (p, q) w = ((p, q), w)"
| "run_removals tid (first # turns) (p, q) w =
     (if first then (let (p', w') = remove_step tid True p w in run_removals tid turns (p', q) w')
      else (let (q', w') = remove_step tid True q w in run_removals tid turns (p, q') w'))"

theorem concurrent_removals_empty_pool:
  "let ((p, q), w) = run_removals (\<lambda>t. t)
         [True, False, True, False, True, True, True, False, False, False]
         (R_Find ''a'', R_Find ''b'') sample_pool
   in p = R_Done None \<and> q = R_Done None \<and> kr_entries (pw_ring w) = [] \<and> \<not> pw_enabled w \<and>
      pw_store w = Some []"
  by code_simp

section \<open>Boot synchronisation\<close>

lemma sync_from_config_ok:
  "sync_from_config db_ok dbnow seen toks tbl = (None, tbl') \<Longrightarrow> gomap_ok tbl \<Longrightarrow> seen \<subseteq> dom (map_of tbl) \<Longrightarrow>
     gomap_ok tbl' \<and> set toks - {[]} \<subseteq> dom (map_of tbl') \<and>
     (\<forall>t cell. map_of tbl t = Some cell \<longrightarrow> map_of tbl' t = Some cell) \<and>
     (\<forall>t cell. map_of tbl' t = Some cell \<longrightarrow> map_of tbl t = Some cell \<or>
        t \<in> set toks - {[]} \<and> cell = \<lparr>tc_rotated = dbnow, tc_created = dbnow\<rparr>)"
proof (induction db_ok dbnow seen toks tbl rule: sync_from_config.induct)
  case (2 db_ok dbnow seen tok toks tbl)
  show ?case
  proof (cases "tok = [] \<or> tok \<in> seen")
    case True
    with 2 show ?thesis by auto
  next
    case False
    let ?tbl = "if map_of tbl tok = None
      then AList.update tok \<lparr>tc_rotated = dbnow, tc_created = dbnow\<rparr> tbl else tbl"
    from False 2(3) have db: "db_ok tok" by (auto split: if_splits)
    have "insert tok seen \<subseteq> dom (map_of ?tbl)" using 2(5) by (auto simp: gomap_simps)
    with 2 False db have "gomap_ok tbl' \<and> set toks - {[]} \<subseteq> dom (map_of tbl') \<and>
       (\<forall>t cell. map_of ?tbl t = Some cell \<longrightarrow> map_of tbl' t = Some cell) \<and>
       (\<forall>t cell. map_of tbl' t = Some cell \<longrightarrow> map_of ?tbl t = Some cell \<or>
          t \<in> set toks - {[]} \<and> cell = \<lparr>tc_rotated = dbnow, tc_created = dbnow\<rparr>)"
      by (intro 2(2)) auto
    moreover have "map_of ?tbl t = Some cell" if "map_of tbl t = Some cell" for t cell
      using that by (auto simp: gomap_simps)
    moreover have "map_of tbl t = Some cell \<or> t = tok \<and> cell = \<lparr>tc_rotated = dbnow, tc_created = dbnow\<rparr>"
      if "map_of ?tbl t = Some cell" for t cell
      using that by (auto simp: gomap_simps split: if_splits)
    moreover have "\<exists>cell. map_of ?tbl tok = Some cell" by (auto simp: gomap_simps)
    ultimately show ?thesis using False by (simp (no_asm_simp)) blast
  qed
qed auto

lemma store_list_set: "set (store_list coll tbl) = set tbl"
  by (simp add: store_list_def)

lemma store_list_distinct:
  assumes "gomap_ok tbl"
  shows "distinct (map fst (store_list coll tbl))"
proof -
  have "distinct (store_list coll tbl)"
    using assms by (simp add: store_list_def gomap_ok_def distinct_map)
  moreover have "inj_on fst (set (store_list coll tbl))"
    using assms by (simp add: store_list_set gomap_ok_def distinct_map)
  ultimately show ?thesis by (simp add: distinct_map)
qed

lemma boot_entries:
  assumes "gomap_ok tbl" and "[] \<notin> fst ` set tbl"
  shows "ring_tokens (set_entries
           (map (\<lambda>(tok, cell). \<lparr>te_token = tok, te_rotated = tc_rotated cell\<rparr>) (store_list coll tbl)) k)
         = map fst (store_list coll tbl)"
proof -
  have "filter (\<lambda>en. te_token en \<noteq> [])
      (map (\<lambda>(tok, cell). \<lparr>te_token = tok, te_rotated = tc_rotated cell\<rparr>) (store_list coll tbl)) =
      map (\<lambda>(tok, cell). \<lparr>te_token = tok, te_rotated = tc_rotated cell\<rparr>) (store_list coll tbl)"
    using assms(2) by (auto simp: filter_id_conv store_list_set) force
  then show ?thesis by (simp add: set_entries_def comp_def case_prod_beta)
qed

text \<open>Boot synchronisation makes the table authoritative. When it succeeds the pool holds exactly
  the tokens of the table, once each, oldest rotation first, and conversion follows the switch and
  the pool; every configured token is in the table, a row that was there keeps its rotation time, a
  token that stays in the pool keeps its cooldown and a new one is free. When it fails the pool is
  left alone.\<close>

theorem boot_sync_authoritative:
  assumes "pw_store w = Some tbl" and "gomap_ok tbl" and "[] \<notin> fst ` set tbl" and "tokens_distinct (pw_ring w)"
  shows "case boot_sync_tokens db_ok list_ok coll dbnow cfg_tokens w of
      (None, w') \<Rightarrow>
        (\<exists>tbl'. pw_store w' = Some tbl' \<and> gomap_ok tbl' \<and> set cfg_tokens - {[]} \<subseteq> dom (map_of tbl') \<and>
           (\<forall>t cell. map_of tbl t = Some cell \<longrightarrow> map_of tbl' t = Some cell) \<and>
           ring_tokens (pw_ring w') = map fst (store_list coll tbl') \<and>
           set (ring_tokens (pw_ring w')) = dom (map_of tbl')) \<and>
        tokens_distinct (pw_ring w') \<and>
        (\<forall>t c. cooldown_of (pw_ring w') t = Some c \<longrightarrow>
           c = (case cooldown_of (pw_ring w) t of Some cd \<Rightarrow> cd | None \<Rightarrow> 0)) \<and>
        (pw_enabled w' \<longleftrightarrow> pw_access w \<and> ring_tokens (pw_ring w') \<noteq> [])
    | (Some e, w') \<Rightarrow> pw_ring w' = pw_ring w \<and> pw_enabled w' = pw_enabled w"
proof -
  obtain r tbl' where sync: "sync_from_config db_ok dbnow {} cfg_tokens tbl = (r, tbl')"
    by (cases "sync_from_config db_ok dbnow {} cfg_tokens tbl")
  show ?thesis
  proof (cases "r = None \<and> list_ok")
    case False
    with sync assms(1) show ?thesis
      by (cases r) (auto simp: boot_sync_tokens_def store_boot_sync_def)
  next
    case True
    let ?es = "map (\<lambda>(tok, cell). \<lparr>te_token = tok, te_rotated = tc_rotated cell\<rparr>) (store_list coll tbl')"
    let ?k = "set_entries ?es (pw_ring w)"
    from sync_from_config_ok [of db_ok dbnow "{}" cfg_tokens tbl tbl'] sync True assms(2)
    have ok: "gomap_ok tbl'" and cfg: "set cfg_tokens - {[]} \<subseteq> dom (map_of tbl')"
      and old: "\<forall>t cell. map_of tbl t = Some cell \<longrightarrow> map_of tbl' t = Some cell"
      and new: "\<forall>t cell. map_of tbl' t = Some cell \<longrightarrow> map_of tbl t = Some cell \<or>
        t \<in> set cfg_tokens - {[]} \<and> cell = \<lparr>tc_rotated = dbnow, tc_created = dbnow\<rparr>"
      by auto
    have "map_of tbl [] = None" using assms(3) by (simp add: map_of_eq_None_iff)
    have "map_of tbl' [] \<noteq> Some cell" for cell
      using new [rule_format, of "[]" cell] \<open>map_of tbl [] = None\<close> by auto
    then have "map_of tbl' [] = None" by (cases "map_of tbl' []") blast+
    then have "[] \<notin> fst ` set tbl'" by (simp add: map_of_eq_None_iff)
    note toks = boot_entries [OF ok this, of coll "pw_ring w"]
    have "set (ring_tokens ?k) = dom (map_of tbl')"
      unfolding toks by (simp add: store_list_set dom_map_of_conv_image_fst)
    moreover have "tokens_distinct ?k"
      unfolding tokens_distinct_def toks by (rule store_list_distinct [OF ok])
    moreover have "kr_entries ?k \<noteq> [] \<longleftrightarrow> ring_tokens ?k \<noteq> []" by simp
    moreover have "boot_sync_tokens db_ok list_ok coll dbnow cfg_tokens w =
        (None, recompute_enabled (w\<lparr>pw_store := Some tbl', pw_ring := ?k\<rparr>))"
      using assms(1) sync True by (simp add: boot_sync_tokens_def store_boot_sync_def)
    ultimately show ?thesis
      using ok cfg old toks cooldown_of_set [OF assms(4)] by (simp del: set_map)
  qed
qed

theorem boot_sync_witness:
  "\<exists>w'. boot_sync_tokens (\<lambda>t. True) True length 9 [''c'', ''a''] sample_pool = (None, w') \<and>
     cooldown_of (pw_ring w') ''a'' \<in> {None, Some 100} \<and> tokens_distinct (pw_ring w')"
proof -
  let ?r = "boot_sync_tokens (\<lambda>t. True) True length 9 [''c'', ''a''] sample_pool"
  let ?tbl = "[(''a'', \<lparr>tc_rotated = 1, tc_created = 1\<rparr>), (''b'', \<lparr>tc_rotated = 2, tc_created = 2\<rparr>)]"
  have none: "fst ?r = None"
    by (simp add: boot_sync_tokens_def store_boot_sync_def sample_pool_def recompute_enabled_def)
  have cd: "cooldown_of (pw_ring sample_pool) ''a'' = Some 100"
    by (simp add: cooldown_of_def mark_daily_limit_def new_key_ring_def new_key_ring_from_entries_def)
  have pre: "gomap_ok ?tbl" "[] \<notin> fst ` set ?tbl" "tokens_distinct (pw_ring sample_pool)"
    by (simp_all add: gomap_ok_def tokens_distinct_def)
  obtain w' where w': "?r = (None, w')" using none by (cases ?r) simp
  from boot_sync_authoritative [OF sample_pool_ring(4) pre, where db_ok = "\<lambda>t. True" and list_ok = True
        and coll = length and dbnow = 9 and cfg_tokens = "[''c'', ''a'']"]
  have "tokens_distinct (pw_ring w')" "\<forall>t c. cooldown_of (pw_ring w') t = Some c \<longrightarrow>
           c = (case cooldown_of (pw_ring sample_pool) t of Some cd \<Rightarrow> cd | None \<Rightarrow> 0)"
    unfolding w' by simp_all
  then have "c = 100" if "cooldown_of (pw_ring w') ''a'' = Some c" for c
    using that cd by fastforce
  with w' \<open>tokens_distinct (pw_ring w')\<close> show ?thesis by (cases "cooldown_of (pw_ring w') ''a''") auto
qed

section \<open>Masked previews\<close>

text \<open>A preview depends only on the length class and on the ten outer characters: tokens that differ in
  the middle alone look the same, and a short token shows nothing but its length.\<close>

lemma mask_token_hides:
  "length p = 6 \<Longrightarrow> length s = 4 \<Longrightarrow> 3 \<le> length m \<Longrightarrow> mask_token (p @ m @ s) = p @ bytes [226, 128, 166] @ s"
  "length t \<le> 12 \<Longrightarrow> length t' = length t \<Longrightarrow> mask_token t' = mask_token t"
  by (auto simp: mask_token_def)

end
