(* ===== verification/Converter.thy ===== *)
theory Converter
  imports Mineru_Errors "HOL-Library.List_Lexorder" "HOL-Library.Char_ord"
begin

text \<open>
  The conversion jobs of \<open>internal/mineru/converter.go\<close> and \<open>source.go\<close>: the job table with its
  aliases, lookup with queue position and estimate, the window of recent durations, and the life
  of a job from \<open>EnsureSource\<close> through \<open>runJob\<close>. The goroutines interleave; every section under
  the converter's mutex, every use of the semaphore and every counter update is a step.
\<close>

section \<open>Jobs\<close>

datatype job_state = Queued | Running | Done | Failed

datatype phase = Phase_None | Fetching_PDF | Converting_MD | Ready | Error_Fetching | Error_Converting

record fetch_progress =
  fp_started :: instant
  fp_completed :: instant
  fp_received :: int
  fp_total :: int
  fp_sha :: string
  fp_attempts :: int

record convert_progress =
  cp_started :: instant
  cp_completed :: instant
  cp_task :: string
  cp_stage :: string
  cp_polled :: int

record queue_snapshot =
  qs_position :: nat
  qs_ahead :: nat
  qs_running :: nat
  qs_max :: nat
  qs_eta :: int
  qs_basis :: string
  qs_avg :: duration

record job =
  j_paper :: string
  j_source :: string
  j_revision :: string
  j_sha :: string
  j_canonical :: string
  j_state :: job_state
  j_phase :: phase
  j_submitted :: instant
  j_started :: instant
  j_finished :: instant
  j_err :: "go_error option"
  j_err_kind :: "err_kind option"
  j_cooldown :: instant
  j_fetch :: "fetch_progress option"
  j_convert :: "convert_progress option"
  j_queue :: "queue_snapshot option"
  j_parse_after_fetch :: bool

text \<open>The zero value of \<open>Job\<close>; composite literals set some of its fields.\<close>

definition zero_job :: job where
  "zero_job =
     \<lparr>j_paper = [], j_source = [], j_revision = [], j_sha = [], j_canonical = [], j_state = Queued,
      j_phase = Phase_None, j_submitted = 0, j_started = 0, j_finished = 0, j_err = None,
      j_err_kind = None, j_cooldown = 0, j_fetch = None, j_convert = None, j_queue = None,
      j_parse_after_fetch = False\<rparr>"

definition live :: "job \<Rightarrow> bool" where
  "live j \<longleftrightarrow> j_state j = Queued \<or> j_state j = Running"

section \<open>Recent durations\<close>

text \<open>The array of \<open>convertHistoryCap\<close> slots with its write index and the number of finishes.\<close>

definition convert_history_cap :: nat where "convert_history_cap = 20"

record durations =
  du_slots :: "duration list"
  du_count :: nat
  du_idx :: nat

definition empty_durations :: durations where
  "empty_durations = \<lparr>du_slots = replicate convert_history_cap 0, du_count = 0, du_idx = 0\<rparr>"

definition record_convert_duration :: "duration \<Rightarrow> durations \<Rightarrow> durations" where
  "record_convert_duration d du =
     (if d \<le> 0 then du
      else \<lparr>du_slots = (du_slots du)[du_idx du := d],
            du_count = du_count du + 1,
            du_idx = (du_idx du + 1) mod convert_history_cap\<rparr>)"

definition avg_convert_duration :: "durations \<Rightarrow> duration \<times> nat" where
  "avg_convert_duration du =
     (let n = (if convert_history_cap < du_count du then convert_history_cap else du_count du) in
      if n = 0 then (0, 0)
      else (go_div (sum_list (take n (du_slots du))) (int n), n))"

section \<open>Queue position and estimate\<close>

type_synonym job_table = "(string, job) gomap"

text \<open>A queued job comes before another by submission time, then by key.\<close>

definition queued_before :: "string \<Rightarrow> job \<Rightarrow> string \<Rightarrow> job \<Rightarrow> bool" where
  "queued_before k other canonical job \<longleftrightarrow>
     j_submitted other < j_submitted job \<or> j_submitted other = j_submitted job \<and> k < canonical"

definition count_running :: "job_table \<Rightarrow> nat" where
  "count_running jobs = length (filter (\<lambda>(k, other). j_state other = Running) jobs)"

definition count_ahead :: "string \<Rightarrow> job \<Rightarrow> job_table \<Rightarrow> nat" where
  "count_ahead canonical job jobs =
     length (filter (\<lambda>(k, other). j_state other = Queued \<and> k \<noteq> canonical \<and>
                                  queued_before k other canonical job) jobs)"

text \<open>\<open>Duration.Seconds\<close> truncated to an integer; its floating point rounding is left out.\<close>

definition whole_seconds :: "duration \<Rightarrow> int" where
  "whole_seconds d = go_div d (int second)"

definition queue_snapshot_for :: "nat \<Rightarrow> duration \<Rightarrow> durations \<Rightarrow> job_table \<Rightarrow> string \<Rightarrow> job \<Rightarrow> queue_snapshot" where
  "queue_snapshot_for sem_cap timeout du jobs canonical job =
     (let max_conc = (if sem_cap < 1 then 1 else sem_cap);
          (avg0, samples) = avg_convert_duration du;
          avg = (if samples = 0 then go_div timeout 2 else avg0);
          basis = (if samples = 0 then ''default_no_history''
                   else ''observed_avg_of_'' @ format_d (int samples) @ ''_jobs'');
          ahead = count_ahead canonical job jobs;
          running = count_running jobs;
          qs = \<lparr>qs_position = 0, qs_ahead = ahead, qs_running = running, qs_max = max_conc, qs_eta = 0,
                qs_basis = basis, qs_avg = avg\<rparr>
      in if j_state job = Queued
         then let effective = ahead + running;
                  batches0 = (effective + max_conc - 1) div max_conc;
                  batches = (if batches0 < 1 then 1 else batches0)
              in qs\<lparr>qs_position := ahead + 1, qs_eta := whole_seconds (int batches * avg)\<rparr>
         else qs)"

section \<open>The converter\<close>

record counters =
  n_submitted :: nat
  n_succeeded :: nat
  n_failures :: failure_counters
  n_cache_hits :: nat
  n_cache_misses :: nat
  n_inflight :: int
  n_fetches :: nat
  n_fetch_succeeded :: nat
  n_fetch_failed :: nat
  n_inflight_fetches :: int

record converter =
  cv_access :: bool
  cv_timeout :: duration
  cv_sem_cap :: nat
  cv_sem :: nat
  cv_jobs :: job_table
  cv_aliases :: "string \<rightharpoonup> string"
  cv_durations :: durations
  cv_counters :: counters

definition new_converter :: "bool \<Rightarrow> duration \<Rightarrow> int \<Rightarrow> converter" where
  "new_converter access timeout max_jobs =
     \<lparr>cv_access = access,
      cv_timeout = (if timeout \<le> 0 then 30 * 60 * int second else timeout),
      cv_sem_cap = (if max_jobs < 1 then 1 else nat max_jobs),
      cv_sem = 0, cv_jobs = [], cv_aliases = Map.empty, cv_durations = empty_durations,
      cv_counters = \<lparr>n_submitted = 0, n_succeeded = 0,
                     n_failures = \<lparr>fc_fatal = 0, fc_retryable = 0, fc_daily = 0\<rparr>,
                     n_cache_hits = 0, n_cache_misses = 0, n_inflight = 0,
                     n_fetches = 0, n_fetch_succeeded = 0, n_fetch_failed = 0, n_inflight_fetches = 0\<rparr>\<rparr>"

definition transition :: "string \<Rightarrow> (job \<Rightarrow> job) \<Rightarrow> converter \<Rightarrow> converter" where
  "transition canonical mutate c =
     (case map_of (cv_jobs c) canonical of
        None \<Rightarrow> c
      | Some j \<Rightarrow> c\<lparr>cv_jobs := AList.update canonical (mutate j) (cv_jobs c)\<rparr>)"

definition lookup_job :: "converter \<Rightarrow> string \<Rightarrow> job option" where
  "lookup_job c requested =
     (let canonical = (case cv_aliases c requested of Some key \<Rightarrow> key | None \<Rightarrow> requested) in
      case map_of (cv_jobs c) canonical of
        None \<Rightarrow> None
      | Some j \<Rightarrow>
          (let cp = (if requested \<noteq> canonical \<and> \<not> prefix ''source:'' requested
                     then j\<lparr>j_canonical := trim_prefix ''doi:'' requested\<rparr> else j)
           in if j_state cp = Queued \<or> j_state cp = Running
              then Some (cp\<lparr>j_queue := Some (queue_snapshot_for (cv_sem_cap c) (cv_timeout c)
                              (cv_durations c) (cv_jobs c) canonical cp)\<rparr>)
              else Some cp))"

section \<open>EnsureSource\<close>

record paper_source =
  ps_paper :: string
  ps_source :: string
  ps_sha :: string

record ready_bundle =
  rb_source :: string
  rb_source_sha :: string
  rb_revision :: string

definition source_alias :: "string \<Rightarrow> string \<Rightarrow> string" where
  "source_alias paper source = ''source:'' @ paper @ '':'' @ source"

definition source_job_key :: "paper_source \<Rightarrow> string" where
  "source_job_key src = source_alias (ps_paper src) (ps_source src) @ '':'' @ ps_sha src"

text \<open>
  A failed read is reported as a job that is not recorded: retryable unless the error is of the
  data itself (\<open>data_err\<close>: fatal kind, missing DOI source, not found, integrity or invalid).
\<close>

definition storage_read_failure :: "string \<Rightarrow> go_error \<Rightarrow> job" where
  "storage_read_failure canonical err =
     zero_job\<lparr>j_canonical := canonical, j_state := Failed,
       j_err := Some (Wrapped ''object storage unavailable'' err), j_err_kind := Some Retryable\<rparr>"

definition source_failure :: "bool \<Rightarrow> string \<Rightarrow> string \<Rightarrow> go_error \<Rightarrow> job" where
  "source_failure data_err paper source err =
     (let j = (storage_read_failure source err)\<lparr>j_paper := paper, j_source := source\<rparr> in
      if is_kind Fatal err \<or> is_no_doi_source err \<or> data_err
      then j\<lparr>j_err_kind := Some Fatal, j_err := Some err\<rparr> else j)"

definition fatal_error :: "string \<Rightarrow> go_error" where
  "fatal_error msg = Api \<lparr>er_msg = msg, er_code = [], er_status = 0, er_kind = Some Fatal\<rparr>"

text \<open>
  What \<open>EnsureSource\<close> learns outside the mutex: the frozen source or an error, the ready bundle
  if there is one or an error, the enabled switch with its message, and the minted revision id.
\<close>

record ensure_input =
  en_frozen :: "(go_error \<times> bool) + paper_source"
  en_ready :: "(go_error \<times> bool) + ready_bundle option"
  en_enabled :: bool
  en_disabled_msg :: string
  en_revision :: string

text \<open>The answer, the new state and, when a worker goroutine is started, its key.\<close>

definition ensure_source :: "string \<Rightarrow> string \<Rightarrow> ensure_input \<Rightarrow> instant \<Rightarrow> converter \<Rightarrow> job \<times> converter \<times> string option" where
  "ensure_source paper source inp now c =
     (if \<not> cv_access c
      then (source_failure False paper source (fatal_error ''paper access disabled''), c, None)
      else case en_frozen inp of
        Inl (err, data_err) \<Rightarrow> (source_failure data_err paper source err, c, None)
      | Inr src \<Rightarrow>
        (case en_ready inp of
          Inl (err, data_err) \<Rightarrow> (source_failure data_err paper source err, c, None)
        | Inr ready \<Rightarrow>
          (let key = source_job_key src;
               c1 = c\<lparr>cv_aliases := (cv_aliases c)(source_alias paper source \<mapsto> key)\<rparr>;
               hit = (case ready of
                        Some b \<Rightarrow> rb_source b = ps_source src \<and> rb_source_sha b = ps_sha src
                      | None \<Rightarrow> False)
           in if hit
              then (let job = zero_job\<lparr>j_canonical := source, j_paper := paper, j_source := source,
                               j_sha := ps_sha src, j_revision := rb_revision (the ready), j_state := Done,
                               j_phase := Ready, j_finished := now\<rparr>;
                        c2 = c1\<lparr>cv_counters := (cv_counters c)\<lparr>n_cache_hits := n_cache_hits (cv_counters c) + 1\<rparr>\<rparr>;
                        busy = (case map_of (cv_jobs c) key of Some e \<Rightarrow> live e | None \<Rightarrow> False)
                    in (job, if busy then c2 else c2\<lparr>cv_jobs := AList.update key job (cv_jobs c)\<rparr>, None))
              else
                (let c2 = c\<lparr>cv_counters := (cv_counters c)\<lparr>n_cache_misses := n_cache_misses (cv_counters c) + 1\<rparr>\<rparr> in
                 if \<not> en_enabled inp
                 then (source_failure False paper source (fatal_error (en_disabled_msg inp)), c2, None)
                 else
                   (let c3 = c2\<lparr>cv_aliases := cv_aliases c1\<rparr> in
                    case map_of (cv_jobs c) key of
                      Some e \<Rightarrow>
                        if live e \<or> j_state e = Failed \<and> now < j_cooldown e then (e, c3, None)
                        else (let job = zero_job\<lparr>j_canonical := source, j_paper := paper, j_source := source,
                                          j_sha := ps_sha src, j_revision := en_revision inp, j_state := Queued,
                                          j_submitted := now\<rparr>
                              in (job, c3\<lparr>cv_jobs := AList.update key job (cv_jobs c)\<rparr>, Some key))
                    | None \<Rightarrow>
                        (let job = zero_job\<lparr>j_canonical := source, j_paper := paper, j_source := source,
                                     j_sha := ps_sha src, j_revision := en_revision inp, j_state := Queued,
                                     j_submitted := now\<rparr>
                         in (job, c3\<lparr>cv_jobs := AList.update key job (cv_jobs c)\<rparr>, Some key)))))))"

section \<open>The duration window\<close>

definition recorded :: "duration list \<Rightarrow> durations" where
  "recorded ds = foldl (\<lambda>du d. record_convert_duration d du) empty_durations ds"

definition last_window :: "'a list \<Rightarrow> 'a list" where
  "last_window ps = drop (length ps - convert_history_cap) ps"

text \<open>The array holds the durations \<open>ps\<close> recorded so far: the last twenty of them at their index modulo twenty.\<close>

definition holds :: "durations \<Rightarrow> duration list \<Rightarrow> bool" where
  "holds du ps \<longleftrightarrow> length (du_slots du) = 20 \<and> du_count du = length ps \<and> du_idx du = length ps mod 20 \<and>
     (\<forall>m. length ps \<le> m + 20 \<and> m < length ps \<longrightarrow> du_slots du ! (m mod 20) = ps ! m)"

lemma holds_empty: "holds empty_durations []"
  by (simp add: holds_def empty_durations_def convert_history_cap_def)

lemma window_mod:
  fixes m m' l :: nat
  assumes "l \<le> m + 20" "m < l" "l \<le> m' + 20" "m' < l" "m mod 20 = m' mod 20"
  shows "m = m'"
proof -
  have "20 dvd m' - m" "20 dvd m - m'"
    using assms(5) by (metis mod_eq_dvd_iff_nat nat_le_linear diff_is_0_eq dvd_0_right)+
  moreover have "m' - m < 20" "m - m' < 20" using assms by linarith+
  ultimately have "m' - m = 0" "m - m' = 0"
    using nat_dvd_not_less [of "m' - m" 20] nat_dvd_not_less [of "m - m'" 20] by auto
  then show ?thesis by simp
qed

lemma holds_record:
  assumes "holds du ps" and "0 < d"
  shows "holds (record_convert_duration d du) (ps @ [d])"
proof -
  let ?l = "length ps"
  have "(du_slots du)[?l mod 20 := d] ! (m mod 20) = (ps @ [d]) ! m"
    if "?l + 1 \<le> m + 20" "m < ?l + 1" for m
  proof (cases "m = ?l")
    case True
    with assms(1) show ?thesis by (simp add: holds_def)
  next
    case False
    with that have m: "m < ?l" by simp
    then have "m mod 20 \<noteq> ?l mod 20"
      using window_mod [of "?l + 1" m ?l] that by auto
    with m that assms(1) show ?thesis by (simp add: holds_def nth_append)
  qed
  with assms show ?thesis
    by (simp add: record_convert_duration_def holds_def convert_history_cap_def mod_Suc_eq)
qed

lemma holds_recorded: "holds (recorded ds) (filter (\<lambda>d. 0 < d) ds)"
proof (induction ds rule: rev_induct)
  case (snoc d ds)
  then show ?case
    using holds_record [of "recorded ds" "filter (\<lambda>d. 0 < d) ds" d]
    by (auto simp: recorded_def record_convert_duration_def)
qed (simp add: recorded_def holds_empty)

lemma window_sum:
  assumes "holds du ps"
  shows "sum_list (take (min 20 (length ps)) (du_slots du)) = sum_list (drop (length ps - 20) ps)"
proof -
  let ?l = "length ps" and ?n = "min 20 (length ps)"
  have "sum_list (take ?n (du_slots du)) = (\<Sum>i<?n. du_slots du ! i)"
    using assms by (simp add: sum_list_sum_nth holds_def atLeast0LessThan)
  also have "\<dots> = (\<Sum>m\<in>{?l - 20..<?l}. du_slots du ! (m mod 20))"
  proof (rule sum.reindex_bij_betw [symmetric])
    have inj: "inj_on (\<lambda>m. m mod 20) {?l - 20..<?l}"
      by (rule inj_onI) (rule window_mod [of ?l]; auto)
    have "(\<lambda>m. m mod 20) ` {?l - 20..<?l} \<subseteq> {..<?n}"
      by (auto intro: le_less_trans [OF mod_less_eq_dividend])
    then have "(\<lambda>m. m mod 20) ` {?l - 20..<?l} = {..<?n}"
      by (rule card_subset_eq [OF finite_lessThan]) (simp add: card_image [OF inj])
    with inj show "bij_betw (\<lambda>m. m mod 20) {?l - 20..<?l} {..<?n}" by (simp add: bij_betw_def)
  qed
  also have "\<dots> = (\<Sum>m\<in>{?l - 20..<?l}. ps ! m)"
    using assms by (intro sum.cong) (auto simp: holds_def)
  also have "\<dots> = sum_list (drop (?l - 20) ps)"
    by (simp add: sum_list_sum_nth sum.atLeastLessThan_shift_0 [of _ "?l - 20"] atLeast0LessThan add.commute)
  finally show ?thesis .
qed

text \<open>The ring buffer implements the window. After any sequence of finishes the average and its sample
  count are those of the twenty most recent positive durations, and durations that are not positive
  leave no trace.\<close>

theorem avg_is_window_mean:
  "avg_convert_duration (recorded ds) =
     (let w = last_window (filter (\<lambda>d. 0 < d) ds) in
      if w = [] then (0, 0) else (sum_list w div int (length w), length w))"
proof -
  let ?ps = "filter (\<lambda>d. 0 < d) ds"
  have h: "holds (recorded ds) ?ps" by (rule holds_recorded)
  have n: "(if convert_history_cap < du_count (recorded ds) then convert_history_cap else du_count (recorded ds))
      = min 20 (length ?ps)"
    using h by (simp add: convert_history_cap_def holds_def)
  have w: "last_window ?ps = drop (length ?ps - 20) ?ps"
    by (simp add: last_window_def convert_history_cap_def)
  then have len: "length (last_window ?ps) = min 20 (length ?ps)" by simp
  have "0 \<le> sum_list (last_window ?ps)"
    unfolding w by (rule sum_list_nonneg) (auto dest!: in_set_dropD)
  moreover have "sum_list (take (min 20 (length ?ps)) (du_slots (recorded ds))) = sum_list (last_window ?ps)"
    unfolding w by (rule window_sum [OF h])
  ultimately show ?thesis
    unfolding avg_convert_duration_def Let_def n len [symmetric] by auto
qed

section \<open>The order of the queue\<close>

text \<open>The place of a queued job: its submission time, then its key.\<close>

datatype queue_place = Place (place_time: instant) (place_key: string)

instantiation queue_place :: linorder
begin

definition less_queue_place :: "queue_place \<Rightarrow> queue_place \<Rightarrow> bool" where
  "less_queue_place a b \<longleftrightarrow>
     place_time a < place_time b \<or> place_time a = place_time b \<and> place_key a < place_key b"

definition less_eq_queue_place :: "queue_place \<Rightarrow> queue_place \<Rightarrow> bool" where
  "less_eq_queue_place a b \<longleftrightarrow> a = b \<or> a < b"

instance
proof
  fix a b c :: queue_place
  show "a < b \<longleftrightarrow> a \<le> b \<and> \<not> b \<le> a"
    by (auto simp: less_queue_place_def less_eq_queue_place_def)
  show "a \<le> a" by (simp add: less_eq_queue_place_def)
  show "a \<le> b \<Longrightarrow> b \<le> c \<Longrightarrow> a \<le> c"
    by (auto simp: less_queue_place_def less_eq_queue_place_def)
  show "a \<le> b \<Longrightarrow> b \<le> a \<Longrightarrow> a = b"
    by (auto simp: less_queue_place_def less_eq_queue_place_def)
  show "a \<le> b \<or> b \<le> a"
    by (cases a; cases b) (auto simp: less_queue_place_def less_eq_queue_place_def)
qed

end

text \<open>Ranks in a finite linear order number its elements from zero without gaps.\<close>

lemma rank_bij:
  fixes S :: "'a::linorder set"
  assumes "finite S"
  shows "bij_betw (\<lambda>x. card {y\<in>S. y < x}) S {0..<card S}"
proof -
  have mono: "card {z\<in>S. z < x} < card {z\<in>S. z < y}" if "x \<in> S" "x < y" for x y
    using assms that by (intro psubset_card_mono) (auto dest: less_trans)
  have inj: "inj_on (\<lambda>x. card {y\<in>S. y < x}) S"
  proof (rule inj_onI, rule ccontr)
    fix x y assume "x \<in> S" "y \<in> S" "card {z\<in>S. z < x} = card {z\<in>S. z < y}" "x \<noteq> y"
    then show False using mono [of x y] mono [of y x] by (auto simp: neq_iff)
  qed
  have "card {y\<in>S. y < x} < card S" if "x \<in> S" for x
    using assms that by (intro psubset_card_mono) auto
  then have "(\<lambda>x. card {y\<in>S. y < x}) ` S = {0..<card S}"
    by (intro card_subset_eq) (auto simp: card_image [OF inj])
  with inj show ?thesis by (simp add: bij_betw_def)
qed

definition queued_places :: "job_table \<Rightarrow> queue_place set" where
  "queued_places jobs = {Place (j_submitted j) k | k j. map_of jobs k = Some j \<and> j_state j = Queued}"

lemma queued_before_place: "queued_before k j k' j' \<longleftrightarrow> Place (j_submitted j) k < Place (j_submitted j') k'"
  by (simp add: queued_before_def less_queue_place_def)

lemma count_ahead_card:
  assumes "gomap_ok jobs"
  shows "count_ahead canonical job jobs = card {p\<in>queued_places jobs. p < Place (j_submitted job) canonical \<and>
    place_key p \<noteq> canonical}"
proof -
  let ?P = "\<lambda>(k, other). j_state other = Queued \<and> k \<noteq> canonical \<and> queued_before k other canonical job"
  let ?f = "\<lambda>(k, other). Place (j_submitted other) k"
  have "distinct (map fst (filter ?P jobs))"
    using assms by (simp add: gomap_ok_def distinct_map_filter)
  then have dist: "distinct (map ?f (filter ?P jobs))"
    by (auto simp: distinct_map inj_on_def)
  have "set (map ?f (filter ?P jobs)) = {p\<in>queued_places jobs. p < Place (j_submitted job) canonical \<and>
      place_key p \<noteq> canonical}"
    using assms by (auto simp: queued_places_def queued_before_place gomap_set_iff image_iff)
  then show ?thesis using distinct_card [OF dist] by (simp add: count_ahead_def)
qed

lemma count_ahead_queued:
  assumes "gomap_ok jobs" and "map_of jobs canonical = Some job"
  shows "count_ahead canonical job jobs = card {p\<in>queued_places jobs. p < Place (j_submitted job) canonical}"
proof -
  have "{p\<in>queued_places jobs. p < Place (j_submitted job) canonical \<and> place_key p \<noteq> canonical} =
      {p\<in>queued_places jobs. p < Place (j_submitted job) canonical}"
    using assms(2) by (auto simp: queued_places_def less_queue_place_def)
  then show ?thesis using count_ahead_card [OF assms(1)] by simp
qed

text \<open>The position the status endpoint reports for a key, when its job is in the table.\<close>

definition position_of :: "converter \<Rightarrow> string \<Rightarrow> nat" where
  "position_of c k =
     (case lookup_job c k of
        Some j \<Rightarrow> (case j_queue j of Some qs \<Rightarrow> qs_position qs | None \<Rightarrow> 0)
      | None \<Rightarrow> 0)"

definition queued_keys :: "job_table \<Rightarrow> string set" where
  "queued_keys jobs = {k. \<exists>j. map_of jobs k = Some j \<and> j_state j = Queued}"

lemma position_of_queued:
  assumes "gomap_ok (cv_jobs c)" and "cv_aliases c k = None" and "map_of (cv_jobs c) k = Some j"
    and "j_state j = Queued"
  shows "position_of c k = card {p\<in>queued_places (cv_jobs c). p < Place (j_submitted j) k} + 1"
  using assms
  by (simp add: position_of_def lookup_job_def queue_snapshot_for_def Let_def count_ahead_queued
      split: prod.split)

text \<open>Positions number the queue. Looked up by their keys, the queued jobs have the positions
  \<open>1, \<dots>, n\<close>, each exactly once, in the order of submission with ties broken by key; a running job
  has no position.\<close>

theorem queue_positions:
  assumes "gomap_ok (cv_jobs c)" and "\<forall>k\<in>dom (map_of (cv_jobs c)). cv_aliases c k = None"
  shows "bij_betw (position_of c) (queued_keys (cv_jobs c)) {1..card (queued_keys (cv_jobs c))} \<and>
    (\<forall>k k' j j'. map_of (cv_jobs c) k = Some j \<and> map_of (cv_jobs c) k' = Some j' \<and>
       j_state j = Queued \<and> j_state j' = Queued \<longrightarrow>
       (position_of c k < position_of c k' \<longleftrightarrow> queued_before k j k' j')) \<and>
    (\<forall>k j. map_of (cv_jobs c) k = Some j \<and> j_state j = Running \<longrightarrow> position_of c k = 0)"
proof -
  let ?S = "queued_places (cv_jobs c)" and ?K = "queued_keys (cv_jobs c)"
  let ?place = "\<lambda>k. Place (j_submitted (the (map_of (cv_jobs c) k))) k"
  have fin: "finite ?S"
    by (rule finite_subset [of _ "(\<lambda>(k, j). Place (j_submitted j) k) ` set (cv_jobs c)"])
      (force simp: queued_places_def dest: map_of_SomeD, simp)
  have place: "bij_betw ?place ?K ?S"
    by (rule bij_betw_byWitness [where f' = place_key]) (auto simp: queued_keys_def queued_places_def)
  have rank: "bij_betw (\<lambda>p. card {q\<in>?S. q < p}) ?S {0..<card ?S}" by (rule rank_bij [OF fin])
  have suc: "bij_betw (\<lambda>n. n + 1) {0..<card ?S} {1..card ?S}"
    by (rule bij_betw_byWitness [where f' = "\<lambda>n. n - 1"]) auto
  have pos: "position_of c k = card {p\<in>?S. p < Place (j_submitted j) k} + 1"
    if "map_of (cv_jobs c) k = Some j" "j_state j = Queued" for k j
    using that assms by (intro position_of_queued) auto
  have comp: "((\<lambda>n. n + 1) \<circ> ((\<lambda>p. card {q\<in>?S. q < p}) \<circ> ?place)) k = position_of c k" if "k \<in> ?K" for k
    using that pos by (auto simp: queued_keys_def)
  have "bij_betw ((\<lambda>n. n + 1) \<circ> ((\<lambda>p. card {q\<in>?S. q < p}) \<circ> ?place)) ?K {1..card ?S}"
    by (intro bij_betw_trans [OF _ suc] bij_betw_trans [OF place rank])
  then have bij: "bij_betw (position_of c) ?K {1..card ?K}"
    unfolding bij_betw_same_card [OF place] using comp by (simp cong: bij_betw_cong)
  have less: "position_of c k < position_of c k' \<longleftrightarrow> queued_before k j k' j'"
    if m: "map_of (cv_jobs c) k = Some j" "map_of (cv_jobs c) k' = Some j'" "j_state j = Queued" "j_state j' = Queued"
    for k k' j j'
  proof -
    have mono: "card {q\<in>?S. q < Place (j_submitted a) x} < card {q\<in>?S. q < Place (j_submitted b) y}"
      if "map_of (cv_jobs c) x = Some a" "j_state a = Queued" "Place (j_submitted a) x < Place (j_submitted b) y"
      for x y a b
      using fin that by (intro psubset_card_mono) (auto simp: queued_places_def dest: less_trans)
    consider "Place (j_submitted j) k < Place (j_submitted j') k'" | "Place (j_submitted j) k = Place (j_submitted j') k'"
      | "Place (j_submitted j') k' < Place (j_submitted j) k"
      by (rule linorder_cases)
    then show ?thesis
    proof cases
      case 1
      with mono [OF m(1,3) 1] pos [OF m(1,3)] pos [OF m(2,4)] show ?thesis by (simp add: queued_before_place)
    next
      case 2
      with pos [OF m(1,3)] pos [OF m(2,4)] show ?thesis by (simp add: queued_before_place)
    next
      case 3
      then have "\<not> queued_before k j k' j'" unfolding queued_before_place by (rule less_not_sym)
      moreover have "position_of c k' < position_of c k"
        using mono [OF m(2,4) 3] pos [OF m(1,3)] pos [OF m(2,4)] by simp
      ultimately show ?thesis by simp
    qed
  qed
  have none: "position_of c k = 0" if "map_of (cv_jobs c) k = Some j" "j_state j = Running" for k j
  proof -
    have "cv_aliases c k = None" using that(1) assms(2) by (meson domI)
    with that show ?thesis
      by (simp add: position_of_def lookup_job_def queue_snapshot_for_def Let_def split: prod.split)
  qed
  show ?thesis
    by (intro conjI bij allI impI; elim conjE) (rule less none; assumption)+
qed
definition sample_jobs :: converter where
  "sample_jobs = (new_converter True 0 1)\<lparr>cv_jobs :=
     [(''b'', zero_job\<lparr>j_submitted := 5\<rparr>), (''r'', zero_job\<lparr>j_submitted := 2, j_state := Running\<rparr>),
      (''a'', zero_job\<lparr>j_submitted := 5\<rparr>)]\<rparr>"

theorem queue_positions_witness:
  "position_of sample_jobs ''a'' < position_of sample_jobs ''b'' \<and>
   position_of sample_jobs ''b'' \<le> 2 \<and> position_of sample_jobs ''r'' = 0"
proof -
  have pre: "gomap_ok (cv_jobs sample_jobs)" "\<forall>k\<in>dom (map_of (cv_jobs sample_jobs)). cv_aliases sample_jobs k = None"
    by (simp_all add: sample_jobs_def gomap_ok_def new_converter_def)
  have m: "map_of (cv_jobs sample_jobs) ''a'' = Some (zero_job\<lparr>j_submitted := 5\<rparr>)"
    "map_of (cv_jobs sample_jobs) ''b'' = Some (zero_job\<lparr>j_submitted := 5\<rparr>)"
    "map_of (cv_jobs sample_jobs) ''r'' = Some (zero_job\<lparr>j_submitted := 2, j_state := Running\<rparr>)"
    by (simp_all add: sample_jobs_def)
  have keys: "queued_keys (cv_jobs sample_jobs) = {''a'', ''b''}"
    by (auto simp: queued_keys_def sample_jobs_def zero_job_def split: if_splits)
  note pos = queue_positions [OF pre]
  have "queued_before ''a'' (zero_job\<lparr>j_submitted := 5\<rparr>) ''b'' (zero_job\<lparr>j_submitted := 5\<rparr>)"
    by (simp add: queued_before_def) code_simp?
  then have "position_of sample_jobs ''a'' < position_of sample_jobs ''b''"
    using conjunct1 [OF conjunct2 [OF pos], rule_format, of "''a''" _ "''b''"] m by (simp add: zero_job_def)
  moreover have "position_of sample_jobs ''b'' \<in> {1..card {''a'', ''b''}}"
    using bij_betwE [OF conjunct1 [OF pos]] unfolding keys by blast
  moreover have "position_of sample_jobs ''r'' = 0"
    using conjunct2 [OF conjunct2 [OF pos], rule_format, of "''r''"] m by simp
  ultimately show ?thesis by simp
qed

end
