(* ===== verification/Convert_Machine.thy ===== *)
theory Convert_Machine
  imports Converter "HOL-Library.Multiset"
begin

text \<open>
  The goroutines of the converter as one interleaved machine: requests (\<open>EnsureSource\<close> in
  \<open>source.go\<close>, \<open>ensureCanonical\<close> in \<open>compat.go\<close>), the workers of \<open>runJob\<close>
  (\<open>converter.go\<close>) and the fetchers of \<open>fetchCanonical\<close> (\<open>compat.go\<close>). A step is a section under
  the converter's mutex or an operation on one of the two semaphores, with the counters next to
  it; what a step learns from the catalog, the object store or the network is an argument of its
  event. Goroutines are a multiset, for nothing tells two of them apart but what they carry.
\<close>

section \<open>Resolving a canonical id\<close>

text \<open>
  \<open>canonicalSource\<close> asks the catalog and the store in a fixed order. The record holds the answers
  it would get, where the registry names no source next to an error and an absent catalog is an
  error of the first question; \<open>ci_freeze\<close> is \<open>EnsureFrozenSource\<close>, \<open>ci_match\<close> the test of a source's origin
  against the requested id.
\<close>

datatype catalog_error = Not_Found | Catalog_Error go_error bool

record catalog_io =
  ci_resolve :: "catalog_error + string"
  ci_imported :: "catalog_error + paper_source option"
  ci_freeze :: "string \<Rightarrow> catalog_error + paper_source"
  ci_sources :: "catalog_error + paper_source list"
  ci_match :: "paper_source \<Rightarrow> bool"
  ci_bind :: "paper_source \<Rightarrow> catalog_error + paper_source"
  ci_stored :: "catalog_error + bool"
  ci_register :: "catalog_error + paper_source"

definition no_source :: paper_source where
  "no_source = \<lparr>ps_paper = [], ps_source = [], ps_sha = []\<rparr>"

text \<open>The source, the paper id and the error of \<open>canonicalSource\<close>; an error may come with a source.\<close>

definition canonical_source :: "catalog_io \<Rightarrow> paper_source \<times> string \<times> catalog_error option" where
  "canonical_source io =
     (case ci_resolve io of
        Inl e \<Rightarrow> (no_source, [], Some e)
      | Inr paper \<Rightarrow>
        (case ci_imported io of
           Inl e \<Rightarrow> (no_source, paper, Some e)
         | Inr (Some imported) \<Rightarrow>
             (case ci_freeze io (ps_source imported) of
                Inl e \<Rightarrow> (imported, paper, Some e)
              | Inr frozen \<Rightarrow> (frozen, paper, None))
         | Inr None \<Rightarrow>
             (case ci_sources io of
                Inl e \<Rightarrow> (no_source, paper, Some e)
              | Inr srcs \<Rightarrow>
                (case find (ci_match io) srcs of
                   Some src \<Rightarrow>
                     (case ci_freeze io (ps_source src) of
                        Inl e \<Rightarrow> (src, paper, Some e)
                      | Inr frozen \<Rightarrow>
                          (case ci_bind io frozen of
                             Inl e \<Rightarrow> (frozen, paper, Some e)
                           | Inr bound \<Rightarrow> (bound, paper, None)))
                 | None \<Rightarrow>
                     (case ci_stored io of
                        Inl e \<Rightarrow> (no_source, paper, Some e)
                      | Inr False \<Rightarrow> (no_source, paper, Some Not_Found)
                      | Inr True \<Rightarrow>
                          (case ci_register io of
                             Inl e \<Rightarrow> (no_source, paper, Some e)
                           | Inr src \<Rightarrow>
                               (case ci_bind io src of
                                  Inl e \<Rightarrow> (src, paper, Some e)
                                | Inr bound \<Rightarrow> (bound, paper, None))))))))"

definition catalog_failure :: "string \<Rightarrow> string \<Rightarrow> catalog_error \<Rightarrow> job" where
  "catalog_failure paper i e =
     (case e of
        Not_Found \<Rightarrow> source_failure True paper i (Other_Error ''object not found'')
      | Catalog_Error err data_err \<Rightarrow> source_failure data_err paper i err)"

text \<open>
  \<open>EnsureFrozenSource\<close> freezes a source of the catalog; \<open>keyed\<close> tells whether the frozen object has
  the key of the paper and the source. Its outcome is \<open>ci_freeze\<close> above.
\<close>

definition ensure_frozen_source :: "bool \<Rightarrow> bool \<Rightarrow> catalog_error + paper_source option \<Rightarrow>
    (paper_source \<Rightarrow> catalog_error + paper_source) \<Rightarrow> (paper_source \<Rightarrow> bool) \<Rightarrow> string \<Rightarrow> string \<Rightarrow> catalog_error + paper_source" where
  "ensure_frozen_source access has_catalog found freeze keyed paper source =
     (if \<not> access then Inl (Catalog_Error (fatal_error ''paper access disabled'') False)
      else if \<not> has_catalog then Inl (Catalog_Error (Other_Error ''catalog unavailable'') False)
      else case found of
        Inl e \<Rightarrow> Inl e
      | Inr None \<Rightarrow> Inl Not_Found
      | Inr (Some src) \<Rightarrow>
          (case freeze src of
             Inl e \<Rightarrow> Inl e
           | Inr frozen \<Rightarrow>
               if ps_paper frozen \<noteq> paper \<or> ps_source frozen \<noteq> source \<or> \<not> keyed frozen
               then Inl (Catalog_Error (Other_Error ''paper bundle integrity'') True)
               else Inr frozen))"

section \<open>The machine\<close>

text \<open>
  A worker of \<open>runJob\<close> waits for its slot, holds it, works, and holds it still after its job has
  ended; a fetcher starts, waits for a fetch slot, works, has its PDF registered, may have been told
  to parse, and holds its slot until it has left the table.
\<close>

datatype worker =
    Job_Waiting string
  | Job_Slotted string
  | Job_Working string
  | Job_Ended string
  | Fetch_New string string string
  | Fetch_Waiting string string string
  | Fetch_Working string string string
  | Fetch_Got string string string paper_source
  | Fetch_Parse string string string paper_source "fetch_progress option"
  | Fetch_Finish string string paper_source "fetch_progress option" job
  | Fetch_Ended string

record machine =
  m_conv :: converter
  m_fetch_cap :: nat
  m_fetch_sem :: nat
  m_fetcher :: bool
  m_workers :: "worker multiset"
  m_panic :: bool

record canonical_request =
  cr_id :: string
  cr_alias :: string
  cr_valid :: bool
  cr_doi :: bool
  cr_oa_url :: string
  cr_doi_lookup :: bool
  cr_pdf_only :: bool

text \<open>The progress reports of \<open>convertSource\<close> while it works.\<close>

datatype progress = Submitting instant | Submitted_Task string | Polled | Stage string | Completed instant

definition apply_progress :: "progress \<Rightarrow> job \<Rightarrow> job" where
  "apply_progress p j =
     (case p of
        Submitting now \<Rightarrow>
          j\<lparr>j_phase := Converting_MD,
            j_convert := Some \<lparr>cp_started = now, cp_completed = 0, cp_task = [], cp_stage = ''submitting'', cp_polled = 0\<rparr>\<rparr>
      | Submitted_Task t \<Rightarrow> j\<lparr>j_convert := map_option (\<lambda>c. c\<lparr>cp_task := t, cp_stage := ''running''\<rparr>) (j_convert j)\<rparr>
      | Polled \<Rightarrow> j\<lparr>j_convert := map_option (\<lambda>c. c\<lparr>cp_polled := cp_polled c + 1\<rparr>) (j_convert j)\<rparr>
      | Stage s \<Rightarrow> j\<lparr>j_convert := map_option (\<lambda>c. c\<lparr>cp_stage := s\<rparr>) (j_convert j)\<rparr>
      | Completed now \<Rightarrow> j\<lparr>j_convert := map_option (\<lambda>c. c\<lparr>cp_completed := now\<rparr>) (j_convert j)\<rparr>)"

definition add_worker :: "worker \<Rightarrow> machine \<Rightarrow> machine" where
  "add_worker w m = m\<lparr>m_workers := add_mset w (m_workers m)\<rparr>"

definition move_worker :: "worker \<Rightarrow> worker \<Rightarrow> machine \<Rightarrow> machine" where
  "move_worker w w' m = m\<lparr>m_workers := add_mset w' (m_workers m - {#w#})\<rparr>"

definition drop_worker :: "worker \<Rightarrow> machine \<Rightarrow> machine" where
  "drop_worker w m = m\<lparr>m_workers := m_workers m - {#w#}\<rparr>"

definition on_conv :: "(converter \<Rightarrow> converter) \<Rightarrow> machine \<Rightarrow> machine" where
  "on_conv f m = m\<lparr>m_conv := f (m_conv m)\<rparr>"

definition count_up :: "(counters \<Rightarrow> counters) \<Rightarrow> converter \<Rightarrow> converter" where
  "count_up f c = c\<lparr>cv_counters := f (cv_counters c)\<rparr>"

text \<open>\<open>EnsureSource\<close> with the worker it starts; the job it answers is the first component.\<close>

definition do_ensure_source :: "string \<Rightarrow> string \<Rightarrow> ensure_input \<Rightarrow> instant \<Rightarrow> machine \<Rightarrow> job \<times> machine" where
  "do_ensure_source paper source inp now m =
     (case ensure_source paper source inp now (m_conv m) of
        (job, c, start) \<Rightarrow>
          (job, (case start of
                   None \<Rightarrow> m\<lparr>m_conv := c\<rparr>
                 | Some key \<Rightarrow> add_worker (Job_Waiting key) (m\<lparr>m_conv := c\<rparr>))))"

definition doi_job_key :: "string \<Rightarrow> string" where
  "doi_job_key doi = ''doi:'' @ doi"

definition set_alias :: "string \<Rightarrow> string \<Rightarrow> converter \<Rightarrow> converter" where
  "set_alias a key c = c\<lparr>cv_aliases := (cv_aliases c)(a \<mapsto> key)\<rparr>"

definition ensure_canonical :: "canonical_request \<Rightarrow> catalog_io \<Rightarrow> ensure_input \<Rightarrow> instant \<Rightarrow> machine \<Rightarrow> job \<times> machine" where
  "ensure_canonical r io inp now m =
     (let c = m_conv m in
      if \<not> cv_access c then (source_failure False [] (cr_id r) (fatal_error ''paper access disabled''), m)
      else if \<not> cr_valid r
      then (source_failure False [] (cr_id r)
              (fatal_error (if cr_doi r then ''invalid DOI'' else ''invalid arXiv ID'')), m)
      else case canonical_source io of
        (src, paper, None) \<Rightarrow>
          if cr_pdf_only r
          then (zero_job\<lparr>j_canonical := cr_id r, j_paper := paper, j_source := ps_source src, j_sha := ps_sha src,
                  j_state := Done, j_phase := Ready, j_finished := now\<rparr>,
                on_conv (count_up (\<lambda>n. n\<lparr>n_cache_hits := n_cache_hits n + 1\<rparr>)) m)
          else (case do_ensure_source paper (ps_source src) inp now m of
                  (job, m') \<Rightarrow>
                    (job\<lparr>j_canonical := cr_id r\<rparr>, on_conv (set_alias (cr_alias r) (source_job_key src)) m'))
      | (src, paper, Some e) \<Rightarrow>
          if ps_source src \<noteq> [] \<or> e \<noteq> Not_Found then (catalog_failure paper (cr_id r) e, m)
          else
            (let m1 = on_conv (count_up (\<lambda>n. n\<lparr>n_cache_misses := n_cache_misses n + 1\<rparr>)) m;
                 key = ''fetch:'' @ cr_alias r
             in if \<not> m_fetcher m
                then (source_failure False paper (cr_id r)
                        (fatal_error ''no PDF in store and PDF fetcher not configured''), m1)
                else if cr_doi r \<and> cr_oa_url r = [] \<and> \<not> cr_doi_lookup r
                then (source_failure False paper (cr_id r) No_DOI_Source, m1)
                else if \<not> cr_pdf_only r \<and> \<not> en_enabled inp
                then (source_failure False paper (cr_id r) (fatal_error (en_disabled_msg inp)), m1)
                else
                  (let job = zero_job\<lparr>j_canonical := cr_id r, j_paper := paper, j_state := Queued,
                               j_phase := Fetching_PDF, j_submitted := now, j_parse_after_fetch := \<not> cr_pdf_only r\<rparr>;
                       fresh = (job, add_worker (Fetch_New key (cr_alias r) paper)
                          (on_conv (\<lambda>c. set_alias (cr_alias r) key
                                      (c\<lparr>cv_jobs := AList.update key job (cv_jobs c)\<rparr>)) m1))
                   in case map_of (cv_jobs c) key of
                        Some e \<Rightarrow>
                          if live e \<or> j_state e = Failed \<and> now < j_cooldown e
                          then (let e' = (if cr_pdf_only r then e else e\<lparr>j_parse_after_fetch := True\<rparr>)
                                in (e', on_conv (\<lambda>c. c\<lparr>cv_jobs := AList.update key e' (cv_jobs c)\<rparr>) m1))
                          else fresh
                      | None \<Rightarrow> fresh)))"

section \<open>Steps of the workers\<close>

definition fail_job :: "go_error \<Rightarrow> (instant \<Rightarrow> instant) \<Rightarrow> instant \<Rightarrow> string \<Rightarrow> (job \<Rightarrow> phase) \<Rightarrow> converter \<Rightarrow> converter" where
  "fail_job err reset_at now key ph c =
     (case classify_failure reset_at now err (n_failures (cv_counters c)) of
        ((kind, cooldown), fc) \<Rightarrow>
          transition key (\<lambda>j. j\<lparr>j_state := Failed, j_phase := ph j, j_finished := now, j_err := Some err,
                               j_err_kind := Some kind, j_cooldown := cooldown\<rparr>)
            (count_up (\<lambda>n. n\<lparr>n_failures := fc\<rparr>) c))"

text \<open>The failure phase follows the phase the job has reached, as a look-up just before shows it.\<close>

definition fail_phase :: "string \<Rightarrow> converter \<Rightarrow> phase" where
  "fail_phase key c =
     (case lookup_job c key of
        Some peek \<Rightarrow> if j_phase peek = Fetching_PDF then Error_Fetching else Error_Converting
      | None \<Rightarrow> Error_Converting)"

definition succeed_job :: "instant \<Rightarrow> string \<Rightarrow> converter \<Rightarrow> converter" where
  "succeed_job now key c =
     (let c1 = count_up (\<lambda>n. n\<lparr>n_succeeded := n_succeeded n + 1\<rparr>) c;
          dur = (case lookup_job c1 key of
                   Some peek \<Rightarrow>
                     (case j_convert peek of
                        Some cp \<Rightarrow> if cp_started cp \<noteq> 0 then int now - int (cp_started cp) else 0
                      | None \<Rightarrow> 0)
                 | None \<Rightarrow> 0);
          c2 = (if 0 < dur then c1\<lparr>cv_durations := record_convert_duration dur (cv_durations c1)\<rparr> else c1)
      in transition key (\<lambda>j. j\<lparr>j_state := Done, j_phase := Ready, j_finished := now\<rparr>) c2)"

definition begin_job :: "instant \<Rightarrow> string \<Rightarrow> converter \<Rightarrow> converter" where
  "begin_job now key c =
     count_up (\<lambda>n. n\<lparr>n_submitted := n_submitted n + 1\<rparr>)
       (transition key (\<lambda>j. j\<lparr>j_state := Running, j_started := now\<rparr>) c)"

text \<open>
  \<open>finishFetchFailure\<close>: an upstream refusal (not found, not a PDF, too large) becomes fatal, with
  its text as the message.
\<close>

definition finish_fetch_failure :: "(instant \<Rightarrow> instant) \<Rightarrow> instant \<Rightarrow> string \<Rightarrow> go_error \<Rightarrow> string option \<Rightarrow> converter \<Rightarrow> converter" where
  "finish_fetch_failure reset_at now key err refused c =
     fail_job (case refused of Some msg \<Rightarrow> fatal_error msg | None \<Rightarrow> err) reset_at now key (\<lambda>j. Error_Fetching)
       (count_up (\<lambda>n. n\<lparr>n_fetch_failed := n_fetch_failed n + 1\<rparr>) c)"

definition fetch_stored :: "paper_source \<Rightarrow> int \<Rightarrow> instant \<Rightarrow> string \<Rightarrow> converter \<Rightarrow> converter" where
  "fetch_stored src len now key c =
     transition key (\<lambda>j. j\<lparr>j_source := ps_source src, j_sha := ps_sha src,
         j_fetch := map_option (\<lambda>f. f\<lparr>fp_completed := now, fp_sha := ps_sha src, fp_received := len, fp_total := len\<rparr>)
                      (j_fetch j)\<rparr>)
       (count_up (\<lambda>n. n\<lparr>n_fetch_succeeded := n_fetch_succeeded n + 1\<rparr>) c)"

section \<open>Events\<close>

datatype event =
    Ensure_Source string string ensure_input instant
  | Ensure_Canonical canonical_request catalog_io ensure_input instant
  | Take_Slot string
  | Job_Timeout string go_error instant
  | Begin_Job string instant
  | Report string progress
  | Job_Done string instant
  | Job_Fails string go_error instant
  | Free_Slot string
  | Fetch_Begins string string string instant
  | Take_Fetch_Slot string string string
  | Fetch_Timeout string string string go_error instant
  | Fetch_Fails string string string go_error "string option" instant
  | Fetch_Stored string string string paper_source int instant
  | Fetch_Decides string string string paper_source instant
  | Fetch_Ensures string string string paper_source "fetch_progress option" ensure_input instant
  | Fetch_Leaves string string paper_source "fetch_progress option" job
  | Free_Fetch_Slot string

text \<open>Taking a slot may not exceed the capacity; the other steps need their goroutine only.\<close>

definition enabled :: "event \<Rightarrow> machine \<Rightarrow> bool" where
  "enabled ev m =
     (case ev of
        Ensure_Source _ _ _ _ \<Rightarrow> True
      | Ensure_Canonical _ _ _ _ \<Rightarrow> True
      | Take_Slot key \<Rightarrow> Job_Waiting key \<in># m_workers m \<and> cv_sem (m_conv m) < cv_sem_cap (m_conv m)
      | Job_Timeout key _ _ \<Rightarrow> Job_Waiting key \<in># m_workers m
      | Begin_Job key _ \<Rightarrow> Job_Slotted key \<in># m_workers m
      | Report key _ \<Rightarrow> Job_Working key \<in># m_workers m
      | Job_Done key _ \<Rightarrow> Job_Working key \<in># m_workers m
      | Job_Fails key _ _ \<Rightarrow> Job_Working key \<in># m_workers m
      | Free_Slot key \<Rightarrow> Job_Ended key \<in># m_workers m
      | Fetch_Begins key a paper _ \<Rightarrow> Fetch_New key a paper \<in># m_workers m
      | Take_Fetch_Slot key a paper \<Rightarrow> Fetch_Waiting key a paper \<in># m_workers m \<and> m_fetch_sem m < m_fetch_cap m
      | Fetch_Timeout key a paper _ _ \<Rightarrow> Fetch_Waiting key a paper \<in># m_workers m
      | Fetch_Fails key a paper _ _ _ \<Rightarrow> Fetch_Working key a paper \<in># m_workers m
      | Fetch_Stored key a paper _ _ _ \<Rightarrow> Fetch_Working key a paper \<in># m_workers m
      | Fetch_Decides key a paper src _ \<Rightarrow> Fetch_Got key a paper src \<in># m_workers m
      | Fetch_Ensures key a paper src f _ _ \<Rightarrow> Fetch_Parse key a paper src f \<in># m_workers m
      | Fetch_Leaves key a src f job \<Rightarrow> Fetch_Finish key a src f job \<in># m_workers m
      | Free_Fetch_Slot key \<Rightarrow> Fetch_Ended key \<in># m_workers m)"

definition sem_up :: "converter \<Rightarrow> converter" where
  "sem_up c = count_up (\<lambda>n. n\<lparr>n_inflight := n_inflight n + 1\<rparr>) (c\<lparr>cv_sem := cv_sem c + 1\<rparr>)"

definition sem_down :: "converter \<Rightarrow> converter" where
  "sem_down c = count_up (\<lambda>n. n\<lparr>n_inflight := n_inflight n - 1\<rparr>) (c\<lparr>cv_sem := cv_sem c - 1\<rparr>)"

text \<open>
  The last section of \<open>fetchCanonical\<close>: a failed parse request becomes the fetch record, otherwise
  the fetch progress moves to the source's job and the record goes. \<open>Fetch_Decides\<close> reads the record
  without a nil check; a missing record would end the process.
\<close>

definition leave_fetch :: "string \<Rightarrow> string \<Rightarrow> paper_source \<Rightarrow> fetch_progress option \<Rightarrow> job \<Rightarrow> converter \<Rightarrow> converter" where
  "leave_fetch key a src f job c =
     (if j_state job = Failed then c\<lparr>cv_jobs := AList.update key job (cv_jobs c)\<rparr>
      else
        (let jobs1 = (case map_of (cv_jobs c) (source_job_key src) of
                        Some sj \<Rightarrow> AList.update (source_job_key src) (sj\<lparr>j_fetch := f\<rparr>) (cv_jobs c)
                      | None \<Rightarrow> cv_jobs c)
         in set_alias a (source_job_key src) (c\<lparr>cv_jobs := AList.delete key jobs1\<rparr>)))"

definition decide_fetch :: "string \<Rightarrow> string \<Rightarrow> string \<Rightarrow> paper_source \<Rightarrow> instant \<Rightarrow> machine \<Rightarrow> machine" where
  "decide_fetch key a paper src now m =
     (case map_of (cv_jobs (m_conv m)) key of
        None \<Rightarrow> m\<lparr>m_panic := True\<rparr>
      | Some j \<Rightarrow>
          if \<not> j_parse_after_fetch j
          then move_worker (Fetch_Got key a paper src) (Fetch_Ended key)
                 (on_conv (\<lambda>c. c\<lparr>cv_jobs := AList.update key
                     (j\<lparr>j_state := Done, j_phase := Ready, j_finished := now\<rparr>) (cv_jobs c)\<rparr>) m)
          else move_worker (Fetch_Got key a paper src) (Fetch_Parse key a paper src (j_fetch j)) m)"

fun do_event :: "(instant \<Rightarrow> instant) \<Rightarrow> event \<Rightarrow> machine \<Rightarrow> machine" where
  "do_event rst (Ensure_Source paper source inp now) m = snd (do_ensure_source paper source inp now m)"
| "do_event rst (Ensure_Canonical r io inp now) m = snd (ensure_canonical r io inp now m)"
| "do_event rst (Take_Slot key) m = move_worker (Job_Waiting key) (Job_Slotted key) (on_conv sem_up m)"
| "do_event rst (Job_Timeout key err now) m =
     drop_worker (Job_Waiting key) (on_conv (fail_job err rst now key j_phase) m)"
| "do_event rst (Begin_Job key now) m = move_worker (Job_Slotted key) (Job_Working key) (on_conv (begin_job now key) m)"
| "do_event rst (Report key p) m = on_conv (transition key (apply_progress p)) m"
| "do_event rst (Job_Done key now) m = move_worker (Job_Working key) (Job_Ended key) (on_conv (succeed_job now key) m)"
| "do_event rst (Job_Fails key err now) m =
     move_worker (Job_Working key) (Job_Ended key)
       (on_conv (\<lambda>c. fail_job err rst now key (\<lambda>j. fail_phase key c) c) m)"
| "do_event rst (Free_Slot key) m = drop_worker (Job_Ended key) (on_conv sem_down m)"
| "do_event rst (Fetch_Begins key a paper now) m =
     move_worker (Fetch_New key a paper) (Fetch_Waiting key a paper)
       (on_conv (transition key (\<lambda>j. j\<lparr>j_state := Running, j_started := now,
          j_fetch := Some \<lparr>fp_started = now, fp_completed = 0, fp_received = 0, fp_total = 0, fp_sha = [], fp_attempts = 0\<rparr>\<rparr>)) m)"
| "do_event rst (Take_Fetch_Slot key a paper) m =
     move_worker (Fetch_Waiting key a paper) (Fetch_Working key a paper)
       (on_conv (count_up (\<lambda>n. n\<lparr>n_inflight_fetches := n_inflight_fetches n + 1, n_fetches := n_fetches n + 1\<rparr>))
          (m\<lparr>m_fetch_sem := m_fetch_sem m + 1\<rparr>))"
| "do_event rst (Fetch_Timeout key a paper err now) m =
     drop_worker (Fetch_Waiting key a paper) (on_conv (finish_fetch_failure rst now key err None) m)"
| "do_event rst (Fetch_Fails key a paper err refused now) m =
     move_worker (Fetch_Working key a paper) (Fetch_Ended key)
       (on_conv (finish_fetch_failure rst now key err refused) m)"
| "do_event rst (Fetch_Stored key a paper src len now) m =
     move_worker (Fetch_Working key a paper) (Fetch_Got key a paper src) (on_conv (fetch_stored src len now key) m)"
| "do_event rst (Fetch_Decides key a paper src now) m = decide_fetch key a paper src now m"
| "do_event rst (Fetch_Ensures key a paper src f inp now) m =
     (case do_ensure_source paper (ps_source src) inp now m of
        (job, m') \<Rightarrow> move_worker (Fetch_Parse key a paper src f) (Fetch_Finish key a src f job) m')"
| "do_event rst (Fetch_Leaves key a src f job) m =
     move_worker (Fetch_Finish key a src f job) (Fetch_Ended key) (on_conv (leave_fetch key a src f job) m)"
| "do_event rst (Free_Fetch_Slot key) m =
     drop_worker (Fetch_Ended key)
       (on_conv (count_up (\<lambda>n. n\<lparr>n_inflight_fetches := n_inflight_fetches n - 1\<rparr>))
          (m\<lparr>m_fetch_sem := m_fetch_sem m - 1\<rparr>))"

definition start_machine :: "converter \<Rightarrow> int \<Rightarrow> bool \<Rightarrow> machine" where
  "start_machine c arxiv_conc fetcher =
     \<lparr>m_conv = c, m_fetch_cap = (if \<not> fetcher then 0 else if arxiv_conc < 1 then 2 else nat arxiv_conc),
      m_fetch_sem = 0, m_fetcher = fetcher, m_workers = {#}, m_panic = False\<rparr>"

inductive machine_run :: "(instant \<Rightarrow> instant) \<Rightarrow> machine \<Rightarrow> machine \<Rightarrow> bool" for rst m0 where
  machine_start: "machine_run rst m0 m0"
| machine_step: "machine_run rst m0 m \<Longrightarrow> enabled ev m \<Longrightarrow> machine_run rst m0 (do_event rst ev m)"

section \<open>The invariant\<close>

text \<open>The table key a goroutine is responsible for while its job is live, and the state its job has.\<close>

fun live_key :: "worker \<Rightarrow> string option" where
  "live_key (Job_Waiting k) = Some k"
| "live_key (Job_Slotted k) = Some k"
| "live_key (Job_Working k) = Some k"
| "live_key (Job_Ended k) = None"
| "live_key (Fetch_New k a p) = Some k"
| "live_key (Fetch_Waiting k a p) = Some k"
| "live_key (Fetch_Working k a p) = Some k"
| "live_key (Fetch_Got k a p s) = Some k"
| "live_key (Fetch_Parse k a p s f) = Some k"
| "live_key (Fetch_Finish k a s f j) = Some k"
| "live_key (Fetch_Ended k) = None"

fun expects :: "worker \<Rightarrow> job_state" where
  "expects (Job_Waiting k) = Queued"
| "expects (Job_Slotted k) = Queued"
| "expects (Fetch_New k a p) = Queued"
| "expects w = Running"

fun holds_slot :: "worker \<Rightarrow> bool" where
  "holds_slot (Job_Slotted k) = True"
| "holds_slot (Job_Working k) = True"
| "holds_slot (Job_Ended k) = True"
| "holds_slot w = False"

fun holds_fetch_slot :: "worker \<Rightarrow> bool" where
  "holds_fetch_slot (Fetch_Working k a p) = True"
| "holds_fetch_slot (Fetch_Got k a p s) = True"
| "holds_fetch_slot (Fetch_Parse k a p s f) = True"
| "holds_fetch_slot (Fetch_Finish k a s f j) = True"
| "holds_fetch_slot (Fetch_Ended k) = True"
| "holds_fetch_slot w = False"

fun key_kind :: "worker \<Rightarrow> bool" where
  "key_kind (Job_Waiting k) = prefix ''source:'' k"
| "key_kind (Job_Slotted k) = prefix ''source:'' k"
| "key_kind (Job_Working k) = prefix ''source:'' k"
| "key_kind (Job_Ended k) = prefix ''source:'' k"
| "key_kind (Fetch_New k a p) = prefix ''fetch:'' k"
| "key_kind (Fetch_Waiting k a p) = prefix ''fetch:'' k"
| "key_kind (Fetch_Working k a p) = prefix ''fetch:'' k"
| "key_kind (Fetch_Got k a p s) = prefix ''fetch:'' k"
| "key_kind (Fetch_Parse k a p s f) = prefix ''fetch:'' k"
| "key_kind (Fetch_Finish k a s f j) = prefix ''fetch:'' k"
| "key_kind (Fetch_Ended k) = prefix ''fetch:'' k"

text \<open>
  Table and goroutines agree: a live job has exactly one goroutine responsible for it, any other
  key has none, and the job of a responsible goroutine is in the state it expects.
\<close>

definition live_at :: "job_table \<Rightarrow> string \<Rightarrow> bool" where
  "live_at jobs k \<longleftrightarrow> (case map_of jobs k of Some j \<Rightarrow> live j | None \<Rightarrow> False)"

definition table_inv :: "job_table \<Rightarrow> worker multiset \<Rightarrow> bool" where
  "table_inv jobs ws \<longleftrightarrow> gomap_ok jobs \<and>
     (\<forall>k. size (filter_mset (\<lambda>w. live_key w = Some k) ws) = (if live_at jobs k then 1 else 0)) \<and>
     (\<forall>w k. w \<in># ws \<longrightarrow> live_key w = Some k \<longrightarrow> (\<exists>j. map_of jobs k = Some j \<and> j_state j = expects w))"

lemma table_invD:
  assumes "table_inv jobs ws"
  shows "gomap_ok jobs"
    "size (filter_mset (\<lambda>w. live_key w = Some k) ws) = (if live_at jobs k then 1 else 0)"
    "w \<in># ws \<Longrightarrow> live_key w = Some k \<Longrightarrow> \<exists>j. map_of jobs k = Some j \<and> j_state j = expects w"
  using assms by (auto simp: table_inv_def)

lemma expects_live: "j_state j = expects w \<Longrightarrow> live j"
  by (cases w) (auto simp: live_def)

text \<open>Only one goroutine is responsible for a key.\<close>

lemma table_inv_unique:
  assumes "table_inv jobs (add_mset w ws)" and "live_key w = Some k"
  shows "live_at jobs k" and "x \<in># ws \<Longrightarrow> live_key x \<noteq> Some k"
    and "filter_mset (\<lambda>w. live_key w = Some k) ws = {#}"
proof -
  have "size (filter_mset (\<lambda>w. live_key w = Some k) (add_mset w ws)) = (if live_at jobs k then 1 else 0)"
    using assms(1) by (rule table_invD(2))
  with assms(2) show l: "live_at jobs k" and e: "filter_mset (\<lambda>w. live_key w = Some k) ws = {#}"
    by (auto split: if_splits)
  show "x \<in># ws \<Longrightarrow> live_key x \<noteq> Some k" using e by (auto simp: filter_mset_eq_conv)
qed

text \<open>A step of the responsible goroutine: it moves on with its job, or lets go of a job that has ended.\<close>

lemma table_move:
  assumes inv: "table_inv jobs (add_mset w ws)" and k: "live_key w = Some k"
    and jobs': "gomap_ok jobs'" "map_of jobs' = (map_of jobs)(k \<mapsto> j')"
    and w': "live_key w' = Some k" "j_state j' = expects w'"
  shows "table_inv jobs' (add_mset w' ws)"
  unfolding table_inv_def
proof (intro conjI allI impI)
  note uniq = table_inv_unique [OF inv k]
  show "gomap_ok jobs'" by fact
  show "size (filter_mset (\<lambda>w. live_key w = Some l) (add_mset w' ws)) = (if live_at jobs' l then 1 else 0)" for l
  proof (cases "l = k")
    case True
    then show ?thesis using uniq(3) w'(1) expects_live [OF w'(2)] jobs'(2) by (simp add: live_at_def)
  next
    case False
    then have "live_at jobs' l = live_at jobs l" using jobs'(2) by (simp add: live_at_def)
    then show ?thesis using table_invD(2) [OF inv, of l] k w'(1) False by simp
  qed
  show "\<exists>j. map_of jobs' l = Some j \<and> j_state j = expects x" if "x \<in># add_mset w' ws" "live_key x = Some l" for x l
    using that table_invD(3) [OF inv, of x l] uniq(2) [of x] w' jobs'(2) by auto
qed

lemma table_release:
  assumes inv: "table_inv jobs (add_mset w ws)" and k: "live_key w = Some k"
    and jobs': "gomap_ok jobs'" "map_of jobs' = (map_of jobs)(k := vo)" "\<not> live_at jobs' k"
  shows "table_inv jobs' ws"
  unfolding table_inv_def
proof (intro conjI allI impI)
  note uniq = table_inv_unique [OF inv k]
  show "gomap_ok jobs'" by fact
  show "size (filter_mset (\<lambda>w. live_key w = Some l) ws) = (if live_at jobs' l then 1 else 0)" for l
  proof (cases "l = k")
    case True
    then show ?thesis using uniq(3) jobs'(3) by simp
  next
    case False
    then have "live_at jobs' l = live_at jobs l" using jobs'(2) by (simp add: live_at_def)
    then show ?thesis using table_invD(2) [OF inv, of l] k False by simp
  qed
  show "\<exists>j. map_of jobs' l = Some j \<and> j_state j = expects x" if "x \<in># ws" "live_key x = Some l" for x l
    using that table_invD(3) [OF inv, of x l] uniq(2) [of x] jobs'(2) by auto
qed

lemma table_start:
  assumes inv: "table_inv jobs ws" and k: "\<not> live_at jobs k"
    and jobs': "gomap_ok jobs'" "map_of jobs' = (map_of jobs)(k \<mapsto> j')"
    and w': "live_key w' = Some k" "j_state j' = expects w'"
  shows "table_inv jobs' (add_mset w' ws)"
  unfolding table_inv_def
proof (intro conjI allI impI)
  have none: "filter_mset (\<lambda>w. live_key w = Some k) ws = {#}"
    using table_invD(2) [OF inv, of k] k by simp
  show "gomap_ok jobs'" by fact
  show "size (filter_mset (\<lambda>w. live_key w = Some l) (add_mset w' ws)) = (if live_at jobs' l then 1 else 0)" for l
  proof (cases "l = k")
    case True
    then show ?thesis using none w'(1) expects_live [OF w'(2)] jobs'(2) by (simp add: live_at_def)
  next
    case False
    then have "live_at jobs' l = live_at jobs l" using jobs'(2) by (simp add: live_at_def)
    then show ?thesis using table_invD(2) [OF inv, of l] w'(1) False by simp
  qed
  show "\<exists>j. map_of jobs' l = Some j \<and> j_state j = expects x" if "x \<in># add_mset w' ws" "live_key x = Some l" for x l
    using that table_invD(3) [OF inv, of x l] none w' jobs'(2) by (auto simp: filter_mset_eq_conv)
qed

text \<open>A change of a record that keeps its state, or of a record that is not live and stays so.\<close>

lemma table_keep:
  assumes inv: "table_inv jobs ws" and jobs': "gomap_ok jobs'" "map_of jobs' = (map_of jobs)(k \<mapsto> j')"
    and j: "map_of jobs k = Some j" "j_state j' = j_state j"
  shows "table_inv jobs' ws"
proof -
  have "live_at jobs' l = live_at jobs l" for l using jobs'(2) j by (auto simp: live_at_def live_def)
  then show ?thesis using inv jobs' j by (auto simp: table_inv_def)
qed

lemma table_dead:
  assumes inv: "table_inv jobs ws" and jobs': "gomap_ok jobs'" "map_of jobs' = (map_of jobs)(k := vo)"
    and k: "\<not> live_at jobs k" "\<not> live_at jobs' k"
  shows "table_inv jobs' ws"
proof -
  have l: "live_at jobs' l = live_at jobs l" for l
    using jobs'(2) k by (cases "l = k") (auto simp: live_at_def)
  have "filter_mset (\<lambda>w. live_key w = Some k) ws = {#}" using table_invD(2) [OF inv, of k] k by simp
  then show ?thesis using inv jobs' l by (auto simp: table_inv_def filter_mset_eq_conv)
qed

text \<open>Goroutines that are responsible for no key come and go.\<close>

lemma table_ended [simp]: "live_key w = None \<Longrightarrow> table_inv jobs (add_mset w ws) = table_inv jobs ws"
  by (auto simp: table_inv_def)

definition machine_inv :: "machine \<Rightarrow> bool" where
  "machine_inv m \<longleftrightarrow>
     table_inv (cv_jobs (m_conv m)) (m_workers m) \<and>
     (\<forall>w. w \<in># m_workers m \<longrightarrow> key_kind w) \<and>
     cv_sem (m_conv m) = size (filter_mset holds_slot (m_workers m)) \<and>
     cv_sem (m_conv m) \<le> cv_sem_cap (m_conv m) \<and>
     m_fetch_sem m = size (filter_mset holds_fetch_slot (m_workers m)) \<and>
     m_fetch_sem m \<le> m_fetch_cap m \<and> \<not> m_panic m"

lemmas machine_simps = move_worker_def drop_worker_def add_worker_def on_conv_def count_up_def set_alias_def

section \<open>Every step keeps the invariant\<close>

lemma transition_Some:
  "map_of (cv_jobs c) k = Some j \<Longrightarrow> transition k f c = c\<lparr>cv_jobs := AList.update k (f j) (cv_jobs c)\<rparr>"
  by (simp add: transition_def)

lemma transition_frame [simp]:
  "cv_sem (transition k f c) = cv_sem c" "cv_sem_cap (transition k f c) = cv_sem_cap c"
  "cv_aliases (transition k f c) = cv_aliases c" "cv_counters (transition k f c) = cv_counters c"
  "cv_access (transition k f c) = cv_access c" "cv_timeout (transition k f c) = cv_timeout c"
  by (auto simp: transition_def split: option.split)

lemma fail_job_frame [simp]:
  "cv_sem (fail_job err rst now k ph c) = cv_sem c" "cv_sem_cap (fail_job err rst now k ph c) = cv_sem_cap c"
  by (auto simp: fail_job_def count_up_def split: prod.split)

lemma fail_job_jobs:
  assumes "map_of (cv_jobs c) k = Some j"
  shows "\<exists>j'. cv_jobs (fail_job err rst now k ph c) = AList.update k j' (cv_jobs c) \<and> j_state j' = Failed"
  using assms by (auto simp: fail_job_def count_up_def transition_def split: prod.split)

lemma finish_fetch_jobs:
  assumes "map_of (cv_jobs c) k = Some j"
  shows "\<exists>j'. cv_jobs (finish_fetch_failure rst now k err refused c) = AList.update k j' (cv_jobs c) \<and> j_state j' = Failed"
  unfolding finish_fetch_failure_def using fail_job_jobs [of "count_up g c" k j for g] assms
  by (auto simp: count_up_def)

lemma finish_fetch_frame [simp]:
  "cv_sem (finish_fetch_failure rst now k err refused c) = cv_sem c"
  "cv_sem_cap (finish_fetch_failure rst now k err refused c) = cv_sem_cap c"
  by (simp_all add: finish_fetch_failure_def count_up_def)

lemma succeed_job_jobs:
  assumes "map_of (cv_jobs c) k = Some j"
  shows "\<exists>j'. cv_jobs (succeed_job now k c) = AList.update k j' (cv_jobs c) \<and> j_state j' = Done"
  using assms by (auto simp: succeed_job_def Let_def transition_def count_up_def intro!: exI)

lemma succeed_job_frame [simp]:
  "cv_sem (succeed_job now k c) = cv_sem c" "cv_sem_cap (succeed_job now k c) = cv_sem_cap c"
  by (simp_all add: succeed_job_def Let_def count_up_def)

lemma apply_progress_state [simp]: "j_state (apply_progress p j) = j_state j"
  by (simp add: apply_progress_def split: progress.split)

text \<open>What \<open>EnsureSource\<close> does to the table: nothing, a finished record, or a new queued job.\<close>

definition ensure_effect :: "converter \<Rightarrow> converter \<Rightarrow> string option \<Rightarrow> bool" where
  "ensure_effect c c' start \<longleftrightarrow> cv_sem c' = cv_sem c \<and> cv_sem_cap c' = cv_sem_cap c \<and>
     (start = None \<and> cv_jobs c' = cv_jobs c \<or>
      (\<exists>src j'. \<not> live_at (cv_jobs c) (source_job_key src) \<and>
         cv_jobs c' = AList.update (source_job_key src) j' (cv_jobs c) \<and>
         (start = None \<and> j_state j' = Done \<or> start = Some (source_job_key src) \<and> j_state j' = Queued)))"

lemma ensure_effectI:
  "cv_sem c' = cv_sem c \<Longrightarrow> cv_sem_cap c' = cv_sem_cap c \<Longrightarrow> cv_jobs c' = cv_jobs c \<Longrightarrow> ensure_effect c c' None"
  "cv_sem c' = cv_sem c \<Longrightarrow> cv_sem_cap c' = cv_sem_cap c \<Longrightarrow> \<not> live_at (cv_jobs c) (source_job_key src) \<Longrightarrow>
     cv_jobs c' = AList.update (source_job_key src) j' (cv_jobs c) \<Longrightarrow> j_state j' = Done \<Longrightarrow> ensure_effect c c' None"
  "cv_sem c' = cv_sem c \<Longrightarrow> cv_sem_cap c' = cv_sem_cap c \<Longrightarrow> \<not> live_at (cv_jobs c) (source_job_key src) \<Longrightarrow>
     cv_jobs c' = AList.update (source_job_key src) j' (cv_jobs c) \<Longrightarrow> j_state j' = Queued \<Longrightarrow>
     ensure_effect c c' (Some (source_job_key src))"
  unfolding ensure_effect_def by blast+

lemma ensure_effect_start:
  "\<not> live_at (cv_jobs c) (source_job_key src) \<Longrightarrow> j_state j' = Queued \<Longrightarrow>
     ensure_effect c (c\<lparr>cv_counters := n, cv_aliases := a, cv_jobs := AList.update (source_job_key src) j' (cv_jobs c)\<rparr>)
       (Some (source_job_key src))"
  by (rule ensure_effectI(3)) auto

lemma ensure_source_effect:
  assumes "ensure_source paper source inp now c = (job, c', start)"
  shows "ensure_effect c c' start"
proof (cases "cv_access c")
  case False
  then show ?thesis using assms by (auto simp: ensure_source_def intro: ensure_effectI)
next
  case access: True
  show ?thesis
  proof (cases "en_frozen inp")
    case (Inl e)
    with access assms show ?thesis by (cases e) (auto simp: ensure_source_def intro: ensure_effectI)
  next
    case frozen: (Inr src)
    show ?thesis
    proof (cases "en_ready inp")
      case (Inl e)
      with access frozen assms show ?thesis by (cases e) (auto simp: ensure_source_def intro: ensure_effectI)
    next
      case ready: (Inr r)
      let ?key = "source_job_key src"
      let ?hit = "case r of Some b \<Rightarrow> rb_source b = ps_source src \<and> rb_source_sha b = ps_sha src | None \<Rightarrow> False"
      let ?busy = "case map_of (cv_jobs c) ?key of Some e \<Rightarrow> live e | None \<Rightarrow> False"
      let ?kept = "\<exists>e. map_of (cv_jobs c) ?key = Some e \<and> (live e \<or> j_state e = Failed \<and> now < j_cooldown e)"
      have busy: "?busy = live_at (cv_jobs c) ?key" by (simp add: live_at_def)
      note unfold = ensure_source_def access frozen ready Let_def
      consider "?hit" "?busy" | "?hit" "\<not> ?busy" | "\<not> ?hit" "\<not> en_enabled inp" | "\<not> ?hit" "en_enabled inp" "?kept"
        | "\<not> ?hit" "en_enabled inp" "\<not> ?kept" by blast
      then show ?thesis
      proof cases
        case 1
        with assms show ?thesis by (simp add: unfold) (auto intro: ensure_effectI)
      next
        case 2
        with assms busy show ?thesis by (simp add: unfold) (auto intro: ensure_effectI(2) [of _ _ src])
      next
        case 3
        with assms show ?thesis by (simp add: unfold) (auto intro: ensure_effectI)
      next
        case 4
        with assms show ?thesis by (auto simp: unfold intro!: ensure_effectI(1))
      next
        case 5
        then have "\<not> live_at (cv_jobs c) ?key" by (auto simp: live_at_def split: option.splits)
        with 5 assms show ?thesis
          by (cases "map_of (cv_jobs c) ?key")
            (auto simp: unfold zero_job_def intro!: ensure_effect_start)
      qed
    qed
  qed
qed

lemma source_key_prefix: "prefix ''source:'' (source_job_key src)"
  by (simp add: source_job_key_def source_alias_def)

lemma machine_invD:
  assumes "machine_inv m"
  shows "table_inv (cv_jobs (m_conv m)) (m_workers m)" "w \<in># m_workers m \<Longrightarrow> key_kind w"
    "cv_sem (m_conv m) = size (filter_mset holds_slot (m_workers m))" "cv_sem (m_conv m) \<le> cv_sem_cap (m_conv m)"
    "m_fetch_sem m = size (filter_mset holds_fetch_slot (m_workers m))" "m_fetch_sem m \<le> m_fetch_cap m"
    "\<not> m_panic m"
  using assms by (auto simp: machine_inv_def)

lemma ensure_source_inv:
  assumes "machine_inv m"
  shows "machine_inv (snd (do_ensure_source paper source inp now m)) \<and>
    m_workers m \<subseteq># m_workers (snd (do_ensure_source paper source inp now m))"
proof -
  note inv = machine_invD [OF assms]
  obtain job c' start where e: "ensure_source paper source inp now (m_conv m) = (job, c', start)"
    by (metis prod_cases3)
  note eff = ensure_source_effect [OF e, unfolded ensure_effect_def]
  show ?thesis
  proof (cases "start = None \<and> cv_jobs c' = cv_jobs (m_conv m)")
    case True
    with assms e eff show ?thesis by (simp add: do_ensure_source_def machine_inv_def)
  next
    case False
    with eff obtain src j' where key: "\<not> live_at (cv_jobs (m_conv m)) (source_job_key src)"
      "cv_jobs c' = AList.update (source_job_key src) j' (cv_jobs (m_conv m))"
      and kind: "start = None \<and> j_state j' = Done \<or> start = Some (source_job_key src) \<and> j_state j' = Queued"
      by blast
    have ok: "gomap_ok (cv_jobs c')" "map_of (cv_jobs c') = (map_of (cv_jobs (m_conv m)))(source_job_key src \<mapsto> j')"
      using table_invD(1) [OF inv(1)] key(2) by (simp_all add: gomap_simps)
    from kind show ?thesis
    proof (elim disjE conjE)
      assume "start = None" "j_state j' = Done"
      then have "table_inv (cv_jobs c') (m_workers m)"
        by (intro table_dead [OF inv(1) ok key(1)]) (simp add: ok live_at_def live_def)
      with e eff assms \<open>start = None\<close> show ?thesis by (simp add: do_ensure_source_def machine_inv_def)
    next
      assume "start = Some (source_job_key src)" "j_state j' = Queued"
      then have "table_inv (cv_jobs c') (add_mset (Job_Waiting (source_job_key src)) (m_workers m))"
        by (intro table_start [OF inv(1) key(1) ok]) simp_all
      with e eff assms \<open>start = Some _\<close> show ?thesis
        by (auto simp: do_ensure_source_def machine_inv_def add_worker_def source_key_prefix)
    qed
  qed
qed

lemma fetch_key_prefix [simp]: "prefix ''fetch:'' (''fetch:'' @ a)"
  by simp

lemma counters_inv [simp]: "machine_inv (on_conv (count_up f) m) = machine_inv m"
  by (simp add: machine_inv_def on_conv_def count_up_def)

lemma alias_inv [simp]: "machine_inv (on_conv (set_alias a k) m) = machine_inv m"
  by (simp add: machine_inv_def on_conv_def set_alias_def)

lemma on_conv_workers [simp]: "m_workers (on_conv f m) = m_workers m"
  by (simp add: on_conv_def)

text \<open>A change of one record that keeps its state.\<close>

lemma keep_inv:
  assumes "machine_inv m" and "map_of (cv_jobs (m_conv m)) k = Some j" and "j_state j' = j_state j"
  shows "machine_inv (on_conv (\<lambda>c. c\<lparr>cv_jobs := AList.update k j' (cv_jobs c)\<rparr>) m)"
proof -
  note inv = machine_invD [OF assms(1)]
  have "table_inv (AList.update k j' (cv_jobs (m_conv m))) (m_workers m)"
    using table_invD(1) [OF inv(1)] by (intro table_keep [OF inv(1) _ _ assms(2,3)]) (simp_all add: gomap_simps)
  with assms(1) show ?thesis by (simp add: machine_inv_def on_conv_def)
qed

lemma start_fetch_inv:
  assumes "machine_inv m" and "\<not> live_at (cv_jobs (m_conv m)) (''fetch:'' @ a)" and "j_state job = Queued"
  shows "machine_inv (add_worker (Fetch_New (''fetch:'' @ a) a paper)
    (on_conv (\<lambda>c. set_alias a (''fetch:'' @ a) (c\<lparr>cv_jobs := AList.update (''fetch:'' @ a) job (cv_jobs c)\<rparr>)) m))"
proof -
  note inv = machine_invD [OF assms(1)]
  let ?k = "''fetch:'' @ a"
  have "table_inv (AList.update ?k job (cv_jobs (m_conv m))) (add_mset (Fetch_New ?k a paper) (m_workers m))"
    using table_invD(1) [OF inv(1)] assms(3) by (intro table_start [OF inv(1) assms(2)]) (simp_all add: gomap_simps)
  with assms(1) show ?thesis
    by (auto simp: machine_inv_def on_conv_def set_alias_def add_worker_def)
qed

lemma ensure_canonical_inv:
  assumes "machine_inv m"
  shows "machine_inv (snd (ensure_canonical r io inp now m))"
proof -
  obtain src paper err where cs: "canonical_source io = (src, paper, err)" by (metis prod_cases3)
  let ?c = "m_conv m" and ?k = "''fetch:'' @ cr_alias r"
  let ?m1 = "on_conv (count_up (\<lambda>n. n\<lparr>n_cache_misses := n_cache_misses n + 1\<rparr>)) m"
  have m1: "machine_inv ?m1" "cv_jobs (m_conv ?m1) = cv_jobs ?c"
    using assms by (simp, simp add: on_conv_def count_up_def)
  show ?thesis
  proof (cases "cv_access ?c \<and> cr_valid r")
    case False
    then show ?thesis using assms by (auto simp: ensure_canonical_def Let_def)
  next
    case go: True
    show ?thesis
    proof (cases err)
      case None
      have "machine_inv (snd (do_ensure_source paper (ps_source src) inp now m))"
        using ensure_source_inv [OF assms] by blast
      with go cs None assms show ?thesis
        by (auto simp: ensure_canonical_def Let_def split: prod.split)
    next
      case (Some e)
      let ?refuse = "ps_source src \<noteq> [] \<or> e \<noteq> Not_Found \<or> \<not> m_fetcher m \<or>
        cr_doi r \<and> cr_oa_url r = [] \<and> \<not> cr_doi_lookup r \<or> \<not> cr_pdf_only r \<and> \<not> en_enabled inp"
      show ?thesis
      proof (cases ?refuse)
        case True
        with go cs Some assms m1(1) show ?thesis by (auto simp: ensure_canonical_def Let_def)
      next
        case fetch: False
        let ?join = "\<exists>e. map_of (cv_jobs ?c) ?k = Some e \<and> (live e \<or> j_state e = Failed \<and> now < j_cooldown e)"
        show ?thesis
        proof (cases ?join)
          case True
          then obtain e' where e': "map_of (cv_jobs ?c) ?k = Some e'" "live e' \<or> j_state e' = Failed \<and> now < j_cooldown e'"
            by blast
          let ?e = "if cr_pdf_only r then e' else e'\<lparr>j_parse_after_fetch := True\<rparr>"
          have "machine_inv (on_conv (\<lambda>c. c\<lparr>cv_jobs := AList.update ?k ?e (cv_jobs c)\<rparr>) ?m1)"
            using m1 e'(1) by (intro keep_inv [of _ _ e']) simp_all
          with assms go cs Some fetch e' show ?thesis by (auto simp: ensure_canonical_def Let_def)
        next
          case False
          then have "\<not> live_at (cv_jobs (m_conv ?m1)) ?k" unfolding m1(2) by (auto simp: live_at_def split: option.splits)
          from start_fetch_inv [OF m1(1) this, of "zero_job\<lparr>j_canonical := cr_id r, j_paper := paper, j_state := Queued,
              j_phase := Fetching_PDF, j_submitted := now, j_parse_after_fetch := \<not> cr_pdf_only r\<rparr>" paper]
          show ?thesis using go cs Some fetch False
            by (cases "map_of (cv_jobs ?c) ?k") (auto simp: ensure_canonical_def Let_def)
        qed
      qed
    qed
  qed
qed

text \<open>A responsible goroutine moves on or lets go, with its record and the slots it holds.\<close>

lemma split_worker: "w \<in># ws \<Longrightarrow> \<exists>rest. ws = add_mset w rest"
  by (rule multi_member_split)

definition sems_ok :: "converter \<Rightarrow> nat \<Rightarrow> machine \<Rightarrow> worker multiset \<Rightarrow> bool" where
  "sems_ok c' fs' m ws' \<longleftrightarrow> cv_sem c' = size (filter_mset holds_slot ws') \<and> cv_sem c' \<le> cv_sem_cap c' \<and>
     fs' = size (filter_mset holds_fetch_slot ws') \<and> fs' \<le> m_fetch_cap m"

lemma live_step_inv:
  assumes inv: "machine_inv m" and ws: "m_workers m = add_mset w ws" and k: "live_key w = Some k" "live_key w' = Some k"
    and jobs: "cv_jobs c' = AList.update k j' (cv_jobs (m_conv m))" "j_state j' = expects w'"
    and rest: "key_kind w'" "sems_ok c' fs' m (add_mset w' ws)"
  shows "machine_inv (m\<lparr>m_conv := c', m_fetch_sem := fs', m_workers := add_mset w' ws\<rparr>)"
proof -
  note i = machine_invD [OF inv]
  have "table_inv (cv_jobs c') (add_mset w' ws)"
    using table_invD(1) [OF i(1)] jobs k(2)
    by (intro table_move [OF i(1) [unfolded ws] k(1)]) (simp_all add: gomap_simps)
  with rest i(2,7) ws show ?thesis by (auto simp: machine_inv_def sems_ok_def)
qed

lemma end_step_inv:
  assumes inv: "machine_inv m" and ws: "m_workers m = add_mset w ws" and k: "live_key w = Some k"
    and jobs: "gomap_ok (cv_jobs c')" "map_of (cv_jobs c') = (map_of (cv_jobs (m_conv m)))(k := vo)" "\<not> live_at (cv_jobs c') k"
    and ws': "ws' = ws \<or> ws' = add_mset w' ws \<and> live_key w' = None \<and> key_kind w'" and rest: "sems_ok c' fs' m ws'"
  shows "machine_inv (m\<lparr>m_conv := c', m_fetch_sem := fs', m_workers := ws'\<rparr>)"
proof -
  note i = machine_invD [OF inv]
  have "table_inv (cv_jobs c') ws"
    by (rule table_release [OF i(1) [unfolded ws] k jobs])
  with rest i(2,7) ws ws' show ?thesis by (auto simp: machine_inv_def sems_ok_def)
qed

lemma free_step_inv:
  assumes inv: "machine_inv m" and ws: "m_workers m = add_mset w ws" and k: "live_key w = None"
    and jobs: "cv_jobs c' = cv_jobs (m_conv m)" and rest: "sems_ok c' fs' m ws"
  shows "machine_inv (m\<lparr>m_conv := c', m_fetch_sem := fs', m_workers := ws\<rparr>)"
  using inv ws k jobs rest by (simp add: machine_inv_def sems_ok_def)

lemma machine_update: "m\<lparr>m_conv := c, m_fetch_sem := m_fetch_sem m, m_workers := ws\<rparr> = m\<lparr>m_conv := c, m_workers := ws\<rparr>"
  by (cases m) simp

lemma worker_record:
  assumes "machine_inv m" and "m_workers m = add_mset w ws" and "live_key w = Some k"
  obtains j where "map_of (cv_jobs (m_conv m)) k = Some j" "j_state j = expects w"
  using table_invD(3) [OF machine_invD(1) [OF assms(1)]] assms(2,3) that by (metis union_single_eq_member)

text \<open>The slot counts of the invariant, with one goroutine set apart.\<close>

lemma sems_split:
  assumes "machine_inv m" and "m_workers m = add_mset w ws"
  shows "cv_sem (m_conv m) = (if holds_slot w then 1 else 0) + size (filter_mset holds_slot ws)"
    and "m_fetch_sem m = (if holds_fetch_slot w then 1 else 0) + size (filter_mset holds_fetch_slot ws)"
    and "cv_sem (m_conv m) \<le> cv_sem_cap (m_conv m)" "m_fetch_sem m \<le> m_fetch_cap m" "key_kind w"
  using machine_invD [OF assms(1)] assms(2) by auto
text \<open>Job workers.\<close>

lemma live_stepI:
  assumes "machine_inv m" and "w \<in># m_workers m" and "live_key w = Some k" and "live_key w' = Some k"
    and "\<And>j. map_of (cv_jobs (m_conv m)) k = Some j \<Longrightarrow> j_state j = expects w \<Longrightarrow>
           \<exists>j'. cv_jobs (f (m_conv m)) = AList.update k j' (cv_jobs (m_conv m)) \<and> j_state j' = expects w'"
    and "key_kind w \<Longrightarrow> key_kind w'" and "holds_slot w' = holds_slot w" and "holds_fetch_slot w' = holds_fetch_slot w"
    and "cv_sem (f (m_conv m)) = cv_sem (m_conv m)" "cv_sem_cap (f (m_conv m)) = cv_sem_cap (m_conv m)"
  shows "machine_inv (move_worker w w' (on_conv f m))"
proof -
  from assms(2) obtain ws where ws: "m_workers m = add_mset w ws" by (blast dest: split_worker)
  note s = sems_split [OF assms(1) ws]
  from worker_record [OF assms(1) ws assms(3)] obtain j where "map_of (cv_jobs (m_conv m)) k = Some j" "j_state j = expects w" .
  from assms(5) [OF this] obtain j' where j': "cv_jobs (f (m_conv m)) = AList.update k j' (cv_jobs (m_conv m))" "j_state j' = expects w'"
    by blast
  have "machine_inv (m\<lparr>m_conv := f (m_conv m), m_fetch_sem := m_fetch_sem m, m_workers := add_mset w' ws\<rparr>)"
    using s assms(6-10)
    by (intro live_step_inv [OF assms(1) ws assms(3,4) j']) (auto simp: sems_ok_def)
  then show ?thesis unfolding machine_update by (simp add: move_worker_def on_conv_def ws)
qed

lemma end_stepI:
  assumes "machine_inv m" and "w \<in># m_workers m" and "live_key w = Some k" and "live_key w' = None"
    and "\<And>j. map_of (cv_jobs (m_conv m)) k = Some j \<Longrightarrow> j_state j = expects w \<Longrightarrow>
           gomap_ok (cv_jobs (f (m_conv m))) \<and> (\<exists>vo. map_of (cv_jobs (f (m_conv m))) = (map_of (cv_jobs (m_conv m)))(k := vo)) \<and>
           \<not> live_at (cv_jobs (f (m_conv m))) k"
    and "key_kind w \<Longrightarrow> key_kind w'" and "holds_slot w' = holds_slot w" and "holds_fetch_slot w' = holds_fetch_slot w"
    and "cv_sem (f (m_conv m)) = cv_sem (m_conv m)" "cv_sem_cap (f (m_conv m)) = cv_sem_cap (m_conv m)"
  shows "machine_inv (move_worker w w' (on_conv f m))"
proof -
  from assms(2) obtain ws where ws: "m_workers m = add_mset w ws" by (blast dest: split_worker)
  note s = sems_split [OF assms(1) ws]
  from worker_record [OF assms(1) ws assms(3)] obtain j where "map_of (cv_jobs (m_conv m)) k = Some j" "j_state j = expects w" .
  from assms(5) [OF this] obtain vo where vo: "gomap_ok (cv_jobs (f (m_conv m)))"
    "map_of (cv_jobs (f (m_conv m))) = (map_of (cv_jobs (m_conv m)))(k := vo)" "\<not> live_at (cv_jobs (f (m_conv m))) k" by blast
  have "machine_inv (m\<lparr>m_conv := f (m_conv m), m_fetch_sem := m_fetch_sem m, m_workers := add_mset w' ws\<rparr>)"
    using s assms(4,6-10)
    by (intro end_step_inv [OF assms(1) ws assms(3) vo, where w' = w']) (auto simp: sems_ok_def)
  then show ?thesis unfolding machine_update by (simp add: move_worker_def on_conv_def ws)
qed

lemma drop_stepI:
  assumes "machine_inv m" and "w \<in># m_workers m" and "live_key w = Some k"
    and "\<And>j. map_of (cv_jobs (m_conv m)) k = Some j \<Longrightarrow> j_state j = expects w \<Longrightarrow>
           \<exists>j'. cv_jobs (f (m_conv m)) = AList.update k j' (cv_jobs (m_conv m)) \<and> j_state j' = Failed"
    and "\<not> holds_slot w" and "\<not> holds_fetch_slot w"
    and "cv_sem (f (m_conv m)) = cv_sem (m_conv m)" "cv_sem_cap (f (m_conv m)) = cv_sem_cap (m_conv m)"
  shows "machine_inv (drop_worker w (on_conv f m))"
proof -
  from assms(2) obtain ws where ws: "m_workers m = add_mset w ws" by (blast dest: split_worker)
  note s = sems_split [OF assms(1) ws]
  from worker_record [OF assms(1) ws assms(3)] obtain j where "map_of (cv_jobs (m_conv m)) k = Some j" "j_state j = expects w" .
  from assms(4) [OF this] obtain j' where j': "cv_jobs (f (m_conv m)) = AList.update k j' (cv_jobs (m_conv m))" "j_state j' = Failed"
    by blast
  have ok: "gomap_ok (cv_jobs (f (m_conv m)))" "map_of (cv_jobs (f (m_conv m))) = (map_of (cv_jobs (m_conv m)))(k := Some j')"
    "\<not> live_at (cv_jobs (f (m_conv m))) k"
    using table_invD(1) [OF machine_invD(1) [OF assms(1)]] j' by (simp_all add: gomap_simps live_at_def live_def)
  have "machine_inv (m\<lparr>m_conv := f (m_conv m), m_fetch_sem := m_fetch_sem m, m_workers := ws\<rparr>)"
    using s assms(5-8) by (intro end_step_inv [OF assms(1) ws assms(3) ok]) (auto simp: sems_ok_def)
  then show ?thesis unfolding machine_update by (simp add: drop_worker_def on_conv_def ws)
qed

text \<open>A failed or finished record at the goroutine's key, as the end of its step.\<close>

lemma ended_record:
  assumes "machine_inv m" and "\<exists>j'. jobs' = AList.update k j' (cv_jobs (m_conv m)) \<and> j_state j' \<in> {Done, Failed}"
  shows "gomap_ok jobs' \<and> (\<exists>vo. map_of jobs' = (map_of (cv_jobs (m_conv m)))(k := vo)) \<and> \<not> live_at jobs' k"
  using assms(2) table_invD(1) [OF machine_invD(1) [OF assms(1)]]
  by (auto simp: gomap_simps live_at_def live_def)

lemma take_slot_inv:
  assumes inv: "machine_inv m" and w: "Job_Waiting key \<in># m_workers m" and cap: "cv_sem (m_conv m) < cv_sem_cap (m_conv m)"
  shows "machine_inv (move_worker (Job_Waiting key) (Job_Slotted key) (on_conv sem_up m))"
proof -
  from w obtain ws where ws: "m_workers m = add_mset (Job_Waiting key) ws" by (blast dest: split_worker)
  note s = sems_split [OF inv ws]
  from worker_record [OF inv ws] obtain j where j: "map_of (cv_jobs (m_conv m)) key = Some j" "j_state j = Queued" by auto
  have "table_inv (cv_jobs (m_conv m)) (add_mset (Job_Slotted key) ws)"
    using table_invD(1) [OF machine_invD(1) [OF inv]] j
    by (intro table_move [OF machine_invD(1) [OF inv, unfolded ws], of key _ j]) (auto simp: map_upd_triv)
  then show ?thesis using inv ws s cap
    by (auto simp: machine_inv_def move_worker_def on_conv_def sem_up_def count_up_def)
qed

lemma take_fetch_slot_inv:
  assumes inv: "machine_inv m" and w: "Fetch_Waiting key a p \<in># m_workers m" and cap: "m_fetch_sem m < m_fetch_cap m"
  shows "machine_inv (move_worker (Fetch_Waiting key a p) (Fetch_Working key a p)
    (on_conv (count_up g) (m\<lparr>m_fetch_sem := m_fetch_sem m + 1\<rparr>)))"
proof -
  from w obtain ws where ws: "m_workers m = add_mset (Fetch_Waiting key a p) ws" by (blast dest: split_worker)
  note s = sems_split [OF inv ws]
  from worker_record [OF inv ws] obtain j where j: "map_of (cv_jobs (m_conv m)) key = Some j" "j_state j = Running" by auto
  have "table_inv (cv_jobs (m_conv m)) (add_mset (Fetch_Working key a p) ws)"
    using table_invD(1) [OF machine_invD(1) [OF inv]] j
    by (intro table_move [OF machine_invD(1) [OF inv, unfolded ws], of key _ j]) (auto simp: map_upd_triv)
  then show ?thesis using inv ws s cap
    by (auto simp: machine_inv_def move_worker_def on_conv_def count_up_def)
qed

lemma report_inv:
  assumes inv: "machine_inv m" and w: "Job_Working key \<in># m_workers m"
  shows "machine_inv (on_conv (transition key (apply_progress p)) m)"
proof -
  from w obtain ws where ws: "m_workers m = add_mset (Job_Working key) ws" by (blast dest: split_worker)
  from worker_record [OF inv ws] obtain j where j: "map_of (cv_jobs (m_conv m)) key = Some j" by auto
  from keep_inv [OF inv j, of "apply_progress p j"] j show ?thesis by (simp add: on_conv_def transition_Some)
qed

lemma free_slot_inv:
  assumes inv: "machine_inv m" and w: "Job_Ended key \<in># m_workers m"
  shows "machine_inv (drop_worker (Job_Ended key) (on_conv sem_down m))"
proof -
  from w obtain ws where ws: "m_workers m = add_mset (Job_Ended key) ws" by (blast dest: split_worker)
  from sems_split [OF inv ws] inv ws show ?thesis
    by (auto simp: machine_inv_def drop_worker_def on_conv_def sem_down_def count_up_def)
qed

lemma free_fetch_slot_inv:
  assumes inv: "machine_inv m" and w: "Fetch_Ended key \<in># m_workers m"
  shows "machine_inv (drop_worker (Fetch_Ended key) (on_conv (count_up g) (m\<lparr>m_fetch_sem := m_fetch_sem m - 1\<rparr>)))"
proof -
  from w obtain ws where ws: "m_workers m = add_mset (Fetch_Ended key) ws" by (blast dest: split_worker)
  from sems_split [OF inv ws] inv ws show ?thesis
    by (auto simp: machine_inv_def drop_worker_def on_conv_def count_up_def)
qed

lemma decide_inv:
  assumes inv: "machine_inv m" and w: "Fetch_Got key a p src \<in># m_workers m"
  shows "machine_inv (decide_fetch key a p src now m)"
proof -
  from w obtain ws where ws: "m_workers m = add_mset (Fetch_Got key a p src) ws" by (blast dest: split_worker)
  from worker_record [OF inv ws] obtain j where j: "map_of (cv_jobs (m_conv m)) key = Some j" "j_state j = Running" by auto
  show ?thesis
  proof (cases "j_parse_after_fetch j")
    case True
    have "m\<lparr>m_conv := m_conv m\<rparr> = m" by (cases m) simp
    then have "on_conv (\<lambda>c. c) m = m" by (simp add: on_conv_def)
    moreover have "machine_inv (move_worker (Fetch_Got key a p src) (Fetch_Parse key a p src (j_fetch j))
        (on_conv (transition key (\<lambda>j. j)) m))"
      using j by (intro live_stepI [OF inv w]) (auto simp: transition_Some)
    moreover have "machine_inv (move_worker (Fetch_Got key a p src) (Fetch_Parse key a p src (j_fetch j)) m)"
      using calculation(2) j table_invD(1) [OF machine_invD(1) [OF inv]] ws
      by (simp add: on_conv_def transition_Some move_worker_def machine_inv_def table_inv_def gomap_simps
          map_upd_triv live_at_def)
    ultimately show ?thesis using j True by (simp add: decide_fetch_def)
  next
    case False
    have "machine_inv (move_worker (Fetch_Got key a p src) (Fetch_Ended key)
        (on_conv (\<lambda>c. c\<lparr>cv_jobs := AList.update key (j\<lparr>j_state := Done, j_phase := Ready, j_finished := now\<rparr>) (cv_jobs c)\<rparr>) m))"
      using table_invD(1) [OF machine_invD(1) [OF inv]]
      by (intro end_stepI [OF inv w, where k = key])
        (auto simp: gomap_simps live_at_def live_def intro: exI [of _ "Some (j\<lparr>j_state := Done, j_phase := Ready, j_finished := now\<rparr>)"])
    then show ?thesis using j False by (simp add: decide_fetch_def)
  qed
qed

lemma source_fetch_key: "prefix ''fetch:'' k \<Longrightarrow> source_job_key src \<noteq> k"
  using source_key_prefix [of src] by (auto simp: prefix_def)

text \<open>\<open>fetchCanonical\<close> leaves in two changes of the table: the source's job, which keeps its state, and its own.\<close>

lemma leave_delete_inv:
  assumes inv: "machine_inv m" and w: "w \<in># m_workers m" and k: "live_key w = Some key"
    and w': "live_key w' = None" "key_kind w \<Longrightarrow> key_kind w'" "holds_slot w' = holds_slot w" "holds_fetch_slot w' = holds_fetch_slot w"
  shows "machine_inv (move_worker w w' (on_conv (\<lambda>c. set_alias a s (c\<lparr>cv_jobs := AList.delete key (cv_jobs c)\<rparr>)) m))"
  using table_invD(1) [OF machine_invD(1) [OF inv]] w'
  by (intro end_stepI [OF inv w k]) (auto simp: set_alias_def gomap_simps live_at_def intro: exI [of _ None])

lemma leave_inv:
  assumes inv: "machine_inv m" and w: "Fetch_Finish key a src f job \<in># m_workers m"
  shows "machine_inv (move_worker (Fetch_Finish key a src f job) (Fetch_Ended key) (on_conv (leave_fetch key a src f job) m))"
proof (cases "j_state job = Failed")
  case True
  have "gomap_ok (cv_jobs (m_conv m))" by (rule table_invD(1) [OF machine_invD(1) [OF inv]])
  with True show ?thesis
    by (intro end_stepI [OF inv w, where k = key])
      (auto simp: leave_fetch_def gomap_simps live_at_def live_def intro: exI [of _ "Some job"])
next
  case False
  let ?s = "source_job_key src"
  let ?w = "Fetch_Finish key a src f job"
  show ?thesis
  proof (cases "map_of (cv_jobs (m_conv m)) ?s")
    case None
    have "on_conv (leave_fetch key a src f job) m =
        on_conv (\<lambda>c. set_alias a ?s (c\<lparr>cv_jobs := AList.delete key (cv_jobs c)\<rparr>)) m"
      using False None by (simp add: on_conv_def leave_fetch_def)
    with leave_delete_inv [OF inv w, of key "Fetch_Ended key" a ?s] show ?thesis by simp
  next
    case (Some sj)
    let ?m1 = "on_conv (\<lambda>c. c\<lparr>cv_jobs := AList.update ?s (sj\<lparr>j_fetch := f\<rparr>) (cv_jobs c)\<rparr>) m"
    have inv1: "machine_inv ?m1" by (rule keep_inv [OF inv Some]) simp
    have w1: "?w \<in># m_workers ?m1" using w by simp
    have "on_conv (leave_fetch key a src f job) m =
        on_conv (\<lambda>c. set_alias a ?s (c\<lparr>cv_jobs := AList.delete key (cv_jobs c)\<rparr>)) ?m1"
      using False Some by (simp add: on_conv_def leave_fetch_def)
    with leave_delete_inv [OF inv1 w1, of key "Fetch_Ended key" a ?s] show ?thesis by simp
  qed
qed

lemma fetch_ensures_inv:
  assumes inv: "machine_inv m" and w: "Fetch_Parse key a p src f \<in># m_workers m"
    and m': "do_ensure_source p (ps_source src) inp now m = (job, m')"
  shows "machine_inv (move_worker (Fetch_Parse key a p src f) (Fetch_Finish key a src f job) m')"
proof -
  from ensure_source_inv [OF inv, of p "ps_source src" inp now] m'
  have inv': "machine_inv m'" and sub: "m_workers m \<subseteq># m_workers m'" by auto
  have "Fetch_Parse key a p src f \<in># m_workers m'" by (rule mset_subset_eqD [OF sub w])
  then obtain ws where ws: "m_workers m' = add_mset (Fetch_Parse key a p src f) ws" by (blast dest: split_worker)
  from worker_record [OF inv' ws] obtain j where j: "map_of (cv_jobs (m_conv m')) key = Some j" "j_state j = Running" by auto
  have "table_inv (cv_jobs (m_conv m')) (add_mset (Fetch_Finish key a src f job) ws)"
    using table_invD(1) [OF machine_invD(1) [OF inv']] j
    by (intro table_move [OF machine_invD(1) [OF inv', unfolded ws], of key _ j]) (auto simp: map_upd_triv)
  with sems_split [OF inv' ws] machine_invD(2,7) [OF inv'] ws show ?thesis
    by (simp add: machine_inv_def move_worker_def) blast?
qed

lemma do_event_inv:
  assumes inv: "machine_inv m" and en: "enabled ev m"
  shows "machine_inv (do_event rst ev m)"
proof (cases ev)
  case (Begin_Job key now)
  with en have w: "Job_Slotted key \<in># m_workers m" by (simp add: enabled_def)
  show ?thesis unfolding Begin_Job do_event.simps
    by (rule live_stepI [OF inv w]) (auto simp: begin_job_def count_up_def transition_Some intro!: exI)
next
  case (Job_Timeout key err now)
  with en have w: "Job_Waiting key \<in># m_workers m" by (simp add: enabled_def)
  show ?thesis unfolding Job_Timeout do_event.simps
    by (rule drop_stepI [OF inv w]) (auto dest: fail_job_jobs)
next
  case (Job_Done key now)
  with en have w: "Job_Working key \<in># m_workers m" by (simp add: enabled_def)
  show ?thesis unfolding Job_Done do_event.simps
    by (rule end_stepI [OF inv w, where k = key], simp_all)
      (rule ended_record [OF inv], use succeed_job_jobs in blast)
next
  case (Job_Fails key err now)
  with en have w: "Job_Working key \<in># m_workers m" by (simp add: enabled_def)
  show ?thesis unfolding Job_Fails do_event.simps
    by (rule end_stepI [OF inv w, where k = key], simp_all)
      (rule ended_record [OF inv], use fail_job_jobs in blast)
next
  case (Fetch_Begins key a p now)
  with en have w: "Fetch_New key a p \<in># m_workers m" by (simp add: enabled_def)
  show ?thesis unfolding Fetch_Begins do_event.simps
    by (rule live_stepI [OF inv w]) (auto simp: transition_Some intro!: exI)
next
  case (Fetch_Timeout key a p err now)
  with en have w: "Fetch_Waiting key a p \<in># m_workers m" by (simp add: enabled_def)
  show ?thesis unfolding Fetch_Timeout do_event.simps
    by (rule drop_stepI [OF inv w]) (auto dest: finish_fetch_jobs)
next
  case (Fetch_Fails key a p err refused now)
  with en have w: "Fetch_Working key a p \<in># m_workers m" by (simp add: enabled_def)
  show ?thesis unfolding Fetch_Fails do_event.simps
    by (rule end_stepI [OF inv w, where k = key], simp_all)
      (rule ended_record [OF inv], use finish_fetch_jobs in blast)
next
  case (Fetch_Stored key a p src len now)
  with en have w: "Fetch_Working key a p \<in># m_workers m" by (simp add: enabled_def)
  show ?thesis unfolding Fetch_Stored do_event.simps
    by (rule live_stepI [OF inv w]) (auto simp: fetch_stored_def count_up_def transition_Some intro!: exI)
qed (use assms in \<open>auto simp: enabled_def take_slot_inv take_fetch_slot_inv [simplified] report_inv free_slot_inv
    free_fetch_slot_inv [simplified] decide_inv leave_inv ensure_source_inv ensure_canonical_inv
    intro: fetch_ensures_inv split: prod.split\<close>)

lemma start_machine_inv: "machine_inv (start_machine (new_converter access timeout max_jobs) conc fetcher)"
  by (simp add: machine_inv_def start_machine_def new_converter_def table_inv_def live_at_def)

lemma machine_run_inv: "machine_run rst m0 m \<Longrightarrow> machine_inv m0 \<Longrightarrow> machine_inv m"
  by (induction rule: machine_run.induct) (auto intro: do_event_inv)

section \<open>Bounds and single flight\<close>

lemma do_ensure_source_caps:
  "cv_sem_cap (m_conv (snd (do_ensure_source paper source inp now m))) = cv_sem_cap (m_conv m)"
  "m_fetch_cap (snd (do_ensure_source paper source inp now m)) = m_fetch_cap m"
proof -
  obtain job c' start where e: "ensure_source paper source inp now (m_conv m) = (job, c', start)"
    by (metis prod_cases3)
  with ensure_source_effect [OF e] show "cv_sem_cap (m_conv (snd (do_ensure_source paper source inp now m))) = cv_sem_cap (m_conv m)"
    "m_fetch_cap (snd (do_ensure_source paper source inp now m)) = m_fetch_cap m"
    by (auto simp: do_ensure_source_def ensure_effect_def add_worker_def split: option.split)
qed

lemma machine_frames [simp]:
  "m_conv (move_worker w w' m) = m_conv m" "m_conv (drop_worker w m) = m_conv m" "m_conv (add_worker w m) = m_conv m"
  "m_fetch_cap (move_worker w w' m) = m_fetch_cap m" "m_fetch_cap (drop_worker w m) = m_fetch_cap m"
  "m_fetch_cap (add_worker w m) = m_fetch_cap m" "m_conv (on_conv f m) = f (m_conv m)" "m_fetch_cap (on_conv f m) = m_fetch_cap m"
  "m_panic (move_worker w w' m) = m_panic m" "m_panic (on_conv f m) = m_panic m"
  by (simp_all add: move_worker_def drop_worker_def add_worker_def on_conv_def)

lemma conv_frames [simp]:
  "cv_sem_cap (count_up g c) = cv_sem_cap c" "cv_sem_cap (set_alias a k c) = cv_sem_cap c"
  "cv_sem_cap (sem_up c) = cv_sem_cap c" "cv_sem_cap (sem_down c) = cv_sem_cap c"
  "cv_jobs (count_up g c) = cv_jobs c" "cv_jobs (set_alias a k c) = cv_jobs c"
  "cv_jobs (sem_up c) = cv_jobs c" "cv_jobs (sem_down c) = cv_jobs c"
  by (simp_all add: count_up_def set_alias_def sem_up_def sem_down_def)

lemma ensure_canonical_caps:
  "cv_sem_cap (m_conv (snd (ensure_canonical r io inp now m))) = cv_sem_cap (m_conv m) \<and>
   m_fetch_cap (snd (ensure_canonical r io inp now m)) = m_fetch_cap m"
proof -
  obtain src paper err where cs: "canonical_source io = (src, paper, err)" by (metis prod_cases3)
  obtain job m' where d: "do_ensure_source paper (ps_source src) inp now m = (job, m')" by (metis prod.collapse)
  with do_ensure_source_caps [of paper "ps_source src" inp now m] cs show ?thesis
    by (cases err) (auto simp: ensure_canonical_def Let_def split: option.split)
qed

lemma do_event_caps:
  "cv_sem_cap (m_conv (do_event rst ev m)) = cv_sem_cap (m_conv m) \<and> m_fetch_cap (do_event rst ev m) = m_fetch_cap m"
proof (cases ev)
  case (Fetch_Ensures key a p src f inp now)
  obtain job m' where d: "do_ensure_source p (ps_source src) inp now m = (job, m')" by (metis prod.collapse)
  with do_ensure_source_caps [of p "ps_source src" inp now m] Fetch_Ensures show ?thesis by simp
qed (auto simp: do_ensure_source_caps ensure_canonical_caps begin_job_def fetch_stored_def leave_fetch_def Let_def
    decide_fetch_def split: option.split)

lemma machine_run_caps:
  "machine_run rst m0 m \<Longrightarrow> cv_sem_cap (m_conv m) = cv_sem_cap (m_conv m0) \<and> m_fetch_cap m = m_fetch_cap m0"
  by (induction rule: machine_run.induct) (simp_all add: do_event_caps)

definition running_sources :: "job_table \<Rightarrow> string set" where
  "running_sources jobs = {k. prefix ''source:'' k \<and> (\<exists>j. map_of jobs k = Some j \<and> j_state j = Running)}"

lemma live_worker_exists:
  assumes "machine_inv m" and "map_of (cv_jobs (m_conv m)) k = Some j" and "live j"
  obtains w where "w \<in># m_workers m" "live_key w = Some k" "j_state j = expects w" "key_kind w"
proof -
  note inv = machine_invD [OF assms(1)]
  have "live_at (cv_jobs (m_conv m)) k" using assms(2,3) by (simp add: live_at_def)
  then have "size (filter_mset (\<lambda>w. live_key w = Some k) (m_workers m)) = 1" using table_invD(2) [OF inv(1), of k] by simp
  then have "filter_mset (\<lambda>w. live_key w = Some k) (m_workers m) \<noteq> {#}"
    by (metis size_empty zero_neq_one)
  then obtain w where "w \<in># filter_mset (\<lambda>w. live_key w = Some k) (m_workers m)" by (rule multiset_nonemptyE)
  then have w: "w \<in># m_workers m" "live_key w = Some k" by simp_all
  with table_invD(3) [OF inv(1) this] assms(2) inv(2) [OF w(1)] that show thesis by auto
qed

lemma source_worker:
  assumes "live_key w = Some k" "key_kind w" "expects w = Running" "prefix ''source:'' k"
  shows "w = Job_Working k"
  using assms by (cases w) (auto simp: prefix_def)

lemma card_set_size: "card (set_mset M) \<le> size M"
  by (induction M) (auto simp: card_insert_if le_SucI)

lemma running_sources_bound:
  assumes "machine_inv m"
  shows "card (running_sources (cv_jobs (m_conv m))) \<le> cv_sem (m_conv m)"
proof -
  let ?W = "filter_mset holds_slot (m_workers m)"
  have "running_sources (cv_jobs (m_conv m)) \<subseteq> (\<lambda>w. the (live_key w)) ` set_mset ?W"
  proof
    fix k assume "k \<in> running_sources (cv_jobs (m_conv m))"
    then obtain j where j: "prefix ''source:'' k" "map_of (cv_jobs (m_conv m)) k = Some j" "j_state j = Running"
      by (auto simp: running_sources_def)
    then have "live j" by (simp add: live_def)
    from live_worker_exists [OF assms j(2) this] obtain w where
      w: "w \<in># m_workers m" "live_key w = Some k" "j_state j = expects w" "key_kind w" .
    have "w = Job_Working k" using w j by (intro source_worker) auto
    with w(1) have "Job_Working k \<in># ?W" by simp
    then show "k \<in> (\<lambda>w. the (live_key w)) ` set_mset ?W" by (intro image_eqI [of _ _ "Job_Working k"]) auto
  qed
  then have "card (running_sources (cv_jobs (m_conv m))) \<le> card ((\<lambda>w. the (live_key w)) ` set_mset ?W)"
    by (intro card_mono finite_imageI) simp_all
  also have "\<dots> \<le> card (set_mset ?W)" by (intro card_image_le) simp
  also have "\<dots> \<le> size ?W" by (rule card_set_size)
  finally show ?thesis using machine_invD(3) [OF assms] by simp
qed

text \<open>C5: Conversions are bounded and single-flight. In every reachable state of the converter, whatever
  requests, failures and interleavings led there, at most the configured number of conversions run,
  at most the configured number of fetches hold a slot, each live job has exactly one goroutine
  working for it and no other key has any, and no goroutine has met a missing record.\<close>

theorem conversions_bounded:
  assumes "machine_run rst (start_machine (new_converter access timeout max_jobs) conc fetcher) m"
  shows "card (running_sources (cv_jobs (m_conv m))) \<le> (if max_jobs < 1 then 1 else nat max_jobs) \<and>
    size (filter_mset holds_fetch_slot (m_workers m)) \<le> (if \<not> fetcher then 0 else if conc < 1 then 2 else nat conc) \<and>
    (\<forall>k. size (filter_mset (\<lambda>w. live_key w = Some k) (m_workers m)) =
      (if live_at (cv_jobs (m_conv m)) k then 1 else 0)) \<and> \<not> m_panic m"
proof -
  have inv: "machine_inv m" by (rule machine_run_inv [OF assms start_machine_inv])
  note i = machine_invD [OF inv]
  have caps: "cv_sem_cap (m_conv m) = (if max_jobs < 1 then 1 else nat max_jobs)"
    "m_fetch_cap m = (if \<not> fetcher then 0 else if conc < 1 then 2 else nat conc)"
    using machine_run_caps [OF assms] by (simp_all add: start_machine_def new_converter_def)
  have "card (running_sources (cv_jobs (m_conv m))) \<le> cv_sem_cap (m_conv m)"
    using running_sources_bound [OF inv] i(4) by simp
  moreover have "size (filter_mset holds_fetch_slot (m_workers m)) \<le> m_fetch_cap m" using i(5,6) by simp
  ultimately show ?thesis using table_invD(2) [OF i(1)] i(7) unfolding caps by blast
qed

text \<open>A run: two requests for one source start one worker, which takes the only slot.\<close>

definition sample_source :: paper_source where
  "sample_source = \<lparr>ps_paper = ''p'', ps_source = ''s'', ps_sha = ''h''\<rparr>"

definition sample_input :: ensure_input where
  "sample_input = \<lparr>en_frozen = Inr sample_source, en_ready = Inr None, en_enabled = True, en_disabled_msg = [],
     en_revision = ''r''\<rparr>"

definition sample_machine :: machine where
  "sample_machine = foldl (\<lambda>m ev. do_event (\<lambda>t. t) ev m) (start_machine (new_converter True 0 1) 0 True)
     [Ensure_Source ''p'' ''s'' sample_input 5, Ensure_Source ''p'' ''s'' sample_input 6,
      Take_Slot (source_job_key sample_source), Begin_Job (source_job_key sample_source) 7]"

lemma sample_machine_workers: "m_workers sample_machine = {#Job_Working (source_job_key sample_source)#}"
  by (simp add: sample_machine_def start_machine_def new_converter_def do_ensure_source_def ensure_source_def
      sample_input_def Let_def sample_source_def source_job_key_def source_alias_def add_worker_def live_def zero_job_def
      move_worker_def on_conv_def)

lemmas sample_defs = enabled_def start_machine_def new_converter_def do_ensure_source_def ensure_source_def
  sample_input_def Let_def sample_source_def source_job_key_def source_alias_def add_worker_def live_def zero_job_def
  move_worker_def on_conv_def sem_up_def count_up_def

lemma sample_machine_run: "machine_run (\<lambda>t. t) (start_machine (new_converter True 0 1) 0 True) sample_machine"
proof -
  let ?m0 = "start_machine (new_converter True 0 1) 0 True" and ?k = "source_job_key sample_source"
  define m1 where "m1 = do_event (\<lambda>t. t) (Ensure_Source ''p'' ''s'' sample_input 5) ?m0"
  define m2 where "m2 = do_event (\<lambda>t. t) (Ensure_Source ''p'' ''s'' sample_input 6) m1"
  define m3 where "m3 = do_event (\<lambda>t. t) (Take_Slot ?k) m2"
  have "machine_run (\<lambda>t. t) ?m0 m1"
    unfolding m1_def by (rule machine_step [OF machine_start]) (simp add: enabled_def)
  then have r2: "machine_run (\<lambda>t. t) ?m0 m2"
    unfolding m2_def by (rule machine_step) (simp add: enabled_def)
  have w2: "m_workers m2 = {#Job_Waiting ?k#}" "cv_sem (m_conv m2) = 0" "cv_sem_cap (m_conv m2) = 1"
    by (simp_all add: m2_def m1_def sample_defs)
  have r3: "machine_run (\<lambda>t. t) ?m0 m3"
    unfolding m3_def by (rule machine_step [OF r2]) (simp add: enabled_def w2)
  have "m_workers m3 = {#Job_Slotted ?k#}"
    by (simp add: m3_def move_worker_def on_conv_def w2)
  then have "machine_run (\<lambda>t. t) ?m0 (do_event (\<lambda>t. t) (Begin_Job ?k 7) m3)"
    by (intro machine_step [OF r3]) (simp add: enabled_def)
  then show ?thesis by (simp only: sample_machine_def foldl.simps m3_def m2_def m1_def)
qed

theorem conversions_bounded_witness:
  "card (running_sources (cv_jobs (m_conv sample_machine))) \<le> 1 \<and>
   live_at (cv_jobs (m_conv sample_machine)) (source_job_key sample_source)"
proof -
  note b = conversions_bounded [OF sample_machine_run]
  have "size (filter_mset (\<lambda>w. live_key w = Some (source_job_key sample_source)) (m_workers sample_machine)) = 1"
    unfolding sample_machine_workers by simp
  with spec [OF conjunct1 [OF conjunct2 [OF conjunct2 [OF b]]], of "source_job_key sample_source"]
  have "live_at (cv_jobs (m_conv sample_machine)) (source_job_key sample_source)"
    by (cases "live_at (cv_jobs (m_conv sample_machine)) (source_job_key sample_source)") simp_all
  with conjunct1 [OF b] show ?thesis by simp
qed

section \<open>The life of a record\<close>

text \<open>
  What one step may do to the record of a key: a live job only moves forward, an ended one stays or
  gives way to a new job or to a ready bundle; and a request to parse after the fetch is not lost
  while the job lives, nor does the fetch job end as done with such a request pending.
\<close>

fun state_edge :: "job_state \<Rightarrow> job_state \<Rightarrow> bool" where
  "state_edge Queued s \<longleftrightarrow> s \<in> {Queued, Running, Failed}"
| "state_edge Running s \<longleftrightarrow> s \<in> {Running, Done, Failed}"
| "state_edge Done s \<longleftrightarrow> s \<in> {Done, Queued}"
| "state_edge Failed s \<longleftrightarrow> s \<in> {Failed, Queued, Done}"

fun record_step :: "string \<Rightarrow> job option \<Rightarrow> job option \<Rightarrow> bool" where
  "record_step k None None \<longleftrightarrow> True"
| "record_step k None (Some j') \<longleftrightarrow> j_state j' \<in> {Queued, Done}"
| "record_step k (Some j) None \<longleftrightarrow> j_state j = Running \<and> prefix ''fetch:'' k"
| "record_step k (Some j) (Some j') \<longleftrightarrow> state_edge (j_state j) (j_state j') \<and>
     (live j \<and> j_parse_after_fetch j \<longrightarrow>
        (live j' \<longrightarrow> j_parse_after_fetch j') \<and> (prefix ''fetch:'' k \<longrightarrow> j_state j' \<noteq> Done))"

lemma record_step_refl [simp]: "record_step k vo vo"
proof (cases vo)
  case (Some j)
  then show ?thesis by (cases "j_state j") (auto simp: live_def)
qed simp

lemma record_step_same: "vo' = vo \<Longrightarrow> record_step k vo vo'"
  by simp

lemma record_step_new:
  assumes "\<not> live_at jobs k" and "j_state j' = Queued \<or> j_state j' = Done"
  shows "record_step k (map_of jobs k) (Some j')"
  using assms by (cases "map_of jobs k"; cases "j_state (the (map_of jobs k))") (auto simp: live_at_def live_def)

lemma ensure_source_step:
  assumes "gomap_ok (cv_jobs (m_conv m))"
  shows "record_step k (map_of (cv_jobs (m_conv m)) k)
    (map_of (cv_jobs (m_conv (snd (do_ensure_source paper source inp now m)))) k)"
proof -
  obtain job c' start where e: "ensure_source paper source inp now (m_conv m) = (job, c', start)" by (metis prod_cases3)
  then have c': "m_conv (snd (do_ensure_source paper source inp now m)) = c'"
    by (simp add: do_ensure_source_def add_worker_def split: option.split)
  from ensure_source_effect [OF e] show ?thesis unfolding c' ensure_effect_def
    using assms by (auto simp: gomap_simps intro: record_step_new)
qed

lemma ensure_canonical_step:
  assumes ok: "gomap_ok (cv_jobs (m_conv m))"
  shows "record_step k (map_of (cv_jobs (m_conv m)) k)
    (map_of (cv_jobs (m_conv (snd (ensure_canonical r io inp now m)))) k)"
proof -
  obtain src paper err where cs: "canonical_source io = (src, paper, err)" by (metis prod_cases3)
  let ?c = "m_conv m" and ?key = "''fetch:'' @ cr_alias r"
  show ?thesis
  proof (cases "cv_access ?c \<and> cr_valid r \<and> err \<noteq> None \<and> ps_source src = [] \<and> err = Some Not_Found \<and> m_fetcher m \<and>
      \<not> (cr_doi r \<and> cr_oa_url r = [] \<and> \<not> cr_doi_lookup r) \<and> \<not> (\<not> cr_pdf_only r \<and> \<not> en_enabled inp)")
    case False
    obtain job m' where d: "do_ensure_source paper (ps_source src) inp now m = (job, m')" by (metis prod.collapse)
    have "map_of (cv_jobs (m_conv (snd (ensure_canonical r io inp now m)))) k = map_of (cv_jobs ?c) k \<or>
        m_conv (snd (ensure_canonical r io inp now m)) = set_alias (cr_alias r) (source_job_key src) (m_conv m')"
      using False cs d by (cases err) (auto simp: ensure_canonical_def Let_def)
    then show ?thesis using ensure_source_step [OF ok, of k paper "ps_source src" inp now] d by auto
  next
    case True
    let ?join = "\<exists>e. map_of (cv_jobs ?c) ?key = Some e \<and> (live e \<or> j_state e = Failed \<and> now < j_cooldown e)"
    show ?thesis
    proof (cases ?join)
      case join: True
      then obtain e where e: "map_of (cv_jobs ?c) ?key = Some e" "live e \<or> j_state e = Failed \<and> now < j_cooldown e" by blast
      let ?e = "if cr_pdf_only r then e else e\<lparr>j_parse_after_fetch := True\<rparr>"
      have "cv_jobs (m_conv (snd (ensure_canonical r io inp now m))) = AList.update ?key ?e (cv_jobs ?c)"
        using True cs e by (auto simp: ensure_canonical_def Let_def)
      moreover have "record_step ?key (Some e) (Some ?e)"
        by (cases "j_state e") (auto simp: live_def)
      ultimately show ?thesis using ok e(1) by (cases "k = ?key") (simp_all add: gomap_simps)
    next
      case False
      then have nl: "\<not> live_at (cv_jobs ?c) ?key" by (auto simp: live_at_def split: option.splits)
      let ?j = "zero_job\<lparr>j_canonical := cr_id r, j_paper := paper, j_state := Queued,
        j_phase := Fetching_PDF, j_submitted := now, j_parse_after_fetch := \<not> cr_pdf_only r\<rparr>"
      have "cv_jobs (m_conv (snd (ensure_canonical r io inp now m))) = AList.update ?key ?j (cv_jobs ?c)"
        using True cs False by (cases "map_of (cv_jobs ?c) ?key") (auto simp: ensure_canonical_def Let_def)
      moreover have "j_state ?j = Queued" by simp
      ultimately have "\<exists>j. j_state j = Queued \<and> cv_jobs (m_conv (snd (ensure_canonical r io inp now m))) = AList.update ?key j (cv_jobs ?c)"
        by blast
      then show ?thesis using ok nl by (cases "k = ?key") (auto simp: gomap_simps intro: record_step_new)
    qed
  qed
qed

text \<open>A goroutine that changes its own record.\<close>

lemma own_record_step:
  assumes inv: "machine_inv m" and w: "w \<in># m_workers m" "live_key w = Some key"
    and jobs': "\<And>j. map_of (cv_jobs (m_conv m)) key = Some j \<Longrightarrow> j_state j = expects w \<Longrightarrow>
      \<exists>j'. jobs' = AList.update key j' (cv_jobs (m_conv m)) \<and> record_step key (Some j) (Some j')"
  shows "record_step k (map_of (cv_jobs (m_conv m)) k) (map_of jobs' k)"
proof -
  from w(1) obtain ws where ws: "m_workers m = add_mset w ws" by (blast dest: split_worker)
  from worker_record [OF inv ws w(2)] obtain j where j: "map_of (cv_jobs (m_conv m)) key = Some j" "j_state j = expects w" .
  from jobs' [OF j] obtain j' where "jobs' = AList.update key j' (cv_jobs (m_conv m))" "record_step key (Some j) (Some j')"
    by blast
  with j(1) table_invD(1) [OF machine_invD(1) [OF inv]] show ?thesis
    by (cases "k = key") (simp_all add: gomap_simps)
qed

lemma failed_record_step:
  assumes "machine_inv m" and "w \<in># m_workers m" "live_key w = Some key"
    and "\<And>j. map_of (cv_jobs (m_conv m)) key = Some j \<Longrightarrow>
      \<exists>j'. jobs' = AList.update key j' (cv_jobs (m_conv m)) \<and> j_state j' = Failed"
  shows "record_step k (map_of (cv_jobs (m_conv m)) k) (map_of jobs' k)"
proof (rule own_record_step [OF assms(1-3)])
  fix j assume j: "map_of (cv_jobs (m_conv m)) key = Some j" "j_state j = expects w"
  from assms(4) [OF j(1)] obtain j' where "jobs' = AList.update key j' (cv_jobs (m_conv m))" "j_state j' = Failed" by blast
  moreover have "state_edge (j_state j) Failed" using expects_live [OF j(2)] by (auto simp: live_def)
  ultimately show "\<exists>j'. jobs' = AList.update key j' (cv_jobs (m_conv m)) \<and> record_step key (Some j) (Some j')"
    by (auto simp: live_def)
qed

lemma decide_record_step:
  assumes inv: "machine_inv m" and w: "Fetch_Got key a p src \<in># m_workers m"
  shows "record_step k (map_of (cv_jobs (m_conv m)) k) (map_of (cv_jobs (m_conv (decide_fetch key a p src now m))) k)"
proof -
  from w obtain ws where ws: "m_workers m = add_mset (Fetch_Got key a p src) ws" by (blast dest: split_worker)
  from worker_record [OF inv ws] obtain j where j: "map_of (cv_jobs (m_conv m)) key = Some j" "j_state j = Running" by auto
  from machine_invD(2) [OF inv w] have "prefix ''fetch:'' key" by simp
  with j table_invD(1) [OF machine_invD(1) [OF inv]] show ?thesis
    by (cases "k = key") (auto simp: decide_fetch_def gomap_simps live_def)
qed

lemma leave_record_step:
  assumes inv: "machine_inv m" and w: "Fetch_Finish key a src f job \<in># m_workers m"
  shows "record_step k (map_of (cv_jobs (m_conv m)) k) (map_of (cv_jobs (leave_fetch key a src f job (m_conv m))) k)"
proof -
  from w obtain ws where ws: "m_workers m = add_mset (Fetch_Finish key a src f job) ws" by (blast dest: split_worker)
  from worker_record [OF inv ws] obtain j where j: "map_of (cv_jobs (m_conv m)) key = Some j" "j_state j = Running" by auto
  have fk: "prefix ''fetch:'' key" using machine_invD(2) [OF inv w] by simp
  note ne = source_fetch_key [OF fk, of src]
  have ok: "gomap_ok (cv_jobs (m_conv m))" by (rule table_invD(1) [OF machine_invD(1) [OF inv]])
  have sj: "record_step k (Some sj) (Some (sj\<lparr>j_fetch := f\<rparr>))" if "\<not> prefix ''fetch:'' k" for sj
    using that by (cases "j_state sj") (auto simp: live_def)
  have sp: "\<not> prefix ''fetch:'' (source_job_key src)" by (simp add: source_job_key_def source_alias_def)
  show ?thesis
  proof (cases "k = key")
    case True
    with j fk ok ne show ?thesis
      by (auto simp: leave_fetch_def Let_def gomap_simps live_def set_alias_def split: option.split)
  next
    case False
    with ok ne sj sp show ?thesis
      by (cases "map_of (cv_jobs (m_conv m)) (source_job_key src)"; cases "k = source_job_key src")
        (auto simp: leave_fetch_def Let_def gomap_simps set_alias_def)
  qed
qed

lemma do_event_step:
  assumes inv: "machine_inv m" and en: "enabled ev m"
  shows "record_step k (map_of (cv_jobs (m_conv m)) k) (map_of (cv_jobs (m_conv (do_event rst ev m))) k)"
proof (cases ev)
  case (Begin_Job key now)
  with en have w: "Job_Slotted key \<in># m_workers m" by (simp add: enabled_def)
  show ?thesis unfolding Begin_Job
    by (rule own_record_step [OF inv w, of key]) (auto simp: begin_job_def transition_Some live_def intro!: exI)
next
  case (Job_Timeout key err now)
  with en have w: "Job_Waiting key \<in># m_workers m" by (simp add: enabled_def)
  show ?thesis unfolding Job_Timeout
    by (rule failed_record_step [OF inv w, of key]) (auto dest: fail_job_jobs)
next
  case (Report key p)
  with en have w: "Job_Working key \<in># m_workers m" by (simp add: enabled_def)
  show ?thesis unfolding Report
    by (rule own_record_step [OF inv w, of key])
      (auto simp: transition_Some live_def apply_progress_def split: progress.split intro!: exI)
next
  case (Job_Done key now)
  with en have w: "Job_Working key \<in># m_workers m" by (simp add: enabled_def)
  have np: "\<not> prefix ''fetch:'' key" using machine_invD(2) [OF inv w] by (auto simp: prefix_def)
  show ?thesis unfolding Job_Done
  proof (rule own_record_step [OF inv w, of key])
    fix j assume j: "map_of (cv_jobs (m_conv m)) key = Some j" "j_state j = expects (Job_Working key)"
    from succeed_job_jobs [OF j(1)] obtain j' where
      "cv_jobs (succeed_job now key (m_conv m)) = AList.update key j' (cv_jobs (m_conv m))" "j_state j' = Done" by blast
    with j np show "\<exists>j'. cv_jobs (m_conv (do_event rst (Job_Done key now) m)) = AList.update key j' (cv_jobs (m_conv m)) \<and>
        record_step key (Some j) (Some j')" by (auto simp: live_def)
  qed simp
next
  case (Job_Fails key err now)
  with en have w: "Job_Working key \<in># m_workers m" by (simp add: enabled_def)
  show ?thesis unfolding Job_Fails
    by (rule failed_record_step [OF inv w, of key]) (auto dest: fail_job_jobs)
next
  case (Fetch_Begins key a p now)
  with en have w: "Fetch_New key a p \<in># m_workers m" by (simp add: enabled_def)
  show ?thesis unfolding Fetch_Begins
    by (rule own_record_step [OF inv w, of key]) (auto simp: transition_Some live_def intro!: exI)
next
  case (Fetch_Timeout key a p err now)
  with en have w: "Fetch_Waiting key a p \<in># m_workers m" by (simp add: enabled_def)
  show ?thesis unfolding Fetch_Timeout
    by (rule failed_record_step [OF inv w, of key]) (auto dest: finish_fetch_jobs)
next
  case (Fetch_Fails key a p err refused now)
  with en have w: "Fetch_Working key a p \<in># m_workers m" by (simp add: enabled_def)
  show ?thesis unfolding Fetch_Fails
    by (rule failed_record_step [OF inv w, of key]) (auto dest: finish_fetch_jobs)
next
  case (Fetch_Stored key a p src len now)
  with en have w: "Fetch_Working key a p \<in># m_workers m" by (simp add: enabled_def)
  show ?thesis unfolding Fetch_Stored
    by (rule own_record_step [OF inv w, of key]) (auto simp: fetch_stored_def transition_Some live_def intro!: exI)
next
  case (Fetch_Ensures key a p src f inp now)
  obtain job m' where d: "do_ensure_source p (ps_source src) inp now m = (job, m')" by (metis prod.collapse)
  with ensure_source_step [OF table_invD(1) [OF machine_invD(1) [OF inv]], of k p "ps_source src" inp now]
  show ?thesis unfolding Fetch_Ensures by simp
next
  case (Fetch_Leaves key a src f job)
  with en have w: "Fetch_Finish key a src f job \<in># m_workers m" by (simp add: enabled_def)
  show ?thesis unfolding Fetch_Leaves using leave_record_step [OF inv w] by simp
next
  case (Fetch_Decides key a p src now)
  with en have w: "Fetch_Got key a p src \<in># m_workers m" by (simp add: enabled_def)
  show ?thesis unfolding Fetch_Decides using decide_record_step [OF inv w] by simp
next
  case (Ensure_Source p s inp now)
  show ?thesis unfolding Ensure_Source
    using ensure_source_step [OF table_invD(1) [OF machine_invD(1) [OF inv]]] by simp
next
  case (Ensure_Canonical r io inp now)
  show ?thesis unfolding Ensure_Canonical
    using ensure_canonical_step [OF table_invD(1) [OF machine_invD(1) [OF inv]]] by simp
qed simp_all

text \<open>C6: The life of a record. Whatever step the converter takes from a reachable state, the record of
  every key keeps to the state machine of its job: a queued job stays, starts or fails, a running one
  ends as done or failed, an ended one gives way to a new job only; a record appears as queued or as
  already done, only the record of a running fetch is ever removed, and a request for the parsed
  content that joined a fetch is kept while the fetch lives, which then never ends as done.\<close>

theorem job_lifecycle:
  assumes "machine_run rst (start_machine (new_converter access timeout max_jobs) conc fetcher) m" and "enabled ev m"
  shows "record_step k (map_of (cv_jobs (m_conv m)) k) (map_of (cv_jobs (m_conv (do_event rst ev m))) k)"
  by (rule do_event_step [OF machine_run_inv [OF assms(1) start_machine_inv] assms(2)])

theorem job_lifecycle_witness:
  "record_step (source_job_key sample_source)
     (map_of (cv_jobs (m_conv sample_machine)) (source_job_key sample_source))
     (map_of (cv_jobs (m_conv (do_event (\<lambda>t. t) (Job_Done (source_job_key sample_source) 9) sample_machine)))
       (source_job_key sample_source))"
  by (rule job_lifecycle [OF sample_machine_run]) (simp add: enabled_def sample_machine_workers)

section \<open>When a fetch starts\<close>

text \<open>
  The catalog knows a source for the id: one imported under its legacy key, or one whose origin
  matches. The answers of \<open>ci_freeze\<close> are those of \<open>EnsureFrozenSource\<close>.
\<close>

definition source_known :: "catalog_io \<Rightarrow> bool" where
  "source_known io \<longleftrightarrow> (\<exists>src. ci_imported io = Inr (Some src)) \<or>
     ci_imported io = Inr None \<and> (\<exists>srcs. ci_sources io = Inr srcs \<and> list_ex (ci_match io) srcs)"

definition source_ids_named :: "catalog_io \<Rightarrow> bool" where
  "source_ids_named io \<longleftrightarrow> (\<forall>src. ci_imported io = Inr (Some src) \<longrightarrow> ps_source src \<noteq> []) \<and>
     (\<forall>srcs src. ci_sources io = Inr srcs \<longrightarrow> src \<in> set srcs \<longrightarrow> ps_source src \<noteq> [])"

definition is_fetcher :: "worker \<Rightarrow> bool" where
  "is_fetcher w \<longleftrightarrow> (case w of Fetch_New k a p \<Rightarrow> True | _ \<Rightarrow> False)"

text \<open>What \<open>canonicalSource\<close> answers for a known source: that source, whatever fails on the way.\<close>

lemma known_source_named:
  assumes "ci_resolve io = Inr paper" and "source_known io" and "source_ids_named io"
    and "\<And>s. ci_freeze io s = ensure_frozen_source access has_catalog (found s) freeze keyed paper s"
    and "canonical_source io = (src, p, err)" and "err \<noteq> None"
  shows "ps_source src \<noteq> []"
proof -
  have frozen: "ps_source fr = s" if "ci_freeze io s = Inr fr" for s fr
    using that assms(4) [of s] by (auto simp: ensure_frozen_source_def split: if_splits sum.splits option.splits)
  show ?thesis
  proof (cases "ci_imported io")
    case (Inr i)
    show ?thesis
    proof (cases i)
      case (Some im)
      with assms(1,3,5,6) Inr show ?thesis
        by (auto simp: canonical_source_def source_ids_named_def split: sum.splits)
    next
      case None
      with assms(2) Inr obtain srcs where srcs: "ci_sources io = Inr srcs" "list_ex (ci_match io) srcs"
        by (auto simp: source_known_def)
      then obtain s where s: "find (ci_match io) srcs = Some s" "s \<in> set srcs"
        by (cases "find (ci_match io) srcs") (auto simp: find_None_iff list_ex_iff find_Some_iff)
      with assms(3) srcs have "ps_source s \<noteq> []" by (auto simp: source_ids_named_def)
      with assms(1,5,6) Inr None srcs(1) s(1) frozen [of "ps_source s"] show ?thesis
        by (auto simp: canonical_source_def split: sum.splits)
    qed
  next
    case (Inl e)
    with assms(2) show ?thesis by (simp add: source_known_def)
  qed
qed

lemma ensure_source_no_fetch:
  assumes "gomap_ok (cv_jobs (m_conv m))" and "prefix ''fetch:'' k"
  shows "map_of (cv_jobs (m_conv (snd (do_ensure_source paper source inp now m)))) k = map_of (cv_jobs (m_conv m)) k"
    and "filter_mset is_fetcher (m_workers (snd (do_ensure_source paper source inp now m))) =
      filter_mset is_fetcher (m_workers m)"
proof -
  obtain job c' start where e: "ensure_source paper source inp now (m_conv m) = (job, c', start)" by (metis prod_cases3)
  then have c': "m_conv (snd (do_ensure_source paper source inp now m)) = c'"
    by (simp add: do_ensure_source_def add_worker_def split: option.split)
  have "k \<noteq> source_job_key src" for src using source_fetch_key [OF assms(2)] by metis
  with ensure_source_effect [OF e] assms(1)
  show "map_of (cv_jobs (m_conv (snd (do_ensure_source paper source inp now m)))) k = map_of (cv_jobs (m_conv m)) k"
    unfolding c' ensure_effect_def by (auto simp: gomap_simps)
  show "filter_mset is_fetcher (m_workers (snd (do_ensure_source paper source inp now m))) = filter_mset is_fetcher (m_workers m)"
    using e by (simp add: do_ensure_source_def add_worker_def is_fetcher_def split: option.split)
qed

text \<open>No second download of a known paper. When the catalog knows a source for the requested id, a
  request for it starts no fetch and touches no fetch record, even when freezing that source, binding
  the alias or publishing fails: the failure is reported instead.\<close>

theorem fetch_only_unknown:
  assumes "ci_resolve io = Inr paper" and "source_known io" and "source_ids_named io"
    and "\<And>s. ci_freeze io s = ensure_frozen_source access has_catalog (found s) freeze keyed paper s"
    and "gomap_ok (cv_jobs (m_conv m))"
  shows "filter_mset is_fetcher (m_workers (snd (ensure_canonical r io inp now m))) = filter_mset is_fetcher (m_workers m) \<and>
    map_of (cv_jobs (m_conv (snd (ensure_canonical r io inp now m)))) (''fetch:'' @ a) =
      map_of (cv_jobs (m_conv m)) (''fetch:'' @ a)"
proof -
  obtain src p err where cs: "canonical_source io = (src, p, err)" by (metis prod_cases3)
  obtain job m' where d: "do_ensure_source p (ps_source src) inp now m = (job, m')" by (metis prod.collapse)
  from known_source_named [OF assms(1-4) cs] have "err \<noteq> None \<Longrightarrow> ps_source src \<noteq> []" .
  with ensure_source_no_fetch [OF assms(5) fetch_key_prefix [of a], where paper = p and source = "ps_source src" and inp = inp and now = now] d cs show ?thesis
    by (cases err) (auto simp: ensure_canonical_def Let_def)
qed

text \<open>A known source whose frozen copy is damaged: the answer is a failure and no fetcher starts.\<close>

definition damaged_io :: catalog_io where
  "damaged_io = \<lparr>ci_resolve = Inr ''p'', ci_imported = Inr (Some sample_source),
     ci_freeze = ensure_frozen_source True True (Inr (Some sample_source)) Inr (\<lambda>_. False) ''p'',
     ci_sources = Inr [], ci_match = (\<lambda>_. False), ci_bind = Inr, ci_stored = Inr False, ci_register = Inl Not_Found\<rparr>"

definition sample_request :: canonical_request where
  "sample_request = \<lparr>cr_id = ''1'', cr_alias = ''1'', cr_valid = True, cr_doi = False, cr_oa_url = [], cr_doi_lookup = False,
     cr_pdf_only = False\<rparr>"

theorem fetch_only_unknown_witness:
  "filter_mset is_fetcher (m_workers (snd (ensure_canonical sample_request damaged_io sample_input 5
      (start_machine (new_converter True 0 1) 0 True)))) = {#} \<and>
   j_state (fst (ensure_canonical sample_request damaged_io sample_input 5 (start_machine (new_converter True 0 1) 0 True))) = Failed"
proof -
  have "filter_mset is_fetcher (m_workers (snd (ensure_canonical sample_request damaged_io sample_input 5
      (start_machine (new_converter True 0 1) 0 True)))) =
     filter_mset is_fetcher (m_workers (start_machine (new_converter True 0 1) 0 True))"
    by (rule conjunct1 [OF fetch_only_unknown [where a = "[]" and paper = "''p''" and access = True and has_catalog = True
        and found = "\<lambda>_. Inr (Some sample_source)" and freeze = Inr and keyed = "\<lambda>_. False"]])
      (simp_all add: damaged_io_def source_known_def source_ids_named_def sample_source_def start_machine_def
        new_converter_def gomap_ok_def)
  moreover have "j_state (fst (ensure_canonical sample_request damaged_io sample_input 5
      (start_machine (new_converter True 0 1) 0 True))) = Failed"
    by (simp add: damaged_io_def sample_request_def ensure_canonical_def canonical_source_def ensure_frozen_source_def
        sample_source_def start_machine_def new_converter_def catalog_failure_def source_failure_def storage_read_failure_def zero_job_def)
  ultimately show ?thesis by (simp add: start_machine_def)
qed

section \<open>What a fetch downloads\<close>

text \<open>
  The middle of \<open>fetchCanonical\<close>, between two steps of the machine. The network, the URL parser of
  the Go library and the check of a published PDF are arguments; an upstream error carries its text
  when it is one of the refusals of \<open>finishFetchFailure\<close>.
\<close>

type_synonym fetch_error = "go_error \<times> string option"

record parsed_url =
  pu_scheme :: string
  pu_user :: bool
  pu_host :: string

record download =
  dl_body :: "go_error + string"
  dl_sha :: string

record fetch_io =
  fi_parse :: "string \<Rightarrow> parsed_url option"
  fi_lower :: "string \<Rightarrow> string"
  fi_lookup :: "(string \<Rightarrow> go_error + string) option"
  fi_fetch_url :: "string \<Rightarrow> fetch_error + download"
  fi_fetch_arxiv :: "string \<Rightarrow> fetch_error + download"
  fi_verify :: "(string \<Rightarrow> string \<Rightarrow> string option) option"
  fi_hash :: "string \<Rightarrow> string"
  fi_register :: "string \<Rightarrow> string \<Rightarrow> go_error + paper_source"
  fi_bind :: "paper_source \<Rightarrow> go_error + paper_source"

text \<open>A discovered URL is used only when it is a plain web address outside arXiv.\<close>

definition arxiv_host :: "(string \<Rightarrow> string) \<Rightarrow> string \<Rightarrow> bool" where
  "arxiv_host lower h \<longleftrightarrow> map ascii_lower h = ''arxiv.org'' \<or> suffix ''.arxiv.org'' (to_lower lower h)"

definition usable_url :: "(string \<Rightarrow> string) \<Rightarrow> parsed_url option \<Rightarrow> bool" where
  "usable_url lower pu =
     (case pu of
        None \<Rightarrow> False
      | Some u \<Rightarrow> \<not> (pu_host u = [] \<or> pu_user u \<or> pu_scheme u \<noteq> ''http'' \<and> pu_scheme u \<noteq> ''https'' \<or>
                    arxiv_host lower (pu_host u)))"

definition doi_pdf_url :: "fetch_io \<Rightarrow> string \<Rightarrow> string \<Rightarrow> fetch_error + string" where
  "doi_pdf_url io i oa =
     (if oa \<noteq> [] then Inr oa
      else case fi_lookup io of
        None \<Rightarrow> Inr oa
      | Some look \<Rightarrow>
          (case look i of
             Inl e \<Rightarrow> Inl (e, None)
           | Inr u \<Rightarrow>
               let u' = trim_space u in
               if usable_url (fi_lower io) (fi_parse io u') then Inr u' else Inl (No_DOI_Source, None)))"

definition register_fresh_pdf :: "fetch_io \<Rightarrow> string \<Rightarrow> string \<Rightarrow> string \<Rightarrow> go_error + paper_source" where
  "register_fresh_pdf io origin pdf sha =
     (if fi_hash io pdf \<noteq> sha then Inl (Other_Error ''paper bundle integrity'')
      else case fi_register io origin pdf of
        Inl e \<Rightarrow> Inl e
      | Inr src \<Rightarrow> fi_bind io src)"

definition store_download :: "fetch_io \<Rightarrow> (string \<Rightarrow> string option) \<Rightarrow> string \<Rightarrow> fetch_error + download \<Rightarrow> fetch_error + paper_source" where
  "store_download io verify origin got =
     (case got of
        Inl e \<Rightarrow> Inl e
      | Inr d \<Rightarrow>
          (case dl_body d of
             Inl e \<Rightarrow> Inl (e, None)
           | Inr pdf \<Rightarrow>
               (case verify pdf of
                  Some msg \<Rightarrow> Inl (Wrapped (''verify published DOI PDF: '' @ msg) (Sentinel Fatal), None)
                | None \<Rightarrow>
                    (case register_fresh_pdf io origin pdf (dl_sha d) of
                       Inl e \<Rightarrow> Inl (e, None)
                     | Inr src \<Rightarrow> Inr src))))"

definition fetch_pdf :: "fetch_io \<Rightarrow> bool \<Rightarrow> string \<Rightarrow> string \<Rightarrow> fetch_error + paper_source" where
  "fetch_pdf io doi i oa =
     (if doi
      then case doi_pdf_url io i oa of
             Inl e \<Rightarrow> Inl e
           | Inr u \<Rightarrow>
               store_download io (case fi_verify io of Some v \<Rightarrow> v i | None \<Rightarrow> (\<lambda>_. None)) (''doi:'' @ i) (fi_fetch_url io u)
      else store_download io (\<lambda>_. None) (''arxiv:'' @ i) (fi_fetch_arxiv io i))"

text \<open>The step of the machine that ends the download.\<close>

definition fetch_event :: "fetch_error + paper_source \<Rightarrow> string \<Rightarrow> string \<Rightarrow> string \<Rightarrow> int \<Rightarrow> instant \<Rightarrow> event" where
  "fetch_event out key a paper len now =
     (case out of
        Inl (e, refused) \<Rightarrow> Fetch_Fails key a paper e refused now
      | Inr src \<Rightarrow> Fetch_Stored key a paper src len now)"

lemma doi_pdf_url_discovered:
  "doi_pdf_url io i [] = Inr u \<Longrightarrow> fi_lookup io \<noteq> None \<Longrightarrow> usable_url (fi_lower io) (fi_parse io u)"
  by (auto simp: doi_pdf_url_def Let_def split: option.splits sum.splits if_splits)

lemma store_download_Inr:
  "store_download io verify origin got = Inr src \<Longrightarrow>
     \<exists>d pdf stored. got = Inr d \<and> dl_body d = Inr pdf \<and> verify pdf = None \<and> fi_hash io pdf = dl_sha d \<and>
       fi_register io origin pdf = Inr stored \<and> fi_bind io stored = Inr src"
  by (auto simp: store_download_def register_fresh_pdf_def split: sum.splits option.splits if_splits)

text \<open>C7: A published PDF is never replaced by the arXiv edition. When the fetch of a DOI without a given
  address stores a source, the bytes come from a discovered web address without credentials whose
  host is not arXiv's, they passed the publisher check and match their hash, and they are registered
  under the DOI.\<close>

theorem doi_fetch_published:
  assumes "fetch_pdf io True i [] = Inr src" and "fi_lookup io = Some look"
  shows "\<exists>u pu d pdf stored. fi_parse io u = Some pu \<and> pu_host pu \<noteq> [] \<and> \<not> pu_user pu \<and> pu_scheme pu \<in> {''http'', ''https''} \<and>
    \<not> arxiv_host (fi_lower io) (pu_host pu) \<and> fi_fetch_url io u = Inr d \<and> dl_body d = Inr pdf \<and>
    (\<forall>v. fi_verify io = Some v \<longrightarrow> v i pdf = None) \<and> fi_hash io pdf = dl_sha d \<and>
    fi_register io (''doi:'' @ i) pdf = Inr stored \<and> fi_bind io stored = Inr src"
proof -
  let ?v = "case fi_verify io of Some v \<Rightarrow> v i | None \<Rightarrow> (\<lambda>_. None)"
  from assms(1) obtain u where u: "doi_pdf_url io i [] = Inr u" "store_download io ?v (''doi:'' @ i) (fi_fetch_url io u) = Inr src"
    by (cases "doi_pdf_url io i []") (simp_all add: fetch_pdf_def)
  from doi_pdf_url_discovered [OF u(1)] assms(2) obtain pu where pu: "fi_parse io u = Some pu" "usable_url (fi_lower io) (Some pu)"
    by (cases "fi_parse io u") (auto simp: usable_url_def)
  from store_download_Inr [OF u(2)] obtain d pdf stored where d: "fi_fetch_url io u = Inr d" "dl_body d = Inr pdf" "?v pdf = None"
    "fi_hash io pdf = dl_sha d" "fi_register io (''doi:'' @ i) pdf = Inr stored" "fi_bind io stored = Inr src" by blast
  have p: "pu_host pu \<noteq> [] \<and> \<not> pu_user pu \<and> pu_scheme pu \<in> {''http'', ''https''} \<and> \<not> arxiv_host (fi_lower io) (pu_host pu)"
    using pu(2) unfolding usable_url_def by simp
  have v: "\<forall>v. fi_verify io = Some v \<longrightarrow> v i pdf = None" using d(3) by (cases "fi_verify io") simp_all
  show ?thesis by (intro exI conjI) (use p v pu(1) d in \<open>assumption | simp\<close>)+
qed

definition sample_fetch :: fetch_io where
  "sample_fetch = \<lparr>fi_parse = (\<lambda>u. Some \<lparr>pu_scheme = ''https'', pu_user = False, pu_host = ''j.org''\<rparr>), fi_lower = (\<lambda>s. s),
     fi_lookup = Some (\<lambda>i. Inr ''https://j.org/p''), fi_fetch_url = (\<lambda>u. Inr \<lparr>dl_body = Inr ''pdf'', dl_sha = ''h''\<rparr>),
     fi_fetch_arxiv = (\<lambda>i. Inl (Ctx_Error, None)), fi_verify = None, fi_hash = (\<lambda>_. ''h''),
     fi_register = (\<lambda>origin pdf. Inr sample_source), fi_bind = Inr\<rparr>"

lemma sample_fetch_ok: "fetch_pdf sample_fetch True ''10.1/a'' [] = Inr sample_source"
proof -
  have "\<not> arxiv_host (\<lambda>s. s) ''j.org''"
    by (simp add: arxiv_host_def to_lower_def is_ascii_def ascii_lower_def is_upper_def suffix_def)
  then show ?thesis
    by (simp add: fetch_pdf_def doi_pdf_url_def sample_fetch_def usable_url_def store_download_def register_fresh_pdf_def Let_def)
qed

theorem doi_fetch_published_witness:
  "\<exists>u pu. fi_parse sample_fetch u = Some pu \<and> \<not> arxiv_host (fi_lower sample_fetch) (pu_host pu)"
  using doi_fetch_published [OF sample_fetch_ok, of "\<lambda>i. Inr ''https://j.org/p''"] by (auto simp: sample_fetch_def)

end
