(* ===== verification/Scheduler.thy ===== *)
theory Scheduler
  imports Converter "HOL-Library.Product_Lexorder" "HOL-Library.Multiset"
begin

text \<open>
  The daily conversion batch (\<open>internal/mineru/scheduler.go\<close>), the queue it reads (\<open>NeedsMineru\<close> in
  \<open>internal/registry/assets.go\<close>) and its two administration endpoints
  (\<open>internal/routes/admin_mineru.go\<close>). A batch meets its environment at numbered points: what the
  clock, the context, the converter and the database answer at each is a function of that number.
\<close>

section \<open>The queue of papers to convert\<close>

record asset =
  as_id :: nat
  as_paper :: string
  as_source :: string
  as_bare :: "string option"
  as_version :: int
  as_pdf_path :: string
  as_pdf_size :: "int option"
  as_md_path :: "string option"
  as_lease_expires :: "instant option"
  as_fetched :: "instant option"

record needs_row =
  nr_paper :: string
  nr_arxiv :: string
  nr_version :: int
  nr_pdf_path :: string
  nr_pdf_size :: int
  nr_uploaded :: "instant option"

text \<open>The assets joined with their papers, as the database holds them at one instant of its clock.\<close>

record asset_db =
  db_now :: instant
  db_assets :: "asset list"

definition versioned_arxiv_id :: "string \<Rightarrow> int \<Rightarrow> string" where
  "versioned_arxiv_id bare version = (if bare = [] \<or> version \<le> 0 then bare else bare @ ''v'' @ format_d version)"

definition asset_pending :: "instant \<Rightarrow> asset \<Rightarrow> bool" where
  "asset_pending now a \<longleftrightarrow> as_source a = ''arxiv'' \<and> as_md_path a = None \<and>
     (case as_lease_expires a of None \<Rightarrow> True | Some e \<Rightarrow> e < now)"

text \<open>\<open>ORDER BY fetched_at DESC NULLS LAST, asset_id\<close>\<close>

definition newest_first :: "asset \<Rightarrow> bool \<times> int \<times> nat" where
  "newest_first a = (case as_fetched a of None \<Rightarrow> (True, 0, as_id a) | Some t \<Rightarrow> (False, - int t, as_id a))"

definition needs_row_of :: "asset \<Rightarrow> needs_row" where
  "needs_row_of a = \<lparr>nr_paper = as_paper a,
     nr_arxiv = versioned_arxiv_id (case as_bare a of Some b \<Rightarrow> b | None \<Rightarrow> []) (as_version a),
     nr_version = as_version a, nr_pdf_path = as_pdf_path a,
     nr_pdf_size = (case as_pdf_size a of Some n \<Rightarrow> n | None \<Rightarrow> 0), nr_uploaded = as_fetched a\<rparr>"

definition needs_mineru :: "asset_db \<Rightarrow> nat \<Rightarrow> needs_row list" where
  "needs_mineru db limit =
     map needs_row_of (take limit (sort_key newest_first (filter (asset_pending (db_now db)) (db_assets db))))"

section \<open>State\<close>

datatype stop_reason = Queue_Empty | Converter_Disabled | Quota_Exhausted | Token_Error | Queue_Fetch_Error
  | Shutdown | Daily_Cap_Reached

fun stop_text :: "stop_reason \<Rightarrow> string" where
  "stop_text Queue_Empty = ''queue_empty''"
| "stop_text Converter_Disabled = ''converter_disabled''"
| "stop_text Quota_Exhausted = ''quota_exhausted''"
| "stop_text Token_Error = ''token_error''"
| "stop_text Queue_Fetch_Error = ''queue_fetch_error''"
| "stop_text Shutdown = ''shutdown''"
| "stop_text Daily_Cap_Reached = ''daily_cap_reached''"

definition default_daily_cap :: int where
  "default_daily_cap = 4000"

record run_stats =
  rs_processed :: nat
  rs_converted :: nat
  rs_failed :: nat

definition no_stats :: run_stats where
  "no_stats = \<lparr>rs_processed = 0, rs_converted = 0, rs_failed = 0\<rparr>"

record sched_config =
  sf_tick_interval :: int
  sf_batch_size :: nat
  sf_item_spacing :: int
  sf_daily_cap :: int

text \<open>
  The fields under the scheduler's mutex. \<open>sc_history\<close> is a history variable: the instants at which
  \<open>noteConverted\<close> was called, which no operation reads.
\<close>

record sched =
  sc_started :: bool
  sc_running :: bool
  sc_next_run :: "instant option"
  sc_last_start :: "instant option"
  sc_last_finish :: "instant option"
  sc_last_stop :: "stop_reason option"
  sc_last_stats :: run_stats
  sc_cap_day :: string
  sc_converted_today :: nat
  sc_history :: "instant list"

datatype sched_option = With_Tick_Interval int | With_Batch_Size int | With_Item_Spacing int | With_Daily_Cap int

fun apply_option :: "sched_option \<Rightarrow> sched_config \<Rightarrow> sched_config" where
  "apply_option (With_Tick_Interval d) c = (if 0 < d then c\<lparr>sf_tick_interval := d\<rparr> else c)"
| "apply_option (With_Batch_Size n) c = (if 1 \<le> n then c\<lparr>sf_batch_size := nat n\<rparr> else c)"
| "apply_option (With_Item_Spacing d) c = (if 0 \<le> d then c\<lparr>sf_item_spacing := d\<rparr> else c)"
| "apply_option (With_Daily_Cap n) c = (if 0 < n then c\<lparr>sf_daily_cap := n\<rparr> else c\<lparr>sf_daily_cap := 0\<rparr>)"

definition new_scheduler :: "sched_option list \<Rightarrow> sched_config \<times> sched" where
  "new_scheduler opts =
     (foldl (\<lambda>c f. apply_option f c)
        \<lparr>sf_tick_interval = 0, sf_batch_size = 200, sf_item_spacing = 2 * int second, sf_daily_cap = default_daily_cap\<rparr> opts,
      \<lparr>sc_started = False, sc_running = False, sc_next_run = None, sc_last_start = None, sc_last_finish = None,
       sc_last_stop = None, sc_last_stats = no_stats, sc_cap_day = [], sc_converted_today = 0, sc_history = []\<rparr>)"

definition try_begin_run :: "instant \<Rightarrow> sched \<Rightarrow> bool \<times> sched" where
  "try_begin_run now s =
     (if sc_running s then (False, s) else (True, s\<lparr>sc_running := True, sc_last_start := Some now\<rparr>))"

text \<open>\<open>day\<close> is \<open>todayKey\<close>, the calendar day of an instant in the server's time zone.\<close>

definition cap_reached :: "(instant \<Rightarrow> string) \<Rightarrow> sched_config \<Rightarrow> instant \<Rightarrow> sched \<Rightarrow> bool" where
  "cap_reached day cfg now s =
     (if sf_daily_cap cfg \<le> 0 then False
      else if sc_cap_day s \<noteq> day now then False
      else sf_daily_cap cfg \<le> int (sc_converted_today s))"

definition note_converted :: "(instant \<Rightarrow> string) \<Rightarrow> instant \<Rightarrow> sched \<Rightarrow> sched" where
  "note_converted day now s =
     (let s1 = (if sc_cap_day s \<noteq> day now then s\<lparr>sc_cap_day := day now, sc_converted_today := 0\<rparr> else s)
      in s1\<lparr>sc_converted_today := sc_converted_today s1 + 1, sc_history := sc_history s1 @ [now]\<rparr>)"

record sched_snapshot =
  sn_running :: bool
  sn_next_run :: "instant option"
  sn_last_started :: "instant option"
  sn_last_finished :: "instant option"
  sn_last_stop :: "stop_reason option"
  sn_last_run :: run_stats
  sn_daily_cap :: int
  sn_converted_today :: nat
  sn_cap_day :: string

definition sched_snapshot_of :: "(instant \<Rightarrow> string) \<Rightarrow> sched_config \<Rightarrow> instant \<Rightarrow> sched \<Rightarrow> sched_snapshot" where
  "sched_snapshot_of day cfg now s =
     \<lparr>sn_running = sc_running s, sn_next_run = sc_next_run s, sn_last_started = sc_last_start s,
      sn_last_finished = sc_last_finish s, sn_last_stop = sc_last_stop s, sn_last_run = sc_last_stats s,
      sn_daily_cap = sf_daily_cap cfg,
      sn_converted_today = (if sc_cap_day s \<noteq> day now then 0 else sc_converted_today s),
      sn_cap_day = (if sc_cap_day s \<noteq> day now then day now else sc_cap_day s)\<rparr>"

text \<open>\<open>RunNow\<close>: the answer, and whether a batch is launched.\<close>

definition run_now :: "bool \<Rightarrow> bool \<Rightarrow> instant \<Rightarrow> sched \<Rightarrow> (bool \<times> string) \<times> sched" where
  "run_now ctx_err conv_enabled now s =
     (if ctx_err then ((False, ''context_cancelled''), s)
      else if \<not> conv_enabled then ((False, stop_text Converter_Disabled), s)
      else case try_begin_run now s of
        (False, s') \<Rightarrow> ((False, ''already_running''), s')
      | (True, s') \<Rightarrow> ((True, ''started''), s'))"

definition until_next_run :: "(instant \<Rightarrow> instant) \<Rightarrow> sched_config \<Rightarrow> instant \<Rightarrow> int" where
  "until_next_run reset_at cfg now =
     (if 0 < sf_tick_interval cfg then sf_tick_interval cfg else int (reset_at now) - int now)"

section \<open>A batch\<close>

record 'd world =
  w_now :: "nat \<Rightarrow> instant"
  w_cancelled :: "nat \<Rightarrow> bool"
  w_enabled :: "nat \<Rightarrow> bool"
  w_db :: "nat \<Rightarrow> string + 'd"
  w_ensure :: "nat \<Rightarrow> string \<Rightarrow> job option"
  w_lookup :: "nat \<Rightarrow> string \<Rightarrow> job option"

text \<open>The local variables of \<open>runBatch\<close>, with the number of the next meeting point.\<close>

record run =
  r_t :: nat
  r_attempted :: "string list"
  r_stats :: run_stats
  r_sched :: sched

definition at_point :: "nat \<Rightarrow> run \<Rightarrow> run" where
  "at_point t r = r\<lparr>r_t := t\<rparr>"

text \<open>Whether \<open>waitTerminal\<close> returns is up to the converter; None is a wait that does not end.\<close>

partial_function (option) wait_terminal :: "'d world \<Rightarrow> nat \<Rightarrow> string \<Rightarrow> job option \<Rightarrow> (job option \<times> nat) option" where
  "wait_terminal w t i jo =
     (case jo of
        None \<Rightarrow> Some (None, t)
      | Some job \<Rightarrow>
          if \<not> live job then Some (Some job, t)
          else if w_cancelled w (Suc t) then Some (None, Suc t)
          else (case w_lookup w (Suc t) i of
                  None \<Rightarrow> Some (Some job, Suc t)
                | Some j' \<Rightarrow> wait_terminal w (Suc t) i (Some j')))"

definition begin_attempt :: "string \<Rightarrow> run \<Rightarrow> run" where
  "begin_attempt i r = r\<lparr>r_attempted := r_attempted r @ [i],
     r_stats := (r_stats r)\<lparr>rs_processed := rs_processed (r_stats r) + 1\<rparr>\<rparr>"

text \<open>The tallies after a job has ended, and the reason to stop if there is one.\<close>

definition settle :: "(instant \<Rightarrow> string) \<Rightarrow> instant \<Rightarrow> job \<Rightarrow> run \<Rightarrow> stop_reason option \<times> run" where
  "settle day now job r =
     (let failed = r\<lparr>r_stats := (r_stats r)\<lparr>rs_failed := rs_failed (r_stats r) + 1\<rparr>\<rparr> in
      if j_state job = Done
      then (None, r\<lparr>r_stats := (r_stats r)\<lparr>rs_converted := rs_converted (r_stats r) + 1\<rparr>,
                    r_sched := note_converted day now (r_sched r)\<rparr>)
      else if j_err_kind job = Some Daily_Limit then (Some Quota_Exhausted, failed)
      else if (case j_err job of Some e \<Rightarrow> is_token_error e | None \<Rightarrow> False) then (Some Token_Error, failed)
      else (None, failed))"

fun attempt_rows :: "(instant \<Rightarrow> string) \<Rightarrow> 'd world \<Rightarrow> sched_config \<Rightarrow> string list \<Rightarrow> run \<Rightarrow> (stop_reason option \<times> run) option" where
  "attempt_rows day w cfg [] r = Some (None, r)"
| "attempt_rows day w cfg (i # is) r =
     (let t = r_t r in
      if w_cancelled w t then Some (Some Shutdown, r)
      else if cap_reached day cfg (w_now w t) (r_sched r) then Some (Some Daily_Cap_Reached, r)
      else
        (let r1 = begin_attempt i r in
         case wait_terminal w t i (w_ensure w t i) of
           None \<Rightarrow> None
         | Some (None, t') \<Rightarrow> Some (Some Shutdown, at_point t' r1)
         | Some (Some job, t') \<Rightarrow>
             (case settle day (w_now w t') job (at_point (Suc t') r1) of
                (Some reason, r2) \<Rightarrow> Some (Some reason, r2)
              | (None, r2) \<Rightarrow>
                  if w_cancelled w (Suc t') then Some (Some Shutdown, r2)
                  else attempt_rows day w cfg is (at_point (Suc (Suc t')) r2))))"

definition fresh_rows :: "needs_row list \<Rightarrow> string list \<Rightarrow> string list" where
  "fresh_rows rows attempted = filter (\<lambda>i. i \<notin> set attempted) (map nr_arxiv rows)"

text \<open>The refetching loop; \<open>fetch\<close> is \<open>NeedsMineru\<close> in production.\<close>

partial_function (option) batch_loop ::
  "('d \<Rightarrow> nat \<Rightarrow> needs_row list) \<Rightarrow> (instant \<Rightarrow> string) \<Rightarrow> 'd world \<Rightarrow> sched_config \<Rightarrow> run \<Rightarrow> (stop_reason \<times> run) option" where
  "batch_loop fetch day w cfg r =
     (case w_db w (r_t r) of
        Inl e \<Rightarrow> Some (if w_cancelled w (r_t r) then Shutdown else Queue_Fetch_Error, r)
      | Inr db \<Rightarrow>
          (let fresh = fresh_rows (fetch db (sf_batch_size cfg)) (r_attempted r) in
           if fresh = [] then Some (Queue_Empty, r)
           else Option.bind (attempt_rows day w cfg fresh (at_point (Suc (r_t r)) r))
                  (\<lambda>(stop, r'). case stop of
                     Some reason \<Rightarrow> Some (reason, r')
                   | None \<Rightarrow> batch_loop fetch day w cfg r')))"

definition finish_run :: "instant \<Rightarrow> stop_reason \<Rightarrow> run_stats \<Rightarrow> sched \<Rightarrow> sched" where
  "finish_run now reason stats s =
     s\<lparr>sc_running := False, sc_last_finish := Some now, sc_last_stop := Some reason, sc_last_stats := stats\<rparr>"

definition run_batch :: "('d \<Rightarrow> nat \<Rightarrow> needs_row list) \<Rightarrow> (instant \<Rightarrow> string) \<Rightarrow> 'd world \<Rightarrow> sched_config \<Rightarrow> nat \<Rightarrow> sched \<Rightarrow>
    (stop_reason \<times> run) option" where
  "run_batch fetch day w cfg t s =
     (let r0 = \<lparr>r_t = Suc t, r_attempted = [], r_stats = no_stats, r_sched = s\<rparr>;
          finish = (\<lambda>(reason, r). (reason, r\<lparr>r_sched := finish_run (w_now w (r_t r)) reason (r_stats r) (r_sched r)\<rparr>))
      in if \<not> w_enabled w t then Some (finish (Converter_Disabled, r0))
         else map_option finish (batch_loop fetch day w cfg r0))"

section \<open>What a batch attempts\<close>

lemma frames [simp]:
  "r_t (at_point t r) = t" "r_attempted (at_point t r) = r_attempted r" "r_stats (at_point t r) = r_stats r"
  "r_sched (at_point t r) = r_sched r" "r_t (begin_attempt i r) = r_t r" "r_sched (begin_attempt i r) = r_sched r"
  "r_attempted (begin_attempt i r) = r_attempted r @ [i]"
  by (simp_all add: at_point_def begin_attempt_def)

lemma settle_frames:
  assumes "settle day now job r = (stop, r')"
  shows "r_t r' = r_t r" "r_attempted r' = r_attempted r" "stop \<in> {None, Some Quota_Exhausted, Some Token_Error}"
    "r_sched r' = (if j_state job = Done then note_converted day now (r_sched r) else r_sched r)"
    "rs_processed (r_stats r') = rs_processed (r_stats r)"
    "rs_converted (r_stats r') + rs_failed (r_stats r') = rs_converted (r_stats r) + rs_failed (r_stats r) + 1"
  using assms by (auto simp: settle_def Let_def split: if_splits)

lemma wait_terminal_time: "wait_terminal w t i jo = Some y \<Longrightarrow> t \<le> snd y"
proof (induction rule: wait_terminal.raw_induct [rotated 1, consumes 1])
  case (1 wt t i jo y)
  from 1(2) show ?case by (auto split: option.splits if_splits dest: 1(1))
qed

text \<open>A batch that returns, by the way its loop ends.\<close>

lemma batch_loop_induct [consumes 1, case_names error drained stop again]:
  assumes "batch_loop fetch day w cfg r = Some y"
    and "\<And>r e. w_db w (r_t r) = Inl e \<Longrightarrow> P r (if w_cancelled w (r_t r) then Shutdown else Queue_Fetch_Error, r)"
    and "\<And>r db. w_db w (r_t r) = Inr db \<Longrightarrow> fresh_rows (fetch db (sf_batch_size cfg)) (r_attempted r) = [] \<Longrightarrow>
      P r (Queue_Empty, r)"
    and "\<And>r db reason r'. w_db w (r_t r) = Inr db \<Longrightarrow>
      attempt_rows day w cfg (fresh_rows (fetch db (sf_batch_size cfg)) (r_attempted r)) (at_point (Suc (r_t r)) r) =
        Some (Some reason, r') \<Longrightarrow> P r (reason, r')"
    and "\<And>r db r' y. w_db w (r_t r) = Inr db \<Longrightarrow>
      attempt_rows day w cfg (fresh_rows (fetch db (sf_batch_size cfg)) (r_attempted r)) (at_point (Suc (r_t r)) r) =
        Some (None, r') \<Longrightarrow> P r' y \<Longrightarrow> P r y"
  shows "P r y"
proof -
  have "fetch' = fetch \<longrightarrow> day' = day \<longrightarrow> w' = w \<longrightarrow> cfg' = cfg \<longrightarrow> P r y"
    if "batch_loop fetch' day' w' cfg' r = Some y" for fetch' day' w' cfg' r y
    using that
  proof (induction rule: batch_loop.raw_induct [rotated 1, consumes 1])
    case (1 bl fetch' day' w' cfg' r y)
    show ?case
    proof (intro impI)
      assume [simp]: "fetch' = fetch" "day' = day" "w' = w" "cfg' = cfg"
      let ?fresh = "\<lambda>db. fresh_rows (fetch db (sf_batch_size cfg)) (r_attempted r)"
      show "P r y"
      proof (cases "w_db w (r_t r)")
        case (Inl e)
        with 1(2) assms(2) [OF Inl] show ?thesis by auto
      next
        case (Inr db)
        show ?thesis
        proof (cases "?fresh db = []")
          case True
          with 1(2) Inr assms(3) [OF Inr True] show ?thesis by auto
        next
          case False
          with 1(2) Inr obtain stop r' where a: "attempt_rows day w cfg (?fresh db) (at_point (Suc (r_t r)) r) = Some (stop, r')"
            and y: "(case stop of Some reason \<Rightarrow> Some (reason, r') | None \<Rightarrow> bl fetch' day' w' cfg' r') = Some y"
            by (cases "attempt_rows day w cfg (?fresh db) (at_point (Suc (r_t r)) r)") (auto simp: Let_def)
          show ?thesis
          proof (cases stop)
            case None
            with y have bl: "bl fetch' day' w' cfg' r' = Some y" by simp
            from 1(1) [OF bl] a None show ?thesis by (intro assms(5) [OF Inr]) simp_all
          next
            case (Some reason)
            with y a assms(4) [OF Inr] show ?thesis by auto
          qed
        qed
      qed
    qed
  qed
  with assms(1) show ?thesis by blast
qed

text \<open>One pass over the fresh rows: a prefix of them is attempted, all of them when nothing stops it.\<close>

lemma attempt_rows_facts:
  assumes "attempt_rows day w cfg is r = Some (stop, r')"
  shows "\<exists>tried. prefix tried is \<and> r_attempted r' = r_attempted r @ tried \<and> (stop = None \<longrightarrow> tried = is) \<and>
      stop \<notin> {Some Queue_Empty, Some Converter_Disabled, Some Queue_Fetch_Error} \<and> r_t r \<le> r_t r' \<and>
      rs_processed (r_stats r') = rs_processed (r_stats r) + length tried \<and>
      rs_converted (r_stats r') + rs_failed (r_stats r') \<le> rs_converted (r_stats r) + rs_failed (r_stats r) + length tried \<and>
      (stop \<noteq> Some Shutdown \<longrightarrow> rs_converted (r_stats r') + rs_failed (r_stats r') =
         rs_converted (r_stats r) + rs_failed (r_stats r) + length tried)"
  using assms
proof (induction "is" arbitrary: r)
  case Nil
  then show ?case by auto
next
  case (Cons i "is")
  let ?t = "r_t r" and ?r1 = "begin_attempt i r"
  consider "w_cancelled w ?t" | "\<not> w_cancelled w ?t" "cap_reached day cfg (w_now w ?t) (r_sched r)"
    | "\<not> w_cancelled w ?t" "\<not> cap_reached day cfg (w_now w ?t) (r_sched r)" by blast
  then show ?case
  proof cases
    case 1
    with Cons.prems show ?thesis by (intro exI [of _ "[]"]) auto
  next
    case 2
    with Cons.prems show ?thesis by (intro exI [of _ "[]"]) auto
  next
    case 3
    with Cons.prems obtain jo t' where wt: "wait_terminal w ?t i (w_ensure w ?t i) = Some (jo, t')"
      by (cases "wait_terminal w ?t i (w_ensure w ?t i)") (auto simp: Let_def)
    from wait_terminal_time [OF wt] have le: "?t \<le> t'" by simp
    have st1: "rs_processed (r_stats ?r1) = rs_processed (r_stats r) + 1" "rs_converted (r_stats ?r1) = rs_converted (r_stats r)"
      "rs_failed (r_stats ?r1) = rs_failed (r_stats r)" by (simp_all add: begin_attempt_def)
    show ?thesis
    proof (cases jo)
      case None
      with Cons.prems 3 wt le st1 show ?thesis by (intro exI [of _ "[i]"]) (auto simp: Let_def)
    next
      case (Some job)
      obtain s2 r2 where se: "settle day (w_now w t') job (at_point (Suc t') ?r1) = (s2, r2)" by (rule prod.exhaust)
      note f = settle_frames [OF se]
      show ?thesis
      proof (cases "s2 = None \<and> \<not> w_cancelled w (Suc t')")
        case False
        then have "r' = r2 \<and> (stop = s2 \<and> s2 \<noteq> None \<or> stop = Some Shutdown)"
          using Cons.prems 3 wt Some se by (auto simp: Let_def split: option.splits)
        then show ?thesis using f le st1 by (intro exI [of _ "[i]"]) auto
      next
        case True
        then have "attempt_rows day w cfg is (at_point (Suc (Suc t')) r2) = Some (stop, r')"
          using Cons.prems 3 wt Some se by (simp add: Let_def)
        from Cons.IH [OF this] obtain tried where "prefix tried is \<and> r_attempted r' = r_attempted r2 @ tried \<and>
          (stop = None \<longrightarrow> tried = is) \<and> stop \<notin> {Some Queue_Empty, Some Converter_Disabled, Some Queue_Fetch_Error} \<and>
          Suc (Suc t') \<le> r_t r' \<and> rs_processed (r_stats r') = rs_processed (r_stats r2) + length tried \<and>
          rs_converted (r_stats r') + rs_failed (r_stats r') \<le> rs_converted (r_stats r2) + rs_failed (r_stats r2) + length tried \<and>
          (stop \<noteq> Some Shutdown \<longrightarrow> rs_converted (r_stats r') + rs_failed (r_stats r') =
             rs_converted (r_stats r2) + rs_failed (r_stats r2) + length tried)" by auto
        then show ?thesis using f le st1 by (intro exI [of _ "i # tried"]) auto
      qed
    qed
  qed
qed

text \<open>No paper is tried twice, and only papers that some fetch showed as pending are.\<close>

definition tried_ok :: "('d \<Rightarrow> string set) \<Rightarrow> 'd world \<Rightarrow> nat \<Rightarrow> run \<Rightarrow> bool" where
  "tried_ok pending w t0 r \<longleftrightarrow> t0 \<le> r_t r \<and> distinct (r_attempted r) \<and> rs_processed (r_stats r) = length (r_attempted r) \<and>
     rs_converted (r_stats r) + rs_failed (r_stats r) \<le> length (r_attempted r) \<and>
     (\<forall>i\<in>set (r_attempted r). \<exists>t db. t0 \<le> t \<and> t \<le> r_t r \<and> w_db w t = Inr db \<and> i \<in> pending db)"

definition counted :: "run \<Rightarrow> bool" where
  "counted r \<longleftrightarrow> rs_converted (r_stats r) + rs_failed (r_stats r) = rs_processed (r_stats r)"

section \<open>The queue as an interface\<close>

text \<open>
  What a batch relies on: the fetch answers pending papers, each once, at most as many as asked for,
  and all of them when fewer.
\<close>

locale conversion_queue =
  fixes fetch :: "'d \<Rightarrow> nat \<Rightarrow> needs_row list" and pending :: "'d \<Rightarrow> string set" and sound_db :: "'d \<Rightarrow> bool"
  assumes fetch_distinct: "sound_db db \<Longrightarrow> distinct (map nr_arxiv (fetch db n))"
    and fetch_pending: "nr_arxiv ` set (fetch db n) \<subseteq> pending db"
    and fetch_complete: "length (fetch db n) < n \<Longrightarrow> pending db \<subseteq> nr_arxiv ` set (fetch db n)"
begin

lemma fresh_rows_set: "set (fresh_rows rows tried) = nr_arxiv ` set rows - set tried"
  by (auto simp: fresh_rows_def)

lemma fresh_rows_distinct: "sound_db db \<Longrightarrow> distinct (fresh_rows (fetch db n) tried)"
  using fetch_distinct [of db n] by (simp add: fresh_rows_def)

lemma attempt_rows_tried:
  assumes "attempt_rows day w cfg (fresh_rows (fetch db n) (r_attempted r)) (at_point (Suc (r_t r)) r) = Some (stop, r')"
    and db: "w_db w (r_t r) = Inr db" "sound_db db" and ok: "tried_ok pending w t0 r" and cn: "counted r"
  shows "tried_ok pending w t0 r' \<and> (stop \<noteq> Some Shutdown \<longrightarrow> counted r')"
proof -
  from attempt_rows_facts [OF assms(1)] obtain tried where t: "prefix tried (fresh_rows (fetch db n) (r_attempted r))"
    "r_attempted r' = r_attempted r @ tried" "Suc (r_t r) \<le> r_t r'"
    "rs_processed (r_stats r') = rs_processed (r_stats r) + length tried"
    "rs_converted (r_stats r') + rs_failed (r_stats r') \<le> rs_converted (r_stats r) + rs_failed (r_stats r) + length tried"
    "stop \<noteq> Some Shutdown \<longrightarrow> rs_converted (r_stats r') + rs_failed (r_stats r') =
       rs_converted (r_stats r) + rs_failed (r_stats r) + length tried" by auto
  from t(1) have sub: "set tried \<subseteq> nr_arxiv ` set (fetch db n) - set (r_attempted r)"
    using set_mono_prefix [OF t(1)] by (simp add: fresh_rows_set)
  have dist: "distinct tried" using t(1) fresh_rows_distinct [OF db(2), of n "r_attempted r"] by (auto simp: prefix_def)
  have pend: "\<exists>t db. t0 \<le> t \<and> t \<le> r_t r' \<and> w_db w t = Inr db \<and> i \<in> pending db" if "i \<in> set tried" for i
    using that sub fetch_pending [of db n] db(1) ok t(3) unfolding tried_ok_def by (intro exI [of _ "r_t r"] exI [of _ db]) auto
  have old: "\<exists>t db. t0 \<le> t \<and> t \<le> r_t r' \<and> w_db w t = Inr db \<and> i \<in> pending db" if "i \<in> set (r_attempted r)" for i
    using that ok t(3) unfolding tried_ok_def by (meson Suc_leD order_trans)
  show ?thesis using ok cn t(2-6) sub dist pend old by (auto simp: tried_ok_def counted_def)
qed

lemma batch_loop_tried:
  assumes "batch_loop fetch day w cfg r = Some y" and "\<forall>t db. w_db w t = Inr db \<longrightarrow> sound_db db"
    and "tried_ok pending w t0 r" and "counted r"
  shows "tried_ok pending w t0 (snd y) \<and> (fst y \<noteq> Shutdown \<longrightarrow> counted (snd y))"
  using assms(1,3,4)
proof (induction rule: batch_loop_induct)
  case (stop r db reason r')
  with attempt_rows_tried [OF stop(2) stop(1)] assms(2) show ?case by auto
next
  case (again r db r' y)
  from attempt_rows_tried [OF again(2) again(1) _ again(4,5)] assms(2) again(1) have "tried_ok pending w t0 r' \<and> counted r'" by auto
  with again(3) show ?case by blast
qed auto

text \<open>A batch that reports an empty queue has tried every row of its last fetch.\<close>

lemma batch_loop_drained:
  assumes "batch_loop fetch day w cfg r = Some (Queue_Empty, r')"
  shows "\<exists>db. w_db w (r_t r') = Inr db \<and> nr_arxiv ` set (fetch db (sf_batch_size cfg)) \<subseteq> set (r_attempted r') \<and>
    (length (fetch db (sf_batch_size cfg)) < sf_batch_size cfg \<longrightarrow> pending db \<subseteq> set (r_attempted r'))"
proof -
  have "fst y = Queue_Empty \<longrightarrow> (\<exists>db. w_db w (r_t (snd y)) = Inr db \<and>
      fresh_rows (fetch db (sf_batch_size cfg)) (r_attempted (snd y)) = [])"
    if "batch_loop fetch day w cfg r = Some y" for r y
    using that
  proof (induction rule: batch_loop_induct)
    case (stop r db reason r')
    from attempt_rows_facts [OF stop(2)] show ?case by auto
  qed auto
  from this [OF assms] obtain db where db: "w_db w (r_t r') = Inr db"
    "fresh_rows (fetch db (sf_batch_size cfg)) (r_attempted r') = []" by auto
  from arg_cong [OF db(2), of set] have sub: "nr_arxiv ` set (fetch db (sf_batch_size cfg)) \<subseteq> set (r_attempted r')"
    by (simp add: fresh_rows_set)
  with db(1) fetch_complete [of db "sf_batch_size cfg"] show ?thesis by blast
qed

text \<open>A batch only ever tries rows that its fetches show.\<close>

lemma batch_loop_within:
  assumes "batch_loop fetch day w cfg r = Some y"
    and "\<forall>t db. w_db w t = Inr db \<longrightarrow> nr_arxiv ` set (fetch db (sf_batch_size cfg)) \<subseteq> R"
    and "set (r_attempted r) \<subseteq> R"
  shows "set (r_attempted (snd y)) \<subseteq> R"
proof -
  have step: "set (r_attempted r') \<subseteq> R" if "set (r_attempted r) \<subseteq> R" "w_db w (r_t r) = Inr db"
    "attempt_rows day w cfg (fresh_rows (fetch db (sf_batch_size cfg)) (r_attempted r)) (at_point (Suc (r_t r)) r) = Some (stop, r')"
    for r r' db stop
  proof -
    from attempt_rows_facts [OF that(3)] obtain tried where
      "prefix tried (fresh_rows (fetch db (sf_batch_size cfg)) (r_attempted r))" "r_attempted r' = r_attempted r @ tried" by auto
    moreover have "set (fresh_rows (fetch db (sf_batch_size cfg)) (r_attempted r)) \<subseteq> R"
      using assms(2) that(2) by (auto simp: fresh_rows_set)
    ultimately show ?thesis using that(1) set_mono_prefix by fastforce
  qed
  show ?thesis using assms(1,3)
    by (induction rule: batch_loop_induct) (auto dest: step)
qed

end

section \<open>The database as such a queue\<close>

definition pending_ids :: "asset_db \<Rightarrow> string set" where
  "pending_ids db = (nr_arxiv \<circ> needs_row_of) ` {a \<in> set (db_assets db). asset_pending (db_now db) a}"

text \<open>No two pending assets have the same versioned id.\<close>

definition ids_distinct :: "asset_db \<Rightarrow> bool" where
  "ids_distinct db \<longleftrightarrow> distinct (map (nr_arxiv \<circ> needs_row_of) (filter (asset_pending (db_now db)) (db_assets db)))"

interpretation catalog: conversion_queue needs_mineru pending_ids ids_distinct
proof
  fix db :: asset_db and n
  let ?pend = "filter (asset_pending (db_now db)) (db_assets db)"
  let ?rows = "sort_key newest_first ?pend"
  have rows: "needs_mineru db n = map needs_row_of (take n ?rows)" by (simp add: needs_mineru_def)
  show "distinct (map nr_arxiv (needs_mineru db n))" if "ids_distinct db"
  proof -
    have "mset (map (nr_arxiv \<circ> needs_row_of) ?rows) = mset (map (nr_arxiv \<circ> needs_row_of) ?pend)" by simp
    with that have "distinct (map (nr_arxiv \<circ> needs_row_of) ?rows)"
      unfolding ids_distinct_def using mset_eq_imp_distinct_iff by blast
    then have "distinct (take n (map (nr_arxiv \<circ> needs_row_of) ?rows))" by (rule distinct_take)
    then show ?thesis by (simp add: rows take_map)
  qed
  show "nr_arxiv ` set (needs_mineru db n) \<subseteq> pending_ids db"
    by (auto simp: rows pending_ids_def dest: in_set_takeD)
  show "pending_ids db \<subseteq> nr_arxiv ` set (needs_mineru db n)" if "length (needs_mineru db n) < n"
  proof -
    have "take n ?rows = ?rows" using that by (simp add: rows)
    then show ?thesis by (auto simp: rows pending_ids_def)
  qed
qed

section \<open>A batch returns\<close>

text \<open>From every point on, the record of a job is at some later point not live, gone, or the context is done.\<close>

definition waits_end :: "'d world \<Rightarrow> bool" where
  "waits_end w \<longleftrightarrow> (\<forall>t i. \<exists>t'>t. w_cancelled w t' \<or> (case w_lookup w t' i of None \<Rightarrow> True | Some j \<Rightarrow> \<not> live j))"

lemma wait_terminal_returns:
  assumes "t < t'" and "w_cancelled w t' \<or> (case w_lookup w t' i of None \<Rightarrow> True | Some j \<Rightarrow> \<not> live j)"
  shows "\<exists>y. wait_terminal w t i jo = Some y"
  using assms(1)
proof (induction "t' - t" arbitrary: t jo)
  case (Suc n)
  show ?case
  proof (cases "\<exists>job j'. jo = Some job \<and> live job \<and> \<not> w_cancelled w (Suc t) \<and> w_lookup w (Suc t) i = Some j'")
    case False
    then show ?thesis by (subst wait_terminal.simps) (auto split: option.split)
  next
    case True
    then obtain job j' where "jo = Some job" "live job" and j': "\<not> w_cancelled w (Suc t)" "w_lookup w (Suc t) i = Some j'"
      by blast
    then have step: "wait_terminal w t i jo = wait_terminal w (Suc t) i (Some j')" by (simp add: wait_terminal.simps [of w t])
    show ?thesis
    proof (cases "Suc t = t'")
      case True
      with assms(2) j' have "\<not> live j'" by auto
      then have "wait_terminal w (Suc t) i (Some j') = Some (Some j', Suc t)" by (subst wait_terminal.simps) simp
      with step show ?thesis by simp
    next
      case False
      with Suc show ?thesis unfolding step by (intro Suc.hyps(1)) simp_all
    qed
  qed
qed simp

lemma attempt_rows_returns:
  assumes "waits_end w"
  shows "\<exists>y. attempt_rows day w cfg is r = Some y"
proof (induction "is" arbitrary: r)
  case (Cons i "is")
  let ?t = "r_t r"
  from assms obtain t' where "?t < t'" "w_cancelled w t' \<or> (case w_lookup w t' i of None \<Rightarrow> True | Some j \<Rightarrow> \<not> live j)"
    unfolding waits_end_def by blast
  from wait_terminal_returns [OF this] obtain jo t2 where "wait_terminal w ?t i (w_ensure w ?t i) = Some (jo, t2)"
    by (metis prod.collapse)
  with Cons.IH show ?case
    by (auto simp: Let_def split: option.split prod.split)
qed simp

text \<open>Every further pass takes at least one paper out of the finitely many there are.\<close>

context conversion_queue
begin

lemma batch_loop_returns:
  assumes "finite U" and "\<forall>t db. w_db w t = Inr db \<longrightarrow> pending db \<subseteq> U" and "waits_end w"
  shows "\<exists>y. batch_loop fetch day w cfg r = Some y"
proof (induction "card (U - set (r_attempted r))" arbitrary: r rule: less_induct)
  case less
  show ?case
  proof (cases "w_db w (r_t r)")
    case (Inl e)
    then show ?thesis by (simp add: batch_loop.simps [of _ _ _ _ r])
  next
    case (Inr db)
    let ?fresh = "fresh_rows (fetch db (sf_batch_size cfg)) (r_attempted r)"
    from attempt_rows_returns [OF assms(3)] obtain stop r' where
      a: "attempt_rows day w cfg ?fresh (at_point (Suc (r_t r)) r) = Some (stop, r')" by (metis prod.collapse)
    show ?thesis
    proof (cases "?fresh = [] \<or> stop \<noteq> None")
      case True
      with Inr a show ?thesis by (auto simp: batch_loop.simps [of _ _ _ _ r] Let_def)
    next
      case False
      with attempt_rows_facts [OF a] have att: "r_attempted r' = r_attempted r @ ?fresh" by auto
      have sub: "set ?fresh \<subseteq> U - set (r_attempted r)" using assms(2) Inr fetch_pending [of db] by (fastforce simp: fresh_rows_set)
      obtain x where x: "x \<in> set ?fresh" using False by (meson list.set_sel(1))
      have "U - set (r_attempted r') \<subseteq> U - set (r_attempted r)" unfolding att by auto
      moreover have "x \<in> U - set (r_attempted r)" "x \<notin> U - set (r_attempted r')" using x sub by (auto simp: att)
      ultimately have "U - set (r_attempted r') \<subset> U - set (r_attempted r)" by blast
      then have "card (U - set (r_attempted r')) < card (U - set (r_attempted r))"
        using assms(1) by (intro psubset_card_mono) simp_all
      from less [OF this] Inr False a show ?thesis by (auto simp: batch_loop.simps [of _ _ _ _ r] Let_def)
    qed
  qed
qed

end

section \<open>The properties of a batch\<close>

lemma run_batch_cases:
  assumes "run_batch fetch day w cfg t s = Some (reason, r)"
  shows "(reason = Converter_Disabled \<and> \<not> w_enabled w t \<and> r_attempted r = [] \<and> r_stats r = no_stats \<and> r_t r = Suc t) \<or>
    (w_enabled w t \<and> (\<exists>r1. batch_loop fetch day w cfg \<lparr>r_t = Suc t, r_attempted = [], r_stats = no_stats, r_sched = s\<rparr> = Some (reason, r1) \<and>
      r = r1\<lparr>r_sched := finish_run (w_now w (r_t r1)) reason (r_stats r1) (r_sched r1)\<rparr>))"
  using assms by (auto simp: run_batch_def Let_def split: if_splits)

lemma start_tried: "tried_ok P w t \<lparr>r_t = t, r_attempted = [], r_stats = no_stats, r_sched = s\<rparr>"
  "counted \<lparr>r_t = t, r_attempted = [], r_stats = no_stats, r_sched = s\<rparr>"
  by (simp_all add: tried_ok_def counted_def no_stats_def)

text \<open>C1: What a batch tries. In one run of the daily batch every paper is submitted at most once, only papers
  the database showed as pending during the run are submitted, the tallies count them, and a run that
  reports an empty queue has tried all rows of its last fetch, hence every pending paper when fewer
  than a full batch were left.\<close>

theorem batch_attempts:
  assumes run: "run_batch needs_mineru day w cfg t s = Some (reason, r)"
    and dbs: "\<forall>t db. w_db w t = Inr db \<longrightarrow> ids_distinct db"
  shows "distinct (r_attempted r) \<and> rs_processed (r_stats r) = length (r_attempted r) \<and>
    (\<forall>i\<in>set (r_attempted r). \<exists>t' db. t < t' \<and> t' \<le> r_t r \<and> w_db w t' = Inr db \<and> i \<in> pending_ids db) \<and>
    rs_converted (r_stats r) + rs_failed (r_stats r) \<le> rs_processed (r_stats r) \<and>
    (reason \<noteq> Shutdown \<longrightarrow> rs_converted (r_stats r) + rs_failed (r_stats r) = rs_processed (r_stats r)) \<and>
    (reason = Queue_Empty \<longrightarrow> (\<exists>db. w_db w (r_t r) = Inr db \<and>
      nr_arxiv ` set (needs_mineru db (sf_batch_size cfg)) \<subseteq> set (r_attempted r) \<and>
      (length (needs_mineru db (sf_batch_size cfg)) < sf_batch_size cfg \<longrightarrow> pending_ids db \<subseteq> set (r_attempted r))))"
  using run_batch_cases [OF run]
proof (elim disjE conjE exE)
  assume "reason = Converter_Disabled" "r_attempted r = []" "r_stats r = no_stats"
  then show ?thesis by (simp add: no_stats_def)
next
  fix r1 let ?r0 = "\<lparr>r_t = Suc t, r_attempted = [], r_stats = no_stats, r_sched = s\<rparr>"
  assume l: "batch_loop needs_mineru day w cfg ?r0 = Some (reason, r1)"
    and r: "r = r1\<lparr>r_sched := finish_run (w_now w (r_t r1)) reason (r_stats r1) (r_sched r1)\<rparr>"
  from catalog.batch_loop_tried [OF l dbs start_tried]
  have "tried_ok pending_ids w (Suc t) r1" "reason \<noteq> Shutdown \<longrightarrow> counted r1" by simp_all
  with catalog.batch_loop_drained [of day w cfg ?r0 r1] l show ?thesis
    unfolding r tried_ok_def counted_def Suc_le_eq by simp
qed

text \<open>C4: The daily batch ends. When the papers that are ever pending are finitely many and the converter's
  jobs end (or the context does), a run returns, with a reason and the slot free again.\<close>

theorem batch_terminates:
  assumes "finite U" and "\<forall>t db. w_db w t = Inr db \<longrightarrow> pending_ids db \<subseteq> U" and "waits_end w"
  shows "\<exists>reason r. run_batch needs_mineru day w cfg t s = Some (reason, r) \<and> \<not> sc_running (r_sched r) \<and>
    sc_last_stop (r_sched r) = Some reason \<and> sc_last_stats (r_sched r) = r_stats r"
proof (cases "w_enabled w t")
  case True
  let ?r0 = "\<lparr>r_t = Suc t, r_attempted = [], r_stats = no_stats, r_sched = s\<rparr>"
  from catalog.batch_loop_returns [OF assms, of day cfg ?r0]
  obtain reason r where "batch_loop needs_mineru day w cfg ?r0 = Some (reason, r)" by (metis prod.collapse)
  with True show ?thesis by (simp add: run_batch_def Let_def finish_run_def)
qed (simp add: run_batch_def finish_run_def)

text \<open>Only the head of the queue is ever served. While the rows of a fetch stay in the queue, and the converter
  publishes its bundles without a legacy Markdown path, so that converted papers stay as well, a run
  submits no paper beyond the first batch, and reports an empty queue once it has tried that.\<close>

theorem batch_stuck_at_head:
  assumes run: "run_batch needs_mineru day w cfg t s = Some (reason, r)"
    and stays: "\<forall>t db. w_db w t = Inr db \<longrightarrow> needs_mineru db (sf_batch_size cfg) = rows"
  shows "set (r_attempted r) \<subseteq> nr_arxiv ` set rows \<and> (reason = Queue_Empty \<longrightarrow> set (r_attempted r) = nr_arxiv ` set rows)"
  using run_batch_cases [OF run]
proof (elim disjE conjE exE)
  assume "reason = Converter_Disabled" "r_attempted r = []"
  then show ?thesis by simp
next
  fix r1 let ?r0 = "\<lparr>r_t = Suc t, r_attempted = [], r_stats = no_stats, r_sched = s\<rparr>"
  assume l: "batch_loop needs_mineru day w cfg ?r0 = Some (reason, r1)"
    and r: "r = r1\<lparr>r_sched := finish_run (w_now w (r_t r1)) reason (r_stats r1) (r_sched r1)\<rparr>"
  have "set (r_attempted r) \<subseteq> nr_arxiv ` set rows"
    using catalog.batch_loop_within [OF l, of "nr_arxiv ` set rows"] stays by (simp add: r)
  moreover have "nr_arxiv ` set rows \<subseteq> set (r_attempted r)" if "reason = Queue_Empty"
    using catalog.batch_loop_drained [of day w cfg ?r0 r1] l stays that by (auto simp: r)
  ultimately show ?thesis by blast
qed

text \<open>Three pending papers, fetched two at a time: both of the first two are converted, the third is not reached.\<close>

definition sample_asset :: "nat \<Rightarrow> string \<Rightarrow> asset" where
  "sample_asset n b = \<lparr>as_id = n, as_paper = b, as_source = ''arxiv'', as_bare = Some b, as_version = 1, as_pdf_path = [],
     as_pdf_size = None, as_md_path = None, as_lease_expires = None, as_fetched = Some (10 - n)\<rparr>"

definition sample_db :: asset_db where
  "sample_db = \<lparr>db_now = 20, db_assets = [sample_asset 3 ''c'', sample_asset 1 ''a'', sample_asset 2 ''b'']\<rparr>"

definition sample_world :: "asset_db world" where
  "sample_world = \<lparr>w_now = (\<lambda>t. t), w_cancelled = (\<lambda>t. False), w_enabled = (\<lambda>t. True), w_db = (\<lambda>t. Inr sample_db),
     w_ensure = (\<lambda>t i. Some (zero_job\<lparr>j_state := Done\<rparr>)), w_lookup = (\<lambda>t i. None)\<rparr>"

definition sample_config :: sched_config where
  "sample_config = fst (new_scheduler [With_Batch_Size 2, With_Daily_Cap 3])"

definition sample_run :: "(stop_reason \<times> run) option" where
  "sample_run = run_batch needs_mineru (\<lambda>t. ''d'') sample_world sample_config 0 (snd (try_begin_run 0 (snd (new_scheduler []))))"

lemma digits_one: "nat_digits (Suc 0) = ''1''"
  by code_simp

lemma sample_rows: "map nr_arxiv (needs_mineru sample_db 2) = [''av1'', ''bv1'']" "length (needs_mineru sample_db 2) = 2"
  by (simp_all add: needs_mineru_def sample_db_def sample_asset_def asset_pending_def newest_first_def needs_row_of_def
      versioned_arxiv_id_def format_d_def less_prod_def' insort_key_def digits_one)

definition sample_done :: run where
  "sample_done = \<lparr>r_t = 6, r_attempted = [''av1'', ''bv1''],
     r_stats = \<lparr>rs_processed = 2, rs_converted = 2, rs_failed = 0\<rparr>,
     r_sched = (snd (new_scheduler []))\<lparr>sc_last_start := Some 0, sc_last_finish := Some 6, sc_last_stop := Some Queue_Empty,
       sc_last_stats := \<lparr>rs_processed = 2, rs_converted = 2, rs_failed = 0\<rparr>, sc_cap_day := ''d'',
       sc_converted_today := 2, sc_history := [2, 4]\<rparr>\<rparr>"

lemma sample_run_value: "sample_run = Some (Queue_Empty, sample_done)"
proof -
  have rows: "fresh_rows (needs_mineru sample_db 2) [] = [''av1'', ''bv1'']"
    "fresh_rows (needs_mineru sample_db 2) [''av1'', ''bv1''] = []"
    by (simp_all add: fresh_rows_def sample_rows(1))
  have wait: "wait_terminal sample_world t i (Some (zero_job\<lparr>j_state := Done\<rparr>)) = Some (Some (zero_job\<lparr>j_state := Done\<rparr>), t)" for t i
    by (simp add: wait_terminal.simps live_def)
  have size: "sf_batch_size sample_config = 2" "sf_daily_cap sample_config = 3"
    by (simp_all add: sample_config_def new_scheduler_def)
  note w = sample_world_def
  have w': "w_now sample_world t = t" "\<not> w_cancelled sample_world t" "w_enabled sample_world t" "w_db sample_world t = Inr sample_db"
    "w_ensure sample_world t i = Some (zero_job\<lparr>j_state := Done\<rparr>)" for t i by (simp_all add: w)
  show ?thesis
    unfolding sample_run_def run_batch_def sample_done_def
    by (simp add: w' batch_loop.simps Let_def size rows wait settle_def note_converted_def cap_reached_def at_point_def
        begin_attempt_def finish_run_def try_begin_run_def new_scheduler_def no_stats_def)
qed

theorem batch_stuck_at_head_witness:
  "\<exists>r. sample_run = Some (Queue_Empty, r) \<and> set (r_attempted r) = {''av1'', ''bv1''} \<and>
     rs_converted (r_stats r) = 2 \<and> ''cv1'' \<in> pending_ids sample_db"
proof -
  have "set (r_attempted sample_done) = nr_arxiv ` set (needs_mineru sample_db 2)"
    using batch_stuck_at_head [OF sample_run_value [unfolded sample_run_def], of "needs_mineru sample_db 2"]
    by (simp add: sample_world_def sample_config_def new_scheduler_def)
  also have "\<dots> = {''av1'', ''bv1''}" using arg_cong [OF sample_rows(1), of set] by simp
  finally have "set (r_attempted sample_done) = {''av1'', ''bv1''}" .
  moreover have "''cv1'' \<in> pending_ids sample_db" unfolding pending_ids_def
  proof (rule image_eqI [of _ _ "sample_asset 3 ''c''"])
    show "''cv1'' = (nr_arxiv \<circ> needs_row_of) (sample_asset 3 ''c'')"
      by (simp add: sample_asset_def needs_row_of_def versioned_arxiv_id_def format_d_def digits_one)
    show "sample_asset 3 ''c'' \<in> {a \<in> set (db_assets sample_db). asset_pending (db_now sample_db) a}"
      by (simp add: sample_db_def asset_pending_def sample_asset_def)
  qed
  ultimately show ?thesis by (intro exI [of _ sample_done]) (simp add: sample_run_value sample_done_def)
qed

theorem batch_attempts_witness:
  "ids_distinct sample_db \<and> distinct (r_attempted sample_done) \<and> rs_processed (r_stats sample_done) = 2"
proof -
  have ok: "ids_distinct sample_db"
    by (simp add: ids_distinct_def sample_db_def sample_asset_def asset_pending_def needs_row_of_def versioned_arxiv_id_def
        format_d_def digits_one)
  have "distinct (r_attempted sample_done) \<and> rs_processed (r_stats sample_done) = length (r_attempted sample_done)"
    using batch_attempts [OF sample_run_value [unfolded sample_run_def]] ok by (simp add: sample_world_def)
  with ok show ?thesis by (simp add: sample_done_def)
qed

theorem batch_terminates_witness:
  "\<exists>reason r. run_batch needs_mineru (\<lambda>t. ''d'') sample_world sample_config 0 (snd (new_scheduler [])) = Some (reason, r) \<and>
     \<not> sc_running (r_sched r)"
proof -
  have "finite (pending_ids sample_db)" by (simp add: pending_ids_def)
  moreover have "waits_end sample_world" by (auto simp: waits_end_def sample_world_def intro: exI [of _ "Suc _"])
  ultimately show ?thesis
    using batch_terminates [of "pending_ids sample_db" sample_world] by (fastforce simp: sample_world_def)
qed

section \<open>The daily cap\<close>

definition converted_on :: "(instant \<Rightarrow> string) \<Rightarrow> string \<Rightarrow> sched \<Rightarrow> nat" where
  "converted_on day d s = length (filter (\<lambda>i. day i = d) (sc_history s))"

text \<open>A calendar day is one stretch of time, and its name is not empty.\<close>

definition days_contiguous :: "(instant \<Rightarrow> string) \<Rightarrow> bool" where
  "days_contiguous day \<longleftrightarrow> (\<forall>a b c. a \<le> b \<longrightarrow> b \<le> c \<longrightarrow> day a = day c \<longrightarrow> day b = day a) \<and> (\<forall>a. day a \<noteq> [])"

lemma days_contiguousD:
  "days_contiguous day \<Longrightarrow> a \<le> b \<Longrightarrow> b \<le> c \<Longrightarrow> day a = day c \<Longrightarrow> day b = day a"
  unfolding days_contiguous_def by blast

text \<open>
  The counter is the number of conversions of its day, which is the day of the last one, and no day
  has more of them than the cap.
\<close>

definition cap_inv :: "(instant \<Rightarrow> string) \<Rightarrow> sched_config \<Rightarrow> instant \<Rightarrow> sched \<Rightarrow> bool" where
  "cap_inv day cfg now s \<longleftrightarrow> (\<forall>i\<in>set (sc_history s). i \<le> now) \<and>
     (if sc_history s = [] then sc_cap_day s = [] \<and> sc_converted_today s = 0
      else sc_cap_day s = day (last (sc_history s)) \<and> (\<forall>i\<in>set (sc_history s). i \<le> last (sc_history s)) \<and>
        sc_converted_today s = converted_on day (sc_cap_day s) s) \<and>
     (\<forall>d. 0 < sf_daily_cap cfg \<longrightarrow> int (converted_on day d s) \<le> sf_daily_cap cfg)"

lemma cap_inv_later: "cap_inv day cfg now s \<Longrightarrow> now \<le> later \<Longrightarrow> cap_inv day cfg later s"
  by (auto simp: cap_inv_def split: if_splits intro: order_trans)

lemma cap_inv_mono: "cap_inv day cfg (w_now w n) s \<Longrightarrow> mono (w_now w) \<Longrightarrow> n \<le> m \<Longrightarrow> cap_inv day cfg (w_now w m) s"
  by (erule cap_inv_later) (rule monoD)

text \<open>A conversion that starts before the cap is reached keeps the invariant when it ends.\<close>

lemma note_converted_inv:
  assumes inv: "cap_inv day cfg now s" and t: "now \<le> t1" "t1 \<le> t2" and days: "days_contiguous day"
    and free: "\<not> cap_reached day cfg t1 s"
  shows "cap_inv day cfg t2 (note_converted day t2 s)"
proof (cases "sc_cap_day s = day t2")
  case True
  have "day t2 \<noteq> []" using days by (simp add: days_contiguous_def)
  with True inv have h: "sc_history s \<noteq> []" by (auto simp: cap_inv_def split: if_splits)
  with inv have l: "sc_cap_day s = day (last (sc_history s))" "sc_converted_today s = converted_on day (sc_cap_day s) s"
    "last (sc_history s) \<le> now" by (auto simp: cap_inv_def)
  have "day t1 = day (last (sc_history s))"
    using t l(1,3) True by (intro days_contiguousD [OF days, of _ t1 t2]) simp_all
  with l(1) free have lt: "0 < sf_daily_cap cfg \<longrightarrow> int (sc_converted_today s) < sf_daily_cap cfg"
    by (auto simp: cap_reached_def split: if_splits)
  with inv True t h l show ?thesis
    by (auto simp: cap_inv_def note_converted_def converted_on_def)
next
  case False
  have none: "converted_on day (day t2) s = 0"
  proof -
    have "day i \<noteq> day t2" if i: "i \<in> set (sc_history s)" for i
    proof
      assume eq: "day i = day t2"
      from i inv have l: "sc_cap_day s = day (last (sc_history s))" "i \<le> last (sc_history s)" "last (sc_history s) \<le> now"
        by (auto simp: cap_inv_def split: if_splits)
      then have "day (last (sc_history s)) = day i"
        using t eq by (intro days_contiguousD [OF days, of i _ t2]) simp_all
      with l(1) eq False show False by simp
    qed
    then show ?thesis by (auto simp: converted_on_def filter_empty_conv)
  qed
  with inv False t show ?thesis
    by (auto simp: cap_inv_def note_converted_def converted_on_def Let_def split: if_splits)
qed

lemma settle_cap_inv:
  assumes "settle day now job r = (stop, r')" and "cap_inv day cfg t0 (r_sched r)" and "t0 \<le> t1" "t1 \<le> now"
    and "days_contiguous day" and "\<not> cap_reached day cfg t1 (r_sched r)"
  shows "cap_inv day cfg now (r_sched r')"
  using settle_frames(4) [OF assms(1)] note_converted_inv [OF assms(2-6)] cap_inv_later [OF assms(2), of now] assms(3,4)
  by (simp split: if_splits)

lemma attempt_rows_cap:
  assumes "attempt_rows day w cfg is r = Some (stop, r')" and "mono (w_now w)" and "days_contiguous day"
    and "cap_inv day cfg (w_now w (r_t r)) (r_sched r)"
  shows "cap_inv day cfg (w_now w (r_t r')) (r_sched r')"
  using assms(1,4)
proof (induction "is" arbitrary: r)
  case (Cons i "is")
  let ?t = "r_t r" and ?r1 = "begin_attempt i r"
  show ?case
  proof (cases "w_cancelled w ?t \<or> cap_reached day cfg (w_now w ?t) (r_sched r)")
    case True
    with Cons.prems show ?thesis by (auto simp: Let_def split: if_splits)
  next
    case go: False
    with Cons.prems obtain jo t' where wt: "wait_terminal w ?t i (w_ensure w ?t i) = Some (jo, t')"
      by (cases "wait_terminal w ?t i (w_ensure w ?t i)") (auto simp: Let_def)
    from wait_terminal_time [OF wt] have le: "w_now w ?t \<le> w_now w t'" using assms(2) by (simp add: monoD)
    have later: "w_now w t' \<le> w_now w (Suc t')" "w_now w t' \<le> w_now w (Suc (Suc t'))" using assms(2) by (simp_all add: monoD)
    show ?thesis
    proof (cases jo)
      case None
      with Cons.prems go wt le show ?thesis by (auto simp: Let_def intro: cap_inv_later)
    next
      case (Some job)
      obtain s2 r2 where se: "settle day (w_now w t') job (at_point (Suc t') ?r1) = (s2, r2)" by (rule prod.exhaust)
      have inv2: "cap_inv day cfg (w_now w t') (r_sched r2)"
        using go Cons.prems(2) le by (intro settle_cap_inv [OF se _ order_refl le assms(3)]) simp_all
      show ?thesis
      proof (cases "s2 = None \<and> \<not> w_cancelled w (Suc t')")
        case False
        then have "r' = r2" using Cons.prems go wt Some se by (auto simp: Let_def split: option.splits)
        with settle_frames(1) [OF se] cap_inv_later [OF inv2 later(1)] show ?thesis by simp
      next
        case True
        then have "attempt_rows day w cfg is (at_point (Suc (Suc t')) r2) = Some (stop, r')"
          using Cons.prems go wt Some se by (simp add: Let_def)
        from Cons.IH [OF this] cap_inv_later [OF inv2 later(2)] show ?thesis by simp
      qed
    qed
  qed
qed simp

lemma batch_loop_cap:
  assumes "batch_loop fetch day w cfg r = Some y" and "mono (w_now w)" and "days_contiguous day"
    and "cap_inv day cfg (w_now w (r_t r)) (r_sched r)"
  shows "cap_inv day cfg (w_now w (r_t (snd y))) (r_sched (snd y))"
proof -
  have next_point: "cap_inv day cfg (w_now w (Suc (r_t r))) (r_sched r)" if "cap_inv day cfg (w_now w (r_t r)) (r_sched r)" for r
    by (rule cap_inv_mono [OF that assms(2)]) simp
  show ?thesis using assms(1,4)
  proof (induction rule: batch_loop_induct)
    case (stop r db reason r')
    from attempt_rows_cap [OF stop(2) assms(2,3)] next_point [OF stop(3)] show ?case by simp
  next
    case (again r db r' y)
    from attempt_rows_cap [OF again(2) assms(2,3)] next_point [OF again(4)] again(3) show ?case by simp
  qed auto
qed

text \<open>The runs of the scheduler, one after the other as the slot allows, at later and later points.\<close>

inductive runs_to :: "('d \<Rightarrow> nat \<Rightarrow> needs_row list) \<Rightarrow> (instant \<Rightarrow> string) \<Rightarrow> 'd world \<Rightarrow> sched_config \<Rightarrow> sched \<Rightarrow> nat \<Rightarrow> sched \<Rightarrow> bool"
  for fetch day w cfg s0 where
  runs_start: "runs_to fetch day w cfg s0 0 s0"
| runs_wait: "runs_to fetch day w cfg s0 t s \<Longrightarrow> t \<le> t' \<Longrightarrow> runs_to fetch day w cfg s0 t' s"
| runs_batch: "runs_to fetch day w cfg s0 t s \<Longrightarrow> try_begin_run (w_now w t) s = (True, s') \<Longrightarrow>
    run_batch fetch day w cfg t s' = Some (reason, r) \<Longrightarrow> runs_to fetch day w cfg s0 (r_t r) (r_sched r)"

lemma cap_inv_fields:
  "cap_inv day cfg now (finish_run t reason stats s) = cap_inv day cfg now s"
  "try_begin_run t s = (b, s') \<Longrightarrow> cap_inv day cfg now s' = cap_inv day cfg now s"
  by (auto simp: cap_inv_def finish_run_def try_begin_run_def converted_on_def split: if_splits)

lemma run_batch_cap:
  assumes "run_batch fetch day w cfg t s = Some (reason, r)" and "mono (w_now w)" and "days_contiguous day"
    and "cap_inv day cfg (w_now w t) s"
  shows "cap_inv day cfg (w_now w (r_t r)) (r_sched r)"
proof -
  have start: "cap_inv day cfg (w_now w (Suc t)) s" by (rule cap_inv_mono [OF assms(4,2)]) simp
  show ?thesis
  proof (cases "w_enabled w t")
    case False
    with assms(1) start show ?thesis by (auto simp: run_batch_def Let_def cap_inv_fields)
  next
    case True
    let ?r0 = "\<lparr>r_t = Suc t, r_attempted = [], r_stats = no_stats, r_sched = s\<rparr>"
    from True assms(1) obtain r1 where l: "batch_loop fetch day w cfg ?r0 = Some (reason, r1)"
      and r: "r = r1\<lparr>r_sched := finish_run (w_now w (r_t r1)) reason (r_stats r1) (r_sched r1)\<rparr>"
      by (auto simp: run_batch_def Let_def)
    from batch_loop_cap [OF l assms(2,3)] start show ?thesis by (simp add: r cap_inv_fields)
  qed
qed

lemma runs_to_cap:
  assumes "runs_to fetch day w cfg s0 t s" and "mono (w_now w)" and "days_contiguous day"
    and "cap_inv day cfg (w_now w 0) s0"
  shows "cap_inv day cfg (w_now w t) s"
  using assms(1,4)
proof (induction rule: runs_to.induct)
  case (runs_wait t s t')
  from cap_inv_mono [OF _ assms(2) runs_wait(2)] runs_wait(3,4) show ?case by blast
next
  case (runs_batch t s s' reason r)
  from run_batch_cap [OF runs_batch(3) assms(2,3)] runs_batch cap_inv_fields(2) [OF runs_batch(2)] show ?case by blast
qed

text \<open>C2: The daily cap holds. Over any sequence of scheduled and manual runs, however jobs and days interleave with
  them, no calendar day sees more successful conversions than the cap, and the counter of a snapshot is
  the number of conversions of its day.\<close>

theorem daily_cap_respected:
  assumes "runs_to fetch day w cfg (snd (new_scheduler opts)) t s" and "mono (w_now w)" and "days_contiguous day"
    and "w_now w t \<le> now"
  shows "(0 < sf_daily_cap cfg \<longrightarrow> int (converted_on day d s) \<le> sf_daily_cap cfg) \<and>
    sn_converted_today (sched_snapshot_of day cfg now s) = converted_on day (day now) s"
proof -
  have "cap_inv day cfg (w_now w 0) (snd (new_scheduler opts))"
    by (simp add: cap_inv_def new_scheduler_def converted_on_def)
  from runs_to_cap [OF assms(1-3) this] have inv: "cap_inv day cfg (w_now w t) s" .
  have "converted_on day (day now) s = 0" if ne: "sc_cap_day s \<noteq> day now"
  proof -
    have "day i \<noteq> day now" if i: "i \<in> set (sc_history s)" for i
    proof
      assume eq: "day i = day now"
      from i inv have l: "sc_cap_day s = day (last (sc_history s))" "i \<le> last (sc_history s)" "last (sc_history s) \<le> w_now w t"
        by (auto simp: cap_inv_def split: if_splits)
      then have "day (last (sc_history s)) = day i"
        using assms(4) eq by (intro days_contiguousD [OF assms(3), of i _ now]) simp_all
      with l(1) eq ne show False by simp
    qed
    then show ?thesis by (auto simp: converted_on_def filter_empty_conv)
  qed
  moreover have "sc_converted_today s = converted_on day (day now) s" if "sc_cap_day s = day now"
    using inv that by (auto simp: cap_inv_def converted_on_def split: if_splits)
  ultimately show ?thesis using inv by (auto simp: sched_snapshot_of_def cap_inv_def)
qed

theorem daily_cap_respected_witness:
  "converted_on (\<lambda>t. ''d'') ''d'' (r_sched sample_done) = 2 \<and>
   sn_converted_today (sched_snapshot_of (\<lambda>t. ''d'') sample_config 9 (r_sched sample_done)) = 2"
proof -
  have "runs_to needs_mineru (\<lambda>t. ''d'') sample_world sample_config (snd (new_scheduler [])) (r_t sample_done) (r_sched sample_done)"
    by (rule runs_batch [OF runs_start _ sample_run_value [unfolded sample_run_def]])
      (simp add: try_begin_run_def new_scheduler_def sample_world_def)
  from daily_cap_respected [OF this, of 9 "''d''"]
  have "sn_converted_today (sched_snapshot_of (\<lambda>t. ''d'') sample_config 9 (r_sched sample_done)) =
      converted_on (\<lambda>t. ''d'') ''d'' (r_sched sample_done)"
    by (simp add: sample_world_def mono_def days_contiguous_def sample_done_def)
  moreover have "converted_on (\<lambda>t. ''d'') ''d'' (r_sched sample_done) = 2"
    by (simp add: converted_on_def sample_done_def)
  ultimately show ?thesis by simp
qed

section \<open>The slot\<close>

text \<open>
  The goroutines that may run a batch: the loop of \<open>Start\<close>, waiting for its tick or running, and one per
  accepted \<open>RunNow\<close>.
\<close>

record sched_proc =
  sp_sched :: sched
  sp_waiting :: nat
  sp_ticking :: nat
  sp_manual :: nat

definition batches :: "sched_proc \<Rightarrow> nat" where
  "batches p = sp_ticking p + sp_manual p"

definition start_scheduler :: "sched \<Rightarrow> bool \<times> sched" where
  "start_scheduler s = (if sc_started s then (False, s) else (True, s\<lparr>sc_started := True\<rparr>))"

inductive slot_step :: "sched_proc \<Rightarrow> sched_proc \<Rightarrow> bool" where
  start_loop: "start_scheduler (sp_sched p) = (True, s') \<Longrightarrow> slot_step p (p\<lparr>sp_sched := s', sp_waiting := sp_waiting p + 1\<rparr>)"
| start_again: "start_scheduler (sp_sched p) = (False, s') \<Longrightarrow> slot_step p (p\<lparr>sp_sched := s'\<rparr>)"
| plan_next: "0 < sp_waiting p \<Longrightarrow>
    slot_step p (p\<lparr>sp_sched := (sp_sched p)\<lparr>sc_next_run := Some (nat (int now + until_next_run reset_at cfg now))\<rparr>\<rparr>)"
| tick: "0 < sp_waiting p \<Longrightarrow> try_begin_run now (sp_sched p) = (True, s') \<Longrightarrow>
    slot_step p (p\<lparr>sp_sched := s', sp_waiting := sp_waiting p - 1, sp_ticking := sp_ticking p + 1\<rparr>)"
| tick_skipped: "0 < sp_waiting p \<Longrightarrow> try_begin_run now (sp_sched p) = (False, s') \<Longrightarrow> slot_step p (p\<lparr>sp_sched := s'\<rparr>)"
| tick_batch_ends: "0 < sp_ticking p \<Longrightarrow>
    slot_step p (p\<lparr>sp_sched := finish_run now reason stats (sp_sched p), sp_ticking := sp_ticking p - 1, sp_waiting := sp_waiting p + 1\<rparr>)"
| loop_exits: "0 < sp_waiting p \<Longrightarrow> slot_step p (p\<lparr>sp_waiting := sp_waiting p - 1\<rparr>)"
| manual_started: "run_now ctx_err conv_enabled now (sp_sched p) = ((True, why), s') \<Longrightarrow>
    slot_step p (p\<lparr>sp_sched := s', sp_manual := sp_manual p + 1\<rparr>)"
| manual_refused: "run_now ctx_err conv_enabled now (sp_sched p) = ((False, why), s') \<Longrightarrow> slot_step p (p\<lparr>sp_sched := s'\<rparr>)"
| manual_ends: "0 < sp_manual p \<Longrightarrow>
    slot_step p (p\<lparr>sp_sched := finish_run now reason stats (sp_sched p), sp_manual := sp_manual p - 1\<rparr>)"
| converted: "0 < batches p \<Longrightarrow> slot_step p (p\<lparr>sp_sched := note_converted day now (sp_sched p)\<rparr>)"

definition new_proc :: "sched_option list \<Rightarrow> sched_proc" where
  "new_proc opts = \<lparr>sp_sched = snd (new_scheduler opts), sp_waiting = 0, sp_ticking = 0, sp_manual = 0\<rparr>"

definition slot_inv :: "sched_proc \<Rightarrow> bool" where
  "slot_inv p \<longleftrightarrow> batches p = (if sc_running (sp_sched p) then 1 else 0) \<and>
     sp_waiting p + sp_ticking p \<le> (if sc_started (sp_sched p) then 1 else 0)"

inductive_cases slot_stepE: "slot_step p p'"

lemma slot_step_inv: "slot_step p p' \<Longrightarrow> slot_inv p \<Longrightarrow> slot_inv p'"
  by (erule slot_stepE)
    (auto simp: slot_inv_def batches_def start_scheduler_def try_begin_run_def finish_run_def run_now_def note_converted_def
       Let_def split: if_splits prod.splits bool.splits)

lemma slot_reach_inv: "slot_step\<^sup>*\<^sup>* (new_proc opts) p \<Longrightarrow> slot_inv p"
proof (induction rule: rtranclp_induct)
  case base
  show ?case by (simp add: slot_inv_def new_proc_def batches_def new_scheduler_def)
qed (rule slot_step_inv)

text \<open>The endpoints of the administrator.\<close>

datatype mineru_answer = Unavailable_503 string | Run_Answer bool string sched_snapshot | Status_Answer sched_snapshot

definition mineru_off_detail :: string where
  "mineru_off_detail = ''mineru scheduler not configured (QATLAS_PAPER_ACCESS_ENABLED=false)''"

text \<open>
  \<open>RunNow\<close> and \<open>Snapshot\<close> take the mutex one after the other; \<open>others\<close> is what the loop and the batches do to the scheduler in
  between.
\<close>

definition mineru_run_handler :: "(instant \<Rightarrow> string) \<Rightarrow> sched_config \<Rightarrow> bool \<Rightarrow> bool \<Rightarrow> instant \<Rightarrow> instant \<Rightarrow> (sched \<Rightarrow> sched) \<Rightarrow>
    sched option \<Rightarrow> mineru_answer \<times> sched option" where
  "mineru_run_handler day cfg ctx_err conv_enabled now later others so =
     (case so of
        None \<Rightarrow> (Unavailable_503 mineru_off_detail, None)
      | Some s \<Rightarrow>
          (case run_now ctx_err conv_enabled now s of
             ((started, why), s') \<Rightarrow>
               (Run_Answer started why (sched_snapshot_of day cfg later (others s')), Some (others s'))))"

definition mineru_status_handler :: "(instant \<Rightarrow> string) \<Rightarrow> sched_config \<Rightarrow> instant \<Rightarrow> sched option \<Rightarrow> mineru_answer" where
  "mineru_status_handler day cfg now so =
     (case so of None \<Rightarrow> Unavailable_503 mineru_off_detail | Some s \<Rightarrow> Status_Answer (sched_snapshot_of day cfg now s))"

text \<open>The process once \<open>RunNow\<close> has released the mutex, its batch launched when it accepts.\<close>

definition requested :: "bool \<Rightarrow> bool \<Rightarrow> instant \<Rightarrow> sched_proc \<Rightarrow> sched_proc" where
  "requested ctx_err conv_enabled now p =
     (case run_now ctx_err conv_enabled now (sp_sched p) of
        ((started, why), s') \<Rightarrow> p\<lparr>sp_sched := s', sp_manual := sp_manual p + (if started then 1 else 0)\<rparr>)"

lemma requested_step: "slot_step p (requested ctx_err conv_enabled now p)"
proof -
  obtain started why s' where eq: "run_now ctx_err conv_enabled now (sp_sched p) = ((started, why), s')"
    by (metis prod.exhaust)
  then show ?thesis
    by (cases started) (use manual_started [of ctx_err conv_enabled now p why s'] manual_refused [of ctx_err conv_enabled now p why s'] in
        \<open>simp_all add: requested_def\<close>)
qed

text \<open>C3: Batches never overlap. Whatever ticks, manual requests and ends of batches happen, at most one batch runs
  and at most one loop lives. The run endpoint starts a batch exactly when the request is alive, the converter is
  enabled and no batch runs at its request, says why when it does not, and leaves a running batch alone. Its snapshot
  is that of a state the scheduler passes through after the request, and says that a batch runs exactly when one
  does in that state, whatever has ended or begun in between.\<close>

theorem batches_exclusive:
  assumes "slot_step\<^sup>*\<^sup>* (new_proc opts) p" and "slot_step\<^sup>*\<^sup>* (requested ctx_err conv_enabled now p) q"
    and "others (sp_sched (requested ctx_err conv_enabled now p)) = sp_sched q"
  shows "batches p \<le> 1 \<and> sp_waiting p + sp_ticking p \<le> 1 \<and> batches q \<le> 1 \<and>
    batches (requested ctx_err conv_enabled now p) = (if batches p = 1 \<or> \<not> ctx_err \<and> conv_enabled then 1 else 0) \<and>
    (batches p = 1 \<longrightarrow> requested ctx_err conv_enabled now p = p) \<and>
    (\<exists>snap. mineru_run_handler day cfg ctx_err conv_enabled now later others (Some (sp_sched p)) =
      (Run_Answer (\<not> ctx_err \<and> conv_enabled \<and> batches p = 0)
         (if ctx_err then ''context_cancelled'' else if \<not> conv_enabled then ''converter_disabled''
          else if batches p = 0 then ''started'' else ''already_running'') snap, Some (sp_sched q)) \<and>
      snap = sched_snapshot_of day cfg later (sp_sched q) \<and> (sn_running snap \<longleftrightarrow> batches q = 1))"
proof -
  from slot_reach_inv [OF assms(1)] have p: "batches p = (if sc_running (sp_sched p) then 1 else 0)"
    "sp_waiting p + sp_ticking p \<le> (if sc_started (sp_sched p) then 1 else 0)" by (simp_all add: slot_inv_def)
  have "slot_step\<^sup>*\<^sup>* (new_proc opts) q"
    using assms(1) requested_step assms(2) by (meson rtranclp.rtrancl_into_rtrancl rtranclp_trans)
  from slot_reach_inv [OF this] have q: "batches q = (if sc_running (sp_sched q) then 1 else 0)" by (simp add: slot_inv_def)
  have "batches (requested ctx_err conv_enabled now p) = (if batches p = 1 \<or> \<not> ctx_err \<and> conv_enabled then 1 else 0) \<and>
    (batches p = 1 \<longrightarrow> requested ctx_err conv_enabled now p = p)"
    using p(1) by (cases "sc_running (sp_sched p)") (auto simp: requested_def run_now_def try_begin_run_def batches_def)
  moreover have "mineru_run_handler day cfg ctx_err conv_enabled now later others (Some (sp_sched p)) =
      (Run_Answer (\<not> ctx_err \<and> conv_enabled \<and> batches p = 0)
         (if ctx_err then ''context_cancelled'' else if \<not> conv_enabled then ''converter_disabled''
          else if batches p = 0 then ''started'' else ''already_running'')
         (sched_snapshot_of day cfg later (sp_sched q)), Some (sp_sched q))"
    using assms(3) p(1) by (auto simp: mineru_run_handler_def requested_def run_now_def try_begin_run_def split: if_splits)
  ultimately show ?thesis using p q by (auto simp: sched_snapshot_of_def split: if_splits)
qed

text \<open>A request is accepted, and its batch ends before the snapshot is taken.\<close>

theorem batches_exclusive_witness:
  "\<exists>s'. fst (mineru_run_handler (\<lambda>t. ''d'') sample_config False True 3 6 (\<lambda>_. s') (Some (sp_sched (new_proc [])))) =
      Run_Answer True ''started'' (sched_snapshot_of (\<lambda>t. ''d'') sample_config 6 s') \<and>
     \<not> sn_running (sched_snapshot_of (\<lambda>t. ''d'') sample_config 6 s')"
proof -
  let ?p = "new_proc []"
  let ?r = "requested False True 3 ?p"
  let ?q = "?r\<lparr>sp_sched := finish_run 5 Queue_Empty no_stats (sp_sched ?r), sp_manual := sp_manual ?r - 1\<rparr>"
  have one: "sp_manual ?r = 1" "batches ?p = 0" "batches ?q = 0"
    by (simp_all add: requested_def run_now_def try_begin_run_def new_proc_def new_scheduler_def batches_def)
  have "slot_step\<^sup>*\<^sup>* ?r ?q" by (intro r_into_rtranclp manual_ends) (simp add: one(1))
  with one(3) obtain q where q: "slot_step\<^sup>*\<^sup>* ?r q" "batches q = 0" by blast
  from batches_exclusive [OF rtranclp.rtrancl_refl this(1), of "\<lambda>_. sp_sched q" "\<lambda>t. ''d''" sample_config 6, OF refl]
  have "fst (mineru_run_handler (\<lambda>t. ''d'') sample_config False True 3 6 (\<lambda>_. sp_sched q) (Some (sp_sched ?p))) =
      Run_Answer True ''started'' (sched_snapshot_of (\<lambda>t. ''d'') sample_config 6 (sp_sched q))"
    "\<not> sn_running (sched_snapshot_of (\<lambda>t. ''d'') sample_config 6 (sp_sched q))"
    using q(2) one(2) by auto
  then show ?thesis by blast
qed

end
