(* ===== verification/Asset_Keys.thy ===== *)
theory Asset_Keys
  imports Prelude
begin

text \<open>
  The identities of papers as strings and the object keys made of them: arXiv ids
  (\<open>internal/paperassets/path.go\<close>, \<open>parse.go\<close>), DOIs (\<open>doi.go\<close>), the two layouts of the object store
  (\<open>dual_read.go\<close>) and the way back from a key to an identity (\<open>stemFromKey\<close> in
  \<open>internal/registry/sync.go\<close>). The regular expressions are written out as functions; their
  alternatives never overlap, so one pass from the left decides them.
\<close>

section \<open>Strings and paths\<close>

fun split_on :: "char \<Rightarrow> string \<Rightarrow> string list" where
  "split_on c [] = [[]]"
| "split_on c (x # s) =
     (if x = c then [] # split_on c s
      else case split_on c s of p # ps \<Rightarrow> (x # p) # ps | [] \<Rightarrow> [[x]])"

definition trim_suffix :: "string \<Rightarrow> string \<Rightarrow> string" where
  "trim_suffix s suf = (if suffix suf s then take (length s - length suf) s else s)"

text \<open>\<open>path.Ext\<close>: from the last dot of the last element.\<close>

definition path_ext :: "string \<Rightarrow> string" where
  "path_ext s =
     (let tail = takeWhile (\<lambda>c. c \<noteq> CHR ''.'' \<and> c \<noteq> CHR ''/'') (rev s) in
      case drop (length tail) (rev s) of
        [] \<Rightarrow> []
      | c # _ \<Rightarrow> if c = CHR ''.'' then CHR ''.'' # rev tail else [])"

text \<open>The digits at the end of a string, when the given letter stands before them.\<close>

definition split_version :: "(char \<Rightarrow> bool) \<Rightarrow> string \<Rightarrow> (string \<times> string) option" where
  "split_version letter s =
     (let ds = rev (takeWhile is_digit (rev s));
          pre = take (length s - length ds) s
      in if ds \<noteq> [] \<and> pre \<noteq> [] \<and> letter (last pre) then Some (butlast pre, ds) else None)"

section \<open>Loose helpers\<close>

definition normalize_identifier :: "string \<Rightarrow> string" where
  "normalize_identifier v =
     (let s = trim_space v in
      if map ascii_lower (take 6 s) = ''arxiv:'' then dropWhile re_space (drop 6 s) else s)"

definition strip_version :: "string \<Rightarrow> string" where
  "strip_version v =
     (let s = normalize_identifier v in
      case split_version (\<lambda>c. c = CHR ''v'' \<or> c = CHR ''V'') s of Some (b, ds) \<Rightarrow> b | None \<Rightarrow> s)"

definition safe_key :: "string \<Rightarrow> string" where
  "safe_key v = replace_all ''/'' ''__'' (normalize_identifier v)"

text \<open>\<open>(?i)^\d{7}(?:v\d+)?$\<close>\<close>

definition old_style_id :: "string \<Rightarrow> bool" where
  "old_style_id s \<longleftrightarrow> 7 \<le> length s \<and> list_all is_digit (take 7 s) \<and>
     (case drop 7 s of
        [] \<Rightarrow> True
      | c # ds \<Rightarrow> (c = CHR ''v'' \<or> c = CHR ''V'') \<and> ds \<noteq> [] \<and> list_all is_digit ds)"

definition storage_key :: "string \<Rightarrow> string" where
  "storage_key v =
     (let canonical = normalize_identifier v in
      case index_byte CHR ''/'' canonical of
        Some i \<Rightarrow> if old_style_id (drop (i + 1) canonical) then drop (i + 1) canonical else safe_key canonical
      | None \<Rightarrow> safe_key canonical)"

definition shard :: "string \<Rightarrow> string" where
  "shard key = (if 4 \<le> length key \<and> list_all is_digit (take 4 key) then take 4 key else [])"

definition wiki_source_page_id :: "string \<Rightarrow> string" where
  "wiki_source_page_id v = ''paper-arxiv-'' @ replace_all ''/'' ''-'' (normalize_identifier v)"

section \<open>Parsed arXiv ids\<close>

record parsed_id =
  pi_raw :: string
  pi_canonical :: string
  pi_category :: string
  pi_stem :: string
  pi_stem_base :: string
  pi_version :: string
  pi_yymm :: string
  pi_old_style :: bool
  pi_bare :: bool

datatype id_error = Empty_Id | Unrecognized_Id string

text \<open>\<open>(v\d+)?$\<close>\<close>

definition match_version :: "string \<Rightarrow> string option" where
  "match_version s =
     (case s of
        [] \<Rightarrow> Some []
      | c # ds \<Rightarrow> if c = CHR ''v'' \<and> ds \<noteq> [] \<and> list_all is_digit ds then Some s else None)"

definition match_new_style :: "string \<Rightarrow> (string \<times> string \<times> string) option" where
  "match_new_style s =
     (if 4 \<le> length s \<and> list_all is_digit (take 4 s) \<and> take 1 (drop 4 s) = ''.''
      then (let r = drop 5 s; sq = takeWhile is_digit r in
            if 4 \<le> length sq \<and> length sq \<le> 6
            then map_option (\<lambda>v. (take 4 s, sq, v)) (match_version (drop (length sq) r))
            else None)
      else None)"

definition match_old_stem :: "string \<Rightarrow> (string \<times> string \<times> string) option" where
  "match_old_stem s =
     (if 7 \<le> length s \<and> list_all is_digit (take 7 s)
      then map_option (\<lambda>v. (take 4 s, take 3 (drop 4 s), v)) (match_version (drop 7 s))
      else None)"

text \<open>\<open>[a-z][a-z\-]*(?:\.[A-Za-z][A-Za-z\-]*)?\<close>\<close>

definition category_ok :: "string \<Rightarrow> bool" where
  "category_ok s =
     (let main = takeWhile (\<lambda>c. c \<noteq> CHR ''.'') s; rest = drop (length main) s in
      main \<noteq> [] \<and> is_lower (hd main) \<and> list_all (\<lambda>c. is_lower c \<or> c = CHR ''-'') (tl main) \<and>
      (case rest of
         [] \<Rightarrow> True
       | _ # sub \<Rightarrow> sub \<noteq> [] \<and> is_alpha (hd sub) \<and> list_all (\<lambda>c. is_alpha c \<or> c = CHR ''-'') (tl sub)))"

definition match_old_full :: "string \<Rightarrow> (string \<times> string \<times> string \<times> string) option" where
  "match_old_full s =
     (case index_byte CHR ''/'' s of
        None \<Rightarrow> None
      | Some i \<Rightarrow>
          if category_ok (take i s)
          then map_option (\<lambda>m. (take i s, m)) (match_old_stem (drop (i + 1) s)) else None)"

definition lower_version :: "string \<Rightarrow> string" where
  "lower_version s = (case split_version (\<lambda>c. c = CHR ''V'') s of Some (b, ds) \<Rightarrow> b @ ''v'' @ ds | None \<Rightarrow> s)"

definition parse :: "string \<Rightarrow> id_error + parsed_id" where
  "parse input =
     (let raw0 = normalize_identifier input in
      if raw0 = [] then Inl Empty_Id
      else
        (let raw = lower_version raw0 in
         case match_new_style raw of
           Some (yymm, sq, v) \<Rightarrow>
             (let base = yymm @ ''.'' @ sq; ver = map ascii_lower v in
              Inr \<lparr>pi_raw = raw, pi_canonical = base @ ver, pi_category = [], pi_stem = base @ ver,
                   pi_stem_base = base, pi_version = ver, pi_yymm = yymm, pi_old_style = False, pi_bare = False\<rparr>)
         | None \<Rightarrow>
             (case match_old_full raw of
                Some (cat, yymm, sq, v) \<Rightarrow>
                  (let base = yymm @ sq; ver = map ascii_lower v in
                   Inr \<lparr>pi_raw = raw, pi_canonical = cat @ ''/'' @ base @ ver, pi_category = cat, pi_stem = base @ ver,
                        pi_stem_base = base, pi_version = ver, pi_yymm = yymm, pi_old_style = True, pi_bare = False\<rparr>)
              | None \<Rightarrow>
                  (case match_old_stem raw of
                     Some (yymm, sq, v) \<Rightarrow>
                       (let base = yymm @ sq; ver = map ascii_lower v in
                        Inr \<lparr>pi_raw = raw, pi_canonical = base @ ver, pi_category = [], pi_stem = base @ ver,
                             pi_stem_base = base, pi_version = ver, pi_yymm = yymm, pi_old_style = True, pi_bare = True\<rparr>)
                   | None \<Rightarrow> Inl (Unrecognized_Id input)))))"

definition id_valid :: "parsed_id \<Rightarrow> bool" where
  "id_valid p \<longleftrightarrow> pi_stem p \<noteq> [] \<and> pi_yymm p \<noteq> []"

definition validate_upload_id :: "string \<Rightarrow> string option" where
  "validate_upload_id v =
     (let s = normalize_identifier v;
          versioned = (\<lambda>m. case m of Some w \<Rightarrow> w \<noteq> [] | None \<Rightarrow> False)
      in if versioned (map_option (\<lambda>(y, q, w). w) (match_new_style s)) \<or>
            versioned (map_option (\<lambda>(c, y, q, w). w) (match_old_full s)) \<or>
            versioned (map_option (\<lambda>(y, q, w). w) (match_old_stem s))
         then Some s else None)"

definition arxiv_version_of :: "string \<Rightarrow> int" where
  "arxiv_version_of v =
     (case parse v of
        Inl e \<Rightarrow> 0
      | Inr p \<Rightarrow>
          if pi_version p = [] then 0
          else (case atoi (trim_prefix ''v'' (pi_version p)) of Some n \<Rightarrow> n | None \<Rightarrow> 0))"

section \<open>Object keys\<close>

definition asset_ext :: "string \<Rightarrow> string" where
  "asset_ext kind =
     (if kind = ''pdf'' then ''.pdf'' else if kind = ''markdown'' then ''.md''
      else if kind = ''json'' then ''.json'' else if kind = ''images'' then ''.zip'' else [])"

definition default_old_style_category :: string where
  "default_old_style_category = ''quant-ph''"

definition asset_key_for :: "string \<Rightarrow> parsed_id \<Rightarrow> string" where
  "asset_key_for kind p =
     (if asset_ext kind = [] \<or> \<not> id_valid p then []
      else if pi_old_style p
      then kind @ ''/'' @ pi_yymm p @ ''/'' @ (if pi_bare p then default_old_style_category else pi_category p) @ ''/'' @
           pi_stem p @ asset_ext kind
      else kind @ ''/'' @ pi_yymm p @ ''/'' @ pi_stem p @ asset_ext kind)"

definition legacy_asset_key_for :: "string \<Rightarrow> parsed_id \<Rightarrow> string" where
  "legacy_asset_key_for kind p =
     (if \<not> pi_old_style p then []
      else if asset_ext kind = [] \<or> \<not> id_valid p then []
      else kind @ ''/'' @ pi_yymm p @ ''/'' @ pi_stem p @ asset_ext kind)"

definition asset_key :: "string \<Rightarrow> string \<Rightarrow> string" where
  "asset_key kind v =
     (case parse v of
        Inr p \<Rightarrow> asset_key_for kind p
      | Inl e \<Rightarrow>
          if asset_ext kind = [] then []
          else if safe_key v = [] then [] else kind @ ''/'' @ safe_key v @ asset_ext kind)"

text \<open>
  \<open>LocateAsset\<close>: the key, what the store says about it, whether it exists, or the error of a probe with
  the key probed; \<open>stat\<close> is the store. The second component of the pair is the hit counter.
\<close>

datatype 'i located = Located string 'i | Absent string | Stat_Failed string string

definition locate_asset :: "(string \<Rightarrow> string + 'i option) \<Rightarrow> string \<Rightarrow> parsed_id \<Rightarrow> (string \<Rightarrow> nat) \<Rightarrow> 'i located \<times> (string \<Rightarrow> nat)" where
  "locate_asset stat kind p hits =
     (let new = asset_key_for kind p in
      if new = [] then (Absent [], hits)
      else case stat new of
        Inl e \<Rightarrow> (Stat_Failed new e, hits)
      | Inr (Some i) \<Rightarrow> (Located new i, hits)
      | Inr None \<Rightarrow>
          (let old = legacy_asset_key_for kind p in
           if old = [] then (Absent new, hits)
           else case stat old of
             Inl e \<Rightarrow> (Stat_Failed old e, hits)
           | Inr (Some i) \<Rightarrow> (Located old i, hits(kind := hits kind + 1))
           | Inr None \<Rightarrow> (Absent new, hits)))"

definition locate_asset_by_id :: "(string \<Rightarrow> string + 'i option) \<Rightarrow> string \<Rightarrow> string \<Rightarrow> (string \<Rightarrow> nat) \<Rightarrow> 'i located \<times> (string \<Rightarrow> nat)" where
  "locate_asset_by_id stat kind v hits =
     (case parse v of Inl e \<Rightarrow> (Absent [], hits) | Inr p \<Rightarrow> locate_asset stat kind p hits)"

section \<open>DOIs\<close>

definition max_doi_len :: nat where
  "max_doi_len = 256"

definition doi_url_prefixes :: "string list" where
  "doi_url_prefixes =
     [''https://doi.org/'', ''http://doi.org/'', ''https://dx.doi.org/'', ''http://dx.doi.org/'', ''doi.org/'',
      ''dx.doi.org/'', ''doi:'']"

definition normalize_doi :: "(string \<Rightarrow> string) \<Rightarrow> string \<Rightarrow> string" where
  "normalize_doi ul v =
     (let s = to_lower ul (trim_space v) in
      trim_space (case find (\<lambda>p. prefix p s) doi_url_prefixes of Some p \<Rightarrow> trim_prefix p s | None \<Rightarrow> s))"

text \<open>\<open>^10\.\d{4,9}/\S+$\<close>; the suffix is a run of characters that are no ASCII white space.\<close>

definition doi_shape :: "string \<Rightarrow> bool" where
  "doi_shape s \<longleftrightarrow> prefix ''10.'' s \<and>
     (let r = drop 3 s; reg = takeWhile is_digit r; rest = drop (length reg) r in
      4 \<le> length reg \<and> length reg \<le> 9 \<and>
      (case rest of [] \<Rightarrow> False | c # suf \<Rightarrow> c = CHR ''/'' \<and> suf \<noteq> [] \<and> list_all (\<lambda>c. \<not> re_space c) suf))"

definition doi_suffix :: "string \<Rightarrow> string" where
  "doi_suffix doi = (case index_byte CHR ''/'' doi of Some i \<Rightarrow> drop (i + 1) doi | None \<Rightarrow> doi)"

definition doi_registrant :: "string \<Rightarrow> string" where
  "doi_registrant doi = (case index_byte CHR ''/'' doi of Some i \<Rightarrow> take i doi | None \<Rightarrow> doi)"

definition plain_byte :: "char \<Rightarrow> bool" where
  "plain_byte c \<longleftrightarrow> 32 \<le> (of_char c :: nat) \<and> (of_char c :: nat) < 127"

definition validate_doi :: "(string \<Rightarrow> string) \<Rightarrow> string \<Rightarrow> string option" where
  "validate_doi ul v =
     (let norm = normalize_doi ul v in
      if norm = [] \<or> max_doi_len < length norm then None
      else if \<not> doi_shape norm then None
      else if CHR ''/'' \<in> set norm \<and> contains (doi_suffix norm) ''__'' then None
      else if \<not> list_all plain_byte norm then None
      else Some norm)"

definition doi_safe_stem :: "string \<Rightarrow> string" where
  "doi_safe_stem doi = replace_all ''/'' ''__'' (doi_suffix doi)"

definition doi_decode_stem :: "string \<Rightarrow> string" where
  "doi_decode_stem s = replace_all ''__'' ''/'' s"

definition doi_asset_key :: "(string \<Rightarrow> string) \<Rightarrow> string \<Rightarrow> string \<Rightarrow> string" where
  "doi_asset_key ul kind doi =
     (if asset_ext kind = [] then []
      else case validate_doi ul doi of
        None \<Rightarrow> []
      | Some norm \<Rightarrow> kind @ ''/doi/'' @ doi_registrant norm @ ''/'' @ doi_safe_stem norm @ asset_ext kind)"

section \<open>Back from a key\<close>

text \<open>\<open>stemFromKey\<close>: the stem and whether it is a DOI.\<close>

definition stem_from_key :: "string \<Rightarrow> string \<Rightarrow> (string \<times> bool) option" where
  "stem_from_key key kind =
     (case split_on CHR ''/'' key of
        [k, a, b, c] \<Rightarrow>
          (if a = ''doi'' \<and> k = kind
           then (let s = b @ ''/'' @ doi_decode_stem (trim_suffix c (path_ext c)) in Some (s, True))
           else if k = kind
           then (let s = trim_suffix c (path_ext c) in if s = [] then None else Some (b @ ''/'' @ s, False))
           else None)
      | [k, a, b] \<Rightarrow>
          (if k \<noteq> kind then None
           else (let s = trim_suffix b (path_ext b) in if s = [] then None else Some (s, False)))
      | _ \<Rightarrow> None)"

section \<open>Lemmas on splitting\<close>

lemma split_on_nonempty [simp]: "split_on c s \<noteq> []"
  by (induction s) (auto split: list.split)

lemma split_on_free: "c \<notin> set s \<Longrightarrow> split_on c s = [s]"
  by (induction s) auto

lemma split_on_append: "c \<notin> set p \<Longrightarrow> split_on c (p @ c # r) = p # split_on c r"
  by (induction p) auto

lemma trim_suffix_append [simp]: "trim_suffix (s @ e) e = s"
  by (simp add: trim_suffix_def suffix_def)

lemma path_ext_append:
  assumes "CHR ''.'' \<notin> set e" "CHR ''/'' \<notin> set e"
  shows "path_ext (s @ CHR ''.'' # e) = CHR ''.'' # e"
proof -
  have "takeWhile (\<lambda>c. c \<noteq> CHR ''.'' \<and> c \<noteq> CHR ''/'') (rev e @ CHR ''.'' # rev s) = rev e"
    using assms by (subst takeWhile_append2) auto
  then show ?thesis by (simp add: path_ext_def Let_def)
qed

lemma digit_chars [simp]:
  "is_digit c \<Longrightarrow> c \<noteq> CHR ''v''" "is_digit c \<Longrightarrow> c \<noteq> CHR ''V''" "is_digit c \<Longrightarrow> c \<noteq> CHR ''.''" "is_digit c \<Longrightarrow> c \<noteq> CHR ''/''"
  by (auto simp: is_digit_def)

lemma split_version_digits:
  assumes "list_all is_digit ds" and "ds \<noteq> []" and "\<not> is_digit c"
  shows "split_version letter (p @ c # ds) = (if letter c then Some (p, ds) else None)"
proof -
  have "takeWhile is_digit (rev ds @ c # rev p) = rev ds"
    using assms by (subst takeWhile_append2) (auto simp: list_all_iff)
  then show ?thesis using assms(2) by (simp add: split_version_def Let_def)
qed

lemma split_version_all:
  "list_all is_digit ds \<Longrightarrow> split_version letter ds = None"
  by (simp add: split_version_def Let_def list_all_iff takeWhile_eq_all_conv [THEN iffD2])

lemma index_byte_first: "c \<notin> set p \<Longrightarrow> index_byte c (p @ c # r) = Some (length p)"
  by (induction p) auto

section \<open>Characters of an id\<close>

definition id_char :: "char \<Rightarrow> bool" where
  "id_char c \<longleftrightarrow> is_digit c \<or> is_alpha c \<or> c = CHR ''.'' \<or> c = CHR ''/'' \<or> c = CHR ''-''"

lemma space_seqs_heads: "\<forall>q\<in>set space_seqs. q \<noteq> [] \<and> \<not> id_char (hd q) \<and> \<not> id_char (last q)"
  by code_simp

lemma drop_seqs_id_chars:
  assumes "list_all id_char s" and "\<forall>q\<in>set qs. \<not> id_char (hd q)"
  shows "drop_seqs qs s = s"
proof (rule drop_seqs_id)
  fix q assume q: "q \<in> set qs" "q \<noteq> []"
  show "\<not> prefix q s"
  proof
    assume "prefix q s"
    with q(2) have "hd q \<in> set s" by (cases q) (auto simp: prefix_def)
    with assms q(1) show False by (auto simp: list_all_iff)
  qed
qed

lemma trim_space_id_chars: "list_all id_char s \<Longrightarrow> trim_space s = s"
proof -
  assume s: "list_all id_char s"
  have "drop_seqs space_seqs s = s" using s space_seqs_heads by (intro drop_seqs_id_chars) auto
  moreover have "drop_seqs (map rev space_seqs) (rev s) = rev s"
    using s space_seqs_heads by (intro drop_seqs_id_chars) (auto simp: hd_rev list_all_iff)
  ultimately show ?thesis by (simp add: trim_space_def)
qed

lemma lower_not_colon: "ascii_lower c = CHR '':'' \<Longrightarrow> \<not> id_char c"
proof (cases "is_upper c")
  case True
  have "\<forall>c\<in>set ''ABCDEFGHIJKLMNOPQRSTUVWXYZ''. ascii_lower c \<noteq> CHR '':''" by code_simp
  with True have "ascii_lower c \<noteq> CHR '':''" unfolding is_upper_def by blast
  then show "ascii_lower c = CHR '':'' \<Longrightarrow> \<not> id_char c" by blast
next
  case False
  then have "ascii_lower c = c" by (simp add: ascii_lower_def)
  moreover have "\<not> id_char CHR '':''" by code_simp
  ultimately show "ascii_lower c = CHR '':'' \<Longrightarrow> \<not> id_char c" by metis
qed

lemma normalize_id_chars:
  assumes "list_all id_char s"
  shows "normalize_identifier s = s"
proof -
  have "map ascii_lower (take 6 s) \<noteq> ''arxiv:''"
  proof
    assume eq: "map ascii_lower (take 6 s) = ''arxiv:''"
    have "length (map ascii_lower (take 6 s)) = length ''arxiv:''" by (simp only: eq)
    then have len: "6 \<le> length s" by simp
    have "ascii_lower (s ! 5) = CHR '':''" using arg_cong [OF eq, of "\<lambda>l. l ! 5"] len by simp
    then have "\<not> id_char (s ! 5)" by (rule lower_not_colon)
    moreover have "s ! 5 \<in> set s" using len by simp
    ultimately show False using assms unfolding list_all_iff by blast
  qed
  with trim_space_id_chars [OF assms] show ?thesis by (simp add: normalize_identifier_def)
qed

section \<open>The grammar\<close>

lemma match_version_iff:
  "match_version s = Some v \<longleftrightarrow> v = s \<and> (s = [] \<or> (\<exists>ds. s = CHR ''v'' # ds \<and> ds \<noteq> [] \<and> list_all is_digit ds))"
  by (cases s) (auto simp: match_version_def)

lemma takeWhile_version: "list_all is_digit q \<Longrightarrow> match_version v = Some w \<Longrightarrow> takeWhile is_digit (q @ v) = q"
proof (cases v)
  case (Cons x xs)
  assume "list_all is_digit q" "match_version v = Some w"
  moreover have "\<not> is_digit CHR ''v''" by code_simp
  ultimately show ?thesis using Cons by (subst takeWhile_append2) (auto simp: list_all_iff match_version_def split: if_splits)
qed (simp add: list_all_iff takeWhile_eq_all_conv [THEN iffD2])

lemma split_four: "4 \<le> length s \<Longrightarrow> take 1 (drop 4 s) = [c] \<Longrightarrow> s = take 4 s @ c # drop 5 s"
proof -
  assume l: "4 \<le> length s" and c: "take 1 (drop 4 s) = [c]"
  then obtain r where r: "drop 4 s = c # r" by (cases "drop 4 s") auto
  then have "drop 5 s = r" using drop_drop [of 1 4 s] by simp
  with r append_take_drop_id [of 4 s] show ?thesis by metis
qed

lemma match_new_style_iff:
  "match_new_style s = Some (y, q, v) \<longleftrightarrow> s = y @ CHR ''.'' # q @ v \<and> length y = 4 \<and> list_all is_digit y \<and>
     4 \<le> length q \<and> length q \<le> 6 \<and> list_all is_digit q \<and> match_version v = Some v" (is "?l = ?r")
proof
  assume ?l
  then have a: "4 \<le> length s" "list_all is_digit (take 4 s)" "take 1 (drop 4 s) = ''.''"
    "q = takeWhile is_digit (drop 5 s)" "4 \<le> length q" "length q \<le> 6" "y = take 4 s"
    "match_version (drop (length q) (drop 5 s)) = Some v"
    by (auto simp: match_new_style_def Let_def split: if_splits)
  from split_four [OF a(1) a(3)] have s: "s = y @ CHR ''.'' # drop 5 s" using a(7) by simp
  have v: "v = drop (length q) (drop 5 s)" "match_version v = Some v" using a(8) by (auto simp: match_version_iff)
  have "drop 5 s = q @ v" unfolding v(1) a(4)
    using takeWhile_dropWhile_id [of is_digit "drop 5 s"] by (simp only: dropWhile_eq_drop)
  with s have "s = y @ CHR ''.'' # q @ v" by simp
  moreover have "list_all is_digit q" unfolding a(4) list_all_iff by (blast dest: set_takeWhileD)
  moreover have "length y = 4" using a(1,7) by simp
  ultimately show ?r using a(2,5,6,7) v(2) by simp
next
  assume r: ?r
  then have "takeWhile is_digit (q @ v) = q" using takeWhile_version by blast
  with r show ?l by (simp add: match_new_style_def)
qed

lemma match_old_stem_iff:
  "match_old_stem s = Some (y, q, v) \<longleftrightarrow> s = y @ q @ v \<and> length y = 4 \<and> length q = 3 \<and> list_all is_digit y \<and>
     list_all is_digit q \<and> match_version v = Some v" (is "?l = ?r")
proof
  assume ?l
  then have a: "7 \<le> length s" "list_all is_digit (take 7 s)" "y = take 4 s" "q = take 3 (drop 4 s)" "match_version (drop 7 s) = Some v"
    by (auto simp: match_old_stem_def split: if_splits)
  have yq: "take 7 s = y @ q" using a(3,4) take_add [of 4 3 s] by simp
  have v: "v = drop 7 s" "match_version v = Some v" using a(5) by (auto simp: match_version_iff)
  have "s = (y @ q) @ v" using append_take_drop_id [of 7 s] by (simp only: yq v(1))
  moreover have "length y = 4" "length q = 3" using a(1,3,4) by simp_all
  moreover have "list_all is_digit (y @ q)" using a(2) unfolding yq .
  ultimately show ?r using v(2) by simp
next
  assume r: ?r
  then have "take 7 s = y @ q" "drop 7 s = v" "take 4 s = y" "take 3 (drop 4 s) = q" "7 \<le> length s" by simp_all
  with r show ?l by (simp add: match_old_stem_def)
qed

lemma category_chars:
  assumes "category_ok c"
  shows "c \<noteq> []" "is_lower (hd c)" "list_all (\<lambda>x. is_alpha x \<or> x = CHR ''-'' \<or> x = CHR ''.'') c"
proof -
  let ?m = "takeWhile (\<lambda>x. x \<noteq> CHR ''.'') c" let ?r = "drop (length ?m) c"
  from assms have m: "?m \<noteq> []" "is_lower (hd ?m)" "list_all (\<lambda>x. is_lower x \<or> x = CHR ''-'') (tl ?m)"
    and r: "case ?r of [] \<Rightarrow> True | _ # sub \<Rightarrow> sub \<noteq> [] \<and> is_alpha (hd sub) \<and> list_all (\<lambda>x. is_alpha x \<or> x = CHR ''-'') (tl sub)"
    by (simp_all add: category_ok_def Let_def)
  have c: "c = ?m @ ?r" by (simp add: dropWhile_eq_drop [symmetric])
  show "c \<noteq> []" using m(1) by auto
  show "is_lower (hd c)" using m(1,2) c by (metis hd_append2)
  have pm: "list_all (\<lambda>x. is_alpha x \<or> x = CHR ''-'' \<or> x = CHR ''.'') ?m"
    using m by (cases ?m) (auto simp: list_all_iff is_alpha_def)
  have pr: "list_all (\<lambda>x. is_alpha x \<or> x = CHR ''-'' \<or> x = CHR ''.'') ?r"
  proof (cases ?r)
    case (Cons d sub)
    then have "dropWhile (\<lambda>x. x \<noteq> CHR ''.'') c = d # sub" by (simp add: dropWhile_eq_drop)
    with hd_dropWhile [of "\<lambda>x. x \<noteq> CHR ''.''" c] have "d = CHR ''.''" by simp
    with Cons r show ?thesis by (cases sub) (auto simp: list_all_iff)
  qed simp
  show "list_all (\<lambda>x. is_alpha x \<or> x = CHR ''-'' \<or> x = CHR ''.'') c"
    using pm pr c by (metis list_all_append)
qed

lemma alpha_not_slash: "\<not> is_alpha CHR ''/''" "\<not> is_lower CHR ''/''" by code_simp+

lemma category_no_slash: "category_ok c \<Longrightarrow> CHR ''/'' \<notin> set c"
  using category_chars(3) [of c] alpha_not_slash by (auto simp: list_all_iff)

lemma index_byte_Some_iff: "index_byte c s = Some i \<longleftrightarrow> (\<exists>p r. s = p @ c # r \<and> c \<notin> set p \<and> length p = i)"
proof
  assume "index_byte c s = Some i"
  then show "\<exists>p r. s = p @ c # r \<and> c \<notin> set p \<and> length p = i"
  proof (induction s arbitrary: i)
    case (Cons x s)
    show ?case
    proof (cases "x = c")
      case True
      with Cons.prems show ?thesis by (intro exI [of _ "[]"] exI [of _ s]) auto
    next
      case False
      with Cons.prems obtain j where j: "index_byte c s = Some j" "i = Suc j" by auto
      from Cons.IH [OF j(1)] obtain p r where "s = p @ c # r" "c \<notin> set p" "length p = j" by blast
      with False j(2) show ?thesis by (intro exI [of _ "x # p"] exI [of _ r]) auto
    qed
  qed simp
qed (auto simp: index_byte_first)

lemma match_old_full_iff:
  "match_old_full s = Some (c, y, q, v) \<longleftrightarrow> s = c @ CHR ''/'' # y @ q @ v \<and> category_ok c \<and> length y = 4 \<and> length q = 3 \<and>
     list_all is_digit y \<and> list_all is_digit q \<and> match_version v = Some v" (is "?l = ?r")
proof
  assume ?l
  then obtain i where i: "index_byte CHR ''/'' s = Some i" "category_ok (take i s)" "c = take i s"
    "match_old_stem (drop (i + 1) s) = Some (y, q, v)"
    by (auto simp: match_old_full_def split: option.splits if_splits)
  from i(1) obtain p r where s: "s = p @ CHR ''/'' # r" "length p = i" by (auto simp: index_byte_Some_iff)
  from i(4) show ?r using i s by (simp add: match_old_stem_iff)
next
  assume r: ?r
  then have "index_byte CHR ''/'' s = Some (length c)" using category_no_slash by (simp add: index_byte_first)
  moreover have "match_old_stem (y @ q @ v) = Some (y, q, v)" using r by (simp only: match_old_stem_iff)
  ultimately show ?l using r by (simp add: match_old_full_def)
qed

section \<open>Well-formed ids\<close>

definition id_wf :: "parsed_id \<Rightarrow> bool" where
  "id_wf p \<longleftrightarrow> length (pi_yymm p) = 4 \<and> list_all is_digit (pi_yymm p) \<and> match_version (pi_version p) = Some (pi_version p) \<and>
     pi_stem p = pi_stem_base p @ pi_version p \<and>
     (if pi_old_style p
      then (\<exists>sq. length sq = 3 \<and> list_all is_digit sq \<and> pi_stem_base p = pi_yymm p @ sq) \<and>
        (if pi_bare p then pi_category p = [] \<and> pi_canonical p = pi_stem p
         else category_ok (pi_category p) \<and> pi_canonical p = pi_category p @ ''/'' @ pi_stem p)
      else (\<exists>sq. 4 \<le> length sq \<and> length sq \<le> 6 \<and> list_all is_digit sq \<and> pi_stem_base p = pi_yymm p @ ''.'' @ sq) \<and>
        \<not> pi_bare p \<and> pi_category p = [] \<and> pi_canonical p = pi_stem p)"

lemma lower_version_digits [simp]: "match_version v = Some w \<Longrightarrow> map ascii_lower v = v"
proof -
  have "ascii_lower c = c" if "is_digit c \<or> c = CHR ''v''" for c
  proof -
    have "\<forall>c\<in>set ''0123456789v''. \<not> is_upper c" by code_simp
    moreover have "c \<in> set ''0123456789v''" using that by (auto simp: is_digit_def)
    ultimately have "\<not> is_upper c" by blast
    then show ?thesis by (simp add: ascii_lower_def)
  qed
  moreover assume "match_version v = Some w"
  then have "\<forall>c\<in>set v. is_digit c \<or> c = CHR ''v''" by (auto simp: match_version_iff list_all_iff)
  ultimately show "map ascii_lower v = v" by (intro map_idI) blast
qed

lemma parse_wf:
  assumes "parse s = Inr p"
  shows "id_wf p"
proof -
  let ?raw = "lower_version (normalize_identifier s)"
  consider (new) y q v where "match_new_style ?raw = Some (y, q, v)"
    | (full) c y q v where "match_new_style ?raw = None" "match_old_full ?raw = Some (c, y, q, v)"
    | (bare) y q v where "match_new_style ?raw = None" "match_old_full ?raw = None" "match_old_stem ?raw = Some (y, q, v)"
    using assms by (cases "match_new_style ?raw"; cases "match_old_full ?raw"; cases "match_old_stem ?raw")
      (auto simp: parse_def Let_def split: if_splits)
  then show ?thesis
  proof cases
    case new
    from new [unfolded match_new_style_iff] have m: "length y = 4" "list_all is_digit y" "4 \<le> length q" "length q \<le> 6"
      "list_all is_digit q" "match_version v = Some v" by simp_all
    from assms new m(6) have "p = \<lparr>pi_raw = ?raw, pi_canonical = (y @ ''.'' @ q) @ v, pi_category = [], pi_stem = (y @ ''.'' @ q) @ v,
        pi_stem_base = y @ ''.'' @ q, pi_version = v, pi_yymm = y, pi_old_style = False, pi_bare = False\<rparr>"
      by (auto simp: parse_def Let_def split: if_splits)
    with m show ?thesis by (simp add: id_wf_def)
  next
    case full
    from full(2) [unfolded match_old_full_iff] have m: "category_ok c" "length y = 4" "list_all is_digit y" "length q = 3"
      "list_all is_digit q" "match_version v = Some v" by simp_all
    from assms full m(6) have "p = \<lparr>pi_raw = ?raw, pi_canonical = c @ ''/'' @ (y @ q) @ v, pi_category = c, pi_stem = (y @ q) @ v,
        pi_stem_base = y @ q, pi_version = v, pi_yymm = y, pi_old_style = True, pi_bare = False\<rparr>"
      by (auto simp: parse_def Let_def split: if_splits)
    with m show ?thesis by (simp add: id_wf_def)
  next
    case bare
    from bare(3) [unfolded match_old_stem_iff] have m: "length y = 4" "list_all is_digit y" "length q = 3"
      "list_all is_digit q" "match_version v = Some v" by simp_all
    from assms bare m(5) have "p = \<lparr>pi_raw = ?raw, pi_canonical = (y @ q) @ v, pi_category = [], pi_stem = (y @ q) @ v,
        pi_stem_base = y @ q, pi_version = v, pi_yymm = y, pi_old_style = True, pi_bare = True\<rparr>"
      by (auto simp: parse_def Let_def split: if_splits)
    with m show ?thesis by (simp add: id_wf_def)
  qed
qed

text \<open>Parsing what was printed.\<close>

lemma digit_id_char: "is_digit c \<Longrightarrow> id_char c"
  by (simp add: id_char_def)

lemma version_id_chars: "match_version v = Some w \<Longrightarrow> list_all id_char v"
proof -
  have "id_char CHR ''v''" by code_simp
  then show "match_version v = Some w \<Longrightarrow> list_all id_char v"
    by (auto simp: match_version_iff list_all_iff digit_id_char)
qed

lemma category_id_chars: "category_ok c \<Longrightarrow> list_all id_char c"
  using category_chars(3) [of c] by (auto simp: list_all_iff id_char_def)

lemma canonical_id_chars:
  assumes "id_wf p"
  shows "list_all id_char (pi_canonical p)" "list_all id_char (pi_stem p)"
proof -
  have plain: "id_char CHR ''.''" "id_char CHR ''/''" by code_simp+
  have ver: "list_all id_char (pi_version p)" using assms version_id_chars by (auto simp: id_wf_def)
  have y: "list_all id_char (pi_yymm p)" using assms by (auto simp: id_wf_def list_all_iff digit_id_char)
  have "list_all id_char (pi_stem_base p)"
    using assms y plain by (auto simp: id_wf_def list_all_iff digit_id_char split: if_splits)
  with ver assms show st: "list_all id_char (pi_stem p)" by (simp add: id_wf_def)
  show "list_all id_char (pi_canonical p)"
  proof (cases "pi_old_style p \<and> \<not> pi_bare p")
    case True
    with assms have "pi_canonical p = pi_category p @ ''/'' @ pi_stem p" "category_ok (pi_category p)" by (simp_all add: id_wf_def)
    with st plain category_id_chars show ?thesis by simp
  next
    case False
    with assms st show ?thesis by (auto simp: id_wf_def split: if_splits)
  qed
qed

lemma lower_version_id:
  assumes "list_all is_digit ds" "ds \<noteq> []" "\<not> is_digit c" "c \<noteq> CHR ''V''"
  shows "lower_version (p @ c # ds) = p @ c # ds"
  using split_version_digits [OF assms(1-3), of "\<lambda>c. c = CHR ''V''" p] assms(4) by (simp add: lower_version_def)

lemma first_not_digit: "is_lower c \<Longrightarrow> \<not> is_digit c"
proof -
  have "\<forall>c\<in>set ''abcdefghijklmnopqrstuvwxyz''. \<not> is_digit c" by code_simp
  then show "is_lower c \<Longrightarrow> \<not> is_digit c" unfolding is_lower_def by blast
qed

text \<open>No printed id ends in an upper-case version.\<close>

lemma lower_version_printed:
  assumes "match_version v = Some v" and "list_all is_digit q" "q \<noteq> []" and "p = [] \<or> \<not> is_digit (last p) \<and> last p \<noteq> CHR ''V''"
  shows "lower_version (p @ q @ v) = p @ q @ v"
proof (cases v)
  case Nil
  show ?thesis
  proof (cases "p = []")
    case True
    with assms(2) Nil show ?thesis by (simp add: lower_version_def split_version_all)
  next
    case False
    then have pq: "p @ q = butlast p @ last p # q" by simp
    from False assms(4) have "lower_version (butlast p @ last p # q) = butlast p @ last p # q"
      by (intro lower_version_id [OF assms(2,3)]) simp_all
    then show ?thesis unfolding Nil append_Nil2 pq .
  qed
next
  case (Cons c ds)
  with assms(1) have "c = CHR ''v''" "list_all is_digit ds" "ds \<noteq> []" by (auto simp: match_version_iff)
  moreover have "\<not> is_digit CHR ''v''" by code_simp
  ultimately show ?thesis using lower_version_id [of ds c "p @ q"] Cons by simp
qed

lemma no_match_new: "s \<noteq> [] \<Longrightarrow> \<not> is_digit (hd s) \<Longrightarrow> match_new_style s = None"
proof (cases "match_new_style s")
  case (Some m)
  moreover obtain y q v where "m = (y, q, v)" by (rule prod_cases3)
  ultimately have "s = y @ CHR ''.'' # q @ v" "length y = 4" "list_all is_digit y" by (simp_all add: match_new_style_iff)
  then have "is_digit (hd s)" by (cases y) auto
  then show "\<not> is_digit (hd s) \<Longrightarrow> match_new_style s = None" by blast
qed

lemma no_match_new_digits: "list_all is_digit (take 5 s) \<Longrightarrow> 5 \<le> length s \<Longrightarrow> match_new_style s = None"
proof (cases "match_new_style s")
  case (Some m)
  moreover obtain y q v where "m = (y, q, v)" by (rule prod_cases3)
  ultimately have "s = y @ CHR ''.'' # q @ v" "length y = 4" by (simp_all add: match_new_style_iff)
  then have "CHR ''.'' \<in> set (take 5 s)" by simp
  moreover have "\<not> is_digit CHR ''.''" by code_simp
  ultimately show "list_all is_digit (take 5 s) \<Longrightarrow> match_new_style s = None" by (auto simp: list_all_iff)
qed

lemma no_match_full: "CHR ''/'' \<notin> set s \<Longrightarrow> match_old_full s = None"
proof (cases "match_old_full s")
  case (Some m)
  moreover obtain c y q v where "m = (c, y, q, v)" by (rule prod_cases4)
  ultimately have "s = c @ CHR ''/'' # y @ q @ v" by (simp add: match_old_full_iff)
  then show "CHR ''/'' \<notin> set s \<Longrightarrow> match_old_full s = None" by simp
qed

lemma version_no_slash: "match_version v = Some w \<Longrightarrow> CHR ''/'' \<notin> set v"
proof -
  have "\<not> is_digit CHR ''/''" by code_simp
  then show "match_version v = Some w \<Longrightarrow> CHR ''/'' \<notin> set v" by (auto simp: match_version_iff list_all_iff)
qed

lemma digits_no_slash: "list_all is_digit q \<Longrightarrow> CHR ''/'' \<notin> set q"
proof -
  have "\<not> is_digit CHR ''/''" by code_simp
  then show "list_all is_digit q \<Longrightarrow> CHR ''/'' \<notin> set q" unfolding list_all_iff by blast
qed

lemma id_wf_stem:
  assumes "id_wf p"
  obtains (new) sq where "\<not> pi_old_style p" "pi_stem p = pi_yymm p @ CHR ''.'' # sq @ pi_version p" "4 \<le> length sq" "length sq \<le> 6"
      "list_all is_digit sq" "pi_stem_base p = pi_yymm p @ ''.'' @ sq"
    | (old) sq where "pi_old_style p" "pi_stem p = pi_yymm p @ sq @ pi_version p" "length sq = 3" "list_all is_digit sq"
      "pi_stem_base p = pi_yymm p @ sq"
  using assms by (auto simp: id_wf_def split: if_splits)

lemma stem_no_slash: "id_wf p \<Longrightarrow> CHR ''/'' \<notin> set (pi_stem p)"
proof -
  assume wf: "id_wf p"
  then have "CHR ''/'' \<notin> set (pi_yymm p)" "CHR ''/'' \<notin> set (pi_version p)"
    by (auto simp: id_wf_def dest: digits_no_slash version_no_slash)
  with wf show ?thesis by (cases rule: id_wf_stem) (auto dest: digits_no_slash)
qed

text \<open>Printing and parsing agree. The canonical form of a parsed id, in any of the three styles and however the
  input was padded, prefixed or capitalised in its version, parses back to the same id.\<close>

theorem parse_canonical:
  assumes "parse s = Inr p"
  shows "parse (pi_canonical p) = Inr (p\<lparr>pi_raw := pi_canonical p\<rparr>)"
proof -
  from assms have wf: "id_wf p" by (rule parse_wf)
  from canonical_id_chars(1) [OF wf] have norm: "normalize_identifier (pi_canonical p) = pi_canonical p"
    by (rule normalize_id_chars)
  have v: "match_version (pi_version p) = Some (pi_version p)" and y: "length (pi_yymm p) = 4" "list_all is_digit (pi_yymm p)"
    using wf by (simp_all add: id_wf_def)
  then have ne: "pi_yymm p \<noteq> []" by auto
  from wf show ?thesis
  proof (cases rule: id_wf_stem)
    case (new sq)
    then have c: "pi_canonical p = (pi_yymm p @ ''.'') @ sq @ pi_version p" "\<not> pi_bare p" "pi_category p = []" "pi_canonical p = pi_stem p"
      using wf by (simp_all add: id_wf_def)
    have dot: "\<not> is_digit CHR ''.''" by code_simp
    have low: "lower_version (pi_canonical p) = pi_canonical p" unfolding c(1)
      using new dot by (intro lower_version_printed [OF v]) auto
    have m: "match_new_style (pi_canonical p) = Some (pi_yymm p, sq, pi_version p)"
      using new c v y unfolding match_new_style_iff by simp
    show ?thesis using norm low m new c v ne
      by (cases p) (auto simp: parse_def Let_def)
  next
    case (old sq)
    show ?thesis
    proof (cases "pi_bare p")
      case True
      then have c: "pi_canonical p = [] @ (pi_yymm p @ sq) @ pi_version p" "pi_category p = []" "pi_canonical p = pi_stem p"
        using old wf by (simp_all add: id_wf_def)
      have low: "lower_version (pi_canonical p) = pi_canonical p" unfolding c(1)
        using old y by (intro lower_version_printed [OF v]) auto
      have n: "match_new_style (pi_canonical p) = None"
        using old y c by (intro no_match_new_digits) (auto simp: list_all_iff dest: in_set_takeD)
      have f: "match_old_full (pi_canonical p) = None"
        unfolding c(3) by (rule no_match_full [OF stem_no_slash [OF wf]])
      have m: "match_old_stem (pi_canonical p) = Some (pi_yymm p, sq, pi_version p)"
        using old c v y unfolding match_old_stem_iff by simp
      show ?thesis using norm low n f m old c v ne True
        by (cases p) (auto simp: parse_def Let_def)
    next
      case False
      then have c: "pi_canonical p = (pi_category p @ ''/'') @ (pi_yymm p @ sq) @ pi_version p" "category_ok (pi_category p)"
        using old wf by (simp_all add: id_wf_def)
      have slash: "\<not> is_digit CHR ''/''" by code_simp
      have low: "lower_version (pi_canonical p) = pi_canonical p" unfolding c(1)
        using old y slash by (intro lower_version_printed [OF v]) auto
      have n: "match_new_style (pi_canonical p) = None"
        using category_chars(1,2) [OF c(2)] first_not_digit by (intro no_match_new) (auto simp: c(1))
      have m: "match_old_full (pi_canonical p) = Some (pi_category p, pi_yymm p, sq, pi_version p)"
        using old c v y unfolding match_old_full_iff by simp
      show ?thesis using norm low n m old c v ne False
        by (cases p) (auto simp: parse_def Let_def)
    qed
  qed
qed

theorem parse_canonical_witness:
  "\<exists>p. parse '' arXiv: quant-ph/9508027V1'' = Inr p \<and> pi_canonical p = ''quant-ph/9508027v1'' \<and>
     parse ''quant-ph/9508027v1'' = Inr (p\<lparr>pi_raw := ''quant-ph/9508027v1''\<rparr>)"
proof -
  let ?p = "\<lparr>pi_raw = ''quant-ph/9508027v1'', pi_canonical = ''quant-ph/9508027v1'', pi_category = ''quant-ph'',
    pi_stem = ''9508027v1'', pi_stem_base = ''9508027'', pi_version = ''v1'', pi_yymm = ''9508'', pi_old_style = True, pi_bare = False\<rparr>"
  have p: "parse '' arXiv: quant-ph/9508027V1'' = Inr ?p" by code_simp
  from parse_canonical [OF p] p show ?thesis by (intro exI [of _ ?p]) simp
qed

section \<open>Keys and back\<close>

lemma known_kind:
  assumes "asset_ext kind \<noteq> []"
  obtains e where "asset_ext kind = CHR ''.'' # e" "CHR ''.'' \<notin> set e" "CHR ''/'' \<notin> set e" "CHR ''/'' \<notin> set kind"
  using assms that by (auto simp: asset_ext_def split: if_splits)

lemma key_file:
  assumes "asset_ext kind = CHR ''.'' # e" "CHR ''.'' \<notin> set e" "CHR ''/'' \<notin> set e"
  shows "trim_suffix (s @ asset_ext kind) (path_ext (s @ asset_ext kind)) = s"
  unfolding assms(1) path_ext_append [OF assms(2,3)] by (rule trim_suffix_append)

lemma split_key3:
  assumes "CHR ''/'' \<notin> set a" "CHR ''/'' \<notin> set b" "CHR ''/'' \<notin> set c"
  shows "split_on CHR ''/'' (a @ CHR ''/'' # b @ CHR ''/'' # c) = [a, b, c]"
  using assms by (simp add: split_on_append split_on_free)

lemma split_key4:
  assumes "CHR ''/'' \<notin> set a" "CHR ''/'' \<notin> set b" "CHR ''/'' \<notin> set c" "CHR ''/'' \<notin> set d"
  shows "split_on CHR ''/'' (a @ CHR ''/'' # b @ CHR ''/'' # c @ CHR ''/'' # d) = [a, b, c, d]"
  using assms by (simp add: split_on_append split_on_free)

lemma yymm_facts:
  assumes "id_wf p"
  shows "CHR ''/'' \<notin> set (pi_yymm p)" "pi_yymm p \<noteq> ''doi''" "pi_stem p \<noteq> []" "pi_yymm p \<noteq> []"
proof -
  have y: "length (pi_yymm p) = 4" "list_all is_digit (pi_yymm p)" using assms by (simp_all add: id_wf_def)
  then show "CHR ''/'' \<notin> set (pi_yymm p)" "pi_yymm p \<noteq> ''doi''" "pi_yymm p \<noteq> []" by (auto dest: digits_no_slash)
  with assms show "pi_stem p \<noteq> []" by (cases rule: id_wf_stem) auto
qed

definition key_category :: "parsed_id \<Rightarrow> string" where
  "key_category p = (if pi_bare p then default_old_style_category else pi_category p)"

lemma key_category_no_slash: "id_wf p \<Longrightarrow> pi_old_style p \<Longrightarrow> CHR ''/'' \<notin> set (key_category p)"
  by (auto simp: key_category_def default_old_style_category_def id_wf_def dest: category_no_slash)

text \<open>C34: The object key of an arXiv id leads back to it. For every kind of asset, the inverse that the synchroniser
  applies to a listed key gives the canonical id the key was made from, a bare old-style id coming back
  under the default category, and never takes it for a DOI; the old layout gives back the stem only.\<close>

theorem arxiv_key_roundtrip:
  assumes "parse s = Inr p" and "asset_ext kind \<noteq> []"
  shows "stem_from_key (asset_key_for kind p) kind =
      Some (if pi_bare p then default_old_style_category @ ''/'' @ pi_stem p else pi_canonical p, False) \<and>
    (pi_old_style p \<longrightarrow> stem_from_key (legacy_asset_key_for kind p) kind = Some (pi_stem p, False))"
proof -
  from assms(1) have wf: "id_wf p" by (rule parse_wf)
  note y = yymm_facts [OF wf]
  have valid: "id_valid p" using y by (simp add: id_valid_def)
  from assms(2) obtain e where e: "asset_ext kind = CHR ''.'' # e" "CHR ''.'' \<notin> set e" "CHR ''/'' \<notin> set e" "CHR ''/'' \<notin> set kind"
    by (rule known_kind)
  have fname: "CHR ''/'' \<notin> set (pi_stem p @ asset_ext kind)" using stem_no_slash [OF wf] e by simp
  note three = split_key3 [OF e(4) y(1) fname]
  have flat: "stem_from_key (kind @ ''/'' @ pi_yymm p @ ''/'' @ pi_stem p @ asset_ext kind) kind = Some (pi_stem p, False)"
    using three key_file [OF e(1-3), of "pi_stem p"] y(3) by (simp add: stem_from_key_def)
  show ?thesis
  proof (cases "pi_old_style p")
    case False
    then have "pi_canonical p = pi_stem p" "\<not> pi_bare p" using wf by (simp_all add: id_wf_def)
    with flat False valid assms(2) show ?thesis by (simp add: asset_key_for_def)
  next
    case True
    note four = split_key4 [OF e(4) y(1) key_category_no_slash [OF wf True] fname]
    have "stem_from_key (kind @ ''/'' @ pi_yymm p @ ''/'' @ key_category p @ ''/'' @ pi_stem p @ asset_ext kind) kind =
        Some (key_category p @ ''/'' @ pi_stem p, False)"
      using four key_file [OF e(1-3), of "pi_stem p"] y(2,3) by (simp add: stem_from_key_def)
    moreover have "key_category p @ ''/'' @ pi_stem p =
        (if pi_bare p then default_old_style_category @ ''/'' @ pi_stem p else pi_canonical p)"
      using wf True by (simp add: key_category_def id_wf_def)
    ultimately show ?thesis using flat True valid assms(2)
      by (simp add: asset_key_for_def legacy_asset_key_for_def key_category_def split: if_splits)
  qed
qed

theorem arxiv_key_roundtrip_witness:
  "\<exists>p. parse ''quant-ph/9508027v1'' = Inr p \<and> asset_key_for ''pdf'' p = ''pdf/9508/quant-ph/9508027v1.pdf'' \<and>
     stem_from_key ''pdf/9508/quant-ph/9508027v1.pdf'' ''pdf'' = Some (''quant-ph/9508027v1'', False)"
proof -
  let ?p = "\<lparr>pi_raw = ''quant-ph/9508027v1'', pi_canonical = ''quant-ph/9508027v1'', pi_category = ''quant-ph'',
    pi_stem = ''9508027v1'', pi_stem_base = ''9508027'', pi_version = ''v1'', pi_yymm = ''9508'', pi_old_style = True, pi_bare = False\<rparr>"
  have p: "parse ''quant-ph/9508027v1'' = Inr ?p" by code_simp
  have k: "asset_key_for ''pdf'' ?p = ''pdf/9508/quant-ph/9508027v1.pdf''" by code_simp
  have "asset_ext ''pdf'' \<noteq> []" by code_simp
  from arxiv_key_roundtrip [OF p this] p k show ?thesis by (intro exI [of _ ?p]) simp
qed

section \<open>DOIs and back\<close>

lemma replace_char: "replace_all [a] new s = concat (map (\<lambda>c. if c = a then new else [c]) s)"
  by (induction s) auto

lemma doi_decode_rules:
  "doi_decode_stem [] = []"
  "doi_decode_stem (CHR ''_'' # CHR ''_'' # r) = CHR ''/'' # doi_decode_stem r"
  "c \<noteq> CHR ''_'' \<Longrightarrow> doi_decode_stem (c # r) = c # doi_decode_stem r"
  "r = [] \<or> hd r \<noteq> CHR ''_'' \<Longrightarrow> doi_decode_stem (c # r) = c # doi_decode_stem r"
  by (auto simp: doi_decode_stem_def prefix_def)

lemma contains_Cons2: "contains (c # s) [a, b] \<longleftrightarrow> c = a \<and> s \<noteq> [] \<and> hd s = b \<or> contains s [a, b]"
  by (cases s) (auto simp: prefix_def)

lemma decode_safe:
  assumes "\<not> contains s ''__''"
  shows "doi_decode_stem (replace_all ''/'' ''__'' s) = s \<longleftrightarrow> \<not> contains s ''_/''"
  using assms
proof (induction s)
  case (Cons c s)
  from Cons.prems have n: "\<not> (c = CHR ''_'' \<and> s \<noteq> [] \<and> hd s = CHR ''_'')" and "\<not> contains s ''__''"
    unfolding contains_Cons2 by simp_all
  from Cons.IH [OF this(2)] have IH: "doi_decode_stem (replace_all ''/'' ''__'' s) = s \<longleftrightarrow> \<not> contains s ''_/''" .
  consider "c = CHR ''/''" | "c = CHR ''_''" "s \<noteq> []" "hd s = CHR ''/''" | "c = CHR ''_''" "s = [] \<or> hd s \<noteq> CHR ''/''"
    | "c \<noteq> CHR ''/''" "c \<noteq> CHR ''_''" by blast
  then show ?case
  proof cases
    case 1
    with IH show ?thesis by (simp add: replace_char doi_decode_rules contains_Cons2)
  next
    case 2
    then obtain s' where s: "s = CHR ''/'' # s'" by (cases s) auto
    with 2 show ?thesis by (simp add: replace_char doi_decode_rules contains_Cons2)
  next
    case 3
    have "replace_all ''/'' ''__'' s = [] \<or> hd (replace_all ''/'' ''__'' s) \<noteq> CHR ''_''"
      using 3 n by (cases s) (auto simp: replace_char)
    then have "doi_decode_stem (CHR ''_'' # replace_all ''/'' ''__'' s) = CHR ''_'' # doi_decode_stem (replace_all ''/'' ''__'' s)"
      by (rule doi_decode_rules(4))
    moreover have "replace_all ''/'' ''__'' (c # s) = CHR ''_'' # replace_all ''/'' ''__'' s" using 3(1) by (simp add: replace_char)
    moreover have "contains (c # s) ''_/'' \<longleftrightarrow> contains s ''_/''" unfolding contains_Cons2 using 3(2) by blast
    ultimately show ?thesis using IH 3(1) by simp
  next
    case 4
    with IH show ?thesis by (simp add: replace_char doi_decode_rules contains_Cons2)
  qed
qed (simp add: doi_decode_rules replace_char)

lemma validate_doi_parts:
  assumes "validate_doi ul d = Some n"
  shows "n = doi_registrant n @ CHR ''/'' # doi_suffix n" "CHR ''/'' \<notin> set (doi_registrant n)" "\<not> contains (doi_suffix n) ''__''"
    "doi_shape n" "length n \<le> 256" "list_all plain_byte n"
proof -
  from assms have v: "doi_shape n" "\<not> (CHR ''/'' \<in> set n \<and> contains (doi_suffix n) ''__'')" "length n \<le> 256" "list_all plain_byte n"
    by (auto simp: validate_doi_def max_doi_len_def Let_def split: if_splits)
  then show "doi_shape n" "length n \<le> 256" "list_all plain_byte n" by simp_all
  have "CHR ''/'' \<in> set n"
  proof -
    let ?r = "drop 3 n" let ?rest = "drop (length (takeWhile is_digit ?r)) ?r"
    from v(1) have "\<exists>suf. ?rest = CHR ''/'' # suf" by (auto simp: doi_shape_def Let_def split: list.splits)
    then have "CHR ''/'' \<in> set ?rest" by auto
    then show ?thesis by (meson in_set_dropD)
  qed
  then obtain i where i: "index_byte CHR ''/'' n = Some i" by (cases "index_byte CHR ''/'' n") auto
  then obtain p r where "n = p @ CHR ''/'' # r" "CHR ''/'' \<notin> set p" "length p = i" by (auto simp: index_byte_Some_iff)
  with i v(2) show "n = doi_registrant n @ CHR ''/'' # doi_suffix n" "CHR ''/'' \<notin> set (doi_registrant n)"
    "\<not> contains (doi_suffix n) ''__''" by (auto simp: doi_registrant_def doi_suffix_def)
qed

text \<open>When a DOI survives its object key. The key of a valid DOI is recognised as a DOI's, and leads back to that
  DOI exactly when its suffix has no underscore right before a slash; for such a suffix the synchroniser
  books the asset under another DOI.\<close>

theorem doi_key_roundtrip:
  assumes "validate_doi ul d = Some n" and "asset_ext kind \<noteq> []"
  shows "\<exists>back. stem_from_key (doi_asset_key ul kind d) kind = Some (back, True) \<and>
    (back = n \<longleftrightarrow> \<not> contains (doi_suffix n) ''_/'')"
proof -
  note n = validate_doi_parts [OF assms(1)]
  from assms(2) obtain e where e: "asset_ext kind = CHR ''.'' # e" "CHR ''.'' \<notin> set e" "CHR ''/'' \<notin> set e" "CHR ''/'' \<notin> set kind"
    by (rule known_kind)
  have "CHR ''/'' \<notin> set (doi_safe_stem n)" by (auto simp: doi_safe_stem_def replace_char)
  then have fname: "CHR ''/'' \<notin> set (doi_safe_stem n @ asset_ext kind)" using e by simp
  have "split_on CHR ''/'' (doi_asset_key ul kind d) = [kind, ''doi'', doi_registrant n, doi_safe_stem n @ asset_ext kind]"
    using split_key4 [OF e(4) _ n(2) fname, of "''doi''"] assms by (simp add: doi_asset_key_def)
  then have "stem_from_key (doi_asset_key ul kind d) kind = Some (doi_registrant n @ ''/'' @ doi_decode_stem (doi_safe_stem n), True)"
    using key_file [OF e(1-3), of "doi_safe_stem n"] by (simp add: stem_from_key_def)
  moreover have "doi_registrant n @ ''/'' @ doi_decode_stem (doi_safe_stem n) = n \<longleftrightarrow> doi_decode_stem (doi_safe_stem n) = doi_suffix n"
    using n(1) by (metis append_Cons append_Nil same_append_eq list.inject)
  ultimately show ?thesis using decode_safe [OF n(3)] by (simp add: doi_safe_stem_def)
qed

theorem doi_key_roundtrip_witness:
  "validate_doi (\<lambda>s. s) ''https://doi.org/10.1234/a/b'' = Some ''10.1234/a/b'' \<and>
   stem_from_key (doi_asset_key (\<lambda>s. s) ''pdf'' ''https://doi.org/10.1234/a/b'') ''pdf'' = Some (''10.1234/a/b'', True)"
proof -
  have v: "validate_doi (\<lambda>s. s) ''https://doi.org/10.1234/a/b'' = Some ''10.1234/a/b''" by code_simp
  have k: "asset_ext ''pdf'' \<noteq> []" and c: "\<not> contains (doi_suffix ''10.1234/a/b'') ''_/''" by code_simp+
  from doi_key_roundtrip [OF v k] c v show ?thesis by auto
qed

text \<open>Two DOIs share one object. Two valid, different DOIs exist whose assets have the same object key, so that the
  file of one overwrites the file of the other.\<close>

theorem doi_keys_collide:
  "\<exists>d e. validate_doi (\<lambda>s. s) d = Some d \<and> validate_doi (\<lambda>s. s) e = Some e \<and> d \<noteq> e \<and>
     doi_asset_key (\<lambda>s. s) ''pdf'' d = doi_asset_key (\<lambda>s. s) ''pdf'' e"
proof -
  have "validate_doi (\<lambda>s. s) ''10.1234/a_/b'' = Some ''10.1234/a_/b''" "validate_doi (\<lambda>s. s) ''10.1234/a/_b'' = Some ''10.1234/a/_b''"
    "doi_asset_key (\<lambda>s. s) ''pdf'' ''10.1234/a_/b'' = doi_asset_key (\<lambda>s. s) ''pdf'' ''10.1234/a/_b''" by code_simp+
  then show ?thesis by (intro exI [of _ "''10.1234/a_/b''"] exI [of _ "''10.1234/a/_b''"]) simp
qed

section \<open>Upload ids\<close>

lemma canonical_match:
  assumes "id_wf p"
  obtains (new) sq where "match_new_style (pi_canonical p) = Some (pi_yymm p, sq, pi_version p)"
    | (full) sq where "match_old_full (pi_canonical p) = Some (pi_category p, pi_yymm p, sq, pi_version p)"
    | (bare) sq where "match_old_stem (pi_canonical p) = Some (pi_yymm p, sq, pi_version p)"
proof -
  have v: "match_version (pi_version p) = Some (pi_version p)" and y: "length (pi_yymm p) = 4" "list_all is_digit (pi_yymm p)"
    using assms by (simp_all add: id_wf_def)
  from assms show thesis
  proof (cases rule: id_wf_stem)
    case (new sq)
    then have "pi_canonical p = pi_stem p" using assms by (simp add: id_wf_def)
    with new v y that(1) [of sq] show ?thesis unfolding match_new_style_iff by simp
  next
    case (old sq)
    show ?thesis
    proof (cases "pi_bare p")
      case True
      then have "pi_canonical p = pi_stem p" using assms old by (simp add: id_wf_def)
      with old v y that(3) [of sq] show ?thesis unfolding match_old_stem_iff by simp
    next
      case False
      then have "pi_canonical p = pi_category p @ CHR ''/'' # pi_stem p" "category_ok (pi_category p)"
        using assms old by (simp_all add: id_wf_def)
      with old v y that(2) [of sq] show ?thesis unfolding match_old_full_iff by simp
    qed
  qed
qed

lemma versioned_lower:
  assumes "match_version v = Some v" and "v \<noteq> []"
  shows "lower_version (p @ v) = p @ v"
proof -
  from assms obtain ds where "v = CHR ''v'' # ds" "ds \<noteq> []" "list_all is_digit ds" by (auto simp: match_version_iff)
  moreover have "\<not> is_digit CHR ''v''" by code_simp
  ultimately show ?thesis by (simp add: lower_version_id)
qed

text \<open>Reading a versioned id is the same whether it goes through \<open>Parse\<close> or through the patterns of uploads.\<close>

lemma upload_parses:
  assumes "validate_upload_id s = Some c"
  shows "\<exists>p. parse s = Inr p \<and> pi_version p \<noteq> [] \<and> pi_canonical p = normalize_identifier s \<and> c = pi_canonical p"
proof -
  let ?n = "normalize_identifier s"
  have c: "c = ?n" using assms by (auto simp: validate_upload_id_def Let_def split: if_splits)
  consider (new) y q v where "match_new_style ?n = Some (y, q, v)" "v \<noteq> []"
    | (full) d y q v where "match_old_full ?n = Some (d, y, q, v)" "v \<noteq> []"
    | (bare) y q v where "match_old_stem ?n = Some (y, q, v)" "v \<noteq> []"
    using assms by (auto simp: validate_upload_id_def Let_def split: if_splits option.splits)
  then show ?thesis
  proof cases
    case new
    from new(1) [unfolded match_new_style_iff] have m: "?n = (y @ CHR ''.'' # q) @ v" "match_version v = Some v" by simp_all
    have "lower_version ?n = ?n" unfolding m(1) by (rule versioned_lower [OF m(2) new(2)])
    with new m c show ?thesis by (auto simp: parse_def Let_def)
  next
    case full
    from full(1) [unfolded match_old_full_iff] have m: "?n = (d @ CHR ''/'' # y @ q) @ v" "match_version v = Some v" "category_ok d"
      by simp_all
    have low: "lower_version ?n = ?n" unfolding m(1) by (rule versioned_lower [OF m(2) full(2)])
    have "match_new_style ?n = None"
      using category_chars(1,2) [OF m(3)] first_not_digit unfolding m(1) by (intro no_match_new) auto
    with full low m c show ?thesis by (auto simp: parse_def Let_def)
  next
    case bare
    from bare(1) [unfolded match_old_stem_iff] have m: "?n = (y @ q) @ v" "match_version v = Some v" "length y = 4" "length q = 3"
      "list_all is_digit y" "list_all is_digit q" by simp_all
    have low: "lower_version ?n = ?n" unfolding m(1) by (rule versioned_lower [OF m(2) bare(2)])
    have "match_new_style ?n = None"
      using m by (intro no_match_new_digits) (auto simp: list_all_iff dest: in_set_takeD)
    moreover have "match_old_full ?n = None"
      using m(2,5,6) by (intro no_match_full) (auto simp: m(1) dest: digits_no_slash version_no_slash)
    ultimately show ?thesis using bare low m c by (auto simp: parse_def Let_def)
  qed
qed

text \<open>What may be uploaded. The strict check of the upload endpoints accepts an id, as its normal form, exactly when
  the general parser reads it with a version and its normal form is already the canonical one.\<close>

theorem upload_id_iff:
  "validate_upload_id s = Some c \<longleftrightarrow>
     (\<exists>p. parse s = Inr p \<and> pi_version p \<noteq> [] \<and> pi_canonical p = normalize_identifier s \<and> c = pi_canonical p)"
proof
  assume "\<exists>p. parse s = Inr p \<and> pi_version p \<noteq> [] \<and> pi_canonical p = normalize_identifier s \<and> c = pi_canonical p"
  then obtain p where p: "parse s = Inr p" "pi_version p \<noteq> []" "pi_canonical p = normalize_identifier s" "c = pi_canonical p" by blast
  from canonical_match [OF parse_wf [OF p(1)]] show "validate_upload_id s = Some c"
    using p by cases (simp_all add: validate_upload_id_def Let_def)
qed (rule upload_parses)

end
