(* ===== verification/Comment_Store.thy ===== *)
theory Comment_Store
  imports Prelude "HOL-Library.List_Lexorder" "HOL-Library.Char_ord" "HOL-Library.Multiset"
begin

text \<open>
  The comment domain (\<open>internal/comments\<close>): the data of \<open>comments.go\<close> and \<open>store.go\<close>, the
  in-memory store of \<open>memstore.go\<close>, which serves as the specification, and the PostgreSQL store
  of \<open>pgstore.go\<close> over the four tables of migration 00008, which refines it.

  Strings are compared byte by byte (\<open>List_Lexorder\<close> over \<open>Char_ord\<close>), as Go compares them and as
  PostgreSQL compares the ids, which are lower-case letters, digits and an underscore. A minted id
  and a reading of the clock are arguments of the operation that uses them.
\<close>

section \<open>Domain\<close>

text \<open>A condition on the value of an optional parameter.\<close>

fun for_some :: "('a \<Rightarrow> bool) \<Rightarrow> 'a option \<Rightarrow> bool" where
  "for_some P None = True"
| "for_some P (Some x) = P x"

text \<open>The sentinel errors, and the bare error of a result set that breaks off (\<open>rows.Err()\<close>).\<close>

datatype store_error =
    Comment_Not_Found | Revision_Conflict | Store_Unavailable | Idempotency_Mismatch | Empty_Reason |
    Rows_Error

definition status_pending :: string where "status_pending = ''pending''"
definition status_confirmed :: string where "status_confirmed = ''confirmed''"
definition status_retracted :: string where "status_retracted = ''retracted''"

definition valid_status :: "string \<Rightarrow> bool" where
  "valid_status s \<longleftrightarrow> s \<in> set [[], status_pending, status_confirmed, status_retracted]"

definition scope_public :: string where "scope_public = ''public''"
definition scope_lean :: string where "scope_lean = ''lean''"

definition type_normal :: string where "type_normal = ''normal''"
definition type_transcription_error :: string where "type_transcription_error = ''transcription_error''"
definition type_typo_in_original :: string where "type_typo_in_original = ''typo_in_original''"

definition valid_type :: "string \<Rightarrow> bool" where
  "valid_type t \<longleftrightarrow> 1 \<le> length t \<and> length t \<le> 64 \<and>
     list_all (\<lambda>c. is_lower c \<or> is_digit c \<or> c \<in> set ''_:-'') t"

definition valid_scope :: "string \<Rightarrow> bool" where
  "valid_scope s \<longleftrightarrow> s = scope_public \<or> s = scope_lean"

record discussion =
  ds_id :: string
  ds_paper :: string
  ds_parse :: string
  ds_page :: int
  ds_block :: int
  ds_type :: string
  ds_scope :: string
  ds_status :: string
  ds_body :: string
  ds_by :: string
  ds_model :: string
  ds_rev :: int
  ds_replies :: nat
  ds_created :: instant
  ds_updated :: instant

record comment_reply =
  ry_id :: string
  ry_discussion :: string
  ry_body :: string
  ry_by :: string
  ry_model :: string
  ry_rev :: int
  ry_created :: instant
  ry_updated :: instant

record status_event =
  se_from :: string
  se_to :: string
  se_reason :: string
  se_actor :: string
  se_at :: instant

record body_revision =
  bv_target :: string
  bv_target_id :: string
  bv_old :: string
  bv_new :: string
  bv_editor :: string
  bv_at :: instant

definition target_discussion :: string where "target_discussion = ''discussion''"
definition target_reply :: string where "target_reply = ''reply''"

record discussion_input =
  di_paper :: string
  di_parse :: string
  di_page :: int
  di_block :: int
  di_type :: string
  di_scope :: string
  di_status :: string
  di_reason :: string
  di_body :: string
  di_by :: string
  di_model :: string

record reply_input =
  rn_discussion :: string
  rn_body :: string
  rn_by :: string
  rn_model :: string

text \<open>The list query. The fields \<open>Since\<close> and \<open>SinceID\<close> are one option, None for the zero time: a decoded
  cursor is never the zero time.\<close>

record list_filter =
  lf_paper :: string
  lf_parse :: string
  lf_page :: "int option"
  lf_block :: "int option"
  lf_type :: string
  lf_status :: "string option"
  lf_status_null :: bool
  lf_scopes :: "string list"
  lf_cursor :: string
  lf_limit :: int
  lf_since :: "(instant \<times> string) option"

text \<open>\<open>sinceAfter\<close>: strictly past a position, with the time floored to the millisecond.\<close>

definition truncate_ms :: "instant \<Rightarrow> instant" where
  "truncate_ms t = t - t mod 1000000"

definition since_after :: "instant \<Rightarrow> string \<Rightarrow> instant \<Rightarrow> string \<Rightarrow> bool" where
  "since_after updated i since_t since_id =
     (if truncate_ms updated \<noteq> since_t then since_t < truncate_ms updated else since_id < i)"

section \<open>The store in memory\<close>

text \<open>The history maps yield the empty list for a missing key, as a Go map of slices does.\<close>

record mem_store =
  ms_discussions :: "(string, discussion) gomap"
  ms_replies :: "(string, comment_reply) gomap"
  ms_body_revs :: "string \<Rightarrow> body_revision list"
  ms_events :: "string \<Rightarrow> status_event list"
  ms_reply_revs :: "string \<Rightarrow> body_revision list"

definition new_mem_store :: mem_store where
  "new_mem_store =
     \<lparr>ms_discussions = [], ms_replies = [], ms_body_revs = (\<lambda>_. []), ms_events = (\<lambda>_. []),
      ms_reply_revs = (\<lambda>_. [])\<rparr>"

definition mem_create_discussion :: "string \<Rightarrow> instant \<Rightarrow> discussion_input \<Rightarrow> mem_store
    \<Rightarrow> (store_error + discussion) \<times> mem_store" where
  "mem_create_discussion i now x m =
     (let d = \<lparr>ds_id = i, ds_paper = di_paper x, ds_parse = di_parse x, ds_page = di_page x,
               ds_block = di_block x, ds_type = di_type x, ds_scope = di_scope x,
               ds_status = di_status x, ds_body = di_body x, ds_by = di_by x, ds_model = di_model x,
               ds_rev = 1, ds_replies = 0, ds_created = now, ds_updated = now\<rparr>;
          m1 = m\<lparr>ms_discussions := AList.update i d (ms_discussions m)\<rparr>
      in (Inr d,
          if di_status x \<noteq> []
          then m1\<lparr>ms_events := (ms_events m1)(i := ms_events m1 i @
                  [\<lparr>se_from = [], se_to = di_status x, se_reason = di_reason x, se_actor = di_by x,
                    se_at = now\<rparr>])\<rparr>
          else m1))"

definition reply_count_locked :: "string \<Rightarrow> mem_store \<Rightarrow> nat" where
  "reply_count_locked i m = length (filter (\<lambda>kr. ry_discussion (snd kr) = i) (ms_replies m))"

text \<open>The conditions under which the loop of \<open>ListDiscussions\<close> does not skip an element.\<close>

definition mem_match :: "list_filter \<Rightarrow> discussion \<Rightarrow> bool" where
  "mem_match f d \<longleftrightarrow>
     \<not> (lf_paper f \<noteq> [] \<and> ds_paper d \<noteq> lf_paper f) \<and>
     \<not> (lf_parse f \<noteq> [] \<and> ds_parse d \<noteq> lf_parse f) \<and>
     (case lf_page f of None \<Rightarrow> True | Some n \<Rightarrow> ds_page d = n) \<and>
     (case lf_block f of None \<Rightarrow> True | Some n \<Rightarrow> ds_block d = n) \<and>
     \<not> (lf_type f \<noteq> [] \<and> ds_type d \<noteq> lf_type f) \<and>
     (if lf_status_null f then ds_status d = []
      else case lf_status f of None \<Rightarrow> True | Some s \<Rightarrow> ds_status d = s) \<and>
     (lf_scopes f \<noteq> [] \<longrightarrow> ds_scope d \<in> set (lf_scopes f)) \<and>
     \<not> (lf_cursor f \<noteq> [] \<and> lf_cursor f \<le> ds_id d) \<and>
     (case lf_since f of None \<Rightarrow> True | Some (t, i) \<Rightarrow> since_after (ds_updated d) (ds_id d) t i)"

definition newest_discussions_first :: "discussion list \<Rightarrow> discussion list" where
  "newest_discussions_first ds = rev (sort_key ds_id ds)"

definition mem_list_discussions :: "list_filter \<Rightarrow> mem_store \<Rightarrow> discussion list" where
  "mem_list_discussions f m =
     (let out = newest_discussions_first (filter (mem_match f) (map snd (ms_discussions m)));
          out = (if 0 < lf_limit f \<and> lf_limit f < int (length out) then take (nat (lf_limit f)) out
                 else out)
      in map (\<lambda>d. d\<lparr>ds_replies := reply_count_locked (ds_id d) m\<rparr>) out)"

definition mem_get_discussion :: "string \<Rightarrow> mem_store \<Rightarrow> discussion option" where
  "mem_get_discussion i m =
     (case map_of (ms_discussions m) i of
        None \<Rightarrow> None
      | Some d \<Rightarrow> Some (d\<lparr>ds_replies := reply_count_locked i m\<rparr>))"

definition mem_list_replies :: "string \<Rightarrow> string \<Rightarrow> int \<Rightarrow> mem_store
    \<Rightarrow> store_error + comment_reply list" where
  "mem_list_replies i after limit m =
     (case map_of (ms_discussions m) i of
        None \<Rightarrow> Inl Comment_Not_Found
      | Some _ \<Rightarrow>
          let out = sort_key ry_id (filter (\<lambda>r. \<not> ry_discussion r \<noteq> i \<and> \<not> (after \<noteq> [] \<and> ry_id r \<le> after))
                      (map snd (ms_replies m)))
          in Inr (if 0 < limit \<and> limit < int (length out) then take (nat limit) out else out))"

definition mem_create_reply :: "string \<Rightarrow> instant \<Rightarrow> reply_input \<Rightarrow> mem_store
    \<Rightarrow> (store_error + comment_reply) \<times> mem_store" where
  "mem_create_reply i now x m =
     (case map_of (ms_discussions m) (rn_discussion x) of
        None \<Rightarrow> (Inl Comment_Not_Found, m)
      | Some _ \<Rightarrow>
          let r = \<lparr>ry_id = i, ry_discussion = rn_discussion x, ry_body = rn_body x, ry_by = rn_by x,
                   ry_model = rn_model x, ry_rev = 1, ry_created = now, ry_updated = now\<rparr>
          in (Inr r, m\<lparr>ms_replies := AList.update i r (ms_replies m)\<rparr>))"

definition mem_get_reply :: "string \<Rightarrow> mem_store \<Rightarrow> comment_reply option" where
  "mem_get_reply i m = map_of (ms_replies m) i"

definition mem_set_status :: "instant \<Rightarrow> string \<Rightarrow> string \<Rightarrow> string \<Rightarrow> string \<Rightarrow> mem_store
    \<Rightarrow> (store_error + discussion) \<times> mem_store" where
  "mem_set_status now i to reason actor m =
     (case map_of (ms_discussions m) i of
        None \<Rightarrow> (Inl Comment_Not_Found, m)
      | Some d \<Rightarrow>
          if reason = [] then (Inl Empty_Reason, m)
          else
            let d' = d\<lparr>ds_status := to, ds_updated := now\<rparr> in
            (Inr d',
             m\<lparr>ms_discussions := AList.update i d' (ms_discussions m),
               ms_events := (ms_events m)(i := ms_events m i @
                 [\<lparr>se_from = ds_status d, se_to = to, se_reason = reason, se_actor = actor, se_at = now\<rparr>])\<rparr>))"

definition mem_update_discussion_body :: "instant \<Rightarrow> string \<Rightarrow> int \<Rightarrow> string \<Rightarrow> string \<Rightarrow> mem_store
    \<Rightarrow> (store_error + discussion) \<times> mem_store" where
  "mem_update_discussion_body now i expected new_body editor m =
     (case map_of (ms_discussions m) i of
        None \<Rightarrow> (Inl Comment_Not_Found, m)
      | Some d \<Rightarrow>
          if ds_rev d \<noteq> expected then (Inl Revision_Conflict, m)
          else
            let d' = d\<lparr>ds_body := new_body, ds_rev := ds_rev d + 1, ds_updated := now\<rparr> in
            (Inr d',
             m\<lparr>ms_discussions := AList.update i d' (ms_discussions m),
               ms_body_revs := (ms_body_revs m)(i := ms_body_revs m i @
                 [\<lparr>bv_target = target_discussion, bv_target_id = i, bv_old = ds_body d, bv_new = new_body,
                   bv_editor = editor, bv_at = now\<rparr>])\<rparr>))"

definition mem_update_reply_body :: "instant \<Rightarrow> string \<Rightarrow> int \<Rightarrow> string \<Rightarrow> string \<Rightarrow> mem_store
    \<Rightarrow> (store_error + comment_reply) \<times> mem_store" where
  "mem_update_reply_body now i expected new_body editor m =
     (case map_of (ms_replies m) i of
        None \<Rightarrow> (Inl Comment_Not_Found, m)
      | Some r \<Rightarrow>
          if ry_rev r \<noteq> expected then (Inl Revision_Conflict, m)
          else
            let r' = r\<lparr>ry_body := new_body, ry_rev := ry_rev r + 1, ry_updated := now\<rparr> in
            (Inr r',
             m\<lparr>ms_replies := AList.update i r' (ms_replies m),
               ms_reply_revs := (ms_reply_revs m)(i := ms_reply_revs m i @
                 [\<lparr>bv_target = target_reply, bv_target_id = i, bv_old = ry_body r, bv_new = new_body,
                   bv_editor = editor, bv_at = now\<rparr>])\<rparr>))"

text \<open>\<open>sort.Slice\<close> leaves the order of revisions with equal times open; a stable sort is one such order,
  and no property below depends on it.\<close>

definition mem_history :: "string \<Rightarrow> mem_store \<Rightarrow> store_error + body_revision list \<times> status_event list" where
  "mem_history i m =
     (case map_of (ms_discussions m) i of
        None \<Rightarrow> Inl Comment_Not_Found
      | Some _ \<Rightarrow>
          Inr (sort_key bv_at (ms_body_revs m i @
                 concat (map (\<lambda>kr. if ry_discussion (snd kr) = i then ms_reply_revs m (ry_id (snd kr)) else [])
                   (ms_replies m))),
               ms_events m i))"

section \<open>The store in PostgreSQL\<close>

text \<open>
  Rows of the four tables (migration 00008), NULL as None, and the two identity sequences. A row is
  appended when it is inserted; a query that orders its rows sorts them by the column it names.
\<close>

record discussion_row =
  qd_id :: string
  qd_paper :: string
  qd_parse :: string
  qd_page :: int
  qd_block :: int
  qd_type :: string
  qd_scope :: string
  qd_status :: "string option"
  qd_body :: string
  qd_by :: string
  qd_model :: "string option"
  qd_rev :: int
  qd_created :: instant
  qd_updated :: instant

record reply_row =
  qr_id :: string
  qr_discussion :: string
  qr_body :: string
  qr_by :: string
  qr_model :: "string option"
  qr_rev :: int
  qr_created :: instant
  qr_updated :: instant

record event_row =
  qe_id :: nat
  qe_discussion :: string
  qe_from :: "string option"
  qe_to :: string
  qe_reason :: string
  qe_actor :: string
  qe_at :: instant

record revision_row =
  qb_id :: nat
  qb_target :: string
  qb_target_id :: string
  qb_old :: string
  qb_new :: string
  qb_editor :: string
  qb_at :: instant

record comment_tables =
  pg_discussions :: "discussion_row list"
  pg_replies :: "reply_row list"
  pg_events :: "event_row list"
  pg_revs :: "revision_row list"
  pg_event_seq :: nat
  pg_rev_seq :: nat

definition empty_tables :: comment_tables where
  "empty_tables =
     \<lparr>pg_discussions = [], pg_replies = [], pg_events = [], pg_revs = [], pg_event_seq = 1, pg_rev_seq = 1\<rparr>"

text \<open>
  What one call of the store meets: whether there is a pool, which of its database calls succeed (by
  their position in the method), what becomes of the commit, and which strings the server accepts as
  \<open>text\<close> (PostgreSQL refuses a zero byte and invalid UTF-8). The id is what \<open>newID\<close> mints, the
  instant is \<open>now()\<close>, the start of the transaction. A commit whose acknowledgement is lost has taken effect.
\<close>

record store_env =
  sv_pool :: bool
  sv_call :: "nat \<Rightarrow> bool"
  sv_commit :: commit_outcome
  sv_text :: "string \<Rightarrow> bool"
  sv_id :: string
  sv_now :: instant

text \<open>A value of the column type \<open>integer\<close>, as a stored value and as a parameter.\<close>

definition int4 :: "int \<Rightarrow> bool" where
  "int4 n \<longleftrightarrow> - (2 ^ 31) \<le> n \<and> n < 2 ^ 31"

definition null_str :: "string \<Rightarrow> string option" where
  "null_str s = (if s = [] then None else Some s)"

definition deref_str :: "string option \<Rightarrow> string" where
  "deref_str so = (case so of None \<Rightarrow> [] | Some s \<Rightarrow> s)"

definition discussion_of :: "comment_tables \<Rightarrow> discussion_row \<Rightarrow> discussion" where
  "discussion_of db r =
     \<lparr>ds_id = qd_id r, ds_paper = qd_paper r, ds_parse = qd_parse r, ds_page = qd_page r,
      ds_block = qd_block r, ds_type = qd_type r, ds_scope = qd_scope r,
      ds_status = deref_str (qd_status r), ds_body = qd_body r, ds_by = qd_by r,
      ds_model = deref_str (qd_model r), ds_rev = qd_rev r,
      ds_replies = length (filter (\<lambda>q. qr_discussion q = qd_id r) (pg_replies db)),
      ds_created = qd_created r, ds_updated = qd_updated r\<rparr>"

definition reply_of :: "reply_row \<Rightarrow> comment_reply" where
  "reply_of r =
     \<lparr>ry_id = qr_id r, ry_discussion = qr_discussion r, ry_body = qr_body r, ry_by = qr_by r,
      ry_model = deref_str (qr_model r), ry_rev = qr_rev r, ry_created = qr_created r,
      ry_updated = qr_updated r\<rparr>"

definition find_discussion :: "string \<Rightarrow> comment_tables \<Rightarrow> discussion_row option" where
  "find_discussion i db = find (\<lambda>r. qd_id r = i) (pg_discussions db)"

definition find_reply :: "string \<Rightarrow> comment_tables \<Rightarrow> reply_row option" where
  "find_reply i db = find (\<lambda>r. qr_id r = i) (pg_replies db)"

text \<open>
  The statements. An insert gives None when it fails: a refused text or integer, a CHECK, the primary
  key or the foreign key of the table.
\<close>

definition row_checks :: "discussion_row \<Rightarrow> bool" where
  "row_checks r \<longleftrightarrow>
     0 \<le> qd_page r \<and> 1 \<le> qd_block r \<and> qd_scope r \<in> set [scope_public, scope_lean] \<and>
     for_some (\<lambda>s. s \<in> set [status_pending, status_confirmed, status_retracted]) (qd_status r)"

definition insert_discussion :: "store_env \<Rightarrow> discussion_row \<Rightarrow> comment_tables \<Rightarrow> comment_tables option" where
  "insert_discussion env r db =
     (if list_all (sv_text env) [qd_id r, qd_paper r, qd_parse r, qd_type r, qd_scope r, qd_body r, qd_by r] \<and>
         for_some (sv_text env) (qd_status r) \<and> for_some (sv_text env) (qd_model r) \<and>
         int4 (qd_page r) \<and> int4 (qd_block r) \<and> row_checks r \<and>
         find_discussion (qd_id r) db = None
      then Some (db\<lparr>pg_discussions := pg_discussions db @ [r]\<rparr>) else None)"

definition insert_event :: "store_env \<Rightarrow> string \<Rightarrow> string option \<Rightarrow> string \<Rightarrow> string \<Rightarrow> string
    \<Rightarrow> comment_tables \<Rightarrow> comment_tables option" where
  "insert_event env i from to reason actor db =
     (if list_all (sv_text env) [i, to, reason, actor] \<and> for_some (sv_text env) from \<and>
         to \<in> set [status_pending, status_confirmed, status_retracted] \<and>
         find_discussion i db \<noteq> None
      then Some (db\<lparr>pg_events := pg_events db @
                     [\<lparr>qe_id = pg_event_seq db, qe_discussion = i, qe_from = from, qe_to = to,
                       qe_reason = reason, qe_actor = actor, qe_at = sv_now env\<rparr>],
                    pg_event_seq := pg_event_seq db + 1\<rparr>)
      else None)"

definition insert_revision :: "store_env \<Rightarrow> string \<Rightarrow> string \<Rightarrow> string \<Rightarrow> string \<Rightarrow> string
    \<Rightarrow> comment_tables \<Rightarrow> comment_tables option" where
  "insert_revision env target i old new editor db =
     (if list_all (sv_text env) [target, i, old, new, editor] \<and>
         target \<in> set [target_discussion, target_reply]
      then Some (db\<lparr>pg_revs := pg_revs db @
                     [\<lparr>qb_id = pg_rev_seq db, qb_target = target, qb_target_id = i, qb_old = old,
                       qb_new = new, qb_editor = editor, qb_at = sv_now env\<rparr>],
                    pg_rev_seq := pg_rev_seq db + 1\<rparr>)
      else None)"

definition insert_reply :: "store_env \<Rightarrow> reply_input \<Rightarrow> comment_tables \<Rightarrow> (nat \<times> comment_tables) option" where
  "insert_reply env x db =
     (if list_all (sv_text env) [sv_id env, rn_discussion x, rn_body x, rn_by x] \<and>
         for_some (sv_text env) (null_str (rn_model x))
      then case find_discussion (rn_discussion x) db of
             None \<Rightarrow> Some (0, db)
           | Some d \<Rightarrow>
               if find_reply (sv_id env) db \<noteq> None then None
               else Some (1, db\<lparr>pg_replies := pg_replies db @
                      [\<lparr>qr_id = sv_id env, qr_discussion = qd_id d, qr_body = rn_body x, qr_by = rn_by x,
                        qr_model = null_str (rn_model x), qr_rev = 1, qr_created = sv_now env,
                        qr_updated = sv_now env\<rparr>]\<rparr>)
      else None)"

definition update_discussion :: "string \<Rightarrow> (discussion_row \<Rightarrow> discussion_row) \<Rightarrow> comment_tables \<Rightarrow> comment_tables" where
  "update_discussion i g db =
     db\<lparr>pg_discussions := map (\<lambda>r. if qd_id r = i then g r else r) (pg_discussions db)\<rparr>"

definition update_reply :: "string \<Rightarrow> (reply_row \<Rightarrow> reply_row) \<Rightarrow> comment_tables \<Rightarrow> comment_tables" where
  "update_reply i g db =
     db\<lparr>pg_replies := map (\<lambda>r. if qr_id r = i then g r else r) (pg_replies db)\<rparr>"

definition get_discussion_tx :: "string \<Rightarrow> comment_tables \<Rightarrow> discussion option" where
  "get_discussion_tx i db = map_option (discussion_of db) (find_discussion i db)"

text \<open>The end of a transaction: the value for the caller and the tables the others see. A method that
  returns early rolls back.\<close>

definition commit_tx :: "store_env \<Rightarrow> comment_tables \<Rightarrow> 'r \<times> comment_tables \<Rightarrow> (store_error + 'r) \<times> comment_tables" where
  "commit_tx env db res =
     (case sv_commit env of
        Committed \<Rightarrow> (Inr (fst res), snd res)
      | Not_Committed \<Rightarrow> (Inl Store_Unavailable, db)
      | Ack_Lost \<Rightarrow> (Inl Store_Unavailable, snd res))"

definition db_call :: "store_env \<Rightarrow> nat \<Rightarrow> 'a option \<Rightarrow> 'a option" where
  "db_call env k x = (if sv_call env k then x else None)"

text \<open>A query for one row by its key: None when the call fails, \<open>Some None\<close> for \<open>ErrNoRows\<close>.\<close>

definition query_one :: "store_env \<Rightarrow> nat \<Rightarrow> string \<Rightarrow> 'a \<Rightarrow> 'a option" where
  "query_one env k i x = (if sv_text env i then db_call env k (Some x) else None)"

section \<open>The methods of the PostgreSQL store\<close>

definition new_discussion_row :: "store_env \<Rightarrow> discussion_input \<Rightarrow> discussion_row" where
  "new_discussion_row env x =
     \<lparr>qd_id = sv_id env, qd_paper = di_paper x, qd_parse = di_parse x, qd_page = di_page x,
      qd_block = di_block x, qd_type = di_type x, qd_scope = di_scope x,
      qd_status = null_str (di_status x), qd_body = di_body x, qd_by = di_by x,
      qd_model = null_str (di_model x), qd_rev = 1, qd_created = sv_now env, qd_updated = sv_now env\<rparr>"

definition initial_reason :: "string \<Rightarrow> string" where
  "initial_reason r = (if r = [] then ''initial status'' else r)"

definition pg_create_discussion :: "store_env \<Rightarrow> discussion_input \<Rightarrow> comment_tables
    \<Rightarrow> (store_error + discussion) \<times> comment_tables" where
  "pg_create_discussion env x db =
     (if \<not> sv_pool env then (Inl Store_Unavailable, db)
      else if \<not> sv_call env 0 then (Inl Store_Unavailable, db)
      else
        case db_call env 1 (insert_discussion env (new_discussion_row env x) db) of
          None \<Rightarrow> (Inl Store_Unavailable, db)
        | Some db1 \<Rightarrow>
            case (if di_status x \<noteq> []
                  then db_call env 2 (insert_event env (sv_id env) None (di_status x)
                         (initial_reason (di_reason x)) (di_by x) db1)
                  else Some db1) of
              None \<Rightarrow> (Inl Store_Unavailable, db)
            | Some db2 \<Rightarrow>
                case db_call env 3 (get_discussion_tx (sv_id env) db2) of
                  None \<Rightarrow> (Inl Store_Unavailable, db)
                | Some d \<Rightarrow> commit_tx env db (d, db2))"

text \<open>The WHERE clause of \<open>ListDiscussions\<close>; a comparison with NULL does not hold. The flooring is
  \<open>date_trunc\<close>, the order that of the row value \<open>(updated_at, discussion_id)\<close>.\<close>

definition pg_match :: "list_filter \<Rightarrow> discussion_row \<Rightarrow> bool" where
  "pg_match f r \<longleftrightarrow>
     qd_paper r = lf_paper f \<and>
     (lf_parse f \<noteq> [] \<longrightarrow> qd_parse r = lf_parse f) \<and>
     for_some (\<lambda>n. qd_page r = n) (lf_page f) \<and>
     for_some (\<lambda>n. qd_block r = n) (lf_block f) \<and>
     (lf_type f \<noteq> [] \<longrightarrow> qd_type r = lf_type f) \<and>
     (if lf_status_null f then qd_status r = None
      else for_some (\<lambda>s. qd_status r = Some s) (lf_status f)) \<and>
     (lf_scopes f \<noteq> [] \<longrightarrow> qd_scope r \<in> set (lf_scopes f)) \<and>
     (lf_cursor f \<noteq> [] \<longrightarrow> qd_id r < lf_cursor f) \<and>
     for_some (\<lambda>(t, i). t < truncate_ms (qd_updated r) \<or> truncate_ms (qd_updated r) = t \<and> i < qd_id r)
       (lf_since f)"

definition filter_texts :: "list_filter \<Rightarrow> string list" where
  "filter_texts f =
     lf_paper f # lf_parse f # lf_type f # lf_cursor f # lf_scopes f @
     (case lf_status f of None \<Rightarrow> [] | Some s \<Rightarrow> [s]) @ (case lf_since f of None \<Rightarrow> [] | Some (_, i) \<Rightarrow> [i])"

definition pg_list_discussions :: "store_env \<Rightarrow> list_filter \<Rightarrow> comment_tables \<Rightarrow> store_error + discussion list" where
  "pg_list_discussions env f db =
     (if \<not> sv_pool env then Inl Store_Unavailable
      else
        let limit = (if lf_limit f \<le> 0 then 1 else lf_limit f) in
        if \<not> sv_call env 0 \<or> \<not> for_some int4 (lf_page f) \<or> \<not> for_some int4 (lf_block f)
        then Inl Store_Unavailable
        else if \<not> sv_call env 1 \<or> \<not> list_all (sv_text env) (filter_texts f) then Inl Rows_Error
        else Inr (map (discussion_of db)
               (take (nat limit) (rev (sort_key qd_id (filter (pg_match f) (pg_discussions db)))))))"

definition pg_get_discussion :: "store_env \<Rightarrow> string \<Rightarrow> comment_tables \<Rightarrow> store_error + discussion option" where
  "pg_get_discussion env i db =
     (if \<not> sv_pool env then Inl Store_Unavailable
      else case query_one env 0 i (get_discussion_tx i db) of
             None \<Rightarrow> Inl Store_Unavailable
           | Some d \<Rightarrow> Inr d)"

definition pg_list_replies :: "store_env \<Rightarrow> string \<Rightarrow> string \<Rightarrow> int \<Rightarrow> comment_tables
    \<Rightarrow> store_error + comment_reply list" where
  "pg_list_replies env i after limit db =
     (if \<not> sv_pool env then Inl Store_Unavailable
      else
        let limit = (if limit \<le> 0 then 20 else limit) in
        case query_one env 0 i (find_discussion i db \<noteq> None) of
          None \<Rightarrow> Inl Store_Unavailable
        | Some False \<Rightarrow> Inl Comment_Not_Found
        | Some True \<Rightarrow>
            if \<not> sv_call env 1 then Inl Store_Unavailable
            else if \<not> sv_call env 2 \<or> \<not> sv_text env after then Inl Rows_Error
            else Inr (map reply_of (take (nat limit) (sort_key qr_id
                   (filter (\<lambda>r. qr_discussion r = i \<and> (after \<noteq> [] \<longrightarrow> after < qr_id r)) (pg_replies db))))))"

definition pg_create_reply :: "store_env \<Rightarrow> reply_input \<Rightarrow> comment_tables
    \<Rightarrow> (store_error + comment_reply) \<times> comment_tables" where
  "pg_create_reply env x db =
     (if \<not> sv_pool env then (Inl Store_Unavailable, db)
      else if \<not> sv_call env 0 then (Inl Store_Unavailable, db)
      else
        case db_call env 1 (insert_reply env x db) of
          None \<Rightarrow> (Inl Store_Unavailable, db)
        | Some (affected, db1) \<Rightarrow>
            if affected = 0 then (Inl Comment_Not_Found, db)
            else case db_call env 2 (find_reply (sv_id env) db1) of
                   None \<Rightarrow> (Inl Store_Unavailable, db)
                 | Some r \<Rightarrow> commit_tx env db (reply_of r, db1))"

definition pg_get_reply :: "store_env \<Rightarrow> string \<Rightarrow> comment_tables \<Rightarrow> store_error + comment_reply option" where
  "pg_get_reply env i db =
     (if \<not> sv_pool env then Inl Store_Unavailable
      else case query_one env 0 i (map_option reply_of (find_reply i db)) of
             None \<Rightarrow> Inl Store_Unavailable
           | Some r \<Rightarrow> Inr r)"

definition pg_set_status :: "store_env \<Rightarrow> string \<Rightarrow> string \<Rightarrow> string \<Rightarrow> string \<Rightarrow> comment_tables
    \<Rightarrow> (store_error + discussion) \<times> comment_tables" where
  "pg_set_status env i to reason actor db =
     (if \<not> sv_pool env then (Inl Store_Unavailable, db)
      else if reason = [] then (Inl Empty_Reason, db)
      else if \<not> sv_call env 0 then (Inl Store_Unavailable, db)
      else
        case query_one env 1 i (find_discussion i db) of
          None \<Rightarrow> (Inl Store_Unavailable, db)
        | Some None \<Rightarrow> (Inl Comment_Not_Found, db)
        | Some (Some r) \<Rightarrow>
            case db_call env 2 (insert_event env i (qd_status r) to reason actor db) of
              None \<Rightarrow> (Inl Store_Unavailable, db)
            | Some db1 \<Rightarrow>
                if \<not> sv_call env 3 then (Inl Store_Unavailable, db)
                else
                  let db2 = update_discussion i
                              (\<lambda>r. r\<lparr>qd_status := null_str to, qd_updated := sv_now env\<rparr>) db1
                  in case db_call env 4 (get_discussion_tx i db2) of
                       None \<Rightarrow> (Inl Store_Unavailable, db)
                     | Some d \<Rightarrow> commit_tx env db (d, db2))"

definition pg_update_discussion_body :: "store_env \<Rightarrow> string \<Rightarrow> int \<Rightarrow> string \<Rightarrow> string \<Rightarrow> comment_tables
    \<Rightarrow> (store_error + discussion) \<times> comment_tables" where
  "pg_update_discussion_body env i expected new_body editor db =
     (if \<not> sv_pool env then (Inl Store_Unavailable, db)
      else if \<not> sv_call env 0 then (Inl Store_Unavailable, db)
      else
        case query_one env 1 i (find_discussion i db) of
          None \<Rightarrow> (Inl Store_Unavailable, db)
        | Some None \<Rightarrow> (Inl Comment_Not_Found, db)
        | Some (Some r) \<Rightarrow>
            if qd_rev r \<noteq> expected then (Inl Revision_Conflict, db)
            else
              case db_call env 2 (insert_revision env target_discussion i (qd_body r) new_body editor db) of
                None \<Rightarrow> (Inl Store_Unavailable, db)
              | Some db1 \<Rightarrow>
                  if \<not> sv_call env 3 \<or> \<not> int4 (qd_rev r + 1) then (Inl Store_Unavailable, db)
                  else
                    let db2 = update_discussion i
                                (\<lambda>r. r\<lparr>qd_body := new_body, qd_rev := qd_rev r + 1, qd_updated := sv_now env\<rparr>) db1
                    in case db_call env 4 (get_discussion_tx i db2) of
                         None \<Rightarrow> (Inl Store_Unavailable, db)
                       | Some d \<Rightarrow> commit_tx env db (d, db2))"

definition pg_update_reply_body :: "store_env \<Rightarrow> string \<Rightarrow> int \<Rightarrow> string \<Rightarrow> string \<Rightarrow> comment_tables
    \<Rightarrow> (store_error + comment_reply) \<times> comment_tables" where
  "pg_update_reply_body env i expected new_body editor db =
     (if \<not> sv_pool env then (Inl Store_Unavailable, db)
      else if \<not> sv_call env 0 then (Inl Store_Unavailable, db)
      else
        case query_one env 1 i (find_reply i db) of
          None \<Rightarrow> (Inl Store_Unavailable, db)
        | Some None \<Rightarrow> (Inl Comment_Not_Found, db)
        | Some (Some r) \<Rightarrow>
            if qr_rev r \<noteq> expected then (Inl Revision_Conflict, db)
            else
              case db_call env 2 (insert_revision env target_reply i (qr_body r) new_body editor db) of
                None \<Rightarrow> (Inl Store_Unavailable, db)
              | Some db1 \<Rightarrow>
                  if \<not> sv_call env 3 \<or> \<not> int4 (qr_rev r + 1) then (Inl Store_Unavailable, db)
                  else
                    let db2 = update_reply i
                                (\<lambda>r. r\<lparr>qr_body := new_body, qr_rev := qr_rev r + 1, qr_updated := sv_now env\<rparr>) db1
                    in case db_call env 4 (find_reply i db2) of
                         None \<Rightarrow> (Inl Store_Unavailable, db)
                       | Some r' \<Rightarrow> commit_tx env db (reply_of r', db2))"

definition event_of :: "event_row \<Rightarrow> status_event" where
  "event_of e =
     \<lparr>se_from = deref_str (qe_from e), se_to = qe_to e, se_reason = qe_reason e, se_actor = qe_actor e,
      se_at = qe_at e\<rparr>"

definition revision_of :: "revision_row \<Rightarrow> body_revision" where
  "revision_of b =
     \<lparr>bv_target = qb_target b, bv_target_id = qb_target_id b, bv_old = qb_old b, bv_new = qb_new b,
      bv_editor = qb_editor b, bv_at = qb_at b\<rparr>"

definition pg_history :: "store_env \<Rightarrow> string \<Rightarrow> comment_tables
    \<Rightarrow> store_error + body_revision list \<times> status_event list" where
  "pg_history env i db =
     (if \<not> sv_pool env then Inl Store_Unavailable
      else
        case query_one env 0 i (find_discussion i db \<noteq> None) of
          None \<Rightarrow> Inl Store_Unavailable
        | Some False \<Rightarrow> Inl Comment_Not_Found
        | Some True \<Rightarrow>
            if \<not> sv_call env 1 \<or> \<not> sv_call env 2 then Inl Store_Unavailable
            else
              Inr (map revision_of (sort_key qb_id (filter (\<lambda>b.
                     qb_target b = target_discussion \<and> qb_target_id b = i \<or>
                     qb_target b = target_reply \<and>
                     qb_target_id b \<in> set (map qr_id (filter (\<lambda>r. qr_discussion r = i) (pg_replies db))))
                     (pg_revs db))),
                   map event_of (sort_key qe_id (filter (\<lambda>e. qe_discussion e = i) (pg_events db)))))"

section \<open>Operations and the abstraction\<close>

datatype store_op =
    Op_Create discussion_input
  | Op_Reply reply_input
  | Op_Status string string string string
  | Op_Edit string int string string
  | Op_Edit_Reply string int string string

datatype store_result = Res_Error store_error | Res_Discussion discussion | Res_Reply comment_reply

abbreviation discussion_result :: "(store_error + discussion) \<times> 's \<Rightarrow> store_result \<times> 's" where
  "discussion_result \<equiv> map_prod (case_sum Res_Error Res_Discussion) id"

abbreviation reply_result :: "(store_error + comment_reply) \<times> 's \<Rightarrow> store_result \<times> 's" where
  "reply_result \<equiv> map_prod (case_sum Res_Error Res_Reply) id"

fun pg_exec :: "store_env \<Rightarrow> store_op \<Rightarrow> comment_tables \<Rightarrow> store_result \<times> comment_tables" where
  "pg_exec env (Op_Create x) db = discussion_result (pg_create_discussion env x db)"
| "pg_exec env (Op_Reply x) db = reply_result (pg_create_reply env x db)"
| "pg_exec env (Op_Status i to reason actor) db = discussion_result (pg_set_status env i to reason actor db)"
| "pg_exec env (Op_Edit i expected body editor) db =
     discussion_result (pg_update_discussion_body env i expected body editor db)"
| "pg_exec env (Op_Edit_Reply i expected body editor) db =
     reply_result (pg_update_reply_body env i expected body editor db)"

fun mem_exec :: "string \<Rightarrow> instant \<Rightarrow> store_op \<Rightarrow> mem_store \<Rightarrow> store_result \<times> mem_store" where
  "mem_exec i0 now (Op_Create x) m = discussion_result (mem_create_discussion i0 now x m)"
| "mem_exec i0 now (Op_Reply x) m = reply_result (mem_create_reply i0 now x m)"
| "mem_exec i0 now (Op_Status i to reason actor) m = discussion_result (mem_set_status now i to reason actor m)"
| "mem_exec i0 now (Op_Edit i expected body editor) m =
     discussion_result (mem_update_discussion_body now i expected body editor m)"
| "mem_exec i0 now (Op_Edit_Reply i expected body editor) m =
     reply_result (mem_update_reply_body now i expected body editor m)"

text \<open>What the tables stand for. The reply count is computed when a discussion is read, so the stored
  discussion has none.\<close>

definition stored_discussion :: "discussion_row \<Rightarrow> discussion" where
  "stored_discussion r = discussion_of empty_tables r"

definition revisions_of :: "string \<Rightarrow> string \<Rightarrow> comment_tables \<Rightarrow> revision_row list" where
  "revisions_of target i db = filter (\<lambda>b. qb_target b = target \<and> qb_target_id b = i) (pg_revs db)"

definition events_of :: "string \<Rightarrow> comment_tables \<Rightarrow> event_row list" where
  "events_of i db = filter (\<lambda>e. qe_discussion e = i) (pg_events db)"

definition tables_abs :: "comment_tables \<Rightarrow> mem_store" where
  "tables_abs db =
     \<lparr>ms_discussions = map (\<lambda>r. (qd_id r, stored_discussion r)) (pg_discussions db),
      ms_replies = map (\<lambda>r. (qr_id r, reply_of r)) (pg_replies db),
      ms_body_revs = (\<lambda>i. map revision_of (revisions_of target_discussion i db)),
      ms_events = (\<lambda>i. map event_of (events_of i db)),
      ms_reply_revs = (\<lambda>i. map revision_of (revisions_of target_reply i db))\<rparr>"

text \<open>Well-formed tables: the keys, the CHECKs, the foreign keys and the identity columns.\<close>

definition tables_ok :: "comment_tables \<Rightarrow> bool" where
  "tables_ok db \<longleftrightarrow>
     distinct (map qd_id (pg_discussions db)) \<and> distinct (map qr_id (pg_replies db)) \<and>
     list_all row_checks (pg_discussions db) \<and>
     qr_discussion ` set (pg_replies db) \<subseteq> qd_id ` set (pg_discussions db) \<and>
     qe_discussion ` set (pg_events db) \<subseteq> qd_id ` set (pg_discussions db) \<and>
     sorted_wrt (<) (map qe_id (pg_events db)) \<and> (\<forall>e\<in>set (pg_events db). qe_id e < pg_event_seq db) \<and>
     sorted_wrt (<) (map qb_id (pg_revs db)) \<and> (\<forall>b\<in>set (pg_revs db). qb_id b < pg_rev_seq db) \<and>
     (\<forall>b\<in>set (pg_revs db).
        qb_target b = target_discussion \<and> qb_target_id b \<in> qd_id ` set (pg_discussions db) \<or>
        qb_target b = target_reply \<and> qb_target_id b \<in> qr_id ` set (pg_replies db))"

text \<open>A result without the reply count, and an operation with the reason that the tables record.\<close>

fun without_count :: "store_result \<Rightarrow> store_result" where
  "without_count (Res_Discussion d) = Res_Discussion (d\<lparr>ds_replies := 0\<rparr>)"
| "without_count r = r"

fun with_reason :: "store_op \<Rightarrow> store_op" where
  "with_reason (Op_Create x) = Op_Create (x\<lparr>di_reason := initial_reason (di_reason x)\<rparr>)"
| "with_reason op = op"

section \<open>Lemmas on rows\<close>

lemma find_key: "find (\<lambda>r. k r = i) rs = Some r \<Longrightarrow> r \<in> set rs \<and> k r = i"
  by (auto simp: find_Some_iff)

lemma find_key_iff:
  "distinct (map k rs) \<Longrightarrow> find (\<lambda>r. k r = i) rs = Some r \<longleftrightarrow> r \<in> set rs \<and> k r = i"
  by (induction rs) auto

lemma find_key_None: "find (\<lambda>r. k r = i) rs = None \<longleftrightarrow> i \<notin> k ` set rs"
  by (auto simp: find_None_iff)

lemma map_of_keyed: "map_of (map (\<lambda>r. (k r, f r)) rs) i = map_option f (find (\<lambda>r. k r = i) rs)"
  by (induction rs) auto

lemma find_mapped:
  "(\<And>r. k (g r) = k r) \<Longrightarrow>
   find (\<lambda>r. k r = i) (map (\<lambda>r. if k r = i then g r else r) rs) = map_option g (find (\<lambda>r. k r = i) rs)"
  by (induction rs) auto

lemma find_append:
  "find P (xs @ ys) = (case find P xs of None \<Rightarrow> find P ys | Some x \<Rightarrow> Some x)"
  by (induction xs) auto

lemma keys_mapped:
  "(\<And>r. k (g r) = k r) \<Longrightarrow> map k (map (\<lambda>r. if k r = i then g r else r) rs) = map k rs"
  by (induction rs) auto

lemma update_keyed_new:
  "i \<notin> k ` set rs \<Longrightarrow> AList.update i v (map (\<lambda>r. (k r, f r)) rs) = map (\<lambda>r. (k r, f r)) rs @ [(i, v)]"
  by (induction rs) auto

lemma update_keyed_absent:
  "i \<notin> k ` set rs \<Longrightarrow> map (\<lambda>r. (k r, f r)) (map (\<lambda>r. if k r = i then g r else r) rs) = map (\<lambda>r. (k r, f r)) rs"
  by (induction rs) auto

lemma update_keyed:
  assumes "distinct (map k rs)" and "find (\<lambda>r. k r = i) rs = Some r0"
    and "\<And>r. k (g r) = k r" and "v = f (g r0)"
  shows "AList.update i v (map (\<lambda>r. (k r, f r)) rs)
           = map (\<lambda>r. (k r, f r)) (map (\<lambda>r. if k r = i then g r else r) rs)"
  using assms
proof (induction rs)
  case (Cons r rs)
  show ?case
  proof (cases "k r = i")
    case True
    with Cons.prems have "i \<notin> k ` set rs" by auto
    then have "map (\<lambda>r. (k r, f r)) (map (\<lambda>r. if k r = i then g r else r) rs) = map (\<lambda>r. (k r, f r)) rs"
      by (rule update_keyed_absent)
    with True Cons.prems show ?thesis by simp
  next
    case False
    with Cons show ?thesis by simp
  qed
qed simp

lemma sort_key_increasing: "sorted_wrt (<) (map k xs) \<Longrightarrow> sort_key k (xs :: 'a list) = xs"
  for k :: "'a \<Rightarrow> nat"
  by (rule sort_key_id_if_sorted) (simp add: strict_sorted_iff)

lemma sorted_map_filter: "sorted_wrt (<) (map k xs) \<Longrightarrow> sorted_wrt (<) (map k (filter P xs))"
  by (induction xs) auto

lemma deref_null_str [simp]: "deref_str (null_str s) = s"
  by (simp add: deref_str_def null_str_def)

lemma targets_distinct [simp]: "target_discussion \<noteq> target_reply" "target_reply \<noteq> target_discussion"
  by (simp_all add: target_discussion_def target_reply_def)

lemma discussion_of_count: "(discussion_of db r)\<lparr>ds_replies := 0\<rparr> = stored_discussion r"
  by (simp add: discussion_of_def stored_discussion_def empty_tables_def)

lemma abs_discussion [simp]:
  "map_of (ms_discussions (tables_abs db)) i = map_option stored_discussion (find_discussion i db)"
  by (simp add: tables_abs_def find_discussion_def map_of_keyed)

lemma abs_reply [simp]:
  "map_of (ms_replies (tables_abs db)) i = map_option reply_of (find_reply i db)"
  by (simp add: tables_abs_def find_reply_def map_of_keyed)

lemma find_discussionD: "find_discussion i db = Some r \<Longrightarrow> r \<in> set (pg_discussions db) \<and> qd_id r = i"
  unfolding find_discussion_def by (rule find_key)

lemma find_replyD: "find_reply i db = Some r \<Longrightarrow> r \<in> set (pg_replies db) \<and> qr_id r = i"
  unfolding find_reply_def by (rule find_key)

lemma tables_okD:
  assumes "tables_ok db"
  shows "distinct (map qd_id (pg_discussions db))" "distinct (map qr_id (pg_replies db))"
    "r \<in> set (pg_replies db) \<Longrightarrow> qr_discussion r \<in> qd_id ` set (pg_discussions db)"
    "sorted_wrt (<) (map qe_id (pg_events db))" "sorted_wrt (<) (map qb_id (pg_revs db))"
  using assms by (auto simp: tables_ok_def)

section \<open>The statements on the tables\<close>

lemma event_inserted:
  assumes "insert_event env i from to reason actor db = Some db'" and "tables_ok db"
  shows "tables_ok db'"
    and "tables_abs db' = (tables_abs db)\<lparr>ms_events := (ms_events (tables_abs db))
           (i := ms_events (tables_abs db) i @
              [\<lparr>se_from = deref_str from, se_to = to, se_reason = reason, se_actor = actor, se_at = sv_now env\<rparr>])\<rparr>"
    and "find_discussion j db' = find_discussion j db"
    and "pg_discussions db' = pg_discussions db" and "pg_replies db' = pg_replies db"
    and "pg_revs db' = pg_revs db"
    and "events_of j db' = events_of j db @ (if j = i then
           [\<lparr>qe_id = pg_event_seq db, qe_discussion = i, qe_from = from, qe_to = to, qe_reason = reason,
             qe_actor = actor, qe_at = sv_now env\<rparr>] else [])"
proof -
  let ?e = "\<lparr>qe_id = pg_event_seq db, qe_discussion = i, qe_from = from, qe_to = to,
      qe_reason = reason, qe_actor = actor, qe_at = sv_now env\<rparr>"
  have eq: "db' = db\<lparr>pg_events := pg_events db @ [?e], pg_event_seq := pg_event_seq db + 1\<rparr>"
    and "find_discussion i db \<noteq> None"
    using assms(1) by (simp_all add: insert_event_def split: if_splits)
  then have i: "i \<in> qd_id ` set (pg_discussions db)"
    by (simp add: find_discussion_def find_key_None)
  have "tables_ok db \<Longrightarrow> tables_ok (db\<lparr>pg_events := pg_events db @ [?e], pg_event_seq := pg_event_seq db + 1\<rparr>)"
    using i by (simp add: tables_ok_def sorted_wrt_append less_Suc_eq)
  with assms(2) show "tables_ok db'" by (simp only: eq)
  show "tables_abs db' = (tables_abs db)\<lparr>ms_events := (ms_events (tables_abs db))
           (i := ms_events (tables_abs db) i @
              [\<lparr>se_from = deref_str from, se_to = to, se_reason = reason, se_actor = actor, se_at = sv_now env\<rparr>])\<rparr>"
    by (simp add: eq tables_abs_def events_of_def revisions_of_def event_of_def fun_eq_iff)
  show "find_discussion j db' = find_discussion j db" by (simp add: eq find_discussion_def)
  show "events_of j db' = events_of j db @ (if j = i then [?e] else [])" by (simp add: eq events_of_def)
  show "pg_discussions db' = pg_discussions db" "pg_replies db' = pg_replies db" "pg_revs db' = pg_revs db"
    by (simp_all add: eq)
qed

lemma revision_inserted:
  assumes "insert_revision env target i old new editor db = Some db'"
  shows "tables_ok db \<Longrightarrow> target = target_discussion \<and> find_discussion i db \<noteq> None \<or>
           target = target_reply \<and> find_reply i db \<noteq> None \<Longrightarrow> tables_ok db'"
    and "target = target_discussion \<Longrightarrow> tables_abs db' = (tables_abs db)\<lparr>ms_body_revs := (ms_body_revs (tables_abs db))
           (i := ms_body_revs (tables_abs db) i @
              [\<lparr>bv_target = target, bv_target_id = i, bv_old = old, bv_new = new, bv_editor = editor,
                bv_at = sv_now env\<rparr>])\<rparr>"
    and "target = target_reply \<Longrightarrow> tables_abs db' = (tables_abs db)\<lparr>ms_reply_revs := (ms_reply_revs (tables_abs db))
           (i := ms_reply_revs (tables_abs db) i @
              [\<lparr>bv_target = target, bv_target_id = i, bv_old = old, bv_new = new, bv_editor = editor,
                bv_at = sv_now env\<rparr>])\<rparr>"
    and "pg_discussions db' = pg_discussions db" and "pg_replies db' = pg_replies db"
    and "pg_events db' = pg_events db"
    and "revisions_of tg j db' = revisions_of tg j db @ (if tg = target \<and> j = i then
           [\<lparr>qb_id = pg_rev_seq db, qb_target = target, qb_target_id = i, qb_old = old, qb_new = new,
             qb_editor = editor, qb_at = sv_now env\<rparr>] else [])"
proof -
  let ?b = "\<lparr>qb_id = pg_rev_seq db, qb_target = target, qb_target_id = i, qb_old = old, qb_new = new,
      qb_editor = editor, qb_at = sv_now env\<rparr>"
  have eq: "db' = db\<lparr>pg_revs := pg_revs db @ [?b], pg_rev_seq := pg_rev_seq db + 1\<rparr>"
    using assms(1) by (simp add: insert_revision_def split: if_splits)
  show "tables_ok db'" if "tables_ok db" and t: "target = target_discussion \<and> find_discussion i db \<noteq> None \<or>
           target = target_reply \<and> find_reply i db \<noteq> None"
  proof -
    from t have "target = target_discussion \<and> i \<in> qd_id ` set (pg_discussions db) \<or>
        target = target_reply \<and> i \<in> qr_id ` set (pg_replies db)"
      by (simp add: find_discussion_def find_reply_def find_key_None)
    with \<open>tables_ok db\<close> have "tables_ok (db\<lparr>pg_revs := pg_revs db @ [?b], pg_rev_seq := pg_rev_seq db + 1\<rparr>)"
      by (simp add: tables_ok_def sorted_wrt_append less_Suc_eq)
    then show ?thesis by (simp only: eq)
  qed
  show "revisions_of tg j db' = revisions_of tg j db @ (if tg = target \<and> j = i then [?b] else [])"
    by (simp add: eq revisions_of_def)
  show "target = target_discussion \<Longrightarrow> tables_abs db' = (tables_abs db)\<lparr>ms_body_revs := (ms_body_revs (tables_abs db))
           (i := ms_body_revs (tables_abs db) i @
              [\<lparr>bv_target = target, bv_target_id = i, bv_old = old, bv_new = new, bv_editor = editor,
                bv_at = sv_now env\<rparr>])\<rparr>"
    and "target = target_reply \<Longrightarrow> tables_abs db' = (tables_abs db)\<lparr>ms_reply_revs := (ms_reply_revs (tables_abs db))
           (i := ms_reply_revs (tables_abs db) i @
              [\<lparr>bv_target = target, bv_target_id = i, bv_old = old, bv_new = new, bv_editor = editor,
                bv_at = sv_now env\<rparr>])\<rparr>"
    by (simp_all add: eq tables_abs_def events_of_def revisions_of_def revision_of_def fun_eq_iff)
  show "pg_discussions db' = pg_discussions db" "pg_replies db' = pg_replies db" "pg_events db' = pg_events db"
    by (simp_all add: eq)
qed

lemma discussion_updated:
  assumes "tables_ok db" and "\<And>r. qd_id (g r) = qd_id r" and "\<And>r. row_checks r \<Longrightarrow> row_checks (g r)"
  shows "tables_ok (update_discussion i g db)"
    and "find_discussion i (update_discussion i g db) = map_option g (find_discussion i db)"
    and "find_discussion i db = Some r0 \<Longrightarrow> tables_abs (update_discussion i g db)
           = (tables_abs db)\<lparr>ms_discussions := AList.update i (stored_discussion (g r0)) (ms_discussions (tables_abs db))\<rparr>"
proof -
  have keys: "map qd_id (map (\<lambda>r. if qd_id r = i then g r else r) (pg_discussions db)) = map qd_id (pg_discussions db)"
    by (rule keys_mapped) (rule assms(2))
  then have img: "qd_id ` (\<lambda>r. if qd_id r = i then g r else r) ` set (pg_discussions db) = qd_id ` set (pg_discussions db)"
    by (metis list.set_map)
  have checks: "list_all row_checks (map (\<lambda>r. if qd_id r = i then g r else r) (pg_discussions db))"
    using assms(1,3) by (auto simp: tables_ok_def list_all_iff)
  show "tables_ok (update_discussion i g db)"
    using assms(1) keys img checks by (simp add: update_discussion_def tables_ok_def del: map_map)
  show "find_discussion i (update_discussion i g db) = map_option g (find_discussion i db)"
    using assms(2) by (simp add: update_discussion_def find_discussion_def find_mapped)
  show "tables_abs (update_discussion i g db)
      = (tables_abs db)\<lparr>ms_discussions := AList.update i (stored_discussion (g r0)) (ms_discussions (tables_abs db))\<rparr>"
    if "find_discussion i db = Some r0"
    using update_keyed [OF tables_okD(1) [OF assms(1)] that [unfolded find_discussion_def] assms(2) refl,
        where f = stored_discussion]
    by (simp add: update_discussion_def tables_abs_def revisions_of_def events_of_def fun_eq_iff del: map_map)
qed

lemma reply_updated:
  assumes "tables_ok db" and "\<And>r. qr_id (g r) = qr_id r" and "\<And>r. qr_discussion (g r) = qr_discussion r"
  shows "tables_ok (update_reply i g db)"
    and "find_reply i (update_reply i g db) = map_option g (find_reply i db)"
    and "find_reply i db = Some r0 \<Longrightarrow> tables_abs (update_reply i g db)
           = (tables_abs db)\<lparr>ms_replies := AList.update i (reply_of (g r0)) (ms_replies (tables_abs db))\<rparr>"
proof -
  have keys: "map qr_id (map (\<lambda>r. if qr_id r = i then g r else r) (pg_replies db)) = map qr_id (pg_replies db)"
    by (rule keys_mapped) (rule assms(2))
  then have img: "qr_id ` (\<lambda>r. if qr_id r = i then g r else r) ` set (pg_replies db) = qr_id ` set (pg_replies db)"
    by (metis list.set_map)
  have disc: "qr_discussion ` (\<lambda>r. if qr_id r = i then g r else r) ` set (pg_replies db) = qr_discussion ` set (pg_replies db)"
    unfolding image_image using assms(3) by (intro image_cong refl) simp
  show "tables_ok (update_reply i g db)"
    using assms(1) keys img disc by (simp add: update_reply_def tables_ok_def del: map_map)
  show "find_reply i (update_reply i g db) = map_option g (find_reply i db)"
    using assms(2) by (simp add: update_reply_def find_reply_def find_mapped)
  show "tables_abs (update_reply i g db)
      = (tables_abs db)\<lparr>ms_replies := AList.update i (reply_of (g r0)) (ms_replies (tables_abs db))\<rparr>"
    if "find_reply i db = Some r0"
    using update_keyed [OF tables_okD(2) [OF assms(1)] that [unfolded find_reply_def] assms(2) refl,
        where f = reply_of]
    by (simp add: update_reply_def tables_abs_def revisions_of_def events_of_def fun_eq_iff del: map_map)
qed

lemma discussion_inserted:
  assumes "insert_discussion env (new_discussion_row env x) db = Some db'" and "tables_ok db"
  shows "tables_ok db'" and "find_discussion (sv_id env) db = None"
    and "find_discussion (sv_id env) db' = Some (new_discussion_row env x)"
    and "tables_abs db' = (tables_abs db)\<lparr>ms_discussions := AList.update (sv_id env)
           (stored_discussion (new_discussion_row env x)) (ms_discussions (tables_abs db))\<rparr>"
    and "db' = db\<lparr>pg_discussions := pg_discussions db @ [new_discussion_row env x]\<rparr>"
proof -
  show new: "find_discussion (sv_id env) db = None"
    and eq: "db' = db\<lparr>pg_discussions := pg_discussions db @ [new_discussion_row env x]\<rparr>"
    using assms(1) by (auto simp: insert_discussion_def new_discussion_row_def split: if_splits)
  then have i: "sv_id env \<notin> qd_id ` set (pg_discussions db)" and ri: "qd_id (new_discussion_row env x) = sv_id env"
    by (simp_all add: find_discussion_def find_key_None new_discussion_row_def)
  have "row_checks (new_discussion_row env x)" using assms(1) by (simp add: insert_discussion_def split: if_splits)
  with assms(2) i ri show "tables_ok db'" by (auto simp: eq tables_ok_def)
  show "find_discussion (sv_id env) db' = Some (new_discussion_row env x)"
    using new ri by (simp add: eq find_discussion_def find_append)
  show "tables_abs db' = (tables_abs db)\<lparr>ms_discussions := AList.update (sv_id env)
      (stored_discussion (new_discussion_row env x)) (ms_discussions (tables_abs db))\<rparr>"
    using i ri by (simp add: eq tables_abs_def update_keyed_new revisions_of_def events_of_def fun_eq_iff)
qed

lemma reply_inserted:
  assumes "insert_reply env x db = Some (n, db')" and "tables_ok db"
  shows "n = 0 \<and> find_discussion (rn_discussion x) db = None \<and> db' = db \<or>
    n = 1 \<and> find_discussion (rn_discussion x) db \<noteq> None \<and> find_reply (sv_id env) db = None \<and> tables_ok db' \<and>
    (\<exists>r. find_reply (sv_id env) db' = Some r \<and>
       mem_create_reply (sv_id env) (sv_now env) x (tables_abs db) = (Inr (reply_of r), tables_abs db') \<and>
       qr_id r = sv_id env \<and> qr_discussion r = rn_discussion x \<and> qr_body r = rn_body x \<and> qr_by r = rn_by x \<and>
       qr_rev r = 1 \<and> db' = db\<lparr>pg_replies := pg_replies db @ [r]\<rparr>)"
proof (cases "find_discussion (rn_discussion x) db")
  case None
  with assms(1) show ?thesis by (simp add: insert_reply_def split: if_splits)
next
  case (Some d)
  let ?r = "\<lparr>qr_id = sv_id env, qr_discussion = rn_discussion x, qr_body = rn_body x, qr_by = rn_by x,
      qr_model = null_str (rn_model x), qr_rev = 1, qr_created = sv_now env, qr_updated = sv_now env\<rparr>"
  from Some have d: "d \<in> set (pg_discussions db)" "qd_id d = rn_discussion x"
    by (simp_all add: find_discussionD)
  with assms(1) Some have new: "find_reply (sv_id env) db = None"
    and eq: "db' = db\<lparr>pg_replies := pg_replies db @ [?r]\<rparr>" and n: "n = 1"
    by (simp_all add: insert_reply_def split: if_splits)
  from new have i: "sv_id env \<notin> qr_id ` set (pg_replies db)" by (simp add: find_reply_def find_key_None)
  have "rn_discussion x \<in> qd_id ` set (pg_discussions db)" using d by force
  with assms(2) i have "tables_ok (db\<lparr>pg_replies := pg_replies db @ [?r]\<rparr>)" by (auto simp: tables_ok_def)
  moreover have "find_reply (sv_id env) (db\<lparr>pg_replies := pg_replies db @ [?r]\<rparr>) = Some ?r"
    using new by (simp add: find_reply_def find_append)
  moreover have "mem_create_reply (sv_id env) (sv_now env) x (tables_abs db)
      = (Inr (reply_of ?r), tables_abs (db\<lparr>pg_replies := pg_replies db @ [?r]\<rparr>))"
    using Some i by (simp add: mem_create_reply_def reply_of_def) (simp add: tables_abs_def update_keyed_new
        revisions_of_def events_of_def reply_of_def Let_def)
  ultimately show ?thesis using Some n new by (intro disjI2) (simp add: eq)
qed

section \<open>Every operation is the specified one, or none\<close>

text \<open>An operation that takes effect has met a fresh id.\<close>

fun fresh_id :: "string \<Rightarrow> store_op \<Rightarrow> mem_store \<Rightarrow> bool" where
  "fresh_id i (Op_Create x) m = (map_of (ms_discussions m) i = None)"
| "fresh_id i (Op_Reply x) m = (map_of (ms_replies m) i = None)"
| "fresh_id i op m = True"

definition simulated :: "store_env \<Rightarrow> store_op \<Rightarrow> comment_tables \<Rightarrow> store_result \<times> comment_tables \<Rightarrow> bool" where
  "simulated env op db res \<longleftrightarrow>
     tables_ok (snd res) \<and>
     ((\<exists>e. res = (Res_Error e, db) \<and>
         (e = Store_Unavailable \<or>
          (\<exists>e'. mem_exec (sv_id env) (sv_now env) (with_reason op) (tables_abs db) = (Res_Error e', tables_abs db) \<and>
             (e \<noteq> Empty_Reason \<longrightarrow> e' = e)))) \<or>
      (\<exists>r0. mem_exec (sv_id env) (sv_now env) (with_reason op) (tables_abs db) = (r0, tables_abs (snd res)) \<and>
         (\<forall>e. r0 \<noteq> Res_Error e) \<and> fresh_id (sv_id env) op (tables_abs db) \<and>
         (without_count (fst res) = r0 \<or>
          fst res = Res_Error Store_Unavailable \<and> sv_commit env = Ack_Lost)))"

lemma simulated_unavailable: "tables_ok db \<Longrightarrow> simulated env op db (Res_Error Store_Unavailable, db)"
  by (simp add: simulated_def)

lemma simulated_error:
  "tables_ok db \<Longrightarrow>
   mem_exec (sv_id env) (sv_now env) (with_reason op) (tables_abs db) = (Res_Error e', tables_abs db) \<Longrightarrow>
   (e \<noteq> Empty_Reason \<Longrightarrow> e' = e) \<Longrightarrow> simulated env op db (Res_Error e, db)"
  by (auto simp: simulated_def)

lemma simulated_commit:
  assumes "tables_ok db" and "tables_ok db2" and "\<And>e. ro \<noteq> Res_Error e"
    and "fresh_id (sv_id env) op (tables_abs db)"
    and "mem_exec (sv_id env) (sv_now env) (with_reason op) (tables_abs db) = (ro, tables_abs db2)"
    and "without_count (f x) = ro"
  shows "simulated env op db (map_prod (case_sum Res_Error f) id (commit_tx env db (x, db2)))"
  using assms by (cases "sv_commit env") (auto simp: simulated_def commit_tx_def)

lemma db_call_Some: "db_call env k x = Some y \<longleftrightarrow> sv_call env k \<and> x = Some y"
  by (simp add: db_call_def)

lemma query_one_Some: "query_one env k i x = Some y \<longleftrightarrow> sv_text env i \<and> sv_call env k \<and> x = y"
  by (auto simp: query_one_def db_call_def)

lemma db_call_None: "db_call env k x = None \<longleftrightarrow> \<not> sv_call env k \<or> x = None"
  by (simp add: db_call_def)

lemma query_one_None: "query_one env k i x = None \<longleftrightarrow> \<not> sv_text env i \<or> \<not> sv_call env k"
  by (simp add: query_one_def db_call_def)

lemmas tx_simps = db_call_Some query_one_Some db_call_None query_one_None

lemma stored_revs [simp]: "ds_rev (stored_discussion r) = qd_rev r" "ry_rev (reply_of q) = qr_rev q"
  by (simp_all add: stored_discussion_def discussion_of_def reply_of_def)

lemma with_reason_id: "(\<And>x. op \<noteq> Op_Create x) \<Longrightarrow> with_reason op = op"
  by (cases op) auto

lemma set_status_simulated:
  assumes "tables_ok db"
  shows "simulated env (Op_Status i to reason actor) db (pg_exec env (Op_Status i to reason actor) db)"
proof (cases "\<exists>e. pg_set_status env i to reason actor db = (Inl e, db)")
  case True
  then obtain e where e: "pg_set_status env i to reason actor db = (Inl e, db)" ..
  show ?thesis
  proof (cases "e = Store_Unavailable")
    case False
    with e show ?thesis
      by (auto simp: pg_set_status_def tx_simps Let_def commit_tx_def mem_set_status_def assms
            simulated_def split: if_splits option.splits commit_outcome.splits)
  qed (simp add: e assms simulated_unavailable)
next
  case False
  let ?g = "\<lambda>r :: discussion_row. r\<lparr>qd_status := null_str to, qd_updated := sv_now env\<rparr>"
  from False have "\<exists>r db1 d. reason \<noteq> [] \<and> find_discussion i db = Some r \<and>
      insert_event env i (qd_status r) to reason actor db = Some db1 \<and>
      get_discussion_tx i (update_discussion i ?g db1) = Some d \<and>
      pg_set_status env i to reason actor db = commit_tx env db (d, update_discussion i ?g db1)"
    by (auto simp: pg_set_status_def tx_simps Let_def split: if_splits option.splits)
  then obtain r db1 d where reason: "reason \<noteq> []" and r: "find_discussion i db = Some r"
    and ev: "insert_event env i (qd_status r) to reason actor db = Some db1"
    and d: "get_discussion_tx i (update_discussion i ?g db1) = Some d"
    and run: "pg_set_status env i to reason actor db = commit_tx env db (d, update_discussion i ?g db1)"
    by blast
  note e = event_inserted [OF ev assms]
  have ck: "row_checks r \<Longrightarrow> row_checks (?g r)" for r
    using ev by (auto simp: insert_event_def row_checks_def null_str_def split: if_splits)
  have u: "tables_ok (update_discussion i ?g db1)"
    "find_discussion i (update_discussion i ?g db1) = Some (?g r)"
    "tables_abs (update_discussion i ?g db1) = (tables_abs db1)\<lparr>ms_discussions :=
       AList.update i (stored_discussion (?g r)) (ms_discussions (tables_abs db1))\<rparr>"
    using discussion_updated [of db1 ?g i] e(1,3) r ck by simp_all
  have "simulated env (Op_Status i to reason actor) db
      (discussion_result (commit_tx env db (d, update_discussion i ?g db1)))"
  proof (rule simulated_commit [OF assms u(1), where ro = "Res_Discussion (stored_discussion (?g r))"])
    show "without_count (Res_Discussion d) = Res_Discussion (stored_discussion (?g r))"
      using d u(2) by (auto simp: get_discussion_tx_def discussion_of_count)
    show "mem_exec (sv_id env) (sv_now env) (with_reason (Op_Status i to reason actor)) (tables_abs db)
        = (Res_Discussion (stored_discussion (?g r)), tables_abs (update_discussion i ?g db1))"
      using r reason u(3) e(2) by (simp add: mem_set_status_def stored_discussion_def discussion_of_def Let_def)
  qed simp_all
  with run show ?thesis by simp
qed

lemma edit_discussion_simulated:
  assumes "tables_ok db"
  shows "simulated env (Op_Edit i expected body editor) db (pg_exec env (Op_Edit i expected body editor) db)"
proof (cases "\<exists>e. pg_update_discussion_body env i expected body editor db = (Inl e, db)")
  case True
  then obtain e where e: "pg_update_discussion_body env i expected body editor db = (Inl e, db)" ..
  show ?thesis
  proof (cases "e = Store_Unavailable")
    case False
    with e show ?thesis
      by (auto simp: pg_update_discussion_body_def tx_simps Let_def commit_tx_def mem_update_discussion_body_def assms
            simulated_def split: if_splits option.splits commit_outcome.splits)
  qed (simp add: e assms simulated_unavailable)
next
  case False
  let ?g = "\<lambda>r :: discussion_row. r\<lparr>qd_body := body, qd_rev := qd_rev r + 1, qd_updated := sv_now env\<rparr>"
  from False have "\<exists>r db1 d. find_discussion i db = Some r \<and> qd_rev r = expected \<and>
      insert_revision env target_discussion i (qd_body r) body editor db = Some db1 \<and>
      get_discussion_tx i (update_discussion i ?g db1) = Some d \<and>
      pg_update_discussion_body env i expected body editor db = commit_tx env db (d, update_discussion i ?g db1)"
    by (auto simp: pg_update_discussion_body_def tx_simps Let_def split: if_splits option.splits)
  then obtain r db1 d where r: "find_discussion i db = Some r" and exp: "qd_rev r = expected"
    and rv: "insert_revision env target_discussion i (qd_body r) body editor db = Some db1"
    and d: "get_discussion_tx i (update_discussion i ?g db1) = Some d"
    and run: "pg_update_discussion_body env i expected body editor db = commit_tx env db (d, update_discussion i ?g db1)"
    by blast
  note e = revision_inserted [OF rv]
  have ok: "tables_ok db1" using e(1) assms r by simp
  have r1: "find_discussion i db1 = Some r" using e(4) r by (simp add: find_discussion_def)
  have u: "tables_ok (update_discussion i ?g db1)"
    "find_discussion i (update_discussion i ?g db1) = Some (?g r)"
    "tables_abs (update_discussion i ?g db1) = (tables_abs db1)\<lparr>ms_discussions :=
       AList.update i (stored_discussion (?g r)) (ms_discussions (tables_abs db1))\<rparr>"
    using discussion_updated [of db1 ?g i] ok r1 by (simp_all add: row_checks_def)
  have "simulated env (Op_Edit i expected body editor) db
      (discussion_result (commit_tx env db (d, update_discussion i ?g db1)))"
  proof (rule simulated_commit [OF assms u(1), where ro = "Res_Discussion (stored_discussion (?g r))"])
    show "without_count (Res_Discussion d) = Res_Discussion (stored_discussion (?g r))"
      using d u(2) by (auto simp: get_discussion_tx_def discussion_of_count)
    show "mem_exec (sv_id env) (sv_now env) (with_reason (Op_Edit i expected body editor)) (tables_abs db)
        = (Res_Discussion (stored_discussion (?g r)), tables_abs (update_discussion i ?g db1))"
      using r exp u(3) e(2)
      by (simp add: mem_update_discussion_body_def stored_discussion_def discussion_of_def Let_def)
  qed simp_all
  with run show ?thesis by simp
qed

lemma edit_reply_simulated:
  assumes "tables_ok db"
  shows "simulated env (Op_Edit_Reply i expected body editor) db (pg_exec env (Op_Edit_Reply i expected body editor) db)"
proof (cases "\<exists>e. pg_update_reply_body env i expected body editor db = (Inl e, db)")
  case True
  then obtain e where e: "pg_update_reply_body env i expected body editor db = (Inl e, db)" ..
  show ?thesis
  proof (cases "e = Store_Unavailable")
    case False
    with e show ?thesis
      by (auto simp: pg_update_reply_body_def tx_simps Let_def commit_tx_def mem_update_reply_body_def assms
            simulated_def split: if_splits option.splits commit_outcome.splits)
  qed (simp add: e assms simulated_unavailable)
next
  case False
  let ?g = "\<lambda>r :: reply_row. r\<lparr>qr_body := body, qr_rev := qr_rev r + 1, qr_updated := sv_now env\<rparr>"
  from False have "\<exists>r db1 d. find_reply i db = Some r \<and> qr_rev r = expected \<and>
      insert_revision env target_reply i (qr_body r) body editor db = Some db1 \<and>
      find_reply i (update_reply i ?g db1) = Some d \<and>
      pg_update_reply_body env i expected body editor db = commit_tx env db (reply_of d, update_reply i ?g db1)"
    by (auto simp: pg_update_reply_body_def tx_simps Let_def split: if_splits option.splits)
  then obtain r db1 d where r: "find_reply i db = Some r" and exp: "qr_rev r = expected"
    and rv: "insert_revision env target_reply i (qr_body r) body editor db = Some db1"
    and d: "find_reply i (update_reply i ?g db1) = Some d"
    and run: "pg_update_reply_body env i expected body editor db = commit_tx env db (reply_of d, update_reply i ?g db1)"
    by blast
  note e = revision_inserted [OF rv]
  have ok: "tables_ok db1" using e(1) assms r by simp
  have r1: "find_reply i db1 = Some r" using e(5) r by (simp add: find_reply_def)
  have u: "tables_ok (update_reply i ?g db1)"
    "find_reply i (update_reply i ?g db1) = Some (?g r)"
    "tables_abs (update_reply i ?g db1) = (tables_abs db1)\<lparr>ms_replies :=
       AList.update i (reply_of (?g r)) (ms_replies (tables_abs db1))\<rparr>"
    using reply_updated [of db1 ?g i] ok r1 by simp_all
  have "simulated env (Op_Edit_Reply i expected body editor) db
      (reply_result (commit_tx env db (reply_of d, update_reply i ?g db1)))"
  proof (rule simulated_commit [OF assms u(1), where ro = "Res_Reply (reply_of (?g r))"])
    show "without_count (Res_Reply (reply_of d)) = Res_Reply (reply_of (?g r))" using d u(2) by simp
    show "mem_exec (sv_id env) (sv_now env) (with_reason (Op_Edit_Reply i expected body editor)) (tables_abs db)
        = (Res_Reply (reply_of (?g r)), tables_abs (update_reply i ?g db1))"
      using r exp u(3) e(3) by (simp add: mem_update_reply_body_def reply_of_def Let_def)
  qed simp_all
  with run show ?thesis by simp
qed

lemma create_discussion_simulated:
  assumes "tables_ok db"
  shows "simulated env (Op_Create x) db (pg_exec env (Op_Create x) db)"
proof (cases "pg_create_discussion env x db = (Inl Store_Unavailable, db)")
  case True
  with assms show ?thesis by (simp add: simulated_unavailable)
next
  case False
  let ?i = "sv_id env"
  let ?row = "new_discussion_row env x"
  from False have "\<exists>db1 db2 d. insert_discussion env ?row db = Some db1 \<and>
      (if di_status x \<noteq> [] then insert_event env ?i None (di_status x) (initial_reason (di_reason x)) (di_by x) db1
         = Some db2 else db2 = db1) \<and>
      get_discussion_tx ?i db2 = Some d \<and> pg_create_discussion env x db = commit_tx env db (d, db2)"
    by (auto simp: pg_create_discussion_def tx_simps split: if_splits option.splits)
  then obtain db1 db2 d where ins: "insert_discussion env ?row db = Some db1"
    and ev: "if di_status x \<noteq> [] then insert_event env ?i None (di_status x) (initial_reason (di_reason x)) (di_by x) db1
               = Some db2 else db2 = db1"
    and d: "get_discussion_tx ?i db2 = Some d"
    and run: "pg_create_discussion env x db = commit_tx env db (d, db2)"
    by blast
  note e = discussion_inserted [OF ins assms]
  have ok: "tables_ok db2" and row: "find_discussion ?i db2 = Some ?row"
    using ev e(1,3) event_inserted(1,3) by (metis (full_types))+
  have "simulated env (Op_Create x) db (discussion_result (commit_tx env db (d, db2)))"
  proof (rule simulated_commit [OF assms ok, where ro = "Res_Discussion (stored_discussion ?row)"])
    show "without_count (Res_Discussion d) = Res_Discussion (stored_discussion ?row)"
      using d row by (auto simp: get_discussion_tx_def discussion_of_count)
    show "mem_exec ?i (sv_now env) (with_reason (Op_Create x)) (tables_abs db)
        = (Res_Discussion (stored_discussion ?row), tables_abs db2)"
    proof (cases "di_status x = []")
      case True
      with ev e(4) show ?thesis
        by (simp add: mem_create_discussion_def stored_discussion_def discussion_of_def new_discussion_row_def
            empty_tables_def Let_def)
    next
      case False
      with ev have ev1: "insert_event env ?i None (di_status x) (initial_reason (di_reason x)) (di_by x) db1
          = Some db2" by simp
      from event_inserted(2) [OF ev1 e(1)] e(4) False show ?thesis
        by (simp add: mem_create_discussion_def stored_discussion_def discussion_of_def new_discussion_row_def
            empty_tables_def Let_def deref_str_def null_str_def)
    qed
  qed (use e(2) in simp_all)
  with run show ?thesis by simp
qed

lemma create_reply_simulated:
  assumes "tables_ok db"
  shows "simulated env (Op_Reply x) db (pg_exec env (Op_Reply x) db)"
proof (cases "\<exists>e. pg_create_reply env x db = (Inl e, db)")
  case True
  then obtain e where e: "pg_create_reply env x db = (Inl e, db)" ..
  show ?thesis
  proof (cases "e = Store_Unavailable")
    case False
    have "find_discussion (rn_discussion x) db = None" if "insert_reply env x db = Some (0, db1)" for db1
      using reply_inserted [OF that assms] by simp
    with e False show ?thesis
      by (auto simp: pg_create_reply_def tx_simps commit_tx_def mem_create_reply_def assms simulated_def
            split: if_splits option.splits commit_outcome.splits)
  qed (simp add: e assms simulated_unavailable)
next
  case False
  then have "\<exists>n db1 r. insert_reply env x db = Some (n, db1) \<and> n \<noteq> 0 \<and> find_reply (sv_id env) db1 = Some r \<and>
      pg_create_reply env x db = commit_tx env db (reply_of r, db1)"
    by (auto simp: pg_create_reply_def tx_simps split: if_splits option.splits)
  then obtain n db1 r where ins: "insert_reply env x db = Some (n, db1)" and n: "n \<noteq> 0"
    and r: "find_reply (sv_id env) db1 = Some r"
    and run: "pg_create_reply env x db = commit_tx env db (reply_of r, db1)"
    by blast
  from reply_inserted [OF ins assms] n r have ok: "tables_ok db1"
    and fresh: "find_reply (sv_id env) db = None"
    and mem: "mem_create_reply (sv_id env) (sv_now env) x (tables_abs db) = (Inr (reply_of r), tables_abs db1)"
    by auto
  have "simulated env (Op_Reply x) db (reply_result (commit_tx env db (reply_of r, db1)))"
    by (rule simulated_commit [OF assms ok, where ro = "Res_Reply (reply_of r)"]) (simp_all add: mem fresh)
  with run show ?thesis by simp
qed

lemma pg_exec_simulated: "tables_ok db \<Longrightarrow> simulated env op db (pg_exec env op db)"
  by (cases op) (simp_all only: create_discussion_simulated create_reply_simulated set_status_simulated
      edit_discussion_simulated edit_reply_simulated)

text \<open>The conditions under which the PostgreSQL store has no reason to give up: it answers, and what the
  operation writes fits the columns.\<close>

definition healthy :: "store_env \<Rightarrow> bool" where
  "healthy env \<longleftrightarrow> sv_pool env \<and> list_all (sv_call env) [0, 1, 2, 3, 4] \<and> sv_commit env = Committed"

fun op_accepted :: "store_env \<Rightarrow> store_op \<Rightarrow> comment_tables \<Rightarrow> bool" where
  "op_accepted env (Op_Create x) db =
     (list_all (sv_text env) [sv_id env, di_paper x, di_parse x, di_type x, di_scope x, di_status x,
        initial_reason (di_reason x), di_body x, di_by x, di_model x] \<and>
      0 \<le> di_page x \<and> di_page x < 2 ^ 31 \<and> 1 \<le> di_block x \<and> di_block x < 2 ^ 31 \<and>
      valid_scope (di_scope x) \<and> valid_status (di_status x) \<and> find_discussion (sv_id env) db = None)"
| "op_accepted env (Op_Reply x) db =
     (list_all (sv_text env) [sv_id env, rn_discussion x, rn_body x, rn_by x, rn_model x] \<and>
      find_reply (sv_id env) db = None)"
| "op_accepted env (Op_Status i to reason actor) db =
     (list_all (sv_text env) [i, to, reason, actor] \<and> reason \<noteq> [] \<and> to \<noteq> [] \<and> valid_status to \<and>
      for_some (\<lambda>r. for_some (sv_text env) (qd_status r)) (find_discussion i db))"
| "op_accepted env (Op_Edit i expected body editor) db =
     (list_all (sv_text env) [i, body, editor, target_discussion] \<and>
      for_some (\<lambda>r. sv_text env (qd_body r) \<and> int4 (qd_rev r + 1)) (find_discussion i db))"
| "op_accepted env (Op_Edit_Reply i expected body editor) db =
     (list_all (sv_text env) [i, body, editor, target_reply] \<and>
      for_some (\<lambda>r. sv_text env (qr_body r) \<and> int4 (qr_rev r + 1)) (find_reply i db))"

lemma status_listed: "valid_status s \<Longrightarrow> s \<noteq> [] \<Longrightarrow> s \<in> set [status_pending, status_confirmed, status_retracted]"
  by (auto simp: valid_status_def)

lemma null_str_text: "sv_text env s \<Longrightarrow> for_some (sv_text env) (null_str s)"
  by (simp add: null_str_def)

lemma commit_healthy: "healthy env \<Longrightarrow> fst (commit_tx env db res) \<noteq> Inl e"
  by (simp add: commit_tx_def healthy_def)

lemma accepted_create:
  assumes "healthy env" and "op_accepted env (Op_Create x) db" and "tables_ok db"
  shows "fst (pg_create_discussion env x db) \<noteq> Inl e"
proof -
  have "insert_discussion env (new_discussion_row env x) db
      = Some (db\<lparr>pg_discussions := pg_discussions db @ [new_discussion_row env x]\<rparr>)"
    using assms(2)
    by (auto simp: insert_discussion_def new_discussion_row_def null_str_text row_checks_def int4_def
        valid_scope_def null_str_def dest: status_listed)
  then obtain db1 where ins: "insert_discussion env (new_discussion_row env x) db = Some db1" ..
  note e = discussion_inserted [OF ins assms(3)]
  have "\<exists>db2. (if di_status x \<noteq> [] then insert_event env (sv_id env) None (di_status x) (initial_reason (di_reason x))
      (di_by x) db1 = Some db2 else db2 = db1)"
    using assms(2) e(3) by (auto simp: insert_event_def dest: status_listed)
  then obtain db2 where ev: "if di_status x \<noteq> [] then insert_event env (sv_id env) None (di_status x)
      (initial_reason (di_reason x)) (di_by x) db1 = Some db2 else db2 = db1" ..
  then have "find_discussion (sv_id env) db2 \<noteq> None" using e(1,3) event_inserted(3) by (metis option.distinct(1))
  with ins ev assms(1) show ?thesis
    by (auto simp: pg_create_discussion_def healthy_def db_call_def get_discussion_tx_def commit_tx_def)
qed

lemma find_updated:
  "(\<And>r. qd_id (g r) = qd_id r) \<Longrightarrow>
   find_discussion i (update_discussion i g db) = map_option g (find_discussion i db)"
  by (simp add: update_discussion_def find_discussion_def find_mapped)

lemma find_reply_updated:
  "(\<And>r. qr_id (g r) = qr_id r) \<Longrightarrow>
   find_reply i (update_reply i g db) = map_option g (find_reply i db)"
  by (simp add: update_reply_def find_reply_def find_mapped)

lemma found_after_insert:
  "insert_event env i from to reason actor db = Some db' \<Longrightarrow> find_discussion j db' = find_discussion j db"
  "insert_revision env target i old new editor db = Some db' \<Longrightarrow> find_discussion j db' = find_discussion j db"
  "insert_revision env target i old new editor db = Some db' \<Longrightarrow> find_reply j db' = find_reply j db"
  by (auto simp: insert_event_def insert_revision_def find_discussion_def find_reply_def split: if_splits)

lemma accepted_available:
  assumes "healthy env" and "op_accepted env op db" and "tables_ok db"
  shows "fst (pg_exec env op db) \<noteq> Res_Error Store_Unavailable"
proof (cases op)
  case (Op_Create x)
  then show ?thesis using accepted_create [of env x db Store_Unavailable] assms
    by (cases "pg_create_discussion env x db") (auto split: sum.splits)
next
  case (Op_Reply x)
  then show ?thesis using assms(1,2)
    by (auto simp: pg_create_reply_def healthy_def db_call_def insert_reply_def null_str_text commit_tx_def
        find_reply_def find_append split: option.splits)
next
  case (Op_Status i to reason actor)
  have "\<exists>db1. insert_event env i (qd_status r) to reason actor db = Some db1" if "find_discussion i db = Some r" for r
    using assms(2) that status_listed [of to] unfolding Op_Status by (auto simp: insert_event_def)
  with Op_Status assms(1,2) show ?thesis
    by (fastforce simp: pg_set_status_def healthy_def tx_simps commit_tx_def Let_def get_discussion_tx_def
        find_updated found_after_insert split: option.splits)
next
  case (Op_Edit i expected body editor)
  show ?thesis
  proof (cases "find_discussion i db")
    case None
    with Op_Edit assms(1,2) show ?thesis by (auto simp: pg_update_discussion_body_def healthy_def query_one_def db_call_def)
  next
    case (Some r)
    with assms(2) obtain db1 where "insert_revision env target_discussion i (qd_body r) body editor db = Some db1"
      unfolding Op_Edit by (auto simp: insert_revision_def)
    with Some Op_Edit assms(1,2) show ?thesis
      by (auto simp: pg_update_discussion_body_def healthy_def db_call_def query_one_def commit_tx_def Let_def
          get_discussion_tx_def find_updated found_after_insert split: option.splits)
  qed
next
  case (Op_Edit_Reply i expected body editor)
  show ?thesis
  proof (cases "find_reply i db")
    case None
    with Op_Edit_Reply assms(1,2) show ?thesis by (auto simp: pg_update_reply_body_def healthy_def query_one_def db_call_def)
  next
    case (Some r)
    with assms(2) obtain db1 where "insert_revision env target_reply i (qr_body r) body editor db = Some db1"
      unfolding Op_Edit_Reply by (auto simp: insert_revision_def)
    with Some Op_Edit_Reply assms(1,2) show ?thesis
      by (auto simp: pg_update_reply_body_def healthy_def db_call_def query_one_def commit_tx_def Let_def
          get_discussion_tx_def find_reply_updated found_after_insert split: option.splits)
  qed
qed

lemma mem_error_stays: "mem_exec i0 now op m = (Res_Error e, m') \<Longrightarrow> m' = m"
  by (cases op) (auto simp: mem_create_discussion_def mem_create_reply_def mem_set_status_def
      mem_update_discussion_body_def mem_update_reply_body_def Let_def split: option.splits if_splits)

section \<open>Reading\<close>

lemma sort_key_mapped: "sort_key f (map g xs) = map g (sort_key (\<lambda>x. f (g x)) xs)"
proof -
  have "insort_key f (g x) (map g ys) = map g (insort_key (\<lambda>x. f (g x)) x ys)" for x ys
    by (induction ys) auto
  then show ?thesis by (induction xs) auto
qed

lemma stored_simps [simp]:
  "ds_id (stored_discussion r) = qd_id r" "ds_paper (stored_discussion r) = qd_paper r"
  "ds_parse (stored_discussion r) = qd_parse r" "ds_page (stored_discussion r) = qd_page r"
  "ds_block (stored_discussion r) = qd_block r" "ds_type (stored_discussion r) = qd_type r"
  "ds_scope (stored_discussion r) = qd_scope r" "ds_status (stored_discussion r) = deref_str (qd_status r)"
  "ds_body (stored_discussion r) = qd_body r" "ds_by (stored_discussion r) = qd_by r"
  "ds_updated (stored_discussion r) = qd_updated r"
  by (simp_all add: stored_discussion_def discussion_of_def)

lemma discussion_counted:
  "discussion_of db r = (stored_discussion r)\<lparr>ds_replies := reply_count_locked (qd_id r) (tables_abs db)\<rparr>"
  by (simp add: stored_discussion_def discussion_of_def reply_count_locked_def tables_abs_def filter_map comp_def
      reply_of_def)

lemma match_agrees:
  assumes "row_checks r" and "lf_paper f \<noteq> []" and "lf_status f \<noteq> Some []"
  shows "pg_match f r \<longleftrightarrow> mem_match f (stored_discussion r)"
proof -
  have st: "deref_str (qd_status r) = s \<longleftrightarrow> qd_status r = (if s = [] then None else Some s)" for s
    using assms(1) by (cases "qd_status r")
      (auto simp: row_checks_def deref_str_def status_pending_def status_confirmed_def status_retracted_def)
  have since: "for_some (\<lambda>(t, i). t < truncate_ms (qd_updated r) \<or> truncate_ms (qd_updated r) = t \<and> i < qd_id r)
      (lf_since f) = (case lf_since f of None \<Rightarrow> True | Some (t, i) \<Rightarrow> since_after (qd_updated r) (qd_id r) t i)"
    by (auto simp: since_after_def split: option.splits)
  have status: "(if lf_status_null f then qd_status r = None
        else for_some (\<lambda>s. qd_status r = Some s) (lf_status f))
      = (if lf_status_null f then deref_str (qd_status r) = []
         else case lf_status f of None \<Rightarrow> True | Some s \<Rightarrow> deref_str (qd_status r) = s)"
    using assms(3) by (simp add: st split: option.splits)
  have opt: "for_some P x = (case x of None \<Rightarrow> True | Some n \<Rightarrow> P n)" for P and x :: "int option"
    by (cases x) auto
  show ?thesis
    unfolding pg_match_def mem_match_def stored_simps since status opt using assms(2)
    by (simp add: linorder_not_le [symmetric] cong: conj_cong) blast
qed

definition filter_accepted :: "store_env \<Rightarrow> list_filter \<Rightarrow> bool" where
  "filter_accepted env f \<longleftrightarrow>
     lf_paper f \<noteq> [] \<and> 0 < lf_limit f \<and> lf_status f \<noteq> Some [] \<and>
     for_some int4 (lf_page f) \<and> for_some int4 (lf_block f) \<and>
     list_all (sv_text env) (filter_texts f)"

lemma list_agrees:
  assumes "tables_ok db" and "healthy env" and "filter_accepted env f"
  shows "pg_list_discussions env f db = Inr (mem_list_discussions f (tables_abs db))"
proof -
  let ?rows = "rev (sort_key qd_id (filter (pg_match f) (pg_discussions db)))"
  have "filter (mem_match f) (map stored_discussion (pg_discussions db))
      = map stored_discussion (filter (pg_match f) (pg_discussions db))"
    unfolding filter_map comp_def
    using assms(1,3) by (intro arg_cong [of _ _ "map stored_discussion"] filter_cong refl)
      (auto simp: match_agrees tables_ok_def list_all_iff filter_accepted_def)
  then have "newest_discussions_first (filter (mem_match f) (map snd (ms_discussions (tables_abs db)))) = map stored_discussion ?rows"
    by (simp add: newest_discussions_first_def tables_abs_def comp_def sort_key_mapped rev_map)
  moreover have "map (\<lambda>d. d\<lparr>ds_replies := reply_count_locked (ds_id d) (tables_abs db)\<rparr>) (map stored_discussion rs)
      = map (discussion_of db) rs" for rs
    by (simp add: discussion_counted)
  moreover have "(if 0 < lf_limit f \<and> lf_limit f < int (length xs) then take (nat (lf_limit f)) xs else xs)
      = take (nat (lf_limit f)) xs" for xs :: "discussion list"
    using assms(3) by (auto simp: filter_accepted_def)
  moreover have "pg_list_discussions env f db = Inr (map (discussion_of db) (take (nat (lf_limit f)) ?rows))"
    using assms(2,3) by (simp add: pg_list_discussions_def healthy_def filter_accepted_def)
  ultimately show ?thesis by (simp only: mem_list_discussions_def Let_def take_map)
qed

lemma list_replies_agrees:
  assumes "healthy env" and "sv_text env i" and "sv_text env after" and "0 < limit"
  shows "pg_list_replies env i after limit db = mem_list_replies i after limit (tables_abs db)"
proof (cases "find_discussion i db")
  case None
  with assms show ?thesis by (simp add: pg_list_replies_def mem_list_replies_def healthy_def query_one_def db_call_def)
next
  case (Some d)
  have ids [simp]: "ry_id (reply_of r) = qr_id r" "ry_discussion (reply_of r) = qr_discussion r" for r
    by (simp_all add: reply_of_def)
  have "filter (\<lambda>r. \<not> ry_discussion r \<noteq> i \<and> \<not> (after \<noteq> [] \<and> ry_id r \<le> after)) (map snd (ms_replies (tables_abs db)))
      = map reply_of (filter (\<lambda>r. qr_discussion r = i \<and> (after \<noteq> [] \<longrightarrow> after < qr_id r)) (pg_replies db))"
    by (auto simp: tables_abs_def comp_def filter_map not_le intro!: arg_cong [of _ _ "map reply_of"] filter_cong)
  then have "mem_list_replies i after limit (tables_abs db) = Inr (take (nat limit) (map reply_of (sort_key qr_id
      (filter (\<lambda>r. qr_discussion r = i \<and> (after \<noteq> [] \<longrightarrow> after < qr_id r)) (pg_replies db)))))"
    using Some assms(4) by (simp add: mem_list_replies_def sort_key_mapped Let_def)
  with Some assms show ?thesis
    by (simp add: pg_list_replies_def healthy_def query_one_def db_call_def take_map)
qed

lemma mset_by_key:
  "distinct ids \<Longrightarrow>
   mset (concat (map (\<lambda>j. filter (\<lambda>b. t b \<and> k b = j) bs) ids)) = mset (filter (\<lambda>b. t b \<and> k b \<in> set ids) bs)"
proof (induction ids)
  case (Cons j ids)
  have "mset (filter (\<lambda>b. t b \<and> k b \<in> set (j # ids)) bs)
      = mset (filter (\<lambda>b. t b \<and> k b = j) bs) + mset (filter (\<lambda>b. t b \<and> k b \<in> set ids) bs)"
    using Cons.prems by (induction bs) auto
  with Cons show ?case by simp
qed simp

lemma history_agrees:
  assumes "tables_ok db" and "healthy env" and "sv_text env i"
  shows "case (pg_history env i db, mem_history i (tables_abs db)) of
           (Inl e, Inl e') \<Rightarrow> e = Comment_Not_Found \<and> e' = Comment_Not_Found
         | (Inr (revs, evs), Inr (revs', evs')) \<Rightarrow> mset revs = mset revs' \<and> evs = evs'
         | _ \<Rightarrow> False"
proof (cases "find_discussion i db")
  case None
  with assms show ?thesis by (simp add: pg_history_def mem_history_def healthy_def query_one_def db_call_def)
next
  case (Some d)
  let ?mine = "filter (\<lambda>r. qr_discussion r = i) (pg_replies db)"
  let ?t = "\<lambda>b. qb_target b = target_reply"
  have srt: "sort_key qb_id (filter P (pg_revs db)) = filter P (pg_revs db)"
    "sort_key qe_id (filter Q (pg_events db)) = filter Q (pg_events db)" for P Q
    using tables_okD(4,5) [OF assms(1)] by (simp_all add: sort_key_increasing sorted_map_filter)
  have "distinct (map qr_id ?mine)" using tables_okD(2) [OF assms(1)] by (simp add: distinct_map_filter)
  from mset_by_key [OF this, where t = ?t and k = qb_target_id and bs = "pg_revs db"]
  have replies: "mset (concat (map (\<lambda>r. revisions_of target_reply (qr_id r) db) ?mine))
      = mset (filter (\<lambda>b. ?t b \<and> qb_target_id b \<in> set (map qr_id ?mine)) (pg_revs db))"
    by (simp add: comp_def revisions_of_def)
  have split: "mset (filter (\<lambda>b. qb_target b = target_discussion \<and> qb_target_id b = i \<or> ?t b \<and> P b) bs)
      = mset (filter (\<lambda>b. qb_target b = target_discussion \<and> qb_target_id b = i) bs) + mset (filter (\<lambda>b. ?t b \<and> P b) bs)"
    for P bs
    by (induction bs) auto
  have mem: "concat (map (\<lambda>kr. if ry_discussion (snd kr) = i then ms_reply_revs (tables_abs db) (ry_id (snd kr)) else [])
        (ms_replies (tables_abs db)))
      = map revision_of (concat (map (\<lambda>r. revisions_of target_reply (qr_id r) db) ?mine))"
  proof -
    have "concat (map (\<lambda>r. if qr_discussion r = i then map revision_of (f r) else []) rs)
        = map revision_of (concat (map f (filter (\<lambda>r. qr_discussion r = i) rs)))" for f rs
      by (induction rs) auto
    then show ?thesis by (simp add: tables_abs_def comp_def reply_of_def cong: if_cong)
  qed
  have "mset (map revision_of (filter (\<lambda>b. qb_target b = target_discussion \<and> qb_target_id b = i \<or>
          ?t b \<and> qb_target_id b \<in> set (map qr_id ?mine)) (pg_revs db)))
      = mset (map revision_of (revisions_of target_discussion i db) @
          map revision_of (concat (map (\<lambda>r. revisions_of target_reply (qr_id r) db) ?mine)))"
    unfolding mset_map mset_append split replies by (simp add: revisions_of_def)
  with Some assms(2,3) show ?thesis
    unfolding pg_history_def mem_history_def mem srt
    by (simp add: healthy_def query_one_def db_call_def) (simp add: tables_abs_def events_of_def)
qed

text \<open>C18: The PostgreSQL store refines the store in memory. Whatever the database does during a call,
  well-formed tables stay well-formed, and the call either changes nothing and reports an error, or has exactly the effect and
  the result of the in-memory operation (reply counts apart); a report of unavailability with an
  effect means a lost acknowledgement of the commit. A missing object and a stale revision are
  reported by both stores alike. When the database is healthy and the input fits its columns, the two
  agree without exception.\<close>

theorem pg_refines_mem:
  assumes "tables_ok db" and "pg_exec env op db = (r, db')"
    and "mem_exec (sv_id env) (sv_now env) (with_reason op) (tables_abs db) = (r0, m')"
  shows "tables_ok db' \<and>
    (db' = db \<and> (r = Res_Error Store_Unavailable \<or> r = Res_Error Empty_Reason \<or> r = r0 \<and> m' = tables_abs db) \<or>
     tables_abs db' = m' \<and> (without_count r = r0 \<or> r = Res_Error Store_Unavailable \<and> sv_commit env = Ack_Lost)) \<and>
    (healthy env \<and> op_accepted env op db \<longrightarrow> tables_abs db' = m' \<and> without_count r = r0)"
proof -
  note sim = pg_exec_simulated [OF assms(1), of env op, unfolded simulated_def assms(2,3) fst_conv snd_conv]
  have "r \<noteq> Res_Error Store_Unavailable" if "healthy env" "op_accepted env op db"
    using accepted_available [OF that assms(1)] assms(2) by simp
  moreover have "r \<noteq> Res_Error Empty_Reason" if "op_accepted env op db"
    using that assms(2)
    by (cases op) (auto simp: pg_create_discussion_def pg_create_reply_def pg_set_status_def
        pg_update_discussion_body_def pg_update_reply_body_def commit_tx_def Let_def
        split: if_splits option.splits commit_outcome.splits)
  moreover have "m' = tables_abs db" if "r0 = Res_Error e" for e
    using mem_error_stays assms(3) that by blast
  ultimately show ?thesis using sim by (auto simp: healthy_def)
qed

text \<open>C30: The reading methods agree as well: for well-formed tables, a healthy database and parameters that fit,
  the filtered list newest first with its reply counts, a discussion, a page of replies and a reply are
  those of the in-memory store, and the history has the same status events in the same order and the
  same body revisions.\<close>

theorem pg_reads_agree:
  assumes "tables_ok db" and "healthy env" and "filter_accepted env f"
    and "list_all (sv_text env) [i, after]" and "0 < limit"
  shows "pg_list_discussions env f db = Inr (mem_list_discussions f (tables_abs db)) \<and>
    pg_get_discussion env i db = Inr (mem_get_discussion i (tables_abs db)) \<and>
    pg_list_replies env i after limit db = mem_list_replies i after limit (tables_abs db) \<and>
    pg_get_reply env i db = Inr (mem_get_reply i (tables_abs db)) \<and>
    (case (pg_history env i db, mem_history i (tables_abs db)) of
       (Inl e, Inl e') \<Rightarrow> e = Comment_Not_Found \<and> e' = Comment_Not_Found
     | (Inr (revs, evs), Inr (revs', evs')) \<Rightarrow> mset revs = mset revs' \<and> evs = evs'
     | _ \<Rightarrow> False)"
proof (intro conjI)
  show "pg_get_discussion env i db = Inr (mem_get_discussion i (tables_abs db))"
    using assms(2,4) by (auto simp: pg_get_discussion_def mem_get_discussion_def healthy_def query_one_def
        db_call_def get_discussion_tx_def discussion_counted dest: find_discussionD split: option.splits)
  show "pg_get_reply env i db = Inr (mem_get_reply i (tables_abs db))"
    using assms(2,4) by (simp add: pg_get_reply_def mem_get_reply_def healthy_def query_one_def db_call_def)
qed (use assms list_agrees list_replies_agrees history_agrees in simp_all)

section \<open>Histories\<close>

text \<open>\<open>linked a l b\<close>: the steps \<open>l\<close>, pairs of old and new, lead from \<open>a\<close> to \<open>b\<close>. A run is the list of the calls
  made, in the order in which they take effect, with what each of them meets.\<close>

fun linked :: "'x \<Rightarrow> ('x \<times> 'x) list \<Rightarrow> 'x \<Rightarrow> bool" where
  "linked a [] b \<longleftrightarrow> a = b"
| "linked a ((old, new) # l) b \<longleftrightarrow> old = a \<and> linked new l b"

lemma linked_append: "linked a (l @ [(b, c)]) d \<longleftrightarrow> linked a l b \<and> c = d"
  by (induction l arbitrary: a) auto

fun pg_run :: "(store_env \<times> store_op) list \<Rightarrow> comment_tables \<Rightarrow> comment_tables" where
  "pg_run [] db = db"
| "pg_run ((env, op) # evs) db = pg_run evs (snd (pg_exec env op db))"

lemma pg_run_append: "pg_run (evs @ [(env, op)]) db = snd (pg_exec env op (pg_run evs db))"
  by (induction evs arbitrary: db) auto

text \<open>The history of the store accounts for its state. Every discussion has a body that the recorded
  edits lead to from the one it was created with, a revision that is one more than their number, and a
  status that the recorded events lead to from none; the same holds for replies and their edits.\<close>

definition discussion_history :: "(string \<times> string) set \<Rightarrow> mem_store \<Rightarrow> string \<Rightarrow> bool" where
  "discussion_history born m i \<longleftrightarrow>
     (case map_of (ms_discussions m) i of
        None \<Rightarrow> ms_body_revs m i = [] \<and> ms_events m i = []
      | Some d \<Rightarrow>
          (\<exists>body. (i, body) \<in> born \<and>
             linked body (map (\<lambda>b. (bv_old b, bv_new b)) (ms_body_revs m i)) (ds_body d)) \<and>
          ds_rev d = 1 + int (length (ms_body_revs m i)) \<and>
          linked [] (map (\<lambda>e. (se_from e, se_to e)) (ms_events m i)) (ds_status d))"

definition reply_history :: "(string \<times> string) set \<Rightarrow> mem_store \<Rightarrow> string \<Rightarrow> bool" where
  "reply_history born m i \<longleftrightarrow>
     (case map_of (ms_replies m) i of
        None \<Rightarrow> ms_reply_revs m i = []
      | Some r \<Rightarrow>
          (\<exists>body. (i, body) \<in> born \<and>
             linked body (map (\<lambda>b. (bv_old b, bv_new b)) (ms_reply_revs m i)) (ry_body r)) \<and>
          ry_rev r = 1 + int (length (ms_reply_revs m i)))"

text \<open>The bodies that the calls of a run asked to create, with the minted ids.\<close>

fun created_bodies :: "(store_env \<times> store_op) list \<Rightarrow> (string \<times> string) set" where
  "created_bodies [] = {}"
| "created_bodies ((env, Op_Create x) # evs) = insert (sv_id env, di_body x) (created_bodies evs)"
| "created_bodies ((env, Op_Reply x) # evs) = insert (sv_id env, rn_body x) (created_bodies evs)"
| "created_bodies (ev # evs) = created_bodies evs"

lemma discussion_history_cong:
  "map_of (ms_discussions m') i = map_of (ms_discussions m) i \<Longrightarrow> ms_body_revs m' i = ms_body_revs m i \<Longrightarrow>
   ms_events m' i = ms_events m i \<Longrightarrow> born \<subseteq> born' \<Longrightarrow>
   discussion_history born m i \<Longrightarrow> discussion_history born' m' i"
  by (auto simp: discussion_history_def split: option.splits)

lemma reply_history_cong:
  "map_of (ms_replies m') i = map_of (ms_replies m) i \<Longrightarrow> ms_reply_revs m' i = ms_reply_revs m i \<Longrightarrow>
   born \<subseteq> born' \<Longrightarrow> reply_history born m i \<Longrightarrow> reply_history born' m' i"
  by (auto simp: reply_history_def split: option.splits)

lemma mem_exec_discussion_history:
  assumes h: "discussion_history born m i" and "fresh_id i0 op m" and "mem_exec i0 now op m = (r, m')"
    and "\<And>x. op = Op_Create x \<Longrightarrow> (i0, di_body x) \<in> born'" and "born \<subseteq> born'"
  shows "discussion_history born' m' i"
proof -
  have h': "discussion_history born' m i" by (rule discussion_history_cong [OF refl refl refl assms(5) h])
  have stays: ?thesis if "map_of (ms_discussions m') i = map_of (ms_discussions m) i"
    "ms_body_revs m' i = ms_body_revs m i" "ms_events m' i = ms_events m i"
    using that assms(5) h by (rule discussion_history_cong)
  show ?thesis
  proof (cases op)
    case (Op_Create x)
    with assms(2-4) h' show ?thesis
      by (cases "i = i0") (auto simp: discussion_history_def mem_create_discussion_def Let_def gomap_simps
            split: option.splits if_splits)
  next
    case (Op_Reply x)
    with assms(3) show ?thesis
      by (intro stays) (auto simp: mem_create_reply_def Let_def split: option.splits)
  next
    case (Op_Status j to reason actor)
    with assms(3) h' show ?thesis
      by (cases "i = j"; auto simp: discussion_history_def mem_set_status_def Let_def gomap_simps linked_append
            split: option.splits if_splits; blast)
  next
    case (Op_Edit j expected body editor)
    with assms(3) h' show ?thesis
      by (cases "i = j"; auto simp: discussion_history_def mem_update_discussion_body_def Let_def gomap_simps
            linked_append split: option.splits if_splits; blast)
  next
    case (Op_Edit_Reply j expected body editor)
    with assms(3) show ?thesis
      by (intro stays) (auto simp: mem_update_reply_body_def Let_def split: option.splits if_splits)
  qed
qed

lemma mem_exec_reply_history:
  assumes h: "reply_history born m i" and "fresh_id i0 op m" and "mem_exec i0 now op m = (r, m')"
    and "\<And>x. op = Op_Reply x \<Longrightarrow> (i0, rn_body x) \<in> born'" and "born \<subseteq> born'"
  shows "reply_history born' m' i"
proof -
  have h': "reply_history born' m i" by (rule reply_history_cong [OF refl refl assms(5) h])
  have stays: ?thesis if "map_of (ms_replies m') i = map_of (ms_replies m) i"
    "ms_reply_revs m' i = ms_reply_revs m i"
    using that assms(5) h by (rule reply_history_cong)
  show ?thesis
  proof (cases op)
    case (Op_Reply x)
    with assms(2-4) h' show ?thesis
      by (cases "i = i0") (auto simp: reply_history_def mem_create_reply_def Let_def gomap_simps
            split: option.splits if_splits)
  next
    case (Op_Edit_Reply j expected body editor)
    with assms(3) h' show ?thesis
      by (cases "i = j"; auto simp: reply_history_def mem_update_reply_body_def Let_def gomap_simps
            linked_append split: option.splits if_splits; blast)
  qed (use assms(3) in \<open>intro stays; auto simp: mem_create_discussion_def mem_set_status_def
        mem_update_discussion_body_def Let_def split: option.splits if_splits\<close>)+
qed

lemma created_bodies_append: "created_bodies (evs @ evs') = created_bodies evs \<union> created_bodies evs'"
  by (induction evs rule: created_bodies.induct) auto

text \<open>A call changes nothing or is a step of the in-memory store on a fresh id.\<close>

lemma pg_exec_cases:
  assumes "tables_ok db"
  obtains (nothing) e where "pg_exec env op db = (Res_Error e, db)"
  | (effect) r r0 db' where "pg_exec env op db = (r, db')" "tables_ok db'" "fresh_id (sv_id env) op (tables_abs db)"
      "mem_exec (sv_id env) (sv_now env) (with_reason op) (tables_abs db) = (r0, tables_abs db')"
      "\<And>e. r0 \<noteq> Res_Error e" "without_count r = r0 \<or> r = Res_Error Store_Unavailable"
  using pg_exec_simulated [OF assms, of env op] unfolding simulated_def by (metis prod.collapse)

lemma pg_run_ok: "tables_ok db \<Longrightarrow> tables_ok (pg_run evs db)"
proof (induction evs arbitrary: db)
  case (Cons ev evs)
  then show ?case
    using pg_exec_simulated [of db "fst ev" "snd ev"] by (cases ev) (simp add: simulated_def)
qed simp

lemma empty_tables_ok [simp]: "tables_ok empty_tables"
  by (simp add: tables_ok_def empty_tables_def)

lemma fresh_with_reason: "fresh_id i (with_reason op) m = fresh_id i op m"
  by (cases op) auto

text \<open>C20: The history of the store accounts for its state. After any sequence of calls, whatever each of
  them meets, the tables are well-formed; every discussion and every reply has a body that its recorded
  edits lead to, one after the other, from the body it was created with; its revision is one more than
  the number of its edits; and the status of a discussion is what its recorded events lead to from none.\<close>

theorem comment_histories:
  "tables_ok (pg_run evs empty_tables) \<and>
   discussion_history (created_bodies evs) (tables_abs (pg_run evs empty_tables)) i \<and>
   reply_history (created_bodies evs) (tables_abs (pg_run evs empty_tables)) i"
proof (induction evs rule: rev_induct)
  case Nil
  have "tables_abs empty_tables = new_mem_store"
    by (simp add: tables_abs_def empty_tables_def new_mem_store_def revisions_of_def events_of_def)
  then show ?case by (simp add: discussion_history_def reply_history_def new_mem_store_def)
next
  case (snoc ev evs)
  obtain env op where ev: "ev = (env, op)" by (cases ev)
  let ?db = "pg_run evs empty_tables"
  let ?born = "created_bodies evs" and ?born' = "created_bodies (evs @ [(env, op)])"
  have born: "?born \<subseteq> ?born'" by (simp add: created_bodies_append)
  from snoc.IH have ok: "tables_ok ?db" by blast
  from ok show ?case
  proof (cases rule: pg_exec_cases [of _ env op])
    case (nothing e)
    with snoc.IH born show ?thesis
      by (simp add: ev pg_run_append discussion_history_cong [OF refl refl refl born]
          reply_history_cong [OF refl refl born])
  next
    case (effect r r0 db')
    have "(sv_id env, di_body x) \<in> ?born'" if "with_reason op = Op_Create x" for x
      using that by (cases op) (auto simp: created_bodies_append)
    moreover have "(sv_id env, rn_body x) \<in> ?born'" if "with_reason op = Op_Reply x" for x
      using that by (cases op) (auto simp: created_bodies_append)
    ultimately show ?thesis
      using effect(1,2) snoc.IH born
        mem_exec_discussion_history [OF _ _ effect(4), of ?born i ?born']
        mem_exec_reply_history [OF _ _ effect(4), of ?born i ?born']
      by (simp add: ev pg_run_append fresh_with_reason effect(3))
  qed
qed
section \<open>No lost update\<close>

text \<open>The bodies that clients edit, and the revisions that the successful edits of one body expected, in the order of
  the run.\<close>

datatype edited_body = Body_Of_Discussion string | Body_Of_Reply string

fun edit_of :: "store_op \<Rightarrow> (edited_body \<times> int) option" where
  "edit_of (Op_Edit i expected body editor) = Some (Body_Of_Discussion i, expected)"
| "edit_of (Op_Edit_Reply i expected body editor) = Some (Body_Of_Reply i, expected)"
| "edit_of op = None"

fun edits_made :: "edited_body \<Rightarrow> (store_env \<times> store_op) list \<Rightarrow> comment_tables \<Rightarrow> int list" where
  "edits_made b [] db = []"
| "edits_made b ((env, op) # evs) db =
     (let (r, db') = pg_exec env op db in
      (case (r, edit_of op) of
         (Res_Error e, _) \<Rightarrow> []
       | (_, Some (b', expected)) \<Rightarrow> if b = b' then [expected] else []
       | (_, None) \<Rightarrow> []) @ edits_made b evs db')"

fun revision_at :: "edited_body \<Rightarrow> mem_store \<Rightarrow> int" where
  "revision_at (Body_Of_Discussion i) m = (case map_of (ms_discussions m) i of None \<Rightarrow> 0 | Some d \<Rightarrow> ds_rev d)"
| "revision_at (Body_Of_Reply i) m = (case map_of (ms_replies m) i of None \<Rightarrow> 0 | Some y \<Rightarrow> ry_rev y)"

lemma edits_made_Cons:
  assumes "pg_exec env op db = (r, db')"
  shows "edits_made b ((env, op) # evs) db =
    (case edit_of op of
       None \<Rightarrow> []
     | Some (b', expected) \<Rightarrow> if b = b' \<and> (\<forall>e. r \<noteq> Res_Error e) then [expected] else []) @ edits_made b evs db'"
  using assms by (cases r) (auto split: option.split)

lemma mem_exec_revision:
  assumes "mem_exec i0 now op m = (r, m')" and "fresh_id i0 op m"
  shows "revision_at b m \<le> revision_at b m'"
    and "edit_of op = Some (b, expected) \<Longrightarrow> \<forall>e. r \<noteq> Res_Error e \<Longrightarrow>
      revision_at b m = expected \<and> revision_at b m' = expected + 1"
proof -
  show "revision_at b m \<le> revision_at b m'"
    using assms
    by (cases op; cases b) (auto simp: mem_create_discussion_def mem_create_reply_def mem_set_status_def
        mem_update_discussion_body_def mem_update_reply_body_def Let_def gomap_simps split: option.splits if_splits)
  show "revision_at b m = expected \<and> revision_at b m' = expected + 1"
    if "edit_of op = Some (b, expected)" "\<forall>e. r \<noteq> Res_Error e"
    using assms(1) that
    by (cases op) (auto simp: mem_update_discussion_body_def mem_update_reply_body_def Let_def gomap_simps
        split: option.splits if_splits)
qed

lemma edit_with_reason [simp]: "edit_of (with_reason op) = edit_of op"
  by (cases op) auto

lemma edits_made_sorted:
  "tables_ok db \<Longrightarrow>
   sorted_wrt (<) (edits_made b evs db) \<and> (\<forall>e\<in>set (edits_made b evs db). revision_at b (tables_abs db) \<le> e)"
proof (induction evs arbitrary: db)
  case (Cons ev evs)
  obtain env op where ev: "ev = (env, op)" by (cases ev)
  from Cons.prems show ?case
  proof (cases rule: pg_exec_cases [of _ env op])
    case (nothing e)
    from edits_made_Cons [OF this, of b evs] Cons show ?thesis by (simp add: ev split: option.split)
  next
    case (effect r r0 db')
    note le = mem_exec_revision [OF effect(4), unfolded fresh_with_reason edit_with_reason, OF effect(3)]
    have rest: "sorted_wrt (<) (edits_made b evs db')" "\<And>e. e \<in> set (edits_made b evs db') \<Longrightarrow> revision_at b (tables_abs db') \<le> e"
      using Cons.IH [OF effect(2)] by auto
    show ?thesis
    proof (cases "\<exists>expected. edit_of op = Some (b, expected) \<and> (\<forall>e. r \<noteq> Res_Error e)")
      case True
      then obtain expected where op: "edit_of op = Some (b, expected)" "\<forall>e. r \<noteq> Res_Error e" by blast
      with le(2) [of b expected] effect(5)
      have "revision_at b (tables_abs db) = expected" "revision_at b (tables_abs db') = expected + 1" by auto
      with rest op edits_made_Cons [OF effect(1), of b evs] show ?thesis by (fastforce simp: ev)
    next
      case False
      then have "edits_made b (ev # evs) db = edits_made b evs db'"
        using edits_made_Cons [OF effect(1), of b evs] by (auto simp: ev split: option.splits prod.splits)
      with rest le(1) [of b] show ?thesis by (simp only:) force
    qed
  qed
qed simp

text \<open>C19: No lost update. In every sequence of calls of every client, the revisions that the successful edits
  of one body expected, of a discussion or of a reply, are strictly increasing: of two clients that read the same
  revision at most one edit succeeds.\<close>

theorem no_lost_update: "sorted_wrt (<) (edits_made b evs empty_tables)"
  using edits_made_sorted [OF empty_tables_ok] by blast

section \<open>Samples\<close>

definition sample_store_env :: "string \<Rightarrow> instant \<Rightarrow> store_env" where
  "sample_store_env i now =
     \<lparr>sv_pool = True, sv_call = (\<lambda>_. True), sv_commit = Committed, sv_text = (\<lambda>s. CHR 0x00 \<notin> set s),
      sv_id = i, sv_now = now\<rparr>"

definition sample_discussion :: discussion_input where
  "sample_discussion =
     \<lparr>di_paper = ''qa_1'', di_parse = ''pr_1'', di_page = 0, di_block = 1, di_type = type_normal,
      di_scope = scope_public, di_status = status_pending, di_reason = ''seen'', di_body = ''typo'',
      di_by = ''ann'', di_model = []\<rparr>"

definition sample_tables :: comment_tables where
  "sample_tables = snd (pg_exec (sample_store_env ''cd_1'' 5) (Op_Create sample_discussion) empty_tables)"

definition sample_filter :: list_filter where
  "sample_filter =
     \<lparr>lf_paper = ''qa_1'', lf_parse = [], lf_page = Some 0, lf_block = None, lf_type = [],
      lf_status = Some status_pending, lf_status_null = False, lf_scopes = [scope_public], lf_cursor = [],
      lf_limit = 20, lf_since = None\<rparr>"

lemma sample_healthy: "healthy (sample_store_env i now)"
  by (simp add: healthy_def sample_store_env_def)

lemma sample_tables_ok: "tables_ok sample_tables"
  unfolding sample_tables_def using pg_exec_simulated [OF empty_tables_ok] unfolding simulated_def by blast

theorem pg_refines_mem_witness:
  "tables_abs (snd (pg_exec (sample_store_env ''cr_1'' 9) (Op_Edit ''cd_1'' 1 ''fixed'' ''ann'') sample_tables))
     = snd (mem_exec ''cr_1'' 9 (Op_Edit ''cd_1'' 1 ''fixed'' ''ann'') (tables_abs sample_tables)) \<and>
   map_option ds_body (map_of (ms_discussions (snd (mem_exec ''cr_1'' 9 (Op_Edit ''cd_1'' 1 ''fixed'' ''ann'')
     (tables_abs sample_tables)))) ''cd_1'') = Some ''fixed''"
proof -
  let ?env = "sample_store_env ''cr_1'' 9" and ?op = "Op_Edit ''cd_1'' 1 ''fixed'' ''ann''"
  have "op_accepted ?env ?op sample_tables" by code_simp
  then have "tables_abs (snd (pg_exec ?env ?op sample_tables))
      = snd (mem_exec (sv_id ?env) (sv_now ?env) (with_reason ?op) (tables_abs sample_tables))"
    using pg_refines_mem [OF sample_tables_ok, of ?env ?op, OF prod.collapse [symmetric] prod.collapse [symmetric]]
      sample_healthy by blast
  moreover have "map_option ds_body (map_of (ms_discussions (snd (mem_exec ''cr_1'' 9 ?op
      (tables_abs sample_tables)))) ''cd_1'') = Some ''fixed''" by code_simp
  ultimately show ?thesis by (simp add: sample_store_env_def)
qed

theorem pg_reads_agree_witness:
  "pg_list_discussions (sample_store_env [] 9) sample_filter sample_tables
     = Inr (mem_list_discussions sample_filter (tables_abs sample_tables)) \<and>
   map ds_id (mem_list_discussions sample_filter (tables_abs sample_tables)) = [''cd_1'']"
proof -
  have "filter_accepted (sample_store_env [] 9) sample_filter" by code_simp
  moreover have "list_all (sv_text (sample_store_env [] 9)) [''cd_1'', []]" by code_simp
  ultimately have "pg_list_discussions (sample_store_env [] 9) sample_filter sample_tables
     = Inr (mem_list_discussions sample_filter (tables_abs sample_tables))"
    using pg_reads_agree [OF sample_tables_ok sample_healthy, of "[]" 9 sample_filter "''cd_1''" "[]" 20] by simp
  moreover have "map ds_id (mem_list_discussions sample_filter (tables_abs sample_tables)) = [''cd_1'']"
    by code_simp
  ultimately show ?thesis by blast
qed

end
