(* ===== verification/Comment_Routes.thy ===== *)
theory Comment_Routes
  imports Comment_Store Auth_Guard
begin

text \<open>
  The HTTP surface of the comments (\<open>internal/routes/comments.go\<close>): its guards and the eight handlers,
  with the incremental-sync cursor (\<open>comments/since.go\<close>), the replay cache (\<open>comments/idempotency.go\<close>)
  and the anchor validators (\<open>comments/anchors.go\<close>, \<open>routes/comments_anchor.go\<close>) they use. The handlers
  reach the store through its interface, the record \<open>store_api\<close>; the locale \<open>comment_store\<close> states
  what they may rely on, and both stores are shown to provide it.
\<close>

section \<open>The incremental-sync cursor\<close>

definition encode_since_cursor :: "instant \<Rightarrow> string \<Rightarrow> string" where
  "encode_since_cursor t i = format_d (int (t div 1000000)) @ ''-'' @ i"

definition decode_since_cursor :: "string \<Rightarrow> (instant \<times> string) option" where
  "decode_since_cursor s =
     (case index_byte (CHR ''-'') s of
        None \<Rightarrow> None
      | Some dash \<Rightarrow>
          if dash = 0 then None
          else case atoi (take dash s) of
                 None \<Rightarrow> None
               | Some millis \<Rightarrow>
                   if millis < 0 then None
                   else let i = drop (dash + 1) s in
                        if i = [] then None else Some (nat millis * 1000000, i))"

section \<open>The replay cache\<close>

record 'b idem_entry =
  ie_hash :: string
  ie_status :: nat
  ie_body :: 'b

record 'b idempotency =
  im_cache :: "string \<rightharpoonup> 'b idem_entry"
  im_order :: "string list"
  im_cap :: int

definition new_idempotency :: "int \<Rightarrow> 'b idempotency" where
  "new_idempotency capacity =
     \<lparr>im_cache = Map.empty, im_order = [], im_cap = (if capacity \<le> 0 then 1024 else capacity)\<rparr>"

text \<open>The digest with its hexadecimal form is a parameter.\<close>

definition request_hash :: "(string \<Rightarrow> string) \<Rightarrow> string \<Rightarrow> string \<Rightarrow> string \<Rightarrow> string" where
  "request_hash sha meth path body = sha (meth @ [CHR 0x00] @ path @ [CHR 0x00] @ body)"

definition idem_result :: "string \<Rightarrow> string \<Rightarrow> 'b idempotency \<Rightarrow> store_error + (nat \<times> 'b) option" where
  "idem_result key hash c =
     (if key = [] then Inr None
      else case im_cache c key of
             None \<Rightarrow> Inr None
           | Some e \<Rightarrow>
               if ie_hash e \<noteq> hash then Inl Idempotency_Mismatch else Inr (Some (ie_status e, ie_body e)))"

definition remember :: "string \<Rightarrow> string \<Rightarrow> nat \<Rightarrow> 'b \<Rightarrow> 'b idempotency \<Rightarrow> 'b idempotency" where
  "remember key hash status body c =
     (if key = [] then c
      else
        let c1 = (if im_cache c key = None
                  then let order = im_order c @ [key] in
                       if im_cap c < int (length order)
                       then c\<lparr>im_order := tl order, im_cache := (im_cache c)(hd order := None)\<rparr>
                       else c\<lparr>im_order := order\<rparr>
                  else c)
        in c1\<lparr>im_cache := (im_cache c1)(key \<mapsto> \<lparr>ie_hash = hash, ie_status = status, ie_body = body\<rparr>)\<rparr>)"

section \<open>Anchors\<close>

datatype anchor_error = Anchor_Not_Found | Anchor_Failed string

type_synonym anchor_validator = "string \<Rightarrow> string \<Rightarrow> int \<Rightarrow> int \<Rightarrow> anchor_error option"

definition permissive_anchor :: anchor_validator where
  "permissive_anchor paper revision page block = None"

text \<open>A fixture document is the list of its blocks, page and index; decoding it is left to the library.\<close>

definition new_fixture_validator :: "(string \<times> (int \<times> int) list) list \<Rightarrow> (string \<rightharpoonup> int \<Rightarrow> int list)" where
  "new_fixture_validator docs =
     map_of (map (\<lambda>(rev, blocks). (rev, \<lambda>page. map snd (filter (\<lambda>b. fst b = page) blocks))) docs)"

definition fixture_validate :: "(string \<rightharpoonup> int \<Rightarrow> int list) \<Rightarrow> anchor_validator" where
  "fixture_validate blocks paper revision page block =
     (case blocks revision of
        None \<Rightarrow> Some Anchor_Not_Found
      | Some pages \<Rightarrow> if list_ex (\<lambda>i. i = block) (pages page) then None else Some Anchor_Not_Found)"

text \<open>
  The production validator. What it consults is a parameter: the resolution of merged papers (a
  status and a detail, or the canonical id), the look-up of a parse revision (its object key and
  digest), the verified read of the artifact, its decoder and the search for a block.
\<close>

datatype read_error = Object_Missing | Read_Failed string

record 'd anchor_sources =
  as_resolve :: "string \<Rightarrow> (nat \<times> string) + string"
  as_revision :: "string \<Rightarrow> string \<Rightarrow> string + (string \<times> string) option"
  as_store :: bool
  as_read :: "string \<Rightarrow> string \<Rightarrow> read_error + string"
  as_parse :: "string \<Rightarrow> string + 'd"
  as_find :: "'d \<Rightarrow> int \<Rightarrow> int \<Rightarrow> bool"

definition registry_validate :: "'d anchor_sources \<Rightarrow> anchor_validator" where
  "registry_validate src paper revision page block =
     (case as_resolve src paper of
        Inl (status, detail) \<Rightarrow> Some (if status = 503 then Anchor_Failed (''anchor validation: '' @ detail)
           else Anchor_Not_Found)
      | Inr canonical \<Rightarrow>
          case as_revision src canonical revision of
            Inl e \<Rightarrow> Some (Anchor_Failed (''anchor validation: '' @ e))
          | Inr None \<Rightarrow> Some Anchor_Not_Found
          | Inr (Some (key, digest)) \<Rightarrow>
              if \<not> as_store src then Some (Anchor_Failed ''anchor validation: object store not configured'')
              else
                case as_read src key digest of
                  Inl Object_Missing \<Rightarrow> Some Anchor_Not_Found
                | Inl (Read_Failed e) \<Rightarrow> Some (Anchor_Failed (''anchor validation: fetch artifact: '' @ e))
                | Inr data \<Rightarrow>
                    case as_parse src data of
                      Inl e \<Rightarrow> Some (Anchor_Failed (''anchor validation: decode artifact: '' @ e))
                    | Inr doc \<Rightarrow> if as_find src doc page block then None else Some Anchor_Not_Found)"

section \<open>Counting runes\<close>

text \<open>\<open>utf8.RuneCountInString\<close>: the width of the first rune, one for a byte that starts no valid encoding.\<close>

definition byte_in :: "nat \<Rightarrow> nat \<Rightarrow> char \<Rightarrow> bool" where
  "byte_in lo hi c \<longleftrightarrow> lo \<le> of_char c \<and> of_char c \<le> hi"

fun rune_width :: "string \<Rightarrow> nat" where
  "rune_width (a # b # c # d # s) =
     (if byte_in 0xC2 0xDF a \<and> byte_in 0x80 0xBF b then 2
      else if (of_char a = (0xE0 :: nat) \<and> byte_in 0xA0 0xBF b \<or> byte_in 0xE1 0xEC a \<and> byte_in 0x80 0xBF b \<or>
               of_char a = (0xED :: nat) \<and> byte_in 0x80 0x9F b \<or> byte_in 0xEE 0xEF a \<and> byte_in 0x80 0xBF b) \<and>
              byte_in 0x80 0xBF c then 3
      else if (of_char a = (0xF0 :: nat) \<and> byte_in 0x90 0xBF b \<or> byte_in 0xF1 0xF3 a \<and> byte_in 0x80 0xBF b \<or>
               of_char a = (0xF4 :: nat) \<and> byte_in 0x80 0x8F b) \<and> byte_in 0x80 0xBF c \<and> byte_in 0x80 0xBF d then 4
      else 1)"
| "rune_width [a, b, c] =
     (if byte_in 0xC2 0xDF a \<and> byte_in 0x80 0xBF b then 2
      else if (of_char a = (0xE0 :: nat) \<and> byte_in 0xA0 0xBF b \<or> byte_in 0xE1 0xEC a \<and> byte_in 0x80 0xBF b \<or>
               of_char a = (0xED :: nat) \<and> byte_in 0x80 0x9F b \<or> byte_in 0xEE 0xEF a \<and> byte_in 0x80 0xBF b) \<and>
              byte_in 0x80 0xBF c then 3
      else 1)"
| "rune_width [a, b] = (if byte_in 0xC2 0xDF a \<and> byte_in 0x80 0xBF b then 2 else 1)"
| "rune_width s = 1"

lemma rune_width_pos: "1 \<le> rune_width s"
  by (induction s rule: rune_width.induct) auto

function rune_count :: "string \<Rightarrow> nat" where
  "rune_count [] = 0"
| "rune_count (c # s) = 1 + rune_count (drop (rune_width (c # s)) (c # s))"
  by pat_completeness auto
termination
  using rune_width_pos by (relation "measure length") (auto simp: less_le_trans Suc_le_eq)

section \<open>Requests and responses\<close>

datatype json = J_Null | J_Str string | J_Int int | J_List "json list" | J_Obj "(string \<times> json) list"

text \<open>
  A response is the list of documents written to it, each with the status handed to \<open>WriteHeader\<close>, and
  the headers set; the client sees the status of the first write. \<open>re.JSON\<close> returns the error of writing
  the body, so it returns nil when the client is still there.
\<close>

record response =
  rs_writes :: "(nat \<times> json) list"
  rs_headers :: "(string \<times> string) list"

definition no_response :: response where
  "no_response = \<lparr>rs_writes = [], rs_headers = []\<rparr>"

definition sent_status :: "response \<Rightarrow> nat" where
  "sent_status w = (case rs_writes w of [] \<Rightarrow> 200 | (status, _) # _ \<Rightarrow> status)"

definition write_json :: "nat \<Rightarrow> json \<Rightarrow> response \<Rightarrow> response" where
  "write_json status doc w = w\<lparr>rs_writes := rs_writes w @ [(status, doc)]\<rparr>"

definition write_detail :: "nat \<Rightarrow> string \<Rightarrow> response \<Rightarrow> response" where
  "write_detail status text w = write_json status (J_Obj [(''detail'', J_Str text)]) w"

definition set_header :: "string \<Rightarrow> string \<Rightarrow> response \<Rightarrow> response" where
  "set_header k v w = w\<lparr>rs_headers := AList.update k v (rs_headers w)\<rparr>"

text \<open>
  What a handler reads from the request: path values, query parameters (the empty string when absent), the
  two headers, the bytes the client sends or the error of reading them, and the authenticated user. The
  field \<open>cq_alive\<close> tells whether writing the response succeeds.
\<close>

record comment_request =
  cq_paper :: string
  cq_discussion :: string
  cq_reply :: string
  cq_path :: string
  cq_query :: "string \<Rightarrow> string"
  cq_if_match :: string
  cq_key :: string
  cq_sent :: string
  cq_read_error :: "string option"
  cq_actor :: string
  cq_admin :: bool
  cq_alive :: bool

record create_body =
  cb_parse :: string
  cb_page :: "int option"
  cb_block :: "int option"
  cb_type :: string
  cb_scope :: string
  cb_status :: string
  cb_reason :: string
  cb_body :: string
  cb_model :: string

text \<open>The library functions in use: the decoders of the four payloads, the time format and the digest; and
  the settings, None for a nil configuration.\<close>

record comment_libs =
  cl_create :: "string \<Rightarrow> string + create_body"
  cl_reply :: "string \<Rightarrow> string + string \<times> string"
  cl_status :: "string \<Rightarrow> string + string \<times> string"
  cl_edit :: "string \<Rightarrow> string + string"
  cl_time :: "instant \<Rightarrow> string"
  cl_sha :: "string \<Rightarrow> string"

record comment_cfg =
  cf_max_request :: int
  cf_max_chars :: int

record comment_deps =
  cd_libs :: comment_libs
  cd_cfg :: "comment_cfg option"
  cd_anchors :: anchor_validator

text \<open>The interface \<open>comments.Store\<close>.\<close>

record 's store_api =
  sa_create_discussion :: "discussion_input \<Rightarrow> 's \<Rightarrow> (store_error + discussion) \<times> 's"
  sa_list_discussions :: "list_filter \<Rightarrow> 's \<Rightarrow> store_error + discussion list"
  sa_get_discussion :: "string \<Rightarrow> 's \<Rightarrow> store_error + discussion option"
  sa_list_replies :: "string \<Rightarrow> string \<Rightarrow> int \<Rightarrow> 's \<Rightarrow> store_error + comment_reply list"
  sa_create_reply :: "reply_input \<Rightarrow> 's \<Rightarrow> (store_error + comment_reply) \<times> 's"
  sa_get_reply :: "string \<Rightarrow> 's \<Rightarrow> store_error + comment_reply option"
  sa_set_status :: "string \<Rightarrow> string \<Rightarrow> string \<Rightarrow> string \<Rightarrow> 's \<Rightarrow> (store_error + discussion) \<times> 's"
  sa_update_discussion_body :: "string \<Rightarrow> int \<Rightarrow> string \<Rightarrow> string \<Rightarrow> 's \<Rightarrow> (store_error + discussion) \<times> 's"
  sa_update_reply_body :: "string \<Rightarrow> int \<Rightarrow> string \<Rightarrow> string \<Rightarrow> 's \<Rightarrow> (store_error + comment_reply) \<times> 's"
  sa_history :: "string \<Rightarrow> 's \<Rightarrow> store_error + body_revision list \<times> status_event list"

definition pg_api :: "store_env \<Rightarrow> comment_tables store_api" where
  "pg_api env =
     \<lparr>sa_create_discussion = pg_create_discussion env, sa_list_discussions = pg_list_discussions env,
      sa_get_discussion = pg_get_discussion env, sa_list_replies = pg_list_replies env,
      sa_create_reply = pg_create_reply env, sa_get_reply = pg_get_reply env,
      sa_set_status = pg_set_status env, sa_update_discussion_body = pg_update_discussion_body env,
      sa_update_reply_body = pg_update_reply_body env, sa_history = pg_history env\<rparr>"

definition mem_api :: "string \<times> instant \<Rightarrow> mem_store store_api" where
  "mem_api e =
     \<lparr>sa_create_discussion = mem_create_discussion (fst e) (snd e),
      sa_list_discussions = (\<lambda>f m. Inr (mem_list_discussions f m)),
      sa_get_discussion = (\<lambda>i m. Inr (mem_get_discussion i m)), sa_list_replies = mem_list_replies,
      sa_create_reply = mem_create_reply (fst e) (snd e), sa_get_reply = (\<lambda>i m. Inr (mem_get_reply i m)),
      sa_set_status = mem_set_status (snd e), sa_update_discussion_body = mem_update_discussion_body (snd e),
      sa_update_reply_body = mem_update_reply_body (snd e), sa_history = mem_history\<rparr>"

section \<open>Documents\<close>

definition null_if_empty :: "string \<Rightarrow> json" where
  "null_if_empty s = (if s = [] then J_Null else J_Str s)"

definition discussion_json :: "comment_libs \<Rightarrow> discussion \<Rightarrow> (string \<times> json) list" where
  "discussion_json lib d =
     [(''discussion_id'', J_Str (ds_id d)), (''paper_id'', J_Str (ds_paper d)),
      (''anchor'', J_Obj [(''parse_revision'', J_Str (ds_parse d)), (''page_idx'', J_Int (ds_page d)),
         (''block_index'', J_Int (ds_block d))]),
      (''type'', J_Str (ds_type d)), (''scope'', J_Str (ds_scope d)),
      (''status'', null_if_empty (ds_status d)), (''body'', J_Str (ds_body d)),
      (''created_by'', J_Str (ds_by d)), (''model'', null_if_empty (ds_model d)),
      (''revision'', J_Int (ds_rev d)), (''reply_count'', J_Int (int (ds_replies d))),
      (''created_at'', J_Str (cl_time lib (ds_created d))), (''updated_at'', J_Str (cl_time lib (ds_updated d)))]"

definition reply_json :: "comment_libs \<Rightarrow> comment_reply \<Rightarrow> (string \<times> json) list" where
  "reply_json lib r =
     [(''reply_id'', J_Str (ry_id r)), (''discussion_id'', J_Str (ry_discussion r)), (''body'', J_Str (ry_body r)),
      (''created_by'', J_Str (ry_by r)), (''model'', null_if_empty (ry_model r)), (''revision'', J_Int (ry_rev r)),
      (''created_at'', J_Str (cl_time lib (ry_created r))), (''updated_at'', J_Str (cl_time lib (ry_updated r)))]"

section \<open>Helpers of the handlers\<close>

text \<open>\<open>readBody\<close>: on a request that is too long it writes the refusal and returns what \<open>re.JSON\<close> returns, next to
  a nil slice. \<open>checkBodyLimit\<close> likewise. The Boolean is whether the returned error is not nil.\<close>

definition read_body :: "comment_deps \<Rightarrow> comment_request \<Rightarrow> response \<Rightarrow> (string \<times> bool) \<times> response" where
  "read_body d rq w =
     (let mx = (case cd_cfg d of None \<Rightarrow> 1048576
                | Some c \<Rightarrow> if 0 < cf_max_request c then cf_max_request c else 1048576)
      in if mx < int (length (cq_sent rq))
         then (([], \<not> cq_alive rq), write_detail 413
           ''request body exceeds the comment request limit; split the content instead of truncating'' w)
         else case cq_read_error rq of
                Some e \<Rightarrow> (([], \<not> cq_alive rq), write_detail 400 (''read request body: '' @ e) w)
              | None \<Rightarrow> ((cq_sent rq, False), w))"

definition max_chars :: "comment_deps \<Rightarrow> int" where
  "max_chars d =
     (case cd_cfg d of None \<Rightarrow> 20000 | Some c \<Rightarrow> if 0 < cf_max_chars c then cf_max_chars c else 20000)"

definition check_body_limit :: "comment_deps \<Rightarrow> comment_request \<Rightarrow> string \<Rightarrow> response \<Rightarrow> bool \<times> response" where
  "check_body_limit d rq body w =
     (let n = int (rune_count body) in
      if max_chars d < n
      then (\<not> cq_alive rq, write_detail 413
        (''body exceeds the maximum of '' @ format_d (max_chars d) @ '' Unicode characters ('' @ format_d n @
         '' given); split the comment instead of truncating'') w)
      else (False, w))"

definition trim_char :: "char \<Rightarrow> string \<Rightarrow> string" where
  "trim_char c s = rev (dropWhile (\<lambda>x. x = c) (rev (dropWhile (\<lambda>x. x = c) s)))"

definition parse_if_match_revision :: "comment_request \<Rightarrow> int option" where
  "parse_if_match_revision rq =
     (let v = trim_space (cq_if_match rq) in
      if v = [] then None
      else case atoi (trim_char (CHR 0x22) (trim_prefix ''W/'' v)) of
             None \<Rightarrow> None
           | Some n \<Rightarrow> if n < 1 then None else Some n)"

definition comment_error_text :: "store_error \<Rightarrow> string" where
  "comment_error_text e =
     (case e of
        Comment_Not_Found \<Rightarrow> ''comments: not found''
      | Revision_Conflict \<Rightarrow> ''comments: revision conflict''
      | Store_Unavailable \<Rightarrow> ''comments: store unavailable''
      | Idempotency_Mismatch \<Rightarrow> ''comments: idempotency key reused with different request''
      | Empty_Reason \<Rightarrow> ''comments: status change requires a reason''
      | Rows_Error \<Rightarrow> ''rows'')"

definition comment_store_error :: "string \<Rightarrow> store_error \<Rightarrow> response \<Rightarrow> response" where
  "comment_store_error op e w =
     (case e of
        Comment_Not_Found \<Rightarrow> write_detail 404 ''not found'' w
      | Revision_Conflict \<Rightarrow> write_detail 409
          ''revision conflict: the body changed since you read it (re-fetch and retry with the new ETag)'' w
      | Empty_Reason \<Rightarrow> write_detail 400 ''reason is required for status changes'' w
      | Store_Unavailable \<Rightarrow> write_detail 503
          ''comment store unavailable (PostgreSQL unreachable); retry shortly'' w
      | _ \<Rightarrow> write_detail 500 (op @ '': '' @ comment_error_text e) w)"

section \<open>Reading handlers\<close>

definition bad_paper_id :: "string \<Rightarrow> bool" where
  "bad_paper_id p \<longleftrightarrow> \<not> prefix ''qa_'' p \<or> length p \<le> length ''qa_''"

definition comments_default_per_page :: int where "comments_default_per_page = 20"
definition comments_max_per_page :: int where "comments_max_per_page = 100"

definition parse_per_page :: "string \<Rightarrow> string + int" where
  "parse_per_page v =
     (if v = [] then Inr comments_default_per_page
      else case atoi v of
             None \<Rightarrow> Inl (''invalid per_page: '' @ v)
           | Some n \<Rightarrow>
               if n < 1 then Inl (''invalid per_page: '' @ v)
               else Inr (if comments_max_per_page < n then comments_max_per_page else n))"

definition parse_bounded :: "int \<Rightarrow> string \<Rightarrow> string \<Rightarrow> string + int option" where
  "parse_bounded low text v =
     (if v = [] then Inr None
      else case atoi v of
             None \<Rightarrow> Inl (text @ v)
           | Some n \<Rightarrow> if n < low then Inl (text @ v) else Inr (Some n))"

text \<open>The part of \<open>listDiscussions\<close> that turns the query into a filter; a refusal is the text of a 400.\<close>

definition list_query :: "comment_request \<Rightarrow> string + list_filter" where
  "list_query rq =
     (let q = cq_query rq; v = q ''scope''; t = q ''type''; st = q ''status''; since = q ''since'' in
      if bad_paper_id (cq_paper rq) then Inl (''invalid paper_id (want the qa_ surrogate id): '' @ cq_paper rq)
      else if v \<notin> set [[], scope_public, scope_lean] then Inl (''invalid scope (want public/lean): '' @ v)
      else if t \<noteq> [] \<and> \<not> valid_type t then Inl (''invalid type (want [a-z0-9_:-]{1,64}): '' @ t)
      else if st \<notin> set [[], ''none'', status_pending, status_confirmed, status_retracted]
      then Inl (''invalid status (want pending/confirmed/retracted/none): '' @ st)
      else
        case parse_bounded 0 ''invalid page_idx (want >=0): '' (q ''page_idx'') of
          Inl e \<Rightarrow> Inl e
        | Inr page \<Rightarrow>
            case parse_bounded 1 ''invalid block_index (want >=1): '' (q ''block_index'') of
              Inl e \<Rightarrow> Inl e
            | Inr block \<Rightarrow>
                if since \<noteq> [] \<and> decode_since_cursor since = None
                then Inl (''invalid since cursor (want <unixmillis>-<discussion_id>, echo back the since '' @
                       ''field of the previous response): '' @ since)
                else
                  case parse_per_page (q ''per_page'') of
                    Inl e \<Rightarrow> Inl e
                  | Inr limit \<Rightarrow>
                      Inr \<lparr>lf_paper = cq_paper rq, lf_parse = q ''parse_revision'', lf_page = page,
                           lf_block = block, lf_type = t,
                           lf_status = (if st \<in> set [[], ''none''] then None else Some st),
                           lf_status_null = (st = ''none''),
                           lf_scopes = (if v = scope_public then [scope_public]
                                        else if v = scope_lean then [scope_public, scope_lean] else []),
                           lf_cursor = q ''cursor'', lf_limit = limit,
                           lf_since = (if since = [] then None else decode_since_cursor since)\<rparr>)"

text \<open>The item of a page that was updated last; between equal times, the greater id.\<close>

fun latest_item :: "discussion \<Rightarrow> discussion list \<Rightarrow> discussion" where
  "latest_item mx [] = mx"
| "latest_item mx (it # rest) =
     latest_item
       (if ds_updated mx < ds_updated it \<or> ds_updated it = ds_updated mx \<and> ds_id mx < ds_id it then it else mx)
       rest"

definition next_cursor :: "int \<Rightarrow> discussion list \<Rightarrow> string option" where
  "next_cursor limit items =
     (if int (length items) = limit \<and> 0 < limit then Some (ds_id (last items)) else None)"

definition since_field :: "string \<Rightarrow> int \<Rightarrow> discussion list \<Rightarrow> string option" where
  "since_field echoed limit items =
     (if next_cursor limit items = None \<and> items \<noteq> []
      then let mx = latest_item (hd items) (tl items) in Some (encode_since_cursor (ds_updated mx) (ds_id mx))
      else if echoed \<noteq> [] then Some echoed else None)"

definition json_opt :: "string option \<Rightarrow> json" where
  "json_opt so = (case so of None \<Rightarrow> J_Null | Some s \<Rightarrow> J_Str s)"

definition list_discussions :: "comment_deps \<Rightarrow> comment_request \<Rightarrow> 's store_api \<Rightarrow> 's \<Rightarrow> response" where
  "list_discussions d rq api s =
     (case list_query rq of
        Inl text \<Rightarrow> write_detail 400 text no_response
      | Inr f \<Rightarrow>
          case sa_list_discussions api f s of
            Inl e \<Rightarrow> comment_store_error ''list discussions'' e no_response
          | Inr items \<Rightarrow>
              write_json 200 (J_Obj
                [(''items'', J_List (map (\<lambda>it. J_Obj (discussion_json (cd_libs d) it)) items)),
                 (''next_cursor'', json_opt (next_cursor (lf_limit f) items)),
                 (''since'', json_opt (since_field (cq_query rq ''since'') (lf_limit f) items))]) no_response)"

text \<open>Two calls of the store, with the tables as each of them finds them.\<close>

definition get_discussion :: "comment_deps \<Rightarrow> comment_request \<Rightarrow> 's store_api \<Rightarrow> 's \<Rightarrow> 's store_api \<Rightarrow> 's
    \<Rightarrow> response" where
  "get_discussion d rq api s api' s' =
     (let i = cq_discussion rq in
      case sa_get_discussion api i s of
        Inl e \<Rightarrow> comment_store_error ''get discussion'' e no_response
      | Inr None \<Rightarrow> write_detail 404 (''discussion not found: '' @ i) no_response
      | Inr (Some disc) \<Rightarrow>
          case parse_per_page (cq_query rq ''per_page'') of
            Inl text \<Rightarrow> write_detail 400 text no_response
          | Inr limit \<Rightarrow>
              case sa_list_replies api' i (cq_query rq ''cursor'') limit s' of
                Inl e \<Rightarrow> comment_store_error ''list replies'' e no_response
              | Inr replies \<Rightarrow>
                  write_json 200 (J_Obj (discussion_json (cd_libs d) disc @
                    [(''replies'', J_List (map (\<lambda>r. J_Obj (reply_json (cd_libs d) r)) replies)),
                     (''replies_next_cursor'',
                        if int (length replies) = limit \<and> 0 < limit then J_Str (ry_id (last replies)) else J_Null)]))
                    (set_header ''ETag'' (format_d (ds_rev disc)) no_response))"

definition revisions :: "comment_deps \<Rightarrow> comment_request \<Rightarrow> 's store_api \<Rightarrow> 's \<Rightarrow> response" where
  "revisions d rq api s =
     (let tm = cl_time (cd_libs d) in
      case sa_history api (cq_discussion rq) s of
        Inl e \<Rightarrow> comment_store_error ''history'' e no_response
      | Inr (revs, evs) \<Rightarrow>
          write_json 200 (J_Obj
            [(''body_revisions'', J_List (map (\<lambda>r. J_Obj
                [(''target'', J_Str (bv_target r)), (''target_id'', J_Str (bv_target_id r)),
                 (''old_body'', J_Str (bv_old r)), (''new_body'', J_Str (bv_new r)),
                 (''editor'', J_Str (bv_editor r)), (''created_at'', J_Str (tm (bv_at r)))]) revs)),
             (''status_events'', J_List (map (\<lambda>e. J_Obj
                [(''from'', null_if_empty (se_from e)), (''to'', J_Str (se_to e)), (''reason'', J_Str (se_reason e)),
                 (''actor'', J_Str (se_actor e)), (''created_at'', J_Str (tm (se_at e)))]) evs))]) no_response)"

text \<open>The list embedded in the combined read of a block (\<open>comments_blocks_wire.go\<close>).\<close>

definition combined_block_discussions_limit :: int where "combined_block_discussions_limit = 20"

definition block_discussions :: "'s store_api \<Rightarrow> string \<Rightarrow> string \<Rightarrow> int \<Rightarrow> int \<Rightarrow> int \<Rightarrow> 's
    \<Rightarrow> store_error + discussion list \<times> string" where
  "block_discussions api paper parse page block limit s =
     (let limit = (if limit \<le> 0 \<or> combined_block_discussions_limit < limit
                   then combined_block_discussions_limit else limit)
      in case sa_list_discussions api
                \<lparr>lf_paper = paper, lf_parse = parse, lf_page = Some page, lf_block = Some block, lf_type = [],
                 lf_status = None, lf_status_null = False, lf_scopes = [], lf_cursor = [], lf_limit = limit,
                 lf_since = None\<rparr> s of
           Inl e \<Rightarrow> Inl e
         | Inr items \<Rightarrow> Inr (items, if int (length items) = limit then ds_id (last items) else []))"

section \<open>Writing handlers\<close>

text \<open>
  A writing handler has a part before its change of the store, which may end the request, and a part after
  it. Between the two other requests may run; \<open>Done\<close> is a request that has been answered.
\<close>

datatype 'a comment_phase = Done response | Ready 'a

definition replayed :: "nat \<Rightarrow> json \<Rightarrow> response \<Rightarrow> response" where
  "replayed status body w =
     write_json status body (set_header ''Idempotency-Replayed'' ''true''
       (set_header ''Content-Type'' ''application/json'' w))"

definition check_create_body :: "comment_deps \<Rightarrow> comment_request \<Rightarrow> create_body \<Rightarrow> response
    \<Rightarrow> (discussion_input \<times> response) comment_phase" where
  "check_create_body d rq b w =
     (let typ = (if cb_type b = [] then type_normal else cb_type b);
          scope = (if cb_scope b = [] then scope_public else cb_scope b);
          bad = (\<lambda>text. Done (write_detail 400 text w))
      in if cb_parse b = [] then bad ''parse_revision is required''
         else case cb_page b of None \<Rightarrow> bad ''page_idx is required (>= 0)'' | Some page \<Rightarrow>
         if page < 0 then bad ''page_idx is required (>= 0)''
         else case cb_block b of None \<Rightarrow> bad ''block_index is required (>= 1)'' | Some block \<Rightarrow>
         if block < 1 then bad ''block_index is required (>= 1)''
         else if \<not> valid_type typ then bad (''invalid type (want [a-z0-9_:-]{1,64}): '' @ typ)
         else if \<not> valid_scope scope then bad (''invalid scope (want public/lean): '' @ scope)
         else if \<not> valid_status (cb_status b)
         then bad (''invalid status (want pending/confirmed/retracted or omitted): '' @ cb_status b)
         else if cb_status b \<noteq> [] \<and> cb_reason b = [] then bad ''setting an initial status requires a reason''
         else
           case check_body_limit d rq (cb_body b) w of (stop, w) \<Rightarrow>
           if stop then Done w
           else if cb_body b = [] then Done (write_detail 400 ''body is required'' w)
           else case cd_anchors d (cq_paper rq) (cb_parse b) page block of
                  Some Anchor_Not_Found \<Rightarrow>
                    Done (write_detail 404
                      ''anchor block not found in this parse revision (no nearest-block fallback)'' w)
                | Some (Anchor_Failed e) \<Rightarrow> Done (write_detail 500 e w)
                | None \<Rightarrow>
                    Ready (\<lparr>di_paper = cq_paper rq, di_parse = cb_parse b, di_page = page, di_block = block,
                            di_type = typ, di_scope = scope, di_status = cb_status b,
                            di_reason = cb_reason b, di_body = cb_body b, di_by = cq_actor rq,
                            di_model = cb_model b\<rparr>, w))"

text \<open>The look-up in the replay cache with which the two creating handlers begin: None goes on.\<close>

definition replay :: "comment_request \<Rightarrow> string \<Rightarrow> json idempotency option \<Rightarrow> response \<Rightarrow> response option" where
  "replay rq hash idem w =
     (case idem of
        None \<Rightarrow> None
      | Some c \<Rightarrow>
          if cq_key rq = [] then None
          else case idem_result (cq_key rq) hash c of
                 Inl _ \<Rightarrow> Some (write_detail 409
                   ''Idempotency-Key was already used with a different request body'' w)
               | Inr (Some (status, body)) \<Rightarrow> Some (replayed status body w)
               | Inr None \<Rightarrow> None)"

text \<open>What a begun request still has to do: its write to the store, or the entry in the replay cache that
  follows it, with the response prepared so far.\<close>

datatype comment_task =
    Create_Task comment_request discussion_input string response
  | Reply_Task comment_request reply_input string response
  | Status_Task string string string string response
  | Edit_Task string int string string response
  | Edit_Reply_Task string int string string response
  | Remember_Task string string nat json response

definition begin_create :: "comment_deps \<Rightarrow> comment_request \<Rightarrow> json idempotency option \<Rightarrow> comment_task comment_phase" where
  "begin_create d rq idem =
     (if bad_paper_id (cq_paper rq)
      then Done (write_detail 400 (''invalid paper_id (want the qa_ surrogate id): '' @ cq_paper rq) no_response)
      else case read_body d rq no_response of ((raw, err), w) \<Rightarrow>
        if err then Done w
        else
          let hash = request_hash (cl_sha (cd_libs d)) ''POST'' (cq_path rq) raw in
          case replay rq hash idem w of
            Some r \<Rightarrow> Done r
          | None \<Rightarrow>
              case cl_create (cd_libs d) raw of
                Inl e \<Rightarrow> Done (write_detail 400 (''invalid JSON body: '' @ e) w)
              | Inr b \<Rightarrow>
                  case check_create_body d rq b w of
                    Done r \<Rightarrow> Done r
                  | Ready (x, w) \<Rightarrow> Ready (Create_Task rq x hash w))"

definition begin_reply :: "comment_deps \<Rightarrow> comment_request \<Rightarrow> json idempotency option \<Rightarrow> comment_task comment_phase" where
  "begin_reply d rq idem =
     (case read_body d rq no_response of ((raw, err), w) \<Rightarrow>
        if err then Done w
        else
          let hash = request_hash (cl_sha (cd_libs d)) ''POST'' (cq_path rq) raw in
          case replay rq hash idem w of
            Some r \<Rightarrow> Done r
          | None \<Rightarrow>
              case cl_reply (cd_libs d) raw of
                Inl e \<Rightarrow> Done (write_detail 400 (''invalid JSON body: '' @ e) w)
              | Inr (body, model) \<Rightarrow>
                  if body = [] then Done (write_detail 400 ''body is required'' w)
                  else case check_body_limit d rq body w of (stop, w) \<Rightarrow>
                    if stop then Done w
                    else Ready (Reply_Task rq
                           \<lparr>rn_discussion = cq_discussion rq, rn_body = body, rn_by = cq_actor rq,
                            rn_model = model\<rparr> hash w))"

definition begin_status :: "comment_deps \<Rightarrow> comment_request \<Rightarrow> 's store_api \<Rightarrow> 's \<Rightarrow> comment_task comment_phase" where
  "begin_status d rq api s =
     (let i = cq_discussion rq in
      case read_body d rq no_response of ((raw, err), w) \<Rightarrow>
        if err then Done w
        else case cl_status (cd_libs d) raw of
          Inl e \<Rightarrow> Done (write_detail 400 (''invalid JSON body: '' @ e) w)
        | Inr (to, reason) \<Rightarrow>
            if \<not> valid_status to \<or> to = []
            then Done (write_detail 400 (''invalid status (want pending/confirmed/retracted): '' @ to) w)
            else if trim_space reason = []
            then Done (write_detail 400 ''reason is required for status changes'' w)
            else case sa_get_discussion api i s of
              Inl e \<Rightarrow> Done (comment_store_error ''get discussion'' e w)
            | Inr None \<Rightarrow> Done (write_detail 404 (''discussion not found: '' @ i) w)
            | Inr (Some disc) \<Rightarrow>
                if ds_by disc \<noteq> cq_actor rq \<and> \<not> cq_admin rq
                then Done (write_detail 403
                  ''only the discussion author or a platform admin may change the status'' w)
                else Ready (Status_Task i to reason (cq_actor rq) w))"

text \<open>The common beginning of the two edits: the expected revision and the new body.\<close>

definition begin_edit_body :: "comment_deps \<Rightarrow> comment_request \<Rightarrow> string \<Rightarrow> (int \<times> string \<times> response) comment_phase" where
  "begin_edit_body d rq hint =
     (case parse_if_match_revision rq of
        None \<Rightarrow> Done (write_detail 400
          (''If-Match header with the current revision integer is required ('' @ hint @ '')'') no_response)
      | Some expected \<Rightarrow>
          case read_body d rq no_response of ((raw, err), w) \<Rightarrow>
          if err then Done w
          else case cl_edit (cd_libs d) raw of
            Inl e \<Rightarrow> Done (write_detail 400 (''invalid JSON body: '' @ e) w)
          | Inr body \<Rightarrow>
              if body = [] then Done (write_detail 400 ''body is required'' w)
              else case check_body_limit d rq body w of (stop, w) \<Rightarrow>
                if stop then Done w else Ready (expected, body, w))"

definition begin_edit_discussion :: "comment_deps \<Rightarrow> comment_request \<Rightarrow> 's store_api \<Rightarrow> 's
    \<Rightarrow> comment_task comment_phase" where
  "begin_edit_discussion d rq api s =
     (let i = cq_discussion rq in
      case begin_edit_body d rq ''GET the discussion and use its ETag'' of
        Done r \<Rightarrow> Done r
      | Ready (expected, body, w) \<Rightarrow>
          case sa_get_discussion api i s of
            Inl e \<Rightarrow> Done (comment_store_error ''get discussion'' e w)
          | Inr None \<Rightarrow> Done (write_detail 404 (''discussion not found: '' @ i) w)
          | Inr (Some disc) \<Rightarrow>
              if ds_by disc \<noteq> cq_actor rq
              then Done (write_detail 403 ''only the author may edit this body'' w)
              else Ready (Edit_Task i expected body (cq_actor rq) w))"

definition begin_edit_reply :: "comment_deps \<Rightarrow> comment_request \<Rightarrow> 's store_api \<Rightarrow> 's \<Rightarrow> comment_task comment_phase" where
  "begin_edit_reply d rq api s =
     (let i = cq_reply rq in
      case begin_edit_body d rq ''use the reply's revision'' of
        Done r \<Rightarrow> Done r
      | Ready (expected, body, w) \<Rightarrow>
          case sa_get_reply api i s of
            Inl e \<Rightarrow> Done (comment_store_error ''get reply'' e w)
          | Inr None \<Rightarrow> Done (write_detail 404 (''reply not found: '' @ i) w)
          | Inr (Some reply) \<Rightarrow>
              if ry_discussion reply \<noteq> cq_discussion rq
              then Done (write_detail 404 (''reply not found: '' @ i) w)
              else if ry_by reply \<noteq> cq_actor rq
              then Done (write_detail 403 ''only the author may edit this body'' w)
              else Ready (Edit_Reply_Task i expected body (cq_actor rq) w))"

text \<open>The write to the store and the answer, with what is then to be remembered.\<close>

type_synonym memo = "string \<times> string \<times> nat \<times> json"

fun run_task :: "comment_deps \<Rightarrow> 's store_api \<Rightarrow> comment_task \<Rightarrow> 's \<Rightarrow> (response \<times> memo option) \<times> 's" where
  "run_task d api (Create_Task rq x hash w) s =
     (case sa_create_discussion api x s of
        (Inl e, s') \<Rightarrow> ((comment_store_error ''create discussion'' e w, None), s')
      | (Inr disc, s') \<Rightarrow>
          let doc = J_Obj (discussion_json (cd_libs d) disc) in
          ((write_json 201 doc (set_header ''Location'' (''/api/discussions/'' @ ds_id disc) w),
            if cq_key rq \<noteq> [] then Some (cq_key rq, hash, 201, doc) else None), s'))"
| "run_task d api (Reply_Task rq x hash w) s =
     (case sa_create_reply api x s of
        (Inl e, s') \<Rightarrow> ((comment_store_error ''create reply'' e w, None), s')
      | (Inr r, s') \<Rightarrow>
          let doc = J_Obj (reply_json (cd_libs d) r) in
          ((write_json 201 doc w, if cq_key rq \<noteq> [] then Some (cq_key rq, hash, 201, doc) else None), s'))"
| "run_task d api (Status_Task i to reason actor w) s =
     (case sa_set_status api i to reason actor s of
        (Inl e, s') \<Rightarrow> ((comment_store_error ''set status'' e w, None), s')
      | (Inr disc, s') \<Rightarrow> ((write_json 200 (J_Obj (discussion_json (cd_libs d) disc)) w, None), s'))"
| "run_task d api (Edit_Task i expected body editor w) s =
     (case sa_update_discussion_body api i expected body editor s of
        (Inl e, s') \<Rightarrow> ((comment_store_error ''edit discussion body'' e w, None), s')
      | (Inr disc, s') \<Rightarrow>
          ((write_json 200 (J_Obj (discussion_json (cd_libs d) disc))
              (set_header ''ETag'' (format_d (ds_rev disc)) w), None), s'))"
| "run_task d api (Edit_Reply_Task i expected body editor w) s =
     (case sa_update_reply_body api i expected body editor s of
        (Inl e, s') \<Rightarrow> ((comment_store_error ''edit reply body'' e w, None), s')
      | (Inr r, s') \<Rightarrow>
          ((write_json 200 (J_Obj (reply_json (cd_libs d) r))
              (set_header ''ETag'' (format_d (ry_rev r)) w), None), s'))"
| "run_task d api (Remember_Task key hash status doc w) s = ((w, Some (key, hash, status, doc)), s)"

fun remember_memo :: "memo option \<Rightarrow> json idempotency option \<Rightarrow> json idempotency option" where
  "remember_memo None idem = idem"
| "remember_memo (Some (key, hash, status, doc)) idem = map_option (remember key hash status doc) idem"

record 's comment_server =
  cs_store :: 's
  cs_idem :: "json idempotency option"

text \<open>A whole handler, when nothing else runs in between.\<close>

definition complete :: "comment_deps \<Rightarrow> 's store_api \<Rightarrow> comment_task comment_phase \<Rightarrow> 's comment_server
    \<Rightarrow> response \<times> 's comment_server" where
  "complete d api p sv =
     (case p of
        Done w \<Rightarrow> (w, sv)
      | Ready t \<Rightarrow>
          case run_task d api t (cs_store sv) of
            ((w, memo), s') \<Rightarrow> (w, \<lparr>cs_store = s', cs_idem = remember_memo memo (cs_idem sv)\<rparr>))"

definition create_discussion :: "comment_deps \<Rightarrow> 's store_api \<Rightarrow> comment_request \<Rightarrow> 's comment_server
    \<Rightarrow> response \<times> 's comment_server" where
  "create_discussion d api rq sv = complete d api (begin_create d rq (cs_idem sv)) sv"

definition create_reply :: "comment_deps \<Rightarrow> 's store_api \<Rightarrow> comment_request \<Rightarrow> 's comment_server
    \<Rightarrow> response \<times> 's comment_server" where
  "create_reply d api rq sv = complete d api (begin_reply d rq (cs_idem sv)) sv"

definition set_status :: "comment_deps \<Rightarrow> 's store_api \<Rightarrow> 's store_api \<Rightarrow> comment_request \<Rightarrow> 's comment_server
    \<Rightarrow> response \<times> 's comment_server" where
  "set_status d reads api rq sv = complete d api (begin_status d rq reads (cs_store sv)) sv"

definition edit_discussion_body :: "comment_deps \<Rightarrow> 's store_api \<Rightarrow> 's store_api \<Rightarrow> comment_request
    \<Rightarrow> 's comment_server \<Rightarrow> response \<times> 's comment_server" where
  "edit_discussion_body d reads api rq sv = complete d api (begin_edit_discussion d rq reads (cs_store sv)) sv"

definition edit_reply_body :: "comment_deps \<Rightarrow> 's store_api \<Rightarrow> 's store_api \<Rightarrow> comment_request
    \<Rightarrow> 's comment_server \<Rightarrow> response \<times> 's comment_server" where
  "edit_reply_body d reads api rq sv = complete d api (begin_edit_reply d rq reads (cs_store sv)) sv"

section \<open>Guards\<close>

definition comment_read_guard :: "(string \<Rightarrow> string \<Rightarrow> string \<Rightarrow> string + bool) option \<Rightarrow> auth_env
    \<Rightarrow> ('a, 'r) handler \<Rightarrow> ('a, 'r) handler" where
  "comment_read_guard enforcer env h =
     auth_guard env (\<lambda>re st.
       let held = (case rq_held re of None \<Rightarrow> [] | Some held \<Rightarrow> held) in
       case allows enforcer held ''papers'' ''read'' of
         Inl e \<Rightarrow> (Detail 500 (ScopeCheckFailed e), st)
       | Inr ok_paper \<Rightarrow>
           case allows enforcer held ''comments'' ''read'' of
             Inl e \<Rightarrow> (Detail 500 (ScopeCheckFailed e), st)
           | Inr ok_comments \<Rightarrow>
               if \<not> ok_paper \<and> \<not> ok_comments
               then (Detail 403 (Text (''insufficient scope: this token lacks papers:read or comments:read '' @
                       ''(mint a new PAT at /pat with the required scope)'')), st)
               else h re st)"

definition comment_write_guard :: "(string \<Rightarrow> string \<Rightarrow> string \<Rightarrow> string + bool) option \<Rightarrow> auth_env
    \<Rightarrow> ('a, 'r) handler \<Rightarrow> ('a, 'r) handler" where
  "comment_write_guard enforcer env h =
     auth_guard env (\<lambda>re st.
       if (case rq_source re of None \<Rightarrow> [] | Some s \<Rightarrow> s) = source_system
       then (Detail 403 (Text (''system PATs are read-only for comments: write with a user PAT or browser '' @
               ''session (the comment must be attributable to a real account)'')), st)
       else if rq_auth re = None
       then (Detail 403 (Text ''comments: write requires an authenticated user identity''), st)
       else
         case allows enforcer (case rq_held re of None \<Rightarrow> [] | Some held \<Rightarrow> held) ''comments'' ''write'' of
           Inl e \<Rightarrow> (Detail 500 (ScopeCheckFailed e), st)
         | Inr False \<Rightarrow>
             (Detail 403 (Text (''insufficient scope: this token lacks comments:write '' @
                ''(mint a new PAT at /pat with the required scope)'')), st)
         | Inr True \<Rightarrow> h re st)"

definition comment_actor_id :: "request \<Rightarrow> string" where
  "comment_actor_id re = (case rq_auth re of None \<Rightarrow> [] | Some a \<Rightarrow> au_id a)"

definition comment_caller_is_admin :: "request \<Rightarrow> bool" where
  "comment_caller_is_admin re =
     (case rq_auth re of None \<Rightarrow> False | Some a \<Rightarrow> us_admin (au_user a) \<or> us_superadmin (au_user a))"

text \<open>The database of the server with the comments in it, and a comment handler as a handler of the server:
  the actor and the role are those of the authenticated record, whatever the request says.\<close>

record 's comment_db = pbdb +
  cm_server :: "'s comment_server"

definition comment_route :: "(comment_request \<Rightarrow> 's comment_server \<Rightarrow> response \<times> 's comment_server)
    \<Rightarrow> comment_request \<Rightarrow> request \<Rightarrow> 's comment_db \<times> verify_cache \<Rightarrow> response reply \<times> 's comment_db \<times> verify_cache" where
  "comment_route h rq re st =
     (case h (rq\<lparr>cq_actor := comment_actor_id re, cq_admin := comment_caller_is_admin re\<rparr>) (cm_server (fst st)) of
        (w, sv) \<Rightarrow> (Reply w, ((fst st)\<lparr>cm_server := sv\<rparr>, snd st)))"

end
