(* ===== verification/Comment_Machine.thy ===== *)
theory Comment_Machine
  imports Comment_Routes
begin

text \<open>
  The comments under concurrent requests. A request runs in steps, as its handler releases the locks and
  transactions it takes: what it does before its write to the store, the write, and the entry in the
  replay cache. The locale \<open>comment_store\<close> is what the handlers need of a store; it is interpreted on the
  PostgreSQL store and on the one in memory.
\<close>

section \<open>What the handlers rely on\<close>

fun sa_exec :: "'s store_api \<Rightarrow> store_op \<Rightarrow> 's \<Rightarrow> store_result \<times> 's" where
  "sa_exec api (Op_Create x) s = discussion_result (sa_create_discussion api x s)"
| "sa_exec api (Op_Reply x) s = reply_result (sa_create_reply api x s)"
| "sa_exec api (Op_Status i to reason actor) s = discussion_result (sa_set_status api i to reason actor s)"
| "sa_exec api (Op_Edit i expected body editor) s =
     discussion_result (sa_update_discussion_body api i expected body editor s)"
| "sa_exec api (Op_Edit_Reply i expected body editor) s =
     reply_result (sa_update_reply_body api i expected body editor s)"

text \<open>Who wrote what: the author of a discussion and of a reply.\<close>

definition author_of :: "mem_store \<Rightarrow> string \<Rightarrow> string option" where
  "author_of m i = map_option ds_by (map_of (ms_discussions m) i)"

definition reply_author_of :: "mem_store \<Rightarrow> string \<Rightarrow> string option" where
  "reply_author_of m i = map_option ry_by (map_of (ms_replies m) i)"

text \<open>The trail is in order: every edit was made by the author of what it edits, and every status event by the
  author of the discussion or by one of \<open>admins\<close>.\<close>

definition trail_ok :: "string set \<Rightarrow> mem_store \<Rightarrow> bool" where
  "trail_ok admins m \<longleftrightarrow>
     (\<forall>i. \<forall>b\<in>set (ms_body_revs m i). author_of m i = Some (bv_editor b)) \<and>
     (\<forall>i. \<forall>b\<in>set (ms_reply_revs m i). reply_author_of m i = Some (bv_editor b)) \<and>
     (\<forall>i. \<forall>e\<in>set (ms_events m i). author_of m i \<noteq> None \<and>
        (author_of m i = Some (se_actor e) \<or> se_actor e \<in> admins))"

text \<open>An operation that its handler may ask for.\<close>

fun op_allowed :: "string set \<Rightarrow> mem_store \<Rightarrow> store_op \<Rightarrow> bool" where
  "op_allowed admins m (Op_Status i to reason actor) =
     (author_of m i \<noteq> None \<and> (author_of m i = Some actor \<or> actor \<in> admins))"
| "op_allowed admins m (Op_Edit i expected body editor) = (author_of m i = Some editor)"
| "op_allowed admins m (Op_Edit_Reply i expected body editor) = (reply_author_of m i = Some editor)"
| "op_allowed admins m op = True"

lemma mem_exec_authors:
  assumes "fresh_id i0 op m" and "mem_exec i0 now op m = (r, m')"
  shows "author_of m i = Some a \<Longrightarrow> author_of m' i = Some a"
    and "reply_author_of m i = Some a \<Longrightarrow> reply_author_of m' i = Some a"
  using assms
  by (cases op; auto simp: author_of_def reply_author_of_def mem_create_discussion_def mem_create_reply_def
      mem_set_status_def mem_update_discussion_body_def mem_update_reply_body_def Let_def gomap_simps
      split: option.splits if_splits)+

lemma op_allowed_mono:
  assumes "\<And>i a. author_of m i = Some a \<Longrightarrow> author_of m' i = Some a"
    and "\<And>i a. reply_author_of m i = Some a \<Longrightarrow> reply_author_of m' i = Some a"
  shows "op_allowed admins m op \<Longrightarrow> op_allowed admins m' op"
  using assms by (cases op) auto

lemma mem_exec_trail:
  assumes "fresh_id i0 op m" and "mem_exec i0 now op m = (r, m')" and "op_allowed admins m op"
    and "trail_ok admins m"
  shows "trail_ok admins m'"
proof -
  note authors = mem_exec_authors [OF assms(1,2)]
  have keep: "author_of m i \<noteq> None \<and> (author_of m i = Some x \<or> x \<in> admins) \<Longrightarrow>
      author_of m' i \<noteq> None \<and> (author_of m' i = Some x \<or> x \<in> admins)" for i x
    using authors(1) by (metis option.exhaust option.distinct(1))
  have new: "author_of m' i0 = Some (di_by x)" if "op = Op_Create x" for x
    using assms(2) that by (auto simp: author_of_def mem_create_discussion_def Let_def gomap_simps)
  have "author_of m' i = Some (bv_editor b)" if "b \<in> set (ms_body_revs m' i)" for i b
  proof (cases "b \<in> set (ms_body_revs m i)")
    case True
    with assms(4) authors(1) show ?thesis by (simp add: trail_ok_def)
  next
    case False
    with that assms(2) obtain expected body editor where "op = Op_Edit i expected body editor" "bv_editor b = editor"
      by (cases op) (auto simp: mem_create_discussion_def mem_create_reply_def mem_set_status_def
          mem_update_discussion_body_def mem_update_reply_body_def Let_def split: option.splits if_splits)
    with assms(3) authors(1) show ?thesis by simp
  qed
  moreover have "reply_author_of m' i = Some (bv_editor b)" if "b \<in> set (ms_reply_revs m' i)" for i b
  proof (cases "b \<in> set (ms_reply_revs m i)")
    case True
    with assms(4) authors(2) show ?thesis by (simp add: trail_ok_def)
  next
    case False
    with that assms(2) obtain expected body editor where "op = Op_Edit_Reply i expected body editor"
      "bv_editor b = editor"
      by (cases op) (auto simp: mem_create_discussion_def mem_create_reply_def mem_set_status_def
          mem_update_discussion_body_def mem_update_reply_body_def Let_def split: option.splits if_splits)
    with assms(3) authors(2) show ?thesis by simp
  qed
  moreover have "author_of m' i \<noteq> None \<and> (author_of m' i = Some (se_actor e) \<or> se_actor e \<in> admins)"
    if "e \<in> set (ms_events m' i)" for i e
  proof (cases "e \<in> set (ms_events m i)")
    case True
    with assms(4) have "author_of m i \<noteq> None \<and> (author_of m i = Some (se_actor e) \<or> se_actor e \<in> admins)"
      by (simp add: trail_ok_def)
    then show ?thesis by (rule keep)
  next
    case False
    with that assms(2) consider x where "op = Op_Create x" "i = i0" "se_actor e = di_by x"
      | to reason actor where "op = Op_Status i to reason actor" "se_actor e = actor"
      by (cases op) (auto simp: mem_create_discussion_def mem_create_reply_def mem_set_status_def
          mem_update_discussion_body_def mem_update_reply_body_def Let_def split: option.splits if_splits)
    then show ?thesis
    proof cases
      case 1
      with new show ?thesis by simp
    next
      case 2
      with assms(3) show ?thesis by (intro keep) simp
    qed
  qed
  ultimately show ?thesis unfolding trail_ok_def by blast
qed

text \<open>
  The contract. A store stands for a content, its \<open>view\<close>. What it reports about a discussion or a reply is
  there, with its author; and a call of an operation leaves the content as it is or has the specified
  effect on it, provided that the minted id is \<open>fresh\<close> where the store does not check this itself.
\<close>

locale comment_store =
  fixes api :: "'e \<Rightarrow> 's store_api"
    and view :: "'s \<Rightarrow> mem_store"
    and valid :: "'s \<Rightarrow> bool"
    and fresh :: "'e \<Rightarrow> store_op \<Rightarrow> 's \<Rightarrow> bool"
  assumes get: "valid s \<Longrightarrow> sa_get_discussion (api e) i s = Inr (Some d) \<Longrightarrow> author_of (view s) i = Some (ds_by d)"
    and get_reply: "valid s \<Longrightarrow> sa_get_reply (api e) i s = Inr (Some q) \<Longrightarrow> reply_author_of (view s) i = Some (ry_by q)"
    and exec: "valid s \<Longrightarrow> fresh e op s \<Longrightarrow> sa_exec (api e) op s = (r, s') \<Longrightarrow>
      valid s' \<and> (view s' = view s \<or>
        (\<exists>i0 now op' r0. op' \<in> {op, with_reason op} \<and> fresh_id i0 op' (view s) \<and>
           mem_exec i0 now op' (view s) = (r0, view s')))"
begin

lemma exec_valid: "valid s \<Longrightarrow> fresh e op s \<Longrightarrow> valid (snd (sa_exec (api e) op s))"
  using exec [of s e op] by (metis prod.collapse)

lemma allowed_with_reason: "op' \<in> {op, with_reason op} \<Longrightarrow> op_allowed admins m op' = op_allowed admins m op"
  by (cases op) auto

lemma exec_authors:
  assumes "valid s" and "fresh e op s"
  shows "author_of (view s) i = Some a \<Longrightarrow> author_of (view (snd (sa_exec (api e) op s))) i = Some a"
    and "reply_author_of (view s) i = Some a \<Longrightarrow> reply_author_of (view (snd (sa_exec (api e) op s))) i = Some a"
  using exec [OF assms prod.collapse [symmetric]] mem_exec_authors by metis+

lemma exec_allowed:
  assumes "valid s" and "fresh e op s"
  shows "op_allowed admins (view s) op1 \<Longrightarrow> op_allowed admins (view (snd (sa_exec (api e) op s))) op1"
  using exec_authors [OF assms] by (rule op_allowed_mono)

lemma exec_trail:
  assumes "valid s" and "fresh e op s" and "op_allowed admins (view s) op" and "trail_ok admins (view s)"
  shows "trail_ok admins (view (snd (sa_exec (api e) op s)))"
  using exec [OF assms(1,2) prod.collapse [symmetric]] mem_exec_trail allowed_with_reason assms(3,4) by metis

end

definition always_fresh :: "store_env \<Rightarrow> store_op \<Rightarrow> comment_tables \<Rightarrow> bool" where
  "always_fresh env op db \<longleftrightarrow> True"

definition mem_fresh :: "string \<times> instant \<Rightarrow> store_op \<Rightarrow> mem_store \<Rightarrow> bool" where
  "mem_fresh e op m \<longleftrightarrow> fresh_id (fst e) op m"

definition mem_keyed :: "mem_store \<Rightarrow> bool" where
  "mem_keyed m \<longleftrightarrow> gomap_ok (ms_discussions m) \<and> gomap_ok (ms_replies m)"

lemma pg_sa_exec: "sa_exec (pg_api env) op db = pg_exec env op db"
  by (cases op) (simp_all add: pg_api_def)

lemma mem_sa_exec: "sa_exec (mem_api e) op m = mem_exec (fst e) (snd e) op m"
  by (cases op) (simp_all add: mem_api_def)

interpretation pg: comment_store pg_api tables_abs tables_ok always_fresh
proof
  show "author_of (tables_abs s) i = Some (ds_by d)"
    if "tables_ok s" "sa_get_discussion (pg_api e) i s = Inr (Some d)" for s e i d
    using that by (auto simp: pg_api_def pg_get_discussion_def get_discussion_tx_def query_one_def db_call_def
        author_of_def discussion_of_def split: if_splits option.splits)
  show "reply_author_of (tables_abs s) i = Some (ry_by r)"
    if "tables_ok s" "sa_get_reply (pg_api e) i s = Inr (Some r)" for s e i r
    using that by (auto simp: pg_api_def pg_get_reply_def query_one_def db_call_def reply_author_of_def
        split: if_splits option.splits)
  show "tables_ok s' \<and> (tables_abs s' = tables_abs s \<or>
      (\<exists>i0 now op' r0. op' \<in> {op, with_reason op} \<and> fresh_id i0 op' (tables_abs s) \<and>
         mem_exec i0 now op' (tables_abs s) = (r0, tables_abs s')))"
    if s: "tables_ok s" and "always_fresh e op s" and x: "sa_exec (pg_api e) op s = (r, s')" for s e op r s'
    using pg_exec_simulated [OF s, of e op] x
    unfolding simulated_def pg_sa_exec by (fastforce simp: fresh_with_reason)
qed

interpretation mem: comment_store mem_api id mem_keyed mem_fresh
proof
  show "author_of (id s) i = Some (ds_by d)"
    if "mem_keyed s" "sa_get_discussion (mem_api e) i s = Inr (Some d)" for s e i d
    using that by (auto simp: mem_api_def mem_get_discussion_def author_of_def split: option.splits)
  show "reply_author_of (id s) i = Some (ry_by r)"
    if "mem_keyed s" "sa_get_reply (mem_api e) i s = Inr (Some r)" for s e i r
    using that by (auto simp: mem_api_def mem_get_reply_def reply_author_of_def)
  show "mem_keyed s' \<and> (id s' = id s \<or>
      (\<exists>i0 now op' r0. op' \<in> {op, with_reason op} \<and> fresh_id i0 op' (id s) \<and> mem_exec i0 now op' (id s) = (r0, id s')))"
    if s: "mem_keyed s" and "mem_fresh e op s" and x: "sa_exec (mem_api e) op s = (r, s')" for s e op r s'
  proof -
    have "mem_keyed s'"
      using s x by (cases op) (auto simp: mem_keyed_def mem_api_def mem_create_discussion_def mem_create_reply_def
          mem_set_status_def mem_update_discussion_body_def mem_update_reply_body_def Let_def
          split: option.splits if_splits)
    with that show ?thesis unfolding mem_sa_exec mem_fresh_def by (metis id_apply insertI1)
  qed
qed

section \<open>Concurrent requests\<close>

datatype comment_call = Call_Create | Call_Reply | Call_Status | Call_Edit | Call_Edit_Reply

fun begin_call :: "comment_deps \<Rightarrow> comment_call \<Rightarrow> comment_request \<Rightarrow> 's store_api \<Rightarrow> 's comment_server
    \<Rightarrow> comment_task comment_phase" where
  "begin_call d Call_Create rq api sv = begin_create d rq (cs_idem sv)"
| "begin_call d Call_Reply rq api sv = begin_reply d rq (cs_idem sv)"
| "begin_call d Call_Status rq api sv = begin_status d rq api (cs_store sv)"
| "begin_call d Call_Edit rq api sv = begin_edit_discussion d rq api (cs_store sv)"
| "begin_call d Call_Edit_Reply rq api sv = begin_edit_reply d rq api (cs_store sv)"

fun task_op :: "comment_task \<Rightarrow> store_op option" where
  "task_op (Create_Task rq x hash w) = Some (Op_Create x)"
| "task_op (Reply_Task rq x hash w) = Some (Op_Reply x)"
| "task_op (Status_Task i to reason actor w) = Some (Op_Status i to reason actor)"
| "task_op (Edit_Task i expected body editor w) = Some (Op_Edit i expected body editor)"
| "task_op (Edit_Reply_Task i expected body editor w) = Some (Op_Edit_Reply i expected body editor)"
| "task_op (Remember_Task key hash status doc w) = None"

lemma run_task_store:
  "task_op t = Some op \<Longrightarrow> snd (run_task d api t s) = snd (sa_exec api op s)"
  by (cases t) (auto simp: Let_def split: prod.splits sum.splits)

text \<open>The requests that have begun, and the answered ones whose outcome is still to be remembered. A step
  begins a request that goes on, writes to the store for one, or fills the replay cache; a request that
  ends at once changes nothing. Who is an administrator does not change during a run.\<close>

record 's comment_machine = "'s comment_server" +
  mc_tasks :: "comment_task multiset"
  mc_memos :: "memo multiset"

inductive comment_step :: "comment_deps \<Rightarrow> string set \<Rightarrow> ('e \<Rightarrow> 's store_api) \<Rightarrow> ('e \<Rightarrow> store_op \<Rightarrow> 's \<Rightarrow> bool)
    \<Rightarrow> 's comment_machine \<Rightarrow> 's comment_machine \<Rightarrow> bool"
  for d admins api fresh where
  Begin: "begin_call d call rq (api e) (comment_server.truncate m) = Ready t \<Longrightarrow>
    (cq_admin rq \<longrightarrow> cq_actor rq \<in> admins) \<Longrightarrow>
    comment_step d admins api fresh m (m\<lparr>mc_tasks := add_mset t (mc_tasks m)\<rparr>)"
| Write: "t \<in># mc_tasks m \<Longrightarrow> task_op t = Some op \<Longrightarrow> fresh e op (cs_store m) \<Longrightarrow>
    run_task d (api e) t (cs_store m) = ((w, memo), s') \<Longrightarrow>
    comment_step d admins api fresh m (m\<lparr>cs_store := s', mc_tasks := mc_tasks m - {#t#},
      mc_memos := (case memo of None \<Rightarrow> mc_memos m | Some k \<Rightarrow> add_mset k (mc_memos m))\<rparr>)"
| Remember: "k \<in># mc_memos m \<Longrightarrow>
    comment_step d admins api fresh m (m\<lparr>cs_idem := remember_memo (Some k) (cs_idem m),
      mc_memos := mc_memos m - {#k#}\<rparr>)"

inductive comment_steps :: "comment_deps \<Rightarrow> string set \<Rightarrow> ('e \<Rightarrow> 's store_api) \<Rightarrow> ('e \<Rightarrow> store_op \<Rightarrow> 's \<Rightarrow> bool)
    \<Rightarrow> 's comment_machine \<Rightarrow> 's comment_machine \<Rightarrow> bool"
  for d admins api fresh where
  Refl: "comment_steps d admins api fresh m m"
| Step: "comment_steps d admins api fresh m m' \<Longrightarrow> comment_step d admins api fresh m' m'' \<Longrightarrow>
    comment_steps d admins api fresh m m''"

definition start_comments :: "'s \<Rightarrow> json idempotency option \<Rightarrow> 's comment_machine" where
  "start_comments s idem = \<lparr>cs_store = s, cs_idem = idem, mc_tasks = {#}, mc_memos = {#}\<rparr>"

context comment_store
begin

lemma begin_allowed:
  assumes "valid (cs_store sv)" and "begin_call d call rq (api e) sv = Ready t"
    and "cq_admin rq \<longrightarrow> cq_actor rq \<in> admins"
  shows "\<exists>op. task_op t = Some op \<and> op_allowed admins (view (cs_store sv)) op"
proof (cases call)
  case Call_Create
  with assms(2) show ?thesis
    by (auto simp: begin_create_def Let_def split: if_splits prod.splits option.splits sum.splits comment_phase.splits)
next
  case Call_Reply
  with assms(2) show ?thesis
    by (auto simp: begin_reply_def Let_def split: if_splits prod.splits option.splits sum.splits)
next
  case Call_Status
  with assms(2) obtain dd to reason w where "sa_get_discussion (api e) (cq_discussion rq) (cs_store sv) = Inr (Some dd)"
    "ds_by dd = cq_actor rq \<or> cq_admin rq" "t = Status_Task (cq_discussion rq) to reason (cq_actor rq) w"
    by (auto simp: begin_status_def Let_def split: if_splits prod.splits option.splits sum.splits)
  with get [OF assms(1) this(1)] assms(3) show ?thesis by auto
next
  case Call_Edit
  with assms(2) obtain dd expected body w where
    "sa_get_discussion (api e) (cq_discussion rq) (cs_store sv) = Inr (Some dd)"
    "ds_by dd = cq_actor rq" "t = Edit_Task (cq_discussion rq) expected body (cq_actor rq) w"
    by (auto simp: begin_edit_discussion_def Let_def split: if_splits prod.splits option.splits sum.splits comment_phase.splits)
  with get [OF assms(1) this(1)] show ?thesis by auto
next
  case Call_Edit_Reply
  with assms(2) obtain q expected body w where "sa_get_reply (api e) (cq_reply rq) (cs_store sv) = Inr (Some q)"
    "ry_by q = cq_actor rq" "t = Edit_Reply_Task (cq_reply rq) expected body (cq_actor rq) w"
    by (auto simp: begin_edit_reply_def Let_def split: if_splits prod.splits option.splits sum.splits comment_phase.splits)
  with get_reply [OF assms(1) this(1)] show ?thesis by auto
qed

definition authorised :: "string set \<Rightarrow> 's comment_machine \<Rightarrow> bool" where
  "authorised admins m \<longleftrightarrow>
     valid (cs_store m) \<and> trail_ok admins (view (cs_store m)) \<and>
     (\<forall>t op. t \<in># mc_tasks m \<longrightarrow> task_op t = Some op \<longrightarrow> op_allowed admins (view (cs_store m)) op)"

lemma step_authorised:
  assumes "comment_step d admins api fresh m m'" and "authorised admins m"
  shows "authorised admins m'"
  using assms
proof (cases rule: comment_step.cases)
  case (Begin call rq e t)
  then have "\<exists>op. task_op t = Some op \<and> op_allowed admins (view (cs_store m)) op"
    using begin_allowed [of "comment_server.truncate m" d call rq e t admins] assms(2)
    by (simp add: authorised_def comment_server.truncate_def)
  with assms(2) Begin(1) show ?thesis by (auto simp: authorised_def)
next
  case (Write t op e w memo s')
  have s': "s' = snd (sa_exec (api e) op (cs_store m))"
    using run_task_store [OF Write(3), of d "api e" "cs_store m"] Write(5) by simp
  from assms(2) have v: "valid (cs_store m)" by (simp add: authorised_def)
  from assms(2) Write(2,3) have al: "op_allowed admins (view (cs_store m)) op" by (simp add: authorised_def)
  note x = exec_valid [OF v Write(4)] exec_trail [OF v Write(4) al] exec_allowed [OF v Write(4)]
  show ?thesis
    using x assms(2) Write(1) s' by (auto simp: authorised_def dest: in_diffD)
next
  case (Remember k)
  with assms(2) show ?thesis by (simp add: authorised_def)
qed

lemma steps_authorised:
  "comment_steps d admins api fresh m m' \<Longrightarrow> authorised admins m \<Longrightarrow> authorised admins m'"
  by (induction rule: comment_steps.induct) (auto intro: step_authorised)

end

text \<open>C17: Only the author edits. Whatever requests run concurrently against the PostgreSQL store, and
  whatever the database does to their calls: every recorded edit of a discussion or of a reply was made
  by the user who created it, and every recorded change of a status by the creator of the discussion or by
  an administrator, although the handlers check this in a transaction before the one that writes.\<close>

theorem comment_authority:
  assumes "comment_steps d admins pg_api always_fresh (start_comments empty_tables idem) m"
  shows "trail_ok admins (tables_abs (cs_store m))"
proof -
  have "pg.authorised admins (start_comments empty_tables idem :: comment_tables comment_machine)"
    by (simp add: pg.authorised_def start_comments_def trail_ok_def tables_abs_def empty_tables_def
        revisions_of_def events_of_def tables_ok_def)
  with assms have "pg.authorised admins m" by (rule pg.steps_authorised)
  then show ?thesis by (simp add: pg.authorised_def)
qed

section \<open>The limit on the length of a body\<close>

definition without_limit :: "comment_deps \<Rightarrow> comment_deps" where
  "without_limit d = d\<lparr>cd_cfg := Some \<lparr>cf_max_request = (case cd_cfg d of None \<Rightarrow> 0 | Some c \<Rightarrow> cf_max_request c),
     cf_max_chars = 2 ^ 62\<rparr>\<rparr>"

lemma sent_status_append: "rs_writes w \<noteq> [] \<Longrightarrow> sent_status (write_json st doc w) = sent_status w"
  by (auto simp: sent_status_def write_json_def split: list.splits)

lemma write_detail_nonempty [simp]: "rs_writes (write_detail st text w) \<noteq> []"
  by (simp add: write_detail_def write_json_def)

lemma set_header_writes [simp]: "rs_writes (set_header k v w) = rs_writes w"
  by (simp add: set_header_def)

lemma sent_status_header [simp]: "sent_status (set_header k v w) = sent_status w"
  by (simp add: sent_status_def)

lemma check_create_ready:
  assumes "check_create_body d rq b w = Ready (x, w')"
  shows "check_body_limit d rq (cb_body b) w = (False, w')" and "di_body x = cb_body b"
    and "cd_anchors d' = cd_anchors d \<Longrightarrow> check_body_limit d' rq (cb_body b) w = (False, w2) \<Longrightarrow>
      check_create_body d' rq b w = Ready (x, w2)"
proof -
  obtain page block where pb: "cb_page b = Some page" "cb_block b = Some block"
    using assms by (auto simp: check_create_body_def Let_def split: if_splits option.splits)
  obtain stop w1 where lim: "check_body_limit d rq (cb_body b) w = (stop, w1)" by (metis prod.exhaust)
  note u = assms [unfolded check_create_body_def Let_def pb lim option.case prod.case]
  from u show "check_body_limit d rq (cb_body b) w = (False, w')" and "di_body x = cb_body b"
    by (auto simp: lim split: if_splits option.splits anchor_error.splits)
  assume "cd_anchors d' = cd_anchors d" and "check_body_limit d' rq (cb_body b) w = (False, w2)"
  with u show "check_create_body d' rq b w = Ready (x, w2)"
    unfolding check_create_body_def Let_def pb option.case
    by (auto split: if_splits option.splits anchor_error.splits)
qed

lemma check_limit_first:
  assumes "check_body_limit d rq body w = (err, no_response)"
  shows "w = no_response"
proof (cases "max_chars d < int (rune_count body)")
  case True
  then have "rs_writes (snd (check_body_limit d rq body w)) \<noteq> []" by (simp add: check_body_limit_def)
  with assms show ?thesis by (simp add: no_response_def)
next
  case False
  with assms show ?thesis by (simp add: check_body_limit_def)
qed

text \<open>The limit on the characters of a comment is not enforced. Take a creating request that the
  handler would accept if there were no limit, sent in one piece by a client that stays connected, with
  a body over the limit. The client is told 413, yet the handler goes on, and the discussion with the
  whole body is created.\<close>

theorem oversize_body_is_stored:
  assumes "begin_create (without_limit d) rq idem = Ready (Create_Task rq x hash no_response)"
    and "max_chars d < int (rune_count (di_body x))" and "cq_alive rq"
    and "sa_create_discussion api x s = (Inr disc, s')"
  shows "let (w, sv') = create_discussion d api rq \<lparr>cs_store = s, cs_idem = idem\<rparr> in
    sent_status w = 413 \<and> cs_store sv' = s'"
proof -
  from assms(1) have p: "\<not> bad_paper_id (cq_paper rq)" by (auto simp: begin_create_def split: if_splits)
  have rb: "read_body (without_limit d) rq no_response = read_body d rq no_response"
    by (simp add: read_body_def without_limit_def Let_def split: option.splits)
  obtain raw err w0 where r: "read_body d rq no_response = ((raw, err), w0)" by (metis prod.exhaust)
  have libs [simp]: "cd_libs (without_limit d) = cd_libs d" "cd_anchors (without_limit d) = cd_anchors d"
    by (simp_all add: without_limit_def)
  from assms(1) p r obtain b where b: "\<not> err" "cl_create (cd_libs d) raw = Inr b"
    "hash = request_hash (cl_sha (cd_libs d)) ''POST'' (cq_path rq) raw" "replay rq hash idem w0 = None"
    "check_create_body (without_limit d) rq b w0 = Ready (x, no_response)"
    by (auto simp: begin_create_def rb Let_def split: if_splits prod.splits option.splits sum.splits comment_phase.splits)
  note ready = check_create_ready [OF b(5)]
  have w0: "w0 = no_response" using ready(1) by (rule check_limit_first)
  define w1 where "w1 = snd (check_body_limit d rq (cb_body b) no_response)"
  have w1: "check_body_limit d rq (cb_body b) no_response = (False, w1)" "sent_status w1 = 413" "rs_writes w1 \<noteq> []"
    using assms(2,3) ready(2)
    by (auto simp: w1_def check_body_limit_def Let_def sent_status_def write_detail_def write_json_def no_response_def)
  from check_create_ready(3) [OF b(5) libs(2) [symmetric] w1(1) [folded w0]]
  have "begin_create d rq idem = Ready (Create_Task rq x hash w1)"
    using p r b(1-4) by (simp add: begin_create_def)
  with assms(4) w1(2,3) show ?thesis
    by (simp add: create_discussion_def complete_def Let_def sent_status_append)
qed

section \<open>Replays\<close>

lemma remember_found: "key \<noteq> [] \<Longrightarrow> idem_result key hash (remember key hash st doc c) = Inr (Some (st, doc))"
  by (simp add: idem_result_def remember_def Let_def)

lemma remember_mismatch:
  "key \<noteq> [] \<Longrightarrow> hash' \<noteq> hash \<Longrightarrow> idem_result key hash' (remember key hash st doc c) = Inl Idempotency_Mismatch"
  by (simp add: idem_result_def remember_def Let_def)

lemma begin_create_Ready:
  assumes "begin_create d rq idem = Ready t"
  obtains x w raw w0 where "t = Create_Task rq x (request_hash (cl_sha (cd_libs d)) ''POST'' (cq_path rq) raw) w"
    and "\<not> bad_paper_id (cq_paper rq)" and "read_body d rq no_response = ((raw, False), w0)"
  using assms
  by (auto simp: begin_create_def Let_def split: if_splits prod.splits option.splits sum.splits comment_phase.splits)

text \<open>C32: A repeated creation is replayed. After a creating request with an idempotency key has succeeded,
  the same request gets the same status and document again and changes nothing, whatever the store does
  by then; and a request with the same key whose digest differs is refused with 409 and changes
  nothing either.\<close>

theorem creation_replayed:
  assumes "begin_create d rq (Some c) = Ready (Create_Task rq x hash w0)" and "cq_key rq \<noteq> []"
    and "sa_create_discussion api x s = (Inr disc, s')"
    and "create_discussion d api rq \<lparr>cs_store = s, cs_idem = Some c\<rparr> = (w, sv)"
  shows "(let (w', sv') = create_discussion d api' rq sv in
      last (rs_writes w') = last (rs_writes w) \<and> last (rs_writes w) = (201, J_Obj (discussion_json (cd_libs d) disc)) \<and>
      (''Idempotency-Replayed'', ''true'') \<in> set (rs_headers w') \<and> sv' = sv) \<and>
    (\<forall>rq' raw w1. cq_key rq' = cq_key rq \<longrightarrow> \<not> bad_paper_id (cq_paper rq') \<longrightarrow>
       read_body d rq' no_response = ((raw, False), w1) \<longrightarrow>
       request_hash (cl_sha (cd_libs d)) ''POST'' (cq_path rq') raw \<noteq> hash \<longrightarrow>
       fst (last (rs_writes (fst (create_discussion d api' rq' sv)))) = 409 \<and> snd (create_discussion d api' rq' sv) = sv)"
proof -
  let ?doc = "J_Obj (discussion_json (cd_libs d) disc)"
  obtain raw w1 where p: "\<not> bad_paper_id (cq_paper rq)" "read_body d rq no_response = ((raw, False), w1)"
    and h: "hash = request_hash (cl_sha (cd_libs d)) ''POST'' (cq_path rq) raw"
    using begin_create_Ready [OF assms(1)] by (metis comment_task.inject(1))
  let ?c = "remember (cq_key rq) hash 201 ?doc c"
  have run: "w = write_json 201 ?doc (set_header ''Location'' (''/api/discussions/'' @ ds_id disc) w0)"
    "sv = \<lparr>cs_store = s', cs_idem = Some ?c\<rparr>"
    using assms by (auto simp: create_discussion_def complete_def Let_def)
  have "begin_create d rq (Some ?c) = Done (replayed 201 ?doc w1)"
    using p assms(2) h by (simp add: begin_create_def Let_def replay_def remember_found)
  then have again: "create_discussion d api' rq sv = (replayed 201 ?doc w1, sv)"
    by (simp add: create_discussion_def complete_def run)
  have "create_discussion d api' rq' sv
      = (write_detail 409 ''Idempotency-Key was already used with a different request body'' w2, sv)"
    if "cq_key rq' = cq_key rq" "\<not> bad_paper_id (cq_paper rq')" "read_body d rq' no_response = ((raw', False), w2)"
      "request_hash (cl_sha (cd_libs d)) ''POST'' (cq_path rq') raw' \<noteq> hash" for rq' raw' w2
    using that assms(2)
    by (simp add: create_discussion_def complete_def begin_create_def Let_def replay_def remember_mismatch run)
  moreover have "(k, v) \<in> set (AList.update k v al)" for k v and al :: "(string \<times> string) list"
    by (metis map_of_SomeD update_Some_unfold update_conv' fun_upd_same)
  ultimately show ?thesis
    using again by (auto simp: run write_json_def write_detail_def replayed_def set_header_def)
qed

section \<open>The bound of the replay cache\<close>

definition idem_ok :: "'b idempotency \<Rightarrow> bool" where
  "idem_ok c \<longleftrightarrow> distinct (im_order c) \<and> dom (im_cache c) = set (im_order c) \<and>
     int (length (im_order c)) \<le> im_cap c \<and> 1 \<le> im_cap c"

lemma new_idempotency_ok [simp]: "idem_ok (new_idempotency n)"
  by (simp add: idem_ok_def new_idempotency_def)

lemma remember_ok:
  assumes "idem_ok c"
  shows "idem_ok (remember key hash st doc c)"
proof (cases "key = [] \<or> im_cache c key \<noteq> None")
  case True
  with assms show ?thesis by (auto simp: remember_def idem_ok_def Let_def dom_def)
next
  case False
  then have new: "key \<noteq> []" "im_cache c key = None" "key \<notin> set (im_order c)" using assms by (auto simp: idem_ok_def)
  show ?thesis
  proof (cases "im_cap c < int (length (im_order c @ [key]))")
    case True
    with assms obtain k rest where o: "im_order c = k # rest" by (cases "im_order c") (auto simp: idem_ok_def)
    with assms new True show ?thesis by (auto simp: remember_def idem_ok_def Let_def dom_def)
  next
    case False
    with assms new show ?thesis by (auto simp: remember_def idem_ok_def Let_def dom_def)
  qed
qed

section \<open>The guard of the writes\<close>

text \<open>C31: A comment is attributable. Behind the write guard a handler runs only for a request whose
  credential is a browser session of a user who is not disabled, or a personal token of one that grants
  \<open>comments:write\<close>; there is then a user record, and the actor the handler sees is the id in it. A
  system token does not write; every other request is answered with 401 or 403 and leaves the
  comments as they were.\<close>

theorem comment_write_guarded:
  assumes "scope_enforcer enforce"
  shows "(\<exists>re' db' c' a. comment_write_guard (Some enforce) env (comment_route h rq) re (db, c)
              = comment_route h rq re' (db', c') \<and> rq_auth re' = Some a \<and> comment_actor_id re' = au_id a \<and>
            (session_credential re \<and> rq_auth re = Some a \<or>
             (\<exists>pid r. pat_credential env re db c pid r (au_id a) \<and>
                grants ''comments'' ''write'' (decode_scopes (pt_scopes r))))) \<or>
         (\<exists>code dt db' c'. comment_write_guard (Some enforce) env (comment_route h rq) re (db, c)
              = (Detail code dt, (db', c')) \<and> code \<in> {401, 403} \<and> cm_server db' = cm_server db)"
proof -
  let ?h = "comment_route h rq"
  let ?g = "\<lambda>re st.
       if (case rq_source re of None \<Rightarrow> [] | Some s \<Rightarrow> s) = source_system
       then (Detail 403 (Text (''system PATs are read-only for comments: write with a user PAT or browser '' @
               ''session (the comment must be attributable to a real account)'')), st)
       else if rq_auth re = None
       then (Detail 403 (Text ''comments: write requires an authenticated user identity''), st)
       else
         case allows (Some enforce) (case rq_held re of None \<Rightarrow> [] | Some held \<Rightarrow> held) ''comments'' ''write'' of
           Inl e \<Rightarrow> (Detail 500 (ScopeCheckFailed e), st)
         | Inr False \<Rightarrow>
             (Detail 403 (Text (''insufficient scope: this token lacks comments:write '' @
                ''(mint a new PAT at /pat with the required scope)'')), st)
         | Inr True \<Rightarrow> ?h re st"
  have sg: "comment_write_guard (Some enforce) env ?h re (db, c) = auth_guard env ?g re (db, c)"
    by (simp only: comment_write_guard_def)
  have g: "?g re' st' = ?h re' st' \<and> grants ''comments'' ''write'' held \<and> rq_auth re' \<noteq> None \<or>
      (\<exists>dt. ?g re' st' = (Detail 403 dt, st'))"
    if "rq_held re' = Some held" for re' st' held
    using that scope_enforcer.allows_iff [OF assms, of held "''comments''" "''write''"]
    by (cases "grants ''comments'' ''write'' held") (auto simp: grants_def)
  have kept: "cm_server (case mark of None \<Rightarrow> db | Some pid \<Rightarrow> mark_used (ae_n3 env) pid db) = cm_server db" for mark
    by (simp add: mark_used_def split: option.split)
  show ?thesis
  proof (cases rule: auth_guard_cases [of env ?g re db c])
    case (denied c')
    with sg show ?thesis by auto
  next
    case (passed mark re' c')
    let ?st = "(case mark of None \<Rightarrow> db | Some pid \<Rightarrow> mark_used (ae_n3 env) pid db, c')"
    have eq: "comment_write_guard (Some enforce) env ?h re (db, c) = ?g re' ?st" using passed(2) sg by simp
    have refused: ?thesis if "?g re' ?st = (Detail 403 dt, ?st)" for dt
      using eq that kept by (intro disjI2) auto
    from passed(1) show ?thesis
    proof (cases rule: is_authorized_cases)
      case (sys held)
      then have "\<exists>dt. ?g re' ?st = (Detail 403 dt, ?st)" by simp
      with refused show ?thesis by blast
    next
      case (pat pid r uid)
      then obtain a where a: "rq_auth re' = Some a" "au_id a = uid" by (cases "rq_auth re'") auto
      from g [OF pat(4), of ?st] show ?thesis
      proof
        assume "?g re' ?st = ?h re' ?st \<and> grants ''comments'' ''write'' (decode_scopes (pt_scopes r)) \<and> rq_auth re' \<noteq> None"
        with eq a pat(1) show ?thesis by (intro disjI1) (force simp: comment_actor_id_def)
      qed (use refused in blast)
    next
      case session
      have held: "rq_held re' = Some [scope_master]" and same: "rq_auth re' = rq_auth re" using session by simp_all
      from g [OF held, of ?st] show ?thesis
      proof
        assume *: "?g re' ?st = ?h re' ?st \<and> grants ''comments'' ''write'' [scope_master] \<and> rq_auth re' \<noteq> None"
        then obtain a where a: "rq_auth re' = Some a" by blast
        have "comment_write_guard (Some enforce) env ?h re (db, c) = ?h re' ?st" by (rule trans [OF eq conjunct1 [OF *]])
        with a same session(1) show ?thesis
          by (intro disjI1 exI [of _ re'] exI [of _ "fst ?st"] exI [of _ "snd ?st"] exI [of _ a])
             (simp add: comment_actor_id_def)
      qed (use refused in blast)
    qed
  qed
qed

section \<open>The cursor of the incremental sync\<close>

lemma digits_value_snoc: "digits_value (ds @ [c]) = 10 * digits_value ds + (of_char c - 48)"
  by (simp add: digits_value_def)

lemma digit_is_digit: "n < 10 \<Longrightarrow> is_digit (char_of (48 + n))" for n :: nat
proof -
  have "list_all (\<lambda>n. is_digit (char_of (48 + n))) [0 ..< 10 :: nat]" by code_simp
  then show "n < 10 \<Longrightarrow> is_digit (char_of (48 + n))" by (simp only: list_all_iff set_upt) simp
qed

lemma nat_digits_value: "digits_value (nat_digits n) = n"
proof (induction n rule: nat_digits.induct)
  case (1 n)
  show ?case
  proof (cases "n < 10")
    case True
    then show ?thesis by (simp add: nat_digits.simps [of n] digits_value_def)
  next
    case False
    with 1 show ?thesis by (simp add: nat_digits.simps [of n] digits_value_snoc)
  qed
qed

lemma nat_digits_digits: "list_all is_digit (nat_digits n) \<and> nat_digits n \<noteq> []"
proof (induction n rule: nat_digits.induct)
  case (1 n)
  then show ?case
    by (cases "n < 10") (simp_all add: nat_digits.simps [of n] digit_is_digit)
qed

lemma digit_not_sign: "is_digit c \<Longrightarrow> c \<noteq> CHR ''-'' \<and> c \<noteq> CHR ''+''"
  by (auto simp: is_digit_def)

lemma atoi_format: "n < 2 ^ 63 \<Longrightarrow> atoi (format_d (int n)) = Some (int n)"
proof -
  assume n: "n < 2 ^ 63"
  obtain c cs where c: "nat_digits n = c # cs" "is_digit c"
    using nat_digits_digits [of n] by (cases "nat_digits n") auto
  have "\<not> prefix ''-'' (nat_digits n)" "\<not> prefix ''+'' (nat_digits n)"
    using c digit_not_sign [OF c(2)] by auto
  moreover have "int n < 2 ^ 63" using n by simp
  ultimately show ?thesis
    using nat_digits_digits [of n] nat_digits_value [of n] by (simp add: atoi_def format_d_def Let_def)
qed

text \<open>A cursor survives its round trip: decoding what was encoded for an instant and an id gives back
  the id and the instant floored to the millisecond, and the discussion with that instant and id
  is not after the position, so that it is not sent again.\<close>

theorem since_cursor_roundtrip:
  assumes "i \<noteq> []" and "t div 1000000 < 2 ^ 63"
  shows "decode_since_cursor (encode_since_cursor t i) = Some (truncate_ms t, i) \<and>
    \<not> since_after t i (truncate_ms t) i"
proof -
  have "list_all is_digit (nat_digits (t div 1000000))" using nat_digits_digits by blast
  then have "CHR ''-'' \<notin> set (nat_digits (t div 1000000))"
    using digit_not_sign by (auto simp: list_all_iff)
  then have "index_byte (CHR ''-'') (encode_since_cursor t i) = Some (length (format_d (int (t div 1000000))))"
    by (simp add: encode_since_cursor_def format_d_def index_byte_append)
  moreover have "length (format_d (int (t div 1000000))) \<noteq> 0"
    using nat_digits_digits by (simp add: format_d_def)
  moreover have "truncate_ms t = t div 1000000 * 1000000"
    by (simp add: truncate_ms_def minus_mod_eq_div_mult)
  ultimately show ?thesis
    using assms atoi_format [OF assms(2)]
    by (simp add: decode_since_cursor_def encode_since_cursor_def Let_def since_after_def)
qed

theorem since_cursor_roundtrip_witness:
  "decode_since_cursor (encode_since_cursor 1234567890 ''cd_9-a'') = Some (1234000000, ''cd_9-a'')"
  using since_cursor_roundtrip [of "''cd_9-a''" 1234567890] by (simp add: truncate_ms_def)

section \<open>Pages\<close>

text \<open>A client that follows \<open>next_cursor\<close> until there is none, with the same query; the number bounds the requests.\<close>

fun collect_pages :: "nat \<Rightarrow> list_filter \<Rightarrow> mem_store \<Rightarrow> discussion list option" where
  "collect_pages 0 f m = None"
| "collect_pages (Suc n) f m =
     (let items = mem_list_discussions f m in
      case next_cursor (lf_limit f) items of
        None \<Rightarrow> Some items
      | Some c \<Rightarrow> map_option ((@) items) (collect_pages n (f\<lparr>lf_cursor := c\<rparr>) m))"

definition matching :: "list_filter \<Rightarrow> mem_store \<Rightarrow> discussion list" where
  "matching f m = newest_discussions_first (filter (mem_match f) (map snd (ms_discussions m)))"

definition ids_ok :: "mem_store \<Rightarrow> bool" where
  "ids_ok m \<longleftrightarrow> gomap_ok (ms_discussions m) \<and> list_all (\<lambda>(i, d). ds_id d = i \<and> i \<noteq> []) (ms_discussions m)"

lemma ids_okD:
  assumes "ids_ok m"
  shows "distinct (map ds_id (map snd (ms_discussions m)))"
    and "d \<in> set (map snd (ms_discussions m)) \<Longrightarrow> ds_id d \<noteq> []"
proof -
  have "map ds_id (map snd (ms_discussions m)) = map fst (ms_discussions m)"
    using assms by (auto simp: ids_ok_def list_all_iff)
  with assms show "distinct (map ds_id (map snd (ms_discussions m)))" by (simp only: ids_ok_def gomap_ok_def)
qed (use assms in \<open>auto simp: ids_ok_def list_all_iff\<close>)

lemma newest_first_props:
  assumes "distinct (map ds_id ds)"
  shows "sorted_wrt (\<lambda>a b. ds_id b < ds_id a) (newest_discussions_first ds)" and "set (newest_discussions_first ds) = set ds"
    and "length (newest_discussions_first ds) = length ds"
proof -
  have d: "distinct (map ds_id (sort_key ds_id ds))"
    using assms by (metis distinct_map distinct_sort set_sort)
  then have "sorted_wrt (<) (map ds_id (sort_key ds_id ds))" by (simp add: strict_sorted_iff)
  then show "sorted_wrt (\<lambda>a b. ds_id b < ds_id a) (newest_discussions_first ds)"
    by (simp add: newest_discussions_first_def sorted_wrt_rev sorted_wrt_map)
qed (simp_all add: newest_discussions_first_def)

lemma newest_first_unique:
  assumes "sorted_wrt (\<lambda>a b. ds_id b < ds_id a) xs" and "sorted_wrt (\<lambda>a b. ds_id b < ds_id a) ys" and "set xs = set ys"
  shows "xs = ys"
  using assms
proof (induction xs arbitrary: ys)
  case (Cons x xs)
  then obtain y ys' where ys: "ys = y # ys'" by (cases ys) auto
  have "x = y" using Cons.prems ys by (metis list.set_intros(1) order.asym set_ConsD sorted_wrt.simps(2))
  moreover have "x \<notin> set xs" "y \<notin> set ys'" using Cons.prems ys by auto
  ultimately have "xs = ys'" using Cons.prems ys by (intro Cons.IH) (auto simp: insert_ident)
  with \<open>x = y\<close> ys show ?case by simp
qed simp

lemma match_cursor:
  assumes "c \<noteq> []" and "mem_match f d0" and "ds_id d0 = c"
  shows "mem_match (f\<lparr>lf_cursor := c\<rparr>) d \<longleftrightarrow> mem_match f d \<and> ds_id d < c"
proof -
  have "\<not> (lf_cursor f \<noteq> [] \<and> lf_cursor f \<le> c)" using assms(2,3) by (simp add: mem_match_def)
  then have "ds_id d < c \<Longrightarrow> \<not> (lf_cursor f \<noteq> [] \<and> lf_cursor f \<le> ds_id d)" by auto
  with assms(1) show ?thesis by (auto simp: mem_match_def not_le)
qed

lemma matching_next:
  assumes "ids_ok m" and "k \<le> length (matching f m)" and "0 < k" and "c = ds_id (matching f m ! (k - 1))"
  shows "matching (f\<lparr>lf_cursor := c\<rparr>) m = drop k (matching f m)"
proof -
  let ?ds = "map snd (ms_discussions m)" and ?L = "matching f m"
  have dist: "distinct (map ds_id (filter P ?ds))" for P
    using ids_okD(1) [OF assms(1)] by (simp only: distinct_map_filter)
  note L = newest_first_props [OF dist [of "mem_match f"], folded matching_def]
  have mem: "?L ! (k - 1) \<in> set ?L" using assms(2,3) by simp
  then have d0: "mem_match f (?L ! (k - 1))" "c \<noteq> []" using L(2) ids_okD(2) [OF assms(1)] assms(4) by auto
  have below: "d \<in> set (drop k ?L) \<longleftrightarrow> d \<in> set ?L \<and> ds_id d < c" for d
  proof
    assume "d \<in> set (drop k ?L)"
    then obtain j where "j < length ?L - k" "d = ?L ! (k + j)" by (auto simp: in_set_conv_nth)
    then show "d \<in> set ?L \<and> ds_id d < c"
      using L(1) assms(3,4) sorted_wrt_nth_less [OF L(1), of "k - 1" "k + j"] by auto
  next
    assume d: "d \<in> set ?L \<and> ds_id d < c"
    then obtain j where j: "j < length ?L" "d = ?L ! j" by (auto simp: in_set_conv_nth)
    have "k \<le> j"
    proof (rule ccontr)
      assume "\<not> k \<le> j"
      then have "j = k - 1 \<or> j < k - 1" by linarith
      then have "c \<le> ds_id d"
        using sorted_wrt_nth_less [OF L(1), of j "k - 1"] assms(2-4) j by (auto simp: less_imp_le)
      with d show False using leD by blast
    qed
    with j show "d \<in> set (drop k ?L)" by (auto simp: in_set_conv_nth intro!: exI [of _ "j - k"])
  qed
  show ?thesis
  proof (rule newest_first_unique)
    show "sorted_wrt (\<lambda>a b. ds_id b < ds_id a) (matching (f\<lparr>lf_cursor := c\<rparr>) m)"
      unfolding matching_def by (rule newest_first_props [OF dist])
    show "sorted_wrt (\<lambda>a b. ds_id b < ds_id a) (drop k ?L)" using L(1) by (rule sorted_wrt_drop)
    show "set (matching (f\<lparr>lf_cursor := c\<rparr>) m) = set (drop k ?L)"
      using below newest_first_props(2) [OF dist [of "mem_match f"]] newest_first_props(2) [OF dist [of "mem_match (f\<lparr>lf_cursor := c\<rparr>)"]]
        match_cursor [OF d0(2,1) assms(4) [symmetric]]
      by (auto simp: matching_def)
  qed
qed

lemma mem_list_take:
  "0 < lf_limit f \<Longrightarrow> mem_list_discussions f m
     = map (\<lambda>d. d\<lparr>ds_replies := reply_count_locked (ds_id d) m\<rparr>) (take (nat (lf_limit f)) (matching f m))"
  by (auto simp: mem_list_discussions_def matching_def Let_def)

text \<open>C29: Following the cursor lists everything once. For a store whose discussions have distinct non-empty ids
  and a page size of at least one, a client that follows the cursor to its end gets the whole filtered
  list, newest first, without repetition or gap, in as many requests as the list has elements at most, and
  one.\<close>

theorem pages_enumerate:
  assumes "ids_ok m" and "0 < lf_limit f" and "length (matching f m) < n"
  shows "collect_pages n f m = Some (mem_list_discussions (f\<lparr>lf_limit := 0\<rparr>) m)"
  using assms(2,3)
proof (induction n arbitrary: f)
  case (Suc n)
  let ?L = "matching f m" and ?k = "nat (lf_limit f)"
  let ?g = "\<lambda>d. d\<lparr>ds_replies := reply_count_locked (ds_id d) m\<rparr>"
  have all: "mem_list_discussions (f'\<lparr>lf_limit := 0\<rparr>) m = map ?g (matching f' m)" for f'
    by (simp add: mem_list_discussions_def matching_def mem_match_def [abs_def] Let_def)
  show ?case
  proof (cases "?k \<le> length ?L")
    case False
    then have "int (length ?L) \<noteq> lf_limit f" by linarith
    with False Suc.prems show ?thesis by (simp add: mem_list_take all next_cursor_def Let_def)
  next
    case True
    then have ne: "take ?k ?L \<noteq> []" using Suc.prems(1) by auto
    have page: "last (take ?k ?L) = ?L ! (?k - 1)"
      unfolding last_conv_nth [OF ne] using True Suc.prems(1) by (simp add: min_def)
    let ?c = "ds_id (?L ! (?k - 1))"
    have cursor: "next_cursor (lf_limit f) (mem_list_discussions f m) = Some ?c"
      using True Suc.prems(1) page ne by (simp add: next_cursor_def mem_list_take last_map)
    have rest: "matching (f\<lparr>lf_cursor := ?c\<rparr>) m = drop ?k ?L"
      using assms(1) True Suc.prems(1) by (intro matching_next) simp_all
    with Suc.prems True have "collect_pages n (f\<lparr>lf_cursor := ?c\<rparr>) m
        = Some (mem_list_discussions (f\<lparr>lf_cursor := ?c, lf_limit := 0\<rparr>) m)"
      by (intro Suc.IH) auto
    with all [of "f\<lparr>lf_cursor := ?c\<rparr>"] all [of f] rest cursor Suc.prems(1) show ?thesis
      by (simp add: mem_list_take Let_def flip: map_append)
  qed
qed simp

section \<open>Samples\<close>

definition sample_create_body :: create_body where
  "sample_create_body =
     \<lparr>cb_parse = ''pr_1'', cb_page = Some 0, cb_block = Some 1, cb_type = [], cb_scope = [], cb_status = [],
      cb_reason = [], cb_body = ''abc'', cb_model = []\<rparr>"

definition sample_libs :: comment_libs where
  "sample_libs =
     \<lparr>cl_create = (\<lambda>raw. if raw = [] then Inl ''unexpected end of JSON input'' else Inr sample_create_body),
      cl_reply = (\<lambda>raw. if raw = [] then Inl ''unexpected end of JSON input'' else Inr (raw, [])),
      cl_status = (\<lambda>raw. Inl []), cl_edit = (\<lambda>raw. Inl []), cl_time = (\<lambda>t. format_d (int t)), cl_sha = id\<rparr>"

definition sample_deps :: "int \<Rightarrow> comment_deps" where
  "sample_deps limit =
     \<lparr>cd_libs = sample_libs, cd_cfg = Some \<lparr>cf_max_request = 0, cf_max_chars = limit\<rparr>,
      cd_anchors = permissive_anchor\<rparr>"

definition sample_comment_request :: comment_request where
  "sample_comment_request =
     \<lparr>cq_paper = ''qa_1'', cq_discussion = [], cq_reply = [], cq_path = ''/api/papers/qa_1/discussions'',
      cq_query = (\<lambda>_. []), cq_if_match = [], cq_key = ''k1'', cq_sent = ''body'', cq_read_error = None,
      cq_actor = ''ann'', cq_admin = False, cq_alive = True\<rparr>"

definition sample_input :: discussion_input where
  "sample_input =
     \<lparr>di_paper = ''qa_1'', di_parse = ''pr_1'', di_page = 0, di_block = 1, di_type = ''normal'',
      di_scope = ''public'', di_status = [], di_reason = [], di_body = ''abc'', di_by = ''ann'', di_model = []\<rparr>"

definition sample_hash :: string where
  "sample_hash = request_hash id ''POST'' ''/api/papers/qa_1/discussions'' ''body''"

lemma sample_begin:
  assumes "3 \<le> limit"
  shows "begin_create (sample_deps limit) sample_comment_request (Some (new_idempotency 8))
     = Ready (Create_Task sample_comment_request sample_input sample_hash no_response)"
proof -
  have "read_body (sample_deps limit) sample_comment_request no_response = ((''body'', False), no_response)"
    by (simp add: read_body_def sample_deps_def sample_comment_request_def)
  moreover have "rune_count ''abc'' = 3" by code_simp
  moreover have "valid_type ''normal''" "valid_scope ''public''" "valid_status []" by code_simp+
  ultimately show ?thesis
    using assms
    by (simp add: begin_create_def sample_comment_request_def bad_paper_id_def sample_deps_def sample_libs_def
        replay_def idem_result_def new_idempotency_def check_create_body_def sample_create_body_def type_normal_def
        scope_public_def check_body_limit_def permissive_anchor_def sample_input_def sample_hash_def max_chars_def
        Let_def)
qed

definition sample_created :: discussion where
  "sample_created =
     \<lparr>ds_id = ''cd_1'', ds_paper = ''qa_1'', ds_parse = ''pr_1'', ds_page = 0, ds_block = 1, ds_type = ''normal'',
      ds_scope = ''public'', ds_status = [], ds_body = ''abc'', ds_by = ''ann'', ds_model = [], ds_rev = 1,
      ds_replies = 0, ds_created = 5, ds_updated = 5\<rparr>"

lemma sample_creation:
  "\<exists>s'. sa_create_discussion (mem_api (''cd_1'', 5)) sample_input new_mem_store = (Inr sample_created, s') \<and>
     map_of (ms_discussions s') ''cd_1'' = Some sample_created"
  by (simp add: mem_api_def mem_create_discussion_def sample_input_def sample_created_def new_mem_store_def Let_def)

theorem oversize_body_is_stored_witness:
  "\<exists>s'. (let (w, sv') = create_discussion (sample_deps 2) (mem_api (''cd_1'', 5)) sample_comment_request
      \<lparr>cs_store = new_mem_store, cs_idem = Some (new_idempotency 8)\<rparr> in
    sent_status w = 413 \<and> cs_store sv' = s') \<and> map_option ds_body (map_of (ms_discussions s') ''cd_1'') = Some ''abc''"
proof -
  obtain s' where c: "sa_create_discussion (mem_api (''cd_1'', 5)) sample_input new_mem_store = (Inr sample_created, s')"
    and m: "map_of (ms_discussions s') ''cd_1'' = Some sample_created" using sample_creation by blast
  have "without_limit (sample_deps 2) = sample_deps (2 ^ 62)" by (simp add: without_limit_def sample_deps_def)
  then have "begin_create (without_limit (sample_deps 2)) sample_comment_request (Some (new_idempotency 8))
      = Ready (Create_Task sample_comment_request sample_input sample_hash no_response)"
    using sample_begin [of "2 ^ 62"] by simp
  moreover have "max_chars (sample_deps 2) < int (rune_count (di_body sample_input))" by code_simp
  moreover have "cq_alive sample_comment_request" by (simp add: sample_comment_request_def)
  ultimately show ?thesis
    using oversize_body_is_stored [OF _ _ _ c, of "sample_deps 2" sample_comment_request
        "Some (new_idempotency 8)" sample_hash] m
    by (intro exI [of _ s'] conjI) (simp_all add: sample_created_def)
qed

theorem creation_replayed_witness:
  "let (w, sv) = create_discussion (sample_deps 10) (mem_api (''cd_1'', 5)) sample_comment_request
       \<lparr>cs_store = new_mem_store, cs_idem = Some (new_idempotency 8)\<rparr>;
     (w', sv') = create_discussion (sample_deps 10) (mem_api (''cd_2'', 9)) sample_comment_request sv
   in last (rs_writes w') = (201, J_Obj (discussion_json sample_libs sample_created)) \<and> sv' = sv"
proof -
  obtain s' where c: "sa_create_discussion (mem_api (''cd_1'', 5)) sample_input new_mem_store = (Inr sample_created, s')"
    using sample_creation by blast
  obtain w sv where r: "create_discussion (sample_deps 10) (mem_api (''cd_1'', 5)) sample_comment_request
      \<lparr>cs_store = new_mem_store, cs_idem = Some (new_idempotency 8)\<rparr> = (w, sv)" by (metis prod.exhaust)
  obtain w' sv' where r': "create_discussion (sample_deps 10) (mem_api (''cd_2'', 9)) sample_comment_request sv
      = (w', sv')" by (metis prod.exhaust)
  have "cq_key sample_comment_request \<noteq> []" by (simp add: sample_comment_request_def)
  from creation_replayed [OF sample_begin [of 10] this c r, of "mem_api (''cd_2'', 9)"] r r' show ?thesis
    by (simp add: sample_deps_def)
qed

definition sample_two :: mem_store where
  "sample_two = snd (mem_exec ''cd_2'' 7 (Op_Create sample_discussion) (tables_abs sample_tables))"

theorem pages_enumerate_witness:
  "collect_pages 3 (sample_filter\<lparr>lf_limit := 1\<rparr>) sample_two
     = Some (mem_list_discussions (sample_filter\<lparr>lf_limit := 0\<rparr>) sample_two) \<and>
   map ds_id (mem_list_discussions (sample_filter\<lparr>lf_limit := 0\<rparr>) sample_two) = [''cd_2'', ''cd_1'']"
proof -
  have "ids_ok sample_two" "length (matching (sample_filter\<lparr>lf_limit := 1\<rparr>) sample_two) < 3" by code_simp+
  then have "collect_pages 3 (sample_filter\<lparr>lf_limit := 1\<rparr>) sample_two
      = Some (mem_list_discussions (sample_filter\<lparr>lf_limit := 1, lf_limit := 0\<rparr>) sample_two)"
    by (intro pages_enumerate) simp_all
  moreover have "map ds_id (mem_list_discussions (sample_filter\<lparr>lf_limit := 0\<rparr>) sample_two) = [''cd_2'', ''cd_1'']"
    by code_simp
  ultimately show ?thesis by simp
qed

section \<open>Two ways to go wrong\<close>

definition sample_pg_two :: comment_tables where
  "sample_pg_two = snd (pg_exec (sample_store_env ''cd_2'' 6) (Op_Create sample_input)
     (snd (pg_exec (sample_store_env ''cd_1'' 5) (Op_Create sample_input) empty_tables)))"

lemma sample_pg_values:
  "sa_exec (pg_api (sample_store_env ''cd_1'' 5)) (Op_Create sample_input) empty_tables
     = (Res_Discussion sample_created, snd (pg_exec (sample_store_env ''cd_1'' 5) (Op_Create sample_input) empty_tables))"
  "\<exists>d. sa_exec (pg_api (sample_store_env ''cd_2'' 6)) (Op_Create sample_input)
     (snd (pg_exec (sample_store_env ''cd_1'' 5) (Op_Create sample_input) empty_tables)) = (Res_Discussion d, sample_pg_two)"
  "map (\<lambda>r. (qd_id r, qd_body r)) (pg_discussions sample_pg_two) = [(''cd_1'', ''abc''), (''cd_2'', ''abc'')]"
proof -
  show "sa_exec (pg_api (sample_store_env ''cd_1'' 5)) (Op_Create sample_input) empty_tables
     = (Res_Discussion sample_created, snd (pg_exec (sample_store_env ''cd_1'' 5) (Op_Create sample_input) empty_tables))"
    unfolding pg_sa_exec by (rule prod_eqI) (code_simp, simp)
  have "is_disc" if "is_disc = (case fst (pg_exec (sample_store_env ''cd_2'' 6) (Op_Create sample_input)
      (snd (pg_exec (sample_store_env ''cd_1'' 5) (Op_Create sample_input) empty_tables))) of
        Res_Discussion d \<Rightarrow> True | _ \<Rightarrow> False)" for is_disc
    unfolding that by code_simp
  then show "\<exists>d. sa_exec (pg_api (sample_store_env ''cd_2'' 6)) (Op_Create sample_input)
     (snd (pg_exec (sample_store_env ''cd_1'' 5) (Op_Create sample_input) empty_tables)) = (Res_Discussion d, sample_pg_two)"
    unfolding pg_sa_exec sample_pg_two_def by (auto simp: prod_eq_iff split: store_result.splits)
  show "map (\<lambda>r. (qd_id r, qd_body r)) (pg_discussions sample_pg_two) = [(''cd_1'', ''abc''), (''cd_2'', ''abc'')]"
    by code_simp
qed

text \<open>The state after the write of one task.\<close>

abbreviation written :: "comment_deps \<Rightarrow> 's store_api \<Rightarrow> comment_task \<Rightarrow> 's \<Rightarrow> 's comment_machine \<Rightarrow> 's comment_machine" where
  "written d a t s' m \<equiv> m\<lparr>cs_store := s', mc_tasks := mc_tasks m - {#t#},
     mc_memos := (case snd (fst (run_task d a t (cs_store m))) of
        None \<Rightarrow> mc_memos m | Some k \<Rightarrow> add_mset k (mc_memos m))\<rparr>"

lemma write_stepI:
  assumes "t \<in># mc_tasks m" and "task_op t = Some op" and "fresh e op (cs_store m)"
    and "snd (sa_exec (api e) op (cs_store m)) = s'"
  shows "comment_step d admins api fresh m (written d (api e) t s' m)"
proof -
  let ?r = "run_task d (api e) t (cs_store m)"
  have "?r = ((fst (fst ?r), snd (fst ?r)), s')"
    using run_task_store [OF assms(2), of d "api e" "cs_store m"] assms(4) by (simp add: prod_eq_iff)
  with assms(1-3) show ?thesis by (rule comment_step.Write)
qed

lemma two_writes:
  assumes "task_op t = Some op" and "\<And>e op s. fresh e op s"
    and "sa_exec (api e1) op (cs_store m) = (q1, s1)" and "sa_exec (api e2) op s1 = (q2, s2)"
    and "t \<in># mc_tasks m" and "t \<in># mc_tasks m - {#t#}"
  shows "\<exists>m'. comment_steps d admins api fresh m m' \<and> cs_store m' = s2 \<and>
    mc_tasks m' = mc_tasks m - {#t#} - {#t#} \<and> cs_idem m' = cs_idem m"
proof -
  let ?w1 = "written d (api e1) t s1 m"
  let ?w2 = "written d (api e2) t s2 ?w1"
  have "comment_step d admins api fresh m ?w1" "comment_step d admins api fresh ?w1 ?w2"
    using assms by (intro write_stepI [where op = op]; simp)+
  then have "comment_steps d admins api fresh m ?w2" by (blast intro: comment_steps.intros)
  then show ?thesis by (intro exI [of _ ?w2]) simp
qed

lemma steps_from:
  assumes "comment_steps d admins api fresh m' m''" and "comment_step d admins api fresh m m'"
  shows "comment_steps d admins api fresh m m''"
  using assms by (induction rule: comment_steps.induct) (blast intro: comment_steps.intros)+

text \<open>The idempotency key does not protect against a concurrent repetition. The look-up in the replay
  cache, the creation and the entry in the cache are three steps; when a client sends the same creating
  request, with the same key, again before the first one is answered, both find no entry and both create
  a discussion.\<close>

theorem concurrent_repeat_creates_twice:
  assumes "begin_create d rq (cs_idem m) = Ready (Create_Task rq x hash w)" and "\<not> cq_admin rq"
    and "sa_exec (pg_api e1) (Op_Create x) (cs_store m) = (Res_Discussion d1, s1)"
    and "sa_exec (pg_api e2) (Op_Create x) s1 = (Res_Discussion d2, s2)"
  shows "\<exists>m'. comment_steps d admins pg_api always_fresh m m' \<and> cs_store m' = s2 \<and> mc_tasks m' = mc_tasks m"
proof -
  let ?t = "Create_Task rq x hash w"
  let ?b1 = "m\<lparr>mc_tasks := add_mset ?t (mc_tasks m)\<rparr>"
  let ?b2 = "?b1\<lparr>mc_tasks := add_mset ?t (mc_tasks ?b1)\<rparr>"
  have started: "begin_call d Call_Create rq (pg_api e1) (comment_server.truncate m) = Ready ?t"
    "begin_call d Call_Create rq (pg_api e1) (comment_server.truncate ?b1) = Ready ?t"
    using assms(1) by (simp_all add: comment_server.truncate_def)
  have "comment_step d admins pg_api always_fresh m ?b1" "comment_step d admins pg_api always_fresh ?b1 ?b2"
    using started assms(2) by (blast intro: comment_step.Begin)+
  moreover obtain m' where "comment_steps d admins pg_api always_fresh ?b2 m'" "cs_store m' = s2"
    "mc_tasks m' = mc_tasks ?b2 - {#?t#} - {#?t#}"
    using two_writes [of ?t "Op_Create x" always_fresh pg_api e1 ?b2 _ s1 e2 _ s2 d admins] assms(3,4)
    by (auto simp: always_fresh_def)
  ultimately show ?thesis by (intro exI [of _ m']) (auto dest: steps_from)
qed

theorem concurrent_repeat_witness:
  "\<exists>m. comment_steps (sample_deps 10) {} pg_api always_fresh
      (start_comments empty_tables (Some (new_idempotency 8))) m \<and>
    map (\<lambda>r. (qd_id r, qd_body r)) (pg_discussions (cs_store m)) = [(''cd_1'', ''abc''), (''cd_2'', ''abc'')]"
proof -
  obtain dd where "sa_exec (pg_api (sample_store_env ''cd_2'' 6)) (Op_Create sample_input)
     (snd (pg_exec (sample_store_env ''cd_1'' 5) (Op_Create sample_input) empty_tables)) = (Res_Discussion dd, sample_pg_two)"
    using sample_pg_values(2) by blast
  then show ?thesis
    using concurrent_repeat_creates_twice [of "sample_deps 10" sample_comment_request
        "start_comments empty_tables (Some (new_idempotency 8))" sample_input sample_hash no_response
        "sample_store_env ''cd_1'' 5" sample_created _ "sample_store_env ''cd_2'' 6" dd sample_pg_two "{}"]
      sample_begin [of 10] sample_pg_values(1,3)
    by (fastforce simp: start_comments_def sample_comment_request_def)
qed

text \<open>A run of one request that creates a discussion, up to its write.\<close>

lemma sample_comment_run:
  assumes "fresh e (Op_Create sample_input) s"
  obtains m where "comment_steps (sample_deps 10) {} api fresh (start_comments s (Some (new_idempotency 8))) m"
    and "cs_store m = snd (sa_exec (api e) (Op_Create sample_input) s)"
proof -
  let ?m = "start_comments s (Some (new_idempotency 8))"
  let ?t = "Create_Task sample_comment_request sample_input sample_hash no_response"
  let ?b = "?m\<lparr>mc_tasks := add_mset ?t (mc_tasks ?m)\<rparr>"
  let ?s = "snd (sa_exec (api e) (Op_Create sample_input) s)"
  have "begin_call (sample_deps 10) Call_Create sample_comment_request (api e) (comment_server.truncate ?m) = Ready ?t"
    using sample_begin [of 10] by (simp add: comment_server.truncate_def start_comments_def)
  then have "comment_step (sample_deps 10) {} api fresh ?m ?b"
    by (rule comment_step.Begin) (simp add: sample_comment_request_def)
  moreover have "comment_step (sample_deps 10) {} api fresh ?b (written (sample_deps 10) (api e) ?t ?s ?b)"
    using assms by (intro write_stepI [where op = "Op_Create sample_input"])
       (simp_all add: start_comments_def del: sa_exec.simps)
  ultimately have "comment_steps (sample_deps 10) {} api fresh ?m (written (sample_deps 10) (api e) ?t ?s ?b)"
    by (blast intro: comment_steps.intros)
  then show thesis by (rule that) simp
qed

theorem comment_authority_witness:
  "\<exists>m. comment_steps (sample_deps 10) {} pg_api always_fresh
      (start_comments empty_tables (Some (new_idempotency 8))) m \<and>
    cs_store m = snd (pg_exec (sample_store_env ''cd_1'' 5) (Op_Create sample_input) empty_tables) \<and>
    trail_ok {} (tables_abs (cs_store m))"
proof -
  have "always_fresh (sample_store_env ''cd_1'' 5) (Op_Create sample_input) empty_tables"
    by (simp add: always_fresh_def)
  then obtain m where "comment_steps (sample_deps 10) {} pg_api always_fresh
      (start_comments empty_tables (Some (new_idempotency 8))) m"
    "cs_store m = snd (pg_exec (sample_store_env ''cd_1'' 5) (Op_Create sample_input) empty_tables)"
    unfolding pg_sa_exec [symmetric] by (rule sample_comment_run)
  with comment_authority [OF this(1)] show ?thesis by blast
qed

section \<open>A synchronisation that misses an edit\<close>

definition sync_filter :: list_filter where
  "sync_filter =
     \<lparr>lf_paper = ''qa_1'', lf_parse = [], lf_page = None, lf_block = None, lf_type = [], lf_status = None,
      lf_status_null = False, lf_scopes = [], lf_cursor = [], lf_limit = 2, lf_since = None\<rparr>"

text \<open>Three discussions, created at 1, 2 and 3 milliseconds; then, between two pages of a client, the newest is
  edited at 10 and the oldest at 20.\<close>

definition sync_before :: mem_store where
  "sync_before = snd (mem_exec ''cd_3'' 3000000 (Op_Create sample_input)
     (snd (mem_exec ''cd_2'' 2000000 (Op_Create sample_input)
       (snd (mem_exec ''cd_1'' 1000000 (Op_Create sample_input) new_mem_store)))))"

definition sync_after :: mem_store where
  "sync_after = snd (mem_exec [] 20000000 (Op_Edit ''cd_1'' 1 ''def'' ''ann'')
     (snd (mem_exec [] 10000000 (Op_Edit ''cd_3'' 1 ''xyz'' ''ann'') sync_before)))"

definition sync_row :: "string \<Rightarrow> string \<Rightarrow> int \<Rightarrow> instant \<Rightarrow> instant \<Rightarrow> discussion" where
  "sync_row i body rv created updated = sample_created\<lparr>ds_id := i, ds_body := body, ds_rev := rv,
     ds_created := created, ds_updated := updated\<rparr>"

lemma sync_stores:
  "ms_discussions sync_before =
     [(''cd_1'', sync_row ''cd_1'' ''abc'' 1 1000000 1000000), (''cd_2'', sync_row ''cd_2'' ''abc'' 1 2000000 2000000),
      (''cd_3'', sync_row ''cd_3'' ''abc'' 1 3000000 3000000)]"
  "ms_discussions sync_after =
     [(''cd_1'', sync_row ''cd_1'' ''def'' 2 1000000 20000000), (''cd_2'', sync_row ''cd_2'' ''abc'' 1 2000000 2000000),
      (''cd_3'', sync_row ''cd_3'' ''xyz'' 2 3000000 10000000)]"
  "ms_replies sync_before = []" "ms_replies sync_after = []"
  by (simp_all add: sync_before_def sync_after_def mem_create_discussion_def mem_update_discussion_body_def
      new_mem_store_def sample_input_def sample_created_def sync_row_def Let_def)

lemma sync_row_simps [simp]:
  "ds_id (sync_row i body rv c u) = i" "ds_body (sync_row i body rv c u) = body"
  "ds_updated (sync_row i body rv c u) = u" "ds_replies (sync_row i body rv c u) = 0"
  "ds_paper (sync_row i body rv c u) = ''qa_1''"
  "(sync_row i body rv c u)\<lparr>ds_replies := 0\<rparr> = sync_row i body rv c u"
  by (simp_all add: sync_row_def sample_created_def)

lemma cd_order: "''cd_1'' < ''cd_2''" "''cd_2'' < ''cd_3''" "''cd_1'' < ''cd_3''"
  by code_simp+

lemma sync_match:
  "mem_match (sync_filter\<lparr>lf_cursor := c\<rparr>) (sync_row i body rv t u) \<longleftrightarrow> \<not> (c \<noteq> [] \<and> c \<le> i)"
  "mem_match sync_filter (sync_row i body rv t u)"
  "mem_match (sync_filter\<lparr>lf_since := Some (p, j)\<rparr>) (sync_row i body rv t u) \<longleftrightarrow> since_after u i p j"
  by (simp_all add: mem_match_def sync_filter_def)

lemma sync_page1: "mem_list_discussions sync_filter sync_before
    = [sync_row ''cd_3'' ''abc'' 1 3000000 3000000, sync_row ''cd_2'' ''abc'' 1 2000000 2000000]"
  using cd_order
  by (simp add: mem_list_discussions_def sync_stores sync_match newest_discussions_first_def reply_count_locked_def Let_def
      less_imp_le) (simp add: sync_filter_def)

lemma sync_page2: "mem_list_discussions (sync_filter\<lparr>lf_cursor := ''cd_2''\<rparr>) sync_after
    = [sync_row ''cd_1'' ''def'' 2 1000000 20000000]"
proof -
  have "\<not> ''cd_2'' \<le> ''cd_1''" using cd_order(1) leD by blast
  moreover have "''cd_2'' \<le> ''cd_3''" using cd_order(2) by simp
  moreover have "lf_limit (sync_filter\<lparr>lf_cursor := ''cd_2''\<rparr>) = 2" by (simp add: sync_filter_def)
  ultimately show ?thesis
    by (simp add: mem_list_discussions_def sync_stores sync_match newest_discussions_first_def reply_count_locked_def Let_def)
qed

lemma sync_cursor: "encode_since_cursor 20000000 ''cd_1'' = ''20-cd_1''"
proof -
  have "char_of (50::nat) = CHR ''2''" "char_of (48::nat) = CHR ''0''" by (simp_all add: char_of_def bit_0)
  then show ?thesis by (simp add: encode_since_cursor_def format_d_def nat_digits.simps)
qed

lemma sync_decode: "decode_since_cursor ''20-cd_1'' = Some (20000000, ''cd_1'')"
  by (simp add: decode_since_cursor_def atoi_def digits_value_def is_digit_def Let_def)

lemma sync_position:
  "next_cursor 2 [sync_row ''cd_3'' b1 r1 t1 u1, sync_row ''cd_2'' b2 r2 t2 u2] = Some ''cd_2''"
  "next_cursor 2 [sync_row ''cd_1'' b1 r1 t1 u1] = None"
  "since_field [] 2 [sync_row ''cd_1'' b1 r1 t1 20000000] = Some ''20-cd_1''"
  by (simp_all add: next_cursor_def since_field_def sync_cursor)

lemma sync_poll: "mem_list_discussions (sync_filter\<lparr>lf_since := Some (20000000, ''cd_1'')\<rparr>) sync_after = []"
proof -
  have "\<not> since_after 20000000 ''cd_1'' 20000000 ''cd_1''" "\<not> since_after 2000000 ''cd_2'' 20000000 ''cd_1''"
      "\<not> since_after 10000000 ''cd_3'' 20000000 ''cd_1''"
    by (simp_all add: since_after_def truncate_ms_def)
  moreover have "lf_limit (sync_filter\<lparr>lf_since := Some (20000000, ''cd_1'')\<rparr>) = 2" by (simp add: sync_filter_def)
  ultimately show ?thesis
    by (simp add: mem_list_discussions_def sync_stores sync_match newest_discussions_first_def reply_count_locked_def Let_def)
qed

lemma sync_edit_stored: "map_option ds_body (mem_get_discussion ''cd_3'' sync_after) = Some ''xyz''"
  by (simp add: mem_get_discussion_def sync_stores reply_count_locked_def)

text \<open>The incremental sync can miss an edit. A client that pages through a window gets the position for
  its next poll from the last page alone. Here it has the discussion \<open>cd_3\<close> on its first page; while it
  asks for the second, \<open>cd_3\<close> is edited, and then \<open>cd_1\<close>, which is on the second page. The position it is
  told is the time of the edit of \<open>cd_1\<close>, and a poll from there returns nothing: the edit of \<open>cd_3\<close> is
  never delivered.\<close>

theorem since_misses_edit:
  "let page1 = mem_list_discussions sync_filter sync_before;
       page2 = mem_list_discussions (sync_filter\<lparr>lf_cursor := the (next_cursor 2 page1)\<rparr>) sync_after;
       pos = since_field [] 2 page2
   in map (\<lambda>d. (ds_id d, ds_body d)) page1 = [(''cd_3'', ''abc''), (''cd_2'', ''abc'')] \<and>
      map (\<lambda>d. (ds_id d, ds_body d)) page2 = [(''cd_1'', ''def'')] \<and> next_cursor 2 page2 = None \<and>
      pos = Some ''20-cd_1'' \<and>
      map_option ds_body (mem_get_discussion ''cd_3'' sync_after) = Some ''xyz'' \<and>
      mem_list_discussions (sync_filter\<lparr>lf_since := decode_since_cursor (the pos)\<rparr>) sync_after = []"
  by (simp only: Let_def sync_page1 sync_position option.sel sync_page2 sync_decode sync_poll sync_edit_stored
      list.map sync_row_simps simp_thms)

theorem comment_write_guarded_witness:
  "\<exists>code dt db' c'. comment_write_guard (Some (table_enforce scope_policies))
      \<lparr>ae_system = Some \<lparr>sys_secret = ''s3cret'', sys_scopes = [papers_read], sys_length = 6\<rparr>, ae_sha = (\<lambda>s. s), ae_bc = (\<lambda>h p. False),
       ae_keep = dom, ae_io = all_io, ae_n1 = 6, ae_n2 = 6, ae_n3 = 6\<rparr>
      (comment_route (create_discussion (sample_deps 10) (mem_api (''cd_1'', 5))) sample_comment_request)
      \<lparr>rq_header = ''Bearer s3cret'', rq_auth = None, rq_source = None, rq_held = None\<rparr>
      (pbdb.extend sample_db (comment_db.fields \<lparr>cs_store = new_mem_store, cs_idem = None\<rparr>),
       new_verify_cache default_verify_cfg) = (Detail code dt, (db', c')) \<and> code \<in> {401, 403} \<and>
      cm_server db' = \<lparr>cs_store = new_mem_store, cs_idem = None\<rparr>"
proof -
  let ?env = "\<lparr>ae_system = Some \<lparr>sys_secret = ''s3cret'', sys_scopes = [papers_read], sys_length = 6\<rparr>, ae_sha = (\<lambda>s. s),
      ae_bc = (\<lambda>h p. False), ae_keep = dom, ae_io = all_io, ae_n1 = 6, ae_n2 = 6, ae_n3 = 6\<rparr>"
  let ?re = "\<lparr>rq_header = ''Bearer s3cret'', rq_auth = None, rq_source = None, rq_held = None\<rparr>"
  let ?sv = "\<lparr>cs_store = new_mem_store, cs_idem = None\<rparr>"
  let ?db = "pbdb.extend sample_db (comment_db.fields ?sv)"
  let ?c = "new_verify_cache default_verify_cfg"
  have "bearer_token ?re = ''s3cret''" by code_simp
  then have "\<not> pat_credential ?env ?re ?db ?c pid r uid" for pid r uid
    by (simp add: pat_credential_def looks_def token_prefix_def prefix_display_len_def)
  moreover have "\<not> session_credential ?re" by (simp add: session_credential_def)
  moreover have "cm_server ?db = ?sv" by (simp add: pbdb.defs comment_db.defs)
  ultimately show ?thesis
    using comment_write_guarded [OF casbin.scope_enforcer_axioms, of ?env
        "create_discussion (sample_deps 10) (mem_api (''cd_1'', 5))" sample_comment_request ?re ?db ?c] by auto
qed

section \<open>What is stored is well-typed\<close>

text \<open>The data model of a comment: what the handlers promise of every discussion, reply and event in the store.\<close>

definition discussion_typed :: "discussion \<Rightarrow> bool" where
  "discussion_typed x \<longleftrightarrow>
     \<not> bad_paper_id (ds_paper x) \<and> ds_parse x \<noteq> [] \<and> 0 \<le> ds_page x \<and> 1 \<le> ds_block x \<and> valid_type (ds_type x) \<and>
     valid_scope (ds_scope x) \<and> valid_status (ds_status x) \<and> ds_body x \<noteq> [] \<and> 1 \<le> ds_rev x"

definition event_typed :: "status_event \<Rightarrow> bool" where
  "event_typed e \<longleftrightarrow> valid_status (se_from e) \<and> valid_status (se_to e) \<and> se_to e \<noteq> [] \<and> se_reason e \<noteq> []"

definition store_typed :: "mem_store \<Rightarrow> bool" where
  "store_typed m \<longleftrightarrow>
     (\<forall>i x. map_of (ms_discussions m) i = Some x \<longrightarrow> ds_id x = i \<and> discussion_typed x) \<and>
     (\<forall>i x. map_of (ms_replies m) i = Some x \<longrightarrow> ry_id x = i \<and> ry_body x \<noteq> [] \<and> 1 \<le> ry_rev x \<and>
        map_of (ms_discussions m) (ry_discussion x) \<noteq> None) \<and>
     (\<forall>i. \<forall>e\<in>set (ms_events m i). event_typed e)"

fun op_typed :: "store_op \<Rightarrow> bool" where
  "op_typed (Op_Create x) =
     (\<not> bad_paper_id (di_paper x) \<and> di_parse x \<noteq> [] \<and> 0 \<le> di_page x \<and> 1 \<le> di_block x \<and> valid_type (di_type x) \<and>
      valid_scope (di_scope x) \<and> valid_status (di_status x) \<and> di_body x \<noteq> [] \<and>
      (di_status x \<noteq> [] \<longrightarrow> di_reason x \<noteq> []))"
| "op_typed (Op_Reply x) = (rn_body x \<noteq> [])"
| "op_typed (Op_Status i to reason actor) = (valid_status to \<and> to \<noteq> [] \<and> reason \<noteq> [])"
| "op_typed (Op_Edit i expected body editor) = (body \<noteq> [])"
| "op_typed (Op_Edit_Reply i expected body editor) = (body \<noteq> [])"

lemma op_typed_reason: "op_typed op \<Longrightarrow> op_typed (with_reason op)"
  by (cases op) (auto simp: initial_reason_def)

lemma valid_status_none [simp]: "valid_status []"
  by (simp add: valid_status_def)

lemma store_typed_trail [simp]:
  "store_typed (m\<lparr>ms_body_revs := f\<rparr>) = store_typed m" "store_typed (m\<lparr>ms_reply_revs := f\<rparr>) = store_typed m"
  by (simp_all add: store_typed_def)

lemma store_typed_discussion:
  "store_typed m \<Longrightarrow> ds_id x = i \<Longrightarrow> discussion_typed x \<Longrightarrow>
    store_typed (m\<lparr>ms_discussions := AList.update i x (ms_discussions m)\<rparr>)"
  by (simp add: store_typed_def gomap_simps)

lemma store_typed_reply:
  "store_typed m \<Longrightarrow> ry_id x = i \<Longrightarrow> ry_body x \<noteq> [] \<Longrightarrow> 1 \<le> ry_rev x \<Longrightarrow>
    map_of (ms_discussions m) (ry_discussion x) \<noteq> None \<Longrightarrow>
    store_typed (m\<lparr>ms_replies := AList.update i x (ms_replies m)\<rparr>)"
  by (simp add: store_typed_def gomap_simps)

lemma store_typed_event:
  "store_typed m \<Longrightarrow> event_typed e \<Longrightarrow> store_typed (m\<lparr>ms_events := (ms_events m)(i := ms_events m i @ [e])\<rparr>)"
  by (simp add: store_typed_def)

lemma store_typedD:
  "store_typed m \<Longrightarrow> map_of (ms_discussions m) i = Some x \<Longrightarrow> ds_id x = i \<and> discussion_typed x"
  "store_typed m \<Longrightarrow> map_of (ms_replies m) i = Some y \<Longrightarrow>
    ry_id y = i \<and> 1 \<le> ry_rev y \<and> map_of (ms_discussions m) (ry_discussion y) \<noteq> None"
  by (auto simp: store_typed_def)

lemma mem_exec_typed:
  assumes "mem_exec i0 now op m = (r, m')" and "op_typed op" and "store_typed m"
  shows "store_typed m'"
proof (cases op)
  case (Op_Create x)
  let ?d = "\<lparr>ds_id = i0, ds_paper = di_paper x, ds_parse = di_parse x, ds_page = di_page x, ds_block = di_block x,
    ds_type = di_type x, ds_scope = di_scope x, ds_status = di_status x, ds_body = di_body x, ds_by = di_by x,
    ds_model = di_model x, ds_rev = 1, ds_replies = 0, ds_created = now, ds_updated = now\<rparr>"
  let ?m = "m\<lparr>ms_discussions := AList.update i0 ?d (ms_discussions m)\<rparr>"
  have m: "store_typed ?m"
    using assms(2,3) Op_Create by (intro store_typed_discussion) (simp_all add: discussion_typed_def)
  show ?thesis
  proof (cases "di_status x = []")
    case True
    with m Op_Create assms(1) show ?thesis by (simp add: mem_create_discussion_def Let_def)
  next
    case False
    then have "event_typed \<lparr>se_from = [], se_to = di_status x, se_reason = di_reason x, se_actor = di_by x, se_at = now\<rparr>"
      using assms(2) Op_Create by (simp add: event_typed_def)
    from store_typed_event [OF m this, of i0] False Op_Create assms(1) show ?thesis
      by (simp add: mem_create_discussion_def Let_def)
  qed
next
  case (Op_Reply x)
  with assms show ?thesis
    by (auto simp: mem_create_reply_def Let_def split: option.splits intro!: store_typed_reply)
next
  case (Op_Status i to reason actor)
  show ?thesis
  proof (cases "map_of (ms_discussions m) i")
    case None
    with Op_Status assms(1,3) show ?thesis by (simp add: mem_set_status_def)
  next
    case (Some x)
    note x = store_typedD(1) [OF assms(3) Some]
    let ?x = "x\<lparr>ds_status := to, ds_updated := now\<rparr>"
    from x assms(2,3) Op_Status have m: "store_typed (m\<lparr>ms_discussions := AList.update i ?x (ms_discussions m)\<rparr>)"
      by (intro store_typed_discussion) (simp_all add: discussion_typed_def)
    from x assms(2) Op_Status
    have "event_typed \<lparr>se_from = ds_status x, se_to = to, se_reason = reason, se_actor = actor, se_at = now\<rparr>"
      by (simp add: event_typed_def discussion_typed_def)
    from store_typed_event [OF m this, of i] Some Op_Status assms(1,3) show ?thesis
      by (auto simp: mem_set_status_def Let_def split: if_splits)
  qed
next
  case (Op_Edit i expected body editor)
  with assms store_typedD(1) [OF assms(3)] show ?thesis
    by (fastforce simp: mem_update_discussion_body_def Let_def discussion_typed_def split: option.splits if_splits
        intro!: store_typed_discussion)
next
  case (Op_Edit_Reply i expected body editor)
  with assms store_typedD(2) [OF assms(3)] show ?thesis
    by (fastforce simp: mem_update_reply_body_def Let_def split: option.splits if_splits intro!: store_typed_reply)
qed

lemma check_create_typed:
  "check_create_body d rq b w = Ready (x, w') \<Longrightarrow> \<not> bad_paper_id (cq_paper rq) \<Longrightarrow> op_typed (Op_Create x)"
  by (auto simp: check_create_body_def check_body_limit_def Let_def split: if_splits option.splits anchor_error.splits)

lemma trim_space_Nil [simp]: "trim_space [] = []"
  by (simp add: trim_space_def)

lemma edit_body_nonempty: "begin_edit_body d rq hint = Ready (expected, body, w) \<Longrightarrow> body \<noteq> []"
  by (auto simp: begin_edit_body_def split: if_splits prod.splits option.splits sum.splits)

lemma begin_typed:
  assumes "begin_call d call rq api sv = Ready t"
  shows "\<exists>op. task_op t = Some op \<and> op_typed op"
proof (cases call)
  case Call_Create
  with assms obtain b w x w' hash where "check_create_body d rq b w = Ready (x, w')" "\<not> bad_paper_id (cq_paper rq)"
    "t = Create_Task rq x hash w'"
    by (auto simp: begin_create_def Let_def split: if_splits prod.splits option.splits sum.splits comment_phase.splits)
  with check_create_typed show ?thesis by fastforce
next
  case Call_Reply
  with assms show ?thesis
    by (auto simp: begin_reply_def Let_def split: if_splits prod.splits option.splits sum.splits)
next
  case Call_Status
  with assms show ?thesis
    by (auto simp: begin_status_def Let_def split: if_splits prod.splits option.splits sum.splits)
next
  case Call_Edit
  with assms show ?thesis
    by (auto simp: begin_edit_discussion_def Let_def dest: edit_body_nonempty
        split: if_splits prod.splits option.splits sum.splits comment_phase.splits)
next
  case Call_Edit_Reply
  with assms show ?thesis
    by (auto simp: begin_edit_reply_def Let_def dest: edit_body_nonempty
        split: if_splits prod.splits option.splits sum.splits comment_phase.splits)
qed

context comment_store
begin

lemma exec_typed:
  assumes "valid s" and "fresh e op s" and "op_typed op" and "store_typed (view s)"
  shows "store_typed (view (snd (sa_exec (api e) op s)))"
  using exec [OF assms(1,2) prod.collapse [symmetric]] mem_exec_typed op_typed_reason assms(3,4)
  by (metis insert_iff singletonD)

definition typed :: "'s comment_machine \<Rightarrow> bool" where
  "typed m \<longleftrightarrow> valid (cs_store m) \<and> store_typed (view (cs_store m)) \<and>
     (\<forall>t op. t \<in># mc_tasks m \<longrightarrow> task_op t = Some op \<longrightarrow> op_typed op)"

lemma step_typed:
  assumes "comment_step d admins api fresh m m'" and "typed m"
  shows "typed m'"
  using assms(1)
proof (cases rule: comment_step.cases)
  case (Begin call rq e t)
  with begin_typed [OF Begin(2)] assms(2) show ?thesis by (auto simp: typed_def)
next
  case (Write t op e w memo s')
  have s': "s' = snd (sa_exec (api e) op (cs_store m))"
    using run_task_store [OF Write(3), of d "api e" "cs_store m"] Write(5) by simp
  from assms(2) Write(2,3) have v: "valid (cs_store m)" "op_typed op" "store_typed (view (cs_store m))"
    by (auto simp: typed_def)
  show ?thesis
    using exec_valid [OF v(1) Write(4)] exec_typed [OF v(1) Write(4) v(2,3)] assms(2) Write(1) s'
    by (auto simp: typed_def dest: in_diffD)
next
  case (Remember k)
  with assms(2) show ?thesis by (simp add: typed_def)
qed

lemma steps_typed: "comment_steps d admins api fresh m m' \<Longrightarrow> typed m \<Longrightarrow> typed m'"
  by (induction rule: comment_steps.induct) (auto intro: step_typed)

end

text \<open>C21: What is stored is well-typed. Whatever requests run concurrently, against the PostgreSQL store with any
  behaviour of the database or against the store in memory: every stored discussion names a paper and a
  parse revision, a page from 0 and a block from 1, a type, scope and status of the vocabulary, has a
  body and a revision from 1; every reply has a body and belongs to a stored discussion; and every status
  event has a status of the vocabulary to go to and a reason.\<close>

theorem comments_typed:
  "(comment_steps d admins pg_api always_fresh (start_comments empty_tables idem) m \<longrightarrow>
      store_typed (tables_abs (cs_store m))) \<and>
   (comment_steps d admins mem_api mem_fresh (start_comments new_mem_store idem) m0 \<longrightarrow> store_typed (cs_store m0))"
proof -
  have 1: "tables_abs empty_tables = new_mem_store"
    by (simp add: tables_abs_def empty_tables_def new_mem_store_def revisions_of_def events_of_def)
  have 2: "store_typed new_mem_store" by (simp add: store_typed_def new_mem_store_def)
  have "pg.typed (start_comments empty_tables idem :: comment_tables comment_machine)"
    using 1 2 by (simp add: pg.typed_def start_comments_def tables_ok_def empty_tables_def)
  moreover have "mem.typed (start_comments new_mem_store idem :: mem_store comment_machine)"
    using 2 by (simp add: mem.typed_def start_comments_def mem_keyed_def new_mem_store_def)
  ultimately show ?thesis using pg.steps_typed mem.steps_typed by (fastforce simp: pg.typed_def mem.typed_def)
qed

theorem comments_typed_witness:
  "\<exists>m m0. comment_steps (sample_deps 10) {} pg_api always_fresh
      (start_comments empty_tables (Some (new_idempotency 8))) m \<and>
    map qd_body (pg_discussions (cs_store m)) = [''abc''] \<and> store_typed (tables_abs (cs_store m)) \<and>
    comment_steps (sample_deps 10) {} mem_api mem_fresh
      (start_comments new_mem_store (Some (new_idempotency 8))) m0 \<and>
    map fst (ms_discussions (cs_store m0)) = [''cd_1''] \<and> store_typed (cs_store m0)"
proof -
  have "always_fresh (sample_store_env ''cd_1'' 5) (Op_Create sample_input) empty_tables"
    by (simp add: always_fresh_def)
  then obtain m where m: "comment_steps (sample_deps 10) {} pg_api always_fresh
      (start_comments empty_tables (Some (new_idempotency 8))) m"
    "cs_store m = snd (pg_exec (sample_store_env ''cd_1'' 5) (Op_Create sample_input) empty_tables)"
    unfolding pg_sa_exec [symmetric] by (rule sample_comment_run)
  have "mem_fresh (''cd_1'', 5) (Op_Create sample_input) new_mem_store" by code_simp
  then obtain m0 where m0: "comment_steps (sample_deps 10) {} mem_api mem_fresh
      (start_comments new_mem_store (Some (new_idempotency 8))) m0"
    "cs_store m0 = snd (mem_exec ''cd_1'' 5 (Op_Create sample_input) new_mem_store)"
    unfolding mem_sa_exec [of "(''cd_1'', 5)", simplified, symmetric] by (rule sample_comment_run)
  have "map qd_body (pg_discussions (snd (pg_exec (sample_store_env ''cd_1'' 5) (Op_Create sample_input) empty_tables)))
      = [''abc'']"
    by code_simp
  moreover have "map fst (ms_discussions (snd (mem_exec ''cd_1'' 5 (Op_Create sample_input) new_mem_store))) = [''cd_1'']"
    by code_simp
  ultimately show ?thesis
    using comments_typed [of "sample_deps 10" "{}" "Some (new_idempotency 8)" m m0] m m0 by metis
qed

end
