(* ===== verification/Fleet_Store.thy ===== *)
theory Fleet_Store
  imports Spool Asset_Keys "HOL-Library.List_Lexorder" "HOL-Library.Char_ord"
begin

text \<open>
  The coordinator of the download workers (\<open>internal/downloadfleet\<close>): its configuration, the five tables
  of migration 00004 and its spool directory, and every operation on them. A table is a finite map from
  its primary key to its rows. A database call can fail, and a commit can be lost or lose its
  acknowledgement; what the clocks and the random source give is in the environment of the operation. The wire
  types are those of \<open>Spool\<close>, the worker's side.
\<close>

section \<open>Configuration\<close>

record fleet_config =
  fc_enabled :: bool
  fc_max_in_flight :: int
  fc_max_worker_in_flight :: int
  fc_max_attempts :: int
  fc_task_timeout :: int
  fc_worker_timeout :: int
  fc_lease :: int
  fc_upload_timeout :: int
  fc_enrollment_ttl :: int
  fc_retention :: int
  fc_spool_dir :: string
  fc_spool_max :: int
  fc_max_pdf :: int

definition min_pdf_bytes :: int where "min_pdf_bytes = 10 * 1024"

definition fleet_defaults :: "string \<Rightarrow> fleet_config \<Rightarrow> fleet_config" where
  "fleet_defaults tmp c =
     \<lparr>fc_enabled = fc_enabled c,
      fc_max_in_flight = (if fc_max_in_flight c = 0 then 6 else fc_max_in_flight c),
      fc_max_worker_in_flight = (if fc_max_worker_in_flight c = 0 then 2 else fc_max_worker_in_flight c),
      fc_max_attempts = (if fc_max_attempts c = 0 then 3 else fc_max_attempts c),
      fc_task_timeout = (if fc_task_timeout c = 0 then 15 * 60 * int second else fc_task_timeout c),
      fc_worker_timeout = (if fc_worker_timeout c = 0 then 6 * 60 * int second else fc_worker_timeout c),
      fc_lease = (if fc_lease c = 0 then 60 * int second else fc_lease c),
      fc_upload_timeout = (if fc_upload_timeout c = 0 then 2 * 60 * int second else fc_upload_timeout c),
      fc_enrollment_ttl = (if fc_enrollment_ttl c = 0 then 15 * 60 * int second else fc_enrollment_ttl c),
      fc_retention = (if fc_retention c = 0 then 7 * 24 * 3600 * int second else fc_retention c),
      fc_spool_dir = (if fc_spool_dir c = [] then tmp @ ''/qatlas-downloadfleet'' else fc_spool_dir c),
      fc_spool_max = (if fc_spool_max c = 0 then 2 ^ 30 else fc_spool_max c),
      fc_max_pdf = (if fc_max_pdf c = 0 then max_pdf_bytes else fc_max_pdf c)\<rparr>"

definition fleet_validate :: "fleet_config \<Rightarrow> string option" where
  "fleet_validate c =
     (if fc_max_in_flight c < 1 \<or> fc_max_worker_in_flight c < 1 \<or> fc_max_attempts c < 1 \<or> 32 < fc_max_attempts c
      then Some ''fleet concurrency must be positive; attempts must be 1..32 (default 3)''
      else if fc_task_timeout c \<le> 0 \<or> 24 * 3600 * int second < fc_task_timeout c \<or>
              fc_worker_timeout c \<le> 0 \<or> 3600 * int second < fc_worker_timeout c \<or>
              fc_lease c \<le> 0 \<or> 5 * 60 * int second < fc_lease c \<or> fc_worker_timeout c < fc_lease c \<or>
              fc_task_timeout c < fc_worker_timeout c
      then Some ''fleet durations require lease <= worker <= task; safety ceilings 5m/1h/24h''
      else if fc_upload_timeout c \<le> 0 \<or> 10 * 60 * int second < fc_upload_timeout c
      then Some ''upload timeout must be positive and at most 10m''
      else if fc_enrollment_ttl c \<le> 0 \<or> fc_retention c \<le> 0 \<or> fc_max_pdf c < min_pdf_bytes \<or>
              max_pdf_bytes < fc_max_pdf c \<or> fc_spool_max c < 1
      then Some ''invalid fleet retention, enrollment TTL or spool limits''
      else None)"

text \<open>Functions of the standard library: SHA-256 as a digest and in hexadecimal, the removal of invalid UTF-8,
  and lower-casing outside ASCII.\<close>

record fleet_libs =
  lb_digest :: "string \<Rightarrow> string"
  lb_sha :: "string \<Rightarrow> string"
  lb_utf8 :: "string \<Rightarrow> string"
  lb_lower :: "string \<Rightarrow> string"

definition truncate_text :: "fleet_libs \<Rightarrow> string \<Rightarrow> nat \<Rightarrow> string" where
  "truncate_text lb v n = (if n < length v then lb_utf8 lb (take n v) else lb_utf8 lb v)"

section \<open>Tables\<close>

datatype node_status = N_pending | N_approved | N_draining | N_rejected | N_revoked
datatype task_state = T_queued | T_running | T_staged | T_done | T_failed
datatype attempt_state = A_running | A_uploading | A_staged | A_done | A_failed | A_expired

record fleet_node =
  fn_name :: string
  fn_secret :: string
  fn_status :: node_status
  fn_created :: instant
  fn_seen :: "instant option"
  fn_capacity :: int
  fn_browser :: bool
  fn_disk :: int
  fn_spool :: int
  fn_error :: string

record enrollment =
  en_expires :: instant
  en_used :: "string option"

record fetch_outcome =
  fo_strategy :: string
  fo_url :: string
  fo_doi :: string
  fo_canonical :: string
  fo_version :: int
  fo_sha :: string
  fo_size :: int
  fo_worker :: string
  fo_task :: string
  fo_trace :: "trace list"
  fo_archived :: bool

record fleet_task =
  ft_identity :: string
  ft_ref :: paper_ref
  ft_state :: task_state
  ft_count :: int
  ft_current :: "string option"
  ft_deadline :: instant
  ft_error :: string
  ft_outcome :: "fetch_outcome option"
  ft_created :: instant
  ft_updated :: instant
  ft_hook_pending :: bool
  ft_hook_tries :: nat
  ft_hook_next :: instant

record admission =
  ad_task :: string
  ad_created :: instant

record fleet_attempt =
  fa_task :: string
  fa_worker :: string
  fa_state :: attempt_state
  fa_lease :: instant
  fa_deadline :: instant
  fa_created :: instant
  fa_updated :: instant
  fa_failure :: string
  fa_error :: string
  fa_trace :: "trace list"
  fa_sha :: string
  fa_size :: int
  fa_path :: string
  fa_upload :: string
  fa_source :: string
  fa_strategy :: string
  fa_meta :: result_metadata

record fleet_db =
  fd_nodes :: "(string, fleet_node) gomap"
  fd_enrollments :: "(string, enrollment) gomap"
  fd_tasks :: "(string, fleet_task) gomap"
  fd_admissions :: "(string, admission) gomap"
  fd_attempts :: "(string, fleet_attempt) gomap"

definition empty_fleet_db :: fleet_db where
  "empty_fleet_db = \<lparr>fd_nodes = [], fd_enrollments = [], fd_tasks = [], fd_admissions = [], fd_attempts = []\<rparr>"

definition active_task :: "fleet_task \<Rightarrow> bool" where
  "active_task t \<longleftrightarrow> ft_state t \<in> {T_queued, T_running, T_staged}"

definition live_attempt :: "fleet_attempt \<Rightarrow> bool" where
  "live_attempt a \<longleftrightarrow> fa_state a \<in> {A_running, A_uploading, A_staged}"

definition worker_admitted :: "node_status \<Rightarrow> bool" where
  "worker_admitted s \<longleftrightarrow> s \<in> {N_approved, N_draining}"

section \<open>Transactions\<close>

text \<open>
  The environment of an operation: which of its database calls succeed, by their position; what becomes of
  its commit; the readings of \<open>clock_timestamp()\<close> by the calls, \<open>now()\<close> of the transaction and the clock of the
  process; the random ids; and the rows that another transaction has locked.
\<close>

record fleet_env =
  fe_call :: "nat \<Rightarrow> bool"
  fe_commit :: commit_outcome
  fe_clock :: "nat \<Rightarrow> instant"
  fe_start :: instant
  fe_go :: instant
  fe_ids :: "nat \<Rightarrow> string"
  fe_locked :: "string \<Rightarrow> bool"

datatype fleet_error =
    Fleet_Disabled | Worker_Unauthorized | Worker_Forbidden | Attempt_Conflict | Fleet_Not_Found
  | Fleet_Refused string

definition db_failed :: fleet_error where "db_failed = Fleet_Refused ''database''"

text \<open>A transaction gives an error, or its result with the tables to commit, or with None when it returns
  without committing.\<close>

type_synonym 'r transaction = "fleet_error + 'r \<times> fleet_db option"

definition transact :: "fleet_env \<Rightarrow> fleet_db \<Rightarrow> 'r transaction \<Rightarrow> (fleet_error + 'r) \<times> fleet_db" where
  "transact env db tx =
     (case tx of
        Inl e \<Rightarrow> (Inl e, db)
      | Inr (r, None) \<Rightarrow> (Inr r, db)
      | Inr (r, Some db') \<Rightarrow>
          (case fe_commit env of
             Committed \<Rightarrow> (Inr r, db')
           | Not_Committed \<Rightarrow> (Inl db_failed, db)
           | Ack_Lost \<Rightarrow> (Inl db_failed, db')))"

text \<open>The calls from one position to another: an error when one of them fails.\<close>

definition calls :: "fleet_env \<Rightarrow> nat list \<Rightarrow> bool" where
  "calls env ks \<longleftrightarrow> list_all (fe_call env) ks"

text \<open>\<open>interval\<close>: a duration in whole microseconds.\<close>

definition interval :: "int \<Rightarrow> nat" where
  "interval d = nat (go_div d 1000) * 1000"

section \<open>Identities\<close>

definition fleet_identity :: "fleet_libs \<Rightarrow> paper_ref \<Rightarrow> fleet_error + string" where
  "fleet_identity lb ref =
     (if pr_arxiv ref \<noteq> []
      then case parse (pr_arxiv ref) of
             Inl _ \<Rightarrow> Inl (Fleet_Refused ''invalid arxiv id'')
           | Inr p \<Rightarrow> Inr (''arxiv:'' @ pi_canonical p)
      else case validate_doi (lb_lower lb) (pr_doi ref) of
             Some v \<Rightarrow> Inr (''doi:'' @ v)
           | None \<Rightarrow> Inl (Fleet_Refused ''valid arxiv ID or DOI required''))"

definition arxiv_result :: "paper_ref \<Rightarrow> result_metadata \<Rightarrow> fleet_error + string \<times> string \<times> int" where
  "arxiv_result ref m =
     (case parse (pr_arxiv ref) of
        Inl _ \<Rightarrow> Inl (Fleet_Refused ''invalid arxiv id'')
      | Inr original \<Rightarrow>
          let candidate = (if rm_arxiv m = [] then pi_canonical original else rm_arxiv m) in
          case parse candidate of
            Inl _ \<Rightarrow> Inl (Fleet_Refused ''invalid arxiv id'')
          | Inr p \<Rightarrow>
              if pi_stem_base p \<noteq> pi_stem_base original \<or>
                 (pi_category original \<noteq> [] \<and> pi_category p \<noteq> pi_category original) \<or>
                 (pi_version original \<noteq> [] \<and> pi_version p \<noteq> pi_version original) \<or> pi_bare p
              then Inl (Fleet_Refused ''worker arxiv identity mismatch'')
              else
                let parsed = (if pi_version p = [] then Some (rm_version m)
                              else case atoi (trim_prefix ''v'' (pi_version p)) of
                                     None \<Rightarrow> None
                                   | Some n \<Rightarrow> if n \<le> 0 \<or> 100000 < n \<or> (rm_version m \<noteq> 0 \<and> rm_version m \<noteq> n)
                                               then None else Some n)
                in case parsed of
                     None \<Rightarrow> Inl (Fleet_Refused ''invalid arxiv version'')
                   | Some v \<Rightarrow>
                       let v = (if v \<le> 0 then 1 else v) in
                       Inr ([], if pi_version p = [] then pi_canonical p @ ''v'' @ format_d v else candidate, v))"

definition result_identity :: "fleet_libs \<Rightarrow> paper_ref \<Rightarrow> result_metadata \<Rightarrow> fleet_error + string \<times> string \<times> int" where
  "result_identity lb ref m =
     (if rm_version m < 0 \<or> 100000 < rm_version m then Inl (Fleet_Refused ''invalid arxiv version'')
      else if pr_arxiv ref \<noteq> [] then arxiv_result ref m
      else
        case fleet_identity lb ref of
          Inl e \<Rightarrow> Inl e
        | Inr key \<Rightarrow>
            if rm_doi m \<noteq> [] \<and> fleet_identity lb
                 \<lparr>pr_arxiv = [], pr_doi = rm_doi m, pr_openalex = [], pr_title = [], pr_authors = [], pr_year = 0\<rparr>
                 \<noteq> Inr key
            then Inl (Fleet_Refused ''worker DOI identity mismatch'')
            else if rm_arxiv m \<noteq> [] then Inl (Fleet_Refused ''arxiv identity cannot replace DOI task'')
            else Inr (trim_prefix ''doi:'' key, [], 0))"

section \<open>Admission\<close>

definition active_identity :: "string \<Rightarrow> fleet_db \<Rightarrow> (string \<times> fleet_task) option" where
  "active_identity key db = find (\<lambda>(i, t). ft_identity t = key \<and> active_task t) (fd_tasks db)"

definition new_task :: "fleet_env \<Rightarrow> string \<Rightarrow> paper_ref \<Rightarrow> instant \<Rightarrow> fleet_task" where
  "new_task env key ref deadline =
     \<lparr>ft_identity = key, ft_ref = ref, ft_state = T_queued, ft_count = 0, ft_current = None,
      ft_deadline = deadline, ft_error = [], ft_outcome = None, ft_created = fe_start env,
      ft_updated = fe_start env, ft_hook_pending = False, ft_hook_tries = 0, ft_hook_next = fe_start env\<rparr>"

definition admit :: "fleet_env \<Rightarrow> string \<Rightarrow> string \<times> instant \<Rightarrow> fleet_db \<Rightarrow> (string \<times> instant) transaction" where
  "admit env rq res db =
     (if rq = [] then Inr (res, Some db)
      else if \<not> fe_call env 4 \<or> map_of (fd_admissions db) rq \<noteq> None then Inl db_failed
      else Inr (res, Some (db\<lparr>fd_admissions :=
             AList.update rq \<lparr>ad_task = fst res, ad_created = fe_clock env 4\<rparr> (fd_admissions db)\<rparr>)))"

definition enqueue_tx :: "fleet_config \<Rightarrow> fleet_env \<Rightarrow> string \<Rightarrow> string \<Rightarrow> paper_ref \<Rightarrow> fleet_db
    \<Rightarrow> (string \<times> instant) transaction" where
  "enqueue_tx cfg env rq key ref db =
     (if \<not> calls env [0, 1] \<or> rq \<noteq> [] \<and> \<not> fe_call env 2 then Inl db_failed
      else
        case (if rq = [] then None
              else Option.bind (map_of (fd_admissions db) rq)
                     (\<lambda>a. map_option (Pair (ad_task a)) (map_of (fd_tasks db) (ad_task a)))) of
          Some (i, t) \<Rightarrow> Inr ((i, ft_deadline t), Some db)
        | None \<Rightarrow>
            if \<not> fe_call env 3 then Inl db_failed
            else
              case active_identity key db of
                Some (i, t) \<Rightarrow> admit env rq (i, ft_deadline t) db
              | None \<Rightarrow>
                  let i = fe_ids env 0; deadline = fe_clock env 3 + interval (fc_task_timeout cfg) in
                  if map_of (fd_tasks db) i \<noteq> None then Inl db_failed
                  else admit env rq (i, deadline)
                         (db\<lparr>fd_tasks := AList.update i (new_task env key ref deadline) (fd_tasks db)\<rparr>))"

section \<open>Workers\<close>

definition valid_worker_id :: "string \<Rightarrow> bool" where
  "valid_worker_id s \<longleftrightarrow> 16 \<le> length s \<and> length s \<le> 128 \<and>
     list_all (\<lambda>c. is_alpha c \<or> is_digit c \<or> c = CHR ''_'' \<or> c = CHR ''-'') s"

record register_request =
  rr_id :: string
  rr_name :: string
  rr_token :: string
  rr_secret :: string

text \<open>\<open>Node\<close>: a row with its id and the number of its live attempts.\<close>

record worker_node =
  wn_id :: string
  wn_row :: fleet_node
  wn_running :: nat

definition live_count :: "fleet_db \<Rightarrow> int" where
  "live_count db = asum (\<lambda>a. if live_attempt a then 1 else 0) (fd_attempts db)"

definition live_count_of :: "string \<Rightarrow> fleet_db \<Rightarrow> int" where
  "live_count_of w db = asum (\<lambda>a. if live_attempt a \<and> fa_worker a = w then 1 else 0) (fd_attempts db)"

definition scan_node :: "fleet_db \<Rightarrow> string \<Rightarrow> fleet_node \<Rightarrow> worker_node" where
  "scan_node db i n = \<lparr>wn_id = i, wn_row = n, wn_running = nat (live_count_of i db)\<rparr>"

definition enrollment_tx :: "fleet_config \<Rightarrow> fleet_libs \<Rightarrow> fleet_env \<Rightarrow> fleet_db \<Rightarrow> (string \<times> instant) transaction" where
  "enrollment_tx cfg lb env db =
     (let token = fe_ids env 0; expires = fe_go env + nat (fc_enrollment_ttl cfg) in
      if \<not> fe_call env 0 \<or> map_of (fd_enrollments db) (lb_digest lb token) \<noteq> None then Inl db_failed
      else Inr ((token, expires), Some (db\<lparr>fd_enrollments :=
             AList.update (lb_digest lb token) \<lparr>en_expires = expires, en_used = None\<rparr> (fd_enrollments db)\<rparr>)))"

definition secret_taken :: "string \<Rightarrow> fleet_db \<Rightarrow> bool" where
  "secret_taken h db \<longleftrightarrow> list_ex (\<lambda>(i, n). fn_secret n = h) (fd_nodes db)"

definition register_tx :: "fleet_libs \<Rightarrow> fleet_env \<Rightarrow> register_request \<Rightarrow> fleet_db \<Rightarrow> worker_node transaction" where
  "register_tx lb env r db =
     (if \<not> valid_worker_id (rr_id r) \<or> length (rr_secret r) < 32 \<or> 256 < length (rr_secret r) \<or>
         256 < length (rr_token r) \<or> 200 < length (rr_name r)
      then Inl (Fleet_Refused ''invalid registration fields'')
      else if \<not> calls env [0, 1, 2] then Inl db_failed
      else
        case map_of (fd_nodes db) (rr_id r) of
          Some n \<Rightarrow>
            if fn_secret n \<noteq> lb_digest lb (rr_secret r) then Inl Worker_Unauthorized
            else if \<not> fe_call env 3 then Inl db_failed
            else if fn_status n \<in> {N_revoked, N_rejected} then Inl Worker_Forbidden
            else Inr (scan_node db (rr_id r) n, Some db)
        | None \<Rightarrow>
            if \<not> fe_call env 3 then Inl db_failed
            else
              case map_of (fd_enrollments db) (lb_digest lb (rr_token r)) of
                None \<Rightarrow> Inl Worker_Unauthorized
              | Some en \<Rightarrow>
                  if en_used en \<noteq> None \<or> \<not> fe_go env < en_expires en then Inl Worker_Unauthorized
                  else if \<not> calls env [4, 5, 6] \<or> secret_taken (lb_digest lb (rr_secret r)) db then Inl db_failed
                  else
                    let n = \<lparr>fn_name = rr_name r, fn_secret = lb_digest lb (rr_secret r), fn_status = N_pending,
                             fn_created = fe_start env, fn_seen = Some (fe_clock env 4), fn_capacity = 0,
                             fn_browser = False, fn_disk = 0, fn_spool = 0, fn_error = []\<rparr>;
                        db' = db\<lparr>fd_nodes := AList.update (rr_id r) n (fd_nodes db),
                                 fd_enrollments := AList.update (lb_digest lb (rr_token r))
                                   (en\<lparr>en_used := Some (rr_id r)\<rparr>) (fd_enrollments db)\<rparr>
                    in Inr (scan_node db' (rr_id r) n, Some db'))"

definition authenticate :: "fleet_libs \<Rightarrow> fleet_env \<Rightarrow> string \<Rightarrow> fleet_db \<Rightarrow> fleet_error + worker_node" where
  "authenticate lb env secret db =
     (if length secret < 32 \<or> 256 < length secret then Inl Worker_Unauthorized
      else if \<not> fe_call env 0 then Inl db_failed
      else
        case find (\<lambda>(i, n). fn_secret n = lb_digest lb secret) (fd_nodes db) of
          None \<Rightarrow> Inl Worker_Unauthorized
        | Some (i, n) \<Rightarrow>
            if fn_status n \<in> {N_rejected, N_revoked} then Inl Worker_Forbidden else Inr (scan_node db i n))"

record heartbeat_request =
  hb_capacity :: int
  hb_browser :: bool
  hb_disk :: int
  hb_spool :: int
  hb_error :: string
  hb_running :: "string list"

text \<open>A worker's attempt that is the current one of its task, in the given state and not past a deadline.\<close>

definition holds_lease :: "attempt_state \<Rightarrow> string \<Rightarrow> string list \<Rightarrow> instant \<Rightarrow> fleet_db \<Rightarrow> string \<Rightarrow> fleet_attempt \<Rightarrow> bool" where
  "holds_lease st w ids now db i a \<longleftrightarrow>
     fa_state a = st \<and> fa_worker a = w \<and> i \<in> set ids \<and> now < fa_lease a \<and>
     (st = A_running \<longrightarrow> now < fa_deadline a) \<and>
     (case map_of (fd_tasks db) (fa_task a) of None \<Rightarrow> False | Some t \<Rightarrow> ft_current t = Some i \<and> now < ft_deadline t)"

definition task_deadline :: "fleet_db \<Rightarrow> fleet_attempt \<Rightarrow> instant" where
  "task_deadline db a = (case map_of (fd_tasks db) (fa_task a) of None \<Rightarrow> 0 | Some t \<Rightarrow> ft_deadline t)"

definition renew_leases :: "fleet_config \<Rightarrow> string \<Rightarrow> string list \<Rightarrow> instant \<Rightarrow> fleet_db \<Rightarrow> fleet_db" where
  "renew_leases cfg w ids now db =
     db\<lparr>fd_attempts := map (\<lambda>(i, a). (i,
          if holds_lease A_running w ids now db i a
          then a\<lparr>fa_lease := min (now + interval (fc_lease cfg)) (min (fa_deadline a) (task_deadline db a)),
                 fa_updated := now\<rparr>
          else a)) (fd_attempts db)\<rparr>"

definition heartbeat_tx :: "fleet_config \<Rightarrow> fleet_libs \<Rightarrow> fleet_env \<Rightarrow> string \<Rightarrow> heartbeat_request \<Rightarrow> fleet_db
    \<Rightarrow> (node_status \<times> (string \<times> instant) list) transaction" where
  "heartbeat_tx cfg lb env w r db =
     (if hb_capacity r < 0 \<or> hb_disk r < 0 \<or> hb_spool r < 0 \<or> 128 < length (hb_running r)
      then Inl (Fleet_Refused ''invalid heartbeat'')
      else if \<not> calls env [0, 1] then Inl db_failed
      else
        case map_of (fd_nodes db) w of
          None \<Rightarrow> Inl Worker_Forbidden
        | Some n \<Rightarrow>
            if \<not> worker_admitted (fn_status n) then Inl Worker_Forbidden
            else if \<not> calls env [2, 3] then Inl db_failed
            else
              let n' = n\<lparr>fn_seen := Some (fe_clock env 1),
                         fn_capacity := min (hb_capacity r) (fc_max_worker_in_flight cfg),
                         fn_browser := hb_browser r, fn_disk := hb_disk r, fn_spool := hb_spool r,
                         fn_error := truncate_text lb (hb_error r) 2048\<rparr>;
                  db1 = db\<lparr>fd_nodes := AList.update w n' (fd_nodes db)\<rparr>;
                  db2 = renew_leases cfg w (hb_running r) (fe_clock env 2) db1;
                  renewed = filter (\<lambda>(i, a). holds_lease A_running w (hb_running r) (fe_clock env 2) db1 i a) (fd_attempts db1);
                  uploading = filter (\<lambda>(i, a). holds_lease A_uploading w (hb_running r) (fe_clock env 3) db2 i a) (fd_attempts db2);
                  lease = (\<lambda>(i, a). (i, case map_of (fd_attempts db2) i of None \<Rightarrow> fa_lease a | Some a' \<Rightarrow> fa_lease a'))
              in Inr ((fn_status n, map lease (renewed @ uploading)), Some db2))"

section \<open>Assignments\<close>

definition claimable :: "fleet_config \<Rightarrow> fleet_env \<Rightarrow> string \<Rightarrow> instant \<Rightarrow> fleet_db \<Rightarrow> (string \<times> fleet_task) option" where
  "claimable cfg env w now db =
     (case sort_key (\<lambda>(i, t). ft_created t) (filter (\<lambda>(i, t).
             ft_state t = T_queued \<and> now < ft_deadline t \<and> ft_count t < fc_max_attempts cfg \<and>
             \<not> list_ex (\<lambda>(j, a). fa_task a = i \<and> fa_worker a = w) (fd_attempts db) \<and> \<not> fe_locked env i)
           (fd_tasks db)) of
        [] \<Rightarrow> None
      | it # _ \<Rightarrow> Some it)"

definition new_attempt :: "fleet_env \<Rightarrow> string \<Rightarrow> string \<Rightarrow> instant \<Rightarrow> instant \<Rightarrow> fleet_attempt" where
  "new_attempt env task w lease deadline =
     \<lparr>fa_task = task, fa_worker = w, fa_state = A_running, fa_lease = lease, fa_deadline = deadline,
      fa_created = fe_start env, fa_updated = fe_start env, fa_failure = [], fa_error = [], fa_trace = [],
      fa_sha = [], fa_size = 0, fa_path = [], fa_upload = [], fa_source = [], fa_strategy = [],
      fa_meta = no_metadata\<rparr>"

text \<open>The database with the next task assigned: the calls 4, 5 and 6, then 7, 8 and 9, and so on.\<close>

fun claim_loop :: "fleet_config \<Rightarrow> fleet_env \<Rightarrow> string \<Rightarrow> nat \<Rightarrow> nat \<Rightarrow> assignment list \<Rightarrow> fleet_db
    \<Rightarrow> fleet_error + assignment list \<times> fleet_db" where
  "claim_loop cfg env w 0 k out db = Inr (out, db)"
| "claim_loop cfg env w (Suc n) k out db =
     (let c = 4 + 3 * k in
      if \<not> fe_call env c then Inl db_failed
      else
        case claimable cfg env w (fe_clock env c) db of
          None \<Rightarrow> Inr (out, db)
        | Some (i, t) \<Rightarrow>
            let deadline = min (ft_deadline t) (fe_clock env c + interval (fc_worker_timeout cfg));
                lease = min (fe_clock env (c + 1) + interval (fc_lease cfg)) deadline;
                aid = fe_ids env k
            in if \<not> calls env [c + 1, c + 2] \<or> map_of (fd_attempts db) aid \<noteq> None then Inl db_failed
               else claim_loop cfg env w n (Suc k)
                      (out @ [\<lparr>as_task = i, as_attempt = aid, as_ref = ft_ref t, as_lease_expires = lease,
                               as_deadline = deadline, as_max_pdf = fc_max_pdf cfg\<rparr>])
                      (db\<lparr>fd_attempts := AList.update aid (new_attempt env i w lease deadline) (fd_attempts db),
                          fd_tasks := AList.update i (t\<lparr>ft_state := T_running, ft_current := Some aid,
                            ft_count := ft_count t + 1, ft_updated := fe_clock env (c + 2)\<rparr>) (fd_tasks db)\<rparr>))"

definition claim_limit :: "fleet_config \<Rightarrow> int \<Rightarrow> fleet_node \<Rightarrow> string \<Rightarrow> fleet_db \<Rightarrow> int" where
  "claim_limit cfg wanted n w db =
     min (min (if wanted \<le> 0 then 1 else wanted) (fc_max_in_flight cfg - live_count db))
         (min (fc_max_worker_in_flight cfg - live_count_of w db) (fn_capacity n - live_count_of w db))"

definition claim_tx :: "fleet_config \<Rightarrow> fleet_env \<Rightarrow> string \<Rightarrow> int \<Rightarrow> fleet_db \<Rightarrow> assignment list transaction" where
  "claim_tx cfg env w wanted db =
     (if \<not> calls env [0, 1, 2] then Inl db_failed
      else
        case map_of (fd_nodes db) w of
          None \<Rightarrow> Inl db_failed
        | Some n \<Rightarrow>
            if fn_status n = N_draining then Inr ([], None)
            else if fn_status n \<noteq> N_approved then Inl Worker_Forbidden
            else
              case fn_seen n of
                None \<Rightarrow> Inr ([], None)
              | Some seen \<Rightarrow>
                  if fc_lease cfg < int (fe_go env) - int seen then Inr ([], None)
                  else if \<not> fe_call env 3 then Inl db_failed
                  else
                    case claim_loop cfg env w (nat (claim_limit cfg wanted n w db)) 0 [] db of
                      Inl e \<Rightarrow> Inl e
                    | Inr (out, db') \<Rightarrow> Inr (out, Some db'))"

section \<open>Reports and receipts\<close>

definition failure_codes :: "string list" where
  "failure_codes =
     [''network'', ''timeout'', ''not_found'', ''paywall'', ''challenge'', ''invalid_pdf'', ''disk'', ''internal'',
      ''invalid_identifier'', ''cancelled'']"

definition valid_failure :: "string \<Rightarrow> bool" where
  "valid_failure s \<longleftrightarrow> s \<in> set failure_codes"

fun attempt_state_text :: "attempt_state \<Rightarrow> string" where
  "attempt_state_text A_running = ''running''"
| "attempt_state_text A_uploading = ''uploading''"
| "attempt_state_text A_staged = ''staged''"
| "attempt_state_text A_done = ''done''"
| "attempt_state_text A_failed = ''failed''"
| "attempt_state_text A_expired = ''expired''"

definition scan_receipt :: "string \<Rightarrow> fleet_attempt \<Rightarrow> receipt" where
  "scan_receipt i a =
     \<lparr>rc_task = fa_task a, rc_attempt = i,
      rc_state = (if fa_state a = A_uploading then ''running'' else attempt_state_text (fa_state a)),
      rc_sha = fa_sha a, rc_size = fa_size a, rc_error = fa_error a\<rparr>"

definition worker_attempt :: "fleet_db \<Rightarrow> string \<Rightarrow> string \<Rightarrow> (fleet_attempt \<times> fleet_task) option" where
  "worker_attempt db w i =
     (case map_of (fd_attempts db) i of
        None \<Rightarrow> None
      | Some a \<Rightarrow>
          if fa_worker a \<noteq> w then None else map_option (Pair a) (map_of (fd_tasks db) (fa_task a)))"

text \<open>The condition of the statements that change an attempt for its worker: the attempt is the current one of
  its task, its lease, its deadline unless it is uploading, and the deadline of the task are not past, and
  the worker is admitted.\<close>

definition attempt_current :: "fleet_db \<Rightarrow> instant \<Rightarrow> string \<Rightarrow> fleet_attempt \<Rightarrow> fleet_task \<Rightarrow> bool" where
  "attempt_current db now i a t \<longleftrightarrow>
     ft_current t = Some i \<and> now < fa_lease a \<and> (fa_state a = A_uploading \<or> now < fa_deadline a) \<and>
     now < ft_deadline t \<and>
     (case map_of (fd_nodes db) (fa_worker a) of None \<Rightarrow> False | Some n \<Rightarrow> worker_admitted (fn_status n))"

record report_request =
  rq_attempt :: string
  rq_failure :: string
  rq_message :: string
  rq_trace :: "trace list"

definition cut_trace :: "fleet_libs \<Rightarrow> trace list \<Rightarrow> trace list" where
  "cut_trace lb = map (\<lambda>t. t\<lparr>tr_error := truncate_text lb (tr_error t) 2048, tr_url := truncate_text lb (tr_url t) 2048,
     tr_strategy := truncate_text lb (tr_strategy t) 128\<rparr>)"

definition put_task :: "string \<Rightarrow> fleet_task \<Rightarrow> fleet_db \<Rightarrow> fleet_db" where
  "put_task i t db = db\<lparr>fd_tasks := AList.update i t (fd_tasks db)\<rparr>"

definition put_attempt :: "string \<Rightarrow> fleet_attempt \<Rightarrow> fleet_db \<Rightarrow> fleet_db" where
  "put_attempt i a db = db\<lparr>fd_attempts := AList.update i a (fd_attempts db)\<rparr>"

definition report_tx :: "fleet_config \<Rightarrow> fleet_libs \<Rightarrow> fleet_env \<Rightarrow> string \<Rightarrow> report_request \<Rightarrow> fleet_db \<Rightarrow> receipt transaction" where
  "report_tx cfg lb env w r db =
     (if \<not> valid_failure (rq_failure r) \<or> 64 < length (rq_trace r) then Inl (Fleet_Refused ''invalid failure report'')
      else if \<not> calls env [0, 1] then Inl db_failed
      else
        case worker_attempt db w (rq_attempt r) of
          None \<Rightarrow> Inl Fleet_Not_Found
        | Some (a, t) \<Rightarrow>
            let i = rq_attempt r; receipt = scan_receipt i a; message = truncate_text lb (rq_message r) 2048 in
            if \<not> fe_call env 2 then Inl db_failed
            else if rc_state receipt \<in> {''failed'', ''expired'', ''done''} then Inr (receipt, Some db)
            else if rc_state receipt \<noteq> ''running'' then Inl Attempt_Conflict
            else if \<not> fe_call env 3 then Inl db_failed
            else if \<not> attempt_current db (fe_clock env 3) i a t then Inl Attempt_Conflict
            else if \<not> fe_call env 4 then Inl db_failed
            else
              let terminal = (rq_failure r = ''invalid_identifier'' \<or> rq_failure r = ''cancelled'');
                  a' = a\<lparr>fa_state := A_failed, fa_failure := rq_failure r, fa_error := message,
                         fa_trace := cut_trace lb (rq_trace r), fa_updated := fe_clock env 3\<rparr>;
                  t' = t\<lparr>ft_state := (if terminal \<or> fc_max_attempts cfg \<le> ft_count t \<or> ft_deadline t \<le> fe_clock env 4
                                     then T_failed else T_queued),
                         ft_error := message, ft_updated := fe_clock env 4\<rparr>
              in Inr (receipt\<lparr>rc_state := ''failed'', rc_error := message\<rparr>,
                      Some (put_task (fa_task a) t' (put_attempt i a' db))))"

definition read_receipt :: "fleet_env \<Rightarrow> string \<Rightarrow> string \<Rightarrow> fleet_db \<Rightarrow> fleet_error + receipt" where
  "read_receipt env w i db =
     (if \<not> fe_call env 0 then Inl db_failed
      else case map_of (fd_attempts db) i of
             Some a \<Rightarrow> if fa_worker a = w then Inr (scan_receipt i a) else Inl Fleet_Not_Found
           | None \<Rightarrow> Inl Fleet_Not_Found)"

section \<open>Administration\<close>

datatype node_action = Act_approve | Act_enable | Act_reject | Act_drain | Act_revoke

fun action_target :: "node_action \<Rightarrow> node_status" where
  "action_target Act_approve = N_approved"
| "action_target Act_enable = N_approved"
| "action_target Act_reject = N_rejected"
| "action_target Act_drain = N_draining"
| "action_target Act_revoke = N_revoked"

text \<open>A request with any other action is refused before the transaction.\<close>

definition fence_worker :: "string \<Rightarrow> instant \<Rightarrow> fleet_db \<Rightarrow> fleet_db" where
  "fence_worker w now db =
     db\<lparr>fd_attempts := map (\<lambda>(i, a). (i,
          if fa_worker a = w \<and> fa_state a \<in> {A_running, A_uploading} then a\<lparr>fa_lease := now\<rparr> else a)) (fd_attempts db)\<rparr>"

definition action_tx :: "fleet_env \<Rightarrow> string \<Rightarrow> node_action \<Rightarrow> fleet_db \<Rightarrow> unit transaction" where
  "action_tx env w act db =
     (if \<not> calls env [0, 1, 2] then Inl db_failed
      else
        case map_of (fd_nodes db) w of
          None \<Rightarrow> Inl Fleet_Not_Found
        | Some n \<Rightarrow>
            if fn_status n \<in> {N_revoked, N_rejected}
            then Inl (Fleet_Refused ''rejected/revoked identity cannot be re-enabled; enroll a new identity'')
            else if act = Act_approve \<and> fn_status n \<noteq> N_pending
            then Inl (Fleet_Refused ''only pending workers can be approved'')
            else if act = Act_enable \<and> fn_status n \<noteq> N_draining
            then Inl (Fleet_Refused ''only draining workers can be enabled'')
            else if act = Act_drain \<and> fn_status n \<noteq> N_approved
            then Inl (Fleet_Refused ''only approved workers can drain'')
            else if \<not> fe_call env 3 then Inl db_failed
            else
              let db1 = db\<lparr>fd_nodes := AList.update w (n\<lparr>fn_status := action_target act\<rparr>) (fd_nodes db)\<rparr> in
              if action_target act \<in> {N_revoked, N_rejected}
              then if \<not> fe_call env 4 then Inl db_failed else Inr ((), Some (fence_worker w (fe_clock env 4) db1))
              else Inr ((), Some db1))"

section \<open>The spool directory and the callbacks\<close>

text \<open>
  The coordinator: the tables, the files of its spool directory by their path with their modification time,
  and what the two callbacks have been called for with success: the archive with the bytes it was given,
  the hook with the task.
\<close>

record fleet =
  fs_db :: fleet_db
  fs_files :: "string \<rightharpoonup> string \<times> instant"
  fs_archive :: "(paper_ref \<times> fetch_outcome \<times> string) list"
  fs_hooks :: "string list"

definition put_db :: "fleet \<Rightarrow> (fleet_error + 'r) \<times> fleet_db \<Rightarrow> (fleet_error + 'r) \<times> fleet" where
  "put_db s res = (fst res, s\<lparr>fs_db := snd res\<rparr>)"

definition remove_file :: "string \<Rightarrow> fleet \<Rightarrow> fleet" where
  "remove_file path s = s\<lparr>fs_files := (fs_files s)(path := None)\<rparr>"

text \<open>\<open>validatePDF\<close> on a file that has been read in full.\<close>

definition valid_pdf :: "string \<Rightarrow> bool" where
  "valid_pdf body \<longleftrightarrow>
     min_pdf_bytes \<le> int (length body) \<and> take 5 body = ''%PDF-'' \<and>
     contains (drop (length body - 4096) body) ''%%EOF''"

definition is_hex :: "char \<Rightarrow> bool" where
  "is_hex c \<longleftrightarrow> is_digit c \<or> c \<in> set ''abcdef''"

definition pdf_path :: "fleet_config \<Rightarrow> string \<Rightarrow> string \<Rightarrow> string" where
  "pdf_path cfg i gen = fc_spool_dir cfg @ ''/'' @ i @ ''-'' @ gen @ ''.pdf''"

definition path_dir :: "string \<Rightarrow> string" where
  "path_dir p = rev (tl (dropWhile (\<lambda>c. c \<noteq> CHR ''/'') (rev p)))"

section \<open>Uploads\<close>

record ticket =
  tk_task :: string
  tk_attempt :: string
  tk_gen :: string
  tk_path :: string
  tk_sha :: string
  tk_size :: int

datatype upload_start = Upload_Known receipt | Upload_Reserved ticket

definition reserved_bytes :: "fleet_db \<Rightarrow> int" where
  "reserved_bytes db = asum (\<lambda>a. if fa_path a \<noteq> [] then fa_size a else 0) (fd_attempts db)"

record upload_request =
  up_attempt :: string
  up_sha :: string
  up_size :: int
  up_source :: string
  up_strategy :: string
  up_meta :: result_metadata

text \<open>The statement that reserves the space, once the old file is gone.\<close>

definition reserve_tx :: "fleet_config \<Rightarrow> fleet_libs \<Rightarrow> fleet_env \<Rightarrow> upload_request \<Rightarrow> string \<Rightarrow> fleet_attempt \<Rightarrow> fleet_task
    \<Rightarrow> fleet_db \<Rightarrow> upload_start transaction" where
  "reserve_tx cfg lb env u sha a t db =
     (let i = up_attempt u; gen = fe_ids env 0; path = pdf_path cfg i gen; now = fe_clock env 5;
          reserved = reserved_bytes db - (if fa_path a \<noteq> [] then fa_size a else 0);
          source = (if rm_source_url (up_meta u) \<noteq> [] then rm_source_url (up_meta u) else up_source u);
          strategy = (if rm_strategy (up_meta u) \<noteq> [] then rm_strategy (up_meta u) else up_strategy u)
      in if \<not> calls env [3, 4] then Inl db_failed
         else if fc_spool_max cfg - reserved < up_size u then Inl (Fleet_Refused ''server spool capacity exhausted'')
         else if \<not> fe_call env 5 then Inl db_failed
         else if \<not> (attempt_current db now i a t \<and> ft_state t = T_running) then Inl Attempt_Conflict
         else Inr (Upload_Reserved \<lparr>tk_task = fa_task a, tk_attempt = i, tk_gen = gen, tk_path = path, tk_sha = sha,
                                   tk_size = up_size u\<rparr>,
                Some (put_attempt i
                  (a\<lparr>fa_state := A_uploading, fa_sha := sha, fa_size := up_size u, fa_path := path,
                     fa_source := truncate_text lb source 2048, fa_strategy := truncate_text lb strategy 128,
                     fa_meta := up_meta u, fa_upload := gen,
                     fa_lease := (if fa_state a = A_running
                                  then min (now + interval (fc_upload_timeout cfg)) (ft_deadline t) else fa_lease a),
                     fa_updated := now\<rparr>) db)))"

text \<open>The first part of \<open>upload\<close>; the flag says whether the removal of an old file succeeds.\<close>

definition upload_reserve :: "fleet_config \<Rightarrow> fleet_libs \<Rightarrow> fleet_env \<Rightarrow> bool \<Rightarrow> string \<Rightarrow> upload_request \<Rightarrow> fleet
    \<Rightarrow> (fleet_error + upload_start) \<times> fleet" where
  "upload_reserve cfg lb env rm_ok w u s =
     (let db = fs_db s; i = up_attempt u; sha = to_lower (lb_lower lb) (up_sha u); size = up_size u in
      if 64 < length (rm_trace (up_meta u)) then (Inl (Fleet_Refused ''too many trace entries''), s)
      else if \<not> list_all is_hex sha \<or> length sha \<noteq> 64 \<or> size < min_pdf_bytes \<or> fc_max_pdf cfg < size
      then (Inl (Fleet_Refused ''invalid SHA256 or PDF size''), s)
      else if \<not> valid_worker_id i then (Inl Fleet_Not_Found, s)
      else if \<not> calls env [0, 1] then (Inl db_failed, s)
      else
        case worker_attempt db w i of
          None \<Rightarrow> (Inl Fleet_Not_Found, s)
        | Some (a, t) \<Rightarrow>
            case result_identity lb (ft_ref t) (up_meta u) of
              Inl e \<Rightarrow> (Inl e, s)
            | Inr _ \<Rightarrow>
                if \<not> fe_call env 2 then (Inl db_failed, s)
                else if fa_state a \<in> {A_done, A_staged}
                then if fa_sha a \<noteq> sha \<or> fa_size a \<noteq> size then (Inl Attempt_Conflict, s)
                     else if \<not> fe_call env 3 then (Inl db_failed, s)
                     else put_db s (transact env db (Inr (Upload_Known (scan_receipt i a), Some db)))
                else if fa_state a \<notin> {A_running, A_uploading} then (Inl Attempt_Conflict, s)
                else if fa_state a = A_uploading \<and> (fa_sha a \<noteq> sha \<or> fa_size a \<noteq> size) then (Inl Attempt_Conflict, s)
                else if fa_path a \<noteq> [] \<and> path_dir (fa_path a) \<noteq> fc_spool_dir cfg
                then (Inl (Fleet_Refused ''invalid prior spool path''), s)
                else if fa_path a \<noteq> [] \<and> \<not> rm_ok then (Inl (Fleet_Refused ''remove''), s)
                else
                  let s' = (if fa_path a \<noteq> [] then remove_file (fa_path a) s else s)
                  in put_db s' (transact env db (reserve_tx cfg lb env u sha a t db)))"

text \<open>
  What a transfer meets: the bytes that arrive and whether reading them and writing the file succeeds, the two
  synchronisations of the disk, whether the file can be opened, and whether it can be removed in the end.
\<close>

record transfer_io =
  ti_body :: string
  ti_open :: bool
  ti_copied :: bool
  ti_synced :: bool
  ti_removed :: bool
  ti_mtime :: instant

definition staged_db :: "fleet_env \<Rightarrow> ticket \<Rightarrow> fleet_attempt \<Rightarrow> fleet_task \<Rightarrow> fleet_db \<Rightarrow> fleet_db" where
  "staged_db env k a t db =
     put_task (tk_task k) (t\<lparr>ft_state := T_staged, ft_updated := fe_clock env 4\<rparr>)
       (put_attempt (tk_attempt k) (a\<lparr>fa_state := A_staged, fa_error := [], fa_updated := fe_clock env 3\<rparr>) db)"

text \<open>\<open>streamStage\<close>: the error, if any. The attempt may belong to no task that is locked; the update then matches
  no row.\<close>

definition stream_stage :: "fleet_libs \<Rightarrow> fleet_env \<Rightarrow> transfer_io \<Rightarrow> ticket \<Rightarrow> fleet \<Rightarrow> (fleet_error + unit) \<times> fleet" where
  "stream_stage lb env io k s =
     (let db = fs_db s; written = take (nat (tk_size k + 1)) (ti_body io);
          created = s\<lparr>fs_files := (fs_files s)(tk_path k \<mapsto> (written, ti_mtime io))\<rparr>;
          undone = (if ti_removed io then remove_file (tk_path k) created else created)
      in if \<not> calls env [0, 1, 2] then (Inl db_failed, s)
         else
           case (map_of (fd_tasks db) (tk_task k), map_of (fd_attempts db) (tk_attempt k)) of
             (Some t, Some a) \<Rightarrow>
               if fa_state a \<noteq> A_uploading \<or> fa_upload a \<noteq> tk_gen k then (Inl Attempt_Conflict, s)
               else if \<not> ti_open io \<or> fs_files s (tk_path k) \<noteq> None then (Inl (Fleet_Refused ''open''), s)
               else if \<not> ti_copied io \<or> int (length written) \<noteq> tk_size k \<or> lb_sha lb written \<noteq> tk_sha k \<or>
                       \<not> valid_pdf written \<or> \<not> ti_synced io \<or> \<not> calls env [3]
               then (Inl (Fleet_Refused ''transfer''), undone)
               else
                 case map_of (fd_tasks db) (fa_task a) of
                   None \<Rightarrow> (Inl Attempt_Conflict, undone)
                 | Some t' \<Rightarrow>
                     if \<not> attempt_current db (fe_clock env 3) (tk_attempt k) a t' then (Inl Attempt_Conflict, undone)
                     else if \<not> fe_call env 4 then (Inl db_failed, undone)
                     else put_db created (transact env db (Inr ((), Some (staged_db env k a t db))))
           | _ \<Rightarrow> (Inl db_failed, s))"

text \<open>\<open>resetTransfer\<close>, after a transfer that failed.\<close>

definition reset_transfer :: "fleet_env \<Rightarrow> bool \<Rightarrow> ticket \<Rightarrow> fleet \<Rightarrow> (fleet_error + unit) \<times> fleet" where
  "reset_transfer env rm_ok k s =
     (let db = fs_db s in
      if \<not> calls env [0, 1] then (Inl db_failed, s)
      else if map_of (fd_tasks db) (tk_task k) = None then (Inr (), s)
      else if \<not> fe_call env 2 then (Inl db_failed, s)
      else
        case map_of (fd_attempts db) (tk_attempt k) of
          None \<Rightarrow> (Inr (), s)
        | Some a \<Rightarrow>
            if fa_state a \<noteq> A_uploading \<or> fa_upload a \<noteq> tk_gen k then (Inr (), s)
            else if \<not> rm_ok then (Inl (Fleet_Refused ''remove''), s)
            else if \<not> fe_call env 3 then (Inl db_failed, remove_file (tk_path k) s)
            else put_db (remove_file (tk_path k) s)
                   (transact env db (Inr ((), Some (put_attempt (tk_attempt k) (a\<lparr>fa_path := [], fa_upload := []\<rparr>) db)))))"

section \<open>Committing a staged file\<close>

text \<open>\<open>cleanFile\<close>: the file goes, then the reservation of an attempt that has ended.\<close>

definition released :: "string \<Rightarrow> fleet_db \<Rightarrow> fleet_db" where
  "released i db =
     (case map_of (fd_attempts db) i of
        None \<Rightarrow> db
      | Some a \<Rightarrow> if fa_state a \<in> {A_done, A_failed, A_expired} then put_attempt i (a\<lparr>fa_path := []\<rparr>) db else db)"

definition clean_file :: "fleet_config \<Rightarrow> fleet_env \<Rightarrow> bool \<Rightarrow> string \<Rightarrow> string \<Rightarrow> fleet \<Rightarrow> (fleet_error + unit) \<times> fleet" where
  "clean_file cfg env rm_ok i path s =
     (if path_dir path \<noteq> fc_spool_dir cfg then (Inl (Fleet_Refused ''invalid spool path''), s)
      else if \<not> rm_ok then (Inl (Fleet_Refused ''remove''), s)
      else if \<not> fe_call env 0 then (Inl db_failed, remove_file path s)
      else put_db (remove_file path s) (transact env (fs_db s) (Inr ((), Some (released i (fs_db s))))))"

definition attempt_trace :: "fleet_libs \<Rightarrow> string \<Rightarrow> fleet_attempt \<Rightarrow> trace list" where
  "attempt_trace lb winner a =
     (let w = ''worker:'' @ fa_worker a;
          message = (if fa_failure a \<noteq> [] then fa_failure a @ '': '' @ fa_error a else fa_error a);
          message = (if fa_worker a = winner then [] else message)
      in \<lparr>tr_strategy = w, tr_url = [], tr_error = truncate_text lb message 2048, tr_millis = 0\<rparr> #
         map (\<lambda>t. t\<lparr>tr_strategy := w @ '':'' @ tr_strategy t\<rparr>) (fa_trace a))"

definition attempts_of :: "string \<Rightarrow> fleet_db \<Rightarrow> (string \<times> fleet_attempt) list" where
  "attempts_of task db = sort_key (\<lambda>(i, a). fa_created a) (filter (\<lambda>(i, a). fa_task a = task) (fd_attempts db))"

definition outcome_of :: "fleet_libs \<Rightarrow> fleet_db \<Rightarrow> string \<Rightarrow> fleet_attempt \<Rightarrow> string \<times> string \<times> int \<Rightarrow> fetch_outcome" where
  "outcome_of lb db task a identity =
     (case identity of (doi, canonical, version) \<Rightarrow>
        \<lparr>fo_strategy = ''worker:'' @ fa_worker a @ '':'' @ fa_strategy a, fo_url = fa_source a, fo_doi = doi,
         fo_canonical = canonical, fo_version = version, fo_sha = fa_sha a, fo_size = fa_size a,
         fo_worker = fa_worker a, fo_task = task,
         fo_trace = concat (map (attempt_trace lb (fa_worker a) \<circ> snd) (attempts_of task db)) @
           map (\<lambda>t. t\<lparr>tr_strategy := ''worker:'' @ fa_worker a @ '':'' @ truncate_text lb (tr_strategy t) 128,
                      tr_url := truncate_text lb (tr_url t) 2048, tr_error := truncate_text lb (tr_error t) 2048\<rparr>)
             (rm_trace (fa_meta a)),
         fo_archived = False\<rparr>)"

text \<open>The callbacks (the archive may be missing, and fail), and the file: opening, reading and removing it.\<close>

record commit_io =
  ci_archive :: "bool option"
  ci_hook :: bool
  ci_read :: bool
  ci_removed :: bool

definition done_db :: "fleet_env \<Rightarrow> bool \<Rightarrow> string \<Rightarrow> fleet_attempt \<Rightarrow> fleet_task \<Rightarrow> fetch_outcome \<Rightarrow> fleet_db \<Rightarrow> fleet_db" where
  "done_db env hook i a t out db =
     put_task (fa_task a) (t\<lparr>ft_state := T_done, ft_outcome := Some (out\<lparr>fo_archived := True\<rparr>), ft_error := [],
                          ft_hook_pending := hook, ft_updated := fe_clock env 6\<rparr>)
       (put_attempt i (a\<lparr>fa_state := A_done, fa_error := [], fa_updated := fe_clock env 5\<rparr>) db)"

definition archive_tx :: "fleet_libs \<Rightarrow> fleet_env \<Rightarrow> commit_io \<Rightarrow> string \<Rightarrow> fleet_attempt \<Rightarrow> fleet_task
    \<Rightarrow> fetch_outcome \<Rightarrow> string \<Rightarrow> fleet \<Rightarrow> (fleet_error + string option) \<times> fleet" where
  "archive_tx lb env io i a t out body s =
     (if ci_archive io \<noteq> Some True then (Inl (Fleet_Refused ''archive worker PDF''), s)
      else
        let s1 = s\<lparr>fs_archive := fs_archive s @ [(ft_ref t, out, body)]\<rparr> in
        if \<not> calls env [5, 6] then (Inl db_failed, s1)
        else put_db s1 (transact env (fs_db s) (Inr (Some (fa_path a), Some (done_db env (ci_hook io) i a t out (fs_db s))))))"

text \<open>\<open>commitStaged\<close> up to its commit, with the file to remove after it.\<close>

definition commit_archive :: "fleet_config \<Rightarrow> fleet_libs \<Rightarrow> fleet_env \<Rightarrow> commit_io \<Rightarrow> string \<Rightarrow> fleet
    \<Rightarrow> (fleet_error + string option) \<times> fleet" where
  "commit_archive cfg lb env io i s =
     (let db = fs_db s in
      if ci_archive io = None then (Inl (Fleet_Refused ''archive callback not configured''), s)
      else if \<not> calls env [0, 1] then (Inl db_failed, s)
      else
        case map_of (fd_attempts db) i of
          None \<Rightarrow> (Inr None, s)
        | Some a \<Rightarrow>
            case map_of (fd_tasks db) (fa_task a) of
              None \<Rightarrow> (Inr None, s)
            | Some t \<Rightarrow>
                if ft_current t \<noteq> Some i \<or> ft_state t \<noteq> T_staged \<or> fe_locked env (fa_task a) then (Inr None, s)
                else if \<not> fe_call env 2 \<or> fa_state a \<noteq> A_staged then (Inl db_failed, s)
                else if path_dir (fa_path a) \<noteq> fc_spool_dir cfg
                then (Inl (Fleet_Refused ''staged file outside configured spool''), s)
                else
                  case fs_files s (fa_path a) of
                    None \<Rightarrow> (Inl (Fleet_Refused ''open''), s)
                  | Some (content, _) \<Rightarrow>
                      let body = take (nat (fc_max_pdf cfg + 1)) content in
                      if \<not> ci_read io then (Inl (Fleet_Refused ''read''), s)
                      else if int (length body) \<noteq> fa_size a \<or> lb_sha lb body \<noteq> fa_sha a
                      then (Inl (Fleet_Refused ''staged PDF integrity mismatch''), s)
                      else if \<not> valid_pdf body then (Inl (Fleet_Refused ''invalid PDF''), s)
                      else
                        case result_identity lb (ft_ref t) (fa_meta a) of
                          Inl e \<Rightarrow> (Inl e, s)
                        | Inr identity \<Rightarrow>
                            if \<not> calls env [3, 4] then (Inl db_failed, s)
                            else archive_tx lb env io i a t (outcome_of lb db (fa_task a) a identity) body s)"

definition commit_staged :: "fleet_config \<Rightarrow> fleet_libs \<Rightarrow> fleet_env \<Rightarrow> fleet_env \<Rightarrow> commit_io \<Rightarrow> string \<Rightarrow> fleet
    \<Rightarrow> (fleet_error + unit) \<times> fleet" where
  "commit_staged cfg lb env env' io i s =
     (case commit_archive cfg lb env io i s of
        (Inl e, s') \<Rightarrow> (Inl e, s')
      | (Inr None, s') \<Rightarrow> (Inr (), s')
      | (Inr (Some path), s') \<Rightarrow> clean_file cfg env' (ci_removed io) i path s')"

text \<open>The whole of \<open>upload\<close>, by the environments of its transactions and the receipt it reads.\<close>

definition upload :: "fleet_config \<Rightarrow> fleet_libs \<Rightarrow> (nat \<Rightarrow> fleet_env) \<Rightarrow> bool \<Rightarrow> transfer_io \<Rightarrow> commit_io \<Rightarrow> string \<Rightarrow> upload_request
    \<Rightarrow> fleet \<Rightarrow> (fleet_error + receipt) \<times> fleet" where
  "upload cfg lb envs rm_ok io cio w u s =
     (case upload_reserve cfg lb (envs 0) rm_ok w u s of
        (Inl e, s1) \<Rightarrow> (Inl e, s1)
      | (Inr (Upload_Known r), s1) \<Rightarrow> (Inr r, s1)
      | (Inr (Upload_Reserved k), s1) \<Rightarrow>
          (case stream_stage lb (envs 1) io k s1 of
             (Inl e, s2) \<Rightarrow> (Inl e, snd (reset_transfer (envs 2) (ti_removed io) k s2))
           | (Inr _, s2) \<Rightarrow>
               (case commit_staged cfg lb (envs 2) (envs 3) cio (tk_attempt k) s2 of
                  (Inl _, s3) \<Rightarrow>
                    (Inr \<lparr>rc_task = tk_task k, rc_attempt = tk_attempt k, rc_state = ''staged'', rc_sha = tk_sha k,
                          rc_size = tk_size k, rc_error = []\<rparr>, s3)
                | (Inr _, s3) \<Rightarrow> (read_receipt (envs 4) w (tk_attempt k) (fs_db s3), s3))))"

section \<open>Maintenance\<close>

definition expire_due :: "fleet_config \<Rightarrow> instant \<Rightarrow> fleet_db \<Rightarrow> fleet_task \<Rightarrow> bool" where
  "expire_due cfg now db t \<longleftrightarrow>
     ft_state t = T_queued \<and> (ft_deadline t \<le> now \<or> fc_max_attempts cfg \<le> ft_count t) \<or>
     ft_state t = T_running \<and>
       (ft_deadline t \<le> now \<or>
        (case Option.bind (ft_current t) (map_of (fd_attempts db)) of
           None \<Rightarrow> False
         | Some a \<Rightarrow> fa_lease a \<le> now \<or> fa_state a = A_running \<and> fa_deadline a \<le> now)) \<or>
     ft_state t = T_staged \<and> ft_updated t + interval (fc_retention cfg) < now"

definition queued_expiry_error :: "fleet_libs \<Rightarrow> string \<Rightarrow> bool \<Rightarrow> bool \<Rightarrow> string" where
  "queued_expiry_error lb previous deadline_expired exhausted =
     (if \<not> deadline_expired \<and> \<not> exhausted then previous
      else
        let reason = (if deadline_expired then ''queued timeout (task deadline expired while queued)'' else []) @
              (if deadline_expired \<and> exhausted then ''; '' else []) @
              (if exhausted then ''attempt limit reached while queued'' else []);
            final = ''fleet final reason: '' @ reason
        in if previous = [] \<or> previous = final then final
           else if suffix (''; '' @ final) previous then previous
           else truncate_text lb previous 2048 @ ''; '' @ final)"

definition last_failure :: "string \<Rightarrow> string \<Rightarrow> fleet_db \<Rightarrow> string" where
  "last_failure task dflt db =
     (case sort_key (\<lambda>(i, a). fa_created a) (sort_key fst (filter (\<lambda>(i, a).
             fa_task a = task \<and> fa_state a = A_failed \<and> fa_error a \<noteq> []) (fd_attempts db))) of
        [] \<Rightarrow> dflt
      | xs \<Rightarrow> fa_error (snd (last xs)))"

definition expire_message :: "fleet_config \<Rightarrow> fleet_libs \<Rightarrow> instant \<Rightarrow> string \<Rightarrow> fleet_task \<Rightarrow> fleet_db \<Rightarrow> string" where
  "expire_message cfg lb now i t db =
     (case ft_state t of
        T_staged \<Rightarrow> ''staged archive recovery exceeded retention''
      | T_queued \<Rightarrow> queued_expiry_error lb (last_failure i (ft_error t) db) (ft_deadline t \<le> now)
          (fc_max_attempts cfg \<le> ft_count t)
      | _ \<Rightarrow> ''worker lease/execution deadline expired'')"

text \<open>One of the selected tasks; the calls are \<open>k\<close> for the last failure of a queued task, \<open>k + 1\<close> for its attempt
  otherwise, and \<open>k + 2\<close>. The instant is the one at which the tasks were selected.\<close>

definition expire_task :: "fleet_config \<Rightarrow> fleet_libs \<Rightarrow> fleet_env \<Rightarrow> nat \<Rightarrow> instant \<Rightarrow> string \<times> fleet_task \<Rightarrow> fleet_db
    \<Rightarrow> fleet_db option" where
  "expire_task cfg lb env k now it db =
     (case it of (i, t) \<Rightarrow>
        let msg = expire_message cfg lb now i t db;
            cur = (if ft_state t = T_queued then None else ft_current t);
            t' = t\<lparr>ft_state := (if ft_deadline t \<le> fe_clock env (k + 2) \<or> fc_max_attempts cfg \<le> ft_count t \<or>
                                   ft_state t = T_staged then T_failed else T_queued),
                   ft_error := msg, ft_updated := fe_clock env (k + 2)\<rparr>
        in if ft_state t = T_queued \<and> \<not> fe_call env k \<or> cur \<noteq> None \<and> \<not> fe_call env (k + 1) \<or> \<not> fe_call env (k + 2)
           then None
           else
             let db1 = (case Option.bind cur (\<lambda>c. map_option (Pair c) (map_of (fd_attempts db) c)) of
                          None \<Rightarrow> db
                        | Some (c, a) \<Rightarrow>
                            if live_attempt a
                            then put_attempt c (a\<lparr>fa_state := A_expired, fa_failure := ''timeout'', fa_error := msg,
                                                   fa_updated := fe_clock env (k + 1)\<rparr>) db
                            else db)
             in Some (put_task i t' db1))"

fun expire_tasks :: "fleet_config \<Rightarrow> fleet_libs \<Rightarrow> fleet_env \<Rightarrow> nat \<Rightarrow> instant \<Rightarrow> (string \<times> fleet_task) list \<Rightarrow> fleet_db
    \<Rightarrow> fleet_db option" where
  "expire_tasks cfg lb env k now [] db = Some db"
| "expire_tasks cfg lb env k now (it # its) db =
     Option.bind (expire_task cfg lb env k now it db) (expire_tasks cfg lb env (k + 3) now its)"

definition expire_tx :: "fleet_config \<Rightarrow> fleet_libs \<Rightarrow> fleet_env \<Rightarrow> fleet_db \<Rightarrow> unit transaction" where
  "expire_tx cfg lb env db =
     (if \<not> calls env [0, 1, 2] then Inl db_failed
      else
        let now = fe_clock env 2;
            due = take 100 (sort_key (\<lambda>(i, t). ft_created t)
                    (filter (\<lambda>(i, t). expire_due cfg now db t \<and> \<not> fe_locked env i) (fd_tasks db)))
        in case expire_tasks cfg lb env 3 now due db of
             None \<Rightarrow> Inl db_failed
           | Some db' \<Rightarrow> Inr ((), Some db'))"

text \<open>One round of \<open>deliverHooks\<close>; the result says whether there was a task. The flag is the outcome of the hook.\<close>

definition hook_due :: "fleet_env \<Rightarrow> instant \<Rightarrow> fleet_db \<Rightarrow> (string \<times> fleet_task) option" where
  "hook_due env now db =
     (case sort_key (\<lambda>(i, t). ft_hook_next t) (filter (\<lambda>(i, t). ft_state t = T_done \<and> ft_hook_pending t \<and>
             ft_hook_next t \<le> now \<and> \<not> fe_locked env i) (fd_tasks db)) of
        [] \<Rightarrow> None
      | it # _ \<Rightarrow> Some it)"

definition hook_failed :: "fleet_libs \<Rightarrow> fleet_env \<Rightarrow> string \<Rightarrow> fleet_task \<Rightarrow> fleet_task" where
  "hook_failed lb env msg t =
     t\<lparr>ft_hook_tries := ft_hook_tries t + 1, ft_hook_pending := ft_hook_tries t + 1 < 20,
       ft_hook_next := fe_clock env 3 + interval (2 ^ min (ft_hook_tries t) 10 * 60 * int second),
       ft_error := truncate_text lb (''post-archive hook: '' @ msg) 2048\<rparr>"

definition deliver_hook :: "fleet_libs \<Rightarrow> fleet_env \<Rightarrow> string option \<Rightarrow> fleet \<Rightarrow> (fleet_error + bool) \<times> fleet" where
  "deliver_hook lb env failure s =
     (let db = fs_db s in
      if \<not> calls env [0, 1] then (Inl db_failed, s)
      else
        case hook_due env (fe_clock env 1) db of
          None \<Rightarrow> (Inr False, s)
        | Some (i, t) \<Rightarrow>
            let failure = (if fe_call env 2 then failure else Some ''database'');
                s1 = (if failure = None then s\<lparr>fs_hooks := fs_hooks s @ [i]\<rparr> else s);
                t' = (case failure of None \<Rightarrow> t\<lparr>ft_hook_pending := False\<rparr> | Some msg \<Rightarrow> hook_failed lb env msg t)
            in if \<not> fe_call env 3 then (Inl db_failed, s1)
               else put_db s1 (transact env db (Inr (True, Some (put_task i t' db)))))"

fun deliver_hooks :: "fleet_libs \<Rightarrow> (nat \<Rightarrow> fleet_env \<times> string option) \<Rightarrow> nat \<Rightarrow> fleet \<Rightarrow> fleet_error option \<times> fleet" where
  "deliver_hooks lb rounds 0 s = (None, s)"
| "deliver_hooks lb rounds (Suc n) s =
     (case deliver_hook lb (fst (rounds n)) (snd (rounds n)) s of
        (Inl e, s') \<Rightarrow> (Some e, s')
      | (Inr False, s') \<Rightarrow> (None, s')
      | (Inr True, s') \<Rightarrow> deliver_hooks lb rounds n s')"

text \<open>The statements that are transactions of their own.\<close>

definition note_failure_task :: "fleet_libs \<Rightarrow> string \<Rightarrow> string \<Rightarrow> fleet_db \<Rightarrow> fleet_db" where
  "note_failure_task lb i msg db =
     db\<lparr>fd_tasks := map (\<lambda>(j, t). (j, if ft_current t = Some i \<and> ft_state t = T_staged
          then t\<lparr>ft_error := truncate_text lb msg 2048\<rparr> else t)) (fd_tasks db)\<rparr>"

definition note_failure_attempt :: "fleet_libs \<Rightarrow> instant \<Rightarrow> string \<Rightarrow> string \<Rightarrow> fleet_db \<Rightarrow> fleet_db" where
  "note_failure_attempt lb now i msg db =
     (case map_of (fd_attempts db) i of
        None \<Rightarrow> db
      | Some a \<Rightarrow> if fa_state a = A_staged
                  then put_attempt i (a\<lparr>fa_updated := now, fa_error := truncate_text lb msg 2048\<rparr>) db else db)"

definition drop_enrollments :: "instant \<Rightarrow> fleet_db \<Rightarrow> fleet_db" where
  "drop_enrollments now db =
     db\<lparr>fd_enrollments := filter (\<lambda>(h, en). \<not> en_expires en + 24 * 3600 * second < now) (fd_enrollments db)\<rparr>"

definition task_outlived :: "fleet_config \<Rightarrow> instant \<Rightarrow> fleet_db \<Rightarrow> string \<Rightarrow> fleet_task \<Rightarrow> bool" where
  "task_outlived cfg now db i t \<longleftrightarrow>
     ft_state t \<in> {T_done, T_failed} \<and> \<not> ft_hook_pending t \<and> ft_updated t + interval (fc_retention cfg) < now \<and>
     \<not> list_ex (\<lambda>(j, a). fa_task a = i \<and> fa_path a \<noteq> []) (fd_attempts db)"

definition drop_tasks :: "fleet_config \<Rightarrow> instant \<Rightarrow> fleet_db \<Rightarrow> fleet_db" where
  "drop_tasks cfg now db =
     (let gone = map fst (take 1000 (sort_key (\<lambda>(i, t). ft_updated t)
                   (filter (\<lambda>(i, t). task_outlived cfg now db i t) (fd_tasks db))))
      in db\<lparr>fd_tasks := filter (\<lambda>(i, t). i \<notin> set gone) (fd_tasks db),
            fd_admissions := filter (\<lambda>(r, a). ad_task a \<notin> set gone) (fd_admissions db),
            fd_attempts := filter (\<lambda>(j, a). fa_task a \<notin> set gone) (fd_attempts db)\<rparr>)"

definition drop_nodes :: "fleet_config \<Rightarrow> instant \<Rightarrow> fleet_db \<Rightarrow> fleet_db" where
  "drop_nodes cfg now db =
     db\<lparr>fd_nodes := filter (\<lambda>(w, n). \<not> (fn_status n \<in> {N_pending, N_rejected, N_revoked} \<and>
          fn_created n + interval (fc_retention cfg) < now \<and>
          \<not> list_ex (\<lambda>(j, a). fa_worker a = w) (fd_attempts db) \<and>
          \<not> list_ex (\<lambda>(h, en). en_used en = Some w) (fd_enrollments db))) (fd_nodes db)\<rparr>"

text \<open>An orphan: an old file to which no attempt refers.\<close>

definition orphan :: "fleet_config \<Rightarrow> instant \<Rightarrow> fleet \<Rightarrow> string \<Rightarrow> bool" where
  "orphan cfg now s path \<longleftrightarrow>
     path_ext path = ''.pdf'' \<and>
     (case fs_files s path of None \<Rightarrow> False | Some (_, mtime) \<Rightarrow> fc_retention cfg \<le> int now - int mtime) \<and>
     \<not> list_ex (\<lambda>(j, a). fa_path a = path) (fd_attempts (fs_db s))"

fun remove_orphans :: "fleet_config \<Rightarrow> instant \<Rightarrow> (string \<Rightarrow> bool) \<Rightarrow> nat \<Rightarrow> string list \<Rightarrow> fleet \<Rightarrow> fleet" where
  "remove_orphans cfg now rm_ok n [] s = s"
| "remove_orphans cfg now rm_ok n (path # paths) s =
     (if n = 0 then s
      else if \<not> orphan cfg now s path then remove_orphans cfg now rm_ok n paths s
      else remove_orphans cfg now rm_ok (n - 1) paths (if rm_ok path then remove_file path s else s))"

text \<open>\<open>FetchPDF\<close> after it has enqueued its paper: one look at the task. None goes on waiting.\<close>

datatype fetch_result = Fetch_Done fetch_outcome | Fetch_Failed string | Fetch_Pending

definition fetch_poll :: "fleet_env \<Rightarrow> string \<Rightarrow> instant \<Rightarrow> bool \<Rightarrow> fleet_db \<Rightarrow> fetch_result option" where
  "fetch_poll env i deadline cancelled db =
     (if \<not> fe_call env 0 then Some Fetch_Pending
      else
        case map_of (fd_tasks db) i of
          None \<Rightarrow> Some Fetch_Pending
        | Some t \<Rightarrow>
            if ft_state t = T_done
            then (case ft_outcome t of
                    None \<Rightarrow> Some Fetch_Pending
                  | Some out \<Rightarrow> Some (Fetch_Done (out\<lparr>fo_task := i, fo_archived := True\<rparr>)))
            else if ft_state t = T_failed then Some (Fetch_Failed (ft_error t))
            else if deadline \<le> fe_go env \<or> cancelled then Some Fetch_Pending
            else None)"

end
