(* ===== verification/Fleet_Inv.thy ===== *)
theory Fleet_Inv
  imports Fleet_Store
begin

text \<open>
  The invariant of the coordinator's tables and its bounds; the kinds of change to the rows that keep them; and
  what rows may become.
\<close>

section \<open>The invariant of the tables\<close>

definition ended :: "fleet_attempt \<Rightarrow> bool" where
  "ended a \<longleftrightarrow> fa_state a \<in> {A_done, A_failed, A_expired}"

text \<open>The states of the current attempt of a task; a queued or failed task has none in these states.\<close>

fun current_states :: "task_state \<Rightarrow> attempt_state set" where
  "current_states T_queued = {}"
| "current_states T_running = {A_running, A_uploading}"
| "current_states T_staged = {A_staged}"
| "current_states T_done = {A_done}"
| "current_states T_failed = {}"

definition attempt_total :: "string \<Rightarrow> fleet_db \<Rightarrow> int" where
  "attempt_total i db = asum (\<lambda>a. if fa_task a = i then 1 else 0) (fd_attempts db)"

definition task_ok :: "fleet_config \<Rightarrow> fleet_db \<Rightarrow> string \<Rightarrow> fleet_task \<Rightarrow> bool" where
  "task_ok cfg db i t \<longleftrightarrow>
     ft_count t = attempt_total i db \<and> ft_count t \<le> fc_max_attempts cfg \<and>
     (\<forall>j a. map_of (fd_attempts db) j = Some a \<longrightarrow> fa_task a = i \<longrightarrow> fa_state a \<notin> {A_failed, A_expired} \<longrightarrow>
        ft_current t = Some j \<and> fa_state a \<in> current_states (ft_state t)) \<and>
     (current_states (ft_state t) \<noteq> {} \<longrightarrow>
        (\<exists>j a. ft_current t = Some j \<and> map_of (fd_attempts db) j = Some a \<and> fa_task a = i \<and>
           fa_state a \<in> current_states (ft_state t)))"

definition attempt_ok :: "fleet_config \<Rightarrow> fleet_db \<Rightarrow> string \<Rightarrow> fleet_attempt \<Rightarrow> bool" where
  "attempt_ok cfg db j a \<longleftrightarrow>
     map_of (fd_tasks db) (fa_task a) \<noteq> None \<and> map_of (fd_nodes db) (fa_worker a) \<noteq> None \<and> 0 \<le> fa_size a \<and>
     (fa_path a \<noteq> [] \<longrightarrow> fa_state a \<noteq> A_running \<and> fa_path a = pdf_path cfg j (fa_upload a)) \<and>
     (fa_state a = A_staged \<longrightarrow> fa_path a \<noteq> [])"

definition fleet_inv :: "fleet_config \<Rightarrow> fleet_db \<Rightarrow> bool" where
  "fleet_inv cfg db \<longleftrightarrow>
     gomap_ok (fd_nodes db) \<and> gomap_ok (fd_enrollments db) \<and> gomap_ok (fd_tasks db) \<and>
     gomap_ok (fd_admissions db) \<and> gomap_ok (fd_attempts db) \<and>
     (\<forall>j a. map_of (fd_attempts db) j = Some a \<longrightarrow> attempt_ok cfg db j a) \<and>
     (\<forall>j a j' a'. map_of (fd_attempts db) j = Some a \<longrightarrow> map_of (fd_attempts db) j' = Some a' \<longrightarrow>
        fa_task a = fa_task a' \<longrightarrow> fa_worker a = fa_worker a' \<longrightarrow> j = j') \<and>
     (\<forall>i t. map_of (fd_tasks db) i = Some t \<longrightarrow> task_ok cfg db i t) \<and>
     (\<forall>i t i' t'. map_of (fd_tasks db) i = Some t \<longrightarrow> map_of (fd_tasks db) i' = Some t' \<longrightarrow>
        active_task t \<longrightarrow> active_task t' \<longrightarrow> ft_identity t = ft_identity t' \<longrightarrow> i = i') \<and>
     (\<forall>r ad. map_of (fd_admissions db) r = Some ad \<longrightarrow> map_of (fd_tasks db) (ad_task ad) \<noteq> None)"

text \<open>The bounds: live attempts in all and of each worker, and the space that is reserved.\<close>

definition fleet_room :: "fleet_config \<Rightarrow> fleet_db \<Rightarrow> bool" where
  "fleet_room cfg db \<longleftrightarrow>
     live_count db \<le> fc_max_in_flight cfg \<and> (\<forall>w. live_count_of w db \<le> fc_max_worker_in_flight cfg) \<and>
     reserved_bytes db \<le> fc_spool_max cfg"

lemma fleet_invD:
  assumes "fleet_inv cfg db"
  shows "gomap_ok (fd_nodes db)" "gomap_ok (fd_enrollments db)" "gomap_ok (fd_tasks db)"
    "gomap_ok (fd_admissions db)" "gomap_ok (fd_attempts db)"
    "map_of (fd_attempts db) j = Some a \<Longrightarrow> attempt_ok cfg db j a"
    "map_of (fd_tasks db) i = Some t \<Longrightarrow> task_ok cfg db i t"
  using assms by (simp_all add: fleet_inv_def)

lemma inv_one_attempt:
  assumes "fleet_inv cfg db" and "map_of (fd_attempts db) j = Some a" and "map_of (fd_attempts db) j' = Some a'"
    and "fa_task a = fa_task a'" and "fa_worker a = fa_worker a'"
  shows "j = j'"
  using assms unfolding fleet_inv_def by blast

lemma inv_one_active:
  assumes "fleet_inv cfg db" and "map_of (fd_tasks db) i = Some t" and "map_of (fd_tasks db) i' = Some t'"
    and "active_task t" and "active_task t'" and "ft_identity t = ft_identity t'"
  shows "i = i'"
  using assms unfolding fleet_inv_def by blast

lemma task_ok_current:
  assumes "task_ok cfg db i t" and "map_of (fd_attempts db) j = Some a" and "fa_task a = i"
  shows "fa_state a \<in> {A_failed, A_expired} \<or> ft_current t = Some j \<and> fa_state a \<in> current_states (ft_state t)"
  using assms unfolding task_ok_def by blast

lemma task_ok_has:
  assumes "task_ok cfg db i t" and "current_states (ft_state t) \<noteq> {}"
  obtains j a where "ft_current t = Some j" and "map_of (fd_attempts db) j = Some a" and "fa_task a = i"
    and "fa_state a \<in> current_states (ft_state t)"
  using assms unfolding task_ok_def by blast

lemma task_ok_cong:
  assumes "\<And>k b. fa_task b = i \<Longrightarrow> map_of (fd_attempts db') k = Some b \<longleftrightarrow> map_of (fd_attempts db) k = Some b"
    and "attempt_total i db' = attempt_total i db"
  shows "task_ok cfg db' i t \<longleftrightarrow> task_ok cfg db i t"
proof -
  have 1: "(\<forall>j a. map_of (fd_attempts db') j = Some a \<longrightarrow> fa_task a = i \<longrightarrow> Q j a) \<longleftrightarrow>
      (\<forall>j a. map_of (fd_attempts db) j = Some a \<longrightarrow> fa_task a = i \<longrightarrow> Q j a)" for Q
    using assms(1) by blast
  have 2: "(\<exists>j a. R j \<and> map_of (fd_attempts db') j = Some a \<and> fa_task a = i \<and> Q a) \<longleftrightarrow>
      (\<exists>j a. R j \<and> map_of (fd_attempts db) j = Some a \<and> fa_task a = i \<and> Q a)" for R Q
    using assms(1) by blast
  show ?thesis unfolding task_ok_def 1 2 assms(2) ..
qed

text \<open>Sums over mapped and filtered rows.\<close>

lemma asum_map_same: "(\<And>i a. (i, a) \<in> set m \<Longrightarrow> f (g i a) = f a) \<Longrightarrow> asum f (map (\<lambda>(i, a). (i, g i a)) m) = asum f m"
  by (induction m) (auto simp: asum_def)

lemma asum_filter_le: "(\<And>a. 0 \<le> f a) \<Longrightarrow> asum f (filter P m) \<le> asum f m"
  by (induction m) (auto simp: asum_def add_increasing)

lemma asum_filter_same:
  assumes "\<And>i a. (i, a) \<in> set m \<Longrightarrow> \<not> P (i, a) \<Longrightarrow> f a = 0"
  shows "asum f (filter P m) = asum f m"
  using assms
proof (induction m)
  case (Cons x m)
  obtain i a where x: "x = (i, a)" by (cases x)
  have "asum f (filter P m) = asum f m" using Cons.prems by (intro Cons.IH) auto
  with Cons.prems [of i a] x show ?case by auto
qed simp

lemma gomap_ok_filter [simp]: "gomap_ok m \<Longrightarrow> gomap_ok (filter P m)"
  by (simp add: gomap_ok_def distinct_map_filter)

lemma map_of_filter_Some:
  "gomap_ok m \<Longrightarrow> map_of (filter P m) i = Some t \<longleftrightarrow> map_of m i = Some t \<and> P (i, t)"
  using gomap_set_iff [of m i t] gomap_set_iff [of "filter P m" i t] by simp

lemma asum_update_le:
  assumes "gomap_ok m" and "map_of m k = Some w" and "f v \<le> f w"
  shows "asum f (AList.update k v m) \<le> asum f m"
  using assms by (simp add: asum_update)

lemma asum_update_same:
  assumes "gomap_ok m" and "map_of m k = Some w" and "f v = f w"
  shows "asum f (AList.update k v m) = asum f m"
  using assms by (simp add: asum_update)

lemma put_simps [simp]:
  "fd_nodes (put_task i t db) = fd_nodes db" "fd_enrollments (put_task i t db) = fd_enrollments db"
  "fd_admissions (put_task i t db) = fd_admissions db" "fd_attempts (put_task i t db) = fd_attempts db"
  "fd_nodes (put_attempt j a db) = fd_nodes db" "fd_enrollments (put_attempt j a db) = fd_enrollments db"
  "fd_admissions (put_attempt j a db) = fd_admissions db" "fd_tasks (put_attempt j a db) = fd_tasks db"
  "fd_tasks (put_task i t db) = AList.update i t (fd_tasks db)"
  "fd_attempts (put_attempt j a db) = AList.update j a (fd_attempts db)"
  by (simp_all add: put_task_def put_attempt_def)

section \<open>What keeps the invariant\<close>

text \<open>The current attempt of a task and the task change together.\<close>

lemma moved_inv:
  assumes "fleet_inv cfg db" and "map_of (fd_attempts db) j = Some a" and "map_of (fd_tasks db) (fa_task a) = Some t"
    and "ft_current t = Some j"
    and "fa_task a' = fa_task a" and "fa_worker a' = fa_worker a" and "0 \<le> fa_size a'"
    and "ft_identity t' = ft_identity t" and "ft_count t' = ft_count t" and "ft_current t' = ft_current t"
    and "active_task t' \<Longrightarrow> active_task t"
    and "fa_state a' \<in> current_states (ft_state t') \<or>
      fa_state a' \<in> {A_failed, A_expired} \<and> current_states (ft_state t') = {}"
    and "fa_path a' \<noteq> [] \<Longrightarrow> fa_state a' \<noteq> A_running \<and> fa_path a' = pdf_path cfg j (fa_upload a')"
    and "fa_state a' = A_staged \<Longrightarrow> fa_path a' \<noteq> []"
  shows "fleet_inv cfg (put_task (fa_task a) t' (put_attempt j a' db))" (is "fleet_inv cfg ?db")
proof -
  note inv = fleet_invD [OF assms(1)]
  have total: "attempt_total i ?db = attempt_total i db" for i
    unfolding attempt_total_def using inv(5) assms(2,5) by (simp add: asum_update)
  have aok: "attempt_ok cfg ?db i b" if "map_of (fd_attempts ?db) i = Some b" for i b
  proof (cases "i = j")
    case True
    with that assms inv(6) [OF assms(2)] show ?thesis by (auto simp: attempt_ok_def gomap_simps)
  next
    case False
    with that inv(6) [of i b] show ?thesis by (auto simp: attempt_ok_def gomap_simps)
  qed
  have tok: "task_ok cfg ?db i s" if "map_of (fd_tasks ?db) i = Some s" for i s
  proof (cases "i = fa_task a")
    case True
    with that have s: "s = t'" by (simp add: gomap_simps)
    have t: "task_ok cfg db i t" using inv(7) assms(3) True by simp
    have "ft_current t' = Some k \<and> fa_state b \<in> current_states (ft_state t')"
      if "map_of (fd_attempts ?db) k = Some b" "fa_task b = i" "fa_state b \<notin> {A_failed, A_expired}" for k b
    proof (cases "k = j")
      case True
      with that assms(4,10,12) show ?thesis by (auto simp: gomap_simps)
    next
      case False
      with that t assms(4) show ?thesis by (auto simp: gomap_simps task_ok_def)
    qed
    moreover have "\<exists>k b. ft_current t' = Some k \<and> map_of (fd_attempts ?db) k = Some b \<and> fa_task b = i \<and>
        fa_state b \<in> current_states (ft_state t')" if "current_states (ft_state t') \<noteq> {}"
      using that assms(4,5,10,12) True by (intro exI [of _ j] exI [of _ a']) (auto simp: gomap_simps)
    ultimately show ?thesis using t total assms(9) unfolding s task_ok_def by auto
  next
    case False
    with that have s: "task_ok cfg db i s" using inv(7) by (simp add: gomap_simps)
    have "map_of (fd_attempts ?db) k = Some b \<longleftrightarrow> map_of (fd_attempts db) k = Some b" if "fa_task b = i" for k b
      using False assms(2,5) that by (auto simp: gomap_simps)
    with s total show ?thesis by (subst task_ok_cong [of i ?db db]) auto
  qed
  have uniq: "k = k'" if "map_of (fd_attempts ?db) k = Some b" "map_of (fd_attempts ?db) k' = Some b'"
    "fa_task b = fa_task b'" "fa_worker b = fa_worker b'" for k b k' b'
  proof -
    have "\<exists>b0. map_of (fd_attempts db) k = Some b0 \<and> fa_task b0 = fa_task b \<and> fa_worker b0 = fa_worker b"
      if "map_of (fd_attempts ?db) k = Some b" for k b
      using that assms(2,5,6) by (auto simp: gomap_simps split: if_splits)
    from this [OF that(1)] this [OF that(2)] that(3,4) obtain b0 b0' where
      "map_of (fd_attempts db) k = Some b0" "map_of (fd_attempts db) k' = Some b0'"
      "fa_task b0 = fa_task b0'" "fa_worker b0 = fa_worker b0'"
      by auto
    then show ?thesis by (rule inv_one_attempt [OF assms(1)])
  qed
  have active: "k = k'" if "map_of (fd_tasks ?db) k = Some b" "map_of (fd_tasks ?db) k' = Some b'"
    "active_task b" "active_task b'" "ft_identity b = ft_identity b'" for k b k' b'
  proof -
    have "\<exists>b0. map_of (fd_tasks db) k = Some b0 \<and> active_task b0 \<and> ft_identity b0 = ft_identity b"
      if "map_of (fd_tasks ?db) k = Some b" "active_task b" for k b
      using that assms(3,8,11) by (auto simp: gomap_simps split: if_splits)
    from this [OF that(1,3)] this [OF that(2,4)] that(5) obtain b0 b0' where
      "map_of (fd_tasks db) k = Some b0" "map_of (fd_tasks db) k' = Some b0'"
      "active_task b0" "active_task b0'" "ft_identity b0 = ft_identity b0'"
      by auto
    then show ?thesis by (rule inv_one_active [OF assms(1)])
  qed
  have "map_of (fd_tasks ?db) (ad_task ad) \<noteq> None" if "map_of (fd_admissions ?db) r = Some ad" for r ad
    using that assms(1) by (auto simp: fleet_inv_def gomap_simps)
  with aok tok uniq active inv(1-5) show ?thesis unfolding fleet_inv_def by auto
qed

text \<open>A task alone, where its current attempt need not change.\<close>

lemma put_task_inv:
  assumes "fleet_inv cfg db" and "map_of (fd_tasks db) i = Some t"
    and "ft_identity t' = ft_identity t" and "ft_count t' = ft_count t" and "ft_current t' = ft_current t"
    and "active_task t' \<Longrightarrow> active_task t" and "current_states (ft_state t') = current_states (ft_state t)"
  shows "fleet_inv cfg (put_task i t' db)" (is "fleet_inv cfg ?db")
proof -
  note inv = fleet_invD [OF assms(1)]
  have "task_ok cfg ?db k s" if "map_of (fd_tasks ?db) k = Some s" for k s
  proof (cases "k = i")
    case True
    with that assms(4,5,7) inv(7) [OF assms(2)] show ?thesis
      by (simp add: gomap_simps task_ok_def attempt_total_def)
  next
    case False
    with that have "task_ok cfg db k s" using inv(7) by (simp add: gomap_simps)
    then show ?thesis by (simp add: task_ok_def attempt_total_def)
  qed
  moreover have "attempt_ok cfg ?db j a" if "map_of (fd_attempts ?db) j = Some a" for j a
    using that inv(6) by (fastforce simp: gomap_simps attempt_ok_def)
  moreover have "k = k'" if "map_of (fd_tasks ?db) k = Some b" "map_of (fd_tasks ?db) k' = Some b'"
    "active_task b" "active_task b'" "ft_identity b = ft_identity b'" for k b k' b'
  proof -
    have "\<exists>b0. map_of (fd_tasks db) k = Some b0 \<and> active_task b0 \<and> ft_identity b0 = ft_identity b"
      if "map_of (fd_tasks ?db) k = Some b" "active_task b" for k b
      using that assms(2,3,6) by (auto simp: gomap_simps split: if_splits)
    from this [OF that(1,3)] this [OF that(2,4)] that(5) obtain b0 b0' where
      "map_of (fd_tasks db) k = Some b0" "map_of (fd_tasks db) k' = Some b0'"
      "active_task b0" "active_task b0'" "ft_identity b0 = ft_identity b0'"
      by auto
    then show ?thesis by (rule inv_one_active [OF assms(1)])
  qed
  moreover have "j = j'" if "map_of (fd_attempts ?db) j = Some a" "map_of (fd_attempts ?db) j' = Some a'"
    "fa_task a = fa_task a'" "fa_worker a = fa_worker a'" for j a j' a'
    using that by (auto intro: inv_one_attempt [OF assms(1)])
  moreover have "map_of (fd_tasks ?db) (ad_task ad) \<noteq> None" if "map_of (fd_admissions ?db) r = Some ad" for r ad
    using that assms(1) by (auto simp: fleet_inv_def gomap_simps)
  ultimately show ?thesis using inv(1-5) unfolding fleet_inv_def by auto
qed

text \<open>Attempts that change in what the invariant does not mention, or by giving up their file.\<close>

definition same_shape :: "fleet_attempt \<Rightarrow> fleet_attempt \<Rightarrow> bool" where
  "same_shape a a' \<longleftrightarrow>
     fa_task a' = fa_task a \<and> fa_worker a' = fa_worker a \<and> fa_state a' = fa_state a \<and>
     fa_size a' = fa_size a \<and> fa_sha a' = fa_sha a \<and>
     (fa_path a' = fa_path a \<and> fa_upload a' = fa_upload a \<or> fa_path a' = [] \<and> fa_state a \<noteq> A_staged)"

lemma same_shape_refl [simp]: "same_shape a a"
  by (simp add: same_shape_def)

lemma shapes_inv:
  assumes "fleet_inv cfg db" and "gomap_ok m"
    and "\<And>j a'. map_of m j = Some a' \<Longrightarrow> \<exists>a. map_of (fd_attempts db) j = Some a \<and> same_shape a a'"
    and "\<And>j a. map_of (fd_attempts db) j = Some a \<Longrightarrow> \<exists>a'. map_of m j = Some a'"
    and "\<And>f. (\<And>a a'. same_shape a a' \<Longrightarrow> f a' = (f a :: int)) \<Longrightarrow> asum f m = asum f (fd_attempts db)"
  shows "fleet_inv cfg (db\<lparr>fd_attempts := m\<rparr>)" (is "fleet_inv cfg ?db")
proof -
  note inv = fleet_invD [OF assms(1)]
  have "task_ok cfg ?db i t" if "map_of (fd_tasks ?db) i = Some t" for i t
  proof -
    have t: "task_ok cfg db i t" using that inv(7) by simp
    have "attempt_total i ?db = attempt_total i db"
      unfolding attempt_total_def using assms(5) [of "\<lambda>a. if fa_task a = i then 1 else 0"] by (simp add: same_shape_def)
    moreover have "ft_current t = Some j \<and> fa_state a' \<in> current_states (ft_state t)"
      if "map_of (fd_attempts ?db) j = Some a'" "fa_task a' = i" "fa_state a' \<notin> {A_failed, A_expired}" for j a'
    proof -
      from that(1) assms(3) obtain a where "map_of (fd_attempts db) j = Some a" "same_shape a a'" by auto
      with that(2,3) t show ?thesis by (auto simp: task_ok_def same_shape_def)
    qed
    moreover have "\<exists>j a'. ft_current t = Some j \<and> map_of (fd_attempts ?db) j = Some a' \<and> fa_task a' = i \<and>
        fa_state a' \<in> current_states (ft_state t)" if "current_states (ft_state t) \<noteq> {}"
    proof -
      from that t obtain j a where ja: "ft_current t = Some j" "map_of (fd_attempts db) j = Some a" "fa_task a = i"
        "fa_state a \<in> current_states (ft_state t)"
        unfolding task_ok_def by auto
      from ja(2) assms(4) obtain a' where a': "map_of m j = Some a'" by blast
      with assms(3) ja(2) have "same_shape a a'" by force
      with ja a' show ?thesis by (auto simp: same_shape_def)
    qed
    ultimately show ?thesis using t unfolding task_ok_def by auto
  qed
  moreover have "attempt_ok cfg ?db j a'" if "map_of (fd_attempts ?db) j = Some a'" for j a'
  proof -
    from that assms(3) obtain a where "map_of (fd_attempts db) j = Some a" "same_shape a a'" by auto
    with inv(6) [of j a] show ?thesis by (auto simp: attempt_ok_def same_shape_def)
  qed
  moreover have "j = j'" if "map_of (fd_attempts ?db) j = Some b" "map_of (fd_attempts ?db) j' = Some b'"
    "fa_task b = fa_task b'" "fa_worker b = fa_worker b'" for j b j' b'
  proof -
    from that(1) assms(3) [of j b] obtain a where a: "map_of (fd_attempts db) j = Some a" "same_shape a b" by auto
    from that(2) assms(3) [of j' b'] obtain a' where a': "map_of (fd_attempts db) j' = Some a'" "same_shape a' b'"
      by auto
    from a(2) a'(2) that(3,4) have "fa_task a = fa_task a'" "fa_worker a = fa_worker a'"
      by (simp_all add: same_shape_def)
    with a(1) a'(1) show ?thesis by (rule inv_one_attempt [OF assms(1)])
  qed
  ultimately show ?thesis using assms(1,2) inv(1-4) unfolding fleet_inv_def by auto
qed

lemma mapped_inv:
  assumes "fleet_inv cfg db" and "\<And>j a. same_shape a (g j a)"
  shows "fleet_inv cfg (db\<lparr>fd_attempts := map (\<lambda>(j, a). (j, g j a)) (fd_attempts db)\<rparr>)"
proof (rule shapes_inv [OF assms(1)])
  show "gomap_ok (map (\<lambda>(j, a). (j, g j a)) (fd_attempts db))" using fleet_invD(5) [OF assms(1)] by simp
  show "asum f (map (\<lambda>(j, a). (j, g j a)) (fd_attempts db)) = asum f (fd_attempts db)"
    if "\<And>a a'. same_shape a a' \<Longrightarrow> f a' = f a" for f
    using that assms(2) by (intro asum_map_same) auto
qed (auto simp: map_of_map_val assms(2))

lemma put_attempt_inv:
  assumes "fleet_inv cfg db" and "map_of (fd_attempts db) j = Some a" and "same_shape a a'"
  shows "fleet_inv cfg (put_attempt j a' db)"
  unfolding put_attempt_def
proof (rule shapes_inv [OF assms(1)])
  show "asum f (AList.update j a' (fd_attempts db)) = asum f (fd_attempts db)"
    if "\<And>a a'. same_shape a a' \<Longrightarrow> f a' = f a" for f
    using asum_update_same [OF fleet_invD(5) [OF assms(1)] assms(2), of f a'] that [OF assms(3)] by simp
qed (use assms fleet_invD(5) [OF assms(1)] in \<open>auto simp: gomap_simps split: if_splits\<close>)

lemma nodes_inv:
  assumes "fleet_inv cfg db" and "gomap_ok m"
    and "\<And>j a. map_of (fd_attempts db) j = Some a \<Longrightarrow> map_of m (fa_worker a) \<noteq> None"
  shows "fleet_inv cfg (db\<lparr>fd_nodes := m\<rparr>)"
proof -
  have "attempt_ok cfg (db\<lparr>fd_nodes := m\<rparr>) j a" if "map_of (fd_attempts db) j = Some a" for j a
    using that assms(3) fleet_invD(6) [OF assms(1)] by (fastforce simp: attempt_ok_def)
  moreover have "task_ok cfg (db\<lparr>fd_nodes := m\<rparr>) i t \<longleftrightarrow> task_ok cfg db i t" for i t
    by (simp add: task_ok_def attempt_total_def)
  ultimately show ?thesis using assms(1,2) unfolding fleet_inv_def by simp
qed

lemma enrollments_inv:
  assumes "fleet_inv cfg db" and "gomap_ok m"
  shows "fleet_inv cfg (db\<lparr>fd_enrollments := m\<rparr>)"
proof -
  have "attempt_ok cfg (db\<lparr>fd_enrollments := m\<rparr>) j a \<longleftrightarrow> attempt_ok cfg db j a"
    "task_ok cfg (db\<lparr>fd_enrollments := m\<rparr>) i t \<longleftrightarrow> task_ok cfg db i t" for i t j a
    by (simp_all add: task_ok_def attempt_total_def attempt_ok_def)
  with assms show ?thesis unfolding fleet_inv_def by simp
qed

lemma admissions_inv:
  assumes "fleet_inv cfg db" and "gomap_ok m"
    and "\<And>r ad. map_of m r = Some ad \<Longrightarrow> map_of (fd_tasks db) (ad_task ad) \<noteq> None"
  shows "fleet_inv cfg (db\<lparr>fd_admissions := m\<rparr>)"
proof -
  have "attempt_ok cfg (db\<lparr>fd_admissions := m\<rparr>) j a \<longleftrightarrow> attempt_ok cfg db j a"
    "task_ok cfg (db\<lparr>fd_admissions := m\<rparr>) i t \<longleftrightarrow> task_ok cfg db i t" for i t j a
    by (simp_all add: task_ok_def attempt_total_def attempt_ok_def)
  with assms show ?thesis unfolding fleet_inv_def by simp
qed

lemma new_task_inv:
  assumes "fleet_inv cfg db" and "map_of (fd_tasks db) i = None" and "0 \<le> fc_max_attempts cfg"
    and "ft_state t = T_queued" and "ft_count t = 0" and "active_identity (ft_identity t) db = None"
  shows "fleet_inv cfg (put_task i t db)" (is "fleet_inv cfg ?db")
proof -
  note inv = fleet_invD [OF assms(1)]
  have none: "fa_task a \<noteq> i" if "map_of (fd_attempts db) j = Some a" for j a
    using inv(6) [OF that] assms(2) by (auto simp: attempt_ok_def)
  have zero: "attempt_total i db = 0"
    unfolding attempt_total_def using none inv(5) by (intro asum_zero) (auto simp: gomap_set_iff)
  have "task_ok cfg ?db k s" if "map_of (fd_tasks ?db) k = Some s" for k s
  proof (cases "k = i")
    case True
    with that none zero assms(3-5) show ?thesis by (auto simp: gomap_simps task_ok_def attempt_total_def)
  next
    case False
    with that have "task_ok cfg db k s" using inv(7) by (simp add: gomap_simps)
    then show ?thesis by (simp add: task_ok_def attempt_total_def)
  qed
  moreover have "attempt_ok cfg ?db j a" if "map_of (fd_attempts ?db) j = Some a" for j a
    using that inv(6) by (fastforce simp: gomap_simps attempt_ok_def)
  moreover have "k = k'" if "map_of (fd_tasks ?db) k = Some b" "map_of (fd_tasks ?db) k' = Some b'"
    "active_task b" "active_task b'" "ft_identity b = ft_identity b'" for k b k' b'
  proof -
    have idle: "\<not> active_task b" if "map_of (fd_tasks db) k = Some b" "ft_identity b = ft_identity t" for k b
    proof
      assume "active_task b"
      with that assms(6) map_of_SomeD [OF that(1)] show False by (auto simp: active_identity_def find_None_iff)
    qed
    show ?thesis
    proof (cases "k = i \<or> k' = i")
      case True
      with that idle show ?thesis by (auto simp: gomap_simps split: if_splits)
    next
      case False
      with that show ?thesis by (auto simp: gomap_simps intro: inv_one_active [OF assms(1)])
    qed
  qed
  moreover have "j = j'" if "map_of (fd_attempts ?db) j = Some a" "map_of (fd_attempts ?db) j' = Some a'"
    "fa_task a = fa_task a'" "fa_worker a = fa_worker a'" for j a j' a'
    using that by (auto intro: inv_one_attempt [OF assms(1)])
  moreover have "map_of (fd_tasks ?db) (ad_task ad) \<noteq> None" if "map_of (fd_admissions ?db) r = Some ad" for r ad
    using that assms(1) by (auto simp: fleet_inv_def gomap_simps)
  ultimately show ?thesis using inv(1-5) unfolding fleet_inv_def by auto
qed

text \<open>The assignment of a queued task to a worker that has not had it.\<close>

lemma assign_inv:
  assumes "fleet_inv cfg db" and "map_of (fd_tasks db) i = Some t" and "ft_state t = T_queued"
    and "ft_count t < fc_max_attempts cfg" and "map_of (fd_attempts db) j = None" and "map_of (fd_nodes db) w \<noteq> None"
    and "\<And>k b. map_of (fd_attempts db) k = Some b \<Longrightarrow> \<not> (fa_task b = i \<and> fa_worker b = w)"
    and "fa_task a = i" and "fa_worker a = w" and "fa_state a = A_running" and "fa_path a = []" and "fa_size a = 0"
    and "ft_identity t' = ft_identity t" and "ft_state t' = T_running" and "ft_count t' = ft_count t + 1"
    and "ft_current t' = Some j"
  shows "fleet_inv cfg (put_task i t' (put_attempt j a db))" (is "fleet_inv cfg ?db")
proof -
  note inv = fleet_invD [OF assms(1)]
  have total: "attempt_total k ?db = attempt_total k db + (if k = i then 1 else 0)" for k
    unfolding attempt_total_def using inv(5) assms(5,8) by (simp add: asum_update)
  have old: "ended b \<and> fa_state b \<noteq> A_done" if "map_of (fd_attempts db) k = Some b" "fa_task b = i" for k b
    using task_ok_current [OF inv(7) [OF assms(2)] that] assms(3) by (auto simp: ended_def)
  have "task_ok cfg ?db k s" if "map_of (fd_tasks ?db) k = Some s" for k s
  proof (cases "k = i")
    case True
    with that have s: "s = t'" by (simp add: gomap_simps)
    have t: "task_ok cfg db i t" using inv(7) assms(2) by simp
    show ?thesis
      using True s t total [of i] assms(4,8,10,14-16) old
      by (auto simp: task_ok_def gomap_simps ended_def)
  next
    case False
    with that have s: "task_ok cfg db k s" using inv(7) by (simp add: gomap_simps)
    have "map_of (fd_attempts ?db) l = Some b \<longleftrightarrow> map_of (fd_attempts db) l = Some b" if "fa_task b = k" for l b
      using False assms(5,8) that by (auto simp: gomap_simps)
    with s total [of k] False show ?thesis by (subst task_ok_cong [of k ?db db]) auto
  qed
  moreover have "attempt_ok cfg ?db l b" if "map_of (fd_attempts ?db) l = Some b" for l b
  proof (cases "l = j")
    case True
    with that assms show ?thesis by (auto simp: gomap_simps attempt_ok_def)
  next
    case False
    with that inv(6) [of l b] show ?thesis by (auto simp: gomap_simps attempt_ok_def)
  qed
  moreover have "k = k'" if "map_of (fd_tasks ?db) k = Some b" "map_of (fd_tasks ?db) k' = Some b'"
    "active_task b" "active_task b'" "ft_identity b = ft_identity b'" for k b k' b'
  proof -
    have "\<exists>b0. map_of (fd_tasks db) k = Some b0 \<and> active_task b0 \<and> ft_identity b0 = ft_identity b"
      if "map_of (fd_tasks ?db) k = Some b" "active_task b" for k b
      using that assms(2,3,13) by (auto simp: gomap_simps active_task_def split: if_splits)
    from this [OF that(1,3)] this [OF that(2,4)] that(5) obtain b0 b0' where
      "map_of (fd_tasks db) k = Some b0" "map_of (fd_tasks db) k' = Some b0'"
      "active_task b0" "active_task b0'" "ft_identity b0 = ft_identity b0'"
      by auto
    then show ?thesis by (rule inv_one_active [OF assms(1)])
  qed
  moreover have "l = l'" if "map_of (fd_attempts ?db) l = Some b" "map_of (fd_attempts ?db) l' = Some b'"
    "fa_task b = fa_task b'" "fa_worker b = fa_worker b'" for l b l' b'
  proof (cases "l = j \<or> l' = j")
    case True
    with that assms(7-9) show ?thesis by (auto simp: gomap_simps split: if_splits)
  next
    case False
    with that show ?thesis by (auto simp: gomap_simps intro: inv_one_attempt [OF assms(1)])
  qed
  moreover have "map_of (fd_tasks ?db) (ad_task ad) \<noteq> None" if "map_of (fd_admissions ?db) r = Some ad" for r ad
    using that assms(1) by (auto simp: fleet_inv_def gomap_simps)
  ultimately show ?thesis using inv(1-5) unfolding fleet_inv_def by auto
qed

text \<open>Tasks that go take their attempts and admissions with them.\<close>

lemma dropped_inv:
  assumes "fleet_inv cfg db"
  shows "fleet_inv cfg (db\<lparr>fd_tasks := filter (\<lambda>(i, t). i \<notin> G) (fd_tasks db),
    fd_admissions := filter (\<lambda>(r, a). ad_task a \<notin> G) (fd_admissions db),
    fd_attempts := filter (\<lambda>(j, a). fa_task a \<notin> G) (fd_attempts db)\<rparr>)" (is "fleet_inv cfg ?db")
proof -
  note inv = fleet_invD [OF assms(1)]
  have tasks: "map_of (fd_tasks ?db) i = Some t \<longleftrightarrow> map_of (fd_tasks db) i = Some t \<and> i \<notin> G" for i t
    using inv(3) by (simp add: map_of_filter_Some)
  have attempts: "map_of (fd_attempts ?db) j = Some a \<longleftrightarrow> map_of (fd_attempts db) j = Some a \<and> fa_task a \<notin> G" for j a
    using inv(5) by (simp add: map_of_filter_Some)
  have admissions: "map_of (fd_admissions ?db) r = Some a \<longleftrightarrow> map_of (fd_admissions db) r = Some a \<and> ad_task a \<notin> G" for r a
    using inv(4) by (simp add: map_of_filter_Some)
  have total: "attempt_total i ?db = attempt_total i db" if "i \<notin> G" for i
    unfolding attempt_total_def using that by (simp, intro asum_filter_same) auto
  have "task_ok cfg ?db i t" if "map_of (fd_tasks ?db) i = Some t" for i t
  proof -
    from that tasks have "task_ok cfg db i t" "i \<notin> G" using inv(7) by auto
    then show ?thesis using attempts total by (subst task_ok_cong [of i ?db db]) auto
  qed
  moreover have "attempt_ok cfg ?db j a" if "map_of (fd_attempts ?db) j = Some a" for j a
  proof -
    from that attempts have a: "attempt_ok cfg db j a" "fa_task a \<notin> G" using inv(6) by auto
    then obtain t where "map_of (fd_tasks db) (fa_task a) = Some t" by (auto simp: attempt_ok_def)
    with a tasks have "map_of (fd_tasks ?db) (fa_task a) = Some t" by simp
    with a show ?thesis by (simp add: attempt_ok_def)
  qed
  moreover have "k = k'" if "map_of (fd_tasks ?db) k = Some b" "map_of (fd_tasks ?db) k' = Some b'"
    "active_task b" "active_task b'" "ft_identity b = ft_identity b'" for k b k' b'
    using that unfolding tasks by (auto intro: inv_one_active [OF assms(1)])
  moreover have "l = l'" if "map_of (fd_attempts ?db) l = Some b" "map_of (fd_attempts ?db) l' = Some b'"
    "fa_task b = fa_task b'" "fa_worker b = fa_worker b'" for l b l' b'
    using that unfolding attempts by (auto intro: inv_one_attempt [OF assms(1)])
  moreover have "map_of (fd_tasks ?db) (ad_task ad) \<noteq> None" if "map_of (fd_admissions ?db) r = Some ad" for r ad
  proof -
    from that admissions have "ad_task ad \<notin> G" "map_of (fd_tasks db) (ad_task ad) \<noteq> None"
      using assms(1) by (auto simp: fleet_inv_def)
    with tasks show ?thesis by auto
  qed
  moreover have "gomap_ok (fd_tasks ?db)" "gomap_ok (fd_admissions ?db)" "gomap_ok (fd_attempts ?db)"
    "gomap_ok (fd_nodes ?db)" "gomap_ok (fd_enrollments ?db)"
    using inv(1-5) by simp_all
  ultimately show ?thesis unfolding fleet_inv_def by blast
qed

section \<open>What rows may become\<close>

text \<open>Rows of a table before and after a step: kept rows move by \<open>R\<close>, added ones are \<open>new\<close>.\<close>

definition rows_follow :: "('v \<Rightarrow> 'v \<Rightarrow> bool) \<Rightarrow> ('v \<Rightarrow> bool) \<Rightarrow> (string, 'v) gomap \<Rightarrow> (string, 'v) gomap \<Rightarrow> bool" where
  "rows_follow R new m m' \<longleftrightarrow>
     (\<forall>k v'. map_of m' k = Some v' \<longrightarrow> (case map_of m k of None \<Rightarrow> new v' | Some v \<Rightarrow> R v v'))"

text \<open>An attempt that has ended keeps its receipt. A quiet change leaves the upload alone: an attempt keeps its
  state or ends without success, and gives up its file only once it has ended.\<close>

definition attempt_moves :: "fleet_attempt \<Rightarrow> fleet_attempt \<Rightarrow> bool" where
  "attempt_moves a a' \<longleftrightarrow>
     fa_task a' = fa_task a \<and> fa_worker a' = fa_worker a \<and>
     (ended a \<longrightarrow> fa_state a' = fa_state a \<and> fa_sha a' = fa_sha a \<and> fa_size a' = fa_size a \<and> fa_error a' = fa_error a)"

definition attempt_quiet :: "fleet_attempt \<Rightarrow> fleet_attempt \<Rightarrow> bool" where
  "attempt_quiet a a' \<longleftrightarrow>
     attempt_moves a a' \<and> fa_sha a' = fa_sha a \<and> fa_size a' = fa_size a \<and> fa_upload a' = fa_upload a \<and>
     (fa_state a' = fa_state a \<or> fa_state a' \<in> {A_failed, A_expired}) \<and>
     (fa_path a' = fa_path a \<or> fa_path a' = [] \<and> ended a')"

definition attempt_new :: "fleet_attempt \<Rightarrow> bool" where
  "attempt_new a \<longleftrightarrow> fa_state a = A_running \<and> fa_path a = [] \<and> fa_upload a = []"

definition task_moves :: "fleet_task \<Rightarrow> fleet_task \<Rightarrow> bool" where
  "task_moves t t' \<longleftrightarrow>
     ft_identity t' = ft_identity t \<and> ft_ref t' = ft_ref t \<and> ft_count t \<le> ft_count t' \<and>
     (ft_state t \<in> {T_done, T_failed} \<longrightarrow> ft_state t' = ft_state t \<and> ft_outcome t' = ft_outcome t)"

definition task_quiet :: "fleet_task \<Rightarrow> fleet_task \<Rightarrow> bool" where
  "task_quiet t t' \<longleftrightarrow> task_moves t t' \<and> (ft_state t' = T_done \<longrightarrow> ft_state t = T_done)"

definition task_new :: "fleet_task \<Rightarrow> bool" where
  "task_new t \<longleftrightarrow> ft_state t = T_queued"

definition db_moves :: "fleet_db \<Rightarrow> fleet_db \<Rightarrow> bool" where
  "db_moves db db' \<longleftrightarrow>
     rows_follow attempt_moves attempt_new (fd_attempts db) (fd_attempts db') \<and>
     rows_follow task_moves task_new (fd_tasks db) (fd_tasks db')"

definition db_quiet :: "fleet_db \<Rightarrow> fleet_db \<Rightarrow> bool" where
  "db_quiet db db' \<longleftrightarrow>
     rows_follow attempt_quiet attempt_new (fd_attempts db) (fd_attempts db') \<and>
     rows_follow task_quiet task_new (fd_tasks db) (fd_tasks db')"

lemma follows_refl [simp, intro]:
  "attempt_moves a a" "attempt_quiet a a" "task_moves t t" "task_quiet t t"
  by (simp_all add: attempt_moves_def attempt_quiet_def task_moves_def task_quiet_def)

lemma rows_follow_refl [simp, intro]: "(\<And>v. R v v) \<Longrightarrow> rows_follow R new m m"
  by (simp add: rows_follow_def)

lemma rows_follow_update:
  "(case map_of m k of None \<Rightarrow> new v' | Some v \<Rightarrow> R v v') \<Longrightarrow> (\<And>v. R v v) \<Longrightarrow> rows_follow R new m (AList.update k v' m)"
  by (simp add: rows_follow_def gomap_simps)

lemma rows_follow_map: "(\<And>i v. R v (g i v)) \<Longrightarrow> rows_follow R new m (map (\<lambda>(i, v). (i, g i v)) m)"
  by (auto simp: rows_follow_def map_of_map_val)

lemma rows_follow_filter: "gomap_ok m \<Longrightarrow> (\<And>v. R v v) \<Longrightarrow> rows_follow R new m (filter P m)"
  by (simp add: rows_follow_def map_of_filter_Some)

lemma rows_follow_trans:
  assumes "rows_follow R new m m'" and "rows_follow R new m' m''"
    and "\<And>u v w. R u v \<Longrightarrow> R v w \<Longrightarrow> R u w" and "\<And>v w. new v \<Longrightarrow> R v w \<Longrightarrow> new w"
    and "\<And>k. map_of m k \<noteq> None \<Longrightarrow> map_of m' k \<noteq> None"
  shows "rows_follow R new m m''"
  unfolding rows_follow_def
proof (intro allI impI)
  fix k w assume w: "map_of m'' k = Some w"
  show "case map_of m k of None \<Rightarrow> new w | Some v \<Rightarrow> R v w"
  proof (cases "map_of m' k")
    case None
    with assms(2) [unfolded rows_follow_def, rule_format, OF w] have "new w" by simp
    moreover from None assms(5) have "map_of m k = None" by blast
    ultimately show ?thesis by simp
  next
    case (Some v)
    with assms(2) w have "R v w" by (fastforce simp: rows_follow_def)
    with Some assms(1,3,4) show ?thesis by (fastforce simp: rows_follow_def split: option.splits)
  qed
qed

lemma rows_follow_mono:
  assumes "rows_follow R new m m'" and "\<And>v v'. R v v' \<Longrightarrow> R' v v'" and "\<And>v. new v \<Longrightarrow> new' v"
  shows "rows_follow R' new' m m'"
  unfolding rows_follow_def
proof (intro allI impI)
  fix k v assume "map_of m' k = Some v"
  with assms(1) have "case map_of m k of None \<Rightarrow> new v | Some u \<Rightarrow> R u v" unfolding rows_follow_def by simp
  with assms(2,3) show "case map_of m k of None \<Rightarrow> new' v | Some u \<Rightarrow> R' u v" by (cases "map_of m k") auto
qed

lemma quiet_moves: "db_quiet db db' \<Longrightarrow> db_moves db db'"
  by (fastforce simp: db_quiet_def db_moves_def rows_follow_def attempt_quiet_def task_quiet_def split: option.splits)

lemma db_quiet_refl [simp, intro]: "db_quiet db db"
  by (simp add: db_quiet_def)

lemma db_quiet_rows:
  "db_quiet db db' \<Longrightarrow> fd_attempts db'' = fd_attempts db' \<Longrightarrow> fd_tasks db'' = fd_tasks db' \<Longrightarrow> db_quiet db db''"
  by (simp add: db_quiet_def)

section \<open>The bounds\<close>

definition fleet_ok :: "fleet_config \<Rightarrow> fleet_db \<Rightarrow> bool" where
  "fleet_ok cfg db \<longleftrightarrow> fleet_inv cfg db \<and> fleet_room cfg db"

lemma room_rows: "fd_attempts db' = fd_attempts db \<Longrightarrow> fleet_room cfg db' = fleet_room cfg db"
  by (simp add: fleet_room_def live_count_def live_count_of_def reserved_bytes_def)

lemma room_put:
  assumes "gomap_ok (fd_attempts db)" and "map_of (fd_attempts db) j = Some a" and "fleet_room cfg db"
    and "fa_worker a' = fa_worker a" and "live_attempt a' \<Longrightarrow> live_attempt a"
    and "reserved_bytes db - (if fa_path a \<noteq> [] then fa_size a else 0) + (if fa_path a' \<noteq> [] then fa_size a' else 0)
           \<le> fc_spool_max cfg"
  shows "fleet_room cfg (put_attempt j a' db)"
proof -
  have "live_count (put_attempt j a' db) \<le> live_count db"
    unfolding live_count_def using assms(1,2,5) by (simp add: asum_update)
  moreover have "live_count_of w (put_attempt j a' db) \<le> live_count_of w db" for w
    unfolding live_count_of_def using assms(1,2,4,5) by (simp add: asum_update)
  moreover have "reserved_bytes (put_attempt j a' db)
      = reserved_bytes db - (if fa_path a \<noteq> [] then fa_size a else 0) + (if fa_path a' \<noteq> [] then fa_size a' else 0)"
    unfolding reserved_bytes_def using assms(1,2) by (simp add: asum_update)
  with assms(6) have "reserved_bytes (put_attempt j a' db) \<le> fc_spool_max cfg" by (simp only:)
  ultimately show ?thesis using assms(3) unfolding fleet_room_def by (meson order_trans)
qed

lemma room_mapped:
  assumes "gomap_ok (fd_attempts db)" and "fleet_room cfg db" and "\<And>j a. same_shape a (g j a) \<and> fa_path (g j a) = fa_path a"
  shows "fleet_room cfg (db\<lparr>fd_attempts := map (\<lambda>(j, a). (j, g j a)) (fd_attempts db)\<rparr>)"
proof -
  have "asum f (map (\<lambda>(j, a). (j, g j a)) (fd_attempts db)) = asum f (fd_attempts db)"
    if "\<And>a a'. same_shape a a' \<Longrightarrow> fa_path a' = fa_path a \<Longrightarrow> f a' = f a" for f
    using that assms(3) by (intro asum_map_same) auto
  then show ?thesis using assms(2)
    by (simp add: fleet_room_def live_count_def live_count_of_def reserved_bytes_def live_attempt_def same_shape_def)
qed

lemma room_filter:
  assumes "fleet_inv cfg db" and "fleet_room cfg db"
  shows "fleet_room cfg (db\<lparr>fd_attempts := filter P (fd_attempts db)\<rparr>)"
proof -
  have size: "0 \<le> fa_size a" if "(j, a) \<in> set (fd_attempts db)" for j a
    using that fleet_invD(5,6) [OF assms(1)] by (auto simp: gomap_set_iff attempt_ok_def)
  have "asum (\<lambda>a. if fa_path a \<noteq> [] then fa_size a else 0) (filter P (fd_attempts db))
      \<le> asum (\<lambda>a. if fa_path a \<noteq> [] then max 0 (fa_size a) else 0) (filter P (fd_attempts db))"
    unfolding asum_def by (intro sum_list_mono) auto
  also have "\<dots> \<le> asum (\<lambda>a. if fa_path a \<noteq> [] then max 0 (fa_size a) else 0) (fd_attempts db)"
    by (intro asum_filter_le) simp
  also have "\<dots> = asum (\<lambda>a. if fa_path a \<noteq> [] then fa_size a else 0) (fd_attempts db)"
    unfolding asum_def using size by (intro arg_cong [where f = sum_list] map_cong) auto
  finally have "reserved_bytes (db\<lparr>fd_attempts := filter P (fd_attempts db)\<rparr>) \<le> reserved_bytes db"
    by (simp add: reserved_bytes_def)
  moreover have "live_count (db\<lparr>fd_attempts := filter P (fd_attempts db)\<rparr>) \<le> live_count db"
    "live_count_of w (db\<lparr>fd_attempts := filter P (fd_attempts db)\<rparr>) \<le> live_count_of w db" for w
    unfolding live_count_def live_count_of_def by (simp_all add: asum_filter_le)
  ultimately show ?thesis using assms(2) unfolding fleet_room_def by (meson order_trans)
qed

end
