(* ===== verification/Fleet_Tx.thy ===== *)
theory Fleet_Tx
  imports Fleet_Inv
begin

text \<open>
  Every transaction of the coordinator keeps the invariant and the bounds of \<open>Fleet_Inv\<close>. Most of them leave
  uploads alone; the others are the reservation of space, the staging of a file, its reset and its archiving.
\<close>

section \<open>Transactions that leave uploads alone\<close>

definition quiet_tx :: "fleet_config \<Rightarrow> fleet_db \<Rightarrow> 'r transaction \<Rightarrow> bool" where
  "quiet_tx cfg db tx \<longleftrightarrow> (\<forall>r db'. tx = Inr (r, Some db') \<longrightarrow> fleet_ok cfg db' \<and> db_quiet db db')"

lemma quiet_tx_simps [simp]:
  "quiet_tx cfg db (Inl e)" "quiet_tx cfg db (Inr (r, None))"
  "quiet_tx cfg db (Inr (r, Some db')) \<longleftrightarrow> fleet_ok cfg db' \<and> db_quiet db db'"
  by (auto simp: quiet_tx_def)

lemma transact_cases:
  obtains "snd (transact env db tx) = db"
  | r db' where "tx = Inr (r, Some db')" and "snd (transact env db tx) = db'"
  by (cases tx; cases "snd (projr tx)"; cases "fe_commit env") (auto simp: transact_def split: option.splits)

lemma transact_quiet:
  assumes "fleet_ok cfg db" and "quiet_tx cfg db tx"
  shows "fleet_ok cfg (snd (transact env db tx)) \<and> db_quiet db (snd (transact env db tx))"
  by (rule transact_cases [of env db tx]) (use assms in \<open>auto simp: quiet_tx_def\<close>)

lemma fleet_okD: "fleet_ok cfg db \<Longrightarrow> fleet_inv cfg db" "fleet_ok cfg db \<Longrightarrow> fleet_room cfg db"
  by (simp_all add: fleet_ok_def)

lemma validate_bounds:
  assumes "fleet_validate cfg = None"
  shows "1 \<le> fc_max_in_flight cfg" "1 \<le> fc_max_worker_in_flight cfg" "1 \<le> fc_max_attempts cfg"
    "fc_max_attempts cfg \<le> 32" "1 \<le> fc_spool_max cfg" "min_pdf_bytes \<le> fc_max_pdf cfg"
    "fc_max_pdf cfg \<le> max_pdf_bytes" "0 < fc_lease cfg" "fc_lease cfg \<le> fc_worker_timeout cfg"
    "fc_worker_timeout cfg \<le> fc_task_timeout cfg" "0 < fc_retention cfg" "0 < fc_upload_timeout cfg"
  using assms by (simp_all add: fleet_validate_def split: if_splits)

lemma find_row_SomeD: "find P xs = Some x \<Longrightarrow> x \<in> set xs \<and> P x"
  by (induction xs) (auto split: if_splits)

lemma admit_keeps:
  assumes "fleet_ok cfg db" and "map_of (fd_tasks db) (fst res) \<noteq> None" and "admit env rq res db = Inr (r, Some db')"
  shows "fleet_ok cfg db' \<and> fd_attempts db' = fd_attempts db \<and> fd_tasks db' = fd_tasks db"
proof (cases "rq = []")
  case True
  with assms show ?thesis by (simp add: admit_def)
next
  case False
  with assms(3) have db': "db' = db\<lparr>fd_admissions :=
      AList.update rq \<lparr>ad_task = fst res, ad_created = fe_clock env 4\<rparr> (fd_admissions db)\<rparr>"
    by (auto simp: admit_def split: if_splits)
  have "fleet_inv cfg db'" unfolding db'
  proof (rule admissions_inv [OF fleet_okD(1) [OF assms(1)]])
    show "gomap_ok (AList.update rq \<lparr>ad_task = fst res, ad_created = fe_clock env 4\<rparr> (fd_admissions db))"
      using fleet_invD(4) [OF fleet_okD(1) [OF assms(1)]] by simp
    show "map_of (fd_tasks db) (ad_task ad) \<noteq> None"
      if "map_of (AList.update rq \<lparr>ad_task = fst res, ad_created = fe_clock env 4\<rparr> (fd_admissions db)) q = Some ad" for q ad
      using that assms(1,2) by (auto simp: gomap_simps fleet_ok_def fleet_inv_def split: if_splits)
  qed
  with assms(1) show ?thesis unfolding db' by (simp add: fleet_ok_def room_rows [of "db\<lparr>fd_admissions := _\<rparr>" db])
qed

lemma enqueue_quiet:
  assumes "fleet_validate cfg = None" and "fleet_ok cfg db"
  shows "quiet_tx cfg db (enqueue_tx cfg env rq key ref db)"
  unfolding quiet_tx_def
proof (intro allI impI)
  fix r db' assume tx: "enqueue_tx cfg env rq key ref db = Inr (r, Some db')"
  let ?t = "new_task env key ref (fe_clock env 3 + interval (fc_task_timeout cfg))"
  let ?i = "fe_ids env 0"
  let ?db = "put_task ?i ?t db"
  from tx consider "db' = db"
    | i t where "active_identity key db = Some (i, t)" "admit env rq (i, ft_deadline t) db = Inr (r, Some db')"
    | "active_identity key db = None" "map_of (fd_tasks db) ?i = None"
      "admit env rq (?i, fe_clock env 3 + interval (fc_task_timeout cfg)) ?db = Inr (r, Some db')"
    by (auto simp: enqueue_tx_def put_task_def Let_def split: if_splits option.splits)
  then show "fleet_ok cfg db' \<and> db_quiet db db'"
  proof cases
    case 1
    with assms(2) show ?thesis by simp
  next
    case (2 i t)
    then have "(i, t) \<in> set (fd_tasks db)" by (auto simp: active_identity_def dest: find_row_SomeD)
    then have "map_of (fd_tasks db) i \<noteq> None" by (auto dest: weak_map_of_SomeI)
    with admit_keeps [OF assms(2) _ 2(2)] show ?thesis by (auto intro: db_quiet_rows [of db db])
  next
    case 3
    have "fleet_inv cfg ?db" using 3(1,2) fleet_okD(1) [OF assms(2)] validate_bounds(3) [OF assms(1)]
      by (intro new_task_inv) (auto simp: new_task_def)
    with assms(2) have ok: "fleet_ok cfg ?db" by (simp add: fleet_ok_def room_rows [of ?db db])
    have "db_quiet db ?db" unfolding db_quiet_def
      using 3(2) by (auto intro!: rows_follow_update simp: task_new_def new_task_def)
    with admit_keeps [OF ok _ 3(3)] show ?thesis by (auto simp: gomap_simps intro: db_quiet_rows)
  qed
qed

lemma node_update_ok:
  assumes "fleet_ok cfg db"
  shows "fleet_ok cfg (db\<lparr>fd_nodes := AList.update w n (fd_nodes db)\<rparr>)"
proof -
  note inv = fleet_okD(1) [OF assms]
  have "fleet_inv cfg (db\<lparr>fd_nodes := AList.update w n (fd_nodes db)\<rparr>)"
    using fleet_invD(1) [OF inv] fleet_invD(6) [OF inv]
    by (intro nodes_inv [OF inv]) (fastforce simp: gomap_simps attempt_ok_def)+
  with assms show ?thesis by (simp add: fleet_ok_def room_rows [of "db\<lparr>fd_nodes := _\<rparr>" db])
qed

lemma enrollments_ok:
  assumes "fleet_ok cfg db" and "gomap_ok m"
  shows "fleet_ok cfg (db\<lparr>fd_enrollments := m\<rparr>)"
  using enrollments_inv [OF fleet_okD(1) [OF assms(1)] assms(2)] assms(1)
  by (simp add: fleet_ok_def room_rows [of "db\<lparr>fd_enrollments := _\<rparr>" db])

lemma enrollment_quiet: "fleet_ok cfg db \<Longrightarrow> quiet_tx cfg db (enrollment_tx cfg lb env db)"
  unfolding enrollment_tx_def
  using fleet_invD(2) [OF fleet_okD(1) [of cfg db]]
  by (auto simp: Let_def intro: enrollments_ok db_quiet_rows [of db db])

lemma register_quiet:
  assumes "fleet_ok cfg db"
  shows "quiet_tx cfg db (register_tx lb env r db)"
  unfolding quiet_tx_def
proof (intro allI impI)
  fix n db' assume tx: "register_tx lb env r db = Inr (n, Some db')"
  from tx consider "db' = db"
    | nd en where "db' = db\<lparr>fd_nodes := AList.update (rr_id r) nd (fd_nodes db),
        fd_enrollments := AList.update (lb_digest lb (rr_token r)) en (fd_enrollments db)\<rparr>"
    by (auto simp: register_tx_def Let_def split: if_splits option.splits)
  then show "fleet_ok cfg db' \<and> db_quiet db db'"
  proof cases
    case (2 nd en)
    have "fleet_ok cfg db'" unfolding 2
      using enrollments_ok [OF node_update_ok [OF assms, of "rr_id r" nd],
          of "AList.update (lb_digest lb (rr_token r)) en (fd_enrollments db)"]
        fleet_invD(2) [OF fleet_okD(1) [OF assms]] by simp
    with 2 show ?thesis by (auto intro: db_quiet_rows [of db db])
  qed (use assms in auto)
qed

lemma mapped_quiet:
  assumes "fleet_ok cfg db" and "\<And>j a. same_shape a (g j a) \<and> fa_path (g j a) = fa_path a \<and> fa_upload (g j a) = fa_upload a \<and> fa_error (g j a) = fa_error a"
  shows "fleet_ok cfg (db\<lparr>fd_attempts := map (\<lambda>(j, a). (j, g j a)) (fd_attempts db)\<rparr>) \<and>
    db_quiet db (db\<lparr>fd_attempts := map (\<lambda>(j, a). (j, g j a)) (fd_attempts db)\<rparr>)"
proof -
  have "attempt_quiet a (g j a)" for j a
    using assms(2) [of a j] by (auto simp: attempt_quiet_def attempt_moves_def same_shape_def)
  then show ?thesis
    using assms mapped_inv [of cfg db g] room_mapped [of db cfg g] fleet_invD(5) [of cfg db]
    by (auto simp: fleet_ok_def db_quiet_def intro!: rows_follow_map)
qed

lemma heartbeat_quiet:
  assumes "fleet_ok cfg db"
  shows "quiet_tx cfg db (heartbeat_tx cfg lb env w r db)"
  unfolding quiet_tx_def
proof (intro allI impI)
  fix n db' assume "heartbeat_tx cfg lb env w r db = Inr (n, Some db')"
  then obtain nd where db': "db' = renew_leases cfg w (hb_running r) (fe_clock env 2)
      (db\<lparr>fd_nodes := AList.update w nd (fd_nodes db)\<rparr>)" (is "db' = renew_leases _ _ _ _ ?db")
    by (auto simp: heartbeat_tx_def Let_def split: if_splits option.splits)
  have "fleet_ok cfg db' \<and> db_quiet ?db db'" unfolding db' renew_leases_def
    by (rule mapped_quiet [OF node_update_ok [OF assms]]) (simp add: same_shape_def)
  then show "fleet_ok cfg db' \<and> db_quiet db db'" by (simp add: db_quiet_def)
qed

text \<open>A task and its current attempt change together.\<close>

lemma moved_ok:
  assumes "fleet_ok cfg db" and "map_of (fd_attempts db) j = Some a" and "map_of (fd_tasks db) (fa_task a) = Some t"
    and "ft_current t = Some j"
    and "fa_task a' = fa_task a" and "fa_worker a' = fa_worker a" and "fa_size a' = fa_size a"
    and "fa_path a' = fa_path a" and "fa_upload a' = fa_upload a" and "live_attempt a' \<Longrightarrow> live_attempt a"
    and "ft_identity t' = ft_identity t" and "ft_count t' = ft_count t" and "ft_current t' = ft_current t"
    and "active_task t' \<Longrightarrow> active_task t"
    and "fa_state a' \<in> current_states (ft_state t') \<or>
      fa_state a' \<in> {A_failed, A_expired} \<and> current_states (ft_state t') = {}"
    and "fa_state a' \<noteq> A_running" and "fa_state a' = A_staged \<Longrightarrow> fa_path a \<noteq> []"
  shows "fleet_ok cfg (put_task (fa_task a) t' (put_attempt j a' db))"
proof -
  note inv = fleet_okD(1) [OF assms(1)]
  have a: "attempt_ok cfg db j a" by (rule fleet_invD(6) [OF inv assms(2)])
  have "fleet_inv cfg (put_task (fa_task a) t' (put_attempt j a' db))"
    by (rule moved_inv [OF inv assms(2-4)]) (use a assms in \<open>simp_all add: attempt_ok_def\<close>)
  moreover have "fleet_room cfg (put_attempt j a' db)"
    by (rule room_put [OF fleet_invD(5) [OF inv] assms(2)]) (use assms in \<open>auto simp: fleet_ok_def fleet_room_def\<close>)
  ultimately show ?thesis
    by (simp add: fleet_ok_def room_rows [of "put_task (fa_task a) t' (put_attempt j a' db)" "put_attempt j a' db"])
qed

lemma moved_rows:
  assumes "map_of (fd_attempts db) j = Some a" and "map_of (fd_tasks db) (fa_task a) = Some t"
    and "attempt_quiet a a'" and "task_quiet t t'"
  shows "db_quiet db (put_task (fa_task a) t' (put_attempt j a' db))"
  using assms by (auto simp: db_quiet_def intro!: rows_follow_update)

lemma task_alone_ok:
  assumes "fleet_ok cfg db" and "map_of (fd_tasks db) i = Some t"
    and "ft_identity t' = ft_identity t" and "ft_count t' = ft_count t" and "ft_current t' = ft_current t"
    and "active_task t' \<Longrightarrow> active_task t" and "current_states (ft_state t') = current_states (ft_state t)"
    and "task_quiet t t'"
  shows "fleet_ok cfg (put_task i t' db) \<and> db_quiet db (put_task i t' db)"
  using put_task_inv [OF fleet_okD(1) [OF assms(1)] assms(2-7)] assms
  by (auto simp: fleet_ok_def room_rows [of "put_task i t' db" db] db_quiet_def intro!: rows_follow_update)

lemma report_quiet:
  assumes "fleet_ok cfg db"
  shows "quiet_tx cfg db (report_tx cfg lb env w r db)"
  unfolding quiet_tx_def
proof (intro allI impI)
  fix rc db' assume tx: "report_tx cfg lb env w r db = Inr (rc, Some db')"
  let ?i = "rq_attempt r"
  let ?fail = "\<lambda>a. a\<lparr>fa_state := A_failed, fa_failure := rq_failure r, fa_error := truncate_text lb (rq_message r) 2048,
      fa_trace := cut_trace lb (rq_trace r), fa_updated := fe_clock env 3\<rparr>"
  let ?st = "\<lambda>t. if (rq_failure r = ''invalid_identifier'' \<or> rq_failure r = ''cancelled'') \<or>
      fc_max_attempts cfg \<le> ft_count t \<or> ft_deadline t \<le> fe_clock env 4 then T_failed else T_queued"
  from tx obtain a t where at: "worker_attempt db w ?i = Some (a, t)"
    by (cases "worker_attempt db w ?i") (auto simp: report_tx_def split: if_splits)
  then have rows: "map_of (fd_attempts db) ?i = Some a" "map_of (fd_tasks db) (fa_task a) = Some t"
    by (auto simp: worker_attempt_def split: option.splits if_splits)
  have running: "fa_state a \<in> {A_running, A_uploading}" if "rc_state (scan_receipt ?i a) = ''running''"
    using that by (cases "fa_state a") (simp_all add: scan_receipt_def)
  consider "db' = db"
    | "rc_state (scan_receipt ?i a) = ''running''" "ft_current t = Some ?i"
      "db' = put_task (fa_task a) (t\<lparr>ft_state := ?st t, ft_error := truncate_text lb (rq_message r) 2048,
        ft_updated := fe_clock env 4\<rparr>) (put_attempt ?i (?fail a) db)"
    using tx at unfolding report_tx_def attempt_current_def Let_def option.case prod.case
    by (simp split: if_split_asm)
  then show "fleet_ok cfg db' \<and> db_quiet db db'"
  proof cases
    case 2
    have st: "?st t \<in> {T_failed, T_queued}" by simp
    note a = running [OF 2(1)]
    have "fa_state a \<in> current_states (ft_state t)"
      using task_ok_current [OF fleet_invD(7) [OF fleet_okD(1) [OF assms] rows(2)] rows(1)] a by auto
    with a have t: "ft_state t = T_running" by (cases "ft_state t") auto
    have "fleet_ok cfg db'" unfolding 2(3)
      by (rule moved_ok [OF assms rows 2(2)]) (use st a t in \<open>auto simp: live_attempt_def active_task_def\<close>)
    moreover have "db_quiet db db'" unfolding 2(3)
      by (rule moved_rows [OF rows])
        (use st a t in \<open>auto simp: attempt_quiet_def attempt_moves_def task_quiet_def task_moves_def ended_def\<close>)
    ultimately show ?thesis ..
  qed (use assms in auto)
qed

lemma action_quiet:
  assumes "fleet_ok cfg db"
  shows "quiet_tx cfg db (action_tx env w act db)"
  unfolding quiet_tx_def
proof (intro allI impI)
  fix r db' assume "action_tx env w act db = Inr (r, Some db')"
  then consider n where "db' = db\<lparr>fd_nodes := AList.update w n (fd_nodes db)\<rparr>"
    | n now where "db' = fence_worker w now (db\<lparr>fd_nodes := AList.update w n (fd_nodes db)\<rparr>)"
    by (auto simp: action_tx_def Let_def split: if_splits option.splits)
  then show "fleet_ok cfg db' \<and> db_quiet db db'"
  proof cases
    case (1 n)
    with node_update_ok [OF assms] show ?thesis by (auto intro: db_quiet_rows [of db db])
  next
    case (2 n now)
    let ?db = "db\<lparr>fd_nodes := AList.update w n (fd_nodes db)\<rparr>"
    have "fleet_ok cfg db' \<and> db_quiet ?db db'" unfolding 2 fence_worker_def
      by (rule mapped_quiet [OF node_update_ok [OF assms]]) (simp add: same_shape_def)
    then show ?thesis by (simp add: db_quiet_def)
  qed
qed

section \<open>Assignment\<close>

lemma claimable_SomeD:
  assumes "claimable cfg env w now db = Some (i, t)"
  shows "(i, t) \<in> set (fd_tasks db)" "ft_state t = T_queued" "now < ft_deadline t" "ft_count t < fc_max_attempts cfg"
    "\<not> list_ex (\<lambda>(j, a). fa_task a = i \<and> fa_worker a = w) (fd_attempts db)"
proof -
  from assms have "(i, t) \<in> set (sort_key (\<lambda>(i, t). ft_created t) (filter (\<lambda>(i, t).
             ft_state t = T_queued \<and> now < ft_deadline t \<and> ft_count t < fc_max_attempts cfg \<and>
             \<not> list_ex (\<lambda>(j, a). fa_task a = i \<and> fa_worker a = w) (fd_attempts db) \<and> \<not> fe_locked env i)
           (fd_tasks db)))"
    unfolding claimable_def by (metis (no_types, lifting) list.case_eq_if list.set_intros(1) list.collapse option.distinct(1) option.inject)
  then show "(i, t) \<in> set (fd_tasks db)" "ft_state t = T_queued" "now < ft_deadline t" "ft_count t < fc_max_attempts cfg"
    "\<not> list_ex (\<lambda>(j, a). fa_task a = i \<and> fa_worker a = w) (fd_attempts db)"
    by auto
qed

text \<open>What a round of claims does to the rows: it adds attempts and starts queued tasks.\<close>

definition claim_follows :: "fleet_db \<Rightarrow> fleet_db \<Rightarrow> bool" where
  "claim_follows db db' \<longleftrightarrow>
     rows_follow (=) attempt_new (fd_attempts db) (fd_attempts db') \<and>
     rows_follow task_quiet (\<lambda>_. False) (fd_tasks db) (fd_tasks db') \<and> fd_nodes db' = fd_nodes db \<and>
     (\<forall>j. map_of (fd_attempts db) j \<noteq> None \<longrightarrow> map_of (fd_attempts db') j \<noteq> None) \<and>
     (\<forall>j. map_of (fd_tasks db) j \<noteq> None \<longrightarrow> map_of (fd_tasks db') j \<noteq> None)"

lemma task_quiet_trans:
  assumes "task_quiet t t'" and "task_quiet t' t''"
  shows "task_quiet t t''"
proof -
  have 1: "ft_state t \<in> {T_done, T_failed} \<Longrightarrow> ft_state t' = ft_state t \<and> ft_outcome t' = ft_outcome t"
    "ft_state t' = T_done \<Longrightarrow> ft_state t = T_done"
    using assms(1) unfolding task_quiet_def task_moves_def by blast+
  have 2: "ft_state t' \<in> {T_done, T_failed} \<Longrightarrow> ft_state t'' = ft_state t' \<and> ft_outcome t'' = ft_outcome t'"
    "ft_state t'' = T_done \<Longrightarrow> ft_state t' = T_done"
    using assms(2) unfolding task_quiet_def task_moves_def by blast+
  have 3: "ft_identity t' = ft_identity t" "ft_ref t' = ft_ref t" "ft_count t \<le> ft_count t'"
    using assms(1) unfolding task_quiet_def task_moves_def by blast+
  have 4: "ft_identity t'' = ft_identity t'" "ft_ref t'' = ft_ref t'" "ft_count t' \<le> ft_count t''"
    using assms(2) unfolding task_quiet_def task_moves_def by blast+
  have "ft_identity t'' = ft_identity t" "ft_ref t'' = ft_ref t" "ft_count t \<le> ft_count t''"
    using 3 4 by simp_all
  moreover have "ft_state t'' = ft_state t \<and> ft_outcome t'' = ft_outcome t" if "ft_state t \<in> {T_done, T_failed}"
    using 1(1) [OF that] 2(1) that by simp
  moreover have "ft_state t = T_done" if "ft_state t'' = T_done" by (rule 1(2) [OF 2(2) [OF that]])
  ultimately show ?thesis unfolding task_quiet_def task_moves_def by (iprover intro: conjI impI)
qed

lemma attempt_quiet_trans:
  assumes "attempt_quiet a a'" and "attempt_quiet a' a''"
  shows "attempt_quiet a a''"
proof -
  have 1: "fa_state a' = fa_state a \<or> fa_state a' \<in> {A_failed, A_expired}" "fa_path a' = fa_path a \<or> fa_path a' = [] \<and> ended a'"
    "ended a \<Longrightarrow> fa_state a' = fa_state a \<and> fa_error a' = fa_error a"
    using assms(1) unfolding attempt_quiet_def attempt_moves_def by blast+
  have 2: "fa_state a'' = fa_state a' \<or> fa_state a'' \<in> {A_failed, A_expired}"
    "fa_path a'' = fa_path a' \<or> fa_path a'' = [] \<and> ended a''"
    "ended a' \<Longrightarrow> fa_state a'' = fa_state a' \<and> fa_error a'' = fa_error a'"
    using assms(2) unfolding attempt_quiet_def attempt_moves_def by blast+
  have same: "fa_task a'' = fa_task a" "fa_worker a'' = fa_worker a" "fa_sha a'' = fa_sha a" "fa_size a'' = fa_size a"
    "fa_upload a'' = fa_upload a"
    using assms by (simp_all add: attempt_quiet_def attempt_moves_def)
  have "ended a'" if "ended a" using 1(3) [OF that] that by (simp add: ended_def)
  with 1 2 have "ended a \<longrightarrow> fa_state a'' = fa_state a \<and> fa_error a'' = fa_error a" by simp
  moreover have "fa_state a'' = fa_state a \<or> fa_state a'' \<in> {A_failed, A_expired}" using 1(1) 2(1) by fastforce
  moreover have "ended a''" if "ended a'" using 2(3) [OF that] that by (simp add: ended_def)
  then have "fa_path a'' = fa_path a \<or> fa_path a'' = [] \<and> ended a''" using 1(2) 2(2) by auto
  ultimately show ?thesis using same by (simp add: attempt_quiet_def attempt_moves_def)
qed

lemma claim_follows_trans:
  assumes "claim_follows db db'" and "claim_follows db' db''"
  shows "claim_follows db db''"
  using assms unfolding claim_follows_def
  by (auto intro: rows_follow_trans [of "(=)" attempt_new] rows_follow_trans [of task_quiet "\<lambda>_. False"] task_quiet_trans)

lemma claim_follows_quiet: "claim_follows db db' \<Longrightarrow> db_quiet db db'"
  unfolding claim_follows_def db_quiet_def by (auto elim: rows_follow_mono)

lemma assign_step:
  assumes "fleet_ok cfg db" and "claimable cfg env w now db = Some (i, t)" and "map_of (fd_nodes db) w \<noteq> None"
    and "map_of (fd_attempts db) j = None" and "live_count db < fc_max_in_flight cfg"
    and "live_count_of w db < fc_max_worker_in_flight cfg"
    and db': "db' = put_task i (t\<lparr>ft_state := T_running, ft_current := Some j, ft_count := ft_count t + 1,
      ft_updated := u\<rparr>) (put_attempt j (new_attempt env i w lease deadline) db)"
  shows "fleet_ok cfg db' \<and> claim_follows db db' \<and> live_count db' = live_count db + 1 \<and>
    live_count_of w db' = live_count_of w db + 1"
proof -
  note inv = fleet_okD(1) [OF assms(1)]
  note it = claimable_SomeD [OF assms(2)]
  have row: "map_of (fd_tasks db) i = Some t"
    using it(1) fleet_invD(3) [OF inv] by (simp add: gomap_set_iff)
  have fresh: "\<not> (fa_task b = i \<and> fa_worker b = w)" if "map_of (fd_attempts db) k = Some b" for k b
    using it(5) map_of_SomeD [OF that] by (fastforce simp: list_ex_iff)
  have "fleet_inv cfg db'" unfolding db'
    by (rule assign_inv [OF inv row it(2,4) assms(4,3) fresh]) (simp_all add: new_attempt_def)
  moreover have "live_count db' = live_count db + 1"
    "live_count_of v db' = live_count_of v db + (if v = w then 1 else 0)" "reserved_bytes db' = reserved_bytes db" for v
    unfolding db' live_count_def live_count_of_def reserved_bytes_def
    using fleet_invD(5) [OF inv] assms(4) by (auto simp: asum_update new_attempt_def live_attempt_def)
  moreover have "claim_follows db db'" unfolding db' claim_follows_def
    using row it(2) assms(4)
    by (auto intro!: rows_follow_update simp: attempt_new_def new_attempt_def task_quiet_def task_moves_def gomap_simps)
  ultimately show ?thesis using assms(1,5,6) by (auto simp: fleet_ok_def fleet_room_def)
qed

lemma claim_loop_keeps:
  assumes "claim_loop cfg env w n k out db = Inr (out', db')" and "fleet_ok cfg db" and "map_of (fd_nodes db) w \<noteq> None"
    and "live_count db + int n \<le> fc_max_in_flight cfg" and "live_count_of w db + int n \<le> fc_max_worker_in_flight cfg"
  shows "fleet_ok cfg db' \<and> claim_follows db db' \<and> length out' \<le> length out + n \<and>
    live_count_of w db' = live_count_of w db + int (length out') - int (length out)"
  using assms
proof (induction cfg env w n k out db rule: claim_loop.induct)
  case (1 cfg env w k out db)
  then show ?case by (simp add: claim_follows_def)
next
  case (2 cfg env w n k out db)
  let ?c = "4 + 3 * k"
  show ?case
  proof (cases "claimable cfg env w (fe_clock env ?c) db")
    case None
    with "2.prems"(1,2) show ?thesis by (simp add: Let_def claim_follows_def split: if_splits)
  next
    case (Some it)
    obtain i t where it: "it = (i, t)" by (cases it)
    let ?dl = "min (ft_deadline t) (fe_clock env ?c + interval (fc_worker_timeout cfg))"
    let ?ls = "min (fe_clock env (?c + 1) + interval (fc_lease cfg)) ?dl"
    let ?db = "put_task i (t\<lparr>ft_state := T_running, ft_current := Some (fe_ids env k), ft_count := ft_count t + 1,
      ft_updated := fe_clock env (?c + 2)\<rparr>) (put_attempt (fe_ids env k) (new_attempt env i w ?ls ?dl) db)"
    let ?out = "out @ [\<lparr>as_task = i, as_attempt = fe_ids env k, as_ref = ft_ref t, as_lease_expires = ?ls,
                               as_deadline = ?dl, as_max_pdf = fc_max_pdf cfg\<rparr>]"
    have eq: "?db = db\<lparr>fd_attempts := AList.update (fe_ids env k) (new_attempt env i w ?ls ?dl) (fd_attempts db),
        fd_tasks := AList.update i (t\<lparr>ft_state := T_running, ft_current := Some (fe_ids env k),
          ft_count := ft_count t + 1, ft_updated := fe_clock env (?c + 2)\<rparr>) (fd_tasks db)\<rparr>"
      by (simp add: put_task_def put_attempt_def)
    from "2.prems"(1) Some it have calls: "fe_call env ?c" "calls env [?c + 1, ?c + 2]"
      and new: "map_of (fd_attempts db) (fe_ids env k) = None"
      and rest: "claim_loop cfg env w n (Suc k) ?out ?db = Inr (out', db')"
      unfolding eq by (auto simp: Let_def split: if_splits)
    have step: "fleet_ok cfg ?db \<and> claim_follows db ?db \<and> live_count ?db = live_count db + 1 \<and>
        live_count_of w ?db = live_count_of w db + 1"
      by (rule assign_step [OF "2.prems"(2) Some [unfolded it] "2.prems"(3) new _ _ refl]) (use "2.prems"(4,5) in simp_all)
    have "fleet_ok cfg db' \<and> claim_follows ?db db' \<and> length out' \<le> length ?out + n \<and>
        live_count_of w db' = live_count_of w ?db + int (length out') - int (length ?out)"
    proof (rule "2.IH" [OF refl _ Some it [symmetric] refl refl refl, folded eq])
      show "\<not> \<not> fe_call env ?c" using calls(1) by simp
      show "\<not> (\<not> calls env [?c + 1, ?c + 2] \<or> map_of (fd_attempts db) (fe_ids env k) \<noteq> None)" using calls(2) new by simp
      show "claim_loop cfg env w n (Suc k) ?out ?db = Inr (out', db')" by (rule rest)
      show "fleet_ok cfg ?db" using step by blast
      show "map_of (fd_nodes ?db) w \<noteq> None" using "2.prems"(3) by simp
      show "live_count ?db + int n \<le> fc_max_in_flight cfg" using step "2.prems"(4) by linarith
      show "live_count_of w ?db + int n \<le> fc_max_worker_in_flight cfg" using step "2.prems"(5) by linarith
    qed
    with step show ?thesis by (auto intro: claim_follows_trans)
  qed
qed

lemma claim_quiet:
  assumes "fleet_ok cfg db"
  shows "quiet_tx cfg db (claim_tx cfg env w wanted db)"
  unfolding quiet_tx_def
proof (intro allI impI)
  fix out db' assume "claim_tx cfg env w wanted db = Inr (out, Some db')"
  then obtain n where n: "map_of (fd_nodes db) w = Some n"
    and loop: "claim_loop cfg env w (nat (claim_limit cfg wanted n w db)) 0 [] db = Inr (out, db')"
    by (auto simp: claim_tx_def split: if_splits option.splits sum.splits)
  have room: "live_count db \<le> fc_max_in_flight cfg" "live_count_of w db \<le> fc_max_worker_in_flight cfg"
    using assms by (simp_all add: fleet_ok_def fleet_room_def)
  have "fleet_ok cfg db' \<and> claim_follows db db' \<and> length out \<le> length ([] :: assignment list) + nat (claim_limit cfg wanted n w db) \<and>
      live_count_of w db' = live_count_of w db + int (length out) - int (length ([] :: assignment list))"
  proof (rule claim_loop_keeps [OF loop assms])
    show "map_of (fd_nodes db) w \<noteq> None" using n by simp
    have "claim_limit cfg wanted n w db \<le> fc_max_in_flight cfg - live_count db"
      "claim_limit cfg wanted n w db \<le> fc_max_worker_in_flight cfg - live_count_of w db"
      by (simp_all add: claim_limit_def min.coboundedI1 min.coboundedI2)
    with room show "live_count db + int (nat (claim_limit cfg wanted n w db)) \<le> fc_max_in_flight cfg"
      "live_count_of w db + int (nat (claim_limit cfg wanted n w db)) \<le> fc_max_worker_in_flight cfg" by simp_all
  qed
  with claim_follows_quiet show "fleet_ok cfg db' \<and> db_quiet db db'" by blast
qed

section \<open>Expiry\<close>

definition expire_follows :: "fleet_db \<Rightarrow> fleet_db \<Rightarrow> bool" where
  "expire_follows db db' \<longleftrightarrow>
     rows_follow attempt_quiet (\<lambda>_. False) (fd_attempts db) (fd_attempts db') \<and>
     rows_follow task_quiet (\<lambda>_. False) (fd_tasks db) (fd_tasks db') \<and>
     (\<forall>j. map_of (fd_attempts db) j \<noteq> None \<longrightarrow> map_of (fd_attempts db') j \<noteq> None) \<and>
     (\<forall>j. map_of (fd_tasks db) j \<noteq> None \<longrightarrow> map_of (fd_tasks db') j \<noteq> None)"

lemma expire_follows_trans:
  assumes "expire_follows db db'" and "expire_follows db' db''"
  shows "expire_follows db db''"
  using assms unfolding expire_follows_def
  by (auto intro: rows_follow_trans [of attempt_quiet "\<lambda>_. False"] rows_follow_trans [of task_quiet "\<lambda>_. False"]
      task_quiet_trans attempt_quiet_trans)

lemma expire_follows_quiet: "expire_follows db db' \<Longrightarrow> db_quiet db db'"
  unfolding expire_follows_def db_quiet_def by (auto elim: rows_follow_mono)

lemma expire_task_keeps:
  assumes "fleet_ok cfg db" and "map_of (fd_tasks db) i = Some t" and "active_task t"
    and "expire_task cfg lb env k now (i, t) db = Some db'"
  shows "fleet_ok cfg db' \<and> expire_follows db db' \<and> (\<forall>i'. i' \<noteq> i \<longrightarrow> map_of (fd_tasks db') i' = map_of (fd_tasks db) i')"
proof -
  define st where "st = (if ft_deadline t \<le> fe_clock env (k + 2) \<or> fc_max_attempts cfg \<le> ft_count t \<or> ft_state t = T_staged
    then T_failed else T_queued)"
  let ?msg = "expire_message cfg lb now i t db"
  let ?t = "t\<lparr>ft_state := st, ft_error := ?msg, ft_updated := fe_clock env (k + 2)\<rparr>"
  let ?exp = "\<lambda>a. a\<lparr>fa_state := A_expired, fa_failure := ''timeout'', fa_error := ?msg, fa_updated := fe_clock env (k + 1)\<rparr>"
  have st: "current_states st = {}" "st \<in> {T_failed, T_queued}" by (simp_all add: st_def)
  have tq: "task_quiet t ?t"
    using assms(3) st(2) by (auto simp: task_quiet_def task_moves_def active_task_def)
  note inv = fleet_okD(1) [OF assms(1)]
  show ?thesis
  proof (cases "ft_state t = T_queued")
    case True
    with assms(4) have db': "db' = put_task i ?t db"
      by (auto simp: expire_task_def Let_def st_def split: if_splits)
    have "fleet_ok cfg db'" unfolding db'
      by (rule conjunct1 [OF task_alone_ok [OF assms(1,2)]]) (use True st tq assms(3) in simp_all)
    with tq assms(2) show ?thesis unfolding db' expire_follows_def
      by (auto intro!: rows_follow_update simp: gomap_simps)
  next
    case False
    with assms(3) have "current_states (ft_state t) \<noteq> {}" by (auto simp: active_task_def)
    from task_ok_has [OF fleet_invD(7) [OF inv assms(2)] this] obtain j a where
      a: "ft_current t = Some j" "map_of (fd_attempts db) j = Some a" "fa_task a = i" "fa_state a \<in> current_states (ft_state t)"
      by blast
    from a(4) assms(3) have live: "live_attempt a"
      by (auto simp: active_task_def live_attempt_def)
    from False assms(4) a(1,2) live have db': "db' = put_task (fa_task a) ?t (put_attempt j (?exp a) db)"
      by (auto simp: expire_task_def Let_def st_def a(3) split: if_splits)
    have row: "map_of (fd_tasks db) (fa_task a) = Some t" using assms(2) a(3) by simp
    have "fleet_ok cfg db'" unfolding db'
      by (rule moved_ok [OF assms(1) a(2) row a(1)]) (use st assms(3) in \<open>auto simp: live_attempt_def\<close>)
    moreover have "attempt_quiet a (?exp a)"
      using live by (auto simp: attempt_quiet_def attempt_moves_def ended_def live_attempt_def)
    ultimately show ?thesis using tq row a unfolding db' expire_follows_def
      by (auto intro!: rows_follow_update simp: gomap_simps)
  qed
qed

lemma expire_tasks_keep:
  assumes "fleet_ok cfg db" and "\<And>i t. (i, t) \<in> set its \<Longrightarrow> map_of (fd_tasks db) i = Some t \<and> active_task t"
    and "distinct (map fst its)" and "expire_tasks cfg lb env k now its db = Some db'"
  shows "fleet_ok cfg db' \<and> expire_follows db db'"
  using assms
proof (induction its arbitrary: k db)
  case Nil
  then show ?case by (simp add: expire_follows_def)
next
  case (Cons it its)
  obtain i t where it: "it = (i, t)" by (cases it)
  with Cons.prems(4) obtain db1 where db1: "expire_task cfg lb env k now (i, t) db = Some db1"
    and rest: "expire_tasks cfg lb env (k + 3) now its db1 = Some db'"
    by (auto simp: bind_eq_Some_conv)
  have row: "map_of (fd_tasks db) i = Some t" "active_task t" using Cons.prems(2) it by auto
  note step = expire_task_keeps [OF Cons.prems(1) row db1]
  have "fleet_ok cfg db' \<and> expire_follows db1 db'"
  proof (rule Cons.IH [OF _ _ _ rest])
    show "map_of (fd_tasks db1) i' = Some t' \<and> active_task t'" if "(i', t') \<in> set its" for i' t'
    proof -
      from that Cons.prems(3) it have "i' \<noteq> i" by (force simp: image_iff)
      with step have "map_of (fd_tasks db1) i' = map_of (fd_tasks db) i'" by blast
      with Cons.prems(2) [of i' t'] that show ?thesis by simp
    qed
  qed (use step Cons.prems(3) in simp_all)
  with step expire_follows_trans show ?case by blast
qed

lemma expire_quiet:
  assumes "fleet_ok cfg db"
  shows "quiet_tx cfg db (expire_tx cfg lb env db)"
  unfolding quiet_tx_def
proof (intro allI impI)
  fix r db' assume tx: "expire_tx cfg lb env db = Inr (r, Some db')"
  let ?f = "filter (\<lambda>(i, t). expire_due cfg (fe_clock env 2) db t \<and> \<not> fe_locked env i) (fd_tasks db)"
  let ?due = "take 100 (sort_key (\<lambda>(i, t). ft_created t) ?f)"
  from tx have run: "expire_tasks cfg lb env 3 (fe_clock env 2) ?due db = Some db'"
    by (auto simp: expire_tx_def Let_def split: if_splits option.splits)
  have ok: "gomap_ok (fd_tasks db)" using fleet_invD(3) [OF fleet_okD(1) [OF assms]] .
  have "fleet_ok cfg db' \<and> expire_follows db db'"
  proof (rule expire_tasks_keep [OF assms _ _ run])
    show "map_of (fd_tasks db) i = Some t \<and> active_task t" if "(i, t) \<in> set ?due" for i t
    proof -
      from that have "(i, t) \<in> set ?f" by (auto dest: in_set_takeD)
      with ok show ?thesis by (auto simp: gomap_set_iff expire_due_def active_task_def)
    qed
    have "distinct (map fst ?f)" using gomap_ok_filter [OF ok] by (simp add: gomap_ok_def)
    then have "distinct (map fst (sort_key (\<lambda>(i, t). ft_created t) ?f))"
      by (simp add: distinct_map inj_on_def) blast
    then show "distinct (map fst ?due)" by (simp add: take_map [symmetric])
  qed
  with expire_follows_quiet show "fleet_ok cfg db' \<and> db_quiet db db'" by blast
qed

section \<open>Notes, hooks and retention\<close>

lemma note_task_keeps:
  assumes "fleet_ok cfg db"
  shows "fleet_ok cfg (note_failure_task lb i msg db) \<and> db_quiet db (note_failure_task lb i msg db)"
proof -
  define g where "g = (\<lambda>t :: fleet_task. if ft_current t = Some i \<and> ft_state t = T_staged then t\<lparr>ft_error := truncate_text lb msg 2048\<rparr> else t)"
  have db': "note_failure_task lb i msg db = db\<lparr>fd_tasks := map (\<lambda>(j, t). (j, g t)) (fd_tasks db)\<rparr>" (is "_ = ?db")
    by (simp add: note_failure_task_def g_def)
  note inv = fleet_okD(1) [OF assms]
  have g: "ft_identity (g t) = ft_identity t" "ft_count (g t) = ft_count t" "ft_current (g t) = ft_current t"
    "ft_state (g t) = ft_state t" "active_task (g t) = active_task t" "task_quiet t (g t)" for t
    by (auto simp: g_def active_task_def task_quiet_def task_moves_def)
  have row: "map_of (fd_tasks ?db) j = map_option g (map_of (fd_tasks db) j)" for j
    by (simp add: map_of_map_val [of "\<lambda>_. g"])
  have "task_ok cfg ?db j (g t) \<longleftrightarrow> task_ok cfg db j t" for j t
    by (simp add: task_ok_def attempt_total_def g)
  moreover have "attempt_ok cfg ?db j a \<longleftrightarrow> attempt_ok cfg db j a" for j a
    unfolding attempt_ok_def row by simp
  moreover have "map_of (fd_tasks ?db) j \<noteq> None \<longleftrightarrow> map_of (fd_tasks db) j \<noteq> None" for j
    unfolding row by simp
  moreover have "j = j'" if "map_of (fd_tasks ?db) j = Some t" "map_of (fd_tasks ?db) j' = Some t'"
    "active_task t" "active_task t'" "ft_identity t = ft_identity t'" for j t j' t'
    using that unfolding row by (auto simp: g intro: inv_one_active [OF inv])
  moreover have "task_ok cfg ?db j t" if "map_of (fd_tasks ?db) j = Some t" for j t
  proof -
    from that row obtain t0 where "t = g t0" "map_of (fd_tasks db) j = Some t0" by auto
    with fleet_invD(7) [OF inv] calculation(1) show ?thesis by blast
  qed
  moreover have "gomap_ok (fd_tasks ?db)" using fleet_invD(3) [OF inv] by simp
  moreover have "\<forall>r ad. map_of (fd_admissions ?db) r = Some ad \<longrightarrow> map_of (fd_tasks ?db) (ad_task ad) \<noteq> None"
    using inv unfolding row by (auto simp: fleet_inv_def)
  ultimately have "fleet_inv cfg ?db"
    using inv fleet_invD(1,2,4,5) [OF inv] unfolding fleet_inv_def by simp
  then have "fleet_ok cfg ?db" using assms by (simp add: fleet_ok_def room_rows [of ?db db])
  moreover have "db_quiet db ?db" unfolding db_quiet_def
    by (auto intro!: rows_follow_map [of task_quiet "\<lambda>_. g"] simp: g)
  ultimately show ?thesis unfolding db' ..
qed

lemma put_attempt_keeps:
  assumes "fleet_ok cfg db" and "map_of (fd_attempts db) j = Some a" and "same_shape a a'" and "attempt_quiet a a'"
  shows "fleet_ok cfg (put_attempt j a' db) \<and> db_quiet db (put_attempt j a' db)"
proof -
  note inv = fleet_okD(1) [OF assms(1)]
  have "fleet_room cfg (put_attempt j a' db)"
  proof (rule room_put [OF fleet_invD(5) [OF inv] assms(2) fleet_okD(2) [OF assms(1)]])
    have "0 \<le> fa_size a" using fleet_invD(6) [OF inv assms(2)] by (simp add: attempt_ok_def)
    with assms(1,3) show "reserved_bytes db - (if fa_path a \<noteq> [] then fa_size a else 0) +
        (if fa_path a' \<noteq> [] then fa_size a' else 0) \<le> fc_spool_max cfg"
      by (auto simp: same_shape_def fleet_ok_def fleet_room_def)
  qed (use assms(3) in \<open>auto simp: same_shape_def live_attempt_def\<close>)
  with put_attempt_inv [OF inv assms(2,3)] assms(2,4) show ?thesis
    by (auto simp: fleet_ok_def db_quiet_def intro!: rows_follow_update)
qed

lemma note_attempt_keeps:
  assumes "fleet_ok cfg db"
  shows "fleet_ok cfg (note_failure_attempt lb now i msg db) \<and> db_quiet db (note_failure_attempt lb now i msg db)"
proof (cases "map_of (fd_attempts db) i")
  case (Some a)
  show ?thesis
  proof (cases "fa_state a = A_staged")
    case True
    with Some put_attempt_keeps [OF assms Some, of "a\<lparr>fa_updated := now, fa_error := truncate_text lb msg 2048\<rparr>"]
    show ?thesis by (simp add: note_failure_attempt_def same_shape_def attempt_quiet_def attempt_moves_def ended_def)
  qed (use Some assms in \<open>simp add: note_failure_attempt_def\<close>)
qed (use assms in \<open>simp add: note_failure_attempt_def\<close>)

lemma released_keeps:
  assumes "fleet_ok cfg db"
  shows "fleet_ok cfg (released i db) \<and> db_quiet db (released i db)"
proof (cases "map_of (fd_attempts db) i")
  case (Some a)
  show ?thesis
  proof (cases "ended a")
    case True
    with Some put_attempt_keeps [OF assms Some, of "a\<lparr>fa_path := []\<rparr>"]
    show ?thesis by (auto simp: released_def same_shape_def attempt_quiet_def attempt_moves_def ended_def)
  qed (use Some assms in \<open>simp add: released_def ended_def\<close>)
qed (use assms in \<open>simp add: released_def\<close>)

lemma drop_enrollments_keeps:
  "fleet_ok cfg db \<Longrightarrow> fleet_ok cfg (drop_enrollments now db) \<and> db_quiet db (drop_enrollments now db)"
  using enrollments_ok [of cfg db "filter _ (fd_enrollments db)"] fleet_invD(2) [OF fleet_okD(1), of cfg db]
  by (auto simp: drop_enrollments_def intro: db_quiet_rows [of db db])

lemma drop_nodes_keeps:
  assumes "fleet_ok cfg db"
  shows "fleet_ok cfg (drop_nodes cfg now db) \<and> db_quiet db (drop_nodes cfg now db)"
proof -
  note inv = fleet_okD(1) [OF assms]
  let ?P = "\<lambda>(w, n). \<not> (fn_status n \<in> {N_pending, N_rejected, N_revoked} \<and>
          fn_created n + interval (fc_retention cfg) < now \<and>
          \<not> list_ex (\<lambda>(j, a). fa_worker a = w) (fd_attempts db) \<and>
          \<not> list_ex (\<lambda>(h, en). en_used en = Some w) (fd_enrollments db))"
  have "fleet_inv cfg (db\<lparr>fd_nodes := filter ?P (fd_nodes db)\<rparr>)"
  proof (rule nodes_inv [OF inv])
    show "gomap_ok (filter ?P (fd_nodes db))" using fleet_invD(1) [OF inv] by simp
    show "map_of (filter ?P (fd_nodes db)) (fa_worker a) \<noteq> None" if "map_of (fd_attempts db) j = Some a" for j a
    proof -
      from fleet_invD(6) [OF inv that] obtain n where n: "map_of (fd_nodes db) (fa_worker a) = Some n"
        by (auto simp: attempt_ok_def)
      have "list_ex (\<lambda>(k, b). fa_worker b = fa_worker a) (fd_attempts db)"
        using map_of_SomeD [OF that] by (force simp: list_ex_iff)
      then have "?P (fa_worker a, n)" by simp
      with n have "map_of (filter ?P (fd_nodes db)) (fa_worker a) = Some n"
        using map_of_filter_Some [OF fleet_invD(1) [OF inv], of ?P "fa_worker a" n] by simp
      then show ?thesis by simp
    qed
  qed
  then have "fleet_inv cfg (drop_nodes cfg now db)" by (simp add: drop_nodes_def)
  moreover have "fleet_room cfg (drop_nodes cfg now db) = fleet_room cfg db"
    by (rule room_rows) (simp add: drop_nodes_def)
  ultimately show ?thesis using assms by (auto simp: fleet_ok_def drop_nodes_def intro: db_quiet_rows [of db db])
qed

lemma drop_tasks_keeps:
  assumes "fleet_ok cfg db"
  shows "fleet_ok cfg (drop_tasks cfg now db) \<and> db_quiet db (drop_tasks cfg now db)"
proof -
  note inv = fleet_okD(1) [OF assms]
  define gone where "gone = set (map fst (take 1000 (sort_key (\<lambda>(i, t). ft_updated t)
    (filter (\<lambda>(i, t). task_outlived cfg now db i t) (fd_tasks db)))))"
  have db': "drop_tasks cfg now db = db\<lparr>fd_tasks := filter (\<lambda>(i, t). i \<notin> gone) (fd_tasks db),
            fd_admissions := filter (\<lambda>(r, a). ad_task a \<notin> gone) (fd_admissions db),
            fd_attempts := filter (\<lambda>(j, a). fa_task a \<notin> gone) (fd_attempts db)\<rparr>"
    unfolding drop_tasks_def gone_def Let_def ..
  have "fleet_inv cfg (drop_tasks cfg now db)" unfolding db' by (rule dropped_inv [OF inv])
  moreover have "fleet_room cfg (drop_tasks cfg now db)"
    using room_filter [OF inv fleet_okD(2) [OF assms], of "\<lambda>(j, a). fa_task a \<notin> gone"]
    unfolding db' by (subst room_rows [of _ "db\<lparr>fd_attempts := filter (\<lambda>(j, a). fa_task a \<notin> gone) (fd_attempts db)\<rparr>"]) simp_all
  moreover have "db_quiet db (drop_tasks cfg now db)" unfolding db' db_quiet_def
    using fleet_invD(3,5) [OF inv] by (auto intro!: rows_follow_filter)
  ultimately show ?thesis by (simp add: fleet_ok_def)
qed

section \<open>Uploads\<close>

lemma pdf_path_ne [simp]: "pdf_path cfg i g \<noteq> []"
  by (simp add: pdf_path_def)

text \<open>Generations have one length, so that a path determines the attempt and the generation.\<close>

lemma pdf_path_inj:
  assumes "pdf_path cfg i g = pdf_path cfg j h" and "length g = length h"
  shows "i = j \<and> g = h"
proof -
  from assms(1) have "(i @ ''-'') @ g = (j @ ''-'') @ h" by (simp add: pdf_path_def)
  with assms(2) show ?thesis by simp
qed

lemma update_same: "map_of m k = Some v \<Longrightarrow> AList.update k v m = m"
  by (induction m) auto

lemma put_task_same: "map_of (fd_tasks db) i = Some t \<Longrightarrow> put_task i t db = db"
  by (simp add: put_task_def update_same)

lemma reserve_keeps:
  assumes "fleet_ok cfg db" and "map_of (fd_attempts db) (up_attempt u) = Some a"
    and "map_of (fd_tasks db) (fa_task a) = Some t" and "fa_state a \<in> {A_running, A_uploading}" and "0 \<le> up_size u"
    and tx: "reserve_tx cfg lb env u sha a t db = Inr (r, Some db')"
  obtains a' where "db' = put_attempt (up_attempt u) a' db" and "fleet_ok cfg db'" and "attempt_moves a a'"
    and "attempt_current db (fe_clock env 5) (up_attempt u) a t" and "ft_state t = T_running"
    and "fa_state a' = A_uploading" and "fa_upload a' = fe_ids env 0"
    and "fa_path a' = pdf_path cfg (up_attempt u) (fe_ids env 0)" and "fa_sha a' = sha" and "fa_size a' = up_size u"
    and "r = Upload_Reserved \<lparr>tk_task = fa_task a, tk_attempt = up_attempt u, tk_gen = fe_ids env 0, tk_path = fa_path a',
      tk_sha = sha, tk_size = up_size u\<rparr>"
proof -
  let ?i = "up_attempt u"
  note inv = fleet_okD(1) [OF assms(1)]
  define a' where "a' = a\<lparr>fa_state := A_uploading, fa_sha := sha, fa_size := up_size u, fa_path := pdf_path cfg ?i (fe_ids env 0),
     fa_source := truncate_text lb (if rm_source_url (up_meta u) \<noteq> [] then rm_source_url (up_meta u) else up_source u) 2048,
     fa_strategy := truncate_text lb (if rm_strategy (up_meta u) \<noteq> [] then rm_strategy (up_meta u) else up_strategy u) 128,
     fa_meta := up_meta u, fa_upload := fe_ids env 0,
     fa_lease := (if fa_state a = A_running then min (fe_clock env 5 + interval (fc_upload_timeout cfg)) (ft_deadline t)
                  else fa_lease a),
     fa_updated := fe_clock env 5\<rparr>"
  have sel: "fa_task a' = fa_task a" "fa_worker a' = fa_worker a" "fa_state a' = A_uploading" "fa_sha a' = sha"
    "fa_size a' = up_size u" "fa_path a' = pdf_path cfg ?i (fe_ids env 0)" "fa_upload a' = fe_ids env 0"
    by (simp_all add: a'_def)
  from tx have db': "db' = put_attempt ?i a' db"
    and r: "r = Upload_Reserved \<lparr>tk_task = fa_task a, tk_attempt = ?i, tk_gen = fe_ids env 0, tk_path = fa_path a',
      tk_sha = sha, tk_size = up_size u\<rparr>"
    and cur: "attempt_current db (fe_clock env 5) ?i a t" "ft_state t = T_running"
    and space: "up_size u \<le> fc_spool_max cfg - (reserved_bytes db - (if fa_path a \<noteq> [] then fa_size a else 0))"
    by (simp_all add: reserve_tx_def Let_def a'_def split: if_splits)
  have "fleet_inv cfg (put_task (fa_task a) t (put_attempt ?i a' db))"
    by (rule moved_inv [OF inv assms(2,3)]) (use cur assms(5) sel in \<open>auto simp: attempt_current_def\<close>)
  then have "fleet_inv cfg db'" unfolding db' using assms(3) by (simp add: put_task_same)
  moreover have "fleet_room cfg db'" unfolding db'
    by (rule room_put [OF fleet_invD(5) [OF inv] assms(2) fleet_okD(2) [OF assms(1)]])
      (use assms(4) sel space in \<open>auto simp: live_attempt_def\<close>)
  moreover have "attempt_moves a a'" using assms(4) sel by (auto simp: attempt_moves_def ended_def)
  ultimately show thesis using that [OF db' _ _ cur sel(3,7,6,4,5) r] by (simp add: fleet_ok_def)
qed

lemma staged_keeps:
  assumes "fleet_ok cfg db" and "map_of (fd_attempts db) (tk_attempt k) = Some a" and "tk_task k = fa_task a"
    and "map_of (fd_tasks db) (fa_task a) = Some t" and "fa_state a = A_uploading" and "fa_path a \<noteq> []"
    and "ft_current t = Some (tk_attempt k)"
  shows "fleet_ok cfg (staged_db env k a t db)"
proof -
  have "fa_state a \<in> current_states (ft_state t)"
    using task_ok_current [OF fleet_invD(7) [OF fleet_okD(1) [OF assms(1)] assms(4)] assms(2)] assms(5) by simp
  with assms(5) have "ft_state t = T_running" by (cases "ft_state t") auto
  then show ?thesis unfolding staged_db_def assms(3)
    by (intro moved_ok [OF assms(1,2,4,7)]) (use assms in \<open>auto simp: live_attempt_def active_task_def\<close>)
qed

lemma done_keeps:
  assumes "fleet_ok cfg db" and "map_of (fd_attempts db) i = Some a" and "map_of (fd_tasks db) (fa_task a) = Some t"
    and "fa_state a = A_staged" and "ft_current t = Some i" and "ft_state t = T_staged"
  shows "fleet_ok cfg (done_db env hook i a t out db)"
  unfolding done_db_def
  by (intro moved_ok [OF assms(1-3,5)]) (use assms in \<open>auto simp: live_attempt_def active_task_def\<close>)

lemma reset_keeps:
  assumes "fleet_ok cfg db" and "map_of (fd_attempts db) i = Some a" and "fa_state a = A_uploading"
  shows "fleet_ok cfg (put_attempt i (a\<lparr>fa_path := [], fa_upload := []\<rparr>) db)"
proof -
  note inv = fleet_okD(1) [OF assms(1)]
  have "0 \<le> fa_size a" using fleet_invD(6) [OF inv assms(2)] by (simp add: attempt_ok_def)
  then have "fleet_room cfg (put_attempt i (a\<lparr>fa_path := [], fa_upload := []\<rparr>) db)"
    using fleet_okD(2) [OF assms(1)]
    by (intro room_put [OF fleet_invD(5) [OF inv] assms(2)]) (auto simp: live_attempt_def fleet_room_def)
  moreover have "fleet_inv cfg (put_attempt i (a\<lparr>fa_path := [], fa_upload := []\<rparr>) db)"
    by (rule put_attempt_inv [OF inv assms(2)]) (simp add: same_shape_def assms(3))
  ultimately show ?thesis by (simp add: fleet_ok_def)
qed

end
