(* ===== verification/Fleet_Machine.thy ===== *)
theory Fleet_Machine
  imports Fleet_Tx
begin

text \<open>
  All transactions of the coordinator and the files of its spool directory as one interleaved machine, in which
  a transaction is one step: those that assign work, admit, expire or administer hold one advisory lock, the
  others lock the row of the task before that of the attempt. What code keeps between two transactions (the
  ticket of an upload, a path that maintenance has selected) is part of the state, and is never forgotten: a
  crash is a run in which it is not used again.
\<close>

section \<open>Steps\<close>

inductive table_step :: "fleet_config \<Rightarrow> fleet_libs \<Rightarrow> fleet_db \<Rightarrow> fleet_db \<Rightarrow> bool" for cfg lb db where
  Enqueue: "table_step cfg lb db (snd (transact env db (enqueue_tx cfg env rq key ref db)))"
| Enroll: "table_step cfg lb db (snd (transact env db (enrollment_tx cfg lb env db)))"
| Register: "table_step cfg lb db (snd (transact env db (register_tx lb env rr db)))"
| Heartbeat: "table_step cfg lb db (snd (transact env db (heartbeat_tx cfg lb env w hb db)))"
| Claim: "table_step cfg lb db (snd (transact env db (claim_tx cfg env w wanted db)))"
| Report: "table_step cfg lb db (snd (transact env db (report_tx cfg lb env w rep db)))"
| Action: "table_step cfg lb db (snd (transact env db (action_tx env w act db)))"
| Expire: "table_step cfg lb db (snd (transact env db (expire_tx cfg lb env db)))"
| Note_task: "table_step cfg lb db (note_failure_task lb i msg db)"
| Note_attempt: "table_step cfg lb db (note_failure_attempt lb now i msg db)"
| Drop_enrollments: "table_step cfg lb db (drop_enrollments now db)"
| Drop_tasks: "table_step cfg lb db (drop_tasks cfg now db)"
| Drop_nodes: "table_step cfg lb db (drop_nodes cfg now db)"

text \<open>
  The coordinator with the tickets of uploads, the generations that have been drawn, and the paths that have
  been selected for removal.
\<close>

record fleet_machine =
  fm_fleet :: fleet
  fm_tickets :: "ticket set"
  fm_used :: "string set"
  fm_dead :: "string set"

definition init_machine :: fleet_machine where
  "init_machine =
     \<lparr>fm_fleet = \<lparr>fs_db = empty_fleet_db, fs_files = (\<lambda>_. None), fs_archive = [], fs_hooks = []\<rparr>,
      fm_tickets = {}, fm_used = {}, fm_dead = {}\<rparr>"

fun tickets_of :: "fleet_error + upload_start \<Rightarrow> ticket set" where
  "tickets_of (Inr (Upload_Reserved k)) = {k}"
| "tickets_of r = {}"

fun path_of :: "fleet_error + string option \<Rightarrow> string set" where
  "path_of (Inr (Some path)) = {path}"
| "path_of r = {}"

inductive fleet_step :: "fleet_config \<Rightarrow> fleet_libs \<Rightarrow> fleet_machine \<Rightarrow> fleet_machine \<Rightarrow> bool" for cfg lb m where
  Table: "table_step cfg lb (fs_db (fm_fleet m)) db' \<Longrightarrow> fleet_step cfg lb m (m\<lparr>fm_fleet := fm_fleet m\<lparr>fs_db := db'\<rparr>\<rparr>)"
| Hook: "fleet_step cfg lb m (m\<lparr>fm_fleet := snd (deliver_hook lb env failure (fm_fleet m))\<rparr>)"
| Reserve: "upload_reserve cfg lb env rm_ok w u (fm_fleet m) = (r, s') \<Longrightarrow> length (fe_ids env 0) = 48 \<Longrightarrow>
    fe_ids env 0 \<notin> fm_used m \<Longrightarrow>
    fleet_step cfg lb m (m\<lparr>fm_fleet := s', fm_tickets := fm_tickets m \<union> tickets_of r,
      fm_used := insert (fe_ids env 0) (fm_used m)\<rparr>)"
| Stream: "k \<in> fm_tickets m \<Longrightarrow> fleet_step cfg lb m (m\<lparr>fm_fleet := snd (stream_stage lb env io k (fm_fleet m))\<rparr>)"
| Reset: "k \<in> fm_tickets m \<Longrightarrow> fleet_step cfg lb m (m\<lparr>fm_fleet := snd (reset_transfer env rm_ok k (fm_fleet m))\<rparr>)"
| Commit: "commit_archive cfg lb env cio i (fm_fleet m) = (c, s') \<Longrightarrow>
    fleet_step cfg lb m (m\<lparr>fm_fleet := s', fm_dead := fm_dead m \<union> path_of c\<rparr>)"
| Select_ended: "map_of (fd_attempts (fs_db (fm_fleet m))) i = Some a \<Longrightarrow> ended a \<Longrightarrow> fa_path a \<noteq> [] \<Longrightarrow>
    fleet_step cfg lb m (m\<lparr>fm_dead := insert (fa_path a) (fm_dead m)\<rparr>)"
| Select_orphan: "orphan cfg now (fm_fleet m) path \<Longrightarrow> fleet_step cfg lb m (m\<lparr>fm_dead := insert path (fm_dead m)\<rparr>)"
| Clean: "path \<in> fm_dead m \<Longrightarrow> fleet_step cfg lb m (m\<lparr>fm_fleet := snd (clean_file cfg env rm_ok i path (fm_fleet m))\<rparr>)"
| Unlink: "path \<in> fm_dead m \<Longrightarrow> fleet_step cfg lb m (m\<lparr>fm_fleet := remove_file path (fm_fleet m)\<rparr>)"

definition fleet_run :: "fleet_config \<Rightarrow> fleet_libs \<Rightarrow> fleet_machine \<Rightarrow> fleet_machine \<Rightarrow> bool" where
  "fleet_run cfg lb = (fleet_step cfg lb)\<^sup>*\<^sup>*"

lemma table_step_quiet:
  assumes "table_step cfg lb db db'" and "fleet_validate cfg = None" and "fleet_ok cfg db"
  shows "fleet_ok cfg db' \<and> db_quiet db db'"
  using assms
  by cases (simp_all add: transact_quiet enqueue_quiet enrollment_quiet register_quiet heartbeat_quiet claim_quiet
      report_quiet action_quiet expire_quiet note_task_keeps note_attempt_keeps drop_enrollments_keeps
      drop_tasks_keeps drop_nodes_keeps)

section \<open>The invariant of the machine\<close>

definition gen_path :: "fleet_config \<Rightarrow> string set \<Rightarrow> string \<Rightarrow> bool" where
  "gen_path cfg U p \<longleftrightarrow> (\<exists>i g. p = pdf_path cfg i g \<and> g \<in> U \<and> length g = 48)"

definition upload_ok :: "string set \<Rightarrow> fleet_attempt \<Rightarrow> bool" where
  "upload_ok U a \<longleftrightarrow> (fa_upload a \<noteq> [] \<longrightarrow> fa_upload a \<in> U \<and> length (fa_upload a) = 48) \<and> (fa_path a \<noteq> [] \<longrightarrow> fa_upload a \<noteq> [])"

definition ticket_ok :: "fleet_config \<Rightarrow> string set \<Rightarrow> fleet_db \<Rightarrow> ticket \<Rightarrow> bool" where
  "ticket_ok cfg U db k \<longleftrightarrow>
     length (tk_gen k) = 48 \<and> tk_gen k \<in> U \<and> tk_path k = pdf_path cfg (tk_attempt k) (tk_gen k) \<and>
     (\<forall>a. map_of (fd_attempts db) (tk_attempt k) = Some a \<longrightarrow> fa_upload a = tk_gen k \<longrightarrow> fa_state a = A_uploading \<longrightarrow>
        fa_task a = tk_task k \<and> fa_path a = tk_path k \<and> fa_sha a = tk_sha k \<and> fa_size a = tk_size k)"

definition dead_ok :: "fleet_config \<Rightarrow> string set \<Rightarrow> fleet_db \<Rightarrow> string \<Rightarrow> bool" where
  "dead_ok cfg U db p \<longleftrightarrow>
     gen_path cfg U p \<and> (\<forall>j a. map_of (fd_attempts db) j = Some a \<longrightarrow> live_attempt a \<longrightarrow> fa_path a \<noteq> p)"

definition genuine :: "fleet_libs \<Rightarrow> string \<Rightarrow> string \<Rightarrow> int \<Rightarrow> bool" where
  "genuine lb body sha n \<longleftrightarrow> int (length body) = n \<and> lb_sha lb body = sha \<and> valid_pdf body"

definition staged_file :: "fleet_libs \<Rightarrow> fleet \<Rightarrow> fleet_attempt \<Rightarrow> bool" where
  "staged_file lb s a \<longleftrightarrow>
     (case fs_files s (fa_path a) of None \<Rightarrow> False | Some (body, _) \<Rightarrow> genuine lb body (fa_sha a) (fa_size a))"

text \<open>What the archive was given for a task and a result.\<close>

definition archived_for :: "fleet_libs \<Rightarrow> fleet \<Rightarrow> string \<Rightarrow> string \<Rightarrow> int \<Rightarrow> bool" where
  "archived_for lb s task sha n \<longleftrightarrow>
     (\<exists>ref out body. (ref, out, body) \<in> set (fs_archive s) \<and> fo_task out = task \<and> fo_sha out = sha \<and>
        fo_size out = n \<and> genuine lb body sha n)"

definition outcome_archived :: "fleet_libs \<Rightarrow> fleet \<Rightarrow> string \<Rightarrow> fleet_task \<Rightarrow> bool" where
  "outcome_archived lb s i t \<longleftrightarrow>
     (\<exists>out body. (ft_ref t, out, body) \<in> set (fs_archive s) \<and> ft_outcome t = Some (out\<lparr>fo_archived := True\<rparr>) \<and>
        fo_task out = i \<and> genuine lb body (fo_sha out) (fo_size out))"

lemma fleet_parts [simp]:
  "staged_file lb (s\<lparr>fs_db := db\<rparr>) a = staged_file lb s a" "staged_file lb (s\<lparr>fs_archive := x\<rparr>) a = staged_file lb s a"
  "archived_for lb (s\<lparr>fs_db := db\<rparr>) j h n = archived_for lb s j h n"
  "archived_for lb (s\<lparr>fs_files := f\<rparr>) j h n = archived_for lb s j h n"
  "outcome_archived lb (s\<lparr>fs_db := db\<rparr>) i t = outcome_archived lb s i t"
  "outcome_archived lb (s\<lparr>fs_files := f\<rparr>) i t = outcome_archived lb s i t"
  "archived_for lb (remove_file p s) j h n = archived_for lb s j h n"
  "outcome_archived lb (remove_file p s) i t = outcome_archived lb s i t"
  "fs_db (remove_file p s) = fs_db s"
  by (simp_all add: staged_file_def archived_for_def outcome_archived_def remove_file_def)

definition fleet_machine_inv :: "fleet_config \<Rightarrow> fleet_libs \<Rightarrow> fleet_machine \<Rightarrow> bool" where
  "fleet_machine_inv cfg lb m \<longleftrightarrow>
     (let s = fm_fleet m; db = fs_db s; U = fm_used m in
      fleet_ok cfg db \<and>
      (\<forall>p. fs_files s p \<noteq> None \<longrightarrow> gen_path cfg U p) \<and>
      (\<forall>j a. map_of (fd_attempts db) j = Some a \<longrightarrow> upload_ok U a) \<and>
      (\<forall>k \<in> fm_tickets m. ticket_ok cfg U db k) \<and>
      (\<forall>p \<in> fm_dead m. dead_ok cfg U db p) \<and>
      (\<forall>j a. map_of (fd_attempts db) j = Some a \<longrightarrow> fa_state a = A_staged \<longrightarrow> staged_file lb s a) \<and>
      (\<forall>j a. map_of (fd_attempts db) j = Some a \<longrightarrow> fa_state a = A_done \<longrightarrow>
         archived_for lb s (fa_task a) (fa_sha a) (fa_size a)) \<and>
      (\<forall>i t. map_of (fd_tasks db) i = Some t \<longrightarrow> ft_state t = T_done \<longrightarrow> outcome_archived lb s i t))"

lemma fleet_machine_invD:
  assumes "fleet_machine_inv cfg lb m"
  shows "fleet_ok cfg (fs_db (fm_fleet m))"
    "fs_files (fm_fleet m) p \<noteq> None \<Longrightarrow> gen_path cfg (fm_used m) p"
    "map_of (fd_attempts (fs_db (fm_fleet m))) j = Some a \<Longrightarrow> upload_ok (fm_used m) a"
    "k \<in> fm_tickets m \<Longrightarrow> ticket_ok cfg (fm_used m) (fs_db (fm_fleet m)) k"
    "p \<in> fm_dead m \<Longrightarrow> dead_ok cfg (fm_used m) (fs_db (fm_fleet m)) p"
    "map_of (fd_attempts (fs_db (fm_fleet m))) j = Some a \<Longrightarrow> fa_state a = A_staged \<Longrightarrow> staged_file lb (fm_fleet m) a"
    "map_of (fd_attempts (fs_db (fm_fleet m))) j = Some a \<Longrightarrow> fa_state a = A_done \<Longrightarrow>
       archived_for lb (fm_fleet m) (fa_task a) (fa_sha a) (fa_size a)"
    "map_of (fd_tasks (fs_db (fm_fleet m))) i = Some t \<Longrightarrow> ft_state t = T_done \<Longrightarrow> outcome_archived lb (fm_fleet m) i t"
  using assms by (simp_all add: fleet_machine_inv_def Let_def)

lemma fleet_machine_invI:
  assumes "fleet_ok cfg (fs_db (fm_fleet m))"
    and "\<And>p. fs_files (fm_fleet m) p \<noteq> None \<Longrightarrow> gen_path cfg (fm_used m) p"
    and "\<And>j a. map_of (fd_attempts (fs_db (fm_fleet m))) j = Some a \<Longrightarrow> upload_ok (fm_used m) a"
    and "\<And>k. k \<in> fm_tickets m \<Longrightarrow> ticket_ok cfg (fm_used m) (fs_db (fm_fleet m)) k"
    and "\<And>p. p \<in> fm_dead m \<Longrightarrow> dead_ok cfg (fm_used m) (fs_db (fm_fleet m)) p"
    and "\<And>j a. map_of (fd_attempts (fs_db (fm_fleet m))) j = Some a \<Longrightarrow> fa_state a = A_staged \<Longrightarrow>
           staged_file lb (fm_fleet m) a"
    and "\<And>j a. map_of (fd_attempts (fs_db (fm_fleet m))) j = Some a \<Longrightarrow> fa_state a = A_done \<Longrightarrow>
           archived_for lb (fm_fleet m) (fa_task a) (fa_sha a) (fa_size a)"
    and "\<And>i t. map_of (fd_tasks (fs_db (fm_fleet m))) i = Some t \<Longrightarrow> ft_state t = T_done \<Longrightarrow>
           outcome_archived lb (fm_fleet m) i t"
  shows "fleet_machine_inv cfg lb m"
  using assms by (simp add: fleet_machine_inv_def Let_def)

lemma init_machine_inv: "fleet_validate cfg = None \<Longrightarrow> fleet_machine_inv cfg lb init_machine"
  using validate_bounds [of cfg]
  by (auto simp: fleet_machine_inv_def init_machine_def empty_fleet_db_def fleet_ok_def fleet_inv_def fleet_room_def
      live_count_def live_count_of_def reserved_bytes_def)

lemma row_follows:
  assumes "rows_follow R new m m'" and "map_of m' k = Some v'"
  obtains v where "map_of m k = Some v" and "R v v'" | "map_of m k = None" and "new v'"
  using assms unfolding rows_follow_def by (cases "map_of m k") fastforce+

lemma attempt_path:
  assumes "fleet_machine_inv cfg lb m" and "map_of (fd_attempts (fs_db (fm_fleet m))) j = Some a" and "fa_path a \<noteq> []"
  shows "fa_path a = pdf_path cfg j (fa_upload a)" "length (fa_upload a) = 48" "fa_upload a \<in> fm_used m"
  using fleet_invD(6) [OF fleet_okD(1) [OF fleet_machine_invD(1) [OF assms(1)]] assms(2)] fleet_machine_invD(3) [OF assms(1,2)] assms(3)
  by (auto simp: attempt_ok_def upload_ok_def)

lemma paths_distinct:
  assumes "fleet_machine_inv cfg lb m" and "map_of (fd_attempts (fs_db (fm_fleet m))) j = Some a"
    and "map_of (fd_attempts (fs_db (fm_fleet m))) j' = Some a'" and "fa_path a = fa_path a'" and "fa_path a \<noteq> []"
  shows "j = j'"
proof -
  have "pdf_path cfg j (fa_upload a) = pdf_path cfg j' (fa_upload a')" "length (fa_upload a) = length (fa_upload a')"
    using attempt_path [OF assms(1,2)] attempt_path [OF assms(1,3)] assms(4,5) by simp_all
  from pdf_path_inj [OF this] show ?thesis ..
qed

lemma gen_path_ne: "gen_path cfg U p \<Longrightarrow> p \<noteq> []"
  by (auto simp: gen_path_def)

section \<open>Steps keep the invariant\<close>

text \<open>A quiet change of the tables, with files and archive as they are.\<close>

lemma quiet_machine:
  assumes "fleet_machine_inv cfg lb m" and "fleet_ok cfg (fs_db s)" and "db_quiet (fs_db (fm_fleet m)) (fs_db s)"
    and "fs_files s = fs_files (fm_fleet m)" and "fs_archive s = fs_archive (fm_fleet m)"
  shows "fleet_machine_inv cfg lb (m\<lparr>fm_fleet := s\<rparr>)"
proof -
  note inv = fleet_machine_invD [OF assms(1)]
  let ?db = "fs_db (fm_fleet m)"
  have att: "rows_follow attempt_quiet attempt_new (fd_attempts ?db) (fd_attempts (fs_db s))"
    and tsk: "rows_follow task_quiet task_new (fd_tasks ?db) (fd_tasks (fs_db s))"
    using assms(3) by (simp_all add: db_quiet_def)
  have upload: "upload_ok (fm_used m) a'" if "map_of (fd_attempts (fs_db s)) j = Some a'" for j a'
    using att that
  proof (cases rule: row_follows)
    case (1 a)
    then have "fa_upload a' = fa_upload a" "fa_path a' = fa_path a \<or> fa_path a' = []"
      unfolding attempt_quiet_def by blast+
    with inv(3) [OF 1(1)] show ?thesis by (auto simp: upload_ok_def)
  qed (simp add: upload_ok_def attempt_new_def)
  have live: "\<exists>a. map_of (fd_attempts ?db) j = Some a \<and> fa_state a = fa_state a' \<and> fa_path a = fa_path a' \<and>
      attempt_quiet a a'" if "map_of (fd_attempts (fs_db s)) j = Some a'" "live_attempt a'" "fa_path a' \<noteq> []" for j a'
    using att that(1)
  proof (cases rule: row_follows)
    case (1 a)
    then have "fa_state a' = fa_state a \<or> fa_state a' \<in> {A_failed, A_expired}" "fa_path a' = fa_path a \<or> fa_path a' = []"
      unfolding attempt_quiet_def by blast+
    with 1 that(2,3) show ?thesis by (auto simp: live_attempt_def)
  qed (use that(3) in \<open>simp add: attempt_new_def\<close>)
  have ticket: "ticket_ok cfg (fm_used m) (fs_db s) k" if "k \<in> fm_tickets m" for k
  proof -
    note k = inv(4) [OF that]
    have "fa_task a' = tk_task k \<and> fa_path a' = tk_path k \<and> fa_sha a' = tk_sha k \<and> fa_size a' = tk_size k"
      if a': "map_of (fd_attempts (fs_db s)) (tk_attempt k) = Some a'" "fa_upload a' = tk_gen k" "fa_state a' = A_uploading"
      for a'
      using att a'(1)
    proof (cases rule: row_follows)
      case (1 a)
      then have q: "fa_task a' = fa_task a" "fa_sha a' = fa_sha a" "fa_size a' = fa_size a" "fa_upload a' = fa_upload a"
        "fa_state a' = fa_state a" "fa_path a' = fa_path a"
        using a'(3) by (auto simp: attempt_quiet_def attempt_moves_def ended_def)
      with k 1(1) a' show ?thesis by (auto simp: ticket_ok_def)
    next
      case 2
      with a' k show ?thesis by (auto simp: attempt_new_def ticket_ok_def)
    qed
    with k show ?thesis by (auto simp: ticket_ok_def)
  qed
  have dead: "dead_ok cfg (fm_used m) (fs_db s) p" if "p \<in> fm_dead m" for p
  proof -
    note p = inv(5) [OF that]
    then have "p \<noteq> []" by (auto simp: dead_ok_def dest: gen_path_ne)
    with p live show ?thesis by (fastforce simp: dead_ok_def live_attempt_def)
  qed
  have staged: "staged_file lb s a'" if "map_of (fd_attempts (fs_db s)) j = Some a'" "fa_state a' = A_staged" for j a'
  proof -
    have "fa_path a' \<noteq> []" using fleet_invD(6) [OF fleet_okD(1) [OF assms(2)] that(1)] that(2) by (simp add: attempt_ok_def)
    with live [OF that(1)] that(2) obtain a where a: "map_of (fd_attempts ?db) j = Some a" "fa_state a = A_staged"
      "fa_path a = fa_path a'" "attempt_quiet a a'" by (auto simp: live_attempt_def)
    then have "fa_sha a' = fa_sha a" "fa_size a' = fa_size a" unfolding attempt_quiet_def by blast+
    with inv(6) [OF a(1,2)] a(3) assms(4) show ?thesis by (auto simp: staged_file_def split: option.splits)
  qed
  have archived: "archived_for lb s (fa_task a') (fa_sha a') (fa_size a')"
    if "map_of (fd_attempts (fs_db s)) j = Some a'" "fa_state a' = A_done" for j a'
    using att that(1)
  proof (cases rule: row_follows)
    case (1 a)
    then have "fa_state a = A_done" "fa_task a' = fa_task a" "fa_sha a' = fa_sha a" "fa_size a' = fa_size a"
      using that(2) by (auto simp: attempt_quiet_def attempt_moves_def)
    with inv(7) [OF 1(1)] assms(5) show ?thesis by (simp add: archived_for_def)
  next
    case 2
    with that(2) show ?thesis by (simp add: attempt_new_def)
  qed
  have out: "outcome_archived lb s i t'" if "map_of (fd_tasks (fs_db s)) i = Some t'" "ft_state t' = T_done" for i t'
    using tsk that(1)
  proof (cases rule: row_follows)
    case (1 t)
    then have t: "ft_state t = T_done" using that(2) unfolding task_quiet_def by blast
    with 1(2) have "ft_ref t' = ft_ref t" "ft_outcome t' = ft_outcome t" unfolding task_quiet_def task_moves_def by blast+
    with inv(8) [OF 1(1) t] assms(5) show ?thesis by (simp add: outcome_archived_def)
  next
    case 2
    with that(2) show ?thesis by (simp add: task_new_def)
  qed
  show ?thesis
    by (rule fleet_machine_invI) (use assms(2,4) inv(2) upload ticket dead staged archived out in simp_all)
qed

text \<open>The removal of a file to which no staged attempt refers.\<close>

lemma remove_machine:
  assumes "fleet_machine_inv cfg lb m"
    and "\<And>j a. map_of (fd_attempts (fs_db (fm_fleet m))) j = Some a \<Longrightarrow> fa_state a = A_staged \<Longrightarrow> fa_path a \<noteq> p"
  shows "fleet_machine_inv cfg lb (m\<lparr>fm_fleet := remove_file p (fm_fleet m)\<rparr>)"
proof -
  note inv = fleet_machine_invD [OF assms(1)]
  have "staged_file lb (remove_file p (fm_fleet m)) a"
    if "map_of (fd_attempts (fs_db (fm_fleet m))) j = Some a" "fa_state a = A_staged" for j a
    using inv(6) [OF that] assms(2) [OF that] by (simp add: staged_file_def remove_file_def)
  then show ?thesis
    using inv by (intro fleet_machine_invI) (auto simp: remove_file_def archived_for_def outcome_archived_def split: if_splits)
qed

lemma dead_not_staged:
  assumes "fleet_machine_inv cfg lb m" and "p \<in> fm_dead m" and "map_of (fd_attempts (fs_db (fm_fleet m))) j = Some a"
    and "fa_state a = A_staged"
  shows "fa_path a \<noteq> p"
  using fleet_machine_invD(5) [OF assms(1,2)] assms(3,4) by (auto simp: dead_ok_def live_attempt_def)

text \<open>The reservation of an upload.\<close>

lemma upload_reserve_cases:
  assumes "upload_reserve cfg lb env rm_ok w u s = (r, s')"
  obtains "s' = s" and "tickets_of r = {}"
  | a t s1 where "worker_attempt (fs_db s) w (up_attempt u) = Some (a, t)" and "fa_state a \<in> {A_running, A_uploading}"
      and "min_pdf_bytes \<le> up_size u" and "s1 = s \<or> fa_path a \<noteq> [] \<and> s1 = remove_file (fa_path a) s"
      and "put_db s1 (transact env (fs_db s)
        (reserve_tx cfg lb env u (to_lower (lb_lower lb) (up_sha u)) a t (fs_db s))) = (r, s')"
proof -
  let ?W = "worker_attempt (fs_db s) w (up_attempt u)"
  have same: "s' = s \<and> tickets_of r = {}"
    if "(Inl e, s) = (r, s') \<or> put_db s (transact env (fs_db s) (Inr (Upload_Known rc, Some (fs_db s)))) = (r, s')" for e rc
    using that by (auto simp: put_db_def transact_def split: commit_outcome.splits)
  show thesis
  proof (cases ?W)
    case None
    with assms same that(1) show thesis by (auto simp: upload_reserve_def Let_def split: if_splits)
  next
    case (Some at)
    obtain a t where at: "at = (a, t)" by (cases at)
    show thesis
    proof (cases "result_identity lb (ft_ref t) (up_meta u)")
      case (Inl e)
      with Some at assms same that(1) show thesis by (auto simp: upload_reserve_def Let_def split: if_splits)
    next
      case (Inr x)
      note defs = assms [unfolded upload_reserve_def Let_def Some at option.case prod.case Inr sum.case]
      show thesis
      proof (cases "fa_state a \<in> {A_running, A_uploading}")
        case False
        with defs have "(\<exists>e. (Inl e, s) = (r, s')) \<or>
            put_db s (transact env (fs_db s) (Inr (Upload_Known (scan_receipt (up_attempt u) a), Some (fs_db s)))) = (r, s')"
          by (auto split: if_split_asm)
        with same that(1) show thesis by blast
      next
        case True
        then have "fa_state a \<notin> {A_done, A_staged}" by auto
        with defs True have "(\<exists>e. (Inl e, s) = (r, s')) \<or>
            min_pdf_bytes \<le> up_size u \<and>
            put_db (if fa_path a \<noteq> [] then remove_file (fa_path a) s else s) (transact env (fs_db s)
              (reserve_tx cfg lb env u (to_lower (lb_lower lb) (up_sha u)) a t (fs_db s))) = (r, s')"
          by (auto split: if_split_asm)
        with same that(1) that(2) [OF Some [unfolded at] True] show thesis by (auto split: if_split_asm)
      qed
    qed
  qed
qed

lemma worker_attempt_SomeD:
  assumes "worker_attempt db w i = Some (a, t)"
  shows "map_of (fd_attempts db) i = Some a" "map_of (fd_tasks db) (fa_task a) = Some t" "fa_worker a = w"
  using assms by (auto simp: worker_attempt_def split: option.splits if_splits)

lemma remove_own:
  assumes "fleet_machine_inv cfg lb m" and "map_of (fd_attempts (fs_db (fm_fleet m))) i = Some a" and "fa_state a \<noteq> A_staged"
    and "fa_path a \<noteq> []"
  shows "fleet_machine_inv cfg lb (m\<lparr>fm_fleet := remove_file (fa_path a) (fm_fleet m)\<rparr>)"
proof (rule remove_machine [OF assms(1)])
  show "fa_path b \<noteq> fa_path a" if "map_of (fd_attempts (fs_db (fm_fleet m))) j = Some b" "fa_state b = A_staged" for j b
  proof
    assume "fa_path b = fa_path a"
    with paths_distinct [OF assms(1) that(1) assms(2)] assms(4) have "j = i" by simp
    with that assms(2,3) show False by simp
  qed
qed

text \<open>An attempt that takes a new generation for its upload.\<close>

lemma reserved_machine:
  assumes "fleet_machine_inv cfg lb m" and "map_of (fd_attempts (fs_db (fm_fleet m))) i = Some a" and "fa_state a \<in> {A_running, A_uploading}"
    and "fleet_ok cfg (put_attempt i a' (fs_db (fm_fleet m)))" and "g \<notin> fm_used m" and "length g = 48"
    and "fa_state a' = A_uploading" and "fa_upload a' = g" and "fa_path a' = pdf_path cfg i g"
    and "T = {} \<or> T = {\<lparr>tk_task = fa_task a', tk_attempt = i, tk_gen = g, tk_path = fa_path a', tk_sha = fa_sha a', tk_size = fa_size a'\<rparr>}"
  shows "fleet_machine_inv cfg lb (m\<lparr>fm_fleet := (fm_fleet m)\<lparr>fs_db := put_attempt i a' (fs_db (fm_fleet m))\<rparr>,
    fm_tickets := fm_tickets m \<union> T, fm_used := insert g (fm_used m)\<rparr>)" (is "fleet_machine_inv cfg lb ?m")
proof -
  note inv = fleet_machine_invD [OF assms(1)]
  have gen: "gen_path cfg (fm_used ?m) p" if "gen_path cfg (fm_used m) p" for p
    using that by (auto simp: gen_path_def)
  have "ticket_ok cfg (fm_used ?m) (fs_db (fm_fleet ?m)) k" if "k \<in> fm_tickets ?m" for k
  proof (cases "k \<in> fm_tickets m")
    case True
    with inv(4) [OF True] assms(5,8) show ?thesis by (auto simp: ticket_ok_def gomap_simps)
  next
    case False
    with that assms(10) have "k = \<lparr>tk_task = fa_task a', tk_attempt = i, tk_gen = g, tk_path = fa_path a', tk_sha = fa_sha a',
        tk_size = fa_size a'\<rparr>" by auto
    with assms(6,9) show ?thesis by (simp add: ticket_ok_def gomap_simps)
  qed
  moreover have "dead_ok cfg (fm_used ?m) (fs_db (fm_fleet ?m)) p" if "p \<in> fm_dead ?m" for p
  proof -
    from that inv(5) have p: "dead_ok cfg (fm_used m) (fs_db (fm_fleet m)) p" by simp
    then have "p \<noteq> pdf_path cfg i g"
      using assms(5,6) by (auto simp: dead_ok_def gen_path_def dest: pdf_path_inj)
    with p gen assms(9) show ?thesis by (auto simp: dead_ok_def gomap_simps)
  qed
  ultimately show ?thesis
    using inv(2,3,6,7,8) gen assms(4,6-8)
    by (intro fleet_machine_invI) (auto simp: gomap_simps upload_ok_def staged_file_def archived_for_def outcome_archived_def
        split: if_splits)
qed

lemma draw_machine:
  assumes "fleet_machine_inv cfg lb m"
  shows "fleet_machine_inv cfg lb (m\<lparr>fm_used := insert g (fm_used m)\<rparr>)"
proof -
  have "gen_path cfg (insert g U) p" if "gen_path cfg U p" for U p using that by (auto simp: gen_path_def)
  with fleet_machine_invD [OF assms] show ?thesis
    by (intro fleet_machine_invI) (auto simp: upload_ok_def ticket_ok_def dead_ok_def)
qed

lemma reserve_machine:
  assumes "fleet_machine_inv cfg lb m" and "upload_reserve cfg lb env rm_ok w u (fm_fleet m) = (r, s')"
    and "length (fe_ids env 0) = 48" and "fe_ids env 0 \<notin> fm_used m"
  shows "fleet_machine_inv cfg lb (m\<lparr>fm_fleet := s', fm_tickets := fm_tickets m \<union> tickets_of r,
    fm_used := insert (fe_ids env 0) (fm_used m)\<rparr>)"
  using assms(2)
proof (cases rule: upload_reserve_cases)
  case 1
  with draw_machine [OF assms(1)] show ?thesis by simp
next
  case (2 a t s1)
  let ?sha = "to_lower (lb_lower lb) (up_sha u)"
  note row = worker_attempt_SomeD [OF 2(1)]
  have m1: "fleet_machine_inv cfg lb (m\<lparr>fm_fleet := s1\<rparr>)" (is "fleet_machine_inv cfg lb ?m1")
    using 2(2,4) remove_own [OF assms(1) row(1)] assms(1) by auto
  have db1: "fs_db s1 = fs_db (fm_fleet m)" using 2(4) by (auto simp: remove_file_def)
  have "\<forall>q. reserve_tx cfg lb env u ?sha a t (fs_db (fm_fleet m)) \<noteq> Inr (q, None)"
    by (simp add: reserve_tx_def Let_def)
  with 2(5) consider "s' = s1" "tickets_of r = {}"
    | q db' where "reserve_tx cfg lb env u ?sha a t (fs_db (fm_fleet m)) = Inr (q, Some db')" "s' = s1\<lparr>fs_db := db'\<rparr>"
      "tickets_of r = {} \<or> tickets_of r = tickets_of (Inr q)"
    using db1 by (cases "reserve_tx cfg lb env u ?sha a t (fs_db (fm_fleet m))")
      (auto simp: put_db_def transact_def split: option.splits commit_outcome.splits)
  then show ?thesis
  proof cases
    case 1
    with draw_machine [OF m1] show ?thesis by simp
  next
    case (2 q db')
    have size: "0 \<le> up_size u" using \<open>min_pdf_bytes \<le> up_size u\<close> by (simp add: min_pdf_bytes_def)
    from reserve_keeps [OF fleet_machine_invD(1) [OF assms(1)] row(1,2) \<open>fa_state a \<in> _\<close> size 2(1)] obtain a' where
      a': "db' = put_attempt (up_attempt u) a' (fs_db (fm_fleet m))" "fleet_ok cfg db'" "attempt_moves a a'"
      "fa_state a' = A_uploading" "fa_upload a' = fe_ids env 0" "fa_path a' = pdf_path cfg (up_attempt u) (fe_ids env 0)"
      "fa_sha a' = ?sha" "fa_size a' = up_size u"
      "q = Upload_Reserved \<lparr>tk_task = fa_task a, tk_attempt = up_attempt u, tk_gen = fe_ids env 0, tk_path = fa_path a',
        tk_sha = ?sha, tk_size = up_size u\<rparr>"
      by metis
    have "fleet_machine_inv cfg lb (?m1\<lparr>fm_fleet := (fm_fleet ?m1)\<lparr>fs_db := put_attempt (up_attempt u) a' (fs_db (fm_fleet ?m1))\<rparr>,
        fm_tickets := fm_tickets ?m1 \<union> tickets_of r, fm_used := insert (fe_ids env 0) (fm_used ?m1)\<rparr>)"
      by (rule reserved_machine [OF m1, of "up_attempt u" a])
        (use row(1) db1 a' assms(3,4) 2(3) \<open>fa_state a \<in> _\<close> in \<open>auto simp: attempt_moves_def\<close>)
    then show ?thesis using a'(1) 2(2) db1 by simp
  qed
qed

text \<open>The transfer of a file: it makes the announced file staged, or leaves at most a file of its own generation.\<close>

lemma stream_stage_cases:
  assumes "stream_stage lb env io k s = (r, s')"
  obtains "s' = s"
  | a body mt where "map_of (fd_attempts (fs_db s)) (tk_attempt k) = Some a" and "fa_state a = A_uploading"
      and "fa_upload a = tk_gen k" and "fs_files s (tk_path k) = None"
      and "s' = s\<lparr>fs_files := (fs_files s)(tk_path k \<mapsto> (body, mt))\<rparr> \<or>
        s' = remove_file (tk_path k) (s\<lparr>fs_files := (fs_files s)(tk_path k \<mapsto> (body, mt))\<rparr>)"
  | a t t' body mt where "map_of (fd_attempts (fs_db s)) (tk_attempt k) = Some a" and "fa_state a = A_uploading"
      and "fa_upload a = tk_gen k" and "fs_files s (tk_path k) = None"
      and "map_of (fd_tasks (fs_db s)) (tk_task k) = Some t" and "map_of (fd_tasks (fs_db s)) (fa_task a) = Some t'"
      and "attempt_current (fs_db s) (fe_clock env 3) (tk_attempt k) a t'"
      and "genuine lb body (tk_sha k) (tk_size k)"
      and "put_db (s\<lparr>fs_files := (fs_files s)(tk_path k \<mapsto> (body, mt))\<rparr>)
        (transact env (fs_db s) (Inr ((), Some (staged_db env k a t (fs_db s))))) = (r, s')"
proof -
  let ?t = "map_of (fd_tasks (fs_db s)) (tk_task k)" and ?a = "map_of (fd_attempts (fs_db s)) (tk_attempt k)"
  let ?body = "take (nat (tk_size k + 1)) (ti_body io)"
  let ?s = "s\<lparr>fs_files := (fs_files s)(tk_path k \<mapsto> (?body, ti_mtime io))\<rparr>"
  show thesis
  proof (cases "?t = None \<or> ?a = None")
    case True
    with assms have "s' = s" by (auto simp: stream_stage_def Let_def split: if_splits option.splits)
    then show thesis by (rule that(1))
  next
    case False
    then obtain t a where ta: "?t = Some t" "?a = Some a" by auto
    note defs = assms [unfolded stream_stage_def Let_def ta prod.case option.case]
    show thesis
    proof (cases "calls env [0, 1, 2] \<and> fa_state a = A_uploading \<and> fa_upload a = tk_gen k \<and> ti_open io \<and>
        fs_files s (tk_path k) = None")
      case False
      with defs have "s' = s" by (auto split: if_split_asm)
      then show thesis by (rule that(1))
    next
      case True
      note up = True
      show thesis
      proof (cases "\<exists>t'. ti_copied io \<and> int (length ?body) = tk_size k \<and> lb_sha lb ?body = tk_sha k \<and>
          valid_pdf ?body \<and> map_of (fd_tasks (fs_db s)) (fa_task a) = Some t' \<and>
          attempt_current (fs_db s) (fe_clock env 3) (tk_attempt k) a t' \<and>
          put_db ?s (transact env (fs_db s) (Inr ((), Some (staged_db env k a t (fs_db s))))) = (r, s')")
        case True
        then obtain t' where t': "map_of (fd_tasks (fs_db s)) (fa_task a) = Some t'"
          "attempt_current (fs_db s) (fe_clock env 3) (tk_attempt k) a t'" "genuine lb ?body (tk_sha k) (tk_size k)"
          "put_db ?s (transact env (fs_db s) (Inr ((), Some (staged_db env k a t (fs_db s))))) = (r, s')"
          by (auto simp: genuine_def)
        show thesis by (rule that(3) [OF ta(2) _ _ _ ta(1) t']) (use up in simp_all)
      next
        case False
        with defs up have "s' = ?s \<or> s' = remove_file (tk_path k) ?s"
          by (cases "map_of (fd_tasks (fs_db s)) (fa_task a)") (auto split: if_split_asm)
        from that(2) [OF ta(2) _ _ _ this] up show thesis by simp
      qed
    qed
  qed
qed

lemma add_file_machine:
  assumes "fleet_machine_inv cfg lb m" and "fs_files (fm_fleet m) p = None" and "gen_path cfg (fm_used m) p"
  shows "fleet_machine_inv cfg lb (m\<lparr>fm_fleet := (fm_fleet m)\<lparr>fs_files := (fs_files (fm_fleet m))(p \<mapsto> x)\<rparr>\<rparr>)"
proof -
  note inv = fleet_machine_invD [OF assms(1)]
  have "staged_file lb ((fm_fleet m)\<lparr>fs_files := (fs_files (fm_fleet m))(p \<mapsto> x)\<rparr>) a"
    if "map_of (fd_attempts (fs_db (fm_fleet m))) j = Some a" "fa_state a = A_staged" for j a
    using inv(6) [OF that] assms(2) by (auto simp: staged_file_def)
  then show ?thesis
    using inv assms(3) by (intro fleet_machine_invI) (auto simp: archived_for_def outcome_archived_def split: if_splits)
qed

text \<open>An attempt with its file moves on, in a way that neither takes a file nor a generation.\<close>

lemma moved_machine:
  assumes "fleet_machine_inv cfg lb m" and "fleet_ok cfg db'" and a: "map_of (fd_attempts (fs_db (fm_fleet m))) i = Some a"
    and t: "map_of (fd_tasks (fs_db (fm_fleet m))) (fa_task a) = Some t"
    and db': "db' = put_task (fa_task a) t' (put_attempt i a' (fs_db (fm_fleet m)))"
    and keep: "fa_task a' = fa_task a" "fa_path a' = fa_path a" "fa_upload a' = fa_upload a" "live_attempt a" "fa_state a' \<noteq> A_uploading"
    and files: "fs_files s = fs_files (fm_fleet m)" and arch: "set (fs_archive (fm_fleet m)) \<subseteq> set (fs_archive s)"
    and db: "fs_db s = db'"
    and "fa_state a' = A_staged \<Longrightarrow> staged_file lb s a'"
    and "fa_state a' = A_done \<Longrightarrow> archived_for lb s (fa_task a') (fa_sha a') (fa_size a')"
    and "ft_state t' = T_done \<Longrightarrow> outcome_archived lb s (fa_task a) t'"
  shows "fleet_machine_inv cfg lb (m\<lparr>fm_fleet := s\<rparr>)"
proof -
  note inv = fleet_machine_invD [OF assms(1)]
  have "ticket_ok cfg (fm_used m) db' k" if "k \<in> fm_tickets m" for k
    using inv(4) [OF that] keep(5) unfolding db' ticket_ok_def by (auto simp: gomap_simps)
  moreover have "dead_ok cfg (fm_used m) db' p" if "p \<in> fm_dead m" for p
    using inv(5) [OF that] a keep(2,4) unfolding db' dead_ok_def by (auto simp: gomap_simps)
  moreover have "archived_for lb s j h n" if "archived_for lb (fm_fleet m) j h n" for j h n
    using that arch unfolding archived_for_def by blast
  moreover have "outcome_archived lb s j u" if "outcome_archived lb (fm_fleet m) j u" for j u
    using that arch unfolding outcome_archived_def by blast
  moreover have "staged_file lb s b" if "staged_file lb (fm_fleet m) b" for b
    using that files by (simp add: staged_file_def)
  moreover have "upload_ok (fm_used m) a'" using inv(3) [OF a] keep(2,3) by (simp add: upload_ok_def)
  ultimately show ?thesis
    using inv(2,3,6-8) assms(2,14-16) files
    by (intro fleet_machine_invI) (auto simp: db db' gomap_simps split: if_splits)
qed

lemma stream_machine:
  assumes "fleet_machine_inv cfg lb m" and "k \<in> fm_tickets m" and "stream_stage lb env io k (fm_fleet m) = (r, s')"
  shows "fleet_machine_inv cfg lb (m\<lparr>fm_fleet := s'\<rparr>)"
proof -
  note tick = fleet_machine_invD(4) [OF assms(1,2)]
  then have path: "gen_path cfg (fm_used m) (tk_path k)" unfolding ticket_ok_def gen_path_def by blast
  from assms(3) show ?thesis
  proof (cases rule: stream_stage_cases)
    case 1
    with assms(1) show ?thesis by simp
  next
    case (2 a body mt)
    note m1 = add_file_machine [OF assms(1) 2(4) path, of "(body, mt)"]
    have "fleet_machine_inv cfg lb (m\<lparr>fm_fleet := remove_file (tk_path k)
        ((fm_fleet m)\<lparr>fs_files := (fs_files (fm_fleet m))(tk_path k \<mapsto> (body, mt))\<rparr>)\<rparr>)"
      using remove_own [OF m1, of "tk_attempt k" a] tick 2(1-3) by (auto simp: ticket_ok_def)
    with m1 2(5) show ?thesis by auto
  next
    case (3 a t t' body mt)
    let ?s = "(fm_fleet m)\<lparr>fs_files := (fs_files (fm_fleet m))(tk_path k \<mapsto> (body, mt))\<rparr>"
    have k: "fa_task a = tk_task k" "fa_path a = tk_path k" "fa_sha a = tk_sha k" "fa_size a = tk_size k"
      using tick 3(1-3) by (auto simp: ticket_ok_def)
    have m1: "fleet_machine_inv cfg lb (m\<lparr>fm_fleet := ?s\<rparr>)" by (rule add_file_machine [OF assms(1) 3(4) path])
    have tt: "map_of (fd_tasks (fs_db (fm_fleet m))) (fa_task a) = Some t" "t' = t" using 3(5,6) k(1) by auto
    have ok: "fleet_ok cfg (staged_db env k a t (fs_db (fm_fleet m)))"
      by (rule staged_keeps [OF fleet_machine_invD(1) [OF assms(1)] 3(1) k(1) [symmetric] tt(1) 3(2)])
        (use 3(7) tt(2) k(2) path in \<open>auto simp: attempt_current_def dest: gen_path_ne\<close>)
    have "fleet_machine_inv cfg lb (m\<lparr>fm_fleet := ?s\<rparr>\<lparr>fm_fleet := ?s\<lparr>fs_db := staged_db env k a t (fs_db (fm_fleet m))\<rparr>\<rparr>)"
      by (rule moved_machine [where i = "tk_attempt k" and a = a and t = t and
            t' = "t\<lparr>ft_state := T_staged, ft_updated := fe_clock env 4\<rparr>" and
            a' = "a\<lparr>fa_state := A_staged, fa_error := [], fa_updated := fe_clock env 3\<rparr>", OF m1 ok])
        (use 3(1,2,8) tt k in \<open>simp_all add: live_attempt_def staged_file_def staged_db_def\<close>)
    with m1 3(9) show ?thesis by (auto simp: put_db_def transact_def split: commit_outcome.splits)
  qed
qed

lemma reset_machine:
  assumes "fleet_machine_inv cfg lb m" and "k \<in> fm_tickets m"
  shows "fleet_machine_inv cfg lb (m\<lparr>fm_fleet := snd (reset_transfer env rm_ok k (fm_fleet m))\<rparr>)"
proof -
  let ?s = "fm_fleet m" and ?r = "remove_file (tk_path k) (fm_fleet m)"
  let ?put = "\<lambda>a. put_attempt (tk_attempt k) (a\<lparr>fa_path := [], fa_upload := []\<rparr>) (fs_db ?s)"
  show ?thesis
  proof (cases "\<exists>a. map_of (fd_attempts (fs_db ?s)) (tk_attempt k) = Some a \<and> fa_state a = A_uploading \<and> fa_upload a = tk_gen k")
    case False
    then have "snd (reset_transfer env rm_ok k ?s) = ?s" by (auto simp: reset_transfer_def Let_def split: option.splits)
    with assms(1) show ?thesis by simp
  next
    case True
    then obtain a where a: "map_of (fd_attempts (fs_db ?s)) (tk_attempt k) = Some a" "fa_state a = A_uploading"
      "fa_upload a = tk_gen k" by blast
    have path: "fa_path a = tk_path k" "tk_path k \<noteq> []"
      using fleet_machine_invD(4) [OF assms] a by (auto simp: ticket_ok_def)
    have m1: "fleet_machine_inv cfg lb (m\<lparr>fm_fleet := ?r\<rparr>)" (is "fleet_machine_inv cfg lb ?m1")
      using remove_own [OF assms(1) a(1)] a(2) path by simp
    note inv = fleet_machine_invD [OF m1]
    have ok: "fleet_ok cfg (?put a)" by (rule reset_keeps [OF fleet_machine_invD(1) [OF assms(1)] a(1,2)])
    have "fleet_machine_inv cfg lb (m\<lparr>fm_fleet := ?r\<lparr>fs_db := ?put a\<rparr>\<rparr>)"
    proof (rule fleet_machine_invI)
      fix q assume "q \<in> fm_tickets (m\<lparr>fm_fleet := ?r\<lparr>fs_db := ?put a\<rparr>\<rparr>)"
      then have "ticket_ok cfg (fm_used m) (fs_db ?s) q" using inv(4) [of q] by (simp add: remove_file_def)
      then show "ticket_ok cfg (fm_used (m\<lparr>fm_fleet := ?r\<lparr>fs_db := ?put a\<rparr>\<rparr>)) (fs_db (fm_fleet (m\<lparr>fm_fleet := ?r\<lparr>fs_db := ?put a\<rparr>\<rparr>))) q"
        by (auto simp: ticket_ok_def gomap_simps)
    next
      fix p assume "p \<in> fm_dead (m\<lparr>fm_fleet := ?r\<lparr>fs_db := ?put a\<rparr>\<rparr>)"
      then have p: "dead_ok cfg (fm_used m) (fs_db ?s) p" using inv(5) [of p] by (simp add: remove_file_def)
      then have "p \<noteq> []" by (auto simp: dead_ok_def dest: gen_path_ne)
      with p show "dead_ok cfg (fm_used (m\<lparr>fm_fleet := ?r\<lparr>fs_db := ?put a\<rparr>\<rparr>)) (fs_db (fm_fleet (m\<lparr>fm_fleet := ?r\<lparr>fs_db := ?put a\<rparr>\<rparr>))) p"
        by (auto simp: dead_ok_def gomap_simps)
    next
      fix p assume "fs_files (fm_fleet (m\<lparr>fm_fleet := ?r\<lparr>fs_db := ?put a\<rparr>\<rparr>)) p \<noteq> None"
      with inv(2) [of p] show "gen_path cfg (fm_used (m\<lparr>fm_fleet := ?r\<lparr>fs_db := ?put a\<rparr>\<rparr>)) p" by simp
    qed (use inv(3,6-8) ok a(2) in \<open>auto simp: gomap_simps upload_ok_def split: if_splits\<close>)
    moreover have "snd (reset_transfer env rm_ok k ?s) \<in> {?s, ?r, ?r\<lparr>fs_db := ?put a\<rparr>}"
      using a by (auto simp: reset_transfer_def Let_def put_db_def transact_def remove_file_def split: commit_outcome.splits)
    ultimately show ?thesis using assms(1) m1 by auto
  qed
qed

text \<open>The archiving of a staged file.\<close>

lemma commit_archive_cases:
  assumes "commit_archive cfg lb env cio i s = (c, s')"
  obtains "s' = s" and "path_of c = {}"
  | a t body identity where "map_of (fd_attempts (fs_db s)) i = Some a" and "map_of (fd_tasks (fs_db s)) (fa_task a) = Some t"
      and "ft_current t = Some i" and "ft_state t = T_staged" and "fa_state a = A_staged"
      and "genuine lb body (fa_sha a) (fa_size a)" and "result_identity lb (ft_ref t) (fa_meta a) = Inr identity"
      and "archive_tx lb env cio i a t (outcome_of lb (fs_db s) (fa_task a) a identity) body s = (c, s')"
proof -
  let ?same = "s' = s \<and> path_of c = {}"
  show thesis
  proof (cases "map_of (fd_attempts (fs_db s)) i")
    case None
    with assms have ?same by (auto simp: commit_archive_def Let_def split: if_splits)
    with that(1) show thesis by blast
  next
    case (Some a)
    show thesis
    proof (cases "map_of (fd_tasks (fs_db s)) (fa_task a)")
      case None
      with Some assms have ?same by (auto simp: commit_archive_def Let_def split: if_splits)
      with that(1) show thesis by blast
    next
      case row: (Some t)
      note defs = assms [unfolded commit_archive_def Let_def Some row option.case]
      show thesis
      proof (cases "fs_files s (fa_path a)")
        case None
        with defs have ?same by (auto split: if_split_asm)
        with that(1) show thesis by blast
      next
        case spooled: (Some f)
        obtain content mt where f: "f = (content, mt)" by (cases f)
        let ?body = "take (nat (fc_max_pdf cfg + 1)) content"
        show thesis
        proof (cases "result_identity lb (ft_ref t) (fa_meta a)")
          case (Inl e)
          with defs spooled f have ?same by (auto split: if_split_asm)
          with that(1) show thesis by blast
        next
          case (Inr identity)
          let ?go = "ft_current t = Some i \<and> ft_state t = T_staged \<and> fa_state a = A_staged \<and> genuine lb ?body (fa_sha a) (fa_size a) \<and>
            archive_tx lb env cio i a t (outcome_of lb (fs_db s) (fa_task a) a identity) ?body s = (c, s')"
          from defs have "?same \<or> ?go" unfolding spooled f option.case prod.case Inr sum.case genuine_def
            by (auto split: if_split_asm)
          with that(1) that(2) [OF Some row _ _ _ _ Inr] show thesis by blast
        qed
      qed
    qed
  qed
qed

lemma archive_machine:
  assumes "fleet_machine_inv cfg lb m"
  shows "fleet_machine_inv cfg lb (m\<lparr>fm_fleet := (fm_fleet m)\<lparr>fs_archive := fs_archive (fm_fleet m) @ xs\<rparr>\<rparr>)"
proof -
  note inv = fleet_machine_invD [OF assms]
  let ?s = "(fm_fleet m)\<lparr>fs_archive := fs_archive (fm_fleet m) @ xs\<rparr>"
  have "archived_for lb ?s j h n" if "archived_for lb (fm_fleet m) j h n" for j h n
    using that unfolding archived_for_def by fastforce
  moreover have "outcome_archived lb ?s j u" if "outcome_archived lb (fm_fleet m) j u" for j u
    using that unfolding outcome_archived_def by fastforce
  ultimately show ?thesis using inv by (intro fleet_machine_invI) (simp_all add: staged_file_def)
qed

lemma outcome_of_simps:
  "fo_task (outcome_of lb db task a identity) = task" "fo_sha (outcome_of lb db task a identity) = fa_sha a"
  "fo_size (outcome_of lb db task a identity) = fa_size a"
  by (simp_all add: outcome_of_def split: prod.splits)

lemma dead_machine:
  assumes "fleet_machine_inv cfg lb m" and "\<And>p. p \<in> D \<Longrightarrow> dead_ok cfg (fm_used m) (fs_db (fm_fleet m)) p"
  shows "fleet_machine_inv cfg lb (m\<lparr>fm_dead := fm_dead m \<union> D\<rparr>)"
  using fleet_machine_invD [OF assms(1)] assms(2) by (intro fleet_machine_invI) auto

lemma own_path_dead:
  assumes "fleet_machine_inv cfg lb m" and "map_of (fd_attempts (fs_db (fm_fleet m))) i = Some a" and "ended a" and "fa_path a \<noteq> []"
  shows "dead_ok cfg (fm_used m) (fs_db (fm_fleet m)) (fa_path a)"
  unfolding dead_ok_def
proof (intro conjI allI impI)
  show "gen_path cfg (fm_used m) (fa_path a)" using attempt_path [OF assms(1,2,4)] unfolding gen_path_def by blast
  show "fa_path b \<noteq> fa_path a" if "map_of (fd_attempts (fs_db (fm_fleet m))) j = Some b" "live_attempt b" for j b
  proof
    assume "fa_path b = fa_path a"
    with paths_distinct [OF assms(1) that(1) assms(2)] assms(4) have "j = i" by simp
    with that assms(2,3) show False by (auto simp: ended_def live_attempt_def)
  qed
qed

lemma commit_machine:
  assumes "fleet_machine_inv cfg lb m" and "commit_archive cfg lb env cio i (fm_fleet m) = (c, s')"
  shows "fleet_machine_inv cfg lb (m\<lparr>fm_fleet := s', fm_dead := fm_dead m \<union> path_of c\<rparr>)"
  using assms(2)
proof (cases rule: commit_archive_cases)
  case 1
  with assms(1) show ?thesis by simp
next
  case (2 a t body identity)
  let ?s = "fm_fleet m" and ?out = "outcome_of lb (fs_db (fm_fleet m)) (fa_task a) a identity"
  let ?s1 = "?s\<lparr>fs_archive := fs_archive ?s @ [(ft_ref t, ?out, body)]\<rparr>"
  let ?db = "done_db env (ci_hook cio) i a t ?out (fs_db ?s)"
  have m1: "fleet_machine_inv cfg lb (m\<lparr>fm_fleet := ?s1\<rparr>)" by (rule archive_machine [OF assms(1)])
  have ok: "fleet_ok cfg ?db"
    by (rule done_keeps [OF fleet_machine_invD(1) [OF assms(1)] 2(1,2,5,3,4)])
  have arch: "archived_for lb ?s1 (fa_task a) (fa_sha a) (fa_size a)" unfolding archived_for_def
    by (intro exI [of _ "ft_ref t"] exI [of _ ?out] exI [of _ body]) (simp add: outcome_of_simps 2(6))
  have out: "outcome_archived lb ?s1 (fa_task a) t'" if "ft_ref t' = ft_ref t" "ft_outcome t' = Some (?out\<lparr>fo_archived := True\<rparr>)"
    for t' unfolding outcome_archived_def
    by (intro exI [of _ ?out] exI [of _ body]) (simp add: outcome_of_simps 2(6) that)
  have m2: "fleet_machine_inv cfg lb (m\<lparr>fm_fleet := ?s1\<rparr>\<lparr>fm_fleet := ?s1\<lparr>fs_db := ?db\<rparr>\<rparr>)"
    by (rule moved_machine [where i = i and a = a and t = t and
          t' = "t\<lparr>ft_state := T_done, ft_outcome := Some (?out\<lparr>fo_archived := True\<rparr>), ft_error := [],
            ft_hook_pending := ci_hook cio, ft_updated := fe_clock env 6\<rparr>" and
          a' = "a\<lparr>fa_state := A_done, fa_error := [], fa_updated := fe_clock env 5\<rparr>", OF m1 ok])
      (use 2(1,2,5) arch out in \<open>auto simp: live_attempt_def done_db_def\<close>)
  have path: "fa_path a \<noteq> []"
    using fleet_invD(6) [OF fleet_okD(1) [OF fleet_machine_invD(1) [OF assms(1)]] 2(1)] 2(5) by (simp add: attempt_ok_def)
  have "dead_ok cfg (fm_used m) ?db (fa_path a)"
    using own_path_dead [OF m2, of i "a\<lparr>fa_state := A_done, fa_error := [], fa_updated := fe_clock env 5\<rparr>"] path
    by (simp add: done_db_def gomap_simps ended_def)
  then have m3: "fleet_machine_inv cfg lb (m\<lparr>fm_fleet := ?s1\<lparr>fs_db := ?db\<rparr>, fm_dead := fm_dead m \<union> {fa_path a}\<rparr>)"
    using dead_machine [OF m2, of "{fa_path a}"] by simp
  from 2(8) consider "s' = ?s" "path_of c = {}" | "s' = ?s1" "path_of c = {}"
    | "s' = ?s1\<lparr>fs_db := ?db\<rparr>" "path_of c \<subseteq> {fa_path a}"
    by (auto simp: archive_tx_def Let_def put_db_def transact_def split: if_splits commit_outcome.splits)
  then show ?thesis
  proof cases
    case 3
    then consider "path_of c = {}" | "path_of c = {fa_path a}" by blast
    then show ?thesis using 3 m2 m3 by cases simp_all
  qed (use assms(1) m1 in simp_all)
qed

lemma hook_due_SomeD:
  assumes "fleet_ok cfg db" and "hook_due env now db = Some (i, t)"
  shows "map_of (fd_tasks db) i = Some t" "ft_state t = T_done" "ft_hook_pending t"
proof -
  have "(i, t) \<in> set (sort_key (\<lambda>(i, t). ft_hook_next t) (filter (\<lambda>(i, t). ft_state t = T_done \<and> ft_hook_pending t \<and>
             ft_hook_next t \<le> now \<and> \<not> fe_locked env i) (fd_tasks db)))"
    using assms(2) unfolding hook_due_def
    by (metis (no_types, lifting) list.case_eq_if list.set_intros(1) list.collapse option.distinct(1) option.inject)
  then show "map_of (fd_tasks db) i = Some t" "ft_state t = T_done" "ft_hook_pending t"
    using fleet_invD(3) [OF fleet_okD(1) [OF assms(1)]] by (auto simp: gomap_set_iff)
qed

lemma hook_keeps:
  assumes "fleet_ok cfg (fs_db s)"
  shows "fleet_ok cfg (fs_db (snd (deliver_hook lb env failure s))) \<and>
    db_quiet (fs_db s) (fs_db (snd (deliver_hook lb env failure s))) \<and>
    fs_files (snd (deliver_hook lb env failure s)) = fs_files s \<and>
    fs_archive (snd (deliver_hook lb env failure s)) = fs_archive s"
proof (cases "hook_due env (fe_clock env 1) (fs_db s)")
  case None
  then show ?thesis using assms by (simp add: deliver_hook_def Let_def)
next
  case (Some it)
  obtain i t where it: "it = (i, t)" by (cases it)
  note row = hook_due_SomeD [OF assms Some [unfolded it]]
  define f where "f = (if fe_call env 2 then failure else Some ''database'')"
  define t' where "t' = (case f of None \<Rightarrow> t\<lparr>ft_hook_pending := False\<rparr> | Some msg \<Rightarrow> hook_failed lb env msg t)"
  have "fleet_ok cfg (put_task i t' (fs_db s)) \<and> db_quiet (fs_db s) (put_task i t' (fs_db s))"
    by (rule task_alone_ok [OF assms row(1)])
      (use row(2) in \<open>auto simp: t'_def hook_failed_def active_task_def task_quiet_def task_moves_def split: option.splits\<close>)
  moreover have "deliver_hook lb env failure s =
      (if \<not> calls env [0, 1] then (Inl db_failed, s)
       else let s1 = (if f = None then s\<lparr>fs_hooks := fs_hooks s @ [i]\<rparr> else s)
            in if \<not> fe_call env 3 then (Inl db_failed, s1)
               else put_db s1 (transact env (fs_db s) (Inr (True, Some (put_task i t' (fs_db s))))))"
    unfolding deliver_hook_def Let_def Some it option.case prod.case f_def t'_def by simp
  ultimately show ?thesis using assms
    by (simp add: Let_def put_db_def transact_def split: commit_outcome.splits)
qed

lemma hook_machine:
  assumes "fleet_machine_inv cfg lb m"
  shows "fleet_machine_inv cfg lb (m\<lparr>fm_fleet := snd (deliver_hook lb env failure (fm_fleet m))\<rparr>)"
  using hook_keeps [OF fleet_machine_invD(1) [OF assms], of lb env failure] by (intro quiet_machine [OF assms]) simp_all

lemma clean_machine:
  assumes "fleet_machine_inv cfg lb m" and "p \<in> fm_dead m"
  shows "fleet_machine_inv cfg lb (m\<lparr>fm_fleet := snd (clean_file cfg env rm_ok i p (fm_fleet m))\<rparr>)"
proof -
  let ?r = "remove_file p (fm_fleet m)"
  have m1: "fleet_machine_inv cfg lb (m\<lparr>fm_fleet := ?r\<rparr>)"
    using dead_not_staged [OF assms] by (intro remove_machine [OF assms(1)])
  have "fleet_machine_inv cfg lb (m\<lparr>fm_fleet := ?r\<rparr>\<lparr>fm_fleet := ?r\<lparr>fs_db := released i (fs_db (fm_fleet m))\<rparr>\<rparr>)"
    using released_keeps [OF fleet_machine_invD(1) [OF assms(1)], of i] by (intro quiet_machine [OF m1]) simp_all
  with m1 assms(1) show ?thesis
    by (auto simp: clean_file_def put_db_def transact_def remove_file_def split: commit_outcome.splits)
qed

lemma orphan_dead:
  assumes "fleet_machine_inv cfg lb m" and "orphan cfg now (fm_fleet m) p"
  shows "dead_ok cfg (fm_used m) (fs_db (fm_fleet m)) p"
proof -
  have "fs_files (fm_fleet m) p \<noteq> None" using assms(2) by (auto simp: orphan_def split: option.splits)
  then have "gen_path cfg (fm_used m) p" by (rule fleet_machine_invD(2) [OF assms(1)])
  moreover have "fa_path a \<noteq> p" if "map_of (fd_attempts (fs_db (fm_fleet m))) j = Some a" for j a
    using assms(2) map_of_SomeD [OF that] by (auto simp: orphan_def list_ex_iff)
  ultimately show ?thesis by (simp add: dead_ok_def)
qed

lemma step_machine:
  assumes "fleet_step cfg lb m m'" and "fleet_validate cfg = None" and "fleet_machine_inv cfg lb m"
  shows "fleet_machine_inv cfg lb m'"
  using assms(1)
proof cases
  case (Table db')
  with table_step_quiet [OF Table(2) assms(2) fleet_machine_invD(1) [OF assms(3)]] show ?thesis
    by (auto intro: quiet_machine [OF assms(3)])
next
  case (Hook env failure)
  then show ?thesis using hook_machine [OF assms(3)] by simp
next
  case (Reserve env rm_ok w u r s')
  then show ?thesis using reserve_machine [OF assms(3)] by simp
next
  case (Stream k env io)
  then show ?thesis using stream_machine [OF assms(3), of k env io] by (metis prod.collapse)
next
  case (Reset k env rm_ok)
  then show ?thesis using reset_machine [OF assms(3)] by simp
next
  case (Commit env cio i c s')
  then show ?thesis using commit_machine [OF assms(3)] by simp
next
  case (Select_ended i a)
  with own_path_dead [OF assms(3)] dead_machine [OF assms(3), of "{fa_path a}"] show ?thesis by simp
next
  case (Select_orphan now path)
  with orphan_dead [OF assms(3)] dead_machine [OF assms(3), of "{path}"] show ?thesis by simp
next
  case (Clean path env rm_ok i)
  then show ?thesis using clean_machine [OF assms(3)] by simp
next
  case (Unlink path)
  then show ?thesis using remove_machine [OF assms(3), of path] dead_not_staged [OF assms(3), of path] by simp
qed

lemma run_machine:
  assumes "fleet_run cfg lb init_machine m" and "fleet_validate cfg = None"
  shows "fleet_machine_inv cfg lb m"
  using assms(1) unfolding fleet_run_def
  by (induction rule: rtranclp_induct) (simp_all add: init_machine_inv assms(2) step_machine)

end
