(* ===== verification/Fleet_Safety.thy ===== *)
theory Fleet_Safety
  imports Fleet_Machine
begin

text \<open>
  What holds of the coordinator in every reachable state and over every step: the consistency of its tables, its
  bounds, staged files, archived results, final receipts, and the fencing of workers that are not admitted.
\<close>

section \<open>Rows over one step\<close>

lemma moves_put:
  assumes "map_of (fd_attempts db) i = Some a" and "attempt_moves a a'"
  shows "db_moves db (put_attempt i a' db)"
  using assms by (auto simp: db_moves_def intro!: rows_follow_update)

lemma moves_put_both:
  assumes "map_of (fd_attempts db) i = Some a" and "map_of (fd_tasks db) (fa_task a) = Some t"
    and "attempt_moves a a'" and "task_moves t t'"
  shows "db_moves db (put_task (fa_task a) t' (put_attempt i a' db))"
  using assms by (auto simp: db_moves_def intro!: rows_follow_update)

lemma db_moves_refl [simp]: "db_moves db db"
  by (simp add: quiet_moves)

lemma reserve_moves:
  assumes "fleet_machine_inv cfg lb m" and "upload_reserve cfg lb env rm_ok w u (fm_fleet m) = (r, s')"
  shows "db_moves (fs_db (fm_fleet m)) (fs_db s')"
  using assms(2)
proof (cases rule: upload_reserve_cases)
  case (2 a t s1)
  let ?tx = "reserve_tx cfg lb env u (to_lower (lb_lower lb) (up_sha u)) a t (fs_db (fm_fleet m))"
  note row = worker_attempt_SomeD [OF 2(1)]
  have db1: "fs_db s1 = fs_db (fm_fleet m)" using 2(4) by auto
  have size: "0 \<le> up_size u" using 2(3) by (simp add: min_pdf_bytes_def)
  have "fs_db s' = snd (transact env (fs_db (fm_fleet m)) ?tx)" using 2(5) by (auto simp: put_db_def)
  then consider "fs_db s' = fs_db (fm_fleet m)" | q db' where "?tx = Inr (q, Some db')" "fs_db s' = db'"
    using transact_cases [of env "fs_db (fm_fleet m)" ?tx] by metis
  then show ?thesis
  proof cases
    case (2 q db')
    from reserve_keeps [OF fleet_machine_invD(1) [OF assms(1)] row(1,2) \<open>fa_state a \<in> _\<close> size 2(1)] obtain a' where
      "db' = put_attempt (up_attempt u) a' (fs_db (fm_fleet m))" "attempt_moves a a'" by metis
    with moves_put [OF row(1)] 2(2) show ?thesis by simp
  qed simp
qed simp

lemma stream_moves:
  assumes "fleet_machine_inv cfg lb m" and "k \<in> fm_tickets m" and "stream_stage lb env io k (fm_fleet m) = (r, s')"
  shows "db_moves (fs_db (fm_fleet m)) (fs_db s')"
  using assms(3)
proof (cases rule: stream_stage_cases)
  case (2 a body mt)
  then show ?thesis by auto
next
  case (3 a t t' body mt)
  have k: "fa_task a = tk_task k" using fleet_machine_invD(4) [OF assms(1,2)] 3(1-3) by (simp add: ticket_ok_def)
  let ?a = "a\<lparr>fa_state := A_staged, fa_error := [], fa_updated := fe_clock env 3\<rparr>"
  let ?t = "t\<lparr>ft_state := T_staged, ft_updated := fe_clock env 4\<rparr>"
  have task: "map_of (fd_tasks (fs_db (fm_fleet m))) (fa_task a) = Some t" using 3(5) k by simp
  have "fa_state a \<in> current_states (ft_state t)"
    using task_ok_current [OF fleet_invD(7) [OF fleet_okD(1) [OF fleet_machine_invD(1) [OF assms(1)]] task] 3(1)] 3(2) by simp
  with 3(2) have "ft_state t = T_running" by (cases "ft_state t") auto
  then have "db_moves (fs_db (fm_fleet m)) (put_task (fa_task a) ?t (put_attempt (tk_attempt k) ?a (fs_db (fm_fleet m))))"
    by (intro moves_put_both [OF 3(1) task]) (use 3(2) in \<open>simp_all add: attempt_moves_def task_moves_def ended_def\<close>)
  with 3(9) k show ?thesis
    by (auto simp: put_db_def transact_def staged_db_def split: commit_outcome.splits)
qed simp

lemma reset_transfer_cases:
  obtains "fs_db (snd (reset_transfer env rm_ok k s)) = fs_db s"
  | a where "map_of (fd_attempts (fs_db s)) (tk_attempt k) = Some a" and "fa_state a = A_uploading"
      and "fs_db (snd (reset_transfer env rm_ok k s)) =
        put_attempt (tk_attempt k) (a\<lparr>fa_path := [], fa_upload := []\<rparr>) (fs_db s)"
proof (cases "\<exists>a. map_of (fd_attempts (fs_db s)) (tk_attempt k) = Some a \<and> fa_state a = A_uploading \<and> fa_upload a = tk_gen k")
  case False
  then have "snd (reset_transfer env rm_ok k s) = s" by (auto simp: reset_transfer_def Let_def split: option.splits)
  with that(1) show thesis by simp
next
  case True
  then obtain a where a: "map_of (fd_attempts (fs_db s)) (tk_attempt k) = Some a" "fa_state a = A_uploading"
    "fa_upload a = tk_gen k" by blast
  then have "fs_db (snd (reset_transfer env rm_ok k s)) \<in>
      {fs_db s, put_attempt (tk_attempt k) (a\<lparr>fa_path := [], fa_upload := []\<rparr>) (fs_db s)}"
    by (auto simp: reset_transfer_def Let_def put_db_def transact_def split: commit_outcome.splits)
  with that(1) that(2) [OF a(1,2)] show thesis by blast
qed

lemma reset_moves: "db_moves (fs_db s) (fs_db (snd (reset_transfer env rm_ok k s)))"
proof (rule reset_transfer_cases [of env rm_ok k s])
  fix a assume a: "map_of (fd_attempts (fs_db s)) (tk_attempt k) = Some a" "fa_state a = A_uploading"
    "fs_db (snd (reset_transfer env rm_ok k s)) = put_attempt (tk_attempt k) (a\<lparr>fa_path := [], fa_upload := []\<rparr>) (fs_db s)"
  show ?thesis unfolding a(3) by (rule moves_put [OF a(1)]) (simp add: attempt_moves_def a(2) ended_def)
qed simp

lemma commit_moves:
  assumes "fleet_machine_inv cfg lb m" and "commit_archive cfg lb env cio i (fm_fleet m) = (c, s')"
  shows "db_moves (fs_db (fm_fleet m)) (fs_db s')"
  using assms(2)
proof (cases rule: commit_archive_cases)
  case (2 a t body identity)
  have "db_moves (fs_db (fm_fleet m)) (done_db env h i a t out (fs_db (fm_fleet m)))" for h out
    unfolding done_db_def
    by (rule moves_put_both [OF 2(1,2)]) (use 2(4,5) in \<open>simp_all add: attempt_moves_def task_moves_def ended_def\<close>)
  with 2(8) show ?thesis
    by (auto simp: archive_tx_def Let_def put_db_def transact_def split: if_splits commit_outcome.splits)
qed simp

lemma step_moves:
  assumes "fleet_step cfg lb m m'" and "fleet_validate cfg = None" and "fleet_machine_inv cfg lb m"
  shows "db_moves (fs_db (fm_fleet m)) (fs_db (fm_fleet m'))"
  using assms(1)
proof cases
  case (Table db')
  with table_step_quiet [OF Table(2) assms(2) fleet_machine_invD(1) [OF assms(3)]] show ?thesis by (simp add: quiet_moves)
next
  case (Hook env failure)
  with hook_keeps [OF fleet_machine_invD(1) [OF assms(3)]] show ?thesis by (simp add: quiet_moves)
next
  case (Reserve env rm_ok w u r s')
  with reserve_moves [OF assms(3)] show ?thesis by simp
next
  case (Stream k env io)
  with stream_moves [OF assms(3), of k env io] show ?thesis by (metis prod.collapse fleet_machine.select_convs(1)
        fleet_machine.simps fleet_machine.update_convs(1) fleet_machine.surjective)
next
  case (Reset k env rm_ok)
  then show ?thesis by (simp add: reset_moves)
next
  case (Commit env cio i c s')
  with commit_moves [OF assms(3)] show ?thesis by simp
next
  case (Clean path env rm_ok i)
  have "db_moves (fs_db (fm_fleet m)) (released i (fs_db (fm_fleet m)))"
    using released_keeps [OF fleet_machine_invD(1) [OF assms(3)]] by (simp add: quiet_moves)
  with Clean show ?thesis by (auto simp: clean_file_def put_db_def transact_def split: commit_outcome.splits)
qed simp_all

section \<open>Fencing\<close>

definition admitted :: "fleet_db \<Rightarrow> string \<Rightarrow> bool" where
  "admitted db w \<longleftrightarrow> (case map_of (fd_nodes db) w of None \<Rightarrow> False | Some n \<Rightarrow> worker_admitted (fn_status n))"

text \<open>
  What may become of an attempt of a worker that is not admitted: it stays, expires, or is archived once it has been
  staged. What was assigned, announced and reported stays; no lease is renewed (the flag: the worker is still pending,
  and its rejection may set its leases to the present); an upload may be forgotten, but none is reserved.
\<close>

definition fenced_row :: "bool \<Rightarrow> fleet_attempt \<Rightarrow> fleet_attempt \<Rightarrow> bool" where
  "fenced_row p a a' \<longleftrightarrow>
     fa_worker a' = fa_worker a \<and> fa_task a' = fa_task a \<and> fa_deadline a' = fa_deadline a \<and> fa_created a' = fa_created a \<and>
     fa_sha a' = fa_sha a \<and> fa_size a' = fa_size a \<and> fa_source a' = fa_source a \<and> fa_strategy a' = fa_strategy a \<and>
     fa_meta a' = fa_meta a \<and> fa_trace a' = fa_trace a \<and> (p \<or> fa_lease a' = fa_lease a) \<and>
     fa_path a' \<in> {fa_path a, []} \<and> fa_upload a' \<in> {fa_upload a, []} \<and>
     (fa_state a' = fa_state a \<or> live_attempt a \<and> fa_state a' = A_expired \<or> fa_state a = A_staged \<and> fa_state a' = A_done)"

definition pending_worker :: "fleet_db \<Rightarrow> string \<Rightarrow> bool" where
  "pending_worker db w \<longleftrightarrow> (case map_of (fd_nodes db) w of None \<Rightarrow> False | Some n \<Rightarrow> fn_status n = N_pending)"

definition fenced :: "bool \<Rightarrow> string \<Rightarrow> fleet_db \<Rightarrow> fleet_db \<Rightarrow> bool" where
  "fenced p w db db' \<longleftrightarrow>
     (\<forall>j a'. map_of (fd_attempts db') j = Some a' \<longrightarrow> fa_worker a' = w \<longrightarrow>
        (\<exists>a. map_of (fd_attempts db) j = Some a \<and> fenced_row p a a'))"

lemma fenced_row_refl [simp]: "fenced_row p a a"
  by (simp add: fenced_row_def)

lemma fenced_same [simp, intro]: "fd_attempts db' = fd_attempts db \<Longrightarrow> fenced p w db db'"
  by (simp add: fenced_def)

lemma fenced_mapped:
  "(\<And>j a. fa_worker (g j a) = w \<Longrightarrow> fenced_row p a (g j a)) \<Longrightarrow> fd_attempts db' = map (\<lambda>(j, a). (j, g j a)) (fd_attempts db) \<Longrightarrow>
    fenced p w db db'"
  by (auto simp: fenced_def map_of_map_val)

lemma fenced_put:
  "map_of (fd_attempts db) j = Some a \<Longrightarrow> (fa_worker a' = w \<Longrightarrow> fenced_row p a a') \<Longrightarrow>
    fd_attempts db' = AList.update j a' (fd_attempts db) \<Longrightarrow> fenced p w db db'"
  by (simp add: fenced_def gomap_simps)

lemma fenced_put_attempt:
  "map_of (fd_attempts db) j = Some a \<Longrightarrow> (fa_worker a' = w \<Longrightarrow> fenced_row p a a') \<Longrightarrow> fenced p w db (put_attempt j a' db)"
  "map_of (fd_attempts db) j = Some a \<Longrightarrow> (fa_worker a' = w \<Longrightarrow> fenced_row p a a') \<Longrightarrow>
    fenced p w db (put_task i t (put_attempt j a' db))"
  by (rule fenced_put; simp)+

lemma fenced_filter:
  "gomap_ok (fd_attempts db) \<Longrightarrow> fd_attempts db' = filter P (fd_attempts db) \<Longrightarrow> fenced p w db db'"
  by (simp add: fenced_def map_of_filter_Some)

lemma fenced_row_trans:
  assumes "fenced_row p a a'" and "fenced_row p a' a''"
  shows "fenced_row p a a''"
proof -
  let ?S = "\<lambda>a a'. fa_state a' = fa_state a \<or> live_attempt a \<and> fa_state a' = A_expired \<or> fa_state a = A_staged \<and> fa_state a' = A_done"
  have "?S a a'" "?S a' a''" using assms by (simp_all only: fenced_row_def)
  then have "?S a a''" by (elim disjE) (simp_all add: live_attempt_def)
  moreover have "p \<or> fa_lease a'' = fa_lease a" using assms unfolding fenced_row_def by argo
  moreover have "fa_path a' \<in> {fa_path a, []}" "fa_path a'' \<in> {fa_path a', []}" "fa_upload a' \<in> {fa_upload a, []}"
    "fa_upload a'' \<in> {fa_upload a', []}" using assms by (simp_all only: fenced_row_def)
  then have "fa_path a'' \<in> {fa_path a, []}" "fa_upload a'' \<in> {fa_upload a, []}" by auto
  ultimately show ?thesis using assms by (simp only: fenced_row_def)
qed

lemma fenced_trans:
  assumes "fenced p w db db'" and "fenced p w db' db''"
  shows "fenced p w db db''"
  unfolding fenced_def
proof (intro allI impI)
  fix j a'' assume "map_of (fd_attempts db'') j = Some a''" "fa_worker a'' = w"
  with assms(2) obtain a' where a': "map_of (fd_attempts db') j = Some a'" "fenced_row p a' a''" unfolding fenced_def by blast
  with \<open>fa_worker a'' = w\<close> have "fa_worker a' = w" by (simp add: fenced_row_def)
  with assms(1) a'(1) obtain a where "map_of (fd_attempts db) j = Some a" "fenced_row p a a'" unfolding fenced_def by blast
  with fenced_row_trans a'(2) show "\<exists>a. map_of (fd_attempts db) j = Some a \<and> fenced_row p a a''" by blast
qed

lemma transact_fenced:
  assumes "\<And>r db'. tx = Inr (r, Some db') \<Longrightarrow> fenced p w db db'"
  shows "fenced p w db (snd (transact env db tx))"
  by (rule transact_cases [of env db tx]) (use assms in auto)

lemma current_admitted: "attempt_current db now i a t \<Longrightarrow> admitted db (fa_worker a)"
  by (simp add: attempt_current_def admitted_def split: option.splits)

lemma claim_loop_fenced:
  assumes "claim_loop cfg env v n k out db = Inr (out', db')" and "v \<noteq> w"
  shows "fenced p w db db'"
  using assms
proof (induction cfg env v n k out db rule: claim_loop.induct)
  case (1 cfg env w k out db)
  then show ?case by simp
next
  case (2 cfg env v n k out db)
  show ?case
  proof (cases "claimable cfg env v (fe_clock env (4 + 3 * k)) db")
    case None
    with "2.prems" show ?thesis by (simp add: Let_def split: if_splits)
  next
    case (Some it)
    obtain i t where it: "it = (i, t)" by (cases it)
    from "2.prems"(1) Some it have c: "\<not> \<not> fe_call env (4 + 3 * k)"
      "\<not> (\<not> calls env [4 + 3 * k + 1, 4 + 3 * k + 2] \<or> map_of (fd_attempts db) (fe_ids env k) \<noteq> None)"
      by (auto simp: Let_def split: if_splits)
    note rest = "2.prems"(1) [unfolded claim_loop.simps Let_def Some it option.case prod.case if_not_P [OF c(1)] if_not_P [OF c(2)]]
    have "fenced p w db (db\<lparr>fd_attempts := AList.update j (new_attempt env i v lease deadline) (fd_attempts db), fd_tasks := y\<rparr>)"
      for j lease deadline y
      using "2.prems"(2) by (simp add: fenced_def gomap_simps new_attempt_def)
    moreover note "2.IH" [OF refl c(1) Some it [symmetric] refl refl refl c(2) rest "2.prems"(2)]
    ultimately show ?thesis using fenced_trans by blast
  qed
qed

lemma renew_fenced:
  "v \<noteq> w \<Longrightarrow> fd_attempts db1 = fd_attempts db \<Longrightarrow> fenced p w db (renew_leases cfg v ids now db1)"
  by (rule fenced_mapped [where g = "\<lambda>i a. if holds_lease A_running v ids now db1 i a
        then a\<lparr>fa_lease := min (now + interval (fc_lease cfg)) (min (fa_deadline a) (task_deadline db1 a)), fa_updated := now\<rparr>
        else a"]) (auto simp: renew_leases_def fenced_row_def holds_lease_def)

lemma fence_fenced: "v \<noteq> w \<or> p \<Longrightarrow> fd_attempts db1 = fd_attempts db \<Longrightarrow> fenced p w db (fence_worker v now db1)"
  by (rule fenced_mapped [where g = "\<lambda>i a. if fa_worker a = v \<and> fa_state a \<in> {A_running, A_uploading} then a\<lparr>fa_lease := now\<rparr>
        else a"]) (auto simp: fence_worker_def fenced_row_def)

lemma expire_fenced:
  assumes "expire_tasks cfg lb env k now its db = Some db'"
  shows "fenced p w db db'"
  using assms
proof (induction its arbitrary: k db)
  case (Cons it its)
  obtain i t where it: "it = (i, t)" by (cases it)
  from Cons.prems obtain db1 where db1: "expire_task cfg lb env k now (i, t) db = Some db1"
    and rest: "expire_tasks cfg lb env (k + 3) now its db1 = Some db'"
    by (auto simp: bind_eq_Some_conv it)
  have "fenced p w db db1"
  proof (cases "fd_attempts db1 = fd_attempts db")
    case False
    with db1 obtain c a msg u where "map_of (fd_attempts db) c = Some a" "live_attempt a"
      "fd_attempts db1 = AList.update c (a\<lparr>fa_state := A_expired, fa_failure := ''timeout'', fa_error := msg, fa_updated := u\<rparr>) (fd_attempts db)"
      by (auto simp: expire_task_def Let_def bind_eq_Some_conv split: if_splits option.splits)
    then show ?thesis by (intro fenced_put) (auto simp: fenced_row_def)
  qed auto
  with Cons.IH [OF rest] show ?case by (blast intro: fenced_trans)
qed simp

lemma report_fenced:
  assumes "report_tx cfg lb env v r db = Inr (rc, Some db')" and "\<not> admitted db w"
  shows "fenced p w db db'"
proof (cases "fd_attempts db' = fd_attempts db")
  case False
  obtain a t where at: "worker_attempt db v (rq_attempt r) = Some (a, t)"
    using assms(1) by (cases "worker_attempt db v (rq_attempt r)") (auto simp: report_tx_def split: if_splits)
  note row = worker_attempt_SomeD [OF at]
  have "attempt_current db (fe_clock env 3) (rq_attempt r) a t"
    using assms(1) at False unfolding report_tx_def Let_def at option.case prod.case by (auto split: if_split_asm)
  with assms(2) have other: "fa_worker a \<noteq> w" by (auto dest: current_admitted)
  from assms(1) at False obtain a' where "fd_attempts db' = AList.update (rq_attempt r) a' (fd_attempts db)" "fa_worker a' = fa_worker a"
    unfolding report_tx_def Let_def at option.case prod.case by (auto split: if_split_asm)
  with other show ?thesis by (intro fenced_put [OF row(1)]) auto
qed auto

lemma heartbeat_refused: "\<not> admitted db w \<Longrightarrow> \<exists>e. heartbeat_tx cfg lb env w hb db = Inl e"
  by (auto simp: heartbeat_tx_def admitted_def split: option.splits)

lemma claim_refused: "\<not> admitted db w \<Longrightarrow> \<exists>e. claim_tx cfg env w k db = Inl e"
  by (auto simp: claim_tx_def admitted_def worker_admitted_def split: option.splits)

lemma action_on_unadmitted:
  "action_tx env w act db = Inr (r, Some db') \<Longrightarrow> \<not> admitted db w \<Longrightarrow> pending_worker db w"
  by (auto simp: action_tx_def admitted_def pending_worker_def worker_admitted_def split: option.splits if_splits node_status.splits)
    (metis node_status.exhaust)+

lemma table_step_fenced:
  assumes "table_step cfg lb db db'" and "fleet_ok cfg db" and "\<not> admitted db w"
  shows "fenced (pending_worker db w) w db db'"
  using assms(1)
proof cases
  case (Enqueue env rq key ref)
  show ?thesis unfolding Enqueue
    by (rule transact_fenced) (auto simp: enqueue_tx_def admit_def Let_def split: if_splits option.splits)
next
  case (Enroll env)
  show ?thesis unfolding Enroll by (rule transact_fenced) (auto simp: enrollment_tx_def Let_def split: if_splits)
next
  case (Register env rr)
  show ?thesis unfolding Register
    by (rule transact_fenced) (auto simp: register_tx_def Let_def split: if_splits option.splits)
next
  case (Heartbeat env v hb)
  show ?thesis unfolding Heartbeat
  proof (rule transact_fenced)
    fix r db2 assume tx: "heartbeat_tx cfg lb env v hb db = Inr (r, Some db2)"
    with heartbeat_refused [OF assms(3), of cfg lb env hb] have "v \<noteq> w" by auto
    with tx show "fenced (pending_worker db w) w db db2"
      by (auto simp: heartbeat_tx_def Let_def split: if_splits option.splits intro: renew_fenced)
  qed
next
  case (Claim env v wanted)
  show ?thesis unfolding Claim
  proof (rule transact_fenced)
    fix r db2 assume tx: "claim_tx cfg env v wanted db = Inr (r, Some db2)"
    then obtain n where n: "map_of (fd_nodes db) v = Some n" "fn_status n = N_approved"
      and loop: "claim_loop cfg env v (nat (claim_limit cfg wanted n v db)) 0 [] db = Inr (r, db2)"
      by (auto simp: claim_tx_def split: if_splits option.splits sum.splits)
    have "v \<noteq> w" using n assms(3) by (auto simp: admitted_def worker_admitted_def)
    with loop show "fenced (pending_worker db w) w db db2" by (rule claim_loop_fenced)
  qed
next
  case (Report env v rep)
  show ?thesis unfolding Report by (rule transact_fenced) (use report_fenced assms(3) in blast)
next
  case (Action env v act)
  show ?thesis unfolding Action
  proof (rule transact_fenced)
    fix r db2 assume tx: "action_tx env v act db = Inr (r, Some db2)"
    then have "v \<noteq> w \<or> pending_worker db w" using action_on_unadmitted [OF _ assms(3)] by blast
    with tx show "fenced (pending_worker db w) w db db2"
      by (auto simp: action_tx_def Let_def split: if_splits option.splits intro: fence_fenced)
  qed
next
  case (Expire env)
  show ?thesis unfolding Expire
    by (rule transact_fenced) (auto simp: expire_tx_def Let_def split: if_splits option.splits intro: expire_fenced)
next
  case (Note_task i msg)
  then show ?thesis by (simp add: note_failure_task_def fenced_same)
next
  case (Note_attempt now i msg)
  then show ?thesis
    by (auto simp: note_failure_attempt_def fenced_row_def split: option.splits intro: fenced_put_attempt)
next
  case (Drop_enrollments now)
  then show ?thesis by (simp add: drop_enrollments_def fenced_same)
next
  case (Drop_tasks now)
  show ?thesis unfolding Drop_tasks drop_tasks_def Let_def
    by (rule fenced_filter [OF fleet_invD(5) [OF fleet_okD(1) [OF assms(2)]]]) simp
next
  case (Drop_nodes now)
  then show ?thesis by (simp add: drop_nodes_def fenced_same)
qed

lemma step_fenced:
  assumes "fleet_step cfg lb m m'" and "fleet_machine_inv cfg lb m" and "\<not> admitted (fs_db (fm_fleet m)) w"
  shows "fenced (pending_worker (fs_db (fm_fleet m)) w) w (fs_db (fm_fleet m)) (fs_db (fm_fleet m'))"
  using assms(1)
proof cases
  case (Table db')
  with table_step_fenced [OF Table(2) fleet_machine_invD(1) [OF assms(2)] assms(3)] show ?thesis by simp
next
  case (Hook env failure)
  then show ?thesis
    by (auto simp: deliver_hook_def Let_def put_db_def transact_def split: option.splits commit_outcome.splits)
next
  case (Reserve env rm_ok v u r s')
  from Reserve(2) show ?thesis
  proof (cases rule: upload_reserve_cases)
    case (2 a t s1)
    let ?tx = "reserve_tx cfg lb env u (to_lower (lb_lower lb) (up_sha u)) a t (fs_db (fm_fleet m))"
    note row = worker_attempt_SomeD [OF 2(1)]
    have "fs_db s1 = fs_db (fm_fleet m)" using 2(4) by auto
    then have "fs_db s' = snd (transact env (fs_db (fm_fleet m)) ?tx)" using 2(5) by (auto simp: put_db_def)
    moreover have "fenced (pending_worker (fs_db (fm_fleet m)) w) w (fs_db (fm_fleet m)) (snd (transact env (fs_db (fm_fleet m)) ?tx))"
    proof (rule transact_fenced)
      fix q db' assume tx: "?tx = Inr (q, Some db')"
      have size: "0 \<le> up_size u" using 2(3) by (simp add: min_pdf_bytes_def)
      from reserve_keeps [OF fleet_machine_invD(1) [OF assms(2)] row(1,2) 2(2) size tx] obtain a' where
        a': "db' = put_attempt (up_attempt u) a' (fs_db (fm_fleet m))" "attempt_moves a a'"
        "attempt_current (fs_db (fm_fleet m)) (fe_clock env 5) (up_attempt u) a t" by metis
      with assms(3) have "fa_worker a \<noteq> w" by (auto dest: current_admitted)
      with a'(2) show "fenced (pending_worker (fs_db (fm_fleet m)) w) w (fs_db (fm_fleet m)) db'" unfolding a'(1)
        by (intro fenced_put_attempt(1) [OF row(1)]) (simp add: attempt_moves_def)
    qed
    ultimately show ?thesis using Reserve(1) by simp
  qed (use Reserve(1) in auto)
next
  case (Stream k env io)
  obtain r s' where eq: "stream_stage lb env io k (fm_fleet m) = (r, s')" by (cases "stream_stage lb env io k (fm_fleet m)")
  from eq show ?thesis
  proof (cases rule: stream_stage_cases)
    case (3 a t t' body mt)
    with assms(3) have "fa_worker a \<noteq> w" by (auto dest: current_admitted)
    with 3(1,9) Stream(1) eq show ?thesis
      by (auto simp: put_db_def transact_def staged_db_def split: commit_outcome.splits intro!: fenced_put_attempt)
  qed (use Stream(1) eq in auto)
next
  case (Reset k env rm_ok)
  have "fenced (pending_worker (fs_db (fm_fleet m)) w) w (fs_db (fm_fleet m)) (fs_db (snd (reset_transfer env rm_ok k (fm_fleet m))))"
  proof (rule reset_transfer_cases [of env rm_ok k "fm_fleet m"])
    fix a assume a: "map_of (fd_attempts (fs_db (fm_fleet m))) (tk_attempt k) = Some a"
      "fs_db (snd (reset_transfer env rm_ok k (fm_fleet m))) =
        put_attempt (tk_attempt k) (a\<lparr>fa_path := [], fa_upload := []\<rparr>) (fs_db (fm_fleet m))"
    show ?thesis unfolding a(2) by (rule fenced_put_attempt(1) [OF a(1)]) (simp add: fenced_row_def)
  qed auto
  with Reset show ?thesis by simp
next
  case (Commit env cio i c s')
  from Commit(2) show ?thesis
  proof (cases rule: commit_archive_cases)
    case (2 a t body identity)
    have "fenced (pending_worker (fs_db (fm_fleet m)) w) w (fs_db (fm_fleet m)) (done_db env h i a t out (fs_db (fm_fleet m)))" for h out
      by (rule fenced_put [OF 2(1)]) (simp_all add: done_db_def fenced_row_def 2(5))
    with 2(8) Commit(1) show ?thesis
      by (auto simp: archive_tx_def Let_def put_db_def transact_def split: if_splits commit_outcome.splits)
  qed (use Commit(1) in auto)
next
  case (Clean path env rm_ok i)
  have "fenced (pending_worker (fs_db (fm_fleet m)) w) w (fs_db (fm_fleet m)) (released i (fs_db (fm_fleet m)))"
    by (auto simp: released_def fenced_row_def split: option.splits intro!: fenced_put_attempt)
  with Clean show ?thesis by (auto simp: clean_file_def put_db_def transact_def split: commit_outcome.splits)
qed auto

text \<open>What such a worker asks for is refused.\<close>

lemma report_refused:
  assumes "\<not> admitted db w"
  shows "snd (transact env db (report_tx cfg lb env w rep db)) = db"
proof (rule transact_cases [of env db "report_tx cfg lb env w rep db"])
  fix rc db' assume tx: "report_tx cfg lb env w rep db = Inr (rc, Some db')"
  obtain a t where at: "worker_attempt db w (rq_attempt rep) = Some (a, t)"
    using tx by (cases "worker_attempt db w (rq_attempt rep)") (auto simp: report_tx_def split: if_splits)
  have "fa_worker a = w" using worker_attempt_SomeD [OF at] by simp
  with assms have "\<not> attempt_current db now i a t" for now i by (auto dest: current_admitted)
  then have "db' = db" using tx unfolding report_tx_def Let_def at option.case prod.case by (auto split: if_split_asm)
  then show ?thesis unfolding tx by (auto simp: transact_def split: commit_outcome.splits)
qed auto

lemma reserve_refused:
  assumes "upload_reserve cfg lb env rm_ok w u s = (r, s')" and "\<not> admitted (fs_db s) w"
  shows "fs_db s' = fs_db s \<and> tickets_of r = {}"
  using assms(1)
proof (cases rule: upload_reserve_cases)
  case (2 a t s1)
  have "fa_worker a = w" using worker_attempt_SomeD [OF 2(1)] by simp
  with assms(2) have "\<not> attempt_current (fs_db s) now i a t" for now i by (auto dest: current_admitted)
  then have "\<exists>e. reserve_tx cfg lb env u (to_lower (lb_lower lb) (up_sha u)) a t (fs_db s) = Inl e"
    by (simp add: reserve_tx_def Let_def)
  with 2(4,5) show ?thesis by (auto simp: put_db_def transact_def)
qed simp

lemma stage_refused:
  assumes "map_of (fd_attempts (fs_db s)) (tk_attempt k) = Some a" and "\<not> admitted (fs_db s) (fa_worker a)"
  shows "\<exists>e s'. stream_stage lb env io k s = (Inl e, s') \<and> fs_db s' = fs_db s"
proof -
  have "\<not> attempt_current (fs_db s) now i a t" for now i t using assms(2) by (auto dest: current_admitted)
  then show ?thesis by (simp add: stream_stage_def Let_def assms(1) split: option.split)
qed

section \<open>Assignments, enrollments and expiry\<close>

text \<open>What an assignment that was handed out says of the tables.\<close>

definition assigned :: "string \<Rightarrow> fleet_db \<Rightarrow> assignment \<Rightarrow> bool" where
  "assigned w db x \<longleftrightarrow>
     (\<exists>a t. map_of (fd_attempts db) (as_attempt x) = Some a \<and> map_of (fd_tasks db) (as_task x) = Some t \<and>
        fa_task a = as_task x \<and> fa_worker a = w \<and> fa_state a = A_running \<and> fa_lease a = as_lease_expires x \<and>
        fa_deadline a = as_deadline x \<and> as_lease_expires x \<le> as_deadline x \<and> as_deadline x \<le> ft_deadline t \<and>
        ft_state t = T_running \<and> ft_current t = Some (as_attempt x) \<and> ft_ref t = as_ref x)"

lemma claim_loop_assigned:
  assumes "claim_loop cfg env w n k out db = Inr (out', db')" and "fleet_ok cfg db" and "map_of (fd_nodes db) w \<noteq> None"
    and "live_count db + int n \<le> fc_max_in_flight cfg" and "live_count_of w db + int n \<le> fc_max_worker_in_flight cfg"
    and "\<forall>x\<in>set out. assigned w db x"
  shows "\<forall>x\<in>set out'. assigned w db' x"
  using assms
proof (induction cfg env w n k out db rule: claim_loop.induct)
  case (1 cfg env w k out db)
  then show ?case by simp
next
  case (2 cfg env w n k out db)
  let ?c = "4 + 3 * k"
  show ?case
  proof (cases "claimable cfg env w (fe_clock env ?c) db")
    case None
    with "2.prems" show ?thesis by (simp add: Let_def split: if_splits)
  next
    case (Some it)
    obtain i t where it: "it = (i, t)" by (cases it)
    let ?dl = "min (ft_deadline t) (fe_clock env ?c + interval (fc_worker_timeout cfg))"
    let ?ls = "min (fe_clock env (?c + 1) + interval (fc_lease cfg)) ?dl"
    let ?aid = "fe_ids env k"
    let ?x = "\<lparr>as_task = i, as_attempt = ?aid, as_ref = ft_ref t, as_lease_expires = ?ls,
                               as_deadline = ?dl, as_max_pdf = fc_max_pdf cfg\<rparr>"
    let ?db = "put_task i (t\<lparr>ft_state := T_running, ft_current := Some ?aid, ft_count := ft_count t + 1,
      ft_updated := fe_clock env (?c + 2)\<rparr>) (put_attempt ?aid (new_attempt env i w ?ls ?dl) db)"
    have eq: "?db = db\<lparr>fd_attempts := AList.update ?aid (new_attempt env i w ?ls ?dl) (fd_attempts db),
        fd_tasks := AList.update i (t\<lparr>ft_state := T_running, ft_current := Some ?aid,
          ft_count := ft_count t + 1, ft_updated := fe_clock env (?c + 2)\<rparr>) (fd_tasks db)\<rparr>"
      by (simp add: put_task_def put_attempt_def)
    from "2.prems"(1) Some it have calls: "fe_call env ?c" "calls env [?c + 1, ?c + 2]"
      and new: "map_of (fd_attempts db) ?aid = None"
      and rest: "claim_loop cfg env w n (Suc k) (out @ [?x]) ?db = Inr (out', db')"
      unfolding eq by (auto simp: Let_def split: if_splits)
    have step: "fleet_ok cfg ?db \<and> claim_follows db ?db \<and> live_count ?db = live_count db + 1 \<and>
        live_count_of w ?db = live_count_of w db + 1"
      by (rule assign_step [OF "2.prems"(2) Some [unfolded it] "2.prems"(3) new _ _ refl]) (use "2.prems"(4,5) in simp_all)
    have queued: "map_of (fd_tasks db) i = Some t" "ft_state t = T_queued"
      using claimable_SomeD [OF Some [unfolded it]] fleet_invD(3) [OF fleet_okD(1) [OF "2.prems"(2)]]
      by (simp_all add: gomap_set_iff)
    have keep: "assigned w ?db x" if "assigned w db x" for x
    proof -
      from that queued new have "as_task x \<noteq> i" "as_attempt x \<noteq> ?aid" by (auto simp: assigned_def)
      with that show ?thesis by (simp add: assigned_def gomap_simps)
    qed
    moreover have "assigned w ?db ?x" by (simp add: assigned_def gomap_simps new_attempt_def min_le_iff_disj)
    ultimately have all: "\<forall>x\<in>set (out @ [?x]). assigned w ?db x" using "2.prems"(6) by auto
    show ?thesis
    proof (rule "2.IH" [OF refl _ Some it [symmetric] refl refl refl, folded eq])
      show "\<not> \<not> fe_call env ?c" using calls(1) by simp
      show "\<not> (\<not> calls env [?c + 1, ?c + 2] \<or> map_of (fd_attempts db) (fe_ids env k) \<noteq> None)" using calls(2) new by simp
      show "claim_loop cfg env w n (Suc k) (out @ [?x]) ?db = Inr (out', db')" by (rule rest)
      show "fleet_ok cfg ?db" using step by blast
      show "map_of (fd_nodes ?db) w \<noteq> None" using "2.prems"(3) by simp
      show "live_count ?db + int n \<le> fc_max_in_flight cfg" using step "2.prems"(4) by linarith
      show "live_count_of w ?db + int n \<le> fc_max_worker_in_flight cfg" using step "2.prems"(5) by linarith
    qed (rule all)
  qed
qed

lemma claim_tx_SomeD:
  assumes "claim_tx cfg env w wanted db = Inr (out, Some db')" and "fleet_ok cfg db"
  obtains n seen where "map_of (fd_nodes db) w = Some n" and "fn_status n = N_approved" and "fn_seen n = Some seen"
    and "int (fe_go env) - int seen \<le> fc_lease cfg"
    and "claim_loop cfg env w (nat (claim_limit cfg wanted n w db)) 0 [] db = Inr (out, db')"
    and "live_count db + int (nat (claim_limit cfg wanted n w db)) \<le> fc_max_in_flight cfg"
    and "live_count_of w db + int (nat (claim_limit cfg wanted n w db)) \<le> fc_max_worker_in_flight cfg"
proof -
  from assms(1) obtain n seen where n: "map_of (fd_nodes db) w = Some n" "fn_status n = N_approved" "fn_seen n = Some seen"
    "int (fe_go env) - int seen \<le> fc_lease cfg"
    "claim_loop cfg env w (nat (claim_limit cfg wanted n w db)) 0 [] db = Inr (out, db')"
    by (auto simp: claim_tx_def split: if_splits option.splits sum.splits)
  have "live_count db \<le> fc_max_in_flight cfg" "live_count_of w db \<le> fc_max_worker_in_flight cfg"
    using assms(2) by (simp_all add: fleet_ok_def fleet_room_def)
  moreover have "claim_limit cfg wanted n w db \<le> fc_max_in_flight cfg - live_count db"
    "claim_limit cfg wanted n w db \<le> fc_max_worker_in_flight cfg - live_count_of w db"
    by (simp_all add: claim_limit_def min.coboundedI1 min.coboundedI2)
  ultimately show thesis using that [OF n] by simp
qed

text \<open>A task that has been handled by a round of expiry at one instant is not due at it any more, and the attempts of
  the others stay as they are.\<close>

lemma expire_task_settles:
  assumes "fleet_ok cfg db" and "map_of (fd_tasks db) i = Some t" and "active_task t" and "\<And>k. fe_clock env k = now"
    and "expire_task cfg lb env k now (i, t) db = Some db'"
  obtains t' where "map_of (fd_tasks db') i = Some t'" and "\<And>d. \<not> expire_due cfg now d t'"
    and "\<And>j a. map_of (fd_attempts db) j = Some a \<Longrightarrow> fa_task a \<noteq> i \<Longrightarrow> map_of (fd_attempts db') j = Some a"
proof -
  define t' where "t' = t\<lparr>ft_state := (if ft_deadline t \<le> now \<or> fc_max_attempts cfg \<le> ft_count t \<or> ft_state t = T_staged
                                   then T_failed else T_queued),
                   ft_error := expire_message cfg lb now i t db, ft_updated := now\<rparr>"
  have due: "\<not> expire_due cfg now d t'" for d by (auto simp: t'_def expire_due_def split: if_splits)
  from assms(4,5) have "db' = put_task i t' db \<or>
      (\<exists>c a'. db' = put_task i t' (put_attempt c a' db) \<and> ft_current t = Some c \<and> ft_state t \<noteq> T_queued)"
    by (auto simp: expire_task_def Let_def t'_def [symmetric] bind_eq_Some_conv split: if_splits option.splits)
  then show thesis
  proof
    assume db': "db' = put_task i t' db"
    show thesis by (rule that [OF _ due]) (simp_all add: db' gomap_simps)
  next
    assume "\<exists>c a'. db' = put_task i t' (put_attempt c a' db) \<and> ft_current t = Some c \<and> ft_state t \<noteq> T_queued"
    then obtain c a' where db': "db' = put_task i t' (put_attempt c a' db)" "ft_current t = Some c" "ft_state t \<noteq> T_queued"
      by blast
    from db'(3) assms(3) have "current_states (ft_state t) \<noteq> {}" by (auto simp: active_task_def)
    from task_ok_has [OF fleet_invD(7) [OF fleet_okD(1) [OF assms(1)] assms(2)] this] db'(2) obtain a where
      "map_of (fd_attempts db) c = Some a" "fa_task a = i" by auto
    then show thesis by (intro that [OF _ due]) (auto simp: db'(1) gomap_simps)
  qed
qed

lemma expire_tasks_settle:
  assumes "fleet_ok cfg db" and "\<And>i t. (i, t) \<in> set its \<Longrightarrow> map_of (fd_tasks db) i = Some t \<and> active_task t"
    and "distinct (map fst its)" and "\<And>k. fe_clock env k = now" and "expire_tasks cfg lb env k now its db = Some db'"
  shows "(map_of (fd_tasks db') i = Some t' \<longrightarrow>
      (if i \<in> fst ` set its then \<not> expire_due cfg now db' t' else map_of (fd_tasks db) i = Some t')) \<and>
    (map_of (fd_attempts db) j = Some a \<longrightarrow> fa_task a \<notin> fst ` set its \<longrightarrow> map_of (fd_attempts db') j = Some a)"
  using assms(1-3,5)
proof (induction its arbitrary: k db)
  case (Cons it its)
  obtain i0 t0 where it: "it = (i0, t0)" by (cases it)
  with Cons.prems(4) obtain db1 where db1: "expire_task cfg lb env k now (i0, t0) db = Some db1"
    and rest: "expire_tasks cfg lb env (k + 3) now its db1 = Some db'"
    by (auto simp: bind_eq_Some_conv)
  have row: "map_of (fd_tasks db) i0 = Some t0" "active_task t0" using Cons.prems(2) it by auto
  note step = expire_task_keeps [OF Cons.prems(1) row db1]
  from expire_task_settles [OF Cons.prems(1) row assms(4) db1] obtain t1 where
    t1: "map_of (fd_tasks db1) i0 = Some t1" "\<And>d. \<not> expire_due cfg now d t1"
    "\<And>j a. map_of (fd_attempts db) j = Some a \<Longrightarrow> fa_task a \<noteq> i0 \<Longrightarrow> map_of (fd_attempts db1) j = Some a" by metis
  have new: "i0 \<notin> fst ` set its" using Cons.prems(3) it by auto
  have IH: "(map_of (fd_tasks db') i = Some t' \<longrightarrow>
      (if i \<in> fst ` set its then \<not> expire_due cfg now db' t' else map_of (fd_tasks db1) i = Some t')) \<and>
    (map_of (fd_attempts db1) j = Some a \<longrightarrow> fa_task a \<notin> fst ` set its \<longrightarrow> map_of (fd_attempts db') j = Some a)"
  proof (rule Cons.IH [OF _ _ _ rest])
    show "map_of (fd_tasks db1) i' = Some t'' \<and> active_task t''" if "(i', t'') \<in> set its" for i' t''
    proof -
      from that new have "i' \<noteq> i0" by force
      with step have "map_of (fd_tasks db1) i' = map_of (fd_tasks db) i'" by blast
      with Cons.prems(2) [of i' t''] that show ?thesis by simp
    qed
  qed (use step Cons.prems(3) in simp_all)
  show ?case
  proof (intro conjI impI)
    assume t': "map_of (fd_tasks db') i = Some t'"
    show "if i \<in> fst ` set (it # its) then \<not> expire_due cfg now db' t' else map_of (fd_tasks db) i = Some t'"
    proof (cases "i = i0")
      case True
      with IH t' new t1(1,2) it show ?thesis by auto
    next
      case False
      with step have "map_of (fd_tasks db1) i = map_of (fd_tasks db) i" by blast
      with IH t' False it show ?thesis by auto
    qed
  next
    assume "map_of (fd_attempts db) j = Some a" "fa_task a \<notin> fst ` set (it # its)"
    with IH t1(3) it show "map_of (fd_attempts db') j = Some a" by auto
  qed
qed simp

text \<open>
  The rows of enrollment tokens: one that has been used stays as it is until it is dropped, and a row that is not there
  comes only by issuing its token.
\<close>

definition enrollments_kept :: "fleet_db \<Rightarrow> fleet_db \<Rightarrow> bool" where
  "enrollments_kept db db' \<longleftrightarrow>
     (\<forall>h en. map_of (fd_enrollments db) h = Some en \<longrightarrow> en_used en \<noteq> None \<longrightarrow> map_of (fd_enrollments db') h \<in> {Some en, None})"

definition token_issued :: "string \<Rightarrow> fleet_machine \<Rightarrow> fleet_machine \<Rightarrow> bool" where
  "token_issued h m m' \<longleftrightarrow>
     map_of (fd_enrollments (fs_db (fm_fleet m))) h = None \<and> map_of (fd_enrollments (fs_db (fm_fleet m'))) h \<noteq> None"

lemma enrollments_same [simp, intro]: "fd_enrollments db' = fd_enrollments db \<Longrightarrow> enrollments_kept db db'"
  by (simp add: enrollments_kept_def)

lemma transact_enrollments:
  assumes "\<And>r db'. tx = Inr (r, Some db') \<Longrightarrow> enrollments_kept db db'"
  shows "enrollments_kept db (snd (transact env db tx))"
  by (rule transact_cases [of env db tx]) (use assms in auto)

lemma claim_loop_enrollments:
  "claim_loop cfg env v n k out db = Inr (out', db') \<Longrightarrow> fd_enrollments db' = fd_enrollments db"
  by (induction cfg env v n k out db rule: claim_loop.induct)
    (auto simp: Let_def split: if_splits option.splits prod.splits)

lemma expire_enrollments:
  "expire_tasks cfg lb env k now its db = Some db' \<Longrightarrow> fd_enrollments db' = fd_enrollments db"
proof (induction its arbitrary: k db)
  case (Cons it its)
  then show ?case
    by (cases it) (auto simp: bind_eq_Some_conv expire_task_def Let_def split: if_splits option.splits dest!: Cons.IH)
qed simp

lemma table_step_enrollments:
  assumes "table_step cfg lb db db'" and "gomap_ok (fd_enrollments db)"
  shows "enrollments_kept db db'"
  using assms(1)
proof cases
  case (Enqueue env rq key ref)
  show ?thesis unfolding Enqueue
    by (rule transact_enrollments) (auto simp: enqueue_tx_def admit_def Let_def split: if_splits option.splits)
next
  case (Enroll env)
  show ?thesis unfolding Enroll
    by (rule transact_enrollments) (auto simp: enrollment_tx_def Let_def enrollments_kept_def gomap_simps split: if_splits)
next
  case (Register env rr)
  show ?thesis unfolding Register
    by (rule transact_enrollments)
      (auto simp: register_tx_def Let_def enrollments_kept_def gomap_simps split: if_splits option.splits)
next
  case (Heartbeat env v hb)
  show ?thesis unfolding Heartbeat
    by (rule transact_enrollments) (auto simp: heartbeat_tx_def Let_def renew_leases_def split: if_splits option.splits)
next
  case (Claim env v wanted)
  show ?thesis unfolding Claim
    by (rule transact_enrollments)
      (auto simp: claim_tx_def split: if_splits option.splits sum.splits dest!: claim_loop_enrollments)
next
  case (Report env v rep)
  show ?thesis unfolding Report
    by (rule transact_enrollments) (auto simp: report_tx_def Let_def split: if_splits option.splits)
next
  case (Action env v act)
  show ?thesis unfolding Action
    by (rule transact_enrollments) (auto simp: action_tx_def fence_worker_def Let_def split: if_splits option.splits)
next
  case (Expire env)
  show ?thesis unfolding Expire
    by (rule transact_enrollments) (auto simp: expire_tx_def Let_def split: if_splits option.splits dest!: expire_enrollments)
next
  case (Note_task i msg)
  then show ?thesis by (auto simp: note_failure_task_def split: option.splits)
next
  case (Note_attempt now i msg)
  then show ?thesis by (auto simp: note_failure_attempt_def split: option.splits)
next
  case (Drop_enrollments now)
  have "map_of (fd_enrollments db') h \<in> {Some en, None}" if "map_of (fd_enrollments db) h = Some en" for h en
    using that assms(2) unfolding Drop_enrollments
    by (cases "map_of (fd_enrollments (drop_enrollments now db)) h") (auto simp: drop_enrollments_def map_of_filter_Some)
  then show ?thesis unfolding enrollments_kept_def by blast
qed (auto simp: drop_tasks_def drop_nodes_def Let_def)

lemma step_enrollments:
  assumes "fleet_step cfg lb m m'" and "fleet_machine_inv cfg lb m"
  shows "enrollments_kept (fs_db (fm_fleet m)) (fs_db (fm_fleet m'))"
  using assms(1)
proof cases
  case (Table db')
  with table_step_enrollments [OF Table(2) fleet_invD(2) [OF fleet_okD(1) [OF fleet_machine_invD(1) [OF assms(2)]]]]
  show ?thesis by simp
next
  case (Hook env failure)
  then show ?thesis
    by (auto simp: deliver_hook_def Let_def put_db_def transact_def split: option.splits commit_outcome.splits)
next
  case (Reserve env rm_ok v u r s')
  from Reserve(2) have "enrollments_kept (fs_db (fm_fleet m)) (fs_db s')"
  proof (cases rule: upload_reserve_cases)
    case (2 a t s1)
    let ?tx = "reserve_tx cfg lb env u (to_lower (lb_lower lb) (up_sha u)) a t (fs_db (fm_fleet m))"
    have "fs_db s' = snd (transact env (fs_db (fm_fleet m)) ?tx)" using 2(4,5) by (auto simp: put_db_def)
    moreover have "enrollments_kept (fs_db (fm_fleet m)) (snd (transact env (fs_db (fm_fleet m)) ?tx))"
    proof (rule transact_enrollments)
      fix q db' assume "?tx = Inr (q, Some db')"
      then have "fd_enrollments db' = fd_enrollments (fs_db (fm_fleet m))"
        unfolding reserve_tx_def Let_def by (simp split: if_split_asm) auto
      then show "enrollments_kept (fs_db (fm_fleet m)) db'" by simp
    qed
    ultimately show ?thesis by simp
  qed simp
  with Reserve(1) show ?thesis by simp
next
  case (Stream k env io)
  obtain r s' where eq: "stream_stage lb env io k (fm_fleet m) = (r, s')" by (cases "stream_stage lb env io k (fm_fleet m)")
  then have "fd_enrollments (fs_db s') = fd_enrollments (fs_db (fm_fleet m))"
    by (cases rule: stream_stage_cases) (auto simp: put_db_def transact_def staged_db_def split: commit_outcome.splits)
  with Stream(1) eq show ?thesis by simp
next
  case (Reset k env rm_ok)
  have "fd_enrollments (fs_db (snd (reset_transfer env rm_ok k (fm_fleet m)))) = fd_enrollments (fs_db (fm_fleet m))"
    by (rule reset_transfer_cases [of env rm_ok k "fm_fleet m"]) auto
  with Reset show ?thesis by simp
next
  case (Commit env cio i c s')
  from Commit(2) have "fd_enrollments (fs_db s') = fd_enrollments (fs_db (fm_fleet m))"
  proof (cases rule: commit_archive_cases)
    case (2 a t body identity)
    have "fd_enrollments (done_db env hk i a t out db) = fd_enrollments db" for hk out db by (simp add: done_db_def)
    with 2(8) show ?thesis
      by (auto simp: archive_tx_def Let_def put_db_def transact_def split: if_splits commit_outcome.splits)
  qed simp
  with Commit(1) show ?thesis by simp
next
  case (Clean path env rm_ok i)
  then show ?thesis
    by (auto simp: clean_file_def released_def put_db_def transact_def split: commit_outcome.splits option.splits)
qed auto

lemma spent_stays:
  assumes "(\<lambda>a b. fleet_step cfg lb a b \<and> \<not> token_issued h a b)\<^sup>*\<^sup>* m m'" and "fleet_machine_inv cfg lb m"
    and "fleet_validate cfg = None" and "\<forall>en. map_of (fd_enrollments (fs_db (fm_fleet m))) h = Some en \<longrightarrow> en_used en = Some w"
  shows "fleet_machine_inv cfg lb m' \<and> (\<forall>en. map_of (fd_enrollments (fs_db (fm_fleet m'))) h = Some en \<longrightarrow> en_used en = Some w)"
  using assms(1)
proof (induction rule: rtranclp_induct)
  case base
  with assms(2,4) show ?case by blast
next
  case (step b c)
  have "fleet_machine_inv cfg lb c" using step.hyps(2) step.IH step_machine assms(3) by blast
  moreover have "en_used en = Some w" if en: "map_of (fd_enrollments (fs_db (fm_fleet c))) h = Some en" for en
  proof -
    from en step.hyps(2) obtain en0 where en0: "map_of (fd_enrollments (fs_db (fm_fleet b))) h = Some en0"
      by (auto simp: token_issued_def)
    with step.IH have used: "en_used en0 = Some w" by blast
    have "enrollments_kept (fs_db (fm_fleet b)) (fs_db (fm_fleet c))" using step step_enrollments by blast
    with en0 used en have "en = en0" by (fastforce simp: enrollments_kept_def)
    with used show ?thesis by simp
  qed
  ultimately show ?case by blast
qed

lemma registered_step:
  assumes "register_tx lb env r (fs_db (fm_fleet m)) = Inr (n, Some db')"
  shows "fleet_step cfg lb m (m\<lparr>fm_fleet := fm_fleet m\<lparr>fs_db := db'\<rparr>\<rparr>)"
proof -
  have "snd (transact (env\<lparr>fe_commit := Committed\<rparr>) (fs_db (fm_fleet m)) (Inr (n, Some db'))) = db'"
    by (simp add: transact_def)
  moreover have "register_tx lb (env\<lparr>fe_commit := Committed\<rparr>) r (fs_db (fm_fleet m)) = register_tx lb env r (fs_db (fm_fleet m))"
  proof -
    have "fe_call (env\<lparr>fe_commit := Committed\<rparr>) = fe_call env" "fe_go (env\<lparr>fe_commit := Committed\<rparr>) = fe_go env"
      "fe_start (env\<lparr>fe_commit := Committed\<rparr>) = fe_start env" "fe_clock (env\<lparr>fe_commit := Committed\<rparr>) = fe_clock env"
      by simp_all
    then show ?thesis by (simp only: register_tx_def calls_def)
  qed
  ultimately have "table_step cfg lb (fs_db (fm_fleet m)) db'"
    using table_step.Register [of cfg lb "fs_db (fm_fleet m)" "env\<lparr>fe_commit := Committed\<rparr>" r] assms by simp
  then show ?thesis by (rule fleet_step.Table)
qed

section \<open>Properties\<close>

text \<open>C8: In every state the coordinator can reach, by any interleaving of its requests, transfers and
  maintenance and with any failures of calls and commits, its tables are consistent: a task counts its attempts and
  has at most the configured number; a live attempt is the current one of its task, so that a task has at most one;
  no worker gets a task twice; and there is at most one active task for an identity.\<close>

theorem fleet_tables_consistent:
  assumes "fleet_run cfg lb init_machine m" and "fleet_validate cfg = None" and "db = fs_db (fm_fleet m)"
  shows "(\<forall>i t. map_of (fd_tasks db) i = Some t \<longrightarrow>
      ft_count t = attempt_total i db \<and> ft_count t \<le> fc_max_attempts cfg) \<and>
    (\<forall>j a t. map_of (fd_attempts db) j = Some a \<longrightarrow> live_attempt a \<longrightarrow> map_of (fd_tasks db) (fa_task a) = Some t \<longrightarrow>
      ft_current t = Some j) \<and>
    (\<forall>j a j' a'. map_of (fd_attempts db) j = Some a \<longrightarrow> map_of (fd_attempts db) j' = Some a' \<longrightarrow>
      fa_task a = fa_task a' \<longrightarrow> fa_worker a = fa_worker a' \<longrightarrow> j = j') \<and>
    (\<forall>i t i' t'. map_of (fd_tasks db) i = Some t \<longrightarrow> map_of (fd_tasks db) i' = Some t' \<longrightarrow>
      active_task t \<longrightarrow> active_task t' \<longrightarrow> ft_identity t = ft_identity t' \<longrightarrow> i = i')"
proof -
  have inv: "fleet_inv cfg db" using fleet_machine_invD(1) [OF run_machine [OF assms(1,2)]] assms(3) by (simp add: fleet_ok_def)
  have "ft_current t = Some j"
    if "map_of (fd_attempts db) j = Some a" "live_attempt a" "map_of (fd_tasks db) (fa_task a) = Some t" for j a t
    using task_ok_current [OF fleet_invD(7) [OF inv that(3)] that(1) refl] that(2) by (auto simp: live_attempt_def)
  moreover have "ft_count t = attempt_total i db \<and> ft_count t \<le> fc_max_attempts cfg"
    if "map_of (fd_tasks db) i = Some t" for i t
    using fleet_invD(7) [OF inv that] by (simp add: task_ok_def)
  ultimately show ?thesis using inv_one_attempt [OF inv] inv_one_active [OF inv] by blast
qed

text \<open>C9: In every reachable state the live attempts are at most \<open>MaxInFlight\<close> in all and \<open>MaxWorkerInFlight\<close> for each
  worker, and the space reserved in the spool directory is at most \<open>SpoolMaxBytes\<close>.\<close>

theorem fleet_bounds:
  assumes "fleet_run cfg lb init_machine m" and "fleet_validate cfg = None"
  shows "live_count (fs_db (fm_fleet m)) \<le> fc_max_in_flight cfg \<and>
    live_count_of w (fs_db (fm_fleet m)) \<le> fc_max_worker_in_flight cfg \<and>
    reserved_bytes (fs_db (fm_fleet m)) \<le> fc_spool_max cfg"
  using fleet_machine_invD(1) [OF run_machine [OF assms]] by (simp add: fleet_ok_def fleet_room_def)

text \<open>C10: Staged bytes are kept: whatever retries, resets, cleaning and removal of orphans run beside it, a staged
  attempt has its file in the spool directory, with the announced size and SHA-256 and the form of a PDF, until it is
  staged no longer.\<close>

theorem staged_file_retained:
  assumes "fleet_run cfg lb init_machine m" and "fleet_validate cfg = None"
    and "map_of (fd_attempts (fs_db (fm_fleet m))) j = Some a" and "fa_state a = A_staged"
  shows "\<exists>body mtime. fs_files (fm_fleet m) (fa_path a) = Some (body, mtime) \<and> int (length body) = fa_size a \<and>
    lb_sha lb body = fa_sha a \<and> valid_pdf body"
  using fleet_machine_invD(6) [OF run_machine [OF assms(1,2)] assms(3,4)]
  by (auto simp: staged_file_def genuine_def split: option.splits)

text \<open>C11: A task is done only when the archive callback has succeeded for it, with the paper of the task and bytes
  that have the size and SHA-256 of the outcome which \<open>FetchPDF\<close> then reports.\<close>

theorem done_task_archived:
  assumes "fleet_run cfg lb init_machine m" and "fleet_validate cfg = None"
    and "fetch_poll env i deadline cancelled (fs_db (fm_fleet m)) = Some (Fetch_Done res)"
  shows "\<exists>ref out body. (ref, out, body) \<in> set (fs_archive (fm_fleet m)) \<and> fo_task out = i \<and>
    fo_sha res = fo_sha out \<and> fo_size res = fo_size out \<and> fo_worker res = fo_worker out \<and>
    lb_sha lb body = fo_sha res \<and> int (length body) = fo_size res \<and> valid_pdf body"
proof -
  from assms(3) obtain t out0 where t: "map_of (fd_tasks (fs_db (fm_fleet m))) i = Some t" "ft_state t = T_done"
    "ft_outcome t = Some out0" "res = out0\<lparr>fo_task := i, fo_archived := True\<rparr>"
    by (auto simp: fetch_poll_def split: if_splits option.splits)
  from fleet_machine_invD(8) [OF run_machine [OF assms(1,2)] t(1,2)] obtain out body where
    o: "(ft_ref t, out, body) \<in> set (fs_archive (fm_fleet m))" "ft_outcome t = Some (out\<lparr>fo_archived := True\<rparr>)"
    "fo_task out = i" "genuine lb body (fo_sha out) (fo_size out)"
    unfolding outcome_archived_def by blast
  from o(2) t(3) have "out0 = out\<lparr>fo_archived := True\<rparr>" by simp
  with t(4) o(1,3,4) show ?thesis
    by (intro exI [of _ "ft_ref t"] exI [of _ out] exI [of _ body]) (simp add: genuine_def)
qed

text \<open>C14: What has ended stays as it is: no step changes the receipt of an attempt that is done, failed or expired,
  or the state and the outcome of a task that is done or failed, as long as the row exists.\<close>

theorem ended_is_final:
  assumes "fleet_run cfg lb init_machine m" and "fleet_validate cfg = None" and "fleet_step cfg lb m m'"
  shows "(\<forall>j a a'. map_of (fd_attempts (fs_db (fm_fleet m))) j = Some a \<longrightarrow> ended a \<longrightarrow>
      map_of (fd_attempts (fs_db (fm_fleet m'))) j = Some a' \<longrightarrow> scan_receipt j a' = scan_receipt j a) \<and>
    (\<forall>i t t'. map_of (fd_tasks (fs_db (fm_fleet m))) i = Some t \<longrightarrow> ft_state t \<in> {T_done, T_failed} \<longrightarrow>
      map_of (fd_tasks (fs_db (fm_fleet m'))) i = Some t' \<longrightarrow> ft_state t' = ft_state t \<and> ft_outcome t' = ft_outcome t)"
proof -
  have moves: "db_moves (fs_db (fm_fleet m)) (fs_db (fm_fleet m'))"
    by (rule step_moves [OF assms(3,2) run_machine [OF assms(1,2)]])
  have "scan_receipt j a' = scan_receipt j a" if "map_of (fd_attempts (fs_db (fm_fleet m))) j = Some a" "ended a"
    "map_of (fd_attempts (fs_db (fm_fleet m'))) j = Some a'" for j a a'
  proof -
    from moves that(1,3) have "attempt_moves a a'" by (fastforce simp: db_moves_def rows_follow_def)
    with that(2) show ?thesis by (simp add: attempt_moves_def scan_receipt_def)
  qed
  moreover have "ft_state t' = ft_state t \<and> ft_outcome t' = ft_outcome t"
    if "map_of (fd_tasks (fs_db (fm_fleet m))) i = Some t" "ft_state t \<in> {T_done, T_failed}"
      "map_of (fd_tasks (fs_db (fm_fleet m'))) i = Some t'" for i t t'
  proof -
    from moves that(1,3) have "task_moves t t'" by (fastforce simp: db_moves_def rows_follow_def)
    with that(2) show ?thesis unfolding task_moves_def by blast
  qed
  ultimately show ?thesis by blast
qed

text \<open>C15: Revocation fences: while a worker is not admitted (pending, rejected, revoked or unknown), its heartbeats and
  claims are refused, its reports change no table, its uploads reserve nothing and get no ticket, and a transfer for one
  of its attempts is refused. No step of any party gives it an attempt, renews a lease of one it has or changes what one was
  assigned or what has been announced for it; the attempts stay, expire, or are archived when their file had been staged.\<close>

theorem unadmitted_worker_fenced:
  assumes "fleet_run cfg lb init_machine m" and "fleet_validate cfg = None" and "\<not> admitted (fs_db (fm_fleet m)) w"
  shows "(\<exists>e. heartbeat_tx cfg lb env w hb (fs_db (fm_fleet m)) = Inl e) \<and>
    (\<exists>e. claim_tx cfg env w wanted (fs_db (fm_fleet m)) = Inl e) \<and>
    snd (transact env (fs_db (fm_fleet m)) (report_tx cfg lb env w rep (fs_db (fm_fleet m)))) = fs_db (fm_fleet m) \<and>
    (\<forall>r s'. upload_reserve cfg lb env rm_ok w u (fm_fleet m) = (r, s') \<longrightarrow>
      fs_db s' = fs_db (fm_fleet m) \<and> tickets_of r = {}) \<and>
    (\<forall>k a. map_of (fd_attempts (fs_db (fm_fleet m))) (tk_attempt k) = Some a \<longrightarrow> fa_worker a = w \<longrightarrow>
      (\<exists>e s'. stream_stage lb env io k (fm_fleet m) = (Inl e, s') \<and> fs_db s' = fs_db (fm_fleet m))) \<and>
    (\<forall>m'. fleet_step cfg lb m m' \<longrightarrow>
      fenced (pending_worker (fs_db (fm_fleet m)) w) w (fs_db (fm_fleet m)) (fs_db (fm_fleet m')))"
  by (intro conjI allI impI heartbeat_refused claim_refused report_refused assms(3) stage_refused
      step_fenced [OF _ run_machine [OF assms(1,2)] assms(3)]) (use assms(3) reserve_refused in auto)

text \<open>C22: A claim hands out distinct work that the tables back: each assignment is the running, current attempt of its
  task for this worker, with its lease within its deadline within the deadline of the task; the worker is approved
  and has been seen within a lease; and it holds no more attempts than its capacity allows.\<close>

theorem claim_backed:
  assumes "fleet_run cfg lb init_machine m" and "fleet_validate cfg = None"
    and "claim_tx cfg env w wanted (fs_db (fm_fleet m)) = Inr (out, Some db')"
  shows "(\<forall>x \<in> set out. assigned w db' x) \<and>
    (\<exists>n seen. map_of (fd_nodes (fs_db (fm_fleet m))) w = Some n \<and> fn_status n = N_approved \<and> fn_seen n = Some seen \<and>
       int (fe_go env) - int seen \<le> fc_lease cfg \<and>
       live_count_of w db' = live_count_of w (fs_db (fm_fleet m)) + int (length out) \<and>
       (out \<noteq> [] \<longrightarrow> live_count_of w db' \<le> fn_capacity n))"
proof -
  let ?db = "fs_db (fm_fleet m)"
  have ok: "fleet_ok cfg ?db" by (rule fleet_machine_invD(1) [OF run_machine [OF assms(1,2)]])
  from assms(3) ok show ?thesis
  proof (rule claim_tx_SomeD)
    fix n seen assume n: "map_of (fd_nodes ?db) w = Some n" "fn_status n = N_approved" "fn_seen n = Some seen"
      "int (fe_go env) - int seen \<le> fc_lease cfg"
      and loop: "claim_loop cfg env w (nat (claim_limit cfg wanted n w ?db)) 0 [] ?db = Inr (out, db')"
      and room: "live_count ?db + int (nat (claim_limit cfg wanted n w ?db)) \<le> fc_max_in_flight cfg"
        "live_count_of w ?db + int (nat (claim_limit cfg wanted n w ?db)) \<le> fc_max_worker_in_flight cfg"
    have node: "map_of (fd_nodes ?db) w \<noteq> None" using n(1) by simp
    have "\<forall>x \<in> set out. assigned w db' x" by (rule claim_loop_assigned [OF loop ok node room]) simp
    moreover from claim_loop_keeps [OF loop ok node room]
    have count: "live_count_of w db' = live_count_of w ?db + int (length out)"
      "length out \<le> nat (claim_limit cfg wanted n w ?db)" by simp_all
    moreover have "claim_limit cfg wanted n w ?db \<le> fn_capacity n - live_count_of w ?db"
      by (simp add: claim_limit_def min.coboundedI2)
    then have "live_count_of w db' \<le> fn_capacity n" if "out \<noteq> []"
    proof -
      from that have "0 < length out" by simp
      with count \<open>claim_limit cfg wanted n w ?db \<le> _\<close> show ?thesis by linarith
    qed
    ultimately show ?thesis using n by blast
  qed
qed

text \<open>C23: An enrollment token admits one worker: registering a new identity needs a token that has not been used or
  expired and leaves the worker pending. In every later state, whatever the coordinator does in between (as long as it
  does not draw the same token again), the row of the token is gone or names this worker, and the registration of any
  other new identity with the token is refused.\<close>

theorem enrollment_used_once:
  assumes "fleet_run cfg lb init_machine m" and "fleet_validate cfg = None"
    and "register_tx lb env r (fs_db (fm_fleet m)) = Inr (n, Some db')"
    and "map_of (fd_nodes (fs_db (fm_fleet m))) (rr_id r) = None"
    and "(\<lambda>a b. fleet_step cfg lb a b \<and> \<not> token_issued (lb_digest lb (rr_token r)) a b)\<^sup>*\<^sup>*
      (m\<lparr>fm_fleet := fm_fleet m\<lparr>fs_db := db'\<rparr>\<rparr>) m'"
  shows "(\<exists>en. map_of (fd_enrollments (fs_db (fm_fleet m))) (lb_digest lb (rr_token r)) = Some en \<and> en_used en = None \<and>
      fe_go env < en_expires en) \<and>
    (\<exists>nd. map_of (fd_nodes db') (rr_id r) = Some nd \<and> fn_status nd = N_pending \<and> fn_secret nd = lb_digest lb (rr_secret r)) \<and>
    (\<forall>en. map_of (fd_enrollments (fs_db (fm_fleet m'))) (lb_digest lb (rr_token r)) = Some en \<longrightarrow> en_used en = Some (rr_id r)) \<and>
    (\<forall>env' r'. lb_digest lb (rr_token r') = lb_digest lb (rr_token r) \<longrightarrow>
      map_of (fd_nodes (fs_db (fm_fleet m'))) (rr_id r') = None \<longrightarrow>
      (\<exists>e. register_tx lb env' r' (fs_db (fm_fleet m')) = Inl e))"
proof -
  let ?m = "m\<lparr>fm_fleet := fm_fleet m\<lparr>fs_db := db'\<rparr>\<rparr>" and ?h = "lb_digest lb (rr_token r)"
  from assms(3,4) obtain en where en: "map_of (fd_enrollments (fs_db (fm_fleet m))) ?h = Some en" "en_used en = None"
    "fe_go env < en_expires en"
    and db': "map_of (fd_enrollments db') ?h = Some (en\<lparr>en_used := Some (rr_id r)\<rparr>)"
    "\<exists>nd. map_of (fd_nodes db') (rr_id r) = Some nd \<and> fn_status nd = N_pending \<and> fn_secret nd = lb_digest lb (rr_secret r)"
    by (auto simp: register_tx_def Let_def gomap_simps split: if_splits option.splits)
  have "fleet_step cfg lb m ?m" by (rule registered_step [OF assms(3)])
  with run_machine [OF assms(1,2)] assms(2) have "fleet_machine_inv cfg lb ?m" using step_machine by blast
  from spent_stays [OF assms(5) this assms(2), of "rr_id r"] db'(1)
  have used: "map_of (fd_enrollments (fs_db (fm_fleet m'))) ?h = Some e \<longrightarrow> en_used e = Some (rr_id r)" for e by simp
  have "\<exists>e. register_tx lb env' r' (fs_db (fm_fleet m')) = Inl e"
    if "lb_digest lb (rr_token r') = ?h" "map_of (fd_nodes (fs_db (fm_fleet m'))) (rr_id r') = None" for env' r'
    using that used by (cases "map_of (fd_enrollments (fs_db (fm_fleet m'))) ?h") (simp_all add: register_tx_def)
  with en db'(2) used show ?thesis by blast
qed

text \<open>C24: A round of expiry leaves nothing overdue: when its calls succeed, no row is locked and at most 100 tasks are
  due, no task is due at its instant afterwards. The lease of a lost worker therefore never blocks its task.\<close>

theorem expiry_settles:
  assumes "fleet_run cfg lb init_machine m" and "fleet_validate cfg = None"
    and "expire_tx cfg lb env (fs_db (fm_fleet m)) = Inr (u, Some db')" and "\<forall>k. fe_clock env k = now"
    and "\<forall>i. \<not> fe_locked env i"
    and "length (filter (\<lambda>(i, t). expire_due cfg now (fs_db (fm_fleet m)) t) (fd_tasks (fs_db (fm_fleet m)))) \<le> 100"
    and "map_of (fd_tasks db') i = Some t"
  shows "\<not> expire_due cfg now db' t"
proof -
  let ?db = "fs_db (fm_fleet m)"
  let ?f = "filter (\<lambda>(i, t). expire_due cfg now ?db t) (fd_tasks ?db)"
  let ?due = "sort_key (\<lambda>(i, t). ft_created t) ?f"
  have ok: "fleet_ok cfg ?db" by (rule fleet_machine_invD(1) [OF run_machine [OF assms(1,2)]])
  note inv = fleet_okD(1) [OF ok]
  have run: "expire_tasks cfg lb env 3 now ?due ?db = Some db'"
    using assms(3-6) by (simp add: expire_tx_def Let_def split: if_splits option.splits)
  have due: "(k, s) \<in> set ?due \<longleftrightarrow> map_of (fd_tasks ?db) k = Some s \<and> expire_due cfg now ?db s" for k s
    using fleet_invD(3) [OF inv] by (simp add: gomap_set_iff)
  have "distinct (map fst ?f)" using gomap_ok_filter [OF fleet_invD(3) [OF inv]] by (simp add: gomap_ok_def)
  then have dist: "distinct (map fst ?due)" by (simp add: distinct_map inj_on_def) blast
  have settle: "(map_of (fd_tasks db') i = Some t \<longrightarrow>
      (if i \<in> fst ` set ?due then \<not> expire_due cfg now db' t else map_of (fd_tasks ?db) i = Some t)) \<and>
    (map_of (fd_attempts ?db) j = Some a \<longrightarrow> fa_task a \<notin> fst ` set ?due \<longrightarrow> map_of (fd_attempts db') j = Some a)" for j a
    by (rule expire_tasks_settle [OF ok _ dist _ run])
      (use due assms(4) in \<open>auto simp: expire_due_def active_task_def\<close>)
  show ?thesis
  proof (cases "i \<in> fst ` set ?due")
    case True
    with settle assms(7) show ?thesis by simp
  next
    case False
    with settle assms(7) have row: "map_of (fd_tasks ?db) i = Some t" by simp
    with False due have idle: "\<not> expire_due cfg now ?db t" by (metis fst_conv rev_image_eqI)
    show ?thesis
    proof (cases "ft_state t = T_running")
      case True
      then have "current_states (ft_state t) \<noteq> {}" by simp
      from task_ok_has [OF fleet_invD(7) [OF inv row] this] obtain j a where
        "ft_current t = Some j" "map_of (fd_attempts ?db) j = Some a" "fa_task a = i" by blast
      with settle False idle show ?thesis by (auto simp: expire_due_def)
    next
      case notrun: False
      with idle show ?thesis by (simp add: expire_due_def)
    qed
  qed
qed

text \<open>C26: The two ends fit: when a worker forgets a result on a receipt it has read from the coordinator, the archive has
  been given, for the task of that result, bytes of its size with its SHA-256.\<close>

theorem worker_forgets_archived:
  assumes "fleet_run cfg lb init_machine m" and "fleet_validate cfg = None"
    and "read_receipt env w aid (fs_db (fm_fleet m)) = Inr rc"
    and "map_of (sp_records s) aid = Some r" and "archived aid rc io rm_ok sync s = (gone, err, s')"
    and "map_of (sp_records s') aid \<noteq> Some r"
  shows "\<exists>ref out body. (ref, out, body) \<in> set (fs_archive (fm_fleet m)) \<and> fo_task out = as_task (sr_assignment r) \<and>
    lb_sha lb body = sr_sha r \<and> int (length body) = sr_size r \<and> valid_pdf body"
proof -
  from assms(4-6) have match: "receipt_matches aid rc r" by (auto simp: archived_def split: if_splits)
  from assms(3) obtain a where a: "map_of (fd_attempts (fs_db (fm_fleet m))) aid = Some a" "rc = scan_receipt aid a"
    by (auto simp: read_receipt_def split: if_splits option.splits)
  with match have "fa_state a = A_done" "fa_task a = as_task (sr_assignment r)" "fa_sha a = sr_sha r" "fa_size a = sr_size r"
    by (cases "fa_state a"; simp add: receipt_matches_def scan_receipt_def)+
  with fleet_machine_invD(7) [OF run_machine [OF assms(1,2)] a(1)] show ?thesis
    unfolding archived_for_def genuine_def by metis
qed

section \<open>An upload without failures\<close>

text \<open>An environment in which every call succeeds, at one instant.\<close>

definition smooth :: "instant \<Rightarrow> (nat \<Rightarrow> string) \<Rightarrow> fleet_env" where
  "smooth n ids = \<lparr>fe_call = (\<lambda>_. True), fe_commit = Committed, fe_clock = (\<lambda>_. n), fe_start = n, fe_go = n,
     fe_ids = ids, fe_locked = (\<lambda>_. False)\<rparr>"

lemma smooth_simps [simp]:
  "fe_call (smooth n ids) k" "calls (smooth n ids) ks" "fe_commit (smooth n ids) = Committed" "fe_clock (smooth n ids) k = n"
  "fe_start (smooth n ids) = n" "fe_go (smooth n ids) = n" "fe_ids (smooth n ids) = ids" "\<not> fe_locked (smooth n ids) i"
  by (simp_all add: smooth_def calls_def list_all_iff)

lemma transact_smooth [simp]: "transact (smooth n ids) db (Inr (r, Some db')) = (Inr r, db')"
  by (simp add: transact_def)

lemma path_dir_pdf: "CHR ''/'' \<notin> set i \<Longrightarrow> CHR ''/'' \<notin> set g \<Longrightarrow> path_dir (pdf_path cfg i g) = fc_spool_dir cfg"
proof -
  assume "CHR ''/'' \<notin> set i" "CHR ''/'' \<notin> set g"
  then have "dropWhile (\<lambda>c. c \<noteq> CHR ''/'') (rev (i @ ''-'' @ g @ ''.pdf'') @ CHR ''/'' # rev (fc_spool_dir cfg))
      = CHR ''/'' # rev (fc_spool_dir cfg)"
    by (subst dropWhile_append2) auto
  then show ?thesis by (simp add: path_dir_def pdf_path_def)
qed

lemma valid_id_no_slash: "valid_worker_id i \<Longrightarrow> CHR ''/'' \<notin> set i"
  using alpha_not_slash by (auto simp: valid_worker_id_def list_all_iff is_digit_def)

definition valid_upload :: "fleet_config \<Rightarrow> fleet_libs \<Rightarrow> upload_request \<Rightarrow> bool" where
  "valid_upload cfg lb u \<longleftrightarrow>
     length (rm_trace (up_meta u)) \<le> 64 \<and> to_lower (lb_lower lb) (up_sha u) = up_sha u \<and> list_all is_hex (up_sha u) \<and>
     length (up_sha u) = 64 \<and> min_pdf_bytes \<le> up_size u \<and> up_size u \<le> fc_max_pdf cfg \<and> valid_worker_id (up_attempt u)"

definition reserved_attempt :: "fleet_config \<Rightarrow> fleet_libs \<Rightarrow> instant \<Rightarrow> string \<Rightarrow> upload_request \<Rightarrow> fleet_attempt \<Rightarrow> fleet_task
    \<Rightarrow> fleet_attempt" where
  "reserved_attempt cfg lb n gen u a t =
     a\<lparr>fa_state := A_uploading, fa_sha := up_sha u, fa_size := up_size u, fa_path := pdf_path cfg (up_attempt u) gen,
       fa_source := truncate_text lb (if rm_source_url (up_meta u) \<noteq> [] then rm_source_url (up_meta u) else up_source u) 2048,
       fa_strategy := truncate_text lb (if rm_strategy (up_meta u) \<noteq> [] then rm_strategy (up_meta u) else up_strategy u) 128,
       fa_meta := up_meta u, fa_upload := gen,
       fa_lease := min (n + interval (fc_upload_timeout cfg)) (ft_deadline t), fa_updated := n\<rparr>"

definition upload_ticket :: "fleet_config \<Rightarrow> string \<Rightarrow> upload_request \<Rightarrow> fleet_attempt \<Rightarrow> ticket" where
  "upload_ticket cfg gen u a =
     \<lparr>tk_task = fa_task a, tk_attempt = up_attempt u, tk_gen = gen, tk_path = pdf_path cfg (up_attempt u) gen,
      tk_sha = up_sha u, tk_size = up_size u\<rparr>"

lemma upload_reserve_smooth:
  assumes "valid_upload cfg lb u" and "worker_attempt (fs_db s) w (up_attempt u) = Some (a, t)" and "fa_state a = A_running"
    and "fa_path a = []" and "result_identity lb (ft_ref t) (up_meta u) = Inr identity"
    and "attempt_current (fs_db s) n (up_attempt u) a t" and "ft_state t = T_running"
    and "up_size u \<le> fc_spool_max cfg - reserved_bytes (fs_db s)"
  shows "upload_reserve cfg lb (smooth n ids) rm_ok w u s =
    (Inr (Upload_Reserved (upload_ticket cfg (ids 0) u a)),
     s\<lparr>fs_db := put_attempt (up_attempt u) (reserved_attempt cfg lb n (ids 0) u a t) (fs_db s)\<rparr>)"
proof -
  have tx: "reserve_tx cfg lb (smooth n ids) u (up_sha u) a t (fs_db s) =
      Inr (Upload_Reserved (upload_ticket cfg (ids 0) u a),
        Some (put_attempt (up_attempt u) (reserved_attempt cfg lb n (ids 0) u a t) (fs_db s)))"
    using assms(3,4,6-8) by (simp add: reserve_tx_def Let_def upload_ticket_def reserved_attempt_def)
  show ?thesis
    using assms(1-5) tx by (simp add: upload_reserve_def valid_upload_def put_db_def)
qed

lemma stream_stage_smooth:
  assumes "map_of (fd_tasks (fs_db s)) (tk_task k) = Some t" and "map_of (fd_attempts (fs_db s)) (tk_attempt k) = Some a"
    and "fa_state a = A_uploading" and "fa_upload a = tk_gen k" and "fa_task a = tk_task k"
    and "fs_files s (tk_path k) = None" and "attempt_current (fs_db s) n (tk_attempt k) a t"
    and "ti_open io" and "ti_copied io" and "ti_synced io" and "genuine lb (ti_body io) (tk_sha k) (tk_size k)"
  shows "stream_stage lb (smooth n ids) io k s =
    (Inr (), s\<lparr>fs_files := (fs_files s)(tk_path k \<mapsto> (ti_body io, ti_mtime io)), fs_db := staged_db (smooth n ids) k a t (fs_db s)\<rparr>)"
proof -
  have "take (nat (tk_size k + 1)) (ti_body io) = ti_body io" using assms(11) by (auto simp: genuine_def)
  with assms show ?thesis by (simp add: stream_stage_def Let_def genuine_def put_db_def)
qed

lemma commit_archive_smooth:
  assumes "ci_archive cio = Some True" and "ci_read cio" and "map_of (fd_attempts (fs_db s)) i = Some a"
    and "map_of (fd_tasks (fs_db s)) (fa_task a) = Some t" and "ft_current t = Some i" and "ft_state t = T_staged"
    and "fa_state a = A_staged" and "path_dir (fa_path a) = fc_spool_dir cfg"
    and "fs_files s (fa_path a) = Some (body, mtime)" and "genuine lb body (fa_sha a) (fa_size a)" and "fa_size a \<le> fc_max_pdf cfg"
    and "result_identity lb (ft_ref t) (fa_meta a) = Inr identity"
  shows "commit_archive cfg lb (smooth n ids) cio i s =
    (Inr (Some (fa_path a)),
     s\<lparr>fs_archive := fs_archive s @ [(ft_ref t, outcome_of lb (fs_db s) (fa_task a) a identity, body)],
       fs_db := done_db (smooth n ids) (ci_hook cio) i a t (outcome_of lb (fs_db s) (fa_task a) a identity) (fs_db s)\<rparr>)"
proof -
  have "take (nat (fc_max_pdf cfg + 1)) body = body" using assms(10,11) by (auto simp: genuine_def)
  with assms show ?thesis by (simp add: commit_archive_def archive_tx_def Let_def genuine_def put_db_def)
qed

text \<open>C27: An upload that meets no failure completes: a worker that sends, within its lease, the bytes it has announced,
  for a paper its metadata agree with, gets a receipt in the state done; the archive has been given exactly these bytes
  for the paper of the task, and the file and the reservation are gone.\<close>

theorem upload_completes:
  assumes "fleet_run cfg lb init_machine m" and "fleet_validate cfg = None" and "s = fm_fleet m"
    and "valid_upload cfg lb u" and "worker_attempt (fs_db s) w (up_attempt u) = Some (a, t)" and "fa_state a = A_running"
    and "result_identity lb (ft_ref t) (up_meta u) = Inr identity"
    and "attempt_current (fs_db s) n (up_attempt u) a t" and "n' < min (n + interval (fc_upload_timeout cfg)) (ft_deadline t)"
    and "up_size u \<le> fc_spool_max cfg - reserved_bytes (fs_db s)"
    and "ids 0 \<notin> fm_used m" and "length (ids 0) = 48" and "CHR ''/'' \<notin> set (ids 0)"
    and "ti_open io" and "ti_copied io" and "ti_synced io" and "genuine lb (ti_body io) (up_sha u) (up_size u)"
    and "ci_archive cio = Some True" and "ci_read cio" and "ci_removed cio"
  shows "\<exists>s'. upload cfg lb (\<lambda>k. smooth (if k = 0 then n else n') ids) rm_ok io cio w u s =
      (Inr \<lparr>rc_task = fa_task a, rc_attempt = up_attempt u, rc_state = ''done'', rc_sha = up_sha u, rc_size = up_size u,
            rc_error = []\<rparr>, s') \<and>
    (\<exists>out. fs_archive s' = fs_archive s @ [(ft_ref t, out, ti_body io)]) \<and>
    fs_files s' (pdf_path cfg (up_attempt u) (ids 0)) = None \<and> reserved_bytes (fs_db s') = reserved_bytes (fs_db s)"
proof -
  let ?i = "up_attempt u" and ?g = "ids 0" and ?db = "fs_db s"
  let ?p = "pdf_path cfg ?i ?g" and ?k = "upload_ticket cfg ?g u a"
  note inv = run_machine [OF assms(1,2)]
  note row = worker_attempt_SomeD [OF assms(5)]
  have ok: "fleet_inv cfg ?db" using fleet_machine_invD(1) [OF inv] assms(3) by (simp add: fleet_ok_def)
  have path: "fa_path a = []" using fleet_invD(6) [OF ok row(1)] assms(6) by (auto simp: attempt_ok_def)
  have tstate: "ft_state t = T_running"
    using task_ok_current [OF fleet_invD(7) [OF ok row(2)] row(1) refl] assms(6) by (cases "ft_state t") auto
  have nofile: "fs_files s ?p = None"
  proof (rule ccontr)
    assume "fs_files s ?p \<noteq> None"
    then have "gen_path cfg (fm_used m) ?p" using fleet_machine_invD(2) [OF inv] assms(3) by simp
    with assms(11,12) show False by (auto simp: gen_path_def dest: pdf_path_inj)
  qed
  define a1 where "a1 = reserved_attempt cfg lb n ?g u a t"
  have a1: "fa_task a1 = fa_task a" "fa_worker a1 = fa_worker a" "fa_state a1 = A_uploading" "fa_sha a1 = up_sha u"
    "fa_size a1 = up_size u" "fa_path a1 = ?p" "fa_upload a1 = ?g" "fa_meta a1 = up_meta u"
    "fa_lease a1 = min (n + interval (fc_upload_timeout cfg)) (ft_deadline t)"
    by (simp_all add: a1_def reserved_attempt_def)
  define s1 where "s1 = s\<lparr>fs_db := put_attempt ?i a1 ?db\<rparr>"
  have 1: "upload_reserve cfg lb (smooth n ids) rm_ok w u s = (Inr (Upload_Reserved ?k), s1)"
    unfolding s1_def a1_def by (rule upload_reserve_smooth [OF assms(4-6) path assms(7,8) tstate assms(10)])
  have k: "tk_task ?k = fa_task a" "tk_attempt ?k = ?i" "tk_gen ?k = ?g" "tk_path ?k = ?p" "tk_sha ?k = up_sha u" "tk_size ?k = up_size u"
    by (simp_all add: upload_ticket_def)
  have cur: "attempt_current (fs_db s1) n' ?i a1 t"
    using assms(8,9) by (simp add: attempt_current_def s1_def a1 split: option.splits)
  define s2 where "s2 = s1\<lparr>fs_files := (fs_files s1)(?p \<mapsto> (ti_body io, ti_mtime io)), fs_db := staged_db (smooth n' ids) ?k a1 t (fs_db s1)\<rparr>"
  have 2: "stream_stage lb (smooth n' ids) io ?k s1 = (Inr (), s2)"
    unfolding s2_def k(4) [symmetric]
    by (rule stream_stage_smooth) (use row nofile cur assms(14-17) in \<open>simp_all add: k a1 s1_def gomap_simps\<close>)
  define a2 where "a2 = a1\<lparr>fa_state := A_staged, fa_error := [], fa_updated := n'\<rparr>"
  define t2 where "t2 = t\<lparr>ft_state := T_staged, ft_updated := n'\<rparr>"
  have rows2: "map_of (fd_attempts (fs_db s2)) ?i = Some a2" "map_of (fd_tasks (fs_db s2)) (fa_task a2) = Some t2"
    by (simp_all add: s2_def s1_def staged_db_def a2_def t2_def gomap_simps k a1)
  have dir: "path_dir ?p = fc_spool_dir cfg"
    using assms(4,13) by (intro path_dir_pdf [OF valid_id_no_slash]) (simp_all add: valid_upload_def)
  let ?out = "outcome_of lb (fs_db s2) (fa_task a2) a2 identity"
  define s3 where "s3 = s2\<lparr>fs_archive := fs_archive s2 @ [(ft_ref t2, ?out, ti_body io)],
    fs_db := done_db (smooth n' ids) (ci_hook cio) ?i a2 t2 ?out (fs_db s2)\<rparr>"
  have 3: "commit_archive cfg lb (smooth n' ids) cio ?i s2 = (Inr (Some ?p), s3)"
  proof -
    have "fa_path a2 = ?p" by (simp add: a2_def a1)
    moreover have "commit_archive cfg lb (smooth n' ids) cio ?i s2 = (Inr (Some (fa_path a2)), s3)"
      unfolding s3_def
    proof (rule commit_archive_smooth [OF assms(18,19) rows2])
      show "ft_current t2 = Some ?i" using assms(8) by (simp add: t2_def attempt_current_def)
      show "fs_files s2 (fa_path a2) = Some (ti_body io, ti_mtime io)" by (simp add: s2_def a2_def a1)
      show "fa_size a2 \<le> fc_max_pdf cfg" using assms(4) by (simp add: a2_def a1 valid_upload_def)
    qed (use assms(7,17) dir in \<open>simp_all add: a2_def a1 t2_def\<close>)
    ultimately show ?thesis by simp
  qed
  define a3 where "a3 = a2\<lparr>fa_state := A_done, fa_error := [], fa_updated := n', fa_path := []\<rparr>"
  define s4 where "s4 = (remove_file ?p s3)\<lparr>fs_db := put_attempt ?i a3 (fs_db s3)\<rparr>"
  have 4: "commit_staged cfg lb (smooth n' ids) (smooth n' ids) cio ?i s2 = (Inr (), s4)"
    using assms(20) dir rows2
    by (simp add: commit_staged_def 3 clean_file_def put_db_def released_def s4_def s3_def done_db_def a3_def gomap_simps)
  have receipt: "read_receipt (smooth n' ids) w ?i (fs_db s4) = Inr \<lparr>rc_task = fa_task a, rc_attempt = ?i, rc_state = ''done'',
      rc_sha = up_sha u, rc_size = up_size u, rc_error = []\<rparr>"
    using row(3) by (simp add: read_receipt_def s4_def gomap_simps a3_def a2_def a1 scan_receipt_def)
  have "upload cfg lb (\<lambda>k. smooth (if k = 0 then n else n') ids) rm_ok io cio w u s =
      (Inr \<lparr>rc_task = fa_task a, rc_attempt = ?i, rc_state = ''done'', rc_sha = up_sha u, rc_size = up_size u, rc_error = []\<rparr>, s4)"
    by (simp add: upload_def 1 2 4 k receipt)
  moreover have "fs_archive s4 = fs_archive s @ [(ft_ref t, ?out, ti_body io)]"
    by (simp add: s4_def s3_def s2_def s1_def remove_file_def t2_def)
  moreover have "fs_files s4 ?p = None" by (simp add: s4_def remove_file_def)
  moreover have "reserved_bytes (fs_db s4) = reserved_bytes ?db"
    using row(1) path fleet_invD(5) [OF ok]
    by (simp add: reserved_bytes_def s4_def s3_def s2_def s1_def done_db_def staged_db_def k a3_def asum_update gomap_simps a2_def a1)
  ultimately show ?thesis by blast
qed

section \<open>Whole operations as runs\<close>

lemma run_refl [simp]: "fleet_run cfg lb m m"
  by (simp add: fleet_run_def)

lemma run_step: "fleet_run cfg lb m m' \<Longrightarrow> fleet_step cfg lb m' m'' \<Longrightarrow> fleet_run cfg lb m m''"
  by (simp add: fleet_run_def)

lemma run_trans: "fleet_run cfg lb m m' \<Longrightarrow> fleet_run cfg lb m' m'' \<Longrightarrow> fleet_run cfg lb m m''"
  unfolding fleet_run_def by (rule rtranclp_trans)

lemma run_stay: "\<exists>m'. fleet_run cfg lb m m' \<and> fm_fleet m' = fm_fleet m"
  by (rule exI [of _ m]) simp

lemma commit_staged_run: "\<exists>m'. fleet_run cfg lb m m' \<and> fm_fleet m' = snd (commit_staged cfg lb env env' cio i (fm_fleet m))"
proof -
  obtain c s' where c: "commit_archive cfg lb env cio i (fm_fleet m) = (c, s')" by (cases "commit_archive cfg lb env cio i (fm_fleet m)")
  let ?m1 = "m\<lparr>fm_fleet := s', fm_dead := fm_dead m \<union> path_of c\<rparr>"
  have m1: "fleet_run cfg lb m ?m1" by (rule run_step [OF run_refl fleet_step.Commit [OF c]])
  show ?thesis
  proof (cases "\<exists>path. c = Inr (Some path)")
    case True
    then obtain path where path: "c = Inr (Some path)" by blast
    then have "fleet_step cfg lb ?m1 (?m1\<lparr>fm_fleet := snd (clean_file cfg env' (ci_removed cio) i path (fm_fleet ?m1))\<rparr>)"
      by (intro fleet_step.Clean) simp
    from run_step [OF m1 this] path c show ?thesis
      by (intro exI [of _ "?m1\<lparr>fm_fleet := snd (clean_file cfg env' (ci_removed cio) i path (fm_fleet ?m1))\<rparr>"])
        (simp add: commit_staged_def)
  next
    case False
    then have "c = Inr None \<or> (\<exists>e. c = Inl e)" by (cases c) auto
    with m1 c show ?thesis by (intro exI [of _ ?m1]) (auto simp: commit_staged_def)
  qed
qed

lemma upload_run:
  assumes "length (fe_ids (envs 0) 0) = 48" and "fe_ids (envs 0) 0 \<notin> fm_used m"
  shows "\<exists>m'. fleet_run cfg lb m m' \<and> fm_fleet m' = snd (upload cfg lb envs rm_ok io cio w u (fm_fleet m))"
proof -
  obtain r s1 where r: "upload_reserve cfg lb (envs 0) rm_ok w u (fm_fleet m) = (r, s1)"
    by (cases "upload_reserve cfg lb (envs 0) rm_ok w u (fm_fleet m)")
  let ?m1 = "m\<lparr>fm_fleet := s1, fm_tickets := fm_tickets m \<union> tickets_of r, fm_used := insert (fe_ids (envs 0) 0) (fm_used m)\<rparr>"
  have m1: "fleet_run cfg lb m ?m1" by (rule run_step [OF run_refl fleet_step.Reserve [OF r assms]])
  show ?thesis
  proof (cases "\<exists>k. r = Inr (Upload_Reserved k)")
    case False
    then have "(\<exists>e. r = Inl e) \<or> (\<exists>rc. r = Inr (Upload_Known rc))" by (cases r) (auto, metis upload_start.exhaust)
    with m1 r show ?thesis by (intro exI [of _ ?m1]) (auto simp: upload_def)
  next
    case True
    then obtain k where k: "r = Inr (Upload_Reserved k)" by blast
    obtain q s2 where q: "stream_stage lb (envs 1) io k s1 = (q, s2)" by (cases "stream_stage lb (envs 1) io k s1")
    have "fleet_step cfg lb ?m1 (?m1\<lparr>fm_fleet := snd (stream_stage lb (envs 1) io k (fm_fleet ?m1))\<rparr>)"
      by (rule fleet_step.Stream) (simp add: k)
    then have m2: "fleet_run cfg lb m (?m1\<lparr>fm_fleet := s2\<rparr>)" using run_step [OF m1] q by simp
    show ?thesis
    proof (cases q)
      case (Inl e)
      have "fleet_step cfg lb (?m1\<lparr>fm_fleet := s2\<rparr>) (?m1\<lparr>fm_fleet := s2\<rparr>\<lparr>fm_fleet :=
          snd (reset_transfer (envs 2) (ti_removed io) k (fm_fleet (?m1\<lparr>fm_fleet := s2\<rparr>)))\<rparr>)"
        by (rule fleet_step.Reset) (simp add: k)
      from run_step [OF m2 this] show ?thesis
        by (intro exI [of _ "?m1\<lparr>fm_fleet := snd (reset_transfer (envs 2) (ti_removed io) k s2)\<rparr>"])
          (simp add: upload_def r k q [unfolded One_nat_def] Inl)
    next
      case (Inr x)
      from commit_staged_run [of cfg lb "?m1\<lparr>fm_fleet := s2\<rparr>" "envs 2" "envs 3" cio "tk_attempt k"] obtain m' where
        "fleet_run cfg lb (?m1\<lparr>fm_fleet := s2\<rparr>) m'" "fm_fleet m' = snd (commit_staged cfg lb (envs 2) (envs 3) cio (tk_attempt k) s2)"
        by auto
      with run_trans [OF m2] show ?thesis
        by (intro exI [of _ m'])
          (simp add: upload_def r k q [unfolded One_nat_def] Inr split: prod.splits sum.splits)
    qed
  qed
qed

lemma deliver_hooks_run: "\<exists>m'. fleet_run cfg lb m m' \<and> fm_fleet m' = snd (deliver_hooks lb rounds n (fm_fleet m))"
proof (induction n arbitrary: m)
  case (Suc n)
  let ?m1 = "m\<lparr>fm_fleet := snd (deliver_hook lb (fst (rounds n)) (snd (rounds n)) (fm_fleet m))\<rparr>"
  have m1: "fleet_run cfg lb m ?m1" by (rule run_step [OF run_refl fleet_step.Hook])
  obtain c s' where c: "deliver_hook lb (fst (rounds n)) (snd (rounds n)) (fm_fleet m) = (c, s')"
    by (cases "deliver_hook lb (fst (rounds n)) (snd (rounds n)) (fm_fleet m)")
  show ?case
  proof (cases "c = Inr True")
    case True
    from Suc.IH [of ?m1] run_trans [OF m1] c True show ?thesis by auto
  next
    case False
    then have "c = Inr False \<or> (\<exists>e. c = Inl e)" by (cases c) auto
    with m1 c show ?thesis by (intro exI [of _ ?m1]) auto
  qed
qed (use run_stay in auto)

lemma remove_orphans_run: "\<exists>m'. fleet_run cfg lb m m' \<and> fm_fleet m' = remove_orphans cfg now rm_ok n paths (fm_fleet m)"
proof (induction paths arbitrary: n m)
  case (Cons path paths)
  show ?case
  proof (cases "n = 0 \<or> \<not> orphan cfg now (fm_fleet m) path")
    case True
    with Cons.IH [of m n] run_stay show ?thesis by auto
  next
    case False
    let ?m1 = "m\<lparr>fm_dead := insert path (fm_dead m)\<rparr>"
    let ?m2 = "?m1\<lparr>fm_fleet := (if rm_ok path then remove_file path (fm_fleet m) else fm_fleet m)\<rparr>"
    have m1: "fleet_run cfg lb m ?m1"
      by (rule run_step [OF run_refl fleet_step.Select_orphan [of cfg now]]) (use False in simp)
    have m2: "fleet_run cfg lb m ?m2"
    proof (cases "rm_ok path")
      case True
      have "fleet_step cfg lb ?m1 (?m1\<lparr>fm_fleet := remove_file path (fm_fleet ?m1)\<rparr>)" by (rule fleet_step.Unlink) simp
      from run_step [OF m1 this] True show ?thesis by simp
    qed (use m1 in simp)
    from Cons.IH [of ?m2 "n - 1"] obtain m' where "fleet_run cfg lb ?m2 m'"
      "fm_fleet m' = remove_orphans cfg now rm_ok (n - 1) paths (fm_fleet ?m2)" by blast
    with run_trans [OF m2] False show ?thesis by (intro exI [of _ m']) simp
  qed
qed (use run_stay in auto)

text \<open>The coordinator's compound operations are runs of the machine: an upload (reservation, transfer, then reset or
  archiving and cleaning), a round of hooks and the removal of orphans each decompose into its steps, whatever fails in
  between, so that everything shown of reachable states holds after them and between their parts.\<close>

theorem fleet_operations_are_runs:
  assumes "length (fe_ids (envs 0) 0) = 48" and "fe_ids (envs 0) 0 \<notin> fm_used m"
  shows "(\<exists>m'. fleet_run cfg lb m m' \<and> fm_fleet m' = snd (upload cfg lb envs rm_ok io cio w u (fm_fleet m))) \<and>
    (\<exists>m'. fleet_run cfg lb m m' \<and> fm_fleet m' = snd (deliver_hooks lb rounds n (fm_fleet m))) \<and>
    (\<exists>m'. fleet_run cfg lb m m' \<and> fm_fleet m' = remove_orphans cfg now gone k paths (fm_fleet m))"
  using upload_run [of envs m, OF assms] deliver_hooks_run remove_orphans_run by blast

section \<open>A run\<close>

text \<open>One worker enrolls, registers, is approved, claims a task and uploads its result.\<close>

definition demo_cfg :: fleet_config where
  "demo_cfg =
     \<lparr>fc_enabled = True, fc_max_in_flight = 6, fc_max_worker_in_flight = 2, fc_max_attempts = 3, fc_task_timeout = 900000,
      fc_worker_timeout = 360000, fc_lease = 60000, fc_upload_timeout = 120000, fc_enrollment_ttl = 900000,
      fc_retention = 604800000, fc_spool_dir = ''/s'', fc_spool_max = 1000000, fc_max_pdf = 20000\<rparr>"

definition demo_libs :: fleet_libs where
  "demo_libs = \<lparr>lb_digest = (\<lambda>s. s), lb_sha = (\<lambda>_. replicate 64 CHR ''a''), lb_utf8 = (\<lambda>s. s), lb_lower = (\<lambda>s. s)\<rparr>"

definition demo_body :: string where
  "demo_body = ''%PDF-'' @ replicate 10240 CHR ''x'' @ ''%%EOF''"

definition demo_ref :: paper_ref where
  "demo_ref = \<lparr>pr_arxiv = [], pr_doi = ''10.1000/x'', pr_openalex = [], pr_title = [], pr_authors = [], pr_year = 0\<rparr>"

lemma demo_valid: "fleet_validate demo_cfg = None"
  by (simp add: fleet_validate_def demo_cfg_def min_pdf_bytes_def max_pdf_bytes_def)

lemma demo_pdf: "genuine demo_libs demo_body (replicate 64 CHR ''a'') 10250"
proof -
  have "contains (drop (length demo_body - 4096) demo_body) ''%%EOF''"
    unfolding contains_iff demo_body_def by (auto simp: drop_append)
  then show ?thesis by (simp add: genuine_def valid_pdf_def demo_libs_def demo_body_def min_pdf_bytes_def)
qed

definition demo_worker :: string where "demo_worker = ''worker-000000001''"
definition demo_attempt :: string where "demo_attempt = ''attempt-00000001''"
definition demo_gen :: string where "demo_gen = replicate 48 CHR ''b''"

definition demo_register :: register_request where
  "demo_register = \<lparr>rr_id = demo_worker, rr_name = ''w'', rr_token = ''token'', rr_secret = replicate 32 CHR ''s''\<rparr>"

definition demo_node :: "node_status \<Rightarrow> int \<Rightarrow> fleet_node" where
  "demo_node st cap =
     \<lparr>fn_name = ''w'', fn_secret = replicate 32 CHR ''s'', fn_status = st, fn_created = 5, fn_seen = Some 5, fn_capacity = cap,
      fn_browser = False, fn_disk = 0, fn_spool = 0, fn_error = []\<rparr>"

definition demo_beat :: heartbeat_request where
  "demo_beat = \<lparr>hb_capacity = 2, hb_browser = False, hb_disk = 0, hb_spool = 0, hb_error = [], hb_running = []\<rparr>"

definition demo_db :: "node_status \<Rightarrow> int \<Rightarrow> fleet_db" where
  "demo_db st cap = \<lparr>fd_nodes = [(demo_worker, demo_node st cap)],
     fd_enrollments = [(''token'', \<lparr>en_expires = 900005, en_used = Some demo_worker\<rparr>)],
     fd_tasks = [], fd_admissions = [], fd_attempts = []\<rparr>"

definition demo_task :: fleet_task where
  "demo_task = new_task (smooth 5 (\<lambda>_. ''task'')) ''doi:10.1000/x'' demo_ref 900005"

definition demo_queued :: fleet_db where
  "demo_queued = (demo_db N_approved 2)\<lparr>fd_tasks := [(''task'', demo_task)]\<rparr>"

definition demo_row :: fleet_attempt where
  "demo_row = new_attempt (smooth 5 (\<lambda>_. demo_attempt)) ''task'' demo_worker 60005 360005"

definition demo_claimed :: fleet_db where
  "demo_claimed = demo_queued\<lparr>fd_attempts := [(demo_attempt, demo_row)],
     fd_tasks := [(''task'', demo_task\<lparr>ft_state := T_running, ft_current := Some demo_attempt, ft_count := 1, ft_updated := 5\<rparr>)]\<rparr>"

lemma demo_enroll: "snd (transact (smooth 5 (\<lambda>_. ''token'')) empty_fleet_db
    (enrollment_tx demo_cfg demo_libs (smooth 5 (\<lambda>_. ''token'')) empty_fleet_db))
  = empty_fleet_db\<lparr>fd_enrollments := [(''token'', \<lparr>en_expires = 900005, en_used = None\<rparr>)]\<rparr>" (is "_ = ?db")
  by (simp add: Let_def enrollment_tx_def empty_fleet_db_def demo_libs_def demo_cfg_def)

lemma demo_ids: "valid_worker_id demo_worker" "valid_worker_id demo_attempt"
  by (simp_all add: valid_worker_id_def demo_worker_def demo_attempt_def is_alpha_def is_lower_def is_upper_def is_digit_def)

lemma demo_registers: "register_tx demo_libs (smooth 5 ids) demo_register
    (empty_fleet_db\<lparr>fd_enrollments := [(''token'', \<lparr>en_expires = 900005, en_used = None\<rparr>)]\<rparr>)
  = Inr (\<lparr>wn_id = demo_worker, wn_row = demo_node N_pending 0, wn_running = 0\<rparr>, Some (demo_db N_pending 0))"
  using demo_ids(1)
  by (simp add: Let_def register_tx_def demo_register_def empty_fleet_db_def demo_libs_def demo_db_def demo_node_def secret_taken_def
      scan_node_def live_count_of_def)

lemma demo_approve: "snd (transact (smooth 5 ids) (demo_db N_pending 0) (action_tx (smooth 5 ids) demo_worker Act_approve (demo_db N_pending 0)))
  = demo_db N_approved 0"
  by (simp add: Let_def action_tx_def demo_db_def demo_node_def)

lemma demo_beats: "snd (transact (smooth 5 ids) (demo_db N_approved 0)
    (heartbeat_tx demo_cfg demo_libs (smooth 5 ids) demo_worker demo_beat (demo_db N_approved 0))) = demo_db N_approved 2"
  by (simp add: Let_def heartbeat_tx_def demo_db_def demo_node_def demo_beat_def worker_admitted_def renew_leases_def demo_cfg_def
      truncate_text_def demo_libs_def)

lemma demo_enqueue: "snd (transact (smooth 5 (\<lambda>_. ''task'')) (demo_db N_approved 2)
    (enqueue_tx demo_cfg (smooth 5 (\<lambda>_. ''task'')) [] ''doi:10.1000/x'' demo_ref (demo_db N_approved 2))) = demo_queued"
  by (simp add: Let_def enqueue_tx_def demo_db_def demo_queued_def active_identity_def admit_def demo_task_def demo_cfg_def interval_def)

lemma demo_claim: "claim_tx demo_cfg (smooth 5 (\<lambda>_. demo_attempt)) demo_worker 1 demo_queued =
  Inr ([\<lparr>as_task = ''task'', as_attempt = demo_attempt, as_ref = demo_ref, as_lease_expires = 60005, as_deadline = 360005,
         as_max_pdf = 20000\<rparr>], Some demo_claimed)"
  by (simp add: Let_def claim_tx_def demo_queued_def demo_db_def demo_node_def demo_claimed_def demo_cfg_def claim_limit_def live_count_def
      live_count_of_def claimable_def demo_task_def new_task_def interval_def demo_row_def new_attempt_def demo_ref_def)

text \<open>The same as a run, up to the claim.\<close>

definition demo_start :: fleet_machine where
  "demo_start = init_machine\<lparr>fm_fleet := (fm_fleet init_machine)\<lparr>fs_db := demo_claimed\<rparr>\<rparr>"

lemma demo_tables: "table_step demo_cfg demo_libs db db' \<Longrightarrow> fleet_step demo_cfg demo_libs
    (init_machine\<lparr>fm_fleet := (fm_fleet init_machine)\<lparr>fs_db := db\<rparr>\<rparr>) (init_machine\<lparr>fm_fleet := (fm_fleet init_machine)\<lparr>fs_db := db'\<rparr>\<rparr>)"
  using fleet_step.Table [of demo_cfg demo_libs "init_machine\<lparr>fm_fleet := (fm_fleet init_machine)\<lparr>fs_db := db\<rparr>\<rparr>" db'] by simp

lemma demo_queued_run: "fleet_run demo_cfg demo_libs init_machine (init_machine\<lparr>fm_fleet := (fm_fleet init_machine)\<lparr>fs_db := demo_queued\<rparr>\<rparr>)"
proof -
  let ?m = "\<lambda>db. init_machine\<lparr>fm_fleet := (fm_fleet init_machine)\<lparr>fs_db := db\<rparr>\<rparr>"
  let ?e = "empty_fleet_db\<lparr>fd_enrollments := [(''token'', \<lparr>en_expires = 900005, en_used = None\<rparr>)]\<rparr>"
  have start: "?m empty_fleet_db = init_machine" by (simp add: init_machine_def)
  note enroll = table_step.Enroll [of demo_cfg demo_libs empty_fleet_db "smooth 5 (\<lambda>_. ''token'')", unfolded demo_enroll]
  note reg = table_step.Register [of demo_cfg demo_libs ?e "smooth 5 (\<lambda>_. [])" demo_register, unfolded demo_registers transact_smooth snd_conv]
  note act = table_step.Action [of demo_cfg demo_libs "demo_db N_pending 0" "smooth 5 (\<lambda>_. [])" demo_worker Act_approve, unfolded demo_approve]
  note beat = table_step.Heartbeat [of demo_cfg demo_libs "demo_db N_approved 0" "smooth 5 (\<lambda>_. [])" demo_worker demo_beat, unfolded demo_beats]
  note enq = table_step.Enqueue [of demo_cfg demo_libs "demo_db N_approved 2" "smooth 5 (\<lambda>_. ''task'')" "[]" "''doi:10.1000/x''" demo_ref,
    unfolded demo_enqueue]
  have "fleet_run demo_cfg demo_libs (?m empty_fleet_db) (?m demo_queued)" unfolding fleet_run_def
    by (rule rtranclp.rtrancl_refl [of "fleet_step demo_cfg demo_libs", THEN rtranclp.rtrancl_into_rtrancl, THEN rtranclp.rtrancl_into_rtrancl,
          THEN rtranclp.rtrancl_into_rtrancl, THEN rtranclp.rtrancl_into_rtrancl, THEN rtranclp.rtrancl_into_rtrancl,
          OF enroll [THEN demo_tables] reg [THEN demo_tables] act [THEN demo_tables] beat [THEN demo_tables] enq [THEN demo_tables]])
  then show ?thesis unfolding start .
qed

lemma demo_run: "fleet_run demo_cfg demo_libs init_machine demo_start"
proof -
  have "table_step demo_cfg demo_libs demo_queued demo_claimed"
    using table_step.Claim [of demo_cfg demo_libs demo_queued "smooth 5 (\<lambda>_. demo_attempt)" demo_worker 1]
    by (simp add: demo_claim)
  from demo_tables [OF this] demo_queued_run show ?thesis unfolding fleet_run_def demo_start_def by simp
qed

text \<open>The upload, up to the staged file, and its archiving.\<close>

definition demo_upload :: upload_request where
  "demo_upload = \<lparr>up_attempt = demo_attempt, up_sha = replicate 64 CHR ''a'', up_size = 10250, up_source = [], up_strategy = ''direct'',
     up_meta = no_metadata\<rparr>"

definition demo_gens :: "nat \<Rightarrow> string" where "demo_gens k = demo_gen"

definition demo_running :: fleet_task where
  "demo_running = demo_task\<lparr>ft_state := T_running, ft_current := Some demo_attempt, ft_count := 1, ft_updated := 5\<rparr>"

definition demo_sending :: fleet_attempt where
  "demo_sending = reserved_attempt demo_cfg demo_libs 5 demo_gen demo_upload demo_row demo_running"

definition demo_ticket :: ticket where
  "demo_ticket = upload_ticket demo_cfg demo_gen demo_upload demo_row"

definition demo_reserved :: fleet_machine where
  "demo_reserved = demo_start\<lparr>fm_fleet := (fm_fleet demo_start)\<lparr>fs_db := put_attempt demo_attempt demo_sending demo_claimed\<rparr>,
     fm_tickets := {demo_ticket}, fm_used := {demo_gen}\<rparr>"

definition demo_io :: transfer_io where
  "demo_io = \<lparr>ti_body = demo_body, ti_open = True, ti_copied = True, ti_synced = True, ti_removed = True, ti_mtime = 6\<rparr>"

definition demo_staged :: fleet_machine where
  "demo_staged = demo_reserved\<lparr>fm_fleet := (fm_fleet demo_reserved)\<lparr>
     fs_files := (fs_files (fm_fleet demo_reserved))(pdf_path demo_cfg demo_attempt demo_gen \<mapsto> (demo_body, 6)),
     fs_db := staged_db (smooth 6 demo_gens) demo_ticket demo_sending demo_running (put_attempt demo_attempt demo_sending demo_claimed)\<rparr>\<rparr>"

lemma demo_valid_upload: "valid_upload demo_cfg demo_libs demo_upload"
  using demo_ids(2)
  by (simp add: valid_upload_def demo_cfg_def demo_libs_def demo_upload_def no_metadata_def to_lower_def min_pdf_bytes_def
      list_all_iff is_hex_def is_ascii_def ascii_lower_def is_upper_def is_digit_def)

lemma demo_identity: "result_identity demo_libs demo_ref no_metadata = Inr (''10.1000/x'', [], 0)"
  by code_simp

lemma demo_worker_attempt: "worker_attempt demo_claimed demo_worker demo_attempt = Some (demo_row, demo_running)"
  by (simp add: worker_attempt_def demo_claimed_def demo_row_def new_attempt_def demo_running_def)

lemma demo_current: "attempt_current demo_claimed 5 demo_attempt demo_row demo_running"
  by (simp add: attempt_current_def demo_row_def new_attempt_def demo_running_def demo_task_def new_task_def demo_claimed_def
      demo_queued_def demo_db_def demo_node_def worker_admitted_def)

lemma demo_reserve_step: "fleet_step demo_cfg demo_libs demo_start demo_reserved"
proof -
  let ?s = "fm_fleet demo_start"
  have db: "fs_db ?s = demo_claimed" by (simp add: demo_start_def)
  have row: "ft_ref demo_running = demo_ref" "ft_state demo_running = T_running" "fa_state demo_row = A_running" "fa_path demo_row = []"
    "up_meta demo_upload = no_metadata" "up_attempt demo_upload = demo_attempt" "up_size demo_upload = 10250"
    by (simp_all add: demo_running_def demo_task_def new_task_def demo_row_def new_attempt_def demo_upload_def)
  have "reserved_bytes demo_claimed = 0" by (simp add: reserved_bytes_def demo_claimed_def demo_row_def new_attempt_def)
  then have "up_size demo_upload \<le> fc_spool_max demo_cfg - reserved_bytes demo_claimed" by (simp add: row demo_cfg_def)
  with upload_reserve_smooth [of demo_cfg demo_libs demo_upload ?s demo_worker demo_row demo_running "(''10.1000/x'', [], 0)" 5 demo_gens True]
  have "upload_reserve demo_cfg demo_libs (smooth 5 demo_gens) True demo_worker demo_upload ?s =
      (Inr (Upload_Reserved demo_ticket), ?s\<lparr>fs_db := put_attempt demo_attempt demo_sending demo_claimed\<rparr>)"
    by (simp add: db row demo_valid_upload demo_worker_attempt demo_identity demo_current demo_ticket_def demo_sending_def demo_gens_def)
  from fleet_step.Reserve [OF this] show ?thesis
    by (simp add: demo_reserved_def demo_gens_def demo_gen_def demo_start_def init_machine_def)
qed

lemma demo_staged_step: "fleet_step demo_cfg demo_libs demo_reserved demo_staged"
proof -
  let ?s = "fm_fleet demo_reserved"
  have k: "tk_task demo_ticket = ''task''" "tk_attempt demo_ticket = demo_attempt" "tk_gen demo_ticket = demo_gen"
    "tk_path demo_ticket = pdf_path demo_cfg demo_attempt demo_gen" "tk_sha demo_ticket = replicate 64 CHR ''a''"
    "tk_size demo_ticket = 10250"
    by (simp_all add: demo_ticket_def upload_ticket_def demo_row_def new_attempt_def demo_upload_def)
  have a: "fa_state demo_sending = A_uploading" "fa_upload demo_sending = demo_gen" "fa_task demo_sending = ''task''"
    "fa_worker demo_sending = demo_worker" "fa_lease demo_sending = 120005"
    by (simp_all add: demo_sending_def reserved_attempt_def demo_row_def new_attempt_def demo_running_def demo_task_def new_task_def
        demo_cfg_def interval_def)
  have db: "fs_db ?s = put_attempt demo_attempt demo_sending demo_claimed" "fs_files ?s = (\<lambda>_. None)"
    by (simp_all add: demo_reserved_def demo_start_def init_machine_def)
  have t: "map_of (fd_tasks demo_claimed) ''task'' = Some demo_running" by (simp add: demo_claimed_def demo_running_def)
  have "attempt_current (put_attempt demo_attempt demo_sending demo_claimed) 6 demo_attempt demo_sending demo_running"
    using demo_current by (simp add: attempt_current_def a demo_row_def new_attempt_def demo_running_def demo_task_def new_task_def)
  with stream_stage_smooth [of ?s demo_ticket demo_running demo_sending 6 demo_io demo_libs demo_gens]
  have "stream_stage demo_libs (smooth 6 demo_gens) demo_io demo_ticket ?s = (Inr (), fm_fleet demo_staged)"
    by (simp add: k a db t gomap_simps demo_io_def demo_pdf demo_staged_def)
  moreover have "demo_reserved\<lparr>fm_fleet := fm_fleet demo_staged\<rparr> = demo_staged" by (simp add: demo_staged_def)
  moreover have "demo_ticket \<in> fm_tickets demo_reserved" by (simp add: demo_reserved_def)
  ultimately show ?thesis using fleet_step.Stream [of demo_ticket demo_reserved demo_cfg demo_libs "smooth 6 demo_gens" demo_io] by simp
qed

lemma demo_staged_run: "fleet_run demo_cfg demo_libs init_machine demo_staged"
  using demo_run demo_reserve_step demo_staged_step unfolding fleet_run_def by simp

lemma demo_staged_row: "map_of (fd_attempts (fs_db (fm_fleet demo_staged))) demo_attempt =
    Some (demo_sending\<lparr>fa_state := A_staged, fa_error := [], fa_updated := 6\<rparr>)"
  by (simp add: demo_staged_def staged_db_def demo_ticket_def upload_ticket_def demo_upload_def gomap_simps)

theorem staged_file_retained_witness:
  "\<exists>body mtime. fs_files (fm_fleet demo_staged) (pdf_path demo_cfg demo_attempt demo_gen) = Some (body, mtime) \<and>
    int (length body) = 10250"
  using staged_file_retained [OF demo_staged_run demo_valid demo_staged_row]
  by (auto simp: demo_sending_def reserved_attempt_def demo_upload_def)

text \<open>The archived end of the run.\<close>

definition demo_sent :: fleet_attempt where
  "demo_sent = demo_sending\<lparr>fa_state := A_staged, fa_error := [], fa_updated := 6\<rparr>"

definition demo_waiting :: fleet_task where
  "demo_waiting = demo_running\<lparr>ft_state := T_staged, ft_updated := 6\<rparr>"

definition demo_cio :: commit_io where
  "demo_cio = \<lparr>ci_archive = Some True, ci_hook = False, ci_read = True, ci_removed = True\<rparr>"

definition demo_out :: fetch_outcome where
  "demo_out = outcome_of demo_libs (fs_db (fm_fleet demo_staged)) ''task'' demo_sent (''10.1000/x'', [], 0)"

definition demo_done :: fleet_machine where
  "demo_done = demo_staged\<lparr>fm_fleet := (fm_fleet demo_staged)\<lparr>
     fs_archive := fs_archive (fm_fleet demo_staged) @ [(demo_ref, demo_out, demo_body)],
     fs_db := done_db (smooth 7 demo_gens) False demo_attempt demo_sent demo_waiting demo_out (fs_db (fm_fleet demo_staged))\<rparr>,
     fm_dead := {pdf_path demo_cfg demo_attempt demo_gen}\<rparr>"

lemma demo_sent_simps: "fa_task demo_sent = ''task''" "fa_state demo_sent = A_staged" "fa_sha demo_sent = replicate 64 CHR ''a''"
  "fa_size demo_sent = 10250" "fa_path demo_sent = pdf_path demo_cfg demo_attempt demo_gen" "fa_meta demo_sent = no_metadata"
  "fa_worker demo_sent = demo_worker" "fa_error demo_sent = []"
  by (simp_all add: demo_sent_def demo_sending_def reserved_attempt_def demo_upload_def demo_row_def new_attempt_def)

lemma demo_waiting_simps: "ft_ref demo_waiting = demo_ref" "ft_state demo_waiting = T_staged" "ft_current demo_waiting = Some demo_attempt"
  by (simp_all add: demo_waiting_def demo_running_def demo_task_def new_task_def)

lemma demo_staged_rows: "map_of (fd_attempts (fs_db (fm_fleet demo_staged))) demo_attempt = Some demo_sent"
  "map_of (fd_tasks (fs_db (fm_fleet demo_staged))) ''task'' = Some demo_waiting"
  "fs_files (fm_fleet demo_staged) (pdf_path demo_cfg demo_attempt demo_gen) = Some (demo_body, 6)"
  by (simp add: demo_staged_row demo_sent_def,
      simp_all add: demo_staged_def staged_db_def demo_waiting_def demo_ticket_def upload_ticket_def
      demo_row_def new_attempt_def gomap_simps)

lemma demo_dir: "path_dir (pdf_path demo_cfg demo_attempt demo_gen) = fc_spool_dir demo_cfg"
  by (rule path_dir_pdf [OF valid_id_no_slash [OF demo_ids(2)]]) (simp add: demo_gen_def)

lemma demo_done_step: "fleet_step demo_cfg demo_libs demo_staged demo_done"
proof -
  have max: "10250 \<le> fc_max_pdf demo_cfg" by (simp add: demo_cfg_def)
  have "demo_out = outcome_of demo_libs (fs_db (fm_fleet demo_staged)) (fa_task demo_sent) demo_sent (''10.1000/x'', [], 0)"
    by (simp add: demo_out_def demo_sent_simps)
  then have "commit_archive demo_cfg demo_libs (smooth 7 demo_gens) demo_cio demo_attempt (fm_fleet demo_staged) =
      (Inr (Some (pdf_path demo_cfg demo_attempt demo_gen)), fm_fleet demo_done)"
    using commit_archive_smooth [of demo_cio "fm_fleet demo_staged" demo_attempt demo_sent demo_waiting demo_cfg demo_body 6 demo_libs
        "(''10.1000/x'', [], 0)" 7 demo_gens] demo_pdf
      max by (simp add: demo_cio_def demo_staged_rows demo_sent_simps demo_waiting_simps demo_dir demo_identity demo_done_def)
  from fleet_step.Commit [OF this] show ?thesis by (simp add: demo_done_def demo_staged_def demo_reserved_def demo_start_def init_machine_def)
qed

lemma demo_done_run: "fleet_run demo_cfg demo_libs init_machine demo_done"
  using demo_staged_run demo_done_step unfolding fleet_run_def by simp

lemma demo_done_rows: "map_of (fd_attempts (fs_db (fm_fleet demo_done))) demo_attempt = Some (demo_sent\<lparr>fa_state := A_done, fa_updated := 7\<rparr>)"
  "\<exists>t. map_of (fd_tasks (fs_db (fm_fleet demo_done))) ''task'' = Some t \<and> ft_state t = T_done \<and>
     ft_outcome t = Some (demo_out\<lparr>fo_archived := True\<rparr>)"
  by (simp_all add: demo_done_def done_db_def gomap_simps demo_sent_simps)

theorem fleet_tables_consistent_witness:
  "\<exists>t. map_of (fd_tasks (fs_db (fm_fleet demo_staged))) ''task'' = Some t \<and>
     ft_count t = attempt_total ''task'' (fs_db (fm_fleet demo_staged)) \<and> ft_current t = Some demo_attempt"
  using fleet_tables_consistent [OF demo_staged_run demo_valid refl] demo_staged_rows(1,2) demo_sent_simps(1,2)
  by (simp add: live_attempt_def)

theorem fleet_bounds_witness:
  "live_count (fs_db (fm_fleet demo_staged)) \<le> 6 \<and> live_count_of demo_worker (fs_db (fm_fleet demo_staged)) \<le> 2 \<and>
    reserved_bytes (fs_db (fm_fleet demo_staged)) \<le> 1000000"
  using fleet_bounds [OF demo_staged_run demo_valid, of demo_worker] by (simp add: demo_cfg_def)

theorem done_task_archived_witness:
  "\<exists>ref out body. (ref, out, body) \<in> set (fs_archive (fm_fleet demo_done)) \<and> fo_task out = ''task'' \<and> int (length body) = 10250"
proof -
  have "fetch_poll (smooth 8 demo_gens) ''task'' 9 False (fs_db (fm_fleet demo_done)) =
      Some (Fetch_Done (demo_out\<lparr>fo_task := ''task'', fo_archived := True\<rparr>))"
    using demo_done_rows(2) by (auto simp: fetch_poll_def)
  from done_task_archived [OF demo_done_run demo_valid this] show ?thesis
    by (auto simp: demo_out_def outcome_of_def demo_sent_simps)
qed

text \<open>The late report of a worker whose attempt is done changes nothing.\<close>

lemma demo_late: "table_step demo_cfg demo_libs db (snd (transact (smooth 8 demo_gens) db
    (report_tx demo_cfg demo_libs (smooth 8 demo_gens) demo_worker
      \<lparr>rq_attempt = demo_attempt, rq_failure = ''network'', rq_message = [], rq_trace = []\<rparr> db)))"
  by (rule table_step.Report)

theorem ended_is_final_witness:
  "\<exists>db' a. table_step demo_cfg demo_libs (fs_db (fm_fleet demo_done)) db' \<and> map_of (fd_attempts db') demo_attempt = Some a \<and>
     rc_state (scan_receipt demo_attempt a) = ''done''"
proof -
  let ?db = "fs_db (fm_fleet demo_done)"
  let ?r = "\<lparr>rq_attempt = demo_attempt, rq_failure = ''network'', rq_message = [], rq_trace = []\<rparr>"
  let ?db' = "snd (transact (smooth 8 demo_gens) ?db (report_tx demo_cfg demo_libs (smooth 8 demo_gens) demo_worker ?r ?db))"
  let ?a = "demo_sent\<lparr>fa_state := A_done, fa_updated := 7\<rparr>"
  have "worker_attempt ?db demo_worker demo_attempt \<noteq> None"
    using demo_done_rows by (auto simp: worker_attempt_def demo_sent_simps)
  then obtain t where "worker_attempt ?db demo_worker demo_attempt = Some (?a, t)"
    using demo_done_rows(1) by (auto simp: worker_attempt_def split: if_splits)
  then have "?db' = ?db" by (simp add: report_tx_def valid_failure_def failure_codes_def scan_receipt_def)
  then have row: "map_of (fd_attempts ?db') demo_attempt = Some ?a" using demo_done_rows(1) by simp
  have step: "fleet_step demo_cfg demo_libs demo_done (demo_done\<lparr>fm_fleet := fm_fleet demo_done\<lparr>fs_db := ?db'\<rparr>\<rparr>)"
    by (rule fleet_step.Table [OF demo_late])
  have "\<forall>a'. map_of (fd_attempts ?db') demo_attempt = Some a' \<longrightarrow> scan_receipt demo_attempt a' = scan_receipt demo_attempt ?a"
    using ended_is_final [OF demo_done_run demo_valid step] demo_done_rows(1) by (simp add: ended_def)
  with row have "rc_state (scan_receipt demo_attempt ?a) = ''done'' \<and> scan_receipt demo_attempt ?a = scan_receipt demo_attempt ?a"
    by (simp add: scan_receipt_def)
  with row demo_late [of ?db] show ?thesis by blast
qed

text \<open>The worker is revoked while it has the task.\<close>

definition demo_revoked :: fleet_db where
  "demo_revoked = demo_claimed\<lparr>fd_nodes := [(demo_worker, demo_node N_revoked 2)],
     fd_attempts := [(demo_attempt, demo_row\<lparr>fa_lease := 6\<rparr>)]\<rparr>"

lemma demo_revoke: "snd (transact (smooth 6 ids) demo_claimed (action_tx (smooth 6 ids) demo_worker Act_revoke demo_claimed)) = demo_revoked"
  by (simp add: action_tx_def Let_def demo_claimed_def demo_queued_def demo_db_def demo_node_def fence_worker_def demo_revoked_def
      demo_row_def new_attempt_def)

theorem unadmitted_worker_fenced_witness:
  "(\<exists>e. heartbeat_tx demo_cfg demo_libs (smooth 5 demo_gens) demo_worker demo_beat demo_revoked = Inl e) \<and>
   (\<exists>e. claim_tx demo_cfg (smooth 5 demo_gens) demo_worker 1 demo_revoked = Inl e) \<and>
   (\<exists>db'. table_step demo_cfg demo_libs demo_revoked db' \<and> fenced False demo_worker demo_revoked db' \<and>
      (\<exists>a'. map_of (fd_attempts db') demo_attempt = Some a' \<and> fa_lease a' = 6))"
proof -
  let ?m = "init_machine\<lparr>fm_fleet := (fm_fleet init_machine)\<lparr>fs_db := demo_revoked\<rparr>\<rparr>"
  let ?r = "\<lparr>rq_attempt = demo_attempt, rq_failure = ''network'', rq_message = [], rq_trace = []\<rparr>"
  let ?db' = "snd (transact (smooth 5 demo_gens) demo_revoked
    (report_tx demo_cfg demo_libs (smooth 5 demo_gens) demo_worker ?r demo_revoked))"
  have "fleet_step demo_cfg demo_libs demo_start ?m"
    using demo_tables [OF table_step.Action [of demo_cfg demo_libs demo_claimed "smooth 6 demo_gens" demo_worker Act_revoke, unfolded demo_revoke]]
    by (simp add: demo_start_def)
  with demo_run have run: "fleet_run demo_cfg demo_libs init_machine ?m" unfolding fleet_run_def by simp
  have un: "\<not> admitted (fs_db (fm_fleet ?m)) demo_worker" and np: "\<not> pending_worker demo_revoked demo_worker"
    by (simp_all add: admitted_def pending_worker_def demo_revoked_def demo_node_def worker_admitted_def)
  note fence = unadmitted_worker_fenced [OF run demo_valid un, of "smooth 5 demo_gens" demo_beat 1 ?r]
  have refused: "(\<exists>e. heartbeat_tx demo_cfg demo_libs (smooth 5 demo_gens) demo_worker demo_beat demo_revoked = Inl e) \<and>
      (\<exists>e. claim_tx demo_cfg (smooth 5 demo_gens) demo_worker 1 demo_revoked = Inl e) \<and> ?db' = demo_revoked"
    using fence by simp
  have steps: "fleet_step demo_cfg demo_libs ?m m' \<Longrightarrow> fenced (pending_worker demo_revoked demo_worker) demo_worker demo_revoked (fs_db (fm_fleet m'))"
    for m' using fence by simp
  have step: "table_step demo_cfg demo_libs demo_revoked ?db'" by (rule table_step.Report)
  then have "fenced False demo_worker demo_revoked ?db'" using steps [OF demo_tables [OF step]] np by simp
  moreover have "\<exists>a'. map_of (fd_attempts ?db') demo_attempt = Some a' \<and> fa_lease a' = 6"
    using refused by (simp add: demo_revoked_def)
  ultimately show ?thesis using step refused by blast
qed

theorem claim_backed_witness:
  "assigned demo_worker demo_claimed
     \<lparr>as_task = ''task'', as_attempt = demo_attempt, as_ref = demo_ref, as_lease_expires = 60005, as_deadline = 360005,
      as_max_pdf = 20000\<rparr> \<and> live_count_of demo_worker demo_claimed \<le> 2"
proof -
  have "fs_db (fm_fleet (init_machine\<lparr>fm_fleet := (fm_fleet init_machine)\<lparr>fs_db := demo_queued\<rparr>\<rparr>)) = demo_queued" by simp
  note claim = claim_backed [OF demo_queued_run demo_valid, unfolded this, OF demo_claim]
  have "map_of (fd_nodes demo_queued) demo_worker = Some (demo_node N_approved 2)" "fn_capacity (demo_node N_approved 2) = 2"
    by (simp_all add: demo_queued_def demo_db_def demo_node_def)
  with claim show ?thesis by auto
qed

theorem enrollment_used_once_witness:
  "\<exists>e. register_tx demo_libs (smooth 6 demo_gens) (demo_register\<lparr>rr_id := demo_attempt\<rparr>) (demo_db N_approved 0) = Inl e"
proof -
  let ?m = "\<lambda>db. init_machine\<lparr>fm_fleet := fm_fleet init_machine\<lparr>fs_db := db\<rparr>\<rparr>"
  let ?e = "empty_fleet_db\<lparr>fd_enrollments := [(''token'', \<lparr>en_expires = 900005, en_used = None\<rparr>)]\<rparr>"
  let ?R = "\<lambda>a b. fleet_step demo_cfg demo_libs a b \<and> \<not> token_issued (lb_digest demo_libs (rr_token demo_register)) a b"
  have run: "fleet_run demo_cfg demo_libs init_machine (?m ?e)"
    using demo_tables [OF table_step.Enroll [of demo_cfg demo_libs empty_fleet_db "smooth 5 (\<lambda>_. ''token'')", unfolded demo_enroll]]
    by (simp add: fleet_run_def init_machine_def r_into_rtranclp)
  have new: "map_of (fd_nodes ?e) (rr_id demo_register) = None" by (simp add: empty_fleet_db_def)
  have "table_step demo_cfg demo_libs (demo_db N_pending 0) (demo_db N_approved 0)"
    using table_step.Action [of demo_cfg demo_libs "demo_db N_pending 0" "smooth 5 demo_gens" demo_worker Act_approve]
    by (simp add: demo_approve)
  then have "?R (?m (demo_db N_pending 0)) (?m (demo_db N_approved 0))"
    using demo_tables by (simp add: token_issued_def demo_db_def demo_libs_def demo_register_def)
  then have later: "?R\<^sup>*\<^sup>* (?m (demo_db N_pending 0)) (?m (demo_db N_approved 0))" by (rule r_into_rtranclp)
  have "map_of (fd_nodes (demo_db N_approved 0)) demo_attempt = None"
    by (simp add: demo_db_def demo_attempt_def demo_worker_def)
  with enrollment_used_once [OF run demo_valid, of "smooth 5 demo_gens" demo_register _ "demo_db N_pending 0" "?m (demo_db N_approved 0)"]
    new later demo_registers [of demo_gens]
  show ?thesis by simp
qed

theorem expiry_settles_witness:
  "\<exists>db' t. expire_tx demo_cfg demo_libs (smooth 200000 demo_gens) demo_claimed = Inr ((), Some db') \<and>
     map_of (fd_tasks db') ''task'' = Some t \<and> ft_state t = T_queued \<and> \<not> expire_due demo_cfg 200000 db' t"
proof -
  have due: "expire_due demo_cfg 200000 demo_claimed demo_running"
    by (simp add: expire_due_def demo_running_def demo_task_def new_task_def demo_claimed_def demo_row_def new_attempt_def)
  have tasks: "fd_tasks demo_claimed = [(''task'', demo_running)]" by (simp add: demo_claimed_def demo_running_def)
  have "\<exists>db'. expire_tasks demo_cfg demo_libs (smooth 200000 demo_gens) 3 200000 [(''task'', demo_running)] demo_claimed = Some db' \<and>
      (\<exists>t. map_of (fd_tasks db') ''task'' = Some t \<and> ft_state t = T_queued)"
    by (simp add: expire_task_def Let_def demo_running_def demo_task_def new_task_def demo_claimed_def demo_row_def new_attempt_def
        live_attempt_def demo_cfg_def)
  then obtain db' t where run: "expire_tasks demo_cfg demo_libs (smooth 200000 demo_gens) 3 200000 [(''task'', demo_running)] demo_claimed = Some db'"
    and t: "map_of (fd_tasks db') ''task'' = Some t" "ft_state t = T_queued" by blast
  from run have tx: "expire_tx demo_cfg demo_libs (smooth 200000 demo_gens) demo_claimed = Inr ((), Some db')"
    by (simp add: expire_tx_def Let_def tasks due)
  have "fs_db (fm_fleet demo_start) = demo_claimed" by (simp add: demo_start_def)
  with expiry_settles [OF demo_run demo_valid, of "smooth 200000 demo_gens" "()" db' 200000 "''task''" t] tx t(1)
  have "\<not> expire_due demo_cfg 200000 db' t" by (simp add: tasks)
  with tx t show ?thesis by blast
qed

definition demo_spool :: spool where
  "demo_spool =
     (let r = (new_record \<lparr>as_task = ''task'', as_attempt = demo_attempt, as_ref = demo_ref, as_lease_expires = 60005,
                as_deadline = 360005, as_max_pdf = 20000\<rparr> 5)\<lparr>sr_state := ''ready'', sr_sha := replicate 64 CHR ''a'', sr_size := 10250\<rparr>
      in \<lparr>sp_max = 1000000, sp_ttl = 10, sp_records = [(demo_attempt, r)], sp_busy = {}, sp_disk = [(demo_attempt, r)],
          sp_pdfs = [demo_attempt \<mapsto> demo_body]\<rparr>)"

theorem worker_forgets_archived_witness:
  "\<exists>ref out body. (ref, out, body) \<in> set (fs_archive (fm_fleet demo_done)) \<and> fo_task out = ''task'' \<and> int (length body) = 10250"
proof -
  let ?rc = "\<lparr>rc_task = ''task'', rc_attempt = demo_attempt, rc_state = ''done'', rc_sha = replicate 64 CHR ''a'', rc_size = 10250,
    rc_error = []\<rparr>"
  obtain r where r: "map_of (sp_records demo_spool) demo_attempt = Some r" "as_task (sr_assignment r) = ''task''" "sr_size r = 10250"
    "sr_state r = ''ready''" "sr_sha r = replicate 64 CHR ''a''"
    by (simp add: demo_spool_def Let_def new_record_def)
  have rc: "read_receipt (smooth 8 demo_gens) demo_worker demo_attempt (fs_db (fm_fleet demo_done)) = Inr ?rc"
    using demo_done_rows(1) by (simp add: read_receipt_def scan_receipt_def demo_sent_simps)
  have "archived demo_attempt ?rc IoOk True True demo_spool =
      (True, None, demo_spool\<lparr>sp_records := [], sp_disk := [], sp_pdfs := (sp_pdfs demo_spool)(demo_attempt := None)\<rparr>)"
    by (simp add: archived_def receipt_matches_def demo_spool_def Let_def new_record_def save_locked_def AList.delete_eq)
  from worker_forgets_archived [OF demo_done_run demo_valid rc r(1) this] r show ?thesis by auto
qed

theorem upload_completes_witness:
  "\<exists>rc s'. upload demo_cfg demo_libs (\<lambda>k. smooth (if k = 0 then 5 else 6) demo_gens) True demo_io demo_cio demo_worker demo_upload
      (fm_fleet demo_start) = (Inr rc, s') \<and> rc_state rc = ''done''"
proof -
  have db: "fs_db (fm_fleet demo_start) = demo_claimed" by (simp add: demo_start_def)
  have u: "up_attempt demo_upload = demo_attempt" "up_meta demo_upload = no_metadata" "up_sha demo_upload = replicate 64 CHR ''a''"
    "up_size demo_upload = 10250"
    by (simp_all add: demo_upload_def)
  have t: "ft_ref demo_running = demo_ref" "ft_deadline demo_running = 900005" "fa_state demo_row = A_running"
    by (simp_all add: demo_running_def demo_task_def new_task_def demo_row_def new_attempt_def)
  have room: "10250 \<le> fc_spool_max demo_cfg - reserved_bytes demo_claimed" "interval (fc_upload_timeout demo_cfg) = 120000"
    by (simp_all add: reserved_bytes_def demo_claimed_def demo_row_def new_attempt_def demo_cfg_def interval_def)
  have fresh: "demo_gens 0 \<notin> fm_used demo_start" "length (demo_gens 0) = 48" "CHR ''/'' \<notin> set (demo_gens 0)"
    by (simp_all add: demo_start_def init_machine_def demo_gens_def demo_gen_def)
  have "\<exists>s'. upload demo_cfg demo_libs (\<lambda>k. smooth (if k = 0 then 5 else 6) demo_gens) True demo_io demo_cio demo_worker demo_upload
      (fm_fleet demo_start) =
      (Inr \<lparr>rc_task = fa_task demo_row, rc_attempt = up_attempt demo_upload, rc_state = ''done'', rc_sha = up_sha demo_upload,
         rc_size = up_size demo_upload, rc_error = []\<rparr>, s')"
    using upload_completes [OF demo_run demo_valid refl demo_valid_upload, of demo_worker demo_row demo_running "(''10.1000/x'', [], 0)" 5 6
        demo_gens demo_io demo_cio True] fresh room
    by (simp add: db u t demo_worker_attempt demo_identity demo_current demo_io_def demo_cio_def demo_pdf) blast
  then show ?thesis by auto
qed

theorem fleet_operations_are_runs_witness:
  "\<exists>m'. fleet_run demo_cfg demo_libs demo_start m' \<and>
     fm_fleet m' = snd (upload demo_cfg demo_libs (\<lambda>_. smooth 5 demo_gens) True demo_io demo_cio demo_worker demo_upload (fm_fleet demo_start))"
proof -
  have "length (fe_ids (smooth 5 demo_gens) 0) = 48" "fe_ids (smooth 5 demo_gens) 0 \<notin> fm_used demo_start"
    by (simp_all add: demo_start_def init_machine_def demo_gens_def demo_gen_def)
  from conjunct1 [OF fleet_operations_are_runs [of "\<lambda>_. smooth 5 demo_gens" demo_start demo_cfg demo_libs True demo_io demo_cio demo_worker
        demo_upload "\<lambda>_. undefined" 0 0 "\<lambda>_. True" 0 "[]", OF this]]
  show ?thesis .
qed

end
