(* ===== verification/Fleet_Service.thy ===== *)
theory Fleet_Service
  imports Fleet_Safety
begin

text \<open>
  The compound operations of the coordinator (\<open>internal/downloadfleet\<close>): a whole pass of \<open>Maintain\<close>,
  \<open>FetchPDF\<close> with its wait and the trace of a failed download, and the administrators' \<open>Snapshot\<close>.
\<close>

section \<open>Maintenance\<close>

text \<open>
  What a pass meets: the environments of its transactions and statements, whether the two selections succeed,
  the texts of errors, whether a hook is installed and what it does, the order in which the second selection gives
  its rows, which files can be removed, and the entries of the directory that could be examined.
\<close>

record maintain_env =
  mt_expire :: fleet_env
  mt_select :: bool
  mt_commit :: "nat \<Rightarrow> fleet_env \<times> fleet_env \<times> commit_io"
  mt_note :: "nat \<Rightarrow> fleet_env \<times> fleet_env"
  mt_text :: "fleet_error \<Rightarrow> string"
  mt_hook :: bool
  mt_hooks :: "nat \<Rightarrow> fleet_env \<times> string option"
  mt_ended :: bool
  mt_order :: "string \<Rightarrow> nat"
  mt_clean :: "nat \<Rightarrow> fleet_env \<times> bool"
  mt_enrollments :: fleet_env
  mt_tasks :: fleet_env
  mt_nodes :: fleet_env
  mt_entries :: "string list option"
  mt_now :: instant
  mt_removed :: "string \<Rightarrow> bool"

text \<open>A statement that is a transaction of its own, with the errors to collect.\<close>

definition exec_stmt :: "fleet_env \<Rightarrow> (fleet_db \<Rightarrow> fleet_db) \<Rightarrow> fleet \<Rightarrow> fleet_error list \<times> fleet" where
  "exec_stmt env f s =
     (if \<not> fe_call env 0 then ([db_failed], s)
      else case transact env (fs_db s) (Inr ((), Some (f (fs_db s)))) of
             (Inl e, db) \<Rightarrow> ([e], s\<lparr>fs_db := db\<rparr>)
           | (Inr _, db) \<Rightarrow> ([], s\<lparr>fs_db := db\<rparr>))"

definition staged_ids :: "fleet_db \<Rightarrow> string list" where
  "staged_ids db = map fst (take 20 (sort_key (\<lambda>(i, a). fa_updated a)
     (filter (\<lambda>(i, a). fa_state a = A_staged) (fd_attempts db))))"

definition note_failure :: "fleet_libs \<Rightarrow> fleet_env \<times> fleet_env \<Rightarrow> string \<Rightarrow> string \<Rightarrow> fleet \<Rightarrow> fleet_error list \<times> fleet" where
  "note_failure lb envs i msg s =
     (case exec_stmt (fst envs) (note_failure_task lb i msg) s of
        (e1, s1) \<Rightarrow>
          (case exec_stmt (snd envs) (note_failure_attempt lb (fe_clock (snd envs) 0) i msg) s1 of
             (e2, s2) \<Rightarrow> (e1 @ e2, s2)))"

fun commit_all :: "fleet_config \<Rightarrow> fleet_libs \<Rightarrow> maintain_env \<Rightarrow> nat \<Rightarrow> string list \<Rightarrow> fleet \<Rightarrow> fleet_error list \<times> fleet" where
  "commit_all cfg lb mt k [] s = ([], s)"
| "commit_all cfg lb mt k (i # ids) s =
     (case mt_commit mt k of
        (env, env', io) \<Rightarrow>
          (case commit_staged cfg lb env env' io i s of
             (Inr _, s1) \<Rightarrow> commit_all cfg lb mt (Suc k) ids s1
           | (Inl e, s1) \<Rightarrow>
               (case note_failure lb (mt_note mt k) i (mt_text mt e) s1 of
                  (e1, s2) \<Rightarrow> (case commit_all cfg lb mt (Suc k) ids s2 of (e2, s3) \<Rightarrow> (e # e1 @ e2, s3)))))"

definition ended_files :: "maintain_env \<Rightarrow> fleet_db \<Rightarrow> (string \<times> string) list" where
  "ended_files mt db = map (\<lambda>(i, a). (i, fa_path a)) (take 100 (sort_key (\<lambda>(i, a). mt_order mt i)
     (filter (\<lambda>(i, a). fa_state a \<in> {A_done, A_expired, A_failed} \<and> fa_path a \<noteq> []) (fd_attempts db))))"

fun clean_all :: "fleet_config \<Rightarrow> maintain_env \<Rightarrow> nat \<Rightarrow> (string \<times> string) list \<Rightarrow> fleet \<Rightarrow> fleet_error list \<times> fleet" where
  "clean_all cfg mt k [] s = ([], s)"
| "clean_all cfg mt k ((i, path) # fs) s =
     (case clean_file cfg (fst (mt_clean mt k)) (snd (mt_clean mt k)) i path s of
        (r, s1) \<Rightarrow> (case clean_all cfg mt (Suc k) fs s1 of
                     (es, s2) \<Rightarrow> ((case r of Inl e \<Rightarrow> e # es | Inr _ \<Rightarrow> es), s2)))"

text \<open>The part after the ended files have been selected.\<close>

definition maintain_retention :: "fleet_config \<Rightarrow> maintain_env \<Rightarrow> (string \<times> string) list \<Rightarrow> fleet \<Rightarrow> fleet_error list \<times> fleet" where
  "maintain_retention cfg mt files s =
     (case clean_all cfg mt 0 files s of
        (e1, s1) \<Rightarrow>
     (case exec_stmt (mt_enrollments mt) (drop_enrollments (fe_clock (mt_enrollments mt) 0)) s1 of
        (e2, s2) \<Rightarrow>
     (case exec_stmt (mt_tasks mt) (drop_tasks cfg (fe_clock (mt_tasks mt) 0)) s2 of
        (e3, s3) \<Rightarrow>
     (case exec_stmt (mt_nodes mt) (drop_nodes cfg (fe_clock (mt_nodes mt) 0)) s3 of
        (e4, s4) \<Rightarrow>
          (case mt_entries mt of
             None \<Rightarrow> (e1 @ e2 @ e3 @ e4 @ [Fleet_Refused ''readdir''], s4)
           | Some paths \<Rightarrow>
               (e1 @ e2 @ e3 @ e4, remove_orphans cfg (mt_now mt) (mt_removed mt) 100 paths s4))))))"

definition maintain_hooks :: "fleet_libs \<Rightarrow> maintain_env \<Rightarrow> fleet \<Rightarrow> fleet_error list \<times> fleet" where
  "maintain_hooks lb mt s =
     (if \<not> mt_hook mt then ([], s)
      else case deliver_hooks lb (mt_hooks mt) 20 s of
             (None, s') \<Rightarrow> ([], s')
           | (Some e, s') \<Rightarrow> ([e], s'))"

text \<open>The part after the staged files, with the errors so far.\<close>

definition maintain_tail :: "fleet_config \<Rightarrow> fleet_libs \<Rightarrow> maintain_env \<Rightarrow> fleet_error list \<Rightarrow> fleet \<Rightarrow> fleet_error list \<times> fleet" where
  "maintain_tail cfg lb mt e1 s2 =
     (case maintain_hooks lb mt s2 of
        (e2, s3) \<Rightarrow>
          if \<not> mt_ended mt then ([db_failed], s3)
          else (case maintain_retention cfg mt (ended_files mt (fs_db s3)) s3 of (e3, s4) \<Rightarrow> (e1 @ e2 @ e3, s4)))"

definition maintain :: "fleet_config \<Rightarrow> fleet_libs \<Rightarrow> maintain_env \<Rightarrow> fleet \<Rightarrow> fleet_error list \<times> fleet" where
  "maintain cfg lb mt s =
     (if \<not> fc_enabled cfg then ([Fleet_Disabled], s)
      else
        case put_db s (transact (mt_expire mt) (fs_db s) (expire_tx cfg lb (mt_expire mt) (fs_db s))) of
          (Inl e, s1) \<Rightarrow> ([e], s1)
        | (Inr _, s1) \<Rightarrow>
            if \<not> mt_select mt then ([db_failed], s1)
            else
              (case commit_all cfg lb mt 0 (staged_ids (fs_db s1)) s1 of
                 (e1, s2) \<Rightarrow> maintain_tail cfg lb mt e1 s2))"

section \<open>Maintenance as a run\<close>

lemma put_db_table:
  assumes "table_step cfg lb (fs_db (fm_fleet m)) (snd (transact env (fs_db (fm_fleet m)) tx))"
  shows "\<exists>m'. fleet_run cfg lb m m' \<and> fm_fleet m' = snd (put_db (fm_fleet m) (transact env (fs_db (fm_fleet m)) tx))"
  using run_step [OF run_refl fleet_step.Table [OF assms]]
  by (intro exI [of _ "m\<lparr>fm_fleet := fm_fleet m\<lparr>fs_db := snd (transact env (fs_db (fm_fleet m)) tx)\<rparr>\<rparr>"]) (simp add: put_db_def)

lemma exec_stmt_run:
  assumes "exec_stmt env f s = (e, s')" and "\<And>db. table_step cfg lb db (f db)" and "fm_fleet m = s"
  shows "\<exists>m'. fleet_run cfg lb m m' \<and> fm_fleet m' = s'"
proof -
  let ?m1 = "m\<lparr>fm_fleet := fm_fleet m\<lparr>fs_db := f (fs_db (fm_fleet m))\<rparr>\<rparr>"
  have "fleet_run cfg lb m ?m1" by (rule run_step [OF run_refl fleet_step.Table [OF assms(2)]])
  moreover have "s' \<in> {fm_fleet m, fm_fleet ?m1}"
    using assms(1,3) by (auto simp: exec_stmt_def transact_def split: commit_outcome.splits if_splits)
  ultimately show ?thesis using run_refl [of cfg lb m] by blast
qed

lemma run_then:
  assumes "\<exists>m1. fleet_run cfg lb m m1 \<and> fm_fleet m1 = s1"
    and "\<And>m1. fm_fleet m1 = s1 \<Longrightarrow> \<exists>m2. fleet_run cfg lb m1 m2 \<and> fm_fleet m2 = s2"
  shows "\<exists>m2. fleet_run cfg lb m m2 \<and> fm_fleet m2 = s2"
  using assms run_trans by blast

lemma note_failure_run: "\<exists>m'. fleet_run cfg lb m m' \<and> fm_fleet m' = snd (note_failure lb envs i msg (fm_fleet m))"
proof -
  obtain e1 s1 where 1: "exec_stmt (fst envs) (note_failure_task lb i msg) (fm_fleet m) = (e1, s1)" by fastforce
  obtain e2 s2 where 2: "exec_stmt (snd envs) (note_failure_attempt lb (fe_clock (snd envs) 0) i msg) s1 = (e2, s2)" by fastforce
  have "\<exists>m2. fleet_run cfg lb m m2 \<and> fm_fleet m2 = s2"
    by (rule run_then [OF exec_stmt_run [OF 1 table_step.Note_task refl] exec_stmt_run [OF 2 table_step.Note_attempt]])
  then show ?thesis by (simp add: note_failure_def 1 2)
qed

lemma commit_all_run: "\<exists>m'. fleet_run cfg lb m m' \<and> fm_fleet m' = snd (commit_all cfg lb mt k ids (fm_fleet m))"
proof (induction ids arbitrary: k m)
  case (Cons i ids)
  obtain env env' io where e: "mt_commit mt k = (env, env', io)" by (cases "mt_commit mt k")
  obtain r s1 where r: "commit_staged cfg lb env env' io i (fm_fleet m) = (r, s1)" by fastforce
  have 1: "\<exists>m1. fleet_run cfg lb m m1 \<and> fm_fleet m1 = s1" using commit_staged_run [of cfg lb m env env' io i] r by simp
  show ?case
  proof (cases r)
    case (Inl err)
    obtain e1 s2 where n: "note_failure lb (mt_note mt k) i (mt_text mt err) s1 = (e1, s2)" by fastforce
    have "\<exists>m2. fleet_run cfg lb m m2 \<and> fm_fleet m2 = s2"
      by (rule run_then [OF 1]) (use note_failure_run n in \<open>metis snd_conv\<close>)
    from run_then [OF this, of "snd (commit_all cfg lb mt (Suc k) ids s2)"] Cons.IH show ?thesis
      by (simp add: e r Inl n split: prod.splits) (metis snd_conv)
  next
    case (Inr x)
    from run_then [OF 1, of "snd (commit_all cfg lb mt (Suc k) ids s1)"] Cons.IH show ?thesis by (simp add: e r Inr) metis
  qed
qed (use run_stay in simp)

lemma select_all_run:
  assumes "\<forall>(i, p) \<in> set files. \<exists>a. map_of (fd_attempts (fs_db (fm_fleet m))) i = Some a \<and> ended a \<and> fa_path a = p \<and> p \<noteq> []"
  shows "\<exists>m'. fleet_run cfg lb m m' \<and> fm_fleet m' = fm_fleet m \<and> snd ` set files \<subseteq> fm_dead m'"
  using assms
proof (induction files)
  case (Cons x files)
  then obtain m1 where m1: "fleet_run cfg lb m m1" "fm_fleet m1 = fm_fleet m" "snd ` set files \<subseteq> fm_dead m1" by auto
  from Cons.prems obtain i a where a: "map_of (fd_attempts (fs_db (fm_fleet m1))) i = Some a" "ended a" "fa_path a = snd x" "snd x \<noteq> []"
    by (cases x) (auto simp: m1(2))
  have "fleet_run cfg lb m (m1\<lparr>fm_dead := insert (snd x) (fm_dead m1)\<rparr>)"
    using run_step [OF m1(1) fleet_step.Select_ended [OF a(1,2)]] a(3,4) by simp
  with m1 show ?case by (intro exI [of _ "m1\<lparr>fm_dead := insert (snd x) (fm_dead m1)\<rparr>"]) auto
qed (use run_stay [of cfg lb m] in simp)

lemma clean_all_run:
  assumes "snd ` set files \<subseteq> fm_dead m"
  shows "\<exists>m'. fleet_run cfg lb m m' \<and> fm_fleet m' = snd (clean_all cfg mt k files (fm_fleet m))"
  using assms
proof (induction files arbitrary: k m)
  case (Cons x files)
  obtain i p where x: "x = (i, p)" by (cases x)
  obtain r s1 where r: "clean_file cfg (fst (mt_clean mt k)) (snd (mt_clean mt k)) i p (fm_fleet m) = (r, s1)" by fastforce
  let ?m1 = "m\<lparr>fm_fleet := s1\<rparr>"
  have "fleet_run cfg lb m ?m1"
    using run_step [OF run_refl fleet_step.Clean [of p m cfg lb "fst (mt_clean mt k)" "snd (mt_clean mt k)" i]] Cons.prems r x by simp
  moreover from Cons.IH [of ?m1 "Suc k"] Cons.prems obtain m' where
    m': "fleet_run cfg lb ?m1 m'" "fm_fleet m' = snd (clean_all cfg mt (Suc k) files s1)" by auto
  ultimately have "fleet_run cfg lb m m'" using run_trans by blast
  with m'(2) show ?case by (intro exI [of _ m']) (simp add: x r split: prod.splits)
qed (use run_stay in simp)

lemma ended_files_rows:
  assumes "gomap_ok (fd_attempts db)" and "(i, p) \<in> set (ended_files mt db)"
  shows "\<exists>a. map_of (fd_attempts db) i = Some a \<and> ended a \<and> fa_path a = p \<and> p \<noteq> []"
  using assms by (auto simp: ended_files_def ended_def gomap_set_iff dest!: in_set_takeD)

lemma retention_run:
  assumes "gomap_ok (fd_attempts (fs_db (fm_fleet m)))"
  shows "\<exists>m'. fleet_run cfg lb m m' \<and>
    fm_fleet m' = snd (maintain_retention cfg mt (ended_files mt (fs_db (fm_fleet m))) (fm_fleet m))"
proof -
  let ?files = "ended_files mt (fs_db (fm_fleet m))"
  obtain e1 s1 where 1: "clean_all cfg mt 0 ?files (fm_fleet m) = (e1, s1)" by fastforce
  obtain e2 s2 where 2: "exec_stmt (mt_enrollments mt) (drop_enrollments (fe_clock (mt_enrollments mt) 0)) s1 = (e2, s2)" by fastforce
  obtain e3 s3 where 3: "exec_stmt (mt_tasks mt) (drop_tasks cfg (fe_clock (mt_tasks mt) 0)) s2 = (e3, s3)" by fastforce
  obtain e4 s4 where 4: "exec_stmt (mt_nodes mt) (drop_nodes cfg (fe_clock (mt_nodes mt) 0)) s3 = (e4, s4)" by fastforce
  from select_all_run [of ?files m] ended_files_rows [OF assms] obtain m0 where
    m0: "fleet_run cfg lb m m0" "fm_fleet m0 = fm_fleet m" "snd ` set ?files \<subseteq> fm_dead m0" by blast
  from clean_all_run [OF m0(3), of cfg lb mt 0] m0(1,2) 1 have r1: "\<exists>m'. fleet_run cfg lb m m' \<and> fm_fleet m' = s1"
    using run_trans by (metis snd_conv)
  have r2: "\<exists>m'. fleet_run cfg lb m m' \<and> fm_fleet m' = s2"
    by (rule run_then [OF r1 exec_stmt_run [OF 2 table_step.Drop_enrollments]])
  have r3: "\<exists>m'. fleet_run cfg lb m m' \<and> fm_fleet m' = s3"
    by (rule run_then [OF r2 exec_stmt_run [OF 3 table_step.Drop_tasks]])
  have r4: "\<exists>m'. fleet_run cfg lb m m' \<and> fm_fleet m' = s4"
    by (rule run_then [OF r3 exec_stmt_run [OF 4 table_step.Drop_nodes]])
  show ?thesis
  proof (cases "mt_entries mt")
    case None
    with r4 show ?thesis by (simp add: maintain_retention_def 1 2 3 4)
  next
    case (Some paths)
    have "\<exists>m'. fleet_run cfg lb m m' \<and> fm_fleet m' = remove_orphans cfg (mt_now mt) (mt_removed mt) 100 paths s4"
      by (rule run_then [OF r4]) (use remove_orphans_run in metis)
    with Some show ?thesis by (simp add: maintain_retention_def 1 2 3 4)
  qed
qed

lemma maintain_hooks_run: "\<exists>m'. fleet_run cfg lb m m' \<and> fm_fleet m' = snd (maintain_hooks lb mt (fm_fleet m))"
  using deliver_hooks_run [of cfg lb m "mt_hooks mt" 20] run_stay [of cfg lb m]
  by (auto simp: maintain_hooks_def split: prod.splits option.splits)

lemma maintain_tail_run:
  assumes "fleet_run cfg lb init_machine m" and "fleet_validate cfg = None"
  shows "\<exists>m'. fleet_run cfg lb m m' \<and> fm_fleet m' = snd (maintain_tail cfg lb mt e (fm_fleet m))"
proof -
  obtain e2 s3 where 3: "maintain_hooks lb mt (fm_fleet m) = (e2, s3)" by fastforce
  from maintain_hooks_run [of cfg lb m mt] 3 obtain m3 where m3: "fleet_run cfg lb m m3" "fm_fleet m3 = s3" by auto
  have "fleet_machine_inv cfg lb m3" by (rule run_machine [OF run_trans [OF assms(1) m3(1)] assms(2)])
  then have "gomap_ok (fd_attempts (fs_db s3))" using fleet_machine_invD(1) m3(2) fleet_okD(1) fleet_invD(5) by metis
  from retention_run [of m3, unfolded m3(2), OF this] have
    "\<exists>m'. fleet_run cfg lb m m' \<and> fm_fleet m' = snd (maintain_retention cfg mt (ended_files mt (fs_db s3)) s3)"
    using run_trans [OF m3(1)] by blast
  with m3 3 show ?thesis by (auto simp: maintain_tail_def split: prod.splits)
qed

lemma maintain_run:
  assumes "fleet_run cfg lb init_machine m" and "fleet_validate cfg = None"
  shows "\<exists>m'. fleet_run cfg lb m m' \<and> fm_fleet m' = snd (maintain cfg lb mt (fm_fleet m))"
proof (cases "fc_enabled cfg")
  case True
  let ?s = "fm_fleet m"
  obtain r s1 where r: "put_db ?s (transact (mt_expire mt) (fs_db ?s) (expire_tx cfg lb (mt_expire mt) (fs_db ?s))) = (r, s1)" by fastforce
  have 1: "\<exists>m1. fleet_run cfg lb m m1 \<and> fm_fleet m1 = s1" using put_db_table [OF table_step.Expire] r by (metis snd_conv)
  obtain e1 s2 where 2: "commit_all cfg lb mt 0 (staged_ids (fs_db s1)) s1 = (e1, s2)" by fastforce
  have "\<exists>m'. fleet_run cfg lb m m' \<and> fm_fleet m' = s2" by (rule run_then [OF 1]) (use commit_all_run 2 in \<open>metis snd_conv\<close>)
  then obtain m2 where m2: "fleet_run cfg lb m m2" "fm_fleet m2 = s2" by blast
  from maintain_tail_run [OF run_trans [OF assms(1) m2(1)] assms(2), of mt e1] m2 have
    "\<exists>m'. fleet_run cfg lb m m' \<and> fm_fleet m' = snd (maintain_tail cfg lb mt e1 s2)" using run_trans by blast
  with True 1 r 2 show ?thesis by (auto simp: maintain_def split: sum.splits prod.splits)
qed (use run_stay [of cfg lb m] in \<open>simp add: maintain_def\<close>)

section \<open>Recovery of staged files\<close>

lemma put_db_frame [simp]:
  "fs_archive (snd (put_db s r)) = fs_archive s" "fs_files (snd (put_db s r)) = fs_files s" "fs_db (snd (put_db s r)) = snd r"
  by (simp_all add: put_db_def)

lemma remove_file_archive [simp]: "fs_archive (remove_file p s) = fs_archive s"
  by (simp add: remove_file_def)

lemma archive_frames [simp]:
  "fs_archive (snd (deliver_hook lb env failure s)) = fs_archive s"
  "fs_archive (snd (reset_transfer env rm_ok k s)) = fs_archive s"
  "fs_archive (snd (clean_file cfg env rm_ok i path s)) = fs_archive s"
  "fs_archive (snd (stream_stage lb env io k s)) = fs_archive s"
  by (auto simp: deliver_hook_def reset_transfer_def clean_file_def stream_stage_def Let_def split: option.splits prod.splits)

lemma reserve_archive: "upload_reserve cfg lb env rm_ok w u s = (r, s') \<Longrightarrow> fs_archive s' = fs_archive s"
proof (erule upload_reserve_cases)
  fix a t s1 assume "s1 = s \<or> fa_path a \<noteq> [] \<and> s1 = remove_file (fa_path a) s"
    and "put_db s1 (transact env (fs_db s) (reserve_tx cfg lb env u (to_lower (lb_lower lb) (up_sha u)) a t (fs_db s))) = (r, s')"
  then show ?thesis by (metis put_db_frame(1) remove_file_archive snd_conv)
qed simp

lemma commit_archive_grows:
  "commit_archive cfg lb env cio i s = (c, s') \<Longrightarrow> set (fs_archive s) \<subseteq> set (fs_archive s')"
proof (erule commit_archive_cases)
  fix a t body identity
  assume "archive_tx lb env cio i a t (outcome_of lb (fs_db s) (fa_task a) a identity) body s = (c, s')"
  then show ?thesis by (auto simp: archive_tx_def Let_def put_db_def split: if_splits)
qed simp

lemma step_archive:
  assumes "fleet_step cfg lb m m'"
  shows "set (fs_archive (fm_fleet m)) \<subseteq> set (fs_archive (fm_fleet m'))"
  using assms by cases (simp_all add: reserve_archive commit_archive_grows)

lemma run_archive: "fleet_run cfg lb m m' \<Longrightarrow> set (fs_archive (fm_fleet m)) \<subseteq> set (fs_archive (fm_fleet m'))"
  unfolding fleet_run_def by (induction rule: rtranclp_induct) (use step_archive in blast)+

definition staged_row :: "fleet_db \<Rightarrow> string \<Rightarrow> fleet_attempt \<Rightarrow> fleet_task \<Rightarrow> bool" where
  "staged_row db i a t \<longleftrightarrow>
     map_of (fd_attempts db) i = Some a \<and> fa_state a = A_staged \<and> map_of (fd_tasks db) (fa_task a) = Some t \<and>
     ft_current t = Some i \<and> ft_state t = T_staged"

lemma staged_row_put:
  assumes "staged_row db i a t" and "j \<noteq> i"
  shows "staged_row (put_attempt j b db) i a t" and "k \<noteq> fa_task a \<Longrightarrow> staged_row (put_task k u db) i a t"
  using assms by (auto simp: staged_row_def gomap_simps)

lemma transact_snd: "snd (transact env db (Inr (r, Some db'))) \<in> {db, db'}"
  by (auto simp: transact_def split: commit_outcome.splits)

lemma released_other: "staged_row db i a t \<Longrightarrow> j \<noteq> i \<Longrightarrow> staged_row (released j db) i a t"
  by (auto simp: released_def staged_row_put split: option.splits)

lemma clean_other:
  assumes "staged_row (fs_db s) i a t" and "j \<noteq> i"
  shows "staged_row (fs_db (snd (clean_file cfg env rm_ok j path s))) i a t"
  using assms released_other [OF assms] transact_snd [of env "fs_db s" "()" "released j (fs_db s)"]
  by (auto simp: clean_file_def remove_file_def)

lemma commit_other:
  assumes "staged_row (fs_db s) i a t" and "j \<noteq> i" and "commit_staged cfg lb env env' io j s = (r, s')"
  shows "staged_row (fs_db s') i a t"
proof -
  obtain c s1 where c: "commit_archive cfg lb env io j s = (c, s1)" by fastforce
  have "staged_row (fs_db s1) i a t"
    using c
  proof (rule commit_archive_cases)
    fix aj tj body identity
    assume j: "map_of (fd_tasks (fs_db s)) (fa_task aj) = Some tj" "ft_current tj = Some j"
      and tx: "archive_tx lb env io j aj tj (outcome_of lb (fs_db s) (fa_task aj) aj identity) body s = (c, s1)"
    have "fa_task aj \<noteq> fa_task a" using j assms(1,2) by (auto simp: staged_row_def)
    then have "staged_row (done_db env (ci_hook io) j aj tj out (fs_db s)) i a t" for out
      using assms(1,2) by (simp add: done_db_def staged_row_put)
    with assms(1) tx show ?thesis
      by (auto simp: archive_tx_def Let_def put_db_def transact_def split: if_splits commit_outcome.splits)
  qed (use assms(1) in simp)
  with assms(3) c clean_other [OF _ assms(2)] show ?thesis
    by (auto simp: commit_staged_def split: sum.splits option.splits) (metis snd_conv)
qed

lemma note_task_other: "staged_row db i a t \<Longrightarrow> j \<noteq> i \<Longrightarrow> staged_row (note_failure_task lb j msg db) i a t"
  by (auto simp: staged_row_def note_failure_task_def map_of_map_val)

lemma note_attempt_other: "staged_row db i a t \<Longrightarrow> j \<noteq> i \<Longrightarrow> staged_row (note_failure_attempt lb now j msg db) i a t"
  by (auto simp: note_failure_attempt_def staged_row_put split: option.splits)

lemma exec_stmt_row:
  assumes "staged_row (fs_db s) i a t" and "staged_row (f (fs_db s)) i a t" and "exec_stmt env f s = (e, s')"
  shows "staged_row (fs_db s') i a t"
  using assms by (auto simp: exec_stmt_def transact_def split: if_splits commit_outcome.splits)

lemma note_other:
  assumes "staged_row (fs_db s) i a t" and "j \<noteq> i" and "note_failure lb envs j msg s = (e, s')"
  shows "staged_row (fs_db s') i a t"
proof -
  obtain e1 s1 where 1: "exec_stmt (fst envs) (note_failure_task lb j msg) s = (e1, s1)" by fastforce
  obtain e2 s2 where 2: "exec_stmt (snd envs) (note_failure_attempt lb (fe_clock (snd envs) 0) j msg) s1 = (e2, s2)" by fastforce
  have "staged_row (fs_db s1) i a t" by (rule exec_stmt_row [OF assms(1) note_task_other [OF assms(1,2)] 1])
  from exec_stmt_row [OF this note_attempt_other [OF this assms(2)] 2] assms(3) show ?thesis by (simp add: note_failure_def 1 2)
qed

definition recovered :: "fleet_libs \<Rightarrow> fleet_attempt \<Rightarrow> fleet_task \<Rightarrow> fleet \<Rightarrow> bool" where
  "recovered lb a t s \<longleftrightarrow>
     (\<exists>out body. (ft_ref t, out, body) \<in> set (fs_archive s) \<and> fo_task out = fa_task a \<and> genuine lb body (fa_sha a) (fa_size a))"

lemma recovered_run: "recovered lb a t (fm_fleet m) \<Longrightarrow> fleet_run cfg lb m m' \<Longrightarrow> recovered lb a t (fm_fleet m')"
  using run_archive unfolding recovered_def by blast

lemma commit_recovers:
  assumes "fleet_machine_inv cfg lb m" and "staged_row (fs_db (fm_fleet m)) i a t" and "ci_archive io = Some True" and "ci_read io"
    and "result_identity lb (ft_ref t) (fa_meta a) = Inr identity" and "path_dir (fa_path a) = fc_spool_dir cfg"
    and "fa_size a \<le> fc_max_pdf cfg" and "commit_staged cfg lb (smooth n ids) env' io i (fm_fleet m) = (r, s')"
  shows "recovered lb a t s'"
proof -
  note row = assms(2) [unfolded staged_row_def]
  have "staged_file lb (fm_fleet m) a" using fleet_machine_invD(6) [OF assms(1)] row by blast
  then obtain body mtime where
    f: "fs_files (fm_fleet m) (fa_path a) = Some (body, mtime)" "genuine lb body (fa_sha a) (fa_size a)"
    by (auto simp: staged_file_def split: option.splits)
  let ?out = "outcome_of lb (fs_db (fm_fleet m)) (fa_task a) a identity"
  let ?s1 = "(fm_fleet m)\<lparr>fs_archive := fs_archive (fm_fleet m) @ [(ft_ref t, ?out, body)],
       fs_db := done_db (smooth n ids) (ci_hook io) i a t ?out (fs_db (fm_fleet m))\<rparr>"
  have "commit_archive cfg lb (smooth n ids) io i (fm_fleet m) = (Inr (Some (fa_path a)), ?s1)"
    by (rule commit_archive_smooth [OF assms(3,4)]) (use row assms(5-7) f in simp_all)
  with assms(8) have "s' = snd (clean_file cfg env' (ci_removed io) i (fa_path a) ?s1)"
    by (simp add: commit_staged_def)
  moreover have "fs_archive (snd (clean_file cfg env' rm_ok j p s)) = fs_archive s" for rm_ok j p s
    by (simp add: clean_file_def)
  ultimately have "(ft_ref t, ?out, body) \<in> set (fs_archive s')" by simp
  with f(2) outcome_of_simps(1) show ?thesis unfolding recovered_def by blast
qed

text \<open>One staged file of the pass, with what is left of the pass after it.\<close>

lemma commit_all_step:
  assumes "commit_staged cfg lb env env' io j (fm_fleet m) = (r, s1)" and "mt_commit mt k = (env, env', io)"
  obtains m2 where "fleet_run cfg lb m m2"
    and "snd (commit_all cfg lb mt k (j # ids) (fm_fleet m)) = snd (commit_all cfg lb mt (Suc k) ids (fm_fleet m2))"
    and "\<forall>i a t. staged_row (fs_db s1) i a t \<longrightarrow> j \<noteq> i \<longrightarrow> staged_row (fs_db (fm_fleet m2)) i a t"
    and "\<forall>a t. recovered lb a t s1 \<longrightarrow> recovered lb a t (fm_fleet m2)"
proof -
  from commit_staged_run [of cfg lb m env env' io j] assms(1) obtain m1 where m1: "fleet_run cfg lb m m1" "fm_fleet m1 = s1" by auto
  show thesis
  proof (cases r)
    case (Inl e)
    obtain e1 s2 where n: "note_failure lb (mt_note mt k) j (mt_text mt e) s1 = (e1, s2)" by fastforce
    with note_failure_run [of cfg lb m1 "mt_note mt k" j "mt_text mt e"] m1(2) obtain m2 where
      m2: "fleet_run cfg lb m1 m2" "fm_fleet m2 = s2" by auto
    show thesis
    proof (rule that [OF run_trans [OF m1(1) m2(1)]])
      show "snd (commit_all cfg lb mt k (j # ids) (fm_fleet m)) = snd (commit_all cfg lb mt (Suc k) ids (fm_fleet m2))"
        by (simp add: assms Inl n m2(2) split: prod.splits)
      show "\<forall>i a t. staged_row (fs_db s1) i a t \<longrightarrow> j \<noteq> i \<longrightarrow> staged_row (fs_db (fm_fleet m2)) i a t"
        using note_other [OF _ _ n] m2(2) by blast
      show "\<forall>a t. recovered lb a t s1 \<longrightarrow> recovered lb a t (fm_fleet m2)"
        using recovered_run [OF _ m2(1)] m1(2) by simp
    qed
  next
    case (Inr x)
    show thesis by (rule that [OF m1(1)]) (simp_all add: assms Inr m1(2))
  qed
qed

lemma commit_all_recovers:
  assumes "fleet_run cfg lb init_machine m" and "fleet_validate cfg = None" and "staged_row (fs_db (fm_fleet m)) i a t"
    and "i \<in> set ids" and "\<And>k. \<exists>env' io. mt_commit mt k = (smooth n gens, env', io) \<and> ci_archive io = Some True \<and> ci_read io"
    and "result_identity lb (ft_ref t) (fa_meta a) = Inr identity" and "path_dir (fa_path a) = fc_spool_dir cfg"
    and "fa_size a \<le> fc_max_pdf cfg"
  shows "recovered lb a t (snd (commit_all cfg lb mt k ids (fm_fleet m)))"
  using assms(1,3,4)
proof (induction ids arbitrary: k m)
  case (Cons j ids)
  from assms(5) obtain env' io where e: "mt_commit mt k = (smooth n gens, env', io)" "ci_archive io = Some True" "ci_read io" by blast
  obtain r s1 where r: "commit_staged cfg lb (smooth n gens) env' io j (fm_fleet m) = (r, s1)" by fastforce
  from r e(1) obtain m2 where m2: "fleet_run cfg lb m m2"
    "snd (commit_all cfg lb mt k (j # ids) (fm_fleet m)) = snd (commit_all cfg lb mt (Suc k) ids (fm_fleet m2))"
    "\<forall>i a t. staged_row (fs_db s1) i a t \<longrightarrow> j \<noteq> i \<longrightarrow> staged_row (fs_db (fm_fleet m2)) i a t"
    "\<forall>a t. recovered lb a t s1 \<longrightarrow> recovered lb a t (fm_fleet m2)" by (rule commit_all_step [of cfg lb _ _ _ j m r s1 mt k ids])
  show ?case
  proof (cases "j = i")
    case True
    have "recovered lb a t s1"
      by (rule commit_recovers [OF run_machine [OF Cons.prems(1) assms(2)] Cons.prems(2) e(2,3) assms(6-8) r [unfolded True]])
    with m2(4) have "recovered lb a t (fm_fleet m2)" by blast
    with commit_all_run [of cfg lb m2 mt "Suc k" ids] show ?thesis unfolding m2(2) using recovered_run by metis
  next
    case False
    have "staged_row (fs_db (fm_fleet m2)) i a t" using m2(3) commit_other [OF Cons.prems(2) False r] False by blast
    with Cons.IH [OF run_trans [OF Cons.prems(1) m2(1)]] Cons.prems(3) False show ?thesis unfolding m2(2) by auto
  qed
qed simp

lemma expire_keeps_staged:
  assumes "fleet_ok cfg db" and "expire_tx cfg lb (smooth n gens) db = Inr (u, Some db')" and "staged_row db i a t"
    and "n \<le> ft_updated t + interval (fc_retention cfg)"
  shows "staged_row db' i a t"
proof -
  let ?f = "filter (\<lambda>(i, t). expire_due cfg n db t) (fd_tasks db)"
  let ?due = "take 100 (sort_key (\<lambda>(i, t). ft_created t) ?f)"
  note inv = fleet_okD(1) [OF assms(1)]
  note row = assms(3) [unfolded staged_row_def]
  have run: "expire_tasks cfg lb (smooth n gens) 3 n ?due db = Some db'"
    using assms(2) by (simp add: expire_tx_def Let_def split: if_splits option.splits)
  have due: "map_of (fd_tasks db) k = Some s \<and> expire_due cfg n db s" if "(k, s) \<in> set ?due" for k s
    using in_set_takeD [OF that] fleet_invD(3) [OF inv] by (simp add: gomap_set_iff)
  have "distinct (map fst (sort_key (\<lambda>(i, t). ft_created t) ?f))"
    using gomap_ok_filter [OF fleet_invD(3) [OF inv]] by (simp add: gomap_ok_def distinct_map inj_on_def)
  then have dist: "distinct (map fst ?due)" by (metis distinct_take take_map)
  have act: "map_of (fd_tasks db) k = Some s \<and> active_task s" if "(k, s) \<in> set ?due" for k s
    using due [OF that] by (auto simp: expire_due_def active_task_def)
  have "\<not> expire_due cfg n db t" using row assms(4) by (simp add: expire_due_def)
  have idle: "fa_task a \<notin> fst ` set ?due"
  proof
    assume "fa_task a \<in> fst ` set ?due"
    then obtain s where "(fa_task a, s) \<in> set ?due" by auto
    from due [OF this] row \<open>\<not> expire_due cfg n db t\<close> show False by simp
  qed
  note settle = expire_tasks_settle [OF assms(1) act dist _ run]
  have 1: "map_of (fd_attempts db') i = Some a" using settle idle row by simp
  have "fleet_ok cfg db'" using expire_tasks_keep [OF assms(1) act dist run] by blast
  from fleet_invD(6) [OF fleet_okD(1) [OF this] 1] obtain t' where "map_of (fd_tasks db') (fa_task a) = Some t'"
    by (auto simp: attempt_ok_def)
  with settle [where i = "fa_task a" and t' = t'] idle have "map_of (fd_tasks db') (fa_task a) = Some t" using row by simp
  with 1 row show ?thesis by (simp add: staged_row_def)
qed

definition staged_list :: "fleet_db \<Rightarrow> (string \<times> fleet_attempt) list" where
  "staged_list db = filter (\<lambda>(i, a). fa_state a = A_staged) (fd_attempts db)"

lemma staged_ids_complete:
  assumes "staged_row db i a t" and "length (staged_list db) \<le> 20"
  shows "i \<in> set (staged_ids db)"
proof -
  have "(i, a) \<in> set (staged_list db)" using assms(1) by (auto simp: staged_row_def staged_list_def dest: map_of_SomeD)
  with assms(2) show ?thesis unfolding staged_ids_def staged_list_def [symmetric] by (force simp: image_iff)
qed

lemma staged_list_quiet:
  assumes "gomap_ok (fd_attempts db)" and "gomap_ok (fd_attempts db')" and "db_quiet db db'"
  shows "length (staged_list db') \<le> length (staged_list db)"
proof -
  have dist: "length (staged_list d) = card (fst ` set (staged_list d))" if "gomap_ok (fd_attempts d)" for d
    using gomap_ok_filter [OF that, of "\<lambda>(i, a). fa_state a = A_staged"]
    by (metis distinct_card gomap_ok_def length_map list.set_map staged_list_def)
  have "fst ` set (staged_list db') \<subseteq> fst ` set (staged_list db)"
  proof
    fix i assume "i \<in> fst ` set (staged_list db')"
    then obtain a' where a': "map_of (fd_attempts db') i = Some a'" "fa_state a' = A_staged"
      using assms(2) by (auto simp: staged_list_def gomap_set_iff)
    with assms(3) obtain a where "map_of (fd_attempts db) i = Some a" "fa_state a = A_staged"
      by (fastforce simp: db_quiet_def rows_follow_def attempt_quiet_def attempt_new_def split: option.splits)
    with assms(1) show "i \<in> fst ` set (staged_list db)" by (force simp: staged_list_def gomap_set_iff)
  qed
  then show ?thesis using dist assms(1,2) card_mono [of "fst ` set (staged_list db)"] by simp
qed

text \<open>C12: Crash recovery: a staged file, whose commit may have been lost with its process, is archived by the next pass of
  maintenance, whatever else the pass does, when the database and the archive work, at most 20 files are staged and its
  retention has not passed: the archive is then given, for the task, bytes with the announced size and SHA-256.\<close>

theorem staged_recovered:
  assumes "fleet_run cfg lb init_machine m" and "fleet_validate cfg = None" and "fc_enabled cfg"
    and "staged_row (fs_db (fm_fleet m)) i a t" and "length (staged_list (fs_db (fm_fleet m))) \<le> 20"
    and "result_identity lb (ft_ref t) (fa_meta a) = Inr identity" and "path_dir (fa_path a) = fc_spool_dir cfg"
    and "fa_size a \<le> fc_max_pdf cfg" and "n \<le> ft_updated t + interval (fc_retention cfg)"
    and "mt_expire mt = smooth n gens" and "mt_select mt"
    and "\<And>k. \<exists>env' io. mt_commit mt k = (smooth n gens, env', io) \<and> ci_archive io = Some True \<and> ci_read io"
  shows "\<exists>out body. (ft_ref t, out, body) \<in> set (fs_archive (snd (maintain cfg lb mt (fm_fleet m)))) \<and> fo_task out = fa_task a \<and>
    genuine lb body (fa_sha a) (fa_size a)"
proof -
  let ?db = "fs_db (fm_fleet m)"
  have ok: "fleet_ok cfg ?db" by (rule fleet_machine_invD(1) [OF run_machine [OF assms(1,2)]])
  let ?due = "take 100 (sort_key (\<lambda>(i, t). ft_created t) (filter (\<lambda>(i, t). expire_due cfg n ?db t) (fd_tasks ?db)))"
  have some: "\<exists>d. expire_tasks cfg lb (smooth n gens) k now its d0 = Some d" for k now its d0
    by (induction its arbitrary: k d0) (auto simp: expire_task_def Let_def split: prod.splits)
  then obtain db1 where tx: "expire_tx cfg lb (smooth n gens) ?db = Inr ((), Some db1)"
    by (simp add: expire_tx_def Let_def) (metis option.case(2))
  let ?m1 = "m\<lparr>fm_fleet := fm_fleet m\<lparr>fs_db := db1\<rparr>\<rparr>"
  have step: "fleet_step cfg lb m ?m1"
    using fleet_step.Table [OF table_step.Expire, of cfg lb m "smooth n gens"] tx by (simp add: transact_def)
  note run1 = run_step [OF assms(1) step]
  have quiet: "fleet_ok cfg db1" "db_quiet ?db db1"
    using expire_quiet [OF ok, of lb "smooth n gens"] tx by (simp_all add: quiet_tx_def)
  have row: "staged_row db1 i a t" by (rule expire_keeps_staged [OF ok tx assms(4,9)])
  have "length (staged_list db1) \<le> 20"
    using staged_list_quiet [OF fleet_invD(5) [OF fleet_okD(1) [OF ok]] fleet_invD(5) [OF fleet_okD(1) [OF quiet(1)]] quiet(2)]
      assms(5) by simp
  then have mem: "i \<in> set (staged_ids db1)" by (rule staged_ids_complete [OF row])
  have rec: "recovered lb a t (snd (commit_all cfg lb mt 0 (staged_ids db1) (fm_fleet ?m1)))"
    by (rule commit_all_recovers [OF run1 assms(2) _ mem assms(12,6-8)]) (use row in simp)
  obtain e1 s2 where 2: "commit_all cfg lb mt 0 (staged_ids db1) (fm_fleet ?m1) = (e1, s2)" by fastforce
  from commit_all_run [of cfg lb ?m1 mt 0 "staged_ids db1"] 2 obtain m2 where m2: "fleet_run cfg lb ?m1 m2" "fm_fleet m2 = s2"
    by auto
  from maintain_tail_run [OF run_trans [OF run1 m2(1)] assms(2), of mt e1] obtain m3 where
    m3: "fleet_run cfg lb m2 m3" "fm_fleet m3 = snd (maintain_tail cfg lb mt e1 s2)" using m2(2) by auto
  have "recovered lb a t (fm_fleet m3)" using recovered_run [OF _ m3(1)] rec 2 m2(2) by simp
  moreover have "snd (maintain cfg lb mt (fm_fleet m)) = fm_fleet m3"
    using 2 tx by (simp add: maintain_def assms(3,10,11) put_db_def m3(2))
  ultimately show ?thesis by (simp add: recovered_def)
qed

text \<open>A pass over the staged result of the demonstration run, whose commit was lost.\<close>

definition demo_pass :: maintain_env where
  "demo_pass = \<lparr>mt_expire = smooth 7 demo_gens, mt_select = True, mt_commit = (\<lambda>_. (smooth 7 demo_gens, smooth 7 demo_gens, demo_cio)),
     mt_note = (\<lambda>_. (smooth 7 demo_gens, smooth 7 demo_gens)), mt_text = (\<lambda>_. []), mt_hook = False,
     mt_hooks = (\<lambda>_. (smooth 7 demo_gens, None)), mt_ended = True, mt_order = (\<lambda>_. 0), mt_clean = (\<lambda>_. (smooth 7 demo_gens, True)),
     mt_enrollments = smooth 7 demo_gens, mt_tasks = smooth 7 demo_gens, mt_nodes = smooth 7 demo_gens, mt_entries = None,
     mt_now = 7, mt_removed = (\<lambda>_. True)\<rparr>"

lemma demo_staged_list: "length (staged_list (fs_db (fm_fleet demo_staged))) \<le> 20"
proof -
  have "length (fd_attempts (fs_db (fm_fleet demo_staged))) = 1"
    by (simp add: demo_staged_def staged_db_def demo_ticket_def upload_ticket_def demo_upload_def demo_claimed_def)
  moreover have "length (staged_list db) \<le> length (fd_attempts db)" for db
    by (simp add: staged_list_def)
  ultimately show ?thesis by (metis le_trans one_le_numeral)
qed

theorem staged_recovered_witness:
  "\<exists>out body. (demo_ref, out, body) \<in> set (fs_archive (snd (maintain demo_cfg demo_libs demo_pass (fm_fleet demo_staged)))) \<and>
    fo_task out = ''task'' \<and> int (length body) = 10250"
proof -
  have row: "staged_row (fs_db (fm_fleet demo_staged)) demo_attempt demo_sent demo_waiting"
    by (simp add: staged_row_def demo_staged_rows demo_sent_simps demo_waiting_simps)
  have "\<exists>out body. (ft_ref demo_waiting, out, body) \<in> set (fs_archive (snd (maintain demo_cfg demo_libs demo_pass (fm_fleet demo_staged)))) \<and>
      fo_task out = fa_task demo_sent \<and> genuine demo_libs body (fa_sha demo_sent) (fa_size demo_sent)"
  proof (rule staged_recovered [OF demo_staged_run demo_valid _ row demo_staged_list])
    show "result_identity demo_libs (ft_ref demo_waiting) (fa_meta demo_sent) = Inr (''10.1000/x'', [], 0)"
      by (simp add: demo_waiting_simps demo_sent_simps demo_identity)
    show "path_dir (fa_path demo_sent) = fc_spool_dir demo_cfg" by (simp add: demo_sent_simps demo_dir)
    show "7 \<le> ft_updated demo_waiting + interval (fc_retention demo_cfg)"
      by (simp add: demo_waiting_def demo_cfg_def interval_def go_div_def)
  qed (simp_all add: demo_sent_simps demo_cfg_def demo_pass_def demo_cio_def)
  then show ?thesis by (simp add: demo_waiting_simps demo_sent_simps genuine_def) blast
qed

section \<open>FetchPDF\<close>

text \<open>\<open>failureTrace\<close>, or None when the query fails.\<close>

definition failure_entry :: "fleet_libs \<Rightarrow> fleet_attempt \<Rightarrow> trace list" where
  "failure_entry lb a =
     (let w = ''worker:'' @ fa_worker a;
          message = (if fa_failure a \<noteq> [] then fa_failure a @ '': '' @ fa_error a else fa_error a)
      in \<lparr>tr_strategy = w, tr_url = [], tr_error = truncate_text lb message 2048, tr_millis = 0\<rparr> #
         map (\<lambda>t. \<lparr>tr_strategy = w @ '':'' @ truncate_text lb (tr_strategy t) 128,
                   tr_url = truncate_text lb (tr_url t) 2048, tr_error = truncate_text lb (tr_error t) 2048,
                   tr_millis = tr_millis t\<rparr>) (take 64 (fa_trace a)))"

definition failure_trace :: "fleet_libs \<Rightarrow> bool \<Rightarrow> string \<Rightarrow> fleet_db \<Rightarrow> trace list option" where
  "failure_trace lb call_ok task db =
     (if \<not> call_ok then None
      else Some (concat (map (failure_entry lb \<circ> snd) (take 32
             (sort_key (\<lambda>(i, a). fa_created a) (sort_key fst (filter (\<lambda>(i, a). fa_task a = task) (fd_attempts db))))))))"

text \<open>The wait of \<open>FetchPDF\<close>: what each look at the task meets; None when it goes on for ever.\<close>

record fetch_look =
  lk_env :: fleet_env
  lk_cancelled :: bool
  lk_db :: fleet_db

partial_function (option) fetch_loop :: "(nat \<Rightarrow> fetch_look) \<Rightarrow> string \<Rightarrow> instant \<Rightarrow> nat \<Rightarrow> (nat \<times> fetch_result) option" where
  "fetch_loop looks i deadline n =
     (case fetch_poll (lk_env (looks n)) i deadline (lk_cancelled (looks n)) (lk_db (looks n)) of
        Some r \<Rightarrow> Some (n, r)
      | None \<Rightarrow> fetch_loop looks i deadline (Suc n))"

datatype fetch_answer =
    Fetch_Refused fleet_error
  | Fetch_Waiting "string option"
  | Fetched fetch_outcome
  | Fetch_Gave_Up string "trace list option"

definition fetch_answer_of :: "fleet_libs \<Rightarrow> (nat \<Rightarrow> fetch_look) \<Rightarrow> string \<Rightarrow> nat \<times> fetch_result \<Rightarrow> fetch_answer" where
  "fetch_answer_of lb looks i r =
     (case snd r of
        Fetch_Done out \<Rightarrow> Fetched out
      | Fetch_Failed msg \<Rightarrow>
          Fetch_Gave_Up msg (failure_trace lb (fe_call (lk_env (looks (fst r))) 1) i (lk_db (looks (fst r))))
      | Fetch_Pending \<Rightarrow> Fetch_Waiting (Some i))"

text \<open>The whole of it, with the length of the encoded reference. A failure of the admission is pending too,
  for a task that may or may not exist.\<close>

definition service_fetch_pdf :: "fleet_config \<Rightarrow> fleet_libs \<Rightarrow> fleet_env \<Rightarrow> string \<Rightarrow> paper_ref \<Rightarrow> nat \<Rightarrow> (nat \<Rightarrow> fetch_look) \<Rightarrow> fleet
    \<Rightarrow> fetch_answer option \<times> fleet" where
  "service_fetch_pdf cfg lb env rq ref raw_len looks s =
     (if \<not> fc_enabled cfg then (Some (Fetch_Refused Fleet_Disabled), s)
      else
        case fleet_identity lb ref of
          Inl e \<Rightarrow> (Some (Fetch_Refused e), s)
        | Inr key \<Rightarrow>
            if 32768 < raw_len then (Some (Fetch_Refused (Fleet_Refused ''paper reference too large'')), s)
            else
              case put_db s (transact env (fs_db s) (enqueue_tx cfg env rq key ref (fs_db s))) of
                (Inl _, s') \<Rightarrow> (Some (Fetch_Waiting None), s')
              | (Inr (i, deadline), s') \<Rightarrow>
                  (map_option (fetch_answer_of lb looks i) (fetch_loop looks i deadline 0), s'))"

lemma fetch_loop_reaches:
  assumes "k \<le> n" and "fetch_poll (lk_env (looks n)) i deadline (lk_cancelled (looks n)) (lk_db (looks n)) \<noteq> None"
  shows "\<exists>j r. k \<le> j \<and> fetch_loop looks i deadline k = Some (j, r) \<and>
    fetch_poll (lk_env (looks j)) i deadline (lk_cancelled (looks j)) (lk_db (looks j)) = Some r \<and>
    (\<forall>l. k \<le> l \<longrightarrow> l < j \<longrightarrow> fetch_poll (lk_env (looks l)) i deadline (lk_cancelled (looks l)) (lk_db (looks l)) = None)"
  using assms
proof (induction "n - k" arbitrary: k)
  case 0
  then have "k = n" by simp
  with 0(3) show ?case by (auto simp: fetch_loop.simps [of looks i deadline n])
next
  case (Suc d)
  show ?case
  proof (cases "fetch_poll (lk_env (looks k)) i deadline (lk_cancelled (looks k)) (lk_db (looks k))")
    case None
    with Suc.hyps Suc.prems(2) have "Suc k \<le> n" "d = n - Suc k" by auto
    from Suc.hyps(1) [OF this(2,1) Suc.prems(2)] obtain j r where j: "Suc k \<le> j"
      "fetch_loop looks i deadline (Suc k) = Some (j, r)"
      "fetch_poll (lk_env (looks j)) i deadline (lk_cancelled (looks j)) (lk_db (looks j)) = Some r"
      "\<forall>l. Suc k \<le> l \<longrightarrow> l < j \<longrightarrow> fetch_poll (lk_env (looks l)) i deadline (lk_cancelled (looks l)) (lk_db (looks l)) = None"
      by blast
    moreover have "fetch_poll (lk_env (looks l)) i deadline (lk_cancelled (looks l)) (lk_db (looks l)) = None"
      if "k \<le> l" "l < j" for l using that j(4) None by (cases "l = k") auto
    moreover have "fetch_loop looks i deadline k = Some (j, r)" using j(2) None by (simp add: fetch_loop.simps [of looks i deadline k])
    ultimately show ?thesis by (intro exI [of _ j] exI [of _ r]) simp
  next
    case (Some r)
    with Suc.prems(1) show ?thesis by (auto simp: fetch_loop.simps [of looks i deadline k])
  qed
qed

lemma failure_trace_length: "failure_trace lb ok task db = Some tr \<Longrightarrow> length tr \<le> 32 * 65"
proof -
  have "length (concat (map (failure_entry lb \<circ> snd) xs)) \<le> length xs * 65" for xs :: "(string \<times> fleet_attempt) list"
    by (induction xs) (auto simp: failure_entry_def Let_def)
  from order_trans [OF this, of "take 32 ys" "32 * 65" for ys] show "failure_trace lb ok task db = Some tr \<Longrightarrow> length tr \<le> 32 * 65"
    by (auto simp: failure_trace_def split: if_splits)
qed

text \<open>What a look says of a task: that its caller goes on waiting, or the answer.\<close>

definition goes_on_waiting :: "string \<Rightarrow> instant \<Rightarrow> fetch_look \<Rightarrow> bool" where
  "goes_on_waiting i deadline look \<longleftrightarrow>
     fe_call (lk_env look) 0 \<and> \<not> lk_cancelled look \<and> fe_go (lk_env look) < deadline \<and>
     (\<exists>t. map_of (fd_tasks (lk_db look)) i = Some t \<and> ft_state t \<notin> {T_done, T_failed})"

definition answer_fits :: "fleet_libs \<Rightarrow> string \<Rightarrow> instant \<Rightarrow> fetch_look \<Rightarrow> fetch_answer \<Rightarrow> bool" where
  "answer_fits lb i deadline look answer \<longleftrightarrow>
     (case answer of
        Fetched out \<Rightarrow>
          (\<exists>t o'. map_of (fd_tasks (lk_db look)) i = Some t \<and> ft_state t = T_done \<and> ft_outcome t = Some o' \<and>
             out = o'\<lparr>fo_task := i, fo_archived := True\<rparr>)
      | Fetch_Gave_Up msg tr \<Rightarrow>
          (\<exists>t. map_of (fd_tasks (lk_db look)) i = Some t \<and> ft_state t = T_failed \<and> ft_error t = msg) \<and>
          tr = failure_trace lb (fe_call (lk_env look) 1) i (lk_db look) \<and> (\<forall>xs. tr = Some xs \<longrightarrow> length xs \<le> 32 * 65)
      | Fetch_Waiting task \<Rightarrow>
          task = Some i \<and>
          (\<not> fe_call (lk_env look) 0 \<or>
           (case map_of (fd_tasks (lk_db look)) i of
              None \<Rightarrow> True
            | Some t \<Rightarrow> ft_state t = T_done \<and> ft_outcome t = None \<or>
                ft_state t \<notin> {T_done, T_failed} \<and> (deadline \<le> fe_go (lk_env look) \<or> lk_cancelled look)))
      | Fetch_Refused e \<Rightarrow> False)"

lemma poll_waits:
  "fetch_poll (lk_env look) i deadline (lk_cancelled look) (lk_db look) = None \<longleftrightarrow> goes_on_waiting i deadline look"
  by (auto simp: fetch_poll_def goes_on_waiting_def split: option.splits)

lemma poll_answers:
  "fetch_poll (lk_env (looks n)) i deadline (lk_cancelled (looks n)) (lk_db (looks n)) = Some r \<Longrightarrow>
    answer_fits lb i deadline (looks n) (fetch_answer_of lb looks i (n, r))"
  using failure_trace_length
  by (auto simp: fetch_poll_def fetch_answer_of_def answer_fits_def split: option.splits if_splits)

text \<open>C25: \<open>FetchPDF\<close> returns. It refuses a request only when the fleet is disabled or the reference is invalid or too
  large, before it changes anything, and is pending without a task only when the admission failed. Otherwise it answers
  for the task of its own admission, at the first look at which the caller need not wait on: before it every look found
  the task neither done nor failed, its deadline ahead and the caller there. At it a result is the stored outcome of
  this task, which is done; a failure is its stored error, with its trace of bounded length; and it is pending when the
  deadline has passed, the caller has given up, or the tables give no answer.\<close>

theorem fetch_pdf_returns:
  assumes "\<And>deadline. \<exists>n. lk_cancelled (looks n) \<or> deadline \<le> fe_go (lk_env (looks n))"
  shows "(\<exists>e. service_fetch_pdf cfg lb env rq ref raw_len looks s = (Some (Fetch_Refused e), s) \<and>
      (\<not> fc_enabled cfg \<or> fleet_identity lb ref = Inl e \<or> 32768 < raw_len)) \<or>
    (\<exists>key e s'. fc_enabled cfg \<and> fleet_identity lb ref = Inr key \<and> raw_len \<le> 32768 \<and>
      put_db s (transact env (fs_db s) (enqueue_tx cfg env rq key ref (fs_db s))) = (Inl e, s') \<and>
      service_fetch_pdf cfg lb env rq ref raw_len looks s = (Some (Fetch_Waiting None), s')) \<or>
    (\<exists>key i deadline s' n answer. fc_enabled cfg \<and> fleet_identity lb ref = Inr key \<and> raw_len \<le> 32768 \<and>
      put_db s (transact env (fs_db s) (enqueue_tx cfg env rq key ref (fs_db s))) = (Inr (i, deadline), s') \<and>
      service_fetch_pdf cfg lb env rq ref raw_len looks s = (Some answer, s') \<and>
      (\<forall>k<n. goes_on_waiting i deadline (looks k)) \<and> answer_fits lb i deadline (looks n) answer)"
proof (cases "\<not> fc_enabled cfg \<or> (\<exists>e. fleet_identity lb ref = Inl e) \<or> 32768 < raw_len")
  case True
  then show ?thesis by (auto simp: service_fetch_pdf_def split: sum.splits)
next
  case False
  then obtain key where key: "fc_enabled cfg" "fleet_identity lb ref = Inr key" "raw_len \<le> 32768"
    by (cases "fleet_identity lb ref") auto
  obtain adm s' where adm: "put_db s (transact env (fs_db s) (enqueue_tx cfg env rq key ref (fs_db s))) = (adm, s')"
    by (cases "put_db s (transact env (fs_db s) (enqueue_tx cfg env rq key ref (fs_db s)))")
  show ?thesis
  proof (cases adm)
    case (Inl e)
    with key adm show ?thesis by (simp add: service_fetch_pdf_def)
  next
    case (Inr task)
    obtain i deadline where task: "task = (i, deadline)" by (cases task)
    from assms obtain n where "lk_cancelled (looks n) \<or> deadline \<le> fe_go (lk_env (looks n))" by blast
    then have "\<not> goes_on_waiting i deadline (looks n)" by (auto simp: goes_on_waiting_def)
    with fetch_loop_reaches [of 0 n looks i deadline] obtain j r where r: "fetch_loop looks i deadline 0 = Some (j, r)"
      "fetch_poll (lk_env (looks j)) i deadline (lk_cancelled (looks j)) (lk_db (looks j)) = Some r"
      "\<forall>l<j. goes_on_waiting i deadline (looks l)"
      unfolding poll_waits by auto
    have "service_fetch_pdf cfg lb env rq ref raw_len looks s = (Some (fetch_answer_of lb looks i (j, r)), s')"
      using key adm Inr task r(1) by (simp add: service_fetch_pdf_def)
    with key adm Inr task r(3) poll_answers [of looks j i deadline r lb, OF r(2)] show ?thesis by blast
  qed
qed

text \<open>A caller that waits for a paper nobody fetches.\<close>

lemma demo_fleet_identity: "fleet_identity demo_libs demo_ref = Inr ''doi:10.1000/x''"
  by code_simp

theorem fetch_pdf_returns_witness:
  "fst (service_fetch_pdf demo_cfg demo_libs (smooth 5 (\<lambda>_. ''task'')) [] demo_ref 100
       (\<lambda>n. \<lparr>lk_env = smooth n demo_gens, lk_cancelled = False, lk_db = demo_queued\<rparr>)
       \<lparr>fs_db = demo_db N_approved 2, fs_files = (\<lambda>_. None), fs_archive = [], fs_hooks = []\<rparr>) = Some (Fetch_Waiting (Some ''task''))"
proof -
  let ?looks = "\<lambda>n. \<lparr>lk_env = smooth n demo_gens, lk_cancelled = False, lk_db = demo_queued\<rparr>"
  let ?s = "\<lparr>fs_db = demo_db N_approved 2, fs_files = (\<lambda>_. None), fs_archive = [], fs_hooks = []\<rparr>"
  have task: "map_of (fd_tasks demo_queued) i = Some t \<Longrightarrow> i = ''task'' \<and> ft_state t = T_queued" for i t
    by (auto simp: demo_queued_def demo_task_def new_task_def split: if_splits)
  have adm: "\<exists>s'. put_db ?s (transact (smooth 5 (\<lambda>_. ''task'')) (fs_db ?s)
      (enqueue_tx demo_cfg (smooth 5 (\<lambda>_. ''task'')) [] ''doi:10.1000/x'' demo_ref (fs_db ?s))) = (Inr (''task'', 900005), s')"
    by (simp add: Let_def enqueue_tx_def demo_db_def active_identity_def admit_def demo_cfg_def interval_def put_db_def transact_def)
  have fits: "answer_fits demo_libs i d (?looks n) answer \<Longrightarrow> answer = Fetch_Waiting (Some i)" for i d n answer
    using task by (auto simp: answer_fits_def split: fetch_answer.splits)
  have "\<exists>n. lk_cancelled (?looks n) \<or> deadline \<le> fe_go (lk_env (?looks n))" for deadline by auto
  from fetch_pdf_returns [of ?looks, OF this, of demo_cfg demo_libs "smooth 5 (\<lambda>_. ''task'')" "[]" demo_ref 100 ?s] adm
  show ?thesis by (auto simp: demo_fleet_identity demo_cfg_def dest!: fits)
qed

section \<open>Snapshots\<close>

record fleet_job =
  jb_id :: string
  jb_worker :: string
  jb_state :: task_state
  jb_identity :: string
  jb_error :: string
  jb_updated :: instant

record fleet_snapshot =
  sn_workers :: "worker_node list"
  sn_jobs :: "fleet_job list"

text \<open>The newest rows, by a time, at most 500.\<close>

definition newest :: "('r \<Rightarrow> instant) \<Rightarrow> (string \<times> 'r) list \<Rightarrow> (string \<times> 'r) list" where
  "newest f rows = take 500 (sort_key (\<lambda>(i, r). - int (f r)) rows)"

definition job_of :: "fleet_db \<Rightarrow> string \<times> fleet_task \<Rightarrow> fleet_job" where
  "job_of db it =
     (case it of (i, t) \<Rightarrow>
        \<lparr>jb_id = i,
         jb_worker = (case Option.bind (ft_current t) (map_of (fd_attempts db)) of None \<Rightarrow> [] | Some a \<Rightarrow> fa_worker a),
         jb_state = ft_state t, jb_identity = ft_identity t, jb_error = ft_error t, jb_updated = ft_updated t\<rparr>)"

text \<open>The two queries may see different states.\<close>

definition snapshot :: "fleet_config \<Rightarrow> fleet_env \<Rightarrow> fleet_db \<Rightarrow> fleet_db \<Rightarrow> fleet_error option \<times> fleet_snapshot" where
  "snapshot cfg env db db' =
     (if \<not> fc_enabled cfg then (Some Fleet_Disabled, \<lparr>sn_workers = [], sn_jobs = []\<rparr>)
      else if \<not> fe_call env 0 then (Some db_failed, \<lparr>sn_workers = [], sn_jobs = []\<rparr>)
      else
        let workers = map (\<lambda>(i, n). scan_node db i n) (newest fn_created (fd_nodes db)) in
        if \<not> fe_call env 1 then (Some db_failed, \<lparr>sn_workers = workers, sn_jobs = []\<rparr>)
        else (None, \<lparr>sn_workers = workers, sn_jobs = map (job_of db') (newest ft_updated (fd_tasks db'))\<rparr>))"

end
