(* ===== verification/Fleet_Routes.thy ===== *)
theory Fleet_Routes
  imports Fleet_Service
begin

text \<open>
  The HTTP surface of the coordinator (\<open>internal/downloadfleet/http.go\<close>): the dispatch of the worker routes,
  their guards, and the status of each error. What decoding a body or a header yields is part of the call. The
  operations of the workers are shown to be guarded, to leave the work of other workers alone, and to be runs of
  the machine.
\<close>

section \<open>Routes\<close>

definition base_path :: string where "base_path = ''/api/downloader/workers/v2''"
definition register_path :: string where "register_path = base_path @ ''/register''"
definition status_path :: string where "status_path = base_path @ ''/status''"
definition heartbeat_path :: string where "heartbeat_path = base_path @ ''/heartbeat''"
definition claim_path :: string where "claim_path = base_path @ ''/claim''"
definition report_path :: string where "report_path = base_path @ ''/report''"
definition upload_path :: string where "upload_path = base_path @ ''/upload/''"
definition receipt_path :: string where "receipt_path = base_path @ ''/receipts/''"

text \<open>A request: its line, the body as each handler decodes it (None for a bad one), and its headers; the announced
  length is negative when there is none.\<close>

record worker_call =
  wc_path :: string
  wc_method :: string
  wc_auth :: string
  wc_register :: "register_request option"
  wc_heartbeat :: "heartbeat_request option"
  wc_claim :: "int option"
  wc_report :: "report_request option"
  wc_length :: int
  wc_size :: string
  wc_sha :: string
  wc_source :: string
  wc_strategy :: string
  wc_meta :: string

datatype worker_body =
    Body_text string
  | Body_error string
  | Body_node worker_node
  | Body_lease node_status "(string \<times> instant) list"
  | Body_claim "assignment list"
  | Body_receipt receipt

text \<open>\<open>httpError\<close>; whether an error comes from the deadline of the request is a parameter.\<close>

fun http_error :: "(fleet_error \<Rightarrow> bool) \<Rightarrow> fleet_error \<Rightarrow> nat \<times> worker_body" where
  "http_error late Fleet_Disabled = (503, Body_error ''download fleet disabled'')"
| "http_error late Worker_Unauthorized = (401, Body_error ''invalid worker credential'')"
| "http_error late Worker_Forbidden = (403, Body_error ''worker is not approved'')"
| "http_error late Fleet_Not_Found = (404, Body_error ''not found'')"
| "http_error late Attempt_Conflict = (409, Body_error ''attempt is no longer current or lease expired'')"
| "http_error late (Fleet_Refused msg) =
     (if late (Fleet_Refused msg) then (408, Body_error ''request deadline exceeded'')
      else (503, Body_error ''worker service temporarily unavailable''))"

definition bad_request :: "nat \<times> worker_body" where
  "bad_request = (400, Body_error ''invalid request'')"

definition answer :: "(fleet_error \<Rightarrow> bool) \<Rightarrow> ('r \<Rightarrow> worker_body) \<Rightarrow> (fleet_error + 'r) \<times> fleet \<Rightarrow> (nat \<times> worker_body) \<times> fleet" where
  "answer late f res = (case res of (Inl e, s) \<Rightarrow> (http_error late e, s) | (Inr r, s) \<Rightarrow> ((200, f r), s))"

definition worker_method :: "string \<Rightarrow> string" where
  "worker_method path =
     (if path = status_path \<or> prefix receipt_path path then ''GET''
      else if prefix upload_path path then ''PUT'' else ''POST'')"

definition known_path :: "string \<Rightarrow> bool" where
  "known_path path \<longleftrightarrow>
     path \<in> {register_path, status_path, heartbeat_path, claim_path, report_path} \<or>
     prefix upload_path path \<or> prefix receipt_path path"

text \<open>The upload a call asks for, or None when its headers are bad; decoding the metadata is a parameter.\<close>

definition upload_call :: "fleet_config \<Rightarrow> (string \<Rightarrow> result_metadata option) \<Rightarrow> worker_call \<Rightarrow> upload_request option" where
  "upload_call cfg decode c =
     (case atoi (wc_size c) of
        None \<Rightarrow> None
      | Some n \<Rightarrow>
          if n < 1 \<or> fc_max_pdf cfg < n \<or> 0 \<le> wc_length c \<and> wc_length c \<noteq> n \<or> 16384 < length (wc_meta c) then None
          else
            case (if wc_meta c = [] then Some no_metadata else decode (wc_meta c)) of
              None \<Rightarrow> None
            | Some meta \<Rightarrow>
                if wc_meta c \<noteq> [] \<and> 64 < length (rm_trace meta) then None
                else Some \<lparr>up_attempt = trim_prefix upload_path (wc_path c), up_sha = wc_sha c, up_size = n,
                           up_source = wc_source c, up_strategy = wc_strategy c, up_meta = meta\<rparr>)"

section \<open>Handlers\<close>

definition table_call :: "fleet_env \<Rightarrow> fleet \<Rightarrow> 'r transaction \<Rightarrow> (fleet_error + 'r) \<times> fleet" where
  "table_call env s tx = put_db s (transact env (fs_db s) tx)"

definition serve_register :: "fleet_libs \<Rightarrow> (fleet_error \<Rightarrow> bool) \<Rightarrow> fleet_env \<Rightarrow> worker_call \<Rightarrow> fleet
    \<Rightarrow> (nat \<times> worker_body) \<times> fleet" where
  "serve_register lb late env c s =
     (case wc_register c of
        None \<Rightarrow> (bad_request, s)
      | Some r \<Rightarrow>
          if \<not> valid_worker_id (rr_id r) \<or> length (rr_secret r) < 32 \<or> 256 < length (rr_secret r) \<or>
             256 < length (rr_token r) \<or> 200 < length (rr_name r)
          then (bad_request, s)
          else answer late Body_node (table_call env s (register_tx lb env r (fs_db s))))"

text \<open>What a call meets: the environments of its transactions and the I/O of an upload.\<close>

record call_env =
  ce_auth :: fleet_env
  ce_envs :: "nat \<Rightarrow> fleet_env"
  ce_rm_ok :: bool
  ce_transfer :: transfer_io
  ce_commit :: commit_io
  ce_late :: "fleet_error \<Rightarrow> bool"

definition serve_admitted :: "fleet_config \<Rightarrow> fleet_libs \<Rightarrow> (string \<Rightarrow> result_metadata option) \<Rightarrow> call_env \<Rightarrow> string
    \<Rightarrow> worker_call \<Rightarrow> fleet \<Rightarrow> (nat \<times> worker_body) \<times> fleet" where
  "serve_admitted cfg lb decode ce w c s =
     (let path = wc_path c; env = ce_envs ce 0; late = ce_late ce; db = fs_db s in
      if path = heartbeat_path
      then case wc_heartbeat c of
             None \<Rightarrow> (bad_request, s)
           | Some r \<Rightarrow>
               if hb_capacity r < 0 \<or> hb_disk r < 0 \<or> hb_spool r < 0 \<or> 128 < length (hb_running r) then (bad_request, s)
               else answer late (\<lambda>(st, leases). Body_lease st leases) (table_call env s (heartbeat_tx cfg lb env w r db))
      else if path = claim_path
      then case wc_claim c of
             None \<Rightarrow> (bad_request, s)
           | Some wanted \<Rightarrow> answer late Body_claim (table_call env s (claim_tx cfg env w wanted db))
      else if path = report_path
      then case wc_report c of
             None \<Rightarrow> (bad_request, s)
           | Some r \<Rightarrow>
               if \<not> valid_failure (rq_failure r) \<or> 64 < length (rq_trace r) then (bad_request, s)
               else answer late Body_receipt (table_call env s (report_tx cfg lb env w r db))
      else if prefix receipt_path path
      then let i = trim_prefix receipt_path path in
           if \<not> valid_worker_id i then (http_error late Fleet_Not_Found, s)
           else answer late Body_receipt (read_receipt env w i db, s)
      else case upload_call cfg decode c of
             None \<Rightarrow> (bad_request, s)
           | Some u \<Rightarrow> answer late Body_receipt
               (upload cfg lb (ce_envs ce) (ce_rm_ok ce) (ce_transfer ce) (ce_commit ce) w u s))"

text \<open>The whole handler. The credential is looked up in the tables as they are then; the operation may find them
  changed.\<close>

definition serve_worker :: "fleet_config \<Rightarrow> fleet_libs \<Rightarrow> (string \<Rightarrow> result_metadata option) \<Rightarrow> call_env \<Rightarrow> fleet_db
    \<Rightarrow> worker_call \<Rightarrow> fleet \<Rightarrow> (nat \<times> worker_body) \<times> fleet" where
  "serve_worker cfg lb decode ce seen c s =
     (let path = wc_path c; late = ce_late ce in
      if \<not> fc_enabled cfg then (http_error late Fleet_Disabled, s)
      else if \<not> known_path path then ((404, Body_text ''404 page not found''), s)
      else if wc_method c \<noteq> worker_method path then ((405, Body_error ''method not allowed''), s)
      else if path = register_path then serve_register lb late (ce_envs ce 0) c s
      else if \<not> prefix ''Bearer '' (wc_auth c) then (http_error late Worker_Unauthorized, s)
      else
        case authenticate lb (ce_auth ce) (trim_prefix ''Bearer '' (wc_auth c)) seen of
          Inl e \<Rightarrow> (http_error late e, s)
        | Inr n \<Rightarrow>
            if path = status_path then ((200, Body_node n), s)
            else if \<not> worker_admitted (fn_status (wn_row n)) then (http_error late Worker_Forbidden, s)
            else serve_admitted cfg lb decode ce (wn_id n) c s)"

text \<open>The two operations of the administrators.\<close>

definition node_action_of :: "string \<Rightarrow> node_action option" where
  "node_action_of = map_of [(''approve'', Act_approve), (''enable'', Act_enable), (''reject'', Act_reject),
     (''drain'', Act_drain), (''revoke'', Act_revoke)]"

definition service_action :: "fleet_config \<Rightarrow> fleet_env \<Rightarrow> string \<Rightarrow> string \<Rightarrow> fleet \<Rightarrow> (fleet_error + unit) \<times> fleet" where
  "service_action cfg env w action s =
     (if \<not> fc_enabled cfg then (Inl Fleet_Disabled, s)
      else case node_action_of action of
             None \<Rightarrow> (Inl (Fleet_Refused ''unknown worker action''), s)
           | Some act \<Rightarrow> table_call env s (action_tx env w act (fs_db s)))"

definition service_enrollment :: "fleet_config \<Rightarrow> fleet_libs \<Rightarrow> fleet_env \<Rightarrow> fleet \<Rightarrow> (fleet_error + string \<times> instant) \<times> fleet" where
  "service_enrollment cfg lb env s =
     (if \<not> fc_enabled cfg then (Inl Fleet_Disabled, s) else table_call env s (enrollment_tx cfg lb env (fs_db s)))"

section \<open>Only the worker's own attempts\<close>

text \<open>The attempts of all other workers are as they were.\<close>

definition others_kept :: "string \<Rightarrow> fleet_db \<Rightarrow> fleet_db \<Rightarrow> bool" where
  "others_kept w db db' \<longleftrightarrow>
     (\<forall>j a. map_of (fd_attempts db) j = Some a \<longrightarrow> fa_worker a \<noteq> w \<longrightarrow> map_of (fd_attempts db') j = Some a)"

lemma others_kept_refl [simp]: "others_kept w db db"
  by (simp add: others_kept_def)

lemma others_kept_same: "fd_attempts db' = fd_attempts db \<Longrightarrow> others_kept w db db'"
  by (simp add: others_kept_def)

lemma others_kept_trans: "others_kept w db1 db2 \<Longrightarrow> others_kept w db2 db3 \<Longrightarrow> others_kept w db1 db3"
  unfolding others_kept_def by blast

lemma others_kept_put:
  "(\<And>a. map_of (fd_attempts db) i = Some a \<Longrightarrow> fa_worker a = w) \<Longrightarrow> others_kept w db (put_attempt i b db)"
  by (auto simp: others_kept_def gomap_simps)

lemma others_kept_task [simp]: "others_kept w db (put_task i t db') \<longleftrightarrow> others_kept w db db'"
  by (simp add: others_kept_def)

lemma transact_kept:
  "(\<And>r db'. tx = Inr (r, Some db') \<Longrightarrow> others_kept w db db') \<Longrightarrow> others_kept w db (snd (transact env db tx))"
  by (rule transact_cases [of env db tx]) auto

lemma attempt_owner: "worker_attempt db w i = Some (a, t) \<Longrightarrow> map_of (fd_attempts db) i = Some a' \<Longrightarrow> fa_worker a' = w"
  by (auto simp: worker_attempt_def split: option.splits if_splits)

lemma renew_kept: "others_kept w db (renew_leases cfg w ids now db)"
  by (auto simp: others_kept_def renew_leases_def map_of_map_val holds_lease_def)

lemma heartbeat_kept: "heartbeat_tx cfg lb env w r db = Inr (x, Some db') \<Longrightarrow> others_kept w db db'"
  using renew_kept [of w "db\<lparr>fd_nodes := n\<rparr>" for n]
  by (auto simp: heartbeat_tx_def Let_def others_kept_def split: if_splits option.splits)

lemma claim_loop_kept: "claim_loop cfg env w n k out db = Inr (out', db') \<Longrightarrow> others_kept w db db'"
proof (induction n arbitrary: k out db)
  case (Suc n)
  show ?case
  proof (cases "claimable cfg env w (fe_clock env (4 + 3 * k)) db")
    case None
    with Suc.prems show ?thesis by (simp add: Let_def split: if_splits)
  next
    case (Some it)
    with Suc.prems obtain out1 db1 where db1: "claim_loop cfg env w n (Suc k) out1 db1 = Inr (out', db')"
      and new: "map_of (fd_attempts db) (fe_ids env k) = None"
        "\<exists>a. fd_attempts db1 = AList.update (fe_ids env k) a (fd_attempts db)"
      by (cases it) (fastforce simp: Let_def split: if_splits)
    from new have "others_kept w db db1" by (auto simp: others_kept_def gomap_simps)
    from others_kept_trans [OF this Suc.IH [OF db1]] show ?thesis .
  qed
qed simp

lemma claim_kept: "claim_tx cfg env w wanted db = Inr (x, Some db') \<Longrightarrow> others_kept w db db'"
  by (auto simp: claim_tx_def split: if_splits option.splits sum.splits intro: claim_loop_kept)

lemma report_kept:
  assumes "report_tx cfg lb env w r db = Inr (x, Some db')"
  shows "others_kept w db db'"
proof -
  from assms obtain a t where own: "worker_attempt db w (rq_attempt r) = Some (a, t)"
    by (auto simp: report_tx_def split: if_splits option.splits)
  with assms have "db' = db \<or> (\<exists>k t' a'. db' = put_task k t' (put_attempt (rq_attempt r) a' db))"
    by (auto simp: report_tx_def Let_def split: if_splits)
  with others_kept_put [of db "rq_attempt r" w, OF attempt_owner [OF own]] show ?thesis by auto
qed

lemma register_kept: "register_tx lb env r db = Inr (x, Some db') \<Longrightarrow> others_kept w db db'"
  by (rule others_kept_same) (auto simp: register_tx_def Let_def split: if_splits option.splits)

text \<open>The parts of an upload change one attempt.\<close>

definition only_row :: "string \<Rightarrow> fleet_db \<Rightarrow> fleet_db \<Rightarrow> bool" where
  "only_row i db db' \<longleftrightarrow> (\<forall>j. j \<noteq> i \<longrightarrow> map_of (fd_attempts db') j = map_of (fd_attempts db) j)"

lemma only_row_simps [simp]:
  "only_row i db db" "only_row i db (put_attempt i a db)" "only_row i db (put_task k t db') = only_row i db db'"
  by (simp_all add: only_row_def gomap_simps)

lemma only_row_trans: "only_row i db1 db2 \<Longrightarrow> only_row i db2 db3 \<Longrightarrow> only_row i db1 db3"
  by (simp add: only_row_def)

lemma transact_row:
  "(\<And>r db'. tx = Inr (r, Some db') \<Longrightarrow> only_row i db db') \<Longrightarrow> only_row i db (snd (transact env db tx))"
  by (rule transact_cases [of env db tx]) auto

lemma guards_Inr: "(if A then Inl e1 else if B then Inl e2 else if C then Inl e3 else if D then Inl e4 else Inr x) = Inr y \<Longrightarrow> y = x"
  by (simp split: if_splits)

lemma reserve_tx_InrD:
  assumes "reserve_tx cfg lb env u sha a t db = Inr (r, d)"
  obtains k b where "r = Upload_Reserved k" and "tk_attempt k = up_attempt u" and "d = Some (put_attempt (up_attempt u) b db)"
  using assms unfolding reserve_tx_def Let_def by (drule_tac guards_Inr) auto

lemma transact_InrD: "fst (transact env db tx) = Inr r \<Longrightarrow> \<exists>d. tx = Inr (r, d)"
  by (auto simp: transact_def split: sum.splits option.splits commit_outcome.splits)

lemma reserve_row: "only_row (up_attempt u) (fs_db s) (fs_db (snd (upload_reserve cfg lb env rm_ok w u s)))"
proof -
  obtain r s' where r: "upload_reserve cfg lb env rm_ok w u s = (r, s')" by fastforce
  then have "only_row (up_attempt u) (fs_db s) (fs_db s')"
  proof (rule upload_reserve_cases)
    fix a t s1 assume "put_db s1 (transact env (fs_db s)
        (reserve_tx cfg lb env u (to_lower (lb_lower lb) (up_sha u)) a t (fs_db s))) = (r, s')"
    then have "fs_db s' = snd (transact env (fs_db s)
        (reserve_tx cfg lb env u (to_lower (lb_lower lb) (up_sha u)) a t (fs_db s)))" by (metis put_db_frame(3) snd_conv)
    then show ?thesis by (auto intro!: transact_row elim: reserve_tx_InrD)
  qed simp
  with r show ?thesis by simp
qed

lemma stream_row: "only_row (tk_attempt k) (fs_db s) (fs_db (snd (stream_stage lb env io k s)))"
proof -
  obtain r s' where r: "stream_stage lb env io k s = (r, s')" by fastforce
  then have "only_row (tk_attempt k) (fs_db s) (fs_db s')"
  proof (rule stream_stage_cases)
    fix a t t' body mt assume "put_db (s\<lparr>fs_files := (fs_files s)(tk_path k \<mapsto> (body, mt))\<rparr>)
        (transact env (fs_db s) (Inr ((), Some (staged_db env k a t (fs_db s))))) = (r, s')"
    then have "fs_db s' = snd (transact env (fs_db s) (Inr ((), Some (staged_db env k a t (fs_db s)))))"
      by (metis put_db_frame(3) snd_conv)
    then show ?thesis by (auto intro!: transact_row simp: staged_db_def)
  qed (auto simp: remove_file_def)
  with r show ?thesis by simp
qed

lemma reset_row: "only_row (tk_attempt k) (fs_db s) (fs_db (snd (reset_transfer env rm_ok k s)))"
  by (rule reset_transfer_cases [of env rm_ok k s]) auto

lemma commit_row: "only_row i (fs_db s) (fs_db (snd (commit_staged cfg lb env env' io i s)))"
proof -
  obtain c s1 where c: "commit_archive cfg lb env io i s = (c, s1)" by fastforce
  have "only_row i (fs_db s) (fs_db s1)"
    using c
  proof (rule commit_archive_cases)
    fix a t body identity
    assume "archive_tx lb env io i a t (outcome_of lb (fs_db s) (fa_task a) a identity) body s = (c, s1)"
    then show ?thesis
      by (auto simp: archive_tx_def Let_def put_db_def done_db_def split: if_splits intro!: transact_row)
  qed simp
  moreover have "only_row i db (released i db)" for db
    by (simp add: released_def split: option.splits)
  then have "only_row i (fs_db s1) (fs_db (snd (clean_file cfg env' rm_ok i path s1)))" for rm_ok path
    by (auto simp: clean_file_def remove_file_def intro!: transact_row)
  ultimately show ?thesis using only_row_trans by (auto simp: commit_staged_def c split: sum.splits option.splits)
qed

lemma upload_row: "only_row (up_attempt u) (fs_db s) (fs_db (snd (upload cfg lb envs rm_ok io cio w u s)))"
proof -
  obtain r s1 where r: "upload_reserve cfg lb (envs 0) rm_ok w u s = (r, s1)" by fastforce
  have 1: "only_row (up_attempt u) (fs_db s) (fs_db s1)" using reserve_row [of u s cfg lb "envs 0" rm_ok w] r by simp
  show ?thesis
  proof (cases "\<exists>k. r = Inr (Upload_Reserved k)")
    case False
    then have "(\<exists>e. r = Inl e) \<or> (\<exists>rc. r = Inr (Upload_Known rc))" by (cases r) (auto, metis upload_start.exhaust)
    with 1 r show ?thesis by (auto simp: upload_def)
  next
    case True
    then obtain k where k: "r = Inr (Upload_Reserved k)" by blast
    from r have i: "tk_attempt k = up_attempt u"
    proof (rule upload_reserve_cases)
      fix a t s' assume "put_db s' (transact (envs 0) (fs_db s)
          (reserve_tx cfg lb (envs 0) u (to_lower (lb_lower lb) (up_sha u)) a t (fs_db s))) = (r, s1)"
      then have "fst (transact (envs 0) (fs_db s)
          (reserve_tx cfg lb (envs 0) u (to_lower (lb_lower lb) (up_sha u)) a t (fs_db s))) = Inr (Upload_Reserved k)"
        by (simp add: put_db_def k)
      from transact_InrD [OF this] show ?thesis by (auto elim: reserve_tx_InrD)
    qed (simp add: k)
    obtain q s2 where q: "stream_stage lb (envs 1) io k s1 = (q, s2)" by fastforce
    have 2: "only_row (up_attempt u) (fs_db s) (fs_db s2)"
      using only_row_trans [OF 1] stream_row [of k s1 lb "envs 1" io] q i by simp
    obtain d s3 where d: "commit_staged cfg lb (envs 2) (envs 3) cio (tk_attempt k) s2 = (d, s3)" by fastforce
    have "only_row (up_attempt u) (fs_db s) (fs_db s3)"
      using only_row_trans [OF 2] commit_row [of "tk_attempt k" s2 cfg lb "envs 2" "envs 3" cio] d i by simp
    moreover have "only_row (up_attempt u) (fs_db s) (fs_db (snd (reset_transfer (envs 2) (ti_removed io) k s2)))"
      using only_row_trans [OF 2] reset_row [of k s2 "envs 2" "ti_removed io"] i by simp
    ultimately show ?thesis by (simp add: upload_def r k q [unfolded One_nat_def] d split: sum.splits)
  qed
qed

lemma upload_kept: "others_kept w (fs_db s) (fs_db (snd (upload cfg lb envs rm_ok io cio w u s)))"
proof (cases "worker_attempt (fs_db s) w (up_attempt u)")
  case None
  then have "\<exists>e. upload_reserve cfg lb (envs 0) rm_ok w u s = (Inl e, s)" by (simp add: upload_reserve_def Let_def)
  then show ?thesis by (auto simp: upload_def)
next
  case (Some at)
  then obtain a t where "worker_attempt (fs_db s) w (up_attempt u) = Some (a, t)" by (cases at) simp
  from attempt_owner [OF this] upload_row [of u s cfg lb envs rm_ok io cio w] show ?thesis
    unfolding others_kept_def only_row_def by metis
qed

section \<open>The guards\<close>

lemma answer_state [simp]: "snd (answer late f res) = snd res"
  by (simp add: answer_def split: prod.splits sum.splits)

lemma table_call_kept:
  "(\<And>r db'. tx = Inr (r, Some db') \<Longrightarrow> others_kept w (fs_db s) db') \<Longrightarrow> others_kept w (fs_db s) (fs_db (snd (table_call env s tx)))"
  by (simp add: table_call_def transact_kept)

lemma calls_kept:
  "others_kept w (fs_db s) (fs_db (snd (table_call env s (heartbeat_tx cfg lb env' w hb (fs_db s)))))"
  "others_kept w (fs_db s) (fs_db (snd (table_call env s (claim_tx cfg env' w wanted (fs_db s)))))"
  "others_kept w (fs_db s) (fs_db (snd (table_call env s (report_tx cfg lb env' w rep (fs_db s)))))"
  by (rule table_call_kept, erule heartbeat_kept claim_kept report_kept)+

lemma admitted_kept: "others_kept w (fs_db s) (fs_db (snd (serve_admitted cfg lb decode ce w c s)))"
  using upload_kept calls_kept by (simp add: serve_admitted_def Let_def split: option.splits)

lemma authenticate_InrD:
  assumes "authenticate lb env secret db = Inr n"
  shows "(wn_id n, wn_row n) \<in> set (fd_nodes db)" "fn_secret (wn_row n) = lb_digest lb secret" "32 \<le> length secret"
    "fn_status (wn_row n) \<notin> {N_rejected, N_revoked}"
proof -
  from assms obtain i r where f: "find (\<lambda>(i, n). fn_secret n = lb_digest lb secret) (fd_nodes db) = Some (i, r)"
    and n: "n = scan_node db i r" "32 \<le> length secret" "fn_status r \<notin> {N_rejected, N_revoked}"
    by (auto simp: authenticate_def split: if_splits option.splits)
  from find_row_SomeD [OF f] n show "(wn_id n, wn_row n) \<in> set (fd_nodes db)" "fn_secret (wn_row n) = lb_digest lb secret"
    "32 \<le> length secret" "fn_status (wn_row n) \<notin> {N_rejected, N_revoked}" by (auto simp: scan_node_def)
qed

lemma http_error_status: "fst (http_error late e) \<noteq> 200"
  by (cases e) auto

text \<open>C13: Worker requests are guarded: a request other than a registration that changes anything, or is answered with more
  than the caller's own status, carries the secret of an approved or draining worker. It leaves the attempts of
  all other workers as they are, whatever it asks for and whatever fails.\<close>

theorem worker_calls_guarded:
  assumes "serve_worker cfg lb decode ce seen c s = ((status, body), s')" and "wc_path c \<noteq> register_path"
    and "s' \<noteq> s \<or> status = 200 \<and> wc_path c \<noteq> status_path"
  shows "\<exists>w n secret. wc_auth c = ''Bearer '' @ secret \<and> 32 \<le> length secret \<and> (w, n) \<in> set (fd_nodes seen) \<and>
    fn_secret n = lb_digest lb secret \<and> worker_admitted (fn_status n) \<and> fc_enabled cfg \<and>
    (\<forall>j a. map_of (fd_attempts (fs_db s)) j = Some a \<longrightarrow> fa_worker a \<noteq> w \<longrightarrow> map_of (fd_attempts (fs_db s')) j = Some a)"
proof -
  from assms(1-3) have on: "fc_enabled cfg" "prefix ''Bearer '' (wc_auth c)"
    using http_error_status [of "ce_late ce" Worker_Unauthorized] http_error_status [of "ce_late ce" Fleet_Disabled]
    by (auto simp: serve_worker_def Let_def split: if_splits)
  define secret where "secret = trim_prefix ''Bearer '' (wc_auth c)"
  from on(2) have auth: "wc_auth c = ''Bearer '' @ secret" by (auto simp: secret_def trim_prefix_def prefix_def)
  have "\<exists>n. authenticate lb (ce_auth ce) secret seen = Inr n \<and> worker_admitted (fn_status (wn_row n)) \<and>
      ((status, body), s') = serve_admitted cfg lb decode ce (wn_id n) c s"
  proof (cases "authenticate lb (ce_auth ce) secret seen")
    case (Inl e)
    with assms on http_error_status [of "ce_late ce" e] show ?thesis
      by (auto simp: serve_worker_def Let_def secret_def split: if_splits)
  next
    case (Inr n)
    with assms on http_error_status [of "ce_late ce" Worker_Forbidden] show ?thesis
      by (auto simp: serve_worker_def Let_def secret_def split: if_splits)
  qed
  then obtain n where n: "authenticate lb (ce_auth ce) secret seen = Inr n" "worker_admitted (fn_status (wn_row n))"
    "((status, body), s') = serve_admitted cfg lb decode ce (wn_id n) c s" by blast
  have "others_kept (wn_id n) (fs_db s) (fs_db s')"
    using admitted_kept [of "wn_id n" s cfg lb decode ce c] n(3) by (metis snd_conv)
  with auth on(1) n(2) authenticate_InrD [OF n(1)] show ?thesis unfolding others_kept_def by blast
qed

section \<open>The service as runs of the machine\<close>

lemma table_call_run:
  assumes "table_step cfg lb (fs_db (fm_fleet m)) (snd (transact env (fs_db (fm_fleet m)) tx))"
  shows "\<exists>m'. fleet_run cfg lb m m' \<and> fm_fleet m' = snd (table_call env (fm_fleet m) tx)"
  unfolding table_call_def by (rule put_db_table [OF assms])

lemma serve_admitted_run:
  assumes "length (fe_ids (ce_envs ce 0) 0) = 48" and "fe_ids (ce_envs ce 0) 0 \<notin> fm_used m"
  shows "\<exists>m'. fleet_run cfg lb m m' \<and> fm_fleet m' = snd (serve_admitted cfg lb decode ce w c (fm_fleet m))"
proof -
  define P where "P s' \<longleftrightarrow> (\<exists>m'. fleet_run cfg lb m m' \<and> fm_fleet m' = s')" for s'
  have "P (fm_fleet m)" "P (snd (upload cfg lb (ce_envs ce) rm_ok io cio w u (fm_fleet m)))" for rm_ok io cio u
    unfolding P_def by (rule run_stay upload_run [of "ce_envs ce" m, OF assms])+
  moreover have "P (snd (table_call env (fm_fleet m) (heartbeat_tx cfg lb env w hb (fs_db (fm_fleet m)))))"
    "P (snd (table_call env (fm_fleet m) (claim_tx cfg env w wanted (fs_db (fm_fleet m)))))"
    "P (snd (table_call env (fm_fleet m) (report_tx cfg lb env w rep (fs_db (fm_fleet m)))))" for env hb wanted rep
    unfolding P_def by (rule table_call_run, rule table_step.Heartbeat table_step.Claim table_step.Report)+
  ultimately have "P (snd (serve_admitted cfg lb decode ce w c (fm_fleet m)))"
    by (simp add: serve_admitted_def Let_def split: option.splits)
  then show ?thesis by (simp add: P_def)
qed

lemma serve_worker_run:
  assumes "length (fe_ids (ce_envs ce 0) 0) = 48" and "fe_ids (ce_envs ce 0) 0 \<notin> fm_used m"
  shows "\<exists>m'. fleet_run cfg lb m m' \<and> fm_fleet m' = snd (serve_worker cfg lb decode ce seen c (fm_fleet m))"
  using run_stay [of cfg lb m] serve_admitted_run [OF assms] table_call_run [OF table_step.Register]
  by (simp add: serve_worker_def serve_register_def Let_def split: option.splits sum.splits)

lemma fetch_pdf_run: "\<exists>m'. fleet_run cfg lb m m' \<and> fm_fleet m' = snd (service_fetch_pdf cfg lb env rq ref n looks (fm_fleet m))"
proof -
  have 1: "\<exists>m'. fleet_run cfg lb m m' \<and>
      fm_fleet m' = snd (put_db (fm_fleet m) (transact env (fs_db (fm_fleet m)) (enqueue_tx cfg env rq key ref (fs_db (fm_fleet m)))))" for key
    by (rule put_db_table [OF table_step.Enqueue])
  have "snd (service_fetch_pdf cfg lb env rq ref n looks (fm_fleet m)) = fm_fleet m \<or>
      (\<exists>key. snd (service_fetch_pdf cfg lb env rq ref n looks (fm_fleet m)) =
         snd (put_db (fm_fleet m) (transact env (fs_db (fm_fleet m)) (enqueue_tx cfg env rq key ref (fs_db (fm_fleet m))))))"
    by (auto simp: service_fetch_pdf_def split: sum.splits prod.splits) (metis snd_conv)+
  with 1 run_stay [of cfg lb m] show ?thesis by metis
qed

text \<open>C28: The whole service is the machine: every worker request, every \<open>FetchPDF\<close>, every operation of the administrators and
  every pass of maintenance decomposes into its steps, whatever fails in between. What is shown of the reachable
  states therefore holds of a coordinator that serves these operations in any order.\<close>

theorem fleet_service_is_run:
  assumes "fleet_run cfg lb init_machine m" and "fleet_validate cfg = None"
    and "length (fe_ids (ce_envs ce 0) 0) = 48" and "fe_ids (ce_envs ce 0) 0 \<notin> fm_used m"
  shows "(\<exists>m'. fleet_run cfg lb m m' \<and> fm_fleet m' = snd (serve_worker cfg lb decode ce seen c (fm_fleet m))) \<and>
    (\<exists>m'. fleet_run cfg lb m m' \<and> fm_fleet m' = snd (service_fetch_pdf cfg lb env rq ref n looks (fm_fleet m))) \<and>
    (\<exists>m'. fleet_run cfg lb m m' \<and> fm_fleet m' = snd (service_action cfg env w action (fm_fleet m))) \<and>
    (\<exists>m'. fleet_run cfg lb m m' \<and> fm_fleet m' = snd (service_enrollment cfg lb env (fm_fleet m))) \<and>
    (\<exists>m'. fleet_run cfg lb m m' \<and> fm_fleet m' = snd (maintain cfg lb mt (fm_fleet m)))"
proof (intro conjI)
  show "\<exists>m'. fleet_run cfg lb m m' \<and> fm_fleet m' = snd (service_action cfg env w action (fm_fleet m))"
    using run_stay [of cfg lb m] table_call_run [OF table_step.Action]
    by (simp add: service_action_def split: option.splits)
  show "\<exists>m'. fleet_run cfg lb m m' \<and> fm_fleet m' = snd (service_enrollment cfg lb env (fm_fleet m))"
    using run_stay [of cfg lb m] table_call_run [OF table_step.Enroll] by (simp add: service_enrollment_def)
qed (rule serve_worker_run [OF assms(3,4)] fetch_pdf_run maintain_run [OF assms(1,2)])+

text \<open>The worker of the demonstration run asks for its receipt.\<close>

definition demo_env :: call_env where
  "demo_env = \<lparr>ce_auth = smooth 7 demo_gens, ce_envs = (\<lambda>_. smooth 7 (\<lambda>_. replicate 48 CHR ''c'')), ce_rm_ok = True,
     ce_transfer = demo_io, ce_commit = demo_cio, ce_late = (\<lambda>_. False)\<rparr>"

definition demo_call :: worker_call where
  "demo_call = \<lparr>wc_path = receipt_path @ demo_attempt, wc_method = ''GET'', wc_auth = ''Bearer '' @ replicate 32 CHR ''s'',
     wc_register = None, wc_heartbeat = None, wc_claim = None, wc_report = None, wc_length = 0, wc_size = [], wc_sha = [],
     wc_source = [], wc_strategy = [], wc_meta = []\<rparr>"

lemma demo_call_served: "serve_worker demo_cfg demo_libs (\<lambda>_. None) demo_env (fs_db (fm_fleet demo_staged)) demo_call (fm_fleet demo_staged) =
    ((200, Body_receipt (scan_receipt demo_attempt demo_sent)), fm_fleet demo_staged)"
proof -
  let ?path = "receipt_path @ demo_attempt"
  have path: "known_path ?path" "worker_method ?path = ''GET''" "?path \<notin> {register_path, status_path, heartbeat_path, claim_path, report_path}"
    "trim_prefix receipt_path ?path = demo_attempt"
    by (simp_all add: known_path_def worker_method_def trim_prefix_def register_path_def status_path_def heartbeat_path_def claim_path_def
        report_path_def receipt_path_def base_path_def)
  have nodes: "fd_nodes (fs_db (fm_fleet demo_staged)) = [(demo_worker, demo_node N_approved 2)]"
    by (simp add: demo_staged_def staged_db_def demo_claimed_def demo_queued_def demo_db_def)
  have auth: "authenticate demo_libs (smooth 7 demo_gens) (replicate 32 CHR ''s'') (fs_db (fm_fleet demo_staged)) =
      Inr (scan_node (fs_db (fm_fleet demo_staged)) demo_worker (demo_node N_approved 2))"
    by (simp add: authenticate_def nodes demo_libs_def demo_node_def)
  have "read_receipt (smooth 7 gens) demo_worker demo_attempt (fs_db (fm_fleet demo_staged)) = Inr (scan_receipt demo_attempt demo_sent)" for gens
    by (simp add: read_receipt_def demo_staged_rows demo_sent_simps)
  with path auth demo_ids(2) show ?thesis
    by (simp add: serve_worker_def serve_admitted_def Let_def demo_call_def demo_env_def demo_cfg_def trim_prefix_def [of "''Bearer ''"]
        scan_node_def demo_node_def worker_admitted_def answer_def)
qed

theorem worker_calls_guarded_witness:
  "\<exists>w n secret. wc_auth demo_call = ''Bearer '' @ secret \<and> (w, n) \<in> set (fd_nodes (fs_db (fm_fleet demo_staged))) \<and>
     fn_secret n = secret \<and> worker_admitted (fn_status n)"
  using worker_calls_guarded [OF demo_call_served]
  by (simp add: demo_call_def register_path_def status_path_def receipt_path_def base_path_def demo_libs_def) blast

theorem fleet_service_is_run_witness:
  "\<exists>m'. fleet_run demo_cfg demo_libs demo_staged m' \<and> fm_fleet m' = snd (maintain demo_cfg demo_libs demo_pass (fm_fleet demo_staged))"
proof -
  have "length (fe_ids (ce_envs demo_env 0) 0) = 48" "fe_ids (ce_envs demo_env 0) 0 \<notin> fm_used demo_staged"
    by (simp_all add: demo_env_def demo_staged_def demo_reserved_def demo_gen_def)
  from fleet_service_is_run [OF demo_staged_run demo_valid this] show ?thesis by blast
qed

end
