(* ===== verification/Spec2Isabelle.thy ===== *)
theory Spec2Isabelle
  imports Spool Oauth_Device Token_Admin Convert_Machine Scheduler Asset_Keys Comment_Machine Fleet_Routes
begin

text \<open>
  QuantumAtlas: verification of the core of its Go server and download worker.

  The server (\<open>src/cmd/qatlasd\<close>) keeps a catalog of papers, converts their PDFs to structured text
  through the MinerU service, and serves both to browsers, agents and remote workers. The theories
  follow its packages under \<open>src/internal\<close>; every definition that models code keeps the name of the
  function it models, in lower case with underscores.

  Parts and theories.

  \<^item> \<open>Prelude\<close>: results, instants (nanoseconds as \<open>nat\<close>, with Go's zero time as 0), the parts of Go's
    package \<open>strings\<close> in use, Go's truncating division, and finite maps as association lists with
    distinct keys (\<open>gomap\<close>), which stand for Go maps whose elements are counted or listed.
  \<^item> \<open>Pat_Scopes\<close>: the scope vocabulary, the policy table and the default rate limits (\<open>pat/scopes.go\<close>,
    \<open>pat/ratelimits.go\<close>). \<open>Pat_Tokens\<close>: personal access tokens, the system token and the verify cache
    (\<open>pat/pat.go\<close>, \<open>system_pat.go\<close>, \<open>cache.go\<close>). \<open>Auth_Guard\<close>: the guards of the routes and the token
    endpoints (\<open>routes/auth.go\<close>, \<open>scope_guard.go\<close>, \<open>admin.go\<close>, \<open>pat.go\<close>); the locale \<open>scope_enforcer\<close> is what
    a guarded handler may rely on.
  \<^item> \<open>Oauth_Device\<close>: the device flow (\<open>oauthdevice\<close>, \<open>routes/oauthdevice.go\<close>): its five handlers, and the
    statements of concurrent handlers as one interleaved machine which they refine.
  \<^item> \<open>Spool\<close>: the result spool of the download worker (\<open>downloadworker/spool.go\<close>): records, files, the disk,
    every operation with every outcome of its I/O, and the restart.
  \<^item> \<open>Mineru_Errors\<close>: the classification of failures (\<open>mineru/errors.go\<close>). \<open>Key_Ring\<close>: the pool of API keys
    (\<open>mineru/keyring.go\<close>) and the rotation loop of \<open>convertSource\<close>; the locale \<open>key_pool\<close> is what the loop
    needs of a pool. \<open>Token_Admin\<close>: the durable token table and its administration
    (\<open>mineru/tokenstore.go\<close>, \<open>converter.go\<close>, \<open>routes/admin_mineru.go\<close>).
  \<^item> \<open>Converter\<close>: the job table, the queue estimate and \<open>EnsureSource\<close> (\<open>mineru/converter.go\<close>, \<open>source.go\<close>).
    \<open>Convert_Machine\<close>: canonical ids to sources (\<open>compat.go\<close>), and the requests, workers and fetchers of
    the converter as one machine over the job table, the two semaphores and a multiset of goroutines.
  \<^item> \<open>Scheduler\<close>: the daily batch (\<open>mineru/scheduler.go\<close>), the query it reads (\<open>NeedsMineru\<close> in
    \<open>registry/assets.go\<close>) and its endpoints; the locale \<open>conversion_queue\<close> is the interface between the two.
  \<^item> \<open>Asset_Keys\<close>: arXiv ids, DOIs and object keys (\<open>paperassets/path.go\<close>, \<open>parse.go\<close>, \<open>doi.go\<close>,
    \<open>dual_read.go\<close>) and the way back from a key (\<open>stemFromKey\<close> in \<open>registry/sync.go\<close>).

  \<^item> \<open>Comment_Store\<close>: the comment threads (\<open>comments/comments.go\<close>, \<open>store.go\<close>) and both their stores, in memory
    (\<open>memstore.go\<close>) and in PostgreSQL (\<open>pgstore.go\<close> over the four tables of migration 00008): every method
    statement by statement, with every outcome of its calls and of the commit, and the refinement of the
    first by the second. \<open>Comment_Routes\<close>: the position of the incremental sync (\<open>since.go\<close>), the replay cache
    (\<open>idempotency.go\<close>), the anchors (\<open>anchors.go\<close>, \<open>routes/comments_anchor.go\<close>), the guards and all handlers
    (\<open>routes/comments.go\<close>, \<open>comments_blocks_wire.go\<close>). \<open>Comment_Machine\<close>: the writing handlers as one
    interleaved machine; the locale \<open>comment_store\<close> is what they rely on, interpreted on both stores.

  \<^item> \<open>Fleet_Store\<close>: the coordinator of the download workers (\<open>downloadfleet\<close>, migration 00004): its
    configuration, five tables and spool directory, and every operation, as \<open>service.go\<close>, \<open>workers.go\<close>,
    \<open>admissions.go\<close>, \<open>upload.go\<close>, \<open>transfer.go\<close> and \<open>maintenance.go\<close> have them. \<open>Fleet_Inv\<close>: the invariant of the
    tables, the bounds, and the kinds of change a row can see. \<open>Fleet_Tx\<close>: every transaction keeps them.
    \<open>Fleet_Machine\<close>: the transactions, transfers, callbacks and maintenance statements of any number of
    coordinators as one machine, and its invariant. \<open>Fleet_Safety\<close>: what holds of its runs, and the fit with the worker's
    \<open>Spool\<close>. \<open>Fleet_Service\<close>: a whole pass of \<open>Maintain\<close>, \<open>FetchPDF\<close>, \<open>Snapshot\<close>. \<open>Fleet_Routes\<close>: the worker routes of
    \<open>http.go\<close>; every operation of the service is shown to be a run of the machine.

  How the parts meet. A request passes a guard (\<open>Auth_Guard\<close>, over \<open>Pat_Tokens\<close> and \<open>Pat_Scopes\<close>); the
  device flow mints the tokens the guards accept. A content request reaches \<open>ensureCanonical\<close>
  (\<open>Convert_Machine\<close>), which calls \<open>EnsureSource\<close> (\<open>Converter\<close>) and starts workers that draw keys from the
  \<open>Key_Ring\<close> and classify their failures by \<open>Mineru_Errors\<close>; the \<open>Scheduler\<close> drives the same entry point over
  the queue, and \<open>Token_Admin\<close> changes the ring under it. The comment handlers run behind the same
  authentication, and take their actor from the record the guard has put into the request. A worker claims a paper
  from the coordinator, keeps what it fetches in its spool, uploads it, and forgets it on a receipt of the
  coordinator; \<open>worker_forgets_archived\<close> joins the two ends.

  Concurrency. Code under one mutex, or one SQL statement, is one step; the machines of \<open>Oauth_Device\<close>,
  \<open>Convert_Machine\<close>, \<open>Comment_Machine\<close>, \<open>Fleet_Machine\<close>, \<open>Token_Admin\<close> (removal) and the slot of \<open>Scheduler\<close> interleave such steps freely, and
  their invariants are shown by rule induction over all runs. What code learns from the network, the
  database, the clock or the random source is an argument of the step or a function of a counter. In the fleet a
  transaction is one step, since it holds the scheduler lock or the locks of the rows it changes; an upload is four:
  reservation, transfer (which holds its two rows), archiving, cleaning. Any call can fail in it, and any commit
  can be lost or lose its acknowledgement. A handler that takes a mutex twice, as the run endpoint of the scheduler does for
  its answer and its snapshot, is two steps with whatever others do in between.

  Loops and bounds. Loops over lists recurse on the list. The rotation loop carries fuel, and
  \<open>convert_source_terminates\<close> gives the amount that is enough: one acquisition more than the ring has
  keys. The batch and its wait are \<open>partial_function (option)\<close>, None meaning that they do not return;
  \<open>batch_terminates\<close> shows that they do when the pending papers are finitely many and jobs end. A client that
  follows the cursor of a list of comments carries fuel too; \<open>pages_enumerate\<close> shows that one request more than
  there are matches is enough. Capacities are kept as the code has them: \<open>MaxConcurrentJobs\<close> and the fetch limit in \<open>conversions_bounded\<close>, the daily cap in
  \<open>daily_cap_respected\<close>, the spool size in \<open>spool_capacity\<close>. Counters are unbounded numbers.

  The lemmas. Each theory shows the invariant of its state and that every operation keeps it, then what the
  operations do on each branch, and ends with the properties and a witness for each, evaluated on concrete
  values. Some properties show what the code does against its intent: \<open>mark_hits_other_key\<close>,
  \<open>concurrent_removals_empty_pool\<close>, \<open>batch_stuck_at_head\<close>, \<open>doi_keys_collide\<close>; for the comments
  \<open>oversize_body_is_stored\<close>, \<open>concurrent_repeat_creates_twice\<close> and \<open>since_misses_edit\<close>.

  Hypotheses on what is not in the source: hash functions, upper- and lower-casing outside ASCII, the calendar
  (\<open>days_contiguous\<close>: a calendar day is one stretch of time) and a clock that does not go back are parameters
  with the stated laws. For the comments: minted ids are new to the store in memory (PostgreSQL checks its
  keys), \<open>text\<close> columns compare by bytes, a transaction that locks its row is one step, a response is written
  without an error unless the client is gone, and the JSON decoders and the rendering of times are parameters.
  For the fleet: the random id of a transfer is new and has 48 characters, ids contain no slash, JSON columns read back
  what was written, and SHA-256 and the removal of invalid UTF-8 are functions.

  Not modelled: the registry's identity resolution and leases (SQL over several tables), bundles and lazy loading;
  the HTTP client of MinerU and its result formats, search and ranking, ingest, configuration, start-up and API
  documentation, which are I/O, external services or floating point.
\<close>

end
